(* ===== verification/SnapPrelude.thy ===== *)
theory SnapPrelude
  imports Main "HOL-Library.Word" "HOL-Library.Char_ord" "HOL-Library.List_Lexorder"
begin

text \<open>
  What the components of the development share: the result type of operations that may
  throw, and its rules; machine integers narrowed from 64 bits; numbers printed as text
  (\<open>QString::arg\<close>); splitting a string at a separator; the values the code reads from
  outside the repository (clock, random bytes, Qt's number parser), collected in the
  record \<open>env\<close> that operations take as their first argument.

  \<open>QString\<close> is the program's string type: it is modelled as \<open>string\<close>, its \<open><\<close> as
  the lexicographic order of List_Lexorder, \<open>+\<close> and \<open>arg()\<close> as concatenation (the
  arguments are taken not to contain place markers \<open>%n\<close> themselves).
\<close>

named_theorems res_simps \<open>evaluation of results\<close>
named_theorems lit_simps \<open>checks on the literal names of the source\<close>

section \<open>Results: a C++ exception or a value\<close>

text \<open>
  One constructor per exception class the modelled code throws.
  \<open>Undefined_behaviour\<close> stands for a C++ operation outside its precondition (reading an
  end iterator), so that a model never computes past one.
\<close>

datatype exn =
    Invalid_message      \<comment> \<open>\<open>snap_communicator_invalid_message\<close>\<close>
  | Invalid_usage        \<comment> \<open>\<open>snaplock_exception_content_invalid_usage\<close>\<close>
  | Logic_error          \<comment> \<open>\<open>std::logic_error\<close>\<close>
  | Parameter_error      \<comment> \<open>\<open>snap_communicator_parameter_error\<close>\<close>
  | Out_of_range         \<comment> \<open>\<open>snap_string_list_exception_out_of_range\<close>\<close>
  | Implementation_error \<comment> \<open>\<open>snap_communicator_implementation_error\<close>\<close>
  | Invalid_parameters   \<comment> \<open>\<open>fuzzy_string_compare_exception_invalid_parameters\<close>\<close>
  | Snap_logic_error     \<comment> \<open>\<open>snap_logic_exception\<close>\<close>
  | Invalid_extension    \<comment> \<open>\<open>snap_version_exception_invalid_extension\<close>\<close>
  | Invalid_sequence     \<comment> \<open>\<open>content_exception_invalid_sequence\<close>\<close>
  | Invalid_path         \<comment> \<open>\<open>permissions_exception_invalid_path\<close>\<close>
  | Invalid_group_name   \<comment> \<open>\<open>permissions_exception_invalid_group_name\<close>\<close>
  | Access_denied        \<comment> \<open>\<open>snap_child::die(HTTP_CODE_ACCESS_DENIED)\<close>, which does not return\<close>
  | Database_out_of_range \<comment> \<open>\<open>snapdatabase_out_of_range\<close>\<close>
  | Database_logic_error \<comment> \<open>\<open>snapdatabase_logic_error\<close>\<close>
  | Snap_exception       \<comment> \<open>\<open>snap_exception\<close>\<close>
  | Runtime_error        \<comment> \<open>\<open>std::runtime_error\<close>\<close>
  | Addr_invalid         \<comment> \<open>\<open>addr::addr_invalid_argument\<close> of libaddr\<close>
  | Invalid_uri          \<comment> \<open>\<open>snap_uri_exception_invalid_uri\<close>\<close>
  | Invalid_uri_parameter \<comment> \<open>\<open>snap_uri_exception_invalid_parameter\<close>\<close>
  | Invalid_uri_path     \<comment> \<open>\<open>snap_uri_exception_invalid_path\<close>\<close>
  | Uri_out_of_bounds    \<comment> \<open>\<open>snap_uri_exception_out_of_bounds\<close>\<close>
  | Exclusive_parameters \<comment> \<open>\<open>snap_uri_exception_exclusive_parameters\<close>\<close>
  | Invalid_header_field_name \<comment> \<open>\<open>snap_child_exception_invalid_header_field_name\<close>\<close>
  | Invalid_header_value \<comment> \<open>\<open>snap_child_exception_invalid_header_value\<close>\<close>
  | Http_link_parameter  \<comment> \<open>\<open>http_link_parameter_exception\<close>\<close>
  | Http_cookie_parse    \<comment> \<open>\<open>http_cookie_parse_exception\<close>\<close>
  | Communicator_runtime_error \<comment> \<open>\<open>snap_communicator_runtime_error\<close>\<close>
  | Undefined_behaviour

type_synonym 'a res = "exn + 'a"

definition rbind :: "'a res \<Rightarrow> ('a \<Rightarrow> 'b res) \<Rightarrow> 'b res" where
  "rbind r f = (case r of Inl e \<Rightarrow> Inl e | Inr x \<Rightarrow> f x)"

primrec chain :: "('a \<Rightarrow> 'a res) list \<Rightarrow> 'a \<Rightarrow> 'a res" where
  "chain [] x = Inr x"
| "chain (f # fs) x = rbind (f x) (chain fs)"

lemma rbind_simps [simp, res_simps]:
  "rbind (Inl e) f = Inl e"
  "rbind (Inr x) f = f x"
  by (simp_all add: rbind_def)

lemma rbind_assoc: "rbind (rbind r f) g = rbind r (\<lambda>x. rbind (f x) g)"
  by (cases r) simp_all

lemma rbind_Inr_iff: "rbind r f = Inr y \<longleftrightarrow> (\<exists>x. r = Inr x \<and> f x = Inr y)"
  by (cases r) simp_all

lemma rbind_cong [fundef_cong]:
  "r = r' \<Longrightarrow> (\<And>x. r' = Inr x \<Longrightarrow> f x = f' x) \<Longrightarrow> rbind r f = rbind r' f'"
  by (cases r') simp_all

text \<open>
  \<open>returns r P\<close>: the operation returns, without an exception, a value satisfying \<open>P\<close>;
  \<open>unless_exn r P\<close>: if it returns, the value satisfies \<open>P\<close>.
\<close>

definition returns :: "'a res \<Rightarrow> ('a \<Rightarrow> bool) \<Rightarrow> bool" where
  "returns r P \<longleftrightarrow> (case r of Inl _ \<Rightarrow> False | Inr x \<Rightarrow> P x)"

definition unless_exn :: "'a res \<Rightarrow> ('a \<Rightarrow> bool) \<Rightarrow> bool" where
  "unless_exn r P \<longleftrightarrow> (case r of Inl _ \<Rightarrow> True | Inr x \<Rightarrow> P x)"

lemma returns_simps [simp]:
  "returns (Inr x) P = P x" "returns (Inl e) P = False"
  by (simp_all add: returns_def)

lemma unless_exn_simps [simp]:
  "unless_exn (Inr x) P = P x" "unless_exn (Inl e) P = True"
  by (simp_all add: unless_exn_def)

lemma returns_iff: "returns r P \<longleftrightarrow> (\<exists>x. r = Inr x \<and> P x)"
  by (cases r) simp_all

lemma unless_exn_iff: "unless_exn r P \<longleftrightarrow> (\<forall>x. r = Inr x \<longrightarrow> P x)"
  by (cases r) simp_all

lemma returns_rbind:
  "returns r P \<Longrightarrow> (\<And>x. P x \<Longrightarrow> returns (f x) Q) \<Longrightarrow> returns (rbind r f) Q"
  by (cases r) simp_all

lemma unless_exn_rbind:
  "unless_exn r P \<Longrightarrow> (\<And>x. P x \<Longrightarrow> unless_exn (f x) Q) \<Longrightarrow> unless_exn (rbind r f) Q"
  by (cases r) simp_all

lemma returns_mono: "returns r P \<Longrightarrow> (\<And>x. P x \<Longrightarrow> Q x) \<Longrightarrow> returns r Q"
  by (cases r) simp_all

lemma unless_exn_mono: "unless_exn r P \<Longrightarrow> (\<And>x. P x \<Longrightarrow> Q x) \<Longrightarrow> unless_exn r Q"
  by (cases r) simp_all

lemma returns_unless: "returns r P \<Longrightarrow> unless_exn r P"
  by (cases r) simp_all

lemma unless_exnD: "unless_exn r P \<Longrightarrow> r = Inr x \<Longrightarrow> P x"
  by simp

lemma unless_exnI: "(\<And>x. r = Inr x \<Longrightarrow> P x) \<Longrightarrow> unless_exn r P"
  by (cases r) simp_all

lemma unless_exn_True [simp]: "unless_exn r (\<lambda>_. True)"
  by (cases r) simp_all

section \<open>Machine integers\<close>

text \<open>
  A 64-bit value assigned to an \<open>int32_t\<close> keeps its low 32 bits (two's complement); to a
  \<open>size_t\<close>, its value modulo \<open>2 ^ 64\<close>. Unsigned 32-bit values are \<open>32 word\<close>.
\<close>

definition int32 :: "int \<Rightarrow> int" where
  "int32 x = (x + 2 ^ 31) mod 2 ^ 32 - 2 ^ 31"

definition size_t :: "int \<Rightarrow> nat" where
  "size_t x = nat (x mod 2 ^ 64)"

lemma int32_id: "- (2 ^ 31) \<le> x \<Longrightarrow> x < 2 ^ 31 \<Longrightarrow> int32 x = x"
  by (simp add: int32_def)

lemma int32_bounds: "- (2 ^ 31) \<le> int32 x \<and> int32 x < 2 ^ 31"
  by (simp add: int32_def)

lemma size_t_id: "0 \<le> x \<Longrightarrow> x < 2 ^ 64 \<Longrightarrow> size_t x = nat x"
  by (simp add: size_t_def)

section \<open>Numbers as text\<close>

definition digit :: "nat \<Rightarrow> char" where
  "digit d = (if d < 10 then char_of (48 + d) else char_of (87 + d))"

fun dec_nat :: "nat \<Rightarrow> string" where
  "dec_nat n = (if n < 10 then [digit n] else dec_nat (n div 10) @ [digit (n mod 10)])"

declare dec_nat.simps [simp del]

definition dec :: "int \<Rightarrow> string" where
  "dec i = (if i < 0 then CHR ''-'' # dec_nat (nat (- i)) else dec_nat (nat i))"

text \<open>
  \<open>hex_pad k n\<close> is the \<open>k\<close> low hexadecimal digits of \<open>n\<close>, which is what
  \<open>arg(n, k, 16, QChar('0'))\<close> prints when \<open>n < 16 ^ k\<close>.
\<close>

primrec hex_pad :: "nat \<Rightarrow> nat \<Rightarrow> string" where
  "hex_pad 0 n = []"
| "hex_pad (Suc k) n = hex_pad k (n div 16) @ [digit (n mod 16)]"

definition dec2 :: "int \<Rightarrow> string" where
  "dec2 i = (if 0 \<le> i \<and> i < 10 then CHR ''0'' # dec i else dec i)"

section \<open>Splitting\<close>

fun split_on :: "char \<Rightarrow> string \<Rightarrow> string list" where
  "split_on c [] = [[]]"
| "split_on c (x # xs) =
     (if x = c then [] # split_on c xs
      else (case split_on c xs of [] \<Rightarrow> [[x]] | w # ws \<Rightarrow> (x # w) # ws))"

definition at_segment :: "string list \<Rightarrow> nat \<Rightarrow> string res" where
  "at_segment l i = (if i < length l then Inr (l ! i) else Inl Out_of_range)"

section \<open>What the code reads from outside the repository\<close>

text \<open>
  \<open>time_now\<close> is \<open>time(nullptr)\<close>, read once per event (the model gives every reading
  within the handling of one event the same value); \<open>current_date\<close> the date in
  microseconds; \<open>random_byte\<close> one byte of \<open>RAND_bytes\<close>; \<open>pid_max\<close> the kernel's limit;
  \<open>messenger_timeout_date\<close> the timeout date of the connection to snapcommunicator.
  The number parsers are Qt's: \<open>Some v\<close> when \<open>ok\<close> is set. \<open>trimmed\<close> is
  \<open>QString::trimmed\<close>; \<open>replace_many\<close> is \<open>string_replace_many\<close> of the snapdev project.
  \<open>freed_read\<close> is what reading a pointer out of a map node gives after the node was
  erased, as a function of the pointer the node held (C++ leaves it undefined; a heap that
  has not reused the node gives the same pointer).
\<close>

record env =
  time_now :: int
  current_date :: int
  random_byte :: nat
  pid_max :: int
  messenger_timeout_date :: int
  to_long :: "string \<Rightarrow> int option"
  to_ulong :: "string \<Rightarrow> int option"
  to_uint_hex :: "string \<Rightarrow> int option"
  to_int :: "string \<Rightarrow> int option"
  trimmed :: "string \<Rightarrow> string"
  replace_many :: "string \<Rightarrow> (string \<times> string) list \<Rightarrow> string"
  freed_read :: "nat \<Rightarrow> nat"

end
