(* ===== verification/OrderedMap.thy ===== *)
theory OrderedMap
  imports SnapPrelude
begin

text \<open>
  \<open>std::map<QString, T>\<close> and \<open>QMap<QString, T>\<close>: an association list sorted strictly by
  key, so that iterating from \<open>begin()\<close> is walking the list. \<open>map_of\<close> is \<open>find()\<close>,
  \<open>om_put\<close> assignment through \<open>operator []\<close>, \<open>om_erase\<close> is \<open>erase()\<close>. The interface the
  clients rely on is the locale \<open>ordered_dict\<close>, interpreted here on these operations;
  the second half is the two-level map (object name, then key) of the lock daemon.
\<close>

type_synonym ('k, 'v) omap = "('k \<times> 'v) list"

fun om_put :: "'k::linorder \<Rightarrow> 'v \<Rightarrow> ('k, 'v) omap \<Rightarrow> ('k, 'v) omap" where
  "om_put k v [] = [(k, v)]"
| "om_put k v ((k', v') # m) =
     (if k < k' then (k, v) # (k', v') # m
      else if k = k' then (k, v) # m
      else (k', v') # om_put k v m)"

definition om_erase :: "'k \<Rightarrow> ('k, 'v) omap \<Rightarrow> ('k, 'v) omap" where
  "om_erase k m = filter (\<lambda>p. fst p \<noteq> k) m"

definition om_ok :: "('k::linorder, 'v) omap \<Rightarrow> bool" where
  "om_ok m \<longleftrightarrow> sorted_wrt (<) (map fst m)"

lemma om_ok_simps [simp]:
  "om_ok []"
  "om_ok (p # m) \<longleftrightarrow> (\<forall>q \<in> set m. fst p < fst q) \<and> om_ok m"
  by (auto simp: om_ok_def)

lemma set_om_put: "set (om_put k v m) \<subseteq> insert (k, v) (set m)"
  by (induction m rule: om_put.induct) auto

lemma om_ok_put [intro]: "om_ok m \<Longrightarrow> om_ok (om_put k v m)"
proof (induction k v m rule: om_put.induct)
  case (2 k v k' v' m)
  then show ?case
    using set_om_put [of k v m] by (auto simp: less_imp_le intro: less_trans)
qed simp

lemma om_ok_filter [intro]: "om_ok m \<Longrightarrow> om_ok (filter P m)"
  by (induction m) auto

lemma om_ok_erase [intro]: "om_ok m \<Longrightarrow> om_ok (om_erase k m)"
  by (auto simp: om_erase_def)

lemma map_of_om_put: "map_of (om_put k v m) = (map_of m)(k \<mapsto> v)"
  by (induction k v m rule: om_put.induct) auto

lemma map_of_om_erase: "map_of (om_erase k m) = (map_of m)(k := None)"
  by (induction m) (auto simp: om_erase_def)

lemma map_of_iff_mem: "om_ok m \<Longrightarrow> map_of m k = Some v \<longleftrightarrow> (k, v) \<in> set m"
proof (induction m)
  case (Cons p m)
  then show ?case by (cases p) (auto dest: map_of_SomeD)
qed simp

lemma om_ok_distinct: "om_ok m \<Longrightarrow> distinct (map fst m)"
  by (induction m) auto

section \<open>The interface\<close>

locale ordered_dict =
  fixes lookup :: "'m \<Rightarrow> 'k::linorder \<Rightarrow> 'v option"
    and put :: "'k \<Rightarrow> 'v \<Rightarrow> 'm \<Rightarrow> 'm"
    and erase :: "'k \<Rightarrow> 'm \<Rightarrow> 'm"
    and entries :: "'m \<Rightarrow> ('k \<times> 'v) list"
    and ok :: "'m \<Rightarrow> bool"
  assumes lookup_put: "lookup (put k v m) = (lookup m)(k \<mapsto> v)"
    and lookup_erase: "lookup (erase k m) = (lookup m)(k := None)"
    and ok_put: "ok m \<Longrightarrow> ok (put k v m)"
    and ok_erase: "ok m \<Longrightarrow> ok (erase k m)"
    and entries_sorted: "ok m \<Longrightarrow> sorted_wrt (<) (map fst (entries m))"
    and lookup_entries: "ok m \<Longrightarrow> lookup m k = Some v \<longleftrightarrow> (k, v) \<in> set (entries m)"
begin

lemma lookup_put_same: "lookup (put k v m) k = Some v"
  by (simp add: lookup_put)

lemma lookup_put_other: "k' \<noteq> k \<Longrightarrow> lookup (put k v m) k' = lookup m k'"
  by (simp add: lookup_put)

lemma lookup_erase_same: "lookup (erase k m) k = None"
  by (simp add: lookup_erase)

lemma lookup_erase_other: "k' \<noteq> k \<Longrightarrow> lookup (erase k m) k' = lookup m k'"
  by (simp add: lookup_erase)

lemma begin_is_least:
  assumes "ok m" and "entries m = (k, v) # rest" and "lookup m k' = Some v'"
  shows "k \<le> k'"
proof -
  have "(k', v') \<in> set ((k, v) # rest)"
    using assms lookup_entries by metis
  moreover have "\<forall>q \<in> set rest. k < fst q"
    using entries_sorted [OF assms(1)] assms(2) by (auto simp: less_imp_le)
  ultimately show ?thesis by (auto simp: less_imp_le)
qed

lemma entries_empty: "ok m \<Longrightarrow> entries m = [] \<Longrightarrow> lookup m k = None"
  using lookup_entries [of m k] by (cases "lookup m k") auto

lemma lookup_unique:
  "ok m \<Longrightarrow> (k, v) \<in> set (entries m) \<Longrightarrow> (k, v') \<in> set (entries m) \<Longrightarrow> v = v'"
  using lookup_entries [of m k v] lookup_entries [of m k v'] by simp

end

interpretation om: ordered_dict map_of om_put om_erase "\<lambda>m. m" om_ok
  by unfold_locales
    (auto simp: map_of_om_put map_of_om_erase map_of_iff_mem om_ok_def [symmetric]
        intro: om_ok_put om_ok_erase simp del: map_of_eq_None_iff)

section \<open>Two levels: object name, then key\<close>

text \<open>
  \<open>snaplock_ticket::object_map_t\<close>: \<open>look2\<close> is the pair of \<open>find()\<close> calls the code makes,
  \<open>put2\<close> the assignment \<open>m[object][key] = v\<close>, \<open>set2\<close> replaces the inner map, removing
  the object when nothing is left of it, which every erasing operation of the daemon does.
\<close>

definition inner :: "'o \<Rightarrow> ('o, ('k, 'v) omap) omap \<Rightarrow> ('k, 'v) omap" where
  "inner ob m = (case map_of m ob of None \<Rightarrow> [] | Some km \<Rightarrow> km)"

definition look2 :: "('o, ('k, 'v) omap) omap \<Rightarrow> 'o \<Rightarrow> 'k \<Rightarrow> 'v option" where
  "look2 m ob k = map_of (inner ob m) k"

definition put2 ::
  "'o::linorder \<Rightarrow> 'k::linorder \<Rightarrow> 'v \<Rightarrow> ('o, ('k, 'v) omap) omap \<Rightarrow> ('o, ('k, 'v) omap) omap" where
  "put2 ob k v m = om_put ob (om_put k v (inner ob m)) m"

definition set2 ::
  "'o::linorder \<Rightarrow> ('k, 'v) omap \<Rightarrow> ('o, ('k, 'v) omap) omap \<Rightarrow> ('o, ('k, 'v) omap) omap" where
  "set2 ob km m = (if km = [] then om_erase ob m else om_put ob km m)"

definition om2_ok :: "('o::linorder, ('k::linorder, 'v) omap) omap \<Rightarrow> bool" where
  "om2_ok m \<longleftrightarrow> om_ok m \<and> (\<forall>p \<in> set m. om_ok (snd p))"

lemma inner_put2: "inner ob' (put2 ob k v m) = (if ob' = ob then om_put k v (inner ob m) else inner ob' m)"
  by (simp add: inner_def put2_def map_of_om_put)

lemma inner_set2: "inner ob' (set2 ob km m) = (if ob' = ob then km else inner ob' m)"
  by (simp add: inner_def set2_def map_of_om_put map_of_om_erase)

lemma inner_om_put: "inner ob' (om_put ob km m) = (if ob' = ob then km else inner ob' m)"
  by (simp add: inner_def map_of_om_put)

lemma inner_om_erase: "inner ob' (om_erase ob m) = (if ob' = ob then [] else inner ob' m)"
  by (simp add: inner_def map_of_om_erase)

lemma inner_Nil [simp]: "inner ob [] = []"
  by (simp add: inner_def)

lemma look2_put2:
  "look2 (put2 ob k v m) ob' k' = (if ob' = ob \<and> k' = k then Some v else look2 m ob' k')"
  by (simp add: look2_def inner_put2 map_of_om_put)

lemma om2_ok_Nil [simp]: "om2_ok []"
  by (simp add: om2_ok_def)

lemma om2_ok_inner: "om2_ok m \<Longrightarrow> om_ok (inner ob m)"
  by (auto simp: om2_ok_def inner_def split: option.splits dest!: map_of_SomeD)

lemma om_put_not_Nil [simp]: "om_put k v m \<noteq> []"
  by (induction k v m rule: om_put.induct) auto

lemma om2_ok_put2: "om2_ok m \<Longrightarrow> om2_ok (put2 ob k v m)"
  using om2_ok_inner [of m ob]
  by (auto simp: om2_ok_def put2_def dest!: set_om_put [THEN subsetD])

lemma om2_ok_set2: "om2_ok m \<Longrightarrow> om_ok km \<Longrightarrow> om2_ok (set2 ob km m)"
  by (auto simp: om2_ok_def set2_def om_erase_def dest!: set_om_put [THEN subsetD])

lemma look2_mem: "om2_ok m \<Longrightarrow> look2 m ob k = Some v \<longleftrightarrow> (k, v) \<in> set (inner ob m)"
  by (simp add: look2_def map_of_iff_mem om2_ok_inner)

lemma om2_ok_om_put: "om2_ok m \<Longrightarrow> om_ok km \<Longrightarrow> om2_ok (om_put ob km m)"
  by (auto simp: om2_ok_def dest!: set_om_put [THEN subsetD])

end
