(* ===== verification/CommMessage.thy ===== *)
theory CommMessage
  imports OrderedMap
begin

text \<open>
  \<open>snap_communicator_message\<close> of libsnapwebsites
  (\<open>libsnapwebsites/src/snapwebsites/snap_communicator.cpp\<close>): the message every daemon
  exchanges. The setters verify the names they are given and throw; the parameters are a
  \<open>QMap<QString, QString>\<close>. \<open>to_message\<close> prints a message on one line, \<open>from_message\<close>
  parses it. The field \<open>f_cached_message\<close>, which only caches the printed text, is left out.
\<close>

record message =
  m_sent_from_server :: string
  m_sent_from_service :: string
  m_server :: string
  m_service :: string
  m_command :: string
  m_parameters :: "(string, string) omap"

definition empty_message :: message where
  "empty_message =
     \<lparr>m_sent_from_server = [], m_sent_from_service = [], m_server = [], m_service = [],
      m_command = [], m_parameters = []\<rparr>"

section \<open>Names\<close>

definition name_char :: "bool \<Rightarrow> char \<Rightarrow> bool" where
  "name_char can_be_lowercase c \<longleftrightarrow>
     \<not> ((c < CHR ''a'' \<or> CHR ''z'' < c \<or> \<not> can_be_lowercase)
        \<and> (c < CHR ''A'' \<or> CHR ''Z'' < c)
        \<and> (c < CHR ''0'' \<or> CHR ''9'' < c)
        \<and> c \<noteq> CHR ''_'')"

definition first_digit :: "string \<Rightarrow> bool" where
  "first_digit name =
     (case name of [] \<Rightarrow> False | c # _ \<Rightarrow> CHR ''0'' \<le> c \<and> c \<le> CHR ''9'')"

definition verify_name :: "string \<Rightarrow> bool \<Rightarrow> bool \<Rightarrow> unit res" where
  "verify_name name can_be_empty can_be_lowercase =
     (if \<not> can_be_empty \<and> name = [] then Inl Invalid_message
      else if \<not> list_all (name_char can_be_lowercase) name then Inl Invalid_message
      else if first_digit name then Inl Invalid_message
      else Inr ())"

section \<open>Setters and getters\<close>

definition set_sent_from_server :: "string \<Rightarrow> message \<Rightarrow> message res" where
  "set_sent_from_server sent_from_server m =
     (if m_sent_from_server m \<noteq> sent_from_server then
        rbind (verify_name sent_from_server True True)
          (\<lambda>_. Inr (m\<lparr>m_sent_from_server := sent_from_server\<rparr>))
      else Inr m)"

definition set_sent_from_service :: "string \<Rightarrow> message \<Rightarrow> message res" where
  "set_sent_from_service sent_from_service m =
     (if m_sent_from_service m \<noteq> sent_from_service then
        rbind (verify_name sent_from_service True True)
          (\<lambda>_. Inr (m\<lparr>m_sent_from_service := sent_from_service\<rparr>))
      else Inr m)"

definition set_server :: "string \<Rightarrow> message \<Rightarrow> message res" where
  "set_server server m =
     (if m_server m \<noteq> server then
        rbind (if server \<noteq> ''.'' \<and> server \<noteq> ''*'' then verify_name server True True else Inr ())
          (\<lambda>_. Inr (m\<lparr>m_server := server\<rparr>))
      else Inr m)"

definition set_service :: "string \<Rightarrow> message \<Rightarrow> message res" where
  "set_service service m =
     (if m_service m \<noteq> service then
        rbind (if service \<noteq> ''*'' \<and> service \<noteq> ''?'' \<and> service \<noteq> ''.''
               then verify_name service True True else Inr ())
          (\<lambda>_. Inr (m\<lparr>m_service := service\<rparr>))
      else Inr m)"

definition reply_to :: "message \<Rightarrow> message \<Rightarrow> message res" where
  "reply_to message m =
     rbind (set_server (m_sent_from_server message) m) (set_service (m_sent_from_service message))"

definition set_command :: "string \<Rightarrow> message \<Rightarrow> message res" where
  "set_command command m =
     rbind (verify_name command False False)
       (\<lambda>_. Inr (if m_command m \<noteq> command then m\<lparr>m_command := command\<rparr> else m))"

definition add_parameter :: "string \<Rightarrow> string \<Rightarrow> message \<Rightarrow> message res" where
  "add_parameter name value m =
     rbind (verify_name name False True)
       (\<lambda>_. Inr (m\<lparr>m_parameters := om_put name value (m_parameters m)\<rparr>))"

definition add_integer_parameter :: "string \<Rightarrow> int \<Rightarrow> message \<Rightarrow> message res" where
  "add_integer_parameter name value m =
     rbind (verify_name name False True)
       (\<lambda>_. Inr (m\<lparr>m_parameters := om_put name (dec value) (m_parameters m)\<rparr>))"

definition has_parameter :: "message \<Rightarrow> string \<Rightarrow> bool res" where
  "has_parameter m name =
     rbind (verify_name name False True) (\<lambda>_. Inr (map_of (m_parameters m) name \<noteq> None))"

definition get_parameter :: "message \<Rightarrow> string \<Rightarrow> string res" where
  "get_parameter m name =
     rbind (verify_name name False True)
       (\<lambda>_. case map_of (m_parameters m) name of
          Some v \<Rightarrow> Inr v
        | None \<Rightarrow> Inl Invalid_message)"

definition get_integer_parameter :: "env \<Rightarrow> message \<Rightarrow> string \<Rightarrow> int res" where
  "get_integer_parameter E m name =
     rbind (verify_name name False True)
       (\<lambda>_. case map_of (m_parameters m) name of
          Some v \<Rightarrow> (case to_long E v of Some r \<Rightarrow> Inr r | None \<Rightarrow> Inl Invalid_message)
        | None \<Rightarrow> Inl Invalid_message)"

text \<open>Building a message is a sequence of setter calls on a default-constructed one.\<close>

definition build :: "(message \<Rightarrow> message res) list \<Rightarrow> message res" where
  "build ops = chain ops empty_message"

section \<open>Facts about names and setters\<close>

definition ok_name :: "string \<Rightarrow> bool" where
  "ok_name n \<longleftrightarrow> verify_name n True True = Inr ()"

definition ok_sender :: "message \<Rightarrow> bool" where
  "ok_sender m \<longleftrightarrow> ok_name (m_sent_from_server m) \<and> ok_name (m_sent_from_service m)"

lemma ok_name_Nil [simp]: "ok_name []"
  by (simp add: ok_name_def verify_name_def first_digit_def)

lemma set_server_ok: "ok_name n \<Longrightarrow> set_server n m = Inr (m\<lparr>m_server := n\<rparr>)"
  by (auto simp: set_server_def ok_name_def)

lemma set_service_ok: "ok_name n \<Longrightarrow> set_service n m = Inr (m\<lparr>m_service := n\<rparr>)"
  by (auto simp: set_service_def ok_name_def)

lemma set_sent_from_server_ok:
  "ok_name n \<Longrightarrow> set_sent_from_server n m = Inr (m\<lparr>m_sent_from_server := n\<rparr>)"
  by (auto simp: set_sent_from_server_def ok_name_def)

lemma set_sent_from_service_ok:
  "ok_name n \<Longrightarrow> set_sent_from_service n m = Inr (m\<lparr>m_sent_from_service := n\<rparr>)"
  by (auto simp: set_sent_from_service_def ok_name_def)

lemma set_service_special [lit_simps]:
  "set_service ''*'' m = Inr (m\<lparr>m_service := ''*''\<rparr>)"
  "set_service ''.'' m = Inr (m\<lparr>m_service := ''.''\<rparr>)"
  by (simp_all add: set_service_def)

lemma reply_to_ok:
  "ok_sender x \<Longrightarrow>
   reply_to x m = Inr (m\<lparr>m_server := m_sent_from_server x, m_service := m_sent_from_service x\<rparr>)"
  by (simp add: reply_to_def ok_sender_def set_server_ok set_service_ok)

text \<open>Where a setter returns, it has done one thing.\<close>

lemma setter_Inr:
  "set_server n m = Inr m' \<Longrightarrow> m' = m\<lparr>m_server := n\<rparr>"
  "set_service n m = Inr m' \<Longrightarrow> m' = m\<lparr>m_service := n\<rparr>"
  "set_sent_from_server n m = Inr m' \<Longrightarrow> m' = m\<lparr>m_sent_from_server := n\<rparr>"
  "set_sent_from_service n m = Inr m' \<Longrightarrow> m' = m\<lparr>m_sent_from_service := n\<rparr>"
  "set_command n m = Inr m' \<Longrightarrow> m' = m\<lparr>m_command := n\<rparr>"
  "add_parameter n v m = Inr m' \<Longrightarrow> m' = m\<lparr>m_parameters := om_put n v (m_parameters m)\<rparr>"
  "add_integer_parameter n i m = Inr m' \<Longrightarrow>
     m' = m\<lparr>m_parameters := om_put n (dec i) (m_parameters m)\<rparr>"
  by (auto simp: set_server_def set_service_def set_sent_from_server_def set_sent_from_service_def
      set_command_def add_parameter_def add_integer_parameter_def rbind_Inr_iff split: if_splits)

lemma reply_to_Inr:
  "reply_to x m = Inr m' \<Longrightarrow>
   m' = m\<lparr>m_server := m_sent_from_server x, m_service := m_sent_from_service x\<rparr>"
  by (auto simp: reply_to_def rbind_Inr_iff dest!: setter_Inr)

text \<open>The literal names of the daemons pass the check, so these steps never throw.\<close>

definition lit_command :: "string \<Rightarrow> bool" where
  "lit_command n \<longleftrightarrow> verify_name n False False = Inr ()"

definition lit_param :: "string \<Rightarrow> bool" where
  "lit_param n \<longleftrightarrow> verify_name n False True = Inr ()"

lemma set_command_lit: "lit_command n \<Longrightarrow> set_command n m = Inr (m\<lparr>m_command := n\<rparr>)"
  by (auto simp: set_command_def lit_command_def)

lemma add_parameter_lit:
  "lit_param n \<Longrightarrow> add_parameter n v m = Inr (m\<lparr>m_parameters := om_put n v (m_parameters m)\<rparr>)"
  by (auto simp: add_parameter_def lit_param_def)

lemma add_integer_parameter_lit:
  "lit_param n \<Longrightarrow>
   add_integer_parameter n i m = Inr (m\<lparr>m_parameters := om_put n (dec i) (m_parameters m)\<rparr>)"
  by (auto simp: add_integer_parameter_def lit_param_def)

lemma has_parameter_lit:
  "lit_param n \<Longrightarrow> has_parameter m n = Inr (map_of (m_parameters m) n \<noteq> None)"
  by (auto simp: has_parameter_def lit_param_def)

lemma get_parameter_lit:
  "lit_param n \<Longrightarrow>
   get_parameter m n =
     (case map_of (m_parameters m) n of Some v \<Rightarrow> Inr v | None \<Rightarrow> Inl Invalid_message)"
  by (auto simp: get_parameter_def lit_param_def)

lemma get_integer_parameter_lit:
  "lit_param n \<Longrightarrow>
   get_integer_parameter E m n =
     (case map_of (m_parameters m) n of
        Some v \<Rightarrow> (case to_long E v of Some r \<Rightarrow> Inr r | None \<Rightarrow> Inl Invalid_message)
      | None \<Rightarrow> Inl Invalid_message)"
  by (auto simp: get_integer_parameter_def lit_param_def)

lemma lit_commands [lit_simps]:
  "lit_command ''LOCK''" "lit_command ''LOCKED''" "lit_command ''LOCKFAILED''"
  "lit_command ''UNLOCKED''" "lit_command ''LOCKENTERING''" "lit_command ''LOCKENTERED''"
  "lit_command ''GETMAXTICKET''" "lit_command ''MAXTICKET''" "lit_command ''ADDTICKET''"
  "lit_command ''TICKETADDED''" "lit_command ''LOCKEXITING''" "lit_command ''TICKETREADY''"
  "lit_command ''ACTIVATELOCK''" "lit_command ''LOCKACTIVATED''" "lit_command ''DROPTICKET''"
  "lit_command ''ALIVE''" "lit_command ''LOCKLEADERS''" "lit_command ''LOCKSTARTED''"
  "lit_command ''LOCKTICKETS''" "lit_command ''LOCKREADY''" "lit_command ''NOLOCK''"
  "lit_command ''COMMANDS''" "lit_command ''ABSOLUTELY''" "lit_command ''UNKNOWN''"
  "lit_command ''UNREGISTER''" "lit_command ''CLUSTERSTATUS''" "lit_command ''TICKETLIST''"
  "lit_command ''UNLOCK''"
  by (simp_all add: lit_command_def verify_name_def name_char_def first_digit_def
      less_char_def less_eq_char_def)

lemma lit_params [lit_simps]:
  "lit_param ''object_name''" "lit_param ''key''" "lit_param ''error''" "lit_param ''pid''"
  "lit_param ''timeout''" "lit_param ''source''" "lit_param ''duration''"
  "lit_param ''unlock_duration''" "lit_param ''serial''" "lit_param ''ticket_id''"
  "lit_param ''other_key''" "lit_param ''lock_proxy_server_name''"
  "lit_param ''lock_proxy_service_name''" "lit_param ''timeout_date''"
  "lit_param ''timestamp''" "lit_param ''cache''" "lit_param ''server_name''"
  "lit_param ''lockid''" "lit_param ''starttime''" "lit_param ''election_date''"
  "lit_param ''leader0''" "lit_param ''leader1''" "lit_param ''leader2''"
  "lit_param ''tickets''" "lit_param ''neighbors_count''" "lit_param ''service''"
  "lit_param ''status''" "lit_param ''list''" "lit_param ''command''"
  "lit_param ''reply_timestamp''"
  by (simp_all add: lit_param_def verify_name_def name_char_def first_digit_def
      less_char_def less_eq_char_def)

lemma ok_name_lits [lit_simps]: "ok_name ''snaplock''" "ok_name ''snapcommunicator''"
  by (simp_all add: ok_name_def verify_name_def name_char_def first_digit_def
      less_char_def less_eq_char_def)

text \<open>The bundle that evaluates message building and reading.\<close>

lemmas message_simps =
  set_server_ok set_service_ok set_sent_from_server_ok set_sent_from_service_ok
  reply_to_ok set_command_lit add_parameter_lit add_integer_parameter_lit
  has_parameter_lit get_parameter_lit get_integer_parameter_lit lit_simps

end
