(* ===== verification/Numbers.thy ===== *)
theory Numbers
  imports SnapPrelude
begin

text \<open>
  Facts about numbers printed as text: the order of fixed-width hexadecimal and of
  two-digit decimal numbers, the characters they use, reading them back. The hypothesis
  \<open>numbers_ok\<close> states what the code relies on of Qt's number parsers, and \<open>std_env\<close> is a
  concrete environment that satisfies it.
\<close>

section \<open>Lexicographic order\<close>

lemma append_less_append:
  "length xs = length ys \<Longrightarrow>
   (xs @ us < ys @ vs) \<longleftrightarrow> (xs < ys \<or> (xs = ys \<and> us < (vs :: 'a::linorder list)))"
  by (induction xs ys rule: list_induct2) auto

lemma singleton_less [simp]: "[a] < [b] \<longleftrightarrow> a < (b::'a::linorder)"
  by simp

lemma of_char_digit: "d < 16 \<Longrightarrow> of_char (digit d) = (if d < 10 then 48 + d else 87 + d :: nat)"
  by (simp add: digit_def)

lemma digit_less: "a < 16 \<Longrightarrow> b < 16 \<Longrightarrow> digit a < digit b \<longleftrightarrow> a < b"
  by (simp add: less_char_def of_char_digit)

lemma digit_eq: "a < 16 \<Longrightarrow> b < 16 \<Longrightarrow> digit a = digit b \<longleftrightarrow> a = b"
  by (metis digit_less less_irrefl linorder_neqE_nat)

lemma length_hex_pad [simp]: "length (hex_pad k n) = k"
  by (induction k arbitrary: n) auto

lemma hex_pad_eq:
  "a < 16 ^ k \<Longrightarrow> b < 16 ^ k \<Longrightarrow> hex_pad k a = hex_pad k b \<longleftrightarrow> a = b"
proof (induction k arbitrary: a b)
  case (Suc k)
  have "a div 16 < 16 ^ k" "b div 16 < 16 ^ k"
    using Suc.prems by auto
  with Suc.IH have "hex_pad k (a div 16) = hex_pad k (b div 16) \<longleftrightarrow> a div 16 = b div 16"
    by blast
  then show ?case
    by (simp add: digit_eq) (metis div_mult_mod_eq)
qed simp

lemma hex_pad_less:
  "a < 16 ^ k \<Longrightarrow> b < 16 ^ k \<Longrightarrow> hex_pad k a < hex_pad k b \<longleftrightarrow> a < b"
proof (induction k arbitrary: a b)
  case (Suc k)
  have lt: "a div 16 < 16 ^ k" "b div 16 < 16 ^ k"
    using Suc.prems by auto
  have "hex_pad (Suc k) a < hex_pad (Suc k) b \<longleftrightarrow>
      a div 16 < b div 16 \<or> (a div 16 = b div 16 \<and> a mod 16 < b mod 16)"
    using lt by (simp add: append_less_append Suc.IH hex_pad_eq digit_less)
  also have "\<dots> \<longleftrightarrow> a < b"
    using div_mult_mod_eq [of a 16] div_mult_mod_eq [of b 16]
      mod_less_divisor [of 16 a] mod_less_divisor [of 16 b] by linarith
  finally show ?case .
qed simp

section \<open>Characters of printed numbers\<close>

definition digit_char :: "char \<Rightarrow> bool" where
  "digit_char c \<longleftrightarrow> c \<in> set ''0123456789abcdef''"

lemma digit_char_digit: "d < 16 \<Longrightarrow> digit_char (digit d)"
proof -
  have "list_all (\<lambda>d. digit_char (digit d)) [0..<16]"
    by code_simp
  then show "d < 16 \<Longrightarrow> digit_char (digit d)"
    by (simp add: list_all_iff)
qed

lemma hex_pad_chars: "c \<in> set (hex_pad k n) \<Longrightarrow> digit_char c"
  by (induction k arbitrary: n) (auto simp: digit_char_digit)

lemma dec_nat_chars: "c \<in> set (dec_nat n) \<Longrightarrow> digit_char c"
proof (induction n rule: dec_nat.induct)
  case (1 n)
  then show ?case
    by (subst (asm) dec_nat.simps) (auto simp: digit_char_digit split: if_splits)
qed

lemma dec_nat_not_Nil [simp]: "dec_nat n \<noteq> []"
  by (subst dec_nat.simps) simp

lemma dec_not_Nil [simp]: "dec i \<noteq> []"
  by (simp add: dec_def)

lemma dec_chars: "c \<in> set (dec i) \<Longrightarrow> digit_char c \<or> c = CHR ''-''"
  by (auto simp: dec_def dest: dec_nat_chars split: if_splits)

lemma dec_no_separator:
  "CHR ''/'' \<notin> set (dec i)" "CHR ''|'' \<notin> set (dec i)" "CHR ''='' \<notin> set (dec i)"
  "CHR 0x0A \<notin> set (dec i)"
  by (auto dest!: dec_chars simp: digit_char_def)

lemma hex_pad_no_separator: "CHR ''/'' \<notin> set (hex_pad k n)"
  by (auto dest!: hex_pad_chars simp: digit_char_def)

section \<open>Splitting\<close>

lemma split_on_not_Nil [simp]: "split_on c s \<noteq> []"
  by (induction s) (auto split: list.splits)

lemma split_on_none: "c \<notin> set s \<Longrightarrow> split_on c s = [s]"
  by (induction s) auto

lemma split_on_append: "c \<notin> set s \<Longrightarrow> split_on c (s @ c # t) = s # split_on c t"
  by (induction s) auto

lemma split_on_at: "split_on c (s @ c # t) = split_on c s @ split_on c t"
proof (induction s)
  case (Cons x s)
  obtain w ws where "split_on c s = w # ws" using split_on_not_Nil [of c s] by (cases "split_on c s") auto
  with Cons show ?case by simp
qed simp

lemma length_split_on: "length (split_on c s) = Suc (count_list s c)"
  by (induction s) (auto split: list.splits)

lemma takeWhile_upto:
  assumes "c \<notin> set w" "r = [] \<or> hd r = c"
  shows "takeWhile (\<lambda>d. d \<noteq> c) (w @ r) = w" "dropWhile (\<lambda>d. d \<noteq> c) (w @ r) = r"
  using assms by (induction w) (auto, (cases r; simp)+)

section \<open>Reading numbers back\<close>

definition digit_val :: "char \<Rightarrow> nat option" where
  "digit_val c = (let v = of_char c :: nat in
     if 48 \<le> v \<and> v \<le> 57 then Some (v - 48)
     else if 97 \<le> v \<and> v \<le> 102 then Some (v - 87) else None)"

definition parse_step :: "nat \<Rightarrow> nat option \<Rightarrow> char \<Rightarrow> nat option" where
  "parse_step b acc c = (case acc of None \<Rightarrow> None | Some v \<Rightarrow>
     (case digit_val c of None \<Rightarrow> None | Some d \<Rightarrow> if d < b then Some (v * b + d) else None))"

definition parse_base :: "nat \<Rightarrow> string \<Rightarrow> nat option" where
  "parse_base b s = (if s = [] then None else foldl (parse_step b) (Some 0) s)"

definition parse_int :: "string \<Rightarrow> int option" where
  "parse_int s = (case s of [] \<Rightarrow> None
     | c # r \<Rightarrow> if c = CHR ''-'' then map_option (\<lambda>n. - int n) (parse_base 10 r)
                else map_option int (parse_base 10 s))"

lemma digit_val_digit: "d < 16 \<Longrightarrow> digit_val (digit d) = Some d"
  by (simp add: digit_val_def of_char_digit Let_def)

lemma parse_step_digit: "d < b \<Longrightarrow> b \<le> 16 \<Longrightarrow> parse_step b (Some v) (digit d) = Some (v * b + d)"
  by (simp add: parse_step_def digit_val_digit)

lemma fold_dec_nat: "foldl (parse_step 10) (Some 0) (dec_nat n) = Some n"
proof (induction n rule: dec_nat.induct)
  case (1 n)
  show ?case
  proof (cases "n < 10")
    case True
    then show ?thesis
      by (subst dec_nat.simps) (simp add: parse_step_digit)
  next
    case False
    with 1 show ?thesis
      by (subst dec_nat.simps) (simp add: parse_step_digit)
  qed
qed

lemma fold_hex_pad: "foldl (parse_step 16) (Some 0) (hex_pad k n) = Some (n mod 16 ^ k)"
proof (induction k arbitrary: n)
  case (Suc k)
  have "n div 16 mod 16 ^ k * 16 + n mod 16 = n mod (16 * 16 ^ k)"
    by (simp add: mod_mult2_eq)
  with Suc show ?case
    by (simp add: parse_step_digit)
qed simp

lemma parse_dec_nat: "parse_base 10 (dec_nat n) = Some n"
  by (simp add: parse_base_def fold_dec_nat)

lemma parse_int_dec: "parse_int (dec i) = Some i"
proof (cases "i < 0")
  case True
  then show ?thesis by (simp add: parse_int_def dec_def parse_dec_nat)
next
  case False
  then obtain c r where s: "dec_nat (nat i) = c # r"
    by (cases "dec_nat (nat i)") auto
  have "c \<noteq> CHR ''-''"
    using dec_nat_chars [of c "nat i"] s by (auto simp: digit_char_def)
  with False s show ?thesis
    using parse_dec_nat [of "nat i"] by (simp add: parse_int_def dec_def)
qed

lemma parse_int_zero: "0 \<le> i \<Longrightarrow> parse_int (CHR ''0'' # dec i) = Some i"
proof -
  assume i: "0 \<le> i"
  have z: "parse_step 10 (Some 0) (CHR ''0'') = Some 0"
    by (simp add: parse_step_def digit_val_def)
  show ?thesis
    using i by (simp add: parse_int_def parse_base_def dec_def z fold_dec_nat)
qed

lemma parse_hex_pad: "0 < k \<Longrightarrow> n < 16 ^ k \<Longrightarrow> parse_base 16 (hex_pad k n) = Some n"
  by (auto simp: parse_base_def fold_hex_pad dest: arg_cong [where f = length])

text \<open>
  What the code relies on of \<open>QString::toLong\<close>, \<open>toLongLong\<close>, \<open>toULong\<close>, \<open>toInt\<close> and
  \<open>toUInt(&ok, 16)\<close>: a number they can hold, printed by \<open>arg()\<close>, is read back.
\<close>

definition numbers_ok :: "env \<Rightarrow> bool" where
  "numbers_ok E \<longleftrightarrow>
     (\<forall>i. - (2 ^ 63) \<le> i \<and> i < 2 ^ 63 \<longrightarrow> to_long E (dec i) = Some i)
   \<and> (\<forall>i. 0 \<le> i \<and> i < 10 \<longrightarrow> to_long E (CHR ''0'' # dec i) = Some i)
   \<and> (\<forall>i. 0 \<le> i \<and> i < 2 ^ 64 \<longrightarrow> to_ulong E (dec i) = Some i)
   \<and> (\<forall>i. - (2 ^ 31) \<le> i \<and> i < 2 ^ 31 \<longrightarrow> to_int E (dec i) = Some i)
   \<and> (\<forall>n. n < 2 ^ 32 \<longrightarrow> to_uint_hex E (hex_pad 8 n) = Some (int n))"

lemma numbers_okD:
  assumes "numbers_ok E"
  shows "- (2 ^ 63) \<le> i \<Longrightarrow> i < 2 ^ 63 \<Longrightarrow> to_long E (dec i) = Some i"
    and "0 \<le> i \<Longrightarrow> i < 10 \<Longrightarrow> to_long E (CHR ''0'' # dec i) = Some i"
    and "0 \<le> i \<Longrightarrow> i < 2 ^ 64 \<Longrightarrow> to_ulong E (dec i) = Some i"
    and "- (2 ^ 31) \<le> i \<Longrightarrow> i < 2 ^ 31 \<Longrightarrow> to_int E (dec i) = Some i"
    and "n < 2 ^ 32 \<Longrightarrow> to_uint_hex E (hex_pad 8 n) = Some (int n)"
  using assms by (simp_all add: numbers_ok_def)

definition std_env :: "int \<Rightarrow> env" where
  "std_env now =
     \<lparr>time_now = now, current_date = now * 1000000, random_byte = 7, pid_max = 32768,
      messenger_timeout_date = -1,
      to_long = parse_int, to_ulong = parse_int,
      to_uint_hex = (\<lambda>s. map_option int (parse_base 16 s)), to_int = parse_int,
      trimmed = (\<lambda>s. s), replace_many = (\<lambda>s _. s),
      freed_read = (\<lambda>a. a)\<rparr>"

lemma std_env_simps [simp]:
  "time_now (std_env now) = now"
  "pid_max (std_env now) = 32768"
  "messenger_timeout_date (std_env now) = -1"
  "random_byte (std_env now) = 7"
  "current_date (std_env now) = now * 1000000"
  "freed_read (std_env now) a = a"
  by (simp_all add: std_env_def)

lemma numbers_ok_std_env [simp]: "numbers_ok (std_env now)"
proof -
  have "n < 2 ^ 32 \<Longrightarrow> parse_base 16 (hex_pad 8 n) = Some n" for n
    by (rule parse_hex_pad) simp_all
  then show ?thesis
    by (simp add: numbers_ok_def std_env_def parse_int_dec parse_int_zero)
qed

end
