(* ===== verification/LockComputer.thy ===== *)
theory LockComputer
  imports CommMessage Numbers
begin

text \<open>
  \<open>snaplock::computer_t\<close> (\<open>snaplock/src/snaplock.cpp\<close>, \<open>snaplock.h\<close>): what a lock daemon
  knows of a computer running snaplock, and the identifier by which elections rank it:
  \<open>priority|random|ip|pid|name\<close>, the priority printed on two digits. \<open>get_id\<close> caches the
  identifier in a mutable field; the fields it is made of do not change afterwards, so the
  model recomputes it.
\<close>

record computer =
  c_id :: string
  c_connected :: bool
  c_self :: bool
  c_priority :: int
  c_random_id :: int
  c_ip_address :: string
  c_pid :: int
  c_name :: string
  c_start_time :: int

abbreviation "PRIORITY_UNDEFINED \<equiv> (- 1 :: int)"
abbreviation "PRIORITY_USER_MIN \<equiv> (1 :: int)"
abbreviation "PRIORITY_DEFAULT \<equiv> (14 :: int)"
abbreviation "PRIORITY_OFF \<equiv> (15 :: int)"
abbreviation "PRIORITY_MAX \<equiv> (15 :: int)"

definition computer_t :: computer where
  "computer_t =
     \<lparr>c_id = [], c_connected = True, c_self = False, c_priority = PRIORITY_UNDEFINED,
      c_random_id = 0, c_ip_address = [], c_pid = 0, c_name = [], c_start_time = -1\<rparr>"

text \<open>
  The constructor for this computer: its process id, the random number and the address of
  \<open>snapcommunicator.conf\<close> come from outside.
\<close>

definition computer_self :: "int \<Rightarrow> int \<Rightarrow> string \<Rightarrow> string \<Rightarrow> int \<Rightarrow> computer" where
  "computer_self pid random ip name priority =
     computer_t\<lparr>c_self := True, c_priority := priority, c_pid := pid, c_name := name,
       c_random_id := random mod 2 ^ 32, c_ip_address := ip\<rparr>"

definition set_id :: "env \<Rightarrow> string \<Rightarrow> computer \<Rightarrow> (bool \<times> computer) res" where
  "set_id E i c =
     (if c_priority c \<noteq> PRIORITY_UNDEFINED then Inl Invalid_usage
      else
        let parts = split_on CHR ''|'' i in
        if length parts \<noteq> 5 then Inr (False, c)
        else
          let p = to_long E (parts ! 0);
              c1 = c\<lparr>c_priority := (case p of Some v \<Rightarrow> v | None \<Rightarrow> 0)\<rparr> in
          if p = None \<or> c_priority c1 < PRIORITY_USER_MIN \<or> c_priority c1 > PRIORITY_MAX
          then Inr (False, c1)
          else
            let c2 = c1\<lparr>c_random_id :=
                       (case to_ulong E (parts ! 1) of Some v \<Rightarrow> v | None \<Rightarrow> 0) mod 2 ^ 32,
                        c_ip_address := parts ! 2\<rparr> in
            if c_ip_address c2 = [] then Inr (False, c2)
            else
              let q = to_long E (parts ! 3);
                  c3 = c2\<lparr>c_pid := int32 (case q of Some v \<Rightarrow> v | None \<Rightarrow> 0)\<rparr> in
              if q = None \<or> c_pid c3 < 1 \<or> c_pid c3 > pid_max E then Inr (False, c3)
              else
                let c4 = c3\<lparr>c_name := parts ! 4\<rparr> in
                if c_name c4 = [] then Inr (False, c4)
                else Inr (True, c4\<lparr>c_id := i\<rparr>))"

definition get_id :: "computer \<Rightarrow> string res" where
  "get_id c =
     (if c_id c = [] then
        if c_priority c = PRIORITY_UNDEFINED then Inl Invalid_usage
        else if c_ip_address c = [] then Inl Invalid_usage
        else if c_pid c = 0 then Inl Invalid_usage
        else Inr (dec2 (c_priority c) @ CHR ''|'' # dec (c_random_id c) @ CHR ''|''
                  # c_ip_address c @ CHR ''|'' # dec (c_pid c) @ CHR ''|'' # c_name c)
      else Inr (c_id c))"

section \<open>Well-formed computers\<close>

text \<open>
  A computer whose identifier can be computed: this computer with its configuration in
  range, or one accepted by \<open>set_id\<close>.
\<close>

definition computer_ok :: "env \<Rightarrow> computer \<Rightarrow> bool" where
  "computer_ok E c \<longleftrightarrow>
     PRIORITY_USER_MIN \<le> c_priority c \<and> c_priority c \<le> PRIORITY_MAX
   \<and> 0 \<le> c_random_id c \<and> c_random_id c < 2 ^ 32
   \<and> c_ip_address c \<noteq> [] \<and> CHR ''|'' \<notin> set (c_ip_address c)
   \<and> 1 \<le> c_pid c \<and> c_pid c \<le> pid_max E \<and> c_pid c < 2 ^ 31
   \<and> c_name c \<noteq> [] \<and> CHR ''|'' \<notin> set (c_name c)"

lemma dec2_no_bar: "CHR ''|'' \<notin> set (dec2 p)"
  using dec_no_separator [of p] by (simp add: dec2_def)

lemma split_id:
  assumes "CHR ''|'' \<notin> set ip" and "CHR ''|'' \<notin> set name"
  shows "split_on CHR ''|'' (dec2 p @ CHR ''|'' # dec r @ CHR ''|'' # ip @ CHR ''|''
           # dec q @ CHR ''|'' # name) = [dec2 p, dec r, ip, dec q, name]"
  using assms dec2_no_bar [of p] dec_no_separator [of r] dec_no_separator [of q]
  by (simp add: split_on_append split_on_none)

lemma to_long_dec2:
  "numbers_ok E \<Longrightarrow> 0 \<le> p \<Longrightarrow> p < 100 \<Longrightarrow> to_long E (dec2 p) = Some p"
  by (simp add: dec2_def numbers_okD)

lemma set_id_get_id_aux:
  assumes E: "numbers_ok E" and c: "computer_ok E c" and i: "c_id c = []"
  shows "returns (get_id c) (\<lambda>i. returns (set_id E i computer_t) (\<lambda>(ok, d). ok
           \<and> c_id d = i \<and> c_priority d = c_priority c \<and> c_random_id d = c_random_id c
           \<and> c_ip_address d = c_ip_address c \<and> c_pid d = c_pid c \<and> c_name d = c_name c))"
proof -
  have bounds: "0 \<le> c_priority c" "c_priority c < 100" "- (2 ^ 63) \<le> c_pid c"
    "c_pid c < 2 ^ 63" "c_random_id c < 2 ^ 64" "int32 (c_pid c) = c_pid c"
    using c by (simp_all add: computer_ok_def int32_id)
  show ?thesis
    using assms bounds
    by (simp add: get_id_def computer_ok_def set_id_def computer_t_def split_id Let_def
        to_long_dec2 numbers_okD)
qed

text \<open>Two digits keep the numeric order of priorities, so the identifier ranks by priority.\<close>

lemma dec_small: "0 \<le> p \<Longrightarrow> p < 10 \<Longrightarrow> dec p = [digit (nat p)]"
  by (simp add: dec_def dec_nat.simps)

lemma dec_medium: "10 \<le> p \<Longrightarrow> p < 100 \<Longrightarrow> dec p = [digit (nat p div 10), digit (nat p mod 10)]"
proof -
  assume "10 \<le> p" "p < 100"
  then have "\<not> nat p < 10" "nat p div 10 < 10" by auto
  with \<open>10 \<le> p\<close> show ?thesis
    by (simp add: dec_def dec_nat.simps [of "nat p"] dec_nat.simps [of "nat p div 10"])
qed

lemma digit_0: "digit 0 = CHR ''0''"
  by code_simp

lemma dec2_digits:
  "0 \<le> p \<Longrightarrow> p < 100 \<Longrightarrow> dec2 p = [digit (nat p div 10), digit (nat p mod 10)]"
  by (cases "p < 10") (simp_all add: dec2_def dec_small dec_medium digit_0)

lemma dec2_less:
  assumes "0 \<le> p" "p < 100" "0 \<le> q" "q < 100"
  shows "dec2 p < dec2 q \<longleftrightarrow> p < q"
proof -
  have "nat p div 10 < 16" "nat q div 10 < 16" "nat p mod 10 < 16" "nat q mod 10 < 16"
    using assms by auto
  then have "dec2 p < dec2 q \<longleftrightarrow>
      nat p div 10 < nat q div 10 \<or> (nat p div 10 = nat q div 10 \<and> nat p mod 10 < nat q mod 10)"
    using assms by (simp add: dec2_digits digit_less digit_eq)
  also have "\<dots> \<longleftrightarrow> nat p < nat q"
    using div_mult_mod_eq [of "nat p" 10] div_mult_mod_eq [of "nat q" 10]
      mod_less_divisor [of 10 "nat p"] mod_less_divisor [of 10 "nat q"] by linarith
  finally show ?thesis using assms by auto
qed

lemma length_dec2: "0 \<le> p \<Longrightarrow> p < 100 \<Longrightarrow> length (dec2 p) = 2"
  by (simp add: dec2_digits)

lemma get_id_less:
  assumes "computer_ok E c" "computer_ok E d" "c_id c = []" "c_id d = []"
    and "c_priority c < c_priority d"
  shows "get_id c = Inr i \<Longrightarrow> get_id d = Inr j \<Longrightarrow> i < j"
  using assms
  by (auto simp: get_id_def computer_ok_def append_less_append length_dec2 dec2_less
      split: if_splits)

end
