(* ===== verification/LockState.thy ===== *)
theory LockState
  imports LockComputer
begin

unbundle bit_operations_syntax

text \<open>
  The state of a lock daemon (\<open>class snaplock\<close> and \<open>class snaplock_ticket\<close> of
  \<open>snaplock/src/snaplock.h\<close>) and the operations that only read it or send messages.

  Tickets and computers are shared through \<open>shared_ptr\<close>: a ticket is at the same time in
  the map of entering tickets, in the map of tickets and in the \<open>f_still_entering\<close> map of
  other tickets. The model has an explicit store for each (\<open>sl_heap\<close>, \<open>sl_pcs\<close>), the maps
  hold addresses. Messages sent are appended to \<open>sl_outbox\<close>; \<open>sl_timer\<close> is the date set in
  the daemon's timer. \<open>sl_messenger\<close> is the connection to snapcommunicator: \<open>None\<close> once it
  was reset, else whether it is connected; \<open>sl_running\<close> says that the communicator still
  holds the daemon's timer and signals.
\<close>

record ticket =
  f_object_name :: string
  f_obtention_timeout :: int
  f_alive_timeout :: int
  f_lock_duration :: int
  f_unlock_duration :: int
  f_server_name :: string
  f_service_name :: string
  f_owner :: string
  f_serial :: "32 word"
  f_entering_key :: string
  f_get_max_ticket :: bool
  f_our_ticket :: "32 word"
  f_added_ticket :: bool
  f_ticket_key :: string
  f_added_ticket_quorum :: bool
  f_still_entering :: "(string, nat) omap"
  f_ticket_ready :: bool
  f_locked :: bool
  f_lock_timeout :: int
  f_lock_failed :: bool

abbreviation "NO_SERIAL \<equiv> (- 1 :: 32 word)"
abbreviation "NO_TICKET \<equiv> (0 :: 32 word)"

type_synonym object_map = "(string, (string, nat) omap) omap"

record snaplock =
  sl_service_name :: string
  sl_messenger :: "bool option"
  sl_messenger_done :: bool
  sl_running :: bool
  sl_start_time :: int
  sl_server_name :: string
  sl_neighbors_count :: nat
  sl_neighbors_quorum :: nat
  sl_my_id :: string
  sl_my_ip_address :: string
  sl_lock_status :: string
  sl_computers :: "(string, nat) omap"
  sl_leaders :: "nat list"
  sl_next_leader :: nat
  sl_message_cache :: "(int \<times> message) list"
  sl_entering_tickets :: object_map
  sl_tickets :: object_map
  sl_election_date :: int
  sl_ticket_serial :: "32 word"
  sl_pace_lockstarted :: int
  sl_timer :: int
  sl_outbox :: "message list"
  sl_heap :: "nat \<Rightarrow> ticket"
  sl_next_ticket :: nat
  sl_pcs :: "nat \<Rightarrow> computer"
  sl_next_pc :: nat

section \<open>Durations (\<open>snap_lock.h\<close>)\<close>

definition SNAP_LOCK_DEFAULT_TIMEOUT :: int where "SNAP_LOCK_DEFAULT_TIMEOUT = 5"
definition SNAP_LOCK_MINIMUM_TIMEOUT :: int where "SNAP_LOCK_MINIMUM_TIMEOUT = 3"
definition SNAP_UNLOCK_MINIMUM_TIMEOUT :: int where "SNAP_UNLOCK_MINIMUM_TIMEOUT = 60"
definition SNAP_UNLOCK_USES_LOCK_TIMEOUT :: int where "SNAP_UNLOCK_USES_LOCK_TIMEOUT = -1"
definition SNAP_MAXIMUM_TIMEOUT :: int where "SNAP_MAXIMUM_TIMEOUT = 7 * 24 * 60 * 60"
definition DEFAULT_TIMEOUT :: int where "DEFAULT_TIMEOUT = 5"

lemmas timeout_defs =
  SNAP_LOCK_DEFAULT_TIMEOUT_def SNAP_LOCK_MINIMUM_TIMEOUT_def SNAP_UNLOCK_MINIMUM_TIMEOUT_def
  SNAP_UNLOCK_USES_LOCK_TIMEOUT_def SNAP_MAXIMUM_TIMEOUT_def DEFAULT_TIMEOUT_def

definition clamp_duration :: "int \<Rightarrow> int" where
  "clamp_duration d =
     (if d < SNAP_UNLOCK_MINIMUM_TIMEOUT then SNAP_UNLOCK_MINIMUM_TIMEOUT
      else if d > SNAP_MAXIMUM_TIMEOUT then SNAP_MAXIMUM_TIMEOUT
      else d)"

definition set_unlock_duration :: "int \<Rightarrow> ticket \<Rightarrow> ticket" where
  "set_unlock_duration duration t =
     (let d = (if duration = SNAP_UNLOCK_USES_LOCK_TIMEOUT then f_lock_duration t else duration) in
      if d < SNAP_UNLOCK_MINIMUM_TIMEOUT
      then t\<lparr>f_unlock_duration := SNAP_UNLOCK_MINIMUM_TIMEOUT\<rparr>
      else if d > SNAP_MAXIMUM_TIMEOUT
      then t\<lparr>f_unlock_duration := SNAP_MAXIMUM_TIMEOUT\<rparr>
      else t\<lparr>f_unlock_duration := d\<rparr>)"

definition default_ticket :: ticket where
  "default_ticket =
     \<lparr>f_object_name = [], f_obtention_timeout = 0, f_alive_timeout = 0, f_lock_duration = 0,
      f_unlock_duration = 0, f_server_name = [], f_service_name = [], f_owner = [],
      f_serial = NO_SERIAL, f_entering_key = [], f_get_max_ticket = False,
      f_our_ticket = NO_TICKET, f_added_ticket = False, f_ticket_key = [],
      f_added_ticket_quorum = False, f_still_entering = [], f_ticket_ready = False,
      f_locked = False, f_lock_timeout = 0, f_lock_failed = False\<rparr>"

text \<open>The constructor of \<open>snaplock_ticket\<close>; the owner is the daemon that creates it.\<close>

definition snaplock_ticket ::
  "snaplock \<Rightarrow> string \<Rightarrow> string \<Rightarrow> int \<Rightarrow> int \<Rightarrow> string \<Rightarrow> string \<Rightarrow> ticket" where
  "snaplock_ticket s object_name entering_key obtention_timeout lock_duration
       server_name service_name =
     (let d = clamp_duration lock_duration in
      set_unlock_duration d
        (default_ticket\<lparr>f_object_name := object_name, f_obtention_timeout := obtention_timeout,
           f_lock_duration := d, f_server_name := server_name, f_service_name := service_name,
           f_owner := sl_server_name s, f_entering_key := entering_key\<rparr>))"

section \<open>Ticket accessors\<close>

definition get_current_timeout :: "ticket \<Rightarrow> int" where
  "get_current_timeout t =
     (if f_alive_timeout t > 0 then f_alive_timeout t
      else if f_locked t then f_lock_timeout t
      else f_obtention_timeout t)"

definition timed_out :: "env \<Rightarrow> ticket \<Rightarrow> bool" where
  "timed_out E t \<longleftrightarrow> get_current_timeout t \<le> time_now E"

definition set_alive_timeout :: "int \<Rightarrow> ticket \<Rightarrow> ticket" where
  "set_alive_timeout timeout t =
     (let d = (if timeout < 0 then 0 else timeout) in
      if d < f_obtention_timeout t then t\<lparr>f_alive_timeout := d\<rparr>
      else t\<lparr>f_alive_timeout := f_obtention_timeout t\<rparr>)"

definition get_client_pid :: "env \<Rightarrow> ticket \<Rightarrow> int res" where
  "get_client_pid E t =
     (let segments = split_on CHR ''/'' (f_entering_key t) in
      if length segments \<noteq> 2 then Inl Invalid_usage
      else Inr (case to_int E (segments ! 1) of Some v \<Rightarrow> v | None \<Rightarrow> 0))"

text \<open>
  \<open>QString("%1/%2").arg(f_our_ticket, 8, 16, QChar('0')).arg(f_entering_key)\<close>: the number on
  eight hexadecimal digits, so that the keys sort by number.
\<close>

definition make_ticket_key :: "32 word \<Rightarrow> string \<Rightarrow> string" where
  "make_ticket_key n entering_key = hex_pad 8 (unat n) @ CHR ''/'' # entering_key"

definition make_entering_key :: "string \<Rightarrow> int \<Rightarrow> string" where
  "make_entering_key server_name client_pid = server_name @ CHR ''/'' # dec client_pid"

section \<open>Store\<close>

definition upd_ticket :: "nat \<Rightarrow> (ticket \<Rightarrow> ticket) \<Rightarrow> snaplock \<Rightarrow> snaplock" where
  "upd_ticket a f s = s\<lparr>sl_heap := (sl_heap s)(a := f (sl_heap s a))\<rparr>"

definition new_ticket :: "ticket \<Rightarrow> snaplock \<Rightarrow> nat \<times> snaplock" where
  "new_ticket t s =
     (sl_next_ticket s,
      s\<lparr>sl_heap := (sl_heap s)(sl_next_ticket s := t), sl_next_ticket := Suc (sl_next_ticket s)\<rparr>)"

definition upd_pc :: "nat \<Rightarrow> (computer \<Rightarrow> computer) \<Rightarrow> snaplock \<Rightarrow> snaplock" where
  "upd_pc a f s = s\<lparr>sl_pcs := (sl_pcs s)(a := f (sl_pcs s a))\<rparr>"

definition new_pc :: "computer \<Rightarrow> snaplock \<Rightarrow> nat \<times> snaplock" where
  "new_pc c s =
     (sl_next_pc s,
      s\<lparr>sl_pcs := (sl_pcs s)(sl_next_pc s := c), sl_next_pc := Suc (sl_next_pc s)\<rparr>)"

section \<open>Sending\<close>

definition send_message :: "message \<Rightarrow> snaplock \<Rightarrow> snaplock" where
  "send_message m s = s\<lparr>sl_outbox := sl_outbox s @ [m]\<rparr>"

definition send_built :: "message res \<Rightarrow> snaplock \<Rightarrow> snaplock res" where
  "send_built r s = rbind r (\<lambda>m. Inr (send_message m s))"

section \<open>Computers, quorum and leaders\<close>

definition get_computer_count :: "snaplock \<Rightarrow> nat" where
  "get_computer_count s = length (sl_computers s)"

definition quorum :: "snaplock \<Rightarrow> nat" where
  "quorum s = length (sl_computers s) div 2 + 1"

fun find_leader :: "(nat \<Rightarrow> computer) \<Rightarrow> string \<Rightarrow> nat list \<Rightarrow> nat option res" where
  "find_leader pcs i [] = Inr None"
| "find_leader pcs i (l # ls) =
     rbind (get_id (pcs l)) (\<lambda>j. if j = i then Inr (Some l) else find_leader pcs i ls)"

definition is_leader :: "snaplock \<Rightarrow> string \<Rightarrow> nat option res" where
  "is_leader s i = find_leader (sl_pcs s) (if i = [] then sl_my_id s else i) (sl_leaders s)"

definition get_leader_a :: "snaplock \<Rightarrow> nat option res" where
  "get_leader_a s =
     (case length (sl_leaders s) of
        Suc 0 \<Rightarrow> Inr None
      | Suc (Suc 0) \<Rightarrow>
          Inr (Some (sl_leaders s ! (if c_self (sl_pcs s (sl_leaders s ! 0)) then 1 else 0)))
      | Suc (Suc (Suc 0)) \<Rightarrow>
          Inr (Some (sl_leaders s ! (if c_self (sl_pcs s (sl_leaders s ! 0)) then 1 else 0)))
      | _ \<Rightarrow> Inl Invalid_usage)"

definition get_leader_b :: "snaplock \<Rightarrow> nat option res" where
  "get_leader_b s =
     (case length (sl_leaders s) of
        Suc 0 \<Rightarrow> Inr None
      | Suc (Suc 0) \<Rightarrow> Inr None
      | Suc (Suc (Suc 0)) \<Rightarrow>
          Inr (Some (sl_leaders s ! (if c_self (sl_pcs s (sl_leaders s ! 2)) then 1 else 2)))
      | _ \<Rightarrow> Inl Invalid_usage)"

text \<open>
  \<open>snaplock_ticket::send_message_to_leaders\<close>: the message is completed in place (the
  caller sees the changes), sent to the other leaders, and the result says whether an
  answer is to be expected.
\<close>

definition send_message_to_leaders ::
  "nat \<Rightarrow> message \<Rightarrow> snaplock \<Rightarrow> (message \<times> bool \<times> snaplock) res" where
  "send_message_to_leaders a message s =
     rbind (chain [set_service ''snaplock'',
                   add_parameter ''object_name'' (f_object_name (sl_heap s a))] message) (\<lambda>m.
     rbind (get_leader_a s) (\<lambda>la.
     case la of
       None \<Rightarrow> Inr (m, get_computer_count s \<noteq> 1, s)
     | Some l \<Rightarrow>
         rbind (set_server (c_name (sl_pcs s l)) m) (\<lambda>m1.
         let s1 = send_message m1 s in
         rbind (get_leader_b s1) (\<lambda>lb.
         case lb of
           None \<Rightarrow> Inr (m1, True, s1)
         | Some l2 \<Rightarrow>
             rbind (set_server (c_name (sl_pcs s1 l2)) m1) (\<lambda>m2.
             Inr (m2, True, send_message m2 s1))))))"

fun add_leaders :: "(nat \<Rightarrow> computer) \<Rightarrow> nat \<Rightarrow> nat list \<Rightarrow> message \<Rightarrow> message res" where
  "add_leaders pcs i [] m = Inr m"
| "add_leaders pcs i (l # ls) m =
     rbind (get_id (pcs l)) (\<lambda>v.
     rbind (add_parameter (''leader'' @ dec (int i)) v m) (add_leaders pcs (Suc i) ls))"

definition send_lockstarted :: "message option \<Rightarrow> snaplock \<Rightarrow> snaplock res" where
  "send_lockstarted message s =
     send_built
       (build [set_command ''LOCKSTARTED'',
               (case message of None \<Rightarrow> set_service ''*'' | Some m \<Rightarrow> reply_to m),
               add_parameter ''server_name'' (sl_server_name s),
               add_parameter ''lockid'' (sl_my_id s),
               add_integer_parameter ''starttime'' (sl_start_time s),
               (if sl_leaders s \<noteq> []
                then chain [add_integer_parameter ''election_date'' (sl_election_date s),
                            add_leaders (sl_pcs s) 0 (sl_leaders s)]
                else Inr)]) s"

text \<open>
  The loop of \<open>is_ready\<close> over the leaders stops at the first one that is not connected,
  and then resends it a LOCKSTARTED, at most once every five seconds.
\<close>

fun first_disconnected :: "(nat \<Rightarrow> computer) \<Rightarrow> nat list \<Rightarrow> nat option" where
  "first_disconnected pcs [] = None"
| "first_disconnected pcs (l # ls) =
     (if \<not> c_connected (pcs l) then Some l else first_disconnected pcs ls)"

definition is_ready :: "env \<Rightarrow> snaplock \<Rightarrow> (bool \<times> snaplock) res" where
  "is_ready E s =
     (if sl_leaders s = [] then Inr (False, s)
      else if length (sl_leaders s) = 1 \<and> sl_neighbors_count s \<noteq> 1 then Inr (False, s)
      else if sl_neighbors_quorum s < 3 \<and> length (sl_computers s) < sl_neighbors_count s
      then Inr (False, s)
      else if length (sl_computers s) < sl_neighbors_quorum s then Inr (False, s)
      else
        case first_disconnected (sl_pcs s) (sl_leaders s) of
          None \<Rightarrow> Inr (True, s)
        | Some l \<Rightarrow>
            if time_now E > sl_pace_lockstarted s then
              rbind (chain [set_sent_from_server (c_name (sl_pcs s l)),
                            set_sent_from_service ''snaplock''] empty_message) (\<lambda>tmp.
              rbind (send_lockstarted (Some tmp) (s\<lparr>sl_pace_lockstarted := time_now E + 5\<rparr>))
                (\<lambda>s1. Inr (False, s1)))
            else Inr (False, s))"

end
