(* ===== verification/LockTicket.thy ===== *)
theory LockTicket
  imports LockState
begin

text \<open>
  The operations of \<open>snaplock_ticket\<close> (\<open>snaplock/src/snaplock_ticket.cpp\<close>) that touch one
  ticket and send messages. A ticket is named by its address \<open>a\<close> in the store.
\<close>

definition lock_activated :: "env \<Rightarrow> nat \<Rightarrow> snaplock \<Rightarrow> snaplock res" where
  "lock_activated E a s =
     (let t = sl_heap s a in
      if f_ticket_ready t \<and> \<not> f_locked t \<and> \<not> f_lock_failed t then
        let s1 = upd_ticket a (\<lambda>t. t\<lparr>f_locked := True,
                                     f_lock_timeout := f_lock_duration t + time_now E\<rparr>) s;
            t1 = sl_heap s1 a in
        if f_owner t1 = sl_server_name s1 then
          send_built (build [set_command ''LOCKED'',
                             set_server (f_server_name t1),
                             set_service (f_service_name t1),
                             add_parameter ''object_name'' (f_object_name t1),
                             add_integer_parameter ''timeout_date'' (f_lock_timeout t1)]) s1
        else Inr s1
      else Inr s)"

definition activate_lock :: "env \<Rightarrow> nat \<Rightarrow> snaplock \<Rightarrow> snaplock res" where
  "activate_lock E a s =
     (let t = sl_heap s a in
      if f_ticket_ready t \<and> \<not> f_locked t \<and> \<not> f_lock_failed t then
        rbind (build [set_command ''ACTIVATELOCK'', add_parameter ''key'' (f_ticket_key t)])
          (\<lambda>m. rbind (send_message_to_leaders a m s)
          (\<lambda>(_, sent, s1). if \<not> sent then lock_activated E a s1 else Inr s1))
      else Inr s)"

definition lock_failed :: "nat \<Rightarrow> snaplock \<Rightarrow> snaplock res" where
  "lock_failed a s =
     (if \<not> f_lock_failed (sl_heap s a) then
        let s1 = upd_ticket a (\<lambda>t. t\<lparr>f_lock_failed := True\<rparr>) s;
            s2 = (if f_locked (sl_heap s1 a)
                  then upd_ticket a
                         (\<lambda>t. t\<lparr>f_lock_timeout := f_lock_timeout t + f_unlock_duration t\<rparr>) s1
                  else s1);
            t = sl_heap s2 a in
        if f_owner t = sl_server_name s2 then
          (if f_locked t then
             send_built (build [set_command ''UNLOCKED'',
                                set_server (f_server_name t),
                                set_service (f_service_name t),
                                add_parameter ''object_name'' (f_object_name t),
                                add_parameter ''error'' ''timedout'']) s2
           else
             send_built (build [set_command ''LOCKFAILED'',
                                set_server (f_server_name t),
                                set_service (f_service_name t),
                                add_parameter ''object_name'' (f_object_name t),
                                add_parameter ''error'' ''failed'']) s2)
        else Inr s2
      else Inr s)"

definition drop_ticket :: "nat \<Rightarrow> snaplock \<Rightarrow> snaplock res" where
  "drop_ticket a s =
     (let t = sl_heap s a in
      rbind (build [set_command ''DROPTICKET'',
                    add_parameter ''key''
                      (if f_ticket_key t = [] then f_entering_key t else f_ticket_key t)])
        (\<lambda>m. rbind (send_message_to_leaders a m s) (\<lambda>(_, _, s1).
        if \<not> f_lock_failed (sl_heap s1 a) then
          let s2 = upd_ticket a (\<lambda>t. t\<lparr>f_lock_failed := True\<rparr>) s1;
              t2 = sl_heap s2 a in
          send_built (build [set_command ''UNLOCKED'',
                             set_server (f_server_name t2),
                             set_service (f_service_name t2),
                             add_parameter ''object_name'' (f_object_name t2)]) s2
        else Inr s1)))"

text \<open>
  \<open>remove_entering\<close>: the key that leaves the bakery's door is taken out of the set this
  ticket waits for, together with every entering ticket that timed out; when the set is
  empty the ticket is ready.
\<close>

definition remove_entering :: "env \<Rightarrow> nat \<Rightarrow> string \<Rightarrow> snaplock \<Rightarrow> snaplock res" where
  "remove_entering E a key s =
     (let t = sl_heap s a in
      if f_added_ticket_quorum t \<and> \<not> f_ticket_ready t
         \<and> map_of (f_still_entering t) key \<noteq> None then
        let left = filter (\<lambda>(k, b). \<not> timed_out E (sl_heap s b))
                     (om_erase key (f_still_entering t));
            s1 = upd_ticket a (\<lambda>t. t\<lparr>f_still_entering := left\<rparr>) s in
        if left = [] then
          let s2 = upd_ticket a (\<lambda>t. t\<lparr>f_ticket_ready := True\<rparr>) s1 in
          rbind (build [set_command ''TICKETREADY'',
                        add_parameter ''key'' (f_ticket_key (sl_heap s2 a))])
            (\<lambda>m. rbind (send_message_to_leaders a m s2) (\<lambda>(_, _, s3). Inr s3))
        else Inr s1
      else Inr s)"

definition set_owner :: "string \<Rightarrow> ticket \<Rightarrow> ticket" where
  "set_owner owner t = t\<lparr>f_owner := owner\<rparr>"

definition set_serial :: "32 word \<Rightarrow> ticket \<Rightarrow> ticket" where
  "set_serial serial t = t\<lparr>f_serial := serial\<rparr>"

definition set_ready :: "ticket \<Rightarrow> ticket" where
  "set_ready t = t\<lparr>f_ticket_ready := True\<rparr>"

definition set_ticket_number :: "32 word \<Rightarrow> ticket \<Rightarrow> ticket res" where
  "set_ticket_number number t =
     (if f_our_ticket t \<noteq> 0 then Inl Logic_error
      else if f_added_ticket t then Inl Logic_error
      else Inr (t\<lparr>f_added_ticket := True, f_our_ticket := number,
                 f_ticket_key := make_ticket_key number (f_entering_key t)\<rparr>))"

end
