(* ===== verification/LockDaemon.thy ===== *)
theory LockDaemon
  imports LockTicket
begin

text \<open>
  The core of the daemon (\<open>snaplock/src/snaplock.cpp\<close>): reading message parameters, the
  first ticket of an object and its activation, the removal of what timed out, the
  exit of a ticket from the bakery's door.
\<close>

section \<open>Parameters\<close>

text \<open>
  \<open>get_parameters\<close> takes pointers and reads the parameters whose pointer is not null, in
  this order; each has its own function here.
\<close>

definition get_object_name :: "message \<Rightarrow> string res" where
  "get_object_name message =
     rbind (get_parameter message ''object_name'')
       (\<lambda>v. if v = [] then Inl Invalid_message else Inr v)"

definition get_pid :: "env \<Rightarrow> message \<Rightarrow> int res" where
  "get_pid E message =
     rbind (get_integer_parameter E message ''pid'')
       (\<lambda>v. if int32 v < 1 then Inl Invalid_message else Inr (int32 v))"

definition get_timeout :: "env \<Rightarrow> message \<Rightarrow> int res" where
  "get_timeout E message =
     rbind (has_parameter message ''timeout'')
       (\<lambda>b. if b then get_integer_parameter E message ''timeout''
             else Inr (time_now E + DEFAULT_TIMEOUT))"

definition get_key :: "message \<Rightarrow> string res" where
  "get_key message =
     rbind (get_parameter message ''key'')
       (\<lambda>v. if v = [] then Inl Invalid_message else Inr v)"

definition get_source :: "message \<Rightarrow> string res" where
  "get_source message =
     rbind (get_parameter message ''source'')
       (\<lambda>v. if v = [] then Inl Invalid_message else Inr v)"

text \<open>The sender of a LOCK or UNLOCK: the proxied one when the message was forwarded.\<close>

definition proxied :: "string \<Rightarrow> string \<Rightarrow> message \<Rightarrow> string res" where
  "proxied param sender message =
     rbind (has_parameter message param)
       (\<lambda>b. if b then get_parameter message param else Inr sender)"

definition origin_server :: "message \<Rightarrow> string res" where
  "origin_server message =
     proxied ''lock_proxy_server_name'' (m_sent_from_server message) message"

definition origin_service :: "message \<Rightarrow> string res" where
  "origin_service message =
     proxied ''lock_proxy_service_name'' (m_sent_from_service message) message"

definition lock_failed_reply :: "message \<Rightarrow> string \<Rightarrow> string \<Rightarrow> string \<Rightarrow> message res" where
  "lock_failed_reply message object_name key error =
     build [set_command ''LOCKFAILED'', reply_to message,
            add_parameter ''object_name'' object_name,
            add_parameter ''key'' key,
            add_parameter ''error'' error]"

section \<open>The first lock\<close>

text \<open>
  The loop of \<open>find_first_lock\<close>. When \<open>lock_failed\<close> extended the timeout of a locked
  ticket, the iterator stays on it and the next turn, where it is not timed out any more,
  takes the \<open>else\<close> branch. The result is what remains of the inner map and the first ticket.
\<close>

fun find_first_loop ::
  "env \<Rightarrow> (string, nat) omap \<Rightarrow> nat option \<Rightarrow> snaplock \<Rightarrow>
   ((string, nat) omap \<times> nat option \<times> snaplock) res" where
  "find_first_loop E [] first s = Inr ([], first, s)"
| "find_first_loop E ((k, a) # rest) first s =
     (let keep = (\<lambda>s. rbind (find_first_loop E rest
                          (case first of None \<Rightarrow> Some a | Some _ \<Rightarrow> first) s)
                          (\<lambda>(km, f, s'). Inr ((k, a) # km, f, s'))) in
      if timed_out E (sl_heap s a) then
        rbind (lock_failed a s) (\<lambda>s1.
          if timed_out E (sl_heap s1 a) then find_first_loop E rest first s1
          else keep s1)
      else keep s)"

definition find_first_lock :: "env \<Rightarrow> string \<Rightarrow> snaplock \<Rightarrow> (nat option \<times> snaplock) res" where
  "find_first_lock E object_name s =
     (case map_of (sl_tickets s) object_name of
        None \<Rightarrow> Inr (None, s)
      | Some km \<Rightarrow>
          rbind (find_first_loop E km None s) (\<lambda>(km', first, s1).
          Inr (first, s1\<lparr>sl_tickets := set2 object_name km' (sl_tickets s1)\<rparr>)))"

definition activate_first_lock :: "env \<Rightarrow> string \<Rightarrow> snaplock \<Rightarrow> snaplock res" where
  "activate_first_lock E object_name s =
     rbind (find_first_lock E object_name s) (\<lambda>(first, s1).
       case first of None \<Rightarrow> Inr s1 | Some a \<Rightarrow> activate_lock E a s1)"

section \<open>Cleanup\<close>

text \<open>\<open>std::numeric_limits<time_t>::max()\<close>: no timeout seen yet.\<close>

definition TIME_MAX :: int where "TIME_MAX = 2 ^ 63 - 1"

fun cleanup_cache ::
  "env \<Rightarrow> (int \<times> message) list \<Rightarrow> int \<Rightarrow> snaplock \<Rightarrow> ((int \<times> message) list \<times> int \<times> snaplock) res"
where
  "cleanup_cache E [] next_timeout s = Inr ([], next_timeout, s)"
| "cleanup_cache E ((f_timeout, m) # rest) next_timeout s =
     (if f_timeout \<le> time_now E then
        rbind (get_object_name m) (\<lambda>object_name.
        rbind (get_pid E m) (\<lambda>client_pid.
        rbind (get_timeout E m) (\<lambda>_.
        rbind (origin_server m) (\<lambda>server_name.
        rbind (send_built (lock_failed_reply m object_name
                 (make_entering_key server_name client_pid) ''timedout'') s) (\<lambda>s1.
        cleanup_cache E rest next_timeout s1)))))
      else
        rbind (cleanup_cache E rest (if f_timeout < next_timeout then f_timeout else next_timeout) s)
          (\<lambda>(c, n, s1). Inr ((f_timeout, m) # c, n, s1)))"

text \<open>
  The inner loop over one object's map, shared by the loops over \<open>f_tickets\<close> and
  \<open>f_entering_tickets\<close>; the Boolean is \<open>try_activate\<close>.
\<close>

fun cleanup_keys ::
  "env \<Rightarrow> (string, nat) omap \<Rightarrow> int \<Rightarrow> snaplock \<Rightarrow>
   ((string, nat) omap \<times> bool \<times> int \<times> snaplock) res" where
  "cleanup_keys E [] next_timeout s = Inr ([], False, next_timeout, s)"
| "cleanup_keys E ((k, a) # rest) next_timeout s =
     (let keep = (\<lambda>s.
            let d = get_current_timeout (sl_heap s a) in
            rbind (cleanup_keys E rest (if d < next_timeout then d else next_timeout) s)
              (\<lambda>(km, try, n, s'). Inr ((k, a) # km, try, n, s'))) in
      if timed_out E (sl_heap s a) then
        rbind (lock_failed a s) (\<lambda>s1.
          if timed_out E (sl_heap s1 a) then
            rbind (cleanup_keys E rest next_timeout s1)
              (\<lambda>(km, try, n, s'). Inr (km, True, n, s'))
          else keep s1)
      else keep s)"

fun cleanup_tickets ::
  "env \<Rightarrow> string list \<Rightarrow> int \<Rightarrow> snaplock \<Rightarrow> (int \<times> snaplock) res" where
  "cleanup_tickets E [] next_timeout s = Inr (next_timeout, s)"
| "cleanup_tickets E (ob # obs) next_timeout s =
     rbind (cleanup_keys E (inner ob (sl_tickets s)) next_timeout s) (\<lambda>(km, try_activate, n, s1).
     let s2 = s1\<lparr>sl_tickets := set2 ob km (sl_tickets s1)\<rparr> in
     rbind (if km \<noteq> [] \<and> try_activate then activate_first_lock E ob s2 else Inr s2) (\<lambda>s3.
     cleanup_tickets E obs n s3))"

fun cleanup_entering ::
  "env \<Rightarrow> string list \<Rightarrow> int \<Rightarrow> snaplock \<Rightarrow> (int \<times> snaplock) res" where
  "cleanup_entering E [] next_timeout s = Inr (next_timeout, s)"
| "cleanup_entering E (ob # obs) next_timeout s =
     rbind (cleanup_keys E (inner ob (sl_entering_tickets s)) next_timeout s) (\<lambda>(km, _, n, s1).
     cleanup_entering E obs n
       (s1\<lparr>sl_entering_tickets := set2 ob km (sl_entering_tickets s1)\<rparr>))"

definition set_timeout_date :: "int \<Rightarrow> snaplock \<Rightarrow> snaplock res" where
  "set_timeout_date date_us s =
     (if date_us < -1 then Inl Parameter_error else Inr (s\<lparr>sl_timer := date_us\<rparr>))"

definition cleanup :: "env \<Rightarrow> snaplock \<Rightarrow> snaplock res" where
  "cleanup E s =
     rbind (cleanup_cache E (sl_message_cache s) TIME_MAX s) (\<lambda>(cache, n1, s1).
     let s2 = s1\<lparr>sl_message_cache := cache\<rparr> in
     rbind (cleanup_tickets E (map fst (sl_tickets s2)) n1 s2) (\<lambda>(n2, s3).
     rbind (cleanup_entering E (map fst (sl_entering_tickets s3)) n2 s3) (\<lambda>(n3, s4).
     if n3 \<noteq> TIME_MAX then set_timeout_date ((n3 + 1) * 1000000) s4
     else set_timeout_date (-1) s4)))"

section \<open>Ticket numbers and maps\<close>

definition get_last_ticket :: "string \<Rightarrow> snaplock \<Rightarrow> 32 word" where
  "get_last_ticket object_name s =
     foldl (\<lambda>last p. let n = f_our_ticket (sl_heap s (snd p)) in if last < n then n else last)
       NO_TICKET (inner object_name (sl_tickets s))"

definition set_ticket :: "string \<Rightarrow> string \<Rightarrow> nat \<Rightarrow> snaplock \<Rightarrow> snaplock" where
  "set_ticket object_name key a s =
     s\<lparr>sl_tickets := put2 object_name key a (sl_tickets s)\<rparr>"

definition get_entering_tickets :: "string \<Rightarrow> snaplock \<Rightarrow> (string, nat) omap" where
  "get_entering_tickets object_name s = inner object_name (sl_entering_tickets s)"

section \<open>Leaving the door: LOCKEXITING\<close>

fun remove_entering_all :: "env \<Rightarrow> string \<Rightarrow> (string, nat) omap \<Rightarrow> snaplock \<Rightarrow> snaplock res" where
  "remove_entering_all E key [] s = Inr s"
| "remove_entering_all E key ((_, a) # rest) s =
     rbind (remove_entering E a key s) (remove_entering_all E key rest)"

definition msg_lock_exiting :: "env \<Rightarrow> message \<Rightarrow> snaplock \<Rightarrow> snaplock res" where
  "msg_lock_exiting E message s =
     rbind (get_object_name message) (\<lambda>object_name.
     rbind (get_key message) (\<lambda>key.
     rbind
       (case map_of (sl_entering_tickets s) object_name of
          None \<Rightarrow> Inr s
        | Some ekm \<Rightarrow>
            if map_of ekm key = None then Inr s
            else
              let s1 = s\<lparr>sl_entering_tickets :=
                           om_put object_name (om_erase key ekm) (sl_entering_tickets s)\<rparr>;
                  tkm = inner object_name (sl_tickets s1) in
              rbind (remove_entering_all E key tkm s1) (\<lambda>s2.
              rbind (if tkm \<noteq> [] then activate_first_lock E object_name s2 else Inr s2) (\<lambda>s3.
              Inr (s3\<lparr>sl_entering_tickets :=
                        set2 object_name (inner object_name (sl_entering_tickets s3))
                          (sl_entering_tickets s3)\<rparr>))))
       (cleanup E)))"

end
