(* ===== verification/LockBakery.thy ===== *)
theory LockBakery
  imports LockDaemon
begin

text \<open>
  Lamport's bakery on one ticket (\<open>snaplock/src/snaplock_ticket.cpp\<close>): entering, asking
  for the largest ticket number, taking the next one, adding the ticket, leaving the door.
  Each stage goes on by itself when the daemon is the only leader.
\<close>

definition ticket_added ::
  "env \<Rightarrow> nat \<Rightarrow> (string, nat) omap \<Rightarrow> snaplock \<Rightarrow> snaplock res" where
  "ticket_added E a still_entering s =
     (if \<not> f_added_ticket_quorum (sl_heap s a) then
        let s1 = upd_ticket a (\<lambda>t. t\<lparr>f_added_ticket_quorum := True,
                                     f_still_entering := still_entering\<rparr>) s in
        rbind (build [set_command ''LOCKEXITING'',
                      add_parameter ''key'' (f_entering_key (sl_heap s1 a))]) (\<lambda>m.
        rbind (send_message_to_leaders a m s1) (\<lambda>(exiting_message, _, s2).
        msg_lock_exiting E exiting_message s2))
      else Inr s)"

definition add_ticket :: "env \<Rightarrow> nat \<Rightarrow> snaplock \<Rightarrow> snaplock res" where
  "add_ticket E a s =
     (if f_added_ticket (sl_heap s a) then Inl Logic_error
      else
        let s1 = upd_ticket a (\<lambda>t. t\<lparr>f_added_ticket := True,
                     f_ticket_key := make_ticket_key (f_our_ticket t) (f_entering_key t)\<rparr>) s;
            t = sl_heap s1 a;
            s2 = set_ticket (f_object_name t) (f_ticket_key t) a s1 in
        rbind (build [set_command ''ADDTICKET'',
                      add_parameter ''key'' (f_ticket_key t),
                      add_integer_parameter ''timeout'' (f_obtention_timeout t)]) (\<lambda>m.
        rbind (send_message_to_leaders a m s2) (\<lambda>(_, sent, s3).
        if \<not> sent
        then ticket_added E a (get_entering_tickets (f_object_name (sl_heap s3 a)) s3) s3
        else Inr s3)))"

text \<open>
  \<open>new_max_ticket\<close> is an \<open>int64_t\<close>; the comparison with the 32-bit number of the ticket is
  done in 64 bits, the assignment keeps the low 32 bits, the increment wraps.
\<close>

definition max_ticket :: "env \<Rightarrow> nat \<Rightarrow> int \<Rightarrow> snaplock \<Rightarrow> snaplock res" where
  "max_ticket E a new_max_ticket s =
     (if \<not> f_added_ticket (sl_heap s a) then
        add_ticket E a
          (upd_ticket a (\<lambda>t. t\<lparr>f_our_ticket :=
              (if new_max_ticket > uint (f_our_ticket t)
               then word_of_int new_max_ticket else f_our_ticket t) + 1\<rparr>) s)
      else Inr s)"

definition entered :: "env \<Rightarrow> nat \<Rightarrow> snaplock \<Rightarrow> snaplock res" where
  "entered E a s =
     (if \<not> f_get_max_ticket (sl_heap s a) then
        let s1 = upd_ticket a (\<lambda>t. t\<lparr>f_get_max_ticket := True,
                     f_our_ticket := get_last_ticket (f_object_name t) s\<rparr>) s in
        rbind (build [set_command ''GETMAXTICKET'',
                      add_parameter ''key'' (f_entering_key (sl_heap s1 a))]) (\<lambda>m.
        rbind (send_message_to_leaders a m s1) (\<lambda>(_, sent, s2).
        if \<not> sent then max_ticket E a (uint (f_our_ticket (sl_heap s2 a))) s2 else Inr s2))
      else Inr s)"

definition entering :: "env \<Rightarrow> nat \<Rightarrow> snaplock \<Rightarrow> snaplock res" where
  "entering E a s =
     (let t = sl_heap s a in
      rbind (build [set_command ''LOCKENTERING'',
                    add_parameter ''key'' (f_entering_key t),
                    add_integer_parameter ''timeout'' (f_obtention_timeout t),
                    add_integer_parameter ''duration'' (f_lock_duration t),
                    (if f_lock_duration t \<noteq> f_unlock_duration t
                     then add_integer_parameter ''unlock_duration'' (f_unlock_duration t)
                     else Inr),
                    add_parameter ''source'' (f_server_name t @ CHR ''/'' # f_service_name t),
                    add_integer_parameter ''serial'' (sint (f_serial t))]) (\<lambda>m.
      rbind (send_message_to_leaders a m s) (\<lambda>(_, sent, s1).
      if \<not> sent then entered E a s1 else Inr s1)))"

end
