(* ===== verification/LockHandlers.thy ===== *)
theory LockHandlers
  imports LockBakery
begin

text \<open>
  The messages of clients (LOCK, UNLOCK, ABSOLUTELY) and of the other leaders, as handled
  by \<open>snaplock/src/snaplock.cpp\<close>. Every handler reads its parameters first and throws when
  one is missing or invalid.
\<close>

section \<open>Clients\<close>

definition forward_message_to_leader :: "message \<Rightarrow> snaplock \<Rightarrow> snaplock res" where
  "forward_message_to_leader message s =
     rbind (chain [set_service ''snaplock'',
                   add_parameter ''lock_proxy_server_name'' (m_sent_from_server message),
                   add_parameter ''lock_proxy_service_name'' (m_sent_from_service message)] message)
       (\<lambda>m. if sl_leaders s = [] then Inl Undefined_behaviour else
        let s1 = s\<lparr>sl_next_leader := (sl_next_leader s + 1) mod length (sl_leaders s)\<rparr> in
        send_built (set_server (c_name (sl_pcs s1 (sl_leaders s1 ! sl_next_leader s1))) m) s1)"

text \<open>A ticket of an object with a given entering key (\<open>std::find_if\<close> over the inner map).\<close>

definition find_by_entering_key ::
  "(nat \<Rightarrow> ticket) \<Rightarrow> string \<Rightarrow> (string, nat) omap \<Rightarrow> (string \<times> nat) option" where
  "find_by_entering_key h entering_key km = find (\<lambda>(k, a). f_entering_key (h a) = entering_key) km"

text \<open>The serial number of a new ticket: a counter on 24 bits and two bits for the leader.\<close>

definition next_serial :: "snaplock \<Rightarrow> (32 word) res" where
  "next_serial s =
     (let n = (sl_ticket_serial s + 1) AND 0x00FFFFFF; l = sl_leaders s in
      if l = [] then Inl Undefined_behaviour
      else
        rbind (get_id (sl_pcs s (l ! 0))) (\<lambda>i0.
        if i0 \<noteq> sl_my_id s then
          rbind (if length l \<ge> 2 then rbind (get_id (sl_pcs s (l ! 1))) (\<lambda>i. Inr (i \<noteq> sl_my_id s))
                 else Inr False) (\<lambda>b1.
          if b1 then Inr (n OR push_bit 24 1)
          else
            rbind (if length l \<ge> 3 then rbind (get_id (sl_pcs s (l ! 2))) (\<lambda>i. Inr (i \<noteq> sl_my_id s))
                   else Inr False) (\<lambda>b2.
            if b2 then Inr (n OR push_bit 24 2) else Inr n))
        else Inr n))"

text \<open>The last part of \<open>msg_lock\<close>: the ticket is created and starts entering.\<close>

definition lock_new_ticket ::
  "env \<Rightarrow> message \<Rightarrow> string \<Rightarrow> string \<Rightarrow> int \<Rightarrow> int \<Rightarrow> int \<Rightarrow> string \<Rightarrow> string \<Rightarrow> snaplock \<Rightarrow> snaplock res"
where
  "lock_new_ticket E message object_name entering_key timeout duration unlock_duration
       server_name service_name s =
     (let (a, s1) = new_ticket (snaplock_ticket s object_name entering_key timeout duration
                                  server_name service_name) s;
          s2 = s1\<lparr>sl_entering_tickets := put2 object_name entering_key a (sl_entering_tickets s1)\<rparr>;
          s3 = upd_ticket a (set_unlock_duration unlock_duration) s2 in
      rbind (next_serial s3) (\<lambda>serial.
      let s4 = upd_ticket a (set_serial serial) (s3\<lparr>sl_ticket_serial := serial\<rparr>) in
      rbind (has_parameter message ''serial'') (\<lambda>relock.
      rbind
        (if relock then
           let s5 = upd_ticket a (set_alive_timeout (5 + time_now E)) s4 in
           send_built (build [set_command ''ALIVE'',
                              set_server server_name,
                              set_service service_name,
                              add_parameter ''serial''
                                (''relock/'' @ object_name @ CHR ''/'' # entering_key),
                              add_integer_parameter ''timestamp'' (time_now E)]) s5
         else entering E a s4)
        (cleanup E))))"

text \<open>
  The duplicate checks of \<open>msg_lock\<close>: \<open>Some (Inl ())\<close> when the request is a legitimate
  repetition to be ignored, \<open>Some (Inr ())\<close> when it is a duplicate to be refused.
\<close>

definition lock_duplicate ::
  "env \<Rightarrow> message \<Rightarrow> string \<Rightarrow> string \<Rightarrow> snaplock \<Rightarrow> (unit + unit) option res" where
  "lock_duplicate E message object_name entering_key s =
     (case look2 (sl_entering_tickets s) object_name entering_key of
        Some a \<Rightarrow>
          rbind (has_parameter message ''serial'') (\<lambda>b.
          if b then
            rbind (get_integer_parameter E message ''serial'') (\<lambda>serial.
            if f_serial (sl_heap s a) = word_of_int serial then Inr (Some (Inl ()))
            else Inr (Some (Inr ())))
          else Inr (Some (Inr ())))
      | None \<Rightarrow>
          (case find_by_entering_key (sl_heap s) entering_key (inner object_name (sl_tickets s)) of
             Some _ \<Rightarrow> Inr (Some (Inr ()))
           | None \<Rightarrow> Inr None))"

text \<open>The unlock duration of a LOCK: \<open>None\<close> when it is given and too small.\<close>

definition lock_unlock_duration :: "env \<Rightarrow> message \<Rightarrow> int option res" where
  "lock_unlock_duration E message =
     rbind (has_parameter message ''unlock_duration'') (\<lambda>b.
     if b then
       rbind (get_integer_parameter E message ''unlock_duration'') (\<lambda>v.
       Inr (if int32 v < SNAP_UNLOCK_MINIMUM_TIMEOUT then None else Some (int32 v)))
     else Inr (Some SNAP_UNLOCK_USES_LOCK_TIMEOUT))"

text \<open>
  \<open>msg_lock\<close>. A request that arrives before the leaders are known is cached; the timer is
  then set from the date in seconds.
\<close>

definition msg_lock :: "env \<Rightarrow> message \<Rightarrow> snaplock \<Rightarrow> snaplock res" where
  "msg_lock E message s0 =
     rbind (get_object_name message) (\<lambda>object_name.
     rbind (get_pid E message) (\<lambda>client_pid.
     rbind (get_timeout E message) (\<lambda>timeout.
     rbind (cleanup E s0) (\<lambda>s.
     rbind (origin_server message) (\<lambda>server_name.
     rbind (origin_service message) (\<lambda>service_name.
     let entering_key = make_entering_key server_name client_pid in
     if timeout \<le> time_now E then
       send_built (lock_failed_reply message object_name entering_key ''timedout'') s
     else
     rbind (get_integer_parameter E message ''duration'') (\<lambda>d.
     let duration = int32 d in
     if duration < SNAP_LOCK_MINIMUM_TIMEOUT then
       send_built (lock_failed_reply message object_name entering_key ''invalid'') s
     else
     rbind (lock_unlock_duration E message) (\<lambda>ud.
     case ud of
       None \<Rightarrow> send_built (lock_failed_reply message object_name entering_key ''invalid'') s
     | Some unlock_duration \<Rightarrow>
     rbind (is_ready E s) (\<lambda>(ready, s1).
     if \<not> ready then
       let s2 = s1\<lparr>sl_message_cache := sl_message_cache s1 @ [(timeout, message)]\<rparr> in
       if messenger_timeout_date E = -1 \<or> messenger_timeout_date E > timeout
       then set_timeout_date timeout s2 else Inr s2
     else
     rbind (is_leader s1 []) (\<lambda>l.
     if l = None then forward_message_to_leader message s1
     else
     rbind (lock_duplicate E message object_name entering_key s1) (\<lambda>dup.
     case dup of
       Some (Inl _) \<Rightarrow> Inr s1
     | Some (Inr _) \<Rightarrow>
         send_built (lock_failed_reply message object_name entering_key ''duplicate'') s1
     | None \<Rightarrow>
         lock_new_ticket E message object_name entering_key timeout duration unlock_duration
           server_name service_name s1)))))))))))"

definition msg_unlock :: "env \<Rightarrow> message \<Rightarrow> snaplock \<Rightarrow> snaplock res" where
  "msg_unlock E message s =
     rbind (is_ready E s) (\<lambda>(ready, s1).
     if \<not> ready then Inr s1
     else
     rbind (is_leader s1 []) (\<lambda>l.
     if l = None then forward_message_to_leader message s1
     else
     rbind (get_object_name message) (\<lambda>object_name.
     rbind (get_pid E message) (\<lambda>client_pid.
     rbind
       (case map_of (sl_tickets s1) object_name of
          None \<Rightarrow> Inr s1
        | Some km \<Rightarrow>
            rbind (origin_server message) (\<lambda>server_name.
            case find_by_entering_key (sl_heap s1) (make_entering_key server_name client_pid) km of
              None \<Rightarrow> Inr s1
            | Some (k, a) \<Rightarrow>
                rbind (drop_ticket a s1) (\<lambda>s2.
                Inr (s2\<lparr>sl_tickets := set2 object_name (om_erase k km) (sl_tickets s2)\<rparr>))))
       (cleanup E)))))"

definition msg_absolutely :: "env \<Rightarrow> message \<Rightarrow> snaplock \<Rightarrow> snaplock res" where
  "msg_absolutely E message s =
     rbind (get_parameter message ''serial'') (\<lambda>serial.
     let segments = split_on CHR ''/'' serial in
     rbind (at_segment segments 0) (\<lambda>s0.
     if s0 = ''relock'' then
       if length segments \<noteq> 4 then
         send_built (build [set_command ''LOCKFAILED'', reply_to message,
                            add_parameter ''object_name'' ''unknown'',
                            add_parameter ''error'' ''invalid'']) s
       else
         let object_name = segments ! 1;
             entering_key = segments ! 2 @ CHR ''/'' # segments ! 3 in
         (case look2 (sl_entering_tickets s) object_name entering_key of
            None \<Rightarrow> Inr s
          | Some a \<Rightarrow> entering E a (upd_ticket a (set_alive_timeout 0) s))
     else Inr s))"

end
