(* ===== verification/LockPeers.thy ===== *)
theory LockPeers
  imports LockHandlers
begin

text \<open>
  The messages the leaders exchange (\<open>snaplock/src/snaplock.cpp\<close>): the bakery's protocol
  LOCKENTERING / LOCKENTERED, GETMAXTICKET / MAXTICKET, ADDTICKET / TICKETADDED,
  LOCKEXITING, TICKETREADY, ACTIVATELOCK / LOCKACTIVATED, DROPTICKET and LOCKFAILED.
\<close>

text \<open>The ticket LOCKENTERING creates on a leader that does not own the request.\<close>

definition allocate_entering ::
  "env \<Rightarrow> message \<Rightarrow> string \<Rightarrow> string \<Rightarrow> string \<Rightarrow> int \<Rightarrow> snaplock \<Rightarrow> (bool \<times> snaplock) res" where
  "allocate_entering E message object_name key source timeout s =
     (let invalid = rbind (send_built (lock_failed_reply message object_name key ''invalid'') s)
                      (\<lambda>s1. Inr (False, s1)) in
      rbind (get_integer_parameter E message ''duration'') (\<lambda>d.
      if int32 d < SNAP_LOCK_MINIMUM_TIMEOUT then invalid
      else
      rbind (has_parameter message ''unlock_duration'') (\<lambda>b.
      rbind (if b then get_integer_parameter E message ''unlock_duration''
             else Inr SNAP_UNLOCK_USES_LOCK_TIMEOUT) (\<lambda>u.
      if b \<and> int32 u \<noteq> SNAP_UNLOCK_USES_LOCK_TIMEOUT \<and> int32 u < SNAP_UNLOCK_MINIMUM_TIMEOUT
      then invalid
      else
      let source_segments = split_on CHR ''/'' source in
      if length source_segments \<noteq> 2 then invalid
      else
        let (a, s1) = new_ticket (snaplock_ticket s object_name key timeout (int32 d)
                         (source_segments ! 0) (source_segments ! 1)) s;
            s2 = s1\<lparr>sl_entering_tickets := put2 object_name key a (sl_entering_tickets s1)\<rparr>;
            s3 = upd_ticket a (\<lambda>t. set_unlock_duration (int32 u)
                                     (set_owner (m_sent_from_server message) t)) s2 in
        rbind (get_integer_parameter E message ''serial'') (\<lambda>serial.
        Inr (True, upd_ticket a (set_serial (word_of_int serial)) s3))))))"

definition msg_lock_entering :: "env \<Rightarrow> message \<Rightarrow> snaplock \<Rightarrow> snaplock res" where
  "msg_lock_entering E message s =
     rbind (get_object_name message) (\<lambda>object_name.
     rbind (get_timeout E message) (\<lambda>timeout.
     rbind (get_key message) (\<lambda>key.
     rbind (get_source message) (\<lambda>source.
     if timeout > time_now E then
       rbind (is_ready E s) (\<lambda>(ready, s1).
       if ready then
         rbind (if look2 (sl_entering_tickets s1) object_name key = None
                then allocate_entering E message object_name key source timeout s1
                else Inr (True, s1)) (\<lambda>(go_on, s2).
         if go_on then
           rbind (send_built (build [set_command ''LOCKENTERED'', reply_to message,
                                     add_parameter ''object_name'' object_name,
                                     add_parameter ''key'' key]) s2) (cleanup E)
         else Inr s2)
       else cleanup E s1)
     else cleanup E s))))"

definition msg_lock_entered :: "env \<Rightarrow> message \<Rightarrow> snaplock \<Rightarrow> snaplock res" where
  "msg_lock_entered E message s =
     rbind (get_object_name message) (\<lambda>object_name.
     rbind (get_key message) (\<lambda>key.
     case look2 (sl_entering_tickets s) object_name key of
       None \<Rightarrow> Inr s
     | Some a \<Rightarrow> entered E a s))"

text \<open>Erase a key from an object's map, and the object once nothing is left.\<close>

definition erase2 :: "string \<Rightarrow> string \<Rightarrow> object_map \<Rightarrow> object_map" where
  "erase2 ob k m =
     (case map_of m ob of None \<Rightarrow> m | Some km \<Rightarrow> set2 ob (om_erase k km) m)"

definition msg_drop_ticket :: "env \<Rightarrow> message \<Rightarrow> snaplock \<Rightarrow> snaplock res" where
  "msg_drop_ticket E message s =
     rbind (get_object_name message) (\<lambda>object_name.
     rbind (get_key message) (\<lambda>key.
     let segments = split_on CHR ''/'' key in
     rbind
       (if length segments = 3 then
          rbind (if map_of (sl_tickets s) object_name \<noteq> None
                 then activate_first_lock E object_name
                        (s\<lparr>sl_tickets := erase2 object_name key (sl_tickets s)\<rparr>)
                 else Inr s)
            (\<lambda>s1. Inr (segments ! 1 @ CHR ''/'' # segments ! 2, s1))
        else Inr (key, s))
       (\<lambda>(entering_key, s1).
        cleanup E (s1\<lparr>sl_entering_tickets :=
                        erase2 object_name entering_key (sl_entering_tickets s1)\<rparr>))))"

definition msg_get_max_ticket :: "env \<Rightarrow> message \<Rightarrow> snaplock \<Rightarrow> snaplock res" where
  "msg_get_max_ticket E message s =
     rbind (get_object_name message) (\<lambda>object_name.
     rbind (get_key message) (\<lambda>key.
     rbind (cleanup E s) (\<lambda>s1.
     send_built (build [set_command ''MAXTICKET'', reply_to message,
                        add_parameter ''object_name'' object_name,
                        add_parameter ''key'' key,
                        add_integer_parameter ''ticket_id''
                          (uint (get_last_ticket object_name s1))]) s1)))"

definition msg_max_ticket :: "env \<Rightarrow> message \<Rightarrow> snaplock \<Rightarrow> snaplock res" where
  "msg_max_ticket E message s =
     rbind (get_object_name message) (\<lambda>object_name.
     rbind (get_key message) (\<lambda>key.
     case look2 (sl_entering_tickets s) object_name key of
       None \<Rightarrow> Inr s
     | Some a \<Rightarrow> rbind (get_integer_parameter E message ''ticket_id'') (\<lambda>n. max_ticket E a n s)))"

definition msg_add_ticket :: "env \<Rightarrow> message \<Rightarrow> snaplock \<Rightarrow> snaplock res" where
  "msg_add_ticket E message s =
     rbind (get_object_name message) (\<lambda>object_name.
     rbind (get_timeout E message) (\<lambda>_.
     rbind (get_key message) (\<lambda>key.
     let invalid = send_built (lock_failed_reply message object_name key ''invalid'') s;
         segments = split_on CHR ''/'' key in
     if length segments \<noteq> 3 then invalid
     else
       case to_uint_hex E (segments ! 0) of
         None \<Rightarrow> invalid
       | Some number \<Rightarrow>
           if map_of (sl_entering_tickets s) object_name = None then invalid
           else
             let entering_key = segments ! 1 @ CHR ''/'' # segments ! 2 in
             case look2 (sl_entering_tickets s) object_name entering_key of
               None \<Rightarrow> invalid
             | Some a \<Rightarrow>
                 let s1 = set_ticket object_name key a s in
                 rbind (set_ticket_number (word_of_int number) (sl_heap s1 a)) (\<lambda>t.
                 send_built (build [set_command ''TICKETADDED'', reply_to message,
                                    add_parameter ''object_name'' object_name,
                                    add_parameter ''key'' key])
                   (upd_ticket a (\<lambda>_. t) s1)))))"

definition msg_ticket_added :: "env \<Rightarrow> message \<Rightarrow> snaplock \<Rightarrow> snaplock res" where
  "msg_ticket_added E message s =
     rbind (get_object_name message) (\<lambda>object_name.
     rbind (get_key message) (\<lambda>key.
     case look2 (sl_tickets s) object_name key of
       None \<Rightarrow> Inr s
     | Some a \<Rightarrow>
         (case map_of (sl_entering_tickets s) object_name of
            None \<Rightarrow> Inr s
          | Some ekm \<Rightarrow> ticket_added E a ekm s)))"

definition msg_ticket_ready :: "env \<Rightarrow> message \<Rightarrow> snaplock \<Rightarrow> snaplock res" where
  "msg_ticket_ready E message s =
     rbind (get_object_name message) (\<lambda>object_name.
     rbind (get_key message) (\<lambda>key.
     case look2 (sl_tickets s) object_name key of
       None \<Rightarrow> Inr s
     | Some a \<Rightarrow> Inr (upd_ticket a set_ready s)))"

definition msg_activate_lock :: "env \<Rightarrow> message \<Rightarrow> snaplock \<Rightarrow> snaplock res" where
  "msg_activate_lock E message s =
     rbind (get_object_name message) (\<lambda>object_name.
     rbind (get_key message) (\<lambda>key.
     rbind (find_first_lock E object_name s) (\<lambda>(ticket, s1).
     let first_key = (case ticket of None \<Rightarrow> ''no-key'' | Some a \<Rightarrow> f_ticket_key (sl_heap s1 a)) in
     rbind (case ticket of
              None \<Rightarrow> Inr s1
            | Some a \<Rightarrow> if key = first_key then lock_activated E a s1 else Inr s1) (\<lambda>s2.
     rbind (send_built (build [set_command ''LOCKACTIVATED'', reply_to message,
                               add_parameter ''object_name'' object_name,
                               add_parameter ''key'' key,
                               add_parameter ''other_key'' first_key]) s2)
       (cleanup E)))))"

definition msg_lock_activated :: "env \<Rightarrow> message \<Rightarrow> snaplock \<Rightarrow> snaplock res" where
  "msg_lock_activated E message s =
     rbind (get_object_name message) (\<lambda>object_name.
     rbind (get_key message) (\<lambda>key.
     rbind (get_parameter message ''other_key'') (\<lambda>other_key.
     if other_key = key then
       (case look2 (sl_tickets s) object_name key of
          None \<Rightarrow> Inr s
        | Some a \<Rightarrow> lock_activated E a s)
     else Inr s)))"

text \<open>
  LOCKFAILED from another leader: the entering ticket and the ticket are removed, the
  message goes on to the service that asked for the lock.
\<close>

definition msg_lock_failed :: "env \<Rightarrow> message \<Rightarrow> snaplock \<Rightarrow> snaplock res" where
  "msg_lock_failed E message s =
     rbind (get_object_name message) (\<lambda>object_name.
     rbind (get_key message) (\<lambda>key.
     let ent = look2 (sl_entering_tickets s) object_name key;
         fwd1 = (case ent of None \<Rightarrow> ([], [])
                 | Some a \<Rightarrow> (f_server_name (sl_heap s a), f_service_name (sl_heap s a)));
         s1 = s\<lparr>sl_entering_tickets := erase2 object_name key (sl_entering_tickets s)\<rparr>;
         km = inner object_name (sl_tickets s1);
         tk = (case map_of km key of
                 Some a \<Rightarrow> Some (key, a)
               | None \<Rightarrow> find_by_entering_key (sl_heap s1) key km);
         fwd = (case tk of None \<Rightarrow> fwd1
                | Some (k, a) \<Rightarrow> (f_server_name (sl_heap s1 a), f_service_name (sl_heap s1 a)));
         s2 = (case tk of None \<Rightarrow> s1
               | Some (k, a) \<Rightarrow> s1\<lparr>sl_tickets := erase2 object_name k (sl_tickets s1)\<rparr>) in
     rbind (if tk \<noteq> None \<and> map_of (sl_tickets s2) object_name \<noteq> None
            then activate_first_lock E object_name s2 else Inr s2) (\<lambda>s3.
     rbind (if fst fwd \<noteq> [] \<and> snd fwd \<noteq> []
            then send_built (chain [set_server (fst fwd), set_service (snd fwd)] message) s3
            else Inr s3)
       (cleanup E))))"

end
