(* ===== verification/LockSerial.thy ===== *)
theory LockSerial
  imports LockPeers
begin

text \<open>
  Tickets as text (\<open>snaplock_ticket::serialize\<close> and \<open>unserialize\<close>) and the LOCKTICKETS
  message by which leaders share their locked tickets. The model is the release build: the
  checks under \<open>_DEBUG\<close> are left out.
\<close>

section \<open>Serialization\<close>

definition bool_text :: "bool \<Rightarrow> string" where
  "bool_text b = (if b then ''true'' else ''false'')"

text \<open>\<open>replace("|", "%7C")\<close>\<close>

definition escape_bar :: "string \<Rightarrow> string" where
  "escape_bar v = concat (map (\<lambda>c. if c = CHR ''|'' then ''%7C'' else [c]) v)"

definition serialize_data :: "ticket \<Rightarrow> (string \<times> string) list" where
  "serialize_data t =
     [(''object_name'', f_object_name t),
      (''obtention_timeout'', dec (f_obtention_timeout t)),
      (''lock_duration'', dec (f_lock_duration t)),
      (''unlock_duration'', dec (f_unlock_duration t)),
      (''server_name'', f_server_name t),
      (''service_name'', f_service_name t),
      (''owner'', f_owner t)]
     @ (if f_serial t \<noteq> NO_SERIAL then [(''serial'', dec (sint (f_serial t)))] else [])
     @ [(''entering_key'', f_entering_key t),
        (''get_max_ticket'', bool_text (f_get_max_ticket t)),
        (''our_ticket'', dec (uint (f_our_ticket t))),
        (''added_ticket'', bool_text (f_added_ticket t)),
        (''ticket_key'', f_ticket_key t),
        (''added_ticket_quorum'', bool_text (f_added_ticket_quorum t)),
        (''ticket_ready'', bool_text (f_ticket_ready t)),
        (''locked'', bool_text (f_locked t)),
        (''lock_timeout'', dec (f_lock_timeout t)),
        (''lock_failed'', bool_text (f_lock_failed t))]"

definition serialize_field :: "string \<times> string \<Rightarrow> string" where
  "serialize_field p = fst p @ CHR ''='' # escape_bar (snd p) @ ''|''"

text \<open>The fields go through a \<open>std::map\<close>, so they come out in the order of their names.\<close>

definition serialize :: "ticket \<Rightarrow> string" where
  "serialize t =
     concat (map serialize_field (foldl (\<lambda>m (k, v). om_put k v m) [] (serialize_data t)))"

section \<open>Unserialization\<close>

text \<open>\<open>toLong\<close>, whose result is 0 when the text is not a number\<close>

definition long_value :: "env \<Rightarrow> string \<Rightarrow> int" where
  "long_value E v = (case to_long E v of Some n \<Rightarrow> n | None \<Rightarrow> 0)"

text \<open>
  \<open>d.mid(0, pos)\<close> and \<open>d.mid(pos + 1)\<close> with \<open>pos = d.indexOf('=')\<close>: without a \<open>=\<close>, both
  are the whole string.
\<close>

definition name_value :: "string \<Rightarrow> string \<times> string" where
  "name_value d =
     (let n = takeWhile (\<lambda>c. c \<noteq> CHR ''='') d in
      if length n < length d then (n, drop (Suc (length n)) d) else (d, d))"

definition unserialize_field :: "env \<Rightarrow> string \<times> string \<Rightarrow> ticket \<Rightarrow> ticket" where
  "unserialize_field E nv t =
     (let name = fst nv; value = snd nv in
      if name = ''object_name'' then t\<lparr>f_object_name := value\<rparr>
      else if name = ''obtention_timeout'' then t\<lparr>f_obtention_timeout := long_value E value\<rparr>
      else if name = ''lock_duration'' then t\<lparr>f_lock_duration := int32 (long_value E value)\<rparr>
      else if name = ''unlock_duration'' then t\<lparr>f_unlock_duration := int32 (long_value E value)\<rparr>
      else if name = ''server_name'' then t\<lparr>f_server_name := value\<rparr>
      else if name = ''service_name'' then t\<lparr>f_service_name := value\<rparr>
      else if name = ''owner'' then t\<lparr>f_owner := value\<rparr>
      else if name = ''serial'' then t\<lparr>f_serial := word_of_int (long_value E value)\<rparr>
      else if name = ''entering_key'' then t\<lparr>f_entering_key := value\<rparr>
      else if name = ''get_max_ticket''
      then t\<lparr>f_get_max_ticket := f_get_max_ticket t \<or> value = ''true''\<rparr>
      else if name = ''our_ticket'' then t\<lparr>f_our_ticket := word_of_int (long_value E value)\<rparr>
      else if name = ''added_ticket''
      then t\<lparr>f_added_ticket := f_added_ticket t \<or> value = ''true''\<rparr>
      else if name = ''ticket_key'' then t\<lparr>f_ticket_key := value\<rparr>
      else if name = ''added_ticket_quorum''
      then t\<lparr>f_added_ticket_quorum := f_added_ticket_quorum t \<or> value = ''true''\<rparr>
      else if name = ''ticket_ready''
      then t\<lparr>f_ticket_ready := f_ticket_ready t \<or> value = ''true''\<rparr>
      else if name = ''locked'' then t\<lparr>f_locked := f_locked t \<or> value = ''true''\<rparr>
      else if name = ''lock_timeout''
      then (if long_value E value > f_lock_timeout t
            then t\<lparr>f_lock_timeout := long_value E value\<rparr> else t)
      else if name = ''lock_failed''
      then t\<lparr>f_lock_failed := f_lock_failed t \<or> value = ''true''\<rparr>
      else t)"

definition unserialize :: "env \<Rightarrow> string \<Rightarrow> ticket \<Rightarrow> ticket" where
  "unserialize E data t =
     foldl (\<lambda>t d. unserialize_field E (name_value d) t) t (split_on CHR ''|'' data)"

section \<open>LOCKTICKETS\<close>

definition serialized_tickets :: "snaplock \<Rightarrow> string" where
  "serialized_tickets s =
     concat (map (\<lambda>(_, km). concat (map (\<lambda>(_, a). serialize (sl_heap s a) @ [CHR 0x0A]) km))
       (sl_tickets s))"

definition starts_with :: "string \<Rightarrow> string \<Rightarrow> bool" where
  "starts_with p v \<longleftrightarrow> take (length p) v = p"

text \<open>The ticket a line is about, looked for among the entering tickets, then the tickets.\<close>

definition find_ticket :: "string \<Rightarrow> string \<Rightarrow> snaplock \<Rightarrow> nat option" where
  "find_ticket object_name entering_key s =
     (case look2 (sl_entering_tickets s) object_name entering_key of
        Some a \<Rightarrow> Some a
      | None \<Rightarrow>
          map_option snd (find_by_entering_key (sl_heap s) entering_key
            (inner object_name (sl_tickets s))))"

definition known_leader :: "snaplock \<Rightarrow> string \<Rightarrow> bool" where
  "known_leader s owner \<longleftrightarrow> (\<exists>l \<in> set (sl_leaders s). owner = c_name (sl_pcs s l))"

definition lock_tickets_line :: "env \<Rightarrow> string \<Rightarrow> snaplock \<Rightarrow> snaplock" where
  "lock_tickets_line E l s =
     (let vars = split_on CHR ''|'' l in
      case find (starts_with ''object_name='') vars of
        None \<Rightarrow> s
      | Some object_name_value \<Rightarrow>
          (case find (starts_with ''entering_key='') vars of
             None \<Rightarrow> s
           | Some entering_key_value \<Rightarrow>
               let object_name = drop 12 object_name_value;
                   entering_key = drop 13 entering_key_value in
               case find_ticket object_name entering_key s of
                 Some a \<Rightarrow> upd_ticket a (unserialize E l) s
               | None \<Rightarrow>
                   let (a, s1) = new_ticket (unserialize E l
                         (snaplock_ticket s object_name entering_key
                            (SNAP_LOCK_DEFAULT_TIMEOUT + time_now E) SNAP_LOCK_DEFAULT_TIMEOUT
                            (sl_server_name s) ''snaplock'')) s;
                       t = sl_heap s1 a in
                   if f_locked t \<and> known_leader s1 (f_owner t)
                   then set_ticket object_name (f_ticket_key t) a s1
                   else s1))"

definition msg_lock_tickets :: "env \<Rightarrow> message \<Rightarrow> snaplock \<Rightarrow> snaplock res" where
  "msg_lock_tickets E message s =
     rbind (get_parameter message ''tickets'') (\<lambda>tickets.
     Inr (foldl (\<lambda>s l. lock_tickets_line E l s) s (split_on (CHR 0x0A) tickets)))"

end
