(* ===== verification/LockElection.thy ===== *)
theory LockElection
  imports LockSerial
begin

text \<open>
  The cluster as seen by a lock daemon (\<open>snaplock/src/snaplock.cpp\<close>): computers coming and
  going, the election of the leaders, the lock status told to the clients, and the
  synchronization of new leaders.
\<close>

section \<open>Status\<close>

definition ready :: "snaplock \<Rightarrow> snaplock res" where
  "ready s =
     send_built (build [set_command ''CLUSTERSTATUS'', set_service ''snapcommunicator'']) s"

text \<open>The messages cached while there were no leaders are handled one after the other.\<close>

fun msg_lock_all :: "env \<Rightarrow> message list \<Rightarrow> snaplock \<Rightarrow> snaplock res" where
  "msg_lock_all E [] s = Inr s"
| "msg_lock_all E (m # ms) s = rbind (msg_lock E m s) (msg_lock_all E ms)"

definition check_lock_status :: "env \<Rightarrow> snaplock \<Rightarrow> snaplock res" where
  "check_lock_status E s =
     rbind (is_ready E s) (\<lambda>(ready, s1).
     let current_status = (if ready then ''LOCKREADY'' else ''NOLOCK'') in
     if sl_lock_status s1 \<noteq> current_status then
       rbind (send_built (build [set_command current_status,
                                 set_service ''.'',
                                 add_parameter ''cache'' ''no''])
                (s1\<lparr>sl_lock_status := current_status\<rparr>)) (\<lambda>s2.
       if ready \<and> sl_message_cache s2 \<noteq> [] then
         msg_lock_all E (map snd (sl_message_cache s2)) (s2\<lparr>sl_message_cache := []\<rparr>)
       else Inr s2)
     else Inr s1)"

definition msg_lock_status :: "env \<Rightarrow> message \<Rightarrow> snaplock \<Rightarrow> snaplock res" where
  "msg_lock_status E message s =
     rbind (is_ready E s) (\<lambda>(ready, s1).
     send_built (build [set_command (if ready then ''LOCKREADY'' else ''NOLOCK''),
                        reply_to message,
                        add_parameter ''cache'' ''no'']) s1)"

section \<open>Elections\<close>

text \<open>
  The candidates sorted by identifier; a computer that is already a leader ranks first,
  with the priority \<open>00\<close>. The second component counts the computers turned off.
\<close>

fun sort_by_id ::
  "snaplock \<Rightarrow> (string \<times> nat) list \<Rightarrow> (string, nat) omap \<times> nat \<Rightarrow> ((string, nat) omap \<times> nat) res"
where
  "sort_by_id s [] r = Inr r"
| "sort_by_id s ((_, a) # cs) (m, off) =
     (if c_priority (sl_pcs s a) \<noteq> PRIORITY_OFF then
        rbind (get_id (sl_pcs s a)) (\<lambda>i.
        let i' = (if a \<in> set (sl_leaders s) then ''00'' @ drop 2 i else i) in
        sort_by_id s cs (om_put i' a m, off))
      else sort_by_id s cs (m, Suc off))"

text \<open>The tests that let this computer conduct an election.\<close>

definition has_leaders :: "snaplock \<Rightarrow> bool" where
  "has_leaders s \<longleftrightarrow>
     sl_leaders s \<noteq> []
   \<and> (length (sl_leaders s) = 3
      \<or> (sl_neighbors_count s < 3 \<and> length (sl_leaders s) = sl_neighbors_count s))"

definition may_elect :: "snaplock \<Rightarrow> bool" where
  "may_elect s \<longleftrightarrow>
     sl_neighbors_count s \<noteq> 0
   \<and> \<not> (sl_neighbors_quorum s < 3 \<and> length (sl_computers s) < sl_neighbors_count s)
   \<and> \<not> (length (sl_computers s) < sl_neighbors_quorum s)
   \<and> \<not> (\<exists>c \<in> set (sl_computers s). c_ip_address (sl_pcs s (snd c)) < sl_my_ip_address s)"

definition enough_candidates :: "snaplock \<Rightarrow> nat \<Rightarrow> nat \<Rightarrow> bool" where
  "enough_candidates s candidates off \<longleftrightarrow>
     (if length (sl_computers s) \<le> 3 then off = 0 else \<not> (length (sl_computers s) - off < 3))
   \<and> \<not> (candidates < 3 \<and> candidates \<noteq> length (sl_computers s))"

definition elect :: "env \<Rightarrow> nat list \<Rightarrow> snaplock \<Rightarrow> snaplock res" where
  "elect E leaders s =
     (let s1 = s\<lparr>sl_leaders := leaders, sl_election_date := current_date E\<rparr> in
      send_built (build [set_command ''LOCKLEADERS'',
                         set_service ''*'',
                         add_integer_parameter ''election_date'' (sl_election_date s1),
                         add_leaders (sl_pcs s1) 0 leaders]) s1)"

definition election_status :: "env \<Rightarrow> snaplock \<Rightarrow> snaplock res" where
  "election_status E s =
     (if has_leaders s then check_lock_status E s
      else if \<not> may_elect s then Inr s
      else
        rbind (sort_by_id s (sl_computers s) ([], 0)) (\<lambda>(candidates, off).
        if \<not> enough_candidates s (length candidates) off then Inr s
        else rbind (elect E (map snd (take 3 candidates)) s) (check_lock_status E)))"

section \<open>CLUSTERUP and CLUSTERDOWN\<close>

definition msg_cluster_up :: "env \<Rightarrow> message \<Rightarrow> snaplock \<Rightarrow> snaplock res" where
  "msg_cluster_up E message s =
     rbind (get_integer_parameter E message ''neighbors_count'') (\<lambda>n.
     let s1 = s\<lparr>sl_neighbors_count := size_t n, sl_neighbors_quorum := size_t n div 2 + 1\<rparr> in
     rbind (election_status E s1) (send_lockstarted None))"

definition msg_cluster_down :: "env \<Rightarrow> message \<Rightarrow> snaplock \<Rightarrow> snaplock res" where
  "msg_cluster_down E message s = check_lock_status E (s\<lparr>sl_leaders := []\<rparr>)"

section \<open>Synchronization of the leaders\<close>

text \<open>
  The LOCK message that restarts a ticket whose owner is gone. Another leader sends it
  with the serial number of a ticket; the code has moved its iterator to the next ticket
  of the map by then, so the number is the next ticket's, and reading it past the last
  one is undefined.
\<close>

definition relock_message :: "env \<Rightarrow> snaplock \<Rightarrow> nat \<Rightarrow> message res" where
  "relock_message E s a =
     (let t = sl_heap s a in
      rbind (get_client_pid E t) (\<lambda>pid.
      build [set_command ''LOCK'',
             set_server (c_name (sl_pcs s (sl_leaders s ! 0))),
             set_service ''snaplock'',
             set_sent_from_server (f_server_name t),
             set_sent_from_service (f_service_name t),
             add_parameter ''object_name'' (f_object_name t),
             add_integer_parameter ''pid'' pid,
             add_integer_parameter ''timeout'' (f_obtention_timeout t),
             add_integer_parameter ''duration'' (f_lock_duration t),
             add_integer_parameter ''unlock_duration'' (f_unlock_duration t)]))"

definition send_relock :: "message \<Rightarrow> (string, nat) omap \<Rightarrow> snaplock \<Rightarrow> snaplock res" where
  "send_relock lock_message rest s =
     (case rest of
        [] \<Rightarrow> Inl Undefined_behaviour
      | (_, b) # _ \<Rightarrow>
          send_built (add_integer_parameter ''serial'' (sint (f_serial (sl_heap s b))) lock_message) s)"

text \<open>
  The inner loop over entering tickets: what stays in the map, and the messages leader 0
  handles itself.
\<close>

fun sync_entering ::
  "env \<Rightarrow> bool \<Rightarrow> (string, nat) omap \<Rightarrow> message list \<Rightarrow> snaplock \<Rightarrow>
   ((string, nat) omap \<times> message list \<times> snaplock) res" where
  "sync_entering E leader0 [] local_locks s = Inr ([], local_locks, s)"
| "sync_entering E leader0 ((k, a) # rest) local_locks s =
     (if known_leader s (f_owner (sl_heap s a)) then
        rbind (sync_entering E leader0 rest local_locks s)
          (\<lambda>(km, ll, s1). Inr ((k, a) # km, ll, s1))
      else
        rbind (relock_message E s a) (\<lambda>lock_message.
        if leader0 then sync_entering E leader0 rest (local_locks @ [lock_message]) s
        else
          rbind (send_relock lock_message rest s) (\<lambda>s1.
          rbind (sync_entering E leader0 rest local_locks s1)
            (\<lambda>(km, ll, s2). Inr ((k, a) # km, ll, s2)))))"

fun sync_tickets ::
  "env \<Rightarrow> bool \<Rightarrow> (string, nat) omap \<Rightarrow> message list \<Rightarrow> string \<Rightarrow> snaplock \<Rightarrow>
   ((string, nat) omap \<times> message list \<times> string \<times> snaplock) res" where
  "sync_tickets E leader0 [] local_locks serialized s = Inr ([], local_locks, serialized, s)"
| "sync_tickets E leader0 ((k, a) # rest) local_locks serialized s =
     (let keep = (\<lambda>ser s1.
            rbind (sync_tickets E leader0 rest local_locks ser s1)
              (\<lambda>(km, ll, ser', s2). Inr ((k, a) # km, ll, ser', s2)));
          known = known_leader s (f_owner (sl_heap s a)) in
      if f_locked (sl_heap s a) then
        let s1 = (if known then s
                  else upd_ticket a (set_owner (c_name (sl_pcs s (sl_leaders s ! 0)))) s) in
        keep (serialized @ serialize (sl_heap s1 a) @ [CHR 0x0A]) s1
      else if known then keep serialized s
      else
        rbind (relock_message E s a) (\<lambda>lock_message.
        if leader0 then sync_tickets E leader0 rest (local_locks @ [lock_message]) serialized s
        else rbind (send_relock lock_message rest s) (keep serialized)))"

fun sync_entering_objects ::
  "env \<Rightarrow> bool \<Rightarrow> string list \<Rightarrow> message list \<Rightarrow> snaplock \<Rightarrow> (message list \<times> snaplock) res" where
  "sync_entering_objects E leader0 [] local_locks s = Inr (local_locks, s)"
| "sync_entering_objects E leader0 (ob # obs) local_locks s =
     rbind (sync_entering E leader0 (inner ob (sl_entering_tickets s)) local_locks s)
       (\<lambda>(km, ll, s1). sync_entering_objects E leader0 obs ll
          (s1\<lparr>sl_entering_tickets := om_put ob km (sl_entering_tickets s1)\<rparr>))"

fun sync_tickets_objects ::
  "env \<Rightarrow> bool \<Rightarrow> string list \<Rightarrow> message list \<Rightarrow> string \<Rightarrow> snaplock \<Rightarrow>
   (message list \<times> string \<times> snaplock) res" where
  "sync_tickets_objects E leader0 [] local_locks serialized s = Inr (local_locks, serialized, s)"
| "sync_tickets_objects E leader0 (ob # obs) local_locks serialized s =
     rbind (sync_tickets E leader0 (inner ob (sl_tickets s)) local_locks serialized s)
       (\<lambda>(km, ll, ser, s1). sync_tickets_objects E leader0 obs ll ser
          (s1\<lparr>sl_tickets := om_put ob km (sl_tickets s1)\<rparr>))"

definition send_lock_tickets :: "string \<Rightarrow> snaplock \<Rightarrow> snaplock res" where
  "send_lock_tickets serialized s =
     rbind (build [set_command ''LOCKTICKETS'',
                   set_service ''snaplock'',
                   add_parameter ''tickets'' serialized]) (\<lambda>m.
     rbind (get_leader_a s) (\<lambda>la.
     case la of
       None \<Rightarrow> Inr s
     | Some l \<Rightarrow>
         rbind (set_server (c_name (sl_pcs s l)) m) (\<lambda>m1.
         let s1 = send_message m1 s in
         rbind (get_leader_b s1) (\<lambda>lb.
         case lb of
           None \<Rightarrow> Inr s1
         | Some l2 \<Rightarrow> send_built (set_server (c_name (sl_pcs s1 l2)) m1) s1))))"

definition synchronize_leaders :: "env \<Rightarrow> snaplock \<Rightarrow> snaplock res" where
  "synchronize_leaders E s =
     (if length (sl_leaders s) \<le> 1 then Inr s
      else
        rbind (is_leader s []) (\<lambda>l.
        if l = None then Inr s
        else
          rbind (get_id (sl_pcs s (sl_leaders s ! 0))) (\<lambda>i.
          let leader0 = (i = sl_my_id s) in
          rbind (sync_entering_objects E leader0 (map fst (sl_entering_tickets s)) [] s)
            (\<lambda>(ll1, s1).
          rbind (sync_tickets_objects E leader0 (map fst (sl_tickets s1)) ll1 [] s1)
            (\<lambda>(ll2, serialized, s2).
          rbind (msg_lock_all E ll2 s2) (\<lambda>s3.
          if serialized \<noteq> [] then send_lock_tickets serialized s3 else Inr s3))))))"

section \<open>LOCKLEADERS and LOCKSTARTED\<close>

text \<open>
  One parameter \<open>leader0\<close>, \<open>leader1\<close>, \<open>leader2\<close> of a message: a computer not known yet is
  added, not connected.
\<close>

definition add_message_leader :: "env \<Rightarrow> message \<Rightarrow> nat \<Rightarrow> snaplock \<Rightarrow> snaplock res" where
  "add_message_leader E message idx s =
     (let param_name = ''leader'' @ dec (int idx) in
      rbind (has_parameter message param_name) (\<lambda>b.
      if b then
        rbind (get_parameter message param_name) (\<lambda>lockid.
        rbind (set_id E lockid computer_t) (\<lambda>(ok, leader).
        if ok then
          (case map_of (sl_computers s) (c_name leader) of
             Some l \<Rightarrow> Inr (s\<lparr>sl_leaders := sl_leaders s @ [l]\<rparr>)
           | None \<Rightarrow>
               let (l, s1) = new_pc (leader\<lparr>c_connected := False\<rparr>) s in
               Inr (s1\<lparr>sl_computers := om_put (c_name leader) l (sl_computers s1),
                       sl_leaders := sl_leaders s1 @ [l]\<rparr>))
        else Inr s))
      else Inr s))"

definition message_leaders :: "env \<Rightarrow> message \<Rightarrow> snaplock \<Rightarrow> snaplock res" where
  "message_leaders E message = chain (map (add_message_leader E message) [0, 1, 2])"

definition msg_lock_leaders :: "env \<Rightarrow> message \<Rightarrow> snaplock \<Rightarrow> snaplock res" where
  "msg_lock_leaders E message s =
     rbind (get_integer_parameter E message ''election_date'') (\<lambda>d.
     rbind (message_leaders E message (s\<lparr>sl_election_date := d, sl_leaders := []\<rparr>)) (\<lambda>s1.
     rbind (if sl_leaders s1 \<noteq> [] then
              rbind (synchronize_leaders E s1) (\<lambda>s2.
              Inr (s2\<lparr>sl_next_leader := random_byte E mod length (sl_leaders s2)\<rparr>))
            else Inr s1)
       (check_lock_status E)))"

text \<open>What LOCKSTARTED says of the computer: \<open>None\<close> when its identifier is refused.\<close>

definition started_computer ::
  "env \<Rightarrow> message \<Rightarrow> string \<Rightarrow> int \<Rightarrow> snaplock \<Rightarrow> (bool \<times> snaplock) option res" where
  "started_computer E message server_name start_time s =
     (case map_of (sl_computers s) server_name of
        None \<Rightarrow>
          rbind (get_parameter message ''lockid'') (\<lambda>lockid.
          rbind (set_id E lockid computer_t) (\<lambda>(ok, computer).
          if \<not> ok then Inr None
          else
            let (c, s1) = new_pc (computer\<lparr>c_start_time := start_time\<rparr>) s in
            Inr (Some (True, s1\<lparr>sl_computers := om_put (c_name computer) c (sl_computers s1)\<rparr>))))
      | Some c \<Rightarrow>
          let n1 = \<not> c_connected (sl_pcs s c);
              s1 = (if n1 then upd_pc c (\<lambda>p. p\<lparr>c_connected := True\<rparr>) s else s);
              n2 = (c_start_time (sl_pcs s1 c) \<noteq> start_time);
              s2 = (if n2 then upd_pc c (\<lambda>p. p\<lparr>c_start_time := start_time\<rparr>) s1 else s1) in
          Inr (Some (n1 \<or> n2, s2)))"

definition msg_lock_started :: "env \<Rightarrow> message \<Rightarrow> snaplock \<Rightarrow> snaplock res" where
  "msg_lock_started E message s =
     rbind (get_parameter message ''server_name'') (\<lambda>server_name.
     if server_name = [] then Inl Invalid_message
     else if server_name = sl_server_name s then Inr s
     else
     rbind (get_integer_parameter E message ''starttime'') (\<lambda>start_time.
     rbind (started_computer E message server_name start_time s) (\<lambda>r.
     case r of None \<Rightarrow> Inr s | Some (new_computer, s1) \<Rightarrow>
     rbind (has_parameter message ''election_date'') (\<lambda>b.
     rbind (if b then
              rbind (get_integer_parameter E message ''election_date'') (\<lambda>election_date.
              Inr (if election_date > sl_election_date s1
                   then s1\<lparr>sl_election_date := election_date, sl_leaders := []\<rparr> else s1))
            else Inr s1) (\<lambda>s2.
     rbind (if sl_leaders s2 = [] then message_leaders E message s2 else Inr s2) (\<lambda>s3.
     rbind (election_status E s3) (\<lambda>s4.
     if new_computer then send_lockstarted (Some message) s4 else Inr s4)))))))"

section \<open>A computer is gone\<close>

text \<open>
  The code reads the erased map entry to look for the computer among the leaders
  (\<open>freed_read\<close>).
\<close>

definition msg_server_gone :: "env \<Rightarrow> message \<Rightarrow> snaplock \<Rightarrow> snaplock res" where
  "msg_server_gone E message s =
     rbind (get_parameter message ''server_name'') (\<lambda>server_name.
     if server_name = [] \<or> server_name = sl_server_name s then Inr s
     else
       case map_of (sl_computers s) server_name of
         None \<Rightarrow> Inr s
       | Some c \<Rightarrow>
           let s1 = s\<lparr>sl_computers := om_erase server_name (sl_computers s)\<rparr>;
               p = freed_read E c in
           if p \<in> set (sl_leaders s1) then
             rbind (election_status E (s1\<lparr>sl_leaders := remove1 p (sl_leaders s1)\<rparr>))
               (check_lock_status E)
           else Inr s1)"

definition msg_status :: "env \<Rightarrow> message \<Rightarrow> snaplock \<Rightarrow> snaplock res" where
  "msg_status E message s =
     rbind (get_parameter message ''service'') (\<lambda>service.
     if service = ''remote connection'' \<or> service = ''remote communicator connection'' then
       rbind (get_parameter message ''status'') (\<lambda>status.
       if status = ''up'' then Inr s else msg_server_gone E message s)
     else Inr s)"

end
