(* ===== verification/CommDispatcher.thy ===== *)
theory CommDispatcher
  imports CommMessage
begin

text \<open>
  The dispatcher of libsnapwebsites
  (\<open>libsnapwebsites/src/snapwebsites/snap_communicator_dispatcher.h\<close>): an ordered table of
  commands, match functions and handlers, and the default commands every daemon gets
  (\<open>connection_with_send_message\<close> in \<open>snap_communicator.cpp\<close>). The template parameter
  \<open>T\<close> is the type \<open>'s\<close> of the connection's state. A handler gets the message by reference,
  so it returns the message too.
\<close>

section \<open>Matching\<close>

datatype match_t = MATCH_FALSE | MATCH_TRUE | MATCH_CALLBACK

text \<open>The three match functions of the template, or one of the user's own.\<close>

datatype match_func =
    One_to_one_match
  | Always_match
  | Callback_match
  | User_match "string option \<Rightarrow> message \<Rightarrow> match_t"

type_synonym 's handler = "message \<Rightarrow> 's \<Rightarrow> (message \<times> 's) res"

record 's dispatcher_match =
  f_expr :: "string option"
  f_execute :: "'s handler"
  f_match :: match_func

definition expr_text :: "string option \<Rightarrow> string" where
  "expr_text e = (case e of None \<Rightarrow> [] | Some t \<Rightarrow> t)"

definition run_match :: "match_func \<Rightarrow> string option \<Rightarrow> message \<Rightarrow> match_t" where
  "run_match f expr msg =
     (case f of
        One_to_one_match \<Rightarrow> if expr_text expr = m_command msg then MATCH_TRUE else MATCH_FALSE
      | Always_match \<Rightarrow> MATCH_TRUE
      | Callback_match \<Rightarrow> MATCH_CALLBACK
      | User_match g \<Rightarrow> g expr msg)"

definition execute ::
  "'s dispatcher_match \<Rightarrow> message \<Rightarrow> 's \<Rightarrow> (bool \<times> message \<times> 's) res" where
  "execute d msg s =
     (let m = run_match (f_match d) (f_expr d) msg in
      if m = MATCH_TRUE \<or> m = MATCH_CALLBACK then
        rbind (f_execute d msg s) (\<lambda>(msg', s'). Inr (m = MATCH_TRUE, msg', s'))
      else Inr (False, msg, s))"

fun dispatch :: "'s dispatcher_match list \<Rightarrow> message \<Rightarrow> 's \<Rightarrow> (bool \<times> message \<times> 's) res" where
  "dispatch [] msg s = Inr (False, msg, s)"
| "dispatch (d # ds) msg s =
     rbind (execute d msg s) (\<lambda>(done, msg', s').
       if done then Inr (True, msg', s') else dispatch ds msg' s')"

text \<open>The commands for the COMMANDS reply, and whether \<open>help()\<close> of the user is needed.\<close>

fun get_commands :: "'s dispatcher_match list \<Rightarrow> string list \<times> bool" where
  "get_commands [] = ([], False)"
| "get_commands (d # ds) =
     (let (commands, need_user_help) = get_commands ds in
      case f_expr d of
        None \<Rightarrow>
          (commands, need_user_help
             \<or> (f_match d \<noteq> Always_match \<and> f_match d \<noteq> Callback_match))
      | Some e \<Rightarrow>
          if f_match d = One_to_one_match then (e # commands, need_user_help)
          else (commands, True))"

section \<open>Default commands\<close>

text \<open>What the daemon does for each default command is given by the connection \<open>T\<close>.\<close>

record 's connection =
  x_help :: "'s handler"
  x_alive :: "'s handler"
  x_log :: "'s handler"
  x_quitting :: "'s handler"
  x_ready :: "'s handler"
  x_stop :: "'s handler"
  x_log_unknown :: "'s handler"
  x_reply_with_unknown :: "'s handler"

definition one_to_one :: "string \<Rightarrow> 's handler \<Rightarrow> 's dispatcher_match" where
  "one_to_one e h = \<lparr>f_expr = Some e, f_execute = h, f_match = One_to_one_match\<rparr>"

definition add_snap_communicator_commands ::
  "'s connection \<Rightarrow> 's dispatcher_match list \<Rightarrow> 's dispatcher_match list" where
  "add_snap_communicator_commands x f_matches =
     f_matches
     @ [one_to_one ''HELP'' (x_help x),
        one_to_one ''ALIVE'' (x_alive x),
        one_to_one ''LOG'' (x_log x),
        one_to_one ''QUITTING'' (x_quitting x),
        one_to_one ''READY'' (x_ready x),
        one_to_one ''STOP'' (x_stop x),
        one_to_one ''UNKNOWN'' (x_log_unknown x),
        \<lparr>f_expr = None, f_execute = x_reply_with_unknown x, f_match = Always_match\<rparr>]"

text \<open>The replies of \<open>connection_with_send_message\<close>.\<close>

fun join_commas :: "string list \<Rightarrow> string" where
  "join_commas [] = []"
| "join_commas [x] = x"
| "join_commas (x # xs) = x @ CHR '','' # join_commas xs"

definition commands_reply :: "string list \<Rightarrow> message res" where
  "commands_reply commands =
     (if commands = [] then Inl Implementation_error
      else build [set_command ''COMMANDS'', add_parameter ''list'' (join_commas commands)])"

definition copy_parameter :: "string \<Rightarrow> message \<Rightarrow> message \<Rightarrow> message res" where
  "copy_parameter name message m =
     rbind (has_parameter message name) (\<lambda>b.
       if b then rbind (get_parameter message name) (\<lambda>v. add_parameter name v m) else Inr m)"

definition absolutely_reply :: "env \<Rightarrow> message \<Rightarrow> message res" where
  "absolutely_reply E message =
     build [reply_to message,
            set_command ''ABSOLUTELY'',
            copy_parameter ''serial'' message,
            copy_parameter ''timestamp'' message,
            add_integer_parameter ''reply_timestamp'' (time_now E)]"

definition unknown_reply :: "message \<Rightarrow> message res" where
  "unknown_reply message =
     build [reply_to message,
            set_command ''UNKNOWN'',
            add_parameter ''command'' (m_command message)]"

section \<open>What a table does\<close>

text \<open>
  The contract of a service: an invariant every handler of its table keeps. What the
  dispatcher does with any message, and with any sequence of messages, then keeps it.
\<close>

fun dispatch_all :: "'s dispatcher_match list \<Rightarrow> message list \<Rightarrow> 's \<Rightarrow> 's res" where
  "dispatch_all ds [] s = Inr s"
| "dispatch_all ds (m # ms) s = rbind (dispatch ds m s) (\<lambda>(_, _, s'). dispatch_all ds ms s')"

locale message_service =
  fixes handlers :: "'s dispatcher_match list"
    and inv :: "'s \<Rightarrow> bool"
    and rel :: "'s \<Rightarrow> 's \<Rightarrow> bool"
  assumes handler_step:
      "d \<in> set handlers \<Longrightarrow> run_match (f_match d) (f_expr d) m \<noteq> MATCH_FALSE \<Longrightarrow> inv s \<Longrightarrow>
       f_execute d m s = Inr (m', s') \<Longrightarrow> inv s' \<and> rel s s'"
    and rel_refl: "rel s s"
    and rel_trans: "rel s s' \<Longrightarrow> rel s' s'' \<Longrightarrow> rel s s''"
begin

lemma execute_step:
  "d \<in> set handlers \<Longrightarrow> inv s \<Longrightarrow> execute d m s = Inr (b, m', s') \<Longrightarrow> inv s' \<and> rel s s'"
  using handler_step [of d m s m' s']
  by (auto simp: execute_def Let_def rbind_Inr_iff rel_refl split: if_splits)

lemma dispatch_sub:
  "set ds \<subseteq> set handlers \<Longrightarrow> inv s \<Longrightarrow> dispatch ds m s = Inr (b, m', s') \<Longrightarrow> inv s' \<and> rel s s'"
proof (induction ds arbitrary: m s)
  case (Cons d ds)
  then obtain b1 m1 s1 where e: "execute d m s = Inr (b1, m1, s1)"
    and r: "(if b1 then Inr (True, m1, s1) else dispatch ds m1 s1) = Inr (b, m', s')"
    by (auto simp: rbind_Inr_iff)
  have s1: "inv s1 \<and> rel s s1"
    using execute_step [OF _ Cons.prems(2) e] Cons.prems(1) by simp
  show ?case
  proof (cases b1)
    case False
    then show ?thesis
      using Cons.IH [of s1 m1] Cons.prems s1 r by (auto intro: rel_trans)
  qed (use s1 r in auto)
qed (auto simp: rel_refl)

lemma dispatch_step: "inv s \<Longrightarrow> dispatch handlers m s = Inr (b, m', s') \<Longrightarrow> inv s' \<and> rel s s'"
  by (rule dispatch_sub) auto

lemma dispatch_all_step: "inv s \<Longrightarrow> dispatch_all handlers ms s = Inr s' \<Longrightarrow> inv s' \<and> rel s s'"
proof (induction ms arbitrary: s)
  case (Cons m ms)
  then obtain b m' s1 where d: "dispatch handlers m s = Inr (b, m', s1)"
    and r: "dispatch_all handlers ms s1 = Inr s'"
    by (auto simp: rbind_Inr_iff)
  show ?case
    using dispatch_step [OF Cons.prems(1) d] Cons.IH [OF _ r] rel_trans by blast
qed (auto simp: rel_refl)

end

text \<open>A table of plain commands runs the first handler whose command is the message's.\<close>

lemma dispatch_one_to_one:
  "dispatch (one_to_one e h # ds) msg s =
     (if e = m_command msg then rbind (h msg s) (\<lambda>(m', s'). Inr (True, m', s'))
      else dispatch ds msg s)"
  by (auto simp: one_to_one_def execute_def run_match_def expr_text_def rbind_assoc split: sum.splits
      intro!: arg_cong2 [of _ _ _ _ rbind])

lemma dispatch_skip:
  "\<forall>d \<in> set ds. f_match d = One_to_one_match \<and> expr_text (f_expr d) \<noteq> m_command msg \<Longrightarrow>
   dispatch (ds @ ds') msg s = dispatch ds' msg s"
  by (induction ds) (auto simp: execute_def run_match_def)

end
