(* ===== verification/LockDispatch.thy ===== *)
theory LockDispatch
  imports LockElection CommDispatcher
begin

text \<open>
  The daemon as a whole: the table that maps the name of a message to its handler
  (\<open>g_snaplock_service_messages\<close>), the timer, and the state a daemon starts in.
\<close>

text \<open>
  The TICKETLIST reply. The text of a date is a parameter: \<open>date d\<close> is \<open>date_to_string\<close> of
  \<open>d\<close> in the short format, a blank, and \<open>date_to_string\<close> of \<open>d\<close> in the time format
  (libsnapwebsites formats both with the locale).
\<close>

definition ticket_line :: "(int \<Rightarrow> string) \<Rightarrow> ticket \<Rightarrow> string" where
  "ticket_line date t =
     ''ticket id: '' @ dec (uint (f_our_ticket t))
     @ ''  object name: '' @ CHR 0x22 # f_object_name t @ CHR 0x22 # ''  key: ''
     @ f_entering_key t @ ''  ''
     @ (if f_lock_timeout t = 0 then ''obtention '' @ date (f_obtention_timeout t * 1000000)
        else ''timeout '' @ date (f_lock_timeout t * 1000000)) @ [CHR 0x0A]"

definition msg_list_tickets :: "(int \<Rightarrow> string) \<Rightarrow> message \<Rightarrow> snaplock \<Rightarrow> snaplock res" where
  "msg_list_tickets date message s =
     send_built (build [set_command ''TICKETLIST'', reply_to message,
        add_parameter ''list''
          (concat (map (\<lambda>(_, km). concat (map (\<lambda>(_, a). ticket_line date (sl_heap s a)) km))
             (sl_tickets s)))]) s"

text \<open>
  \<open>stop\<close>: the messenger is dropped when the cluster is quitting or the connection is lost,
  else it unregisters; the timer and the signal connections are removed.
\<close>

definition stop :: "bool \<Rightarrow> snaplock \<Rightarrow> snaplock res" where
  "stop quitting s =
     rbind
       (case sl_messenger s of
          None \<Rightarrow> Inr s
        | Some connected \<Rightarrow>
            if quitting \<or> \<not> connected then Inr (s\<lparr>sl_messenger := None\<rparr>)
            else
              send_built (build [set_command ''UNREGISTER'',
                                 add_parameter ''service'' (sl_service_name s)])
                (s\<lparr>sl_messenger_done := True\<rparr>))
       (\<lambda>s1. Inr (s1\<lparr>sl_running := False\<rparr>))"

section \<open>The table\<close>

definition g_snaplock_service_messages ::
  "(int \<Rightarrow> string) \<Rightarrow> (string \<times> (env \<Rightarrow> message \<Rightarrow> snaplock \<Rightarrow> snaplock res)) list" where
  "g_snaplock_service_messages date =
     [(''ABSOLUTELY'', msg_absolutely),
      (''ACTIVATELOCK'', msg_activate_lock),
      (''ADDTICKET'', msg_add_ticket),
      (''CLUSTERUP'', msg_cluster_up),
      (''CLUSTERDOWN'', msg_cluster_down),
      (''DISCONNECTED'', msg_server_gone),
      (''DROPTICKET'', msg_drop_ticket),
      (''GETMAXTICKET'', msg_get_max_ticket),
      (''HANGUP'', msg_server_gone),
      (''LOCK'', msg_lock),
      (''LOCKACTIVATED'', msg_lock_activated),
      (''LOCKENTERED'', msg_lock_entered),
      (''LOCKENTERING'', msg_lock_entering),
      (''LOCKEXITING'', msg_lock_exiting),
      (''LOCKFAILED'', msg_lock_failed),
      (''LOCKLEADERS'', msg_lock_leaders),
      (''LOCKSTARTED'', msg_lock_started),
      (''LOCKSTATUS'', msg_lock_status),
      (''LOCKTICKETS'', msg_lock_tickets),
      (''LISTTICKETS'', \<lambda>E. msg_list_tickets date),
      (''MAXTICKET'', msg_max_ticket),
      (''STATUS'', msg_status),
      (''TICKETADDED'', msg_ticket_added),
      (''TICKETREADY'', msg_ticket_ready),
      (''UNLOCK'', msg_unlock)]"

text \<open>
  A handler of the daemon as an entry of the dispatcher. The handlers that change the
  message they are given (UNLOCK and LOCK when forwarding, LOCKFAILED) do so after the
  match, and the dispatcher stops there: the changed message is not read again.
\<close>

definition entry ::
  "env \<Rightarrow> string \<times> (env \<Rightarrow> message \<Rightarrow> snaplock \<Rightarrow> snaplock res) \<Rightarrow> snaplock dispatcher_match" where
  "entry E p = one_to_one (fst p) (\<lambda>m s. rbind (snd p E m s) (\<lambda>s'. Inr (m, s')))"

definition send_reply :: "message res \<Rightarrow> snaplock handler" where
  "send_reply r m s = rbind (send_built r s) (\<lambda>s'. Inr (m, s'))"

definition snaplock_commands :: "(int \<Rightarrow> string) \<Rightarrow> string list" where
  "snaplock_commands date =
     map fst (g_snaplock_service_messages date)
     @ [''HELP'', ''ALIVE'', ''LOG'', ''QUITTING'', ''READY'', ''STOP'', ''UNKNOWN'']"

definition snaplock_connection :: "(int \<Rightarrow> string) \<Rightarrow> env \<Rightarrow> snaplock connection" where
  "snaplock_connection date E =
     \<lparr>x_help = send_reply (commands_reply (snaplock_commands date)),
      x_alive = (\<lambda>m. send_reply (absolutely_reply E m) m),
      x_log = (\<lambda>m s. Inr (m, s)),
      x_quitting = (\<lambda>m s. rbind (stop True s) (\<lambda>s'. Inr (m, s'))),
      x_ready = (\<lambda>m s. rbind (ready s) (\<lambda>s'. Inr (m, s'))),
      x_stop = (\<lambda>m s. rbind (stop False s) (\<lambda>s'. Inr (m, s'))),
      x_log_unknown = (\<lambda>m s. rbind (get_parameter m ''command'') (\<lambda>_. Inr (m, s))),
      x_reply_with_unknown = (\<lambda>m. send_reply (unknown_reply m) m)\<rparr>"

definition snaplock_table :: "(int \<Rightarrow> string) \<Rightarrow> env \<Rightarrow> snaplock dispatcher_match list" where
  "snaplock_table date E =
     add_snap_communicator_commands (snaplock_connection date E)
       (map (entry E) (g_snaplock_service_messages date))"

text \<open>One message received by the daemon; the timer calls \<open>cleanup\<close>.\<close>

definition receive :: "(int \<Rightarrow> string) \<Rightarrow> env \<Rightarrow> message \<Rightarrow> snaplock \<Rightarrow> snaplock res" where
  "receive date E m s = rbind (dispatch (snaplock_table date E) m s) (\<lambda>(_, _, s'). Inr s')"

section \<open>The state a daemon starts in\<close>

text \<open>
  The members' initializers and the end of the constructor: this computer is the first
  entry of \<open>f_computers\<close>, and its identifier and address are this daemon's.
\<close>

definition snaplock_init ::
  "int \<Rightarrow> int \<Rightarrow> string \<Rightarrow> string \<Rightarrow> int \<Rightarrow> int \<Rightarrow> snaplock res" where
  "snaplock_init pid random ip server_name priority start_time =
     (let self = (computer_self pid random ip server_name priority)\<lparr>c_start_time := start_time, c_connected := True\<rparr> in
      rbind (get_id self) (\<lambda>my_id.
      Inr \<lparr>sl_service_name = ''snaplock'', sl_messenger = Some True,
           sl_messenger_done = False, sl_running = True,
           sl_start_time = start_time, sl_server_name = server_name,
           sl_neighbors_count = 0, sl_neighbors_quorum = 0,
           sl_my_id = my_id, sl_my_ip_address = c_ip_address self,
           sl_lock_status = ''NOLOCK'', sl_computers = [(server_name, 0)], sl_leaders = [],
           sl_next_leader = 0, sl_message_cache = [], sl_entering_tickets = [],
           sl_tickets = [], sl_election_date = 0, sl_ticket_serial = 0,
           sl_pace_lockstarted = 0, sl_timer = -1, sl_outbox = [],
           sl_heap = (\<lambda>_. default_ticket), sl_next_ticket = 0,
           sl_pcs = (\<lambda>a. if a = 0 then self else computer_t), sl_next_pc = 1\<rparr>))"

end
