(* ===== verification/LockInvariant.thy ===== *)
theory LockInvariant
  imports LockDispatch
begin

text \<open>
  What every handler of the daemon keeps, whatever the messages: the shape of its state
  (\<open>wf_state\<close>) and how a state may evolve (\<open>evolves\<close>): the flags of a ticket only go up, messages
  are only appended, and each LOCKED or UNLOCKED is paid for by a ticket that becomes
  locked or failed.
\<close>

section \<open>Well-formed states\<close>

definition map_ok :: "nat \<Rightarrow> object_map \<Rightarrow> bool" where
  "map_ok n m \<longleftrightarrow> om2_ok m \<and> (\<forall>q \<in> set m. \<forall>p \<in> set (snd q). snd p < n)"

definition keys_ok :: "nat \<Rightarrow> (string, nat) omap \<Rightarrow> bool" where
  "keys_ok n km \<longleftrightarrow> om_ok km \<and> (\<forall>p \<in> set km. snd p < n)"

definition wf_tickets :: "snaplock \<Rightarrow> bool" where
  "wf_tickets s \<longleftrightarrow>
     map_ok (sl_next_ticket s) (sl_tickets s)
   \<and> map_ok (sl_next_ticket s) (sl_entering_tickets s)
   \<and> (\<forall>a < sl_next_ticket s. keys_ok (sl_next_ticket s) (f_still_entering (sl_heap s a)))"

definition wf_cluster :: "snaplock \<Rightarrow> bool" where
  "wf_cluster s \<longleftrightarrow>
     keys_ok (sl_next_pc s) (sl_computers s)
   \<and> (\<forall>l \<in> set (sl_leaders s). l < sl_next_pc s) \<and> length (sl_leaders s) \<le> 3"

definition wf_rest :: "snaplock \<Rightarrow> bool" where
  "wf_rest s \<longleftrightarrow>
     (\<forall>p \<in> set (sl_message_cache s). m_command (snd p) = ''LOCK'')
   \<and> sl_lock_status s \<in> {''LOCKREADY'', ''NOLOCK''} \<and> sl_timer s \<ge> -1"

definition wf_state :: "snaplock \<Rightarrow> bool" where
  "wf_state s \<longleftrightarrow> wf_tickets s \<and> wf_cluster s \<and> wf_rest s"

section \<open>Evolution\<close>

definition flags_le :: "ticket \<Rightarrow> ticket \<Rightarrow> bool" where
  "flags_le t u \<longleftrightarrow>
     (f_get_max_ticket t \<longrightarrow> f_get_max_ticket u)
   \<and> (f_added_ticket t \<longrightarrow> f_added_ticket u)
   \<and> (f_added_ticket_quorum t \<longrightarrow> f_added_ticket_quorum u)
   \<and> (f_ticket_ready t \<longrightarrow> f_ticket_ready u)
   \<and> (f_locked t \<longrightarrow> f_locked u)
   \<and> (f_lock_failed t \<longrightarrow> f_lock_failed u)"

definition sent_count :: "string \<Rightarrow> snaplock \<Rightarrow> nat" where
  "sent_count c s = length (filter (\<lambda>m. m_command m = c) (sl_outbox s))"

definition flag_count :: "(ticket \<Rightarrow> bool) \<Rightarrow> snaplock \<Rightarrow> nat" where
  "flag_count f s = length (filter (\<lambda>a. f (sl_heap s a)) [0..<sl_next_ticket s])"

definition paid :: "string \<Rightarrow> (ticket \<Rightarrow> bool) \<Rightarrow> snaplock \<Rightarrow> snaplock \<Rightarrow> bool" where
  "paid c f s s' \<longleftrightarrow> sent_count c s' + flag_count f s \<le> sent_count c s + flag_count f s'"

definition same_daemon :: "snaplock \<Rightarrow> snaplock \<Rightarrow> bool" where
  "same_daemon s s' \<longleftrightarrow>
     sl_server_name s' = sl_server_name s \<and> sl_my_id s' = sl_my_id s
   \<and> sl_my_ip_address s' = sl_my_ip_address s \<and> sl_start_time s' = sl_start_time s
   \<and> sl_service_name s' = sl_service_name s"

definition evolves :: "snaplock \<Rightarrow> snaplock \<Rightarrow> bool" where
  "evolves s s' \<longleftrightarrow>
     same_daemon s s'
   \<and> take (length (sl_outbox s)) (sl_outbox s') = sl_outbox s
   \<and> sl_next_ticket s \<le> sl_next_ticket s' \<and> sl_next_pc s \<le> sl_next_pc s'
   \<and> (\<forall>a < sl_next_ticket s. flags_le (sl_heap s a) (sl_heap s' a))
   \<and> paid ''LOCKED'' f_locked s s' \<and> paid ''UNLOCKED'' f_lock_failed s s'"

lemma flags_le_refl [simp]: "flags_le t t"
  by (simp add: flags_le_def)

lemma flags_le_trans: "flags_le t u \<Longrightarrow> flags_le u v \<Longrightarrow> flags_le t v"
  by (auto simp: flags_le_def)

lemma evolves_refl [simp]: "evolves s s"
  by (simp add: evolves_def paid_def same_daemon_def)

lemma take_prefix_trans:
  "take (length xs) ys = xs \<Longrightarrow> take (length ys) zs = ys \<Longrightarrow> take (length xs) zs = xs"
proof -
  assume "take (length xs) ys = xs" "take (length ys) zs = ys"
  then obtain us vs where "ys = xs @ us" "zs = ys @ vs"
    by (metis append_take_drop_id)
  then show ?thesis by simp
qed

lemma evolves_trans: "evolves s s1 \<Longrightarrow> evolves s1 s2 \<Longrightarrow> evolves s s2"
  using take_prefix_trans [of "sl_outbox s" "sl_outbox s1" "sl_outbox s2"]
  by (auto simp: evolves_def same_daemon_def paid_def intro: flags_le_trans)

text \<open>Only the messages and the flags matter for what has to be paid.\<close>

lemma flag_count_mono:
  assumes "n \<le> m" and "\<And>a. a < n \<Longrightarrow> f (h a) \<Longrightarrow> f (h' a)"
  shows "length (filter (\<lambda>a. f (h a)) [0..<n]) \<le> length (filter (\<lambda>a. f (h' a)) [0..<m])"
proof -
  have "{i. i < n \<and> f (h i)} \<subseteq> {i. i < m \<and> f (h' i)}"
    using assms by auto
  then have "card {i. i < n \<and> f (h i)} \<le> card {i. i < m \<and> f (h' i)}"
    by (intro card_mono) auto
  moreover have "length (filter P [0..<k]) = card {i. i < k \<and> P i}" for P k
    by (simp add: length_filter_conv_card cong: conj_cong)
  ultimately show ?thesis by simp
qed

definition quiet :: "message \<Rightarrow> bool" where
  "quiet m \<longleftrightarrow> m_command m \<noteq> ''LOCKED'' \<and> m_command m \<noteq> ''UNLOCKED''"

lemma evolvesI:
  assumes "same_daemon s s'" "sl_outbox s' = sl_outbox s @ ms" "list_all quiet ms"
    "sl_next_ticket s \<le> sl_next_ticket s'" "sl_next_pc s \<le> sl_next_pc s'"
    "\<And>a. a < sl_next_ticket s \<Longrightarrow> flags_le (sl_heap s a) (sl_heap s' a)"
  shows "evolves s s'"
proof -
  have "filter (\<lambda>m. m_command m = ''LOCKED'') ms = []"
    "filter (\<lambda>m. m_command m = ''UNLOCKED'') ms = []"
    using assms(3) by (auto simp: filter_empty_conv list_all_iff quiet_def)
  moreover have "flag_count f_locked s \<le> flag_count f_locked s'"
    "flag_count f_lock_failed s \<le> flag_count f_lock_failed s'"
    using assms(4,6) by (auto simp: flag_count_def flags_le_def intro!: flag_count_mono)
  ultimately show ?thesis
    using assms by (simp add: evolves_def paid_def sent_count_def)
qed

definition good :: "snaplock \<Rightarrow> snaplock \<Rightarrow> bool" where
  "good root s \<longleftrightarrow> wf_state s \<and> evolves root s"

lemma good_refl: "wf_state s \<Longrightarrow> good s s"
  by (simp add: good_def)

lemma good_step: "good root s \<Longrightarrow> (wf_state s \<Longrightarrow> wf_state s' \<and> evolves s s') \<Longrightarrow> good root s'"
  by (auto simp: good_def intro: evolves_trans)

end
