(* ===== verification/LockPreserve.thy ===== *)
theory LockPreserve
  imports LockInvariant
begin

text \<open>
  The rules by which the operations of the daemon are shown to keep \<open>wf_state\<close> and \<open>evolves\<close>:
  \<open>good root s\<close> says that \<open>s\<close> is well-formed and a possible future of \<open>root\<close>. The first group
  is about updates of the state; then one lemma per operation, in the order of the calls.
\<close>

named_theorems good_intros \<open>updates that keep a state good\<close>
named_theorems good_dests \<open>operations that keep a state good\<close>

section \<open>Maps\<close>

lemma keys_ok_simps [simp]:
  "keys_ok n []"
  "keys_ok n (p # km) \<longleftrightarrow> (\<forall>q \<in> set km. fst p < fst q) \<and> snd p < n \<and> keys_ok n km"
  by (auto simp: keys_ok_def)

lemma keys_ok_filter [good_intros]: "keys_ok n km \<Longrightarrow> keys_ok n (filter P km)"
  by (auto simp: keys_ok_def)

lemma keys_ok_erase [good_intros]: "keys_ok n km \<Longrightarrow> keys_ok n (om_erase k km)"
  by (simp add: om_erase_def keys_ok_filter)

lemma keys_ok_mono: "keys_ok n km \<Longrightarrow> n \<le> m \<Longrightarrow> keys_ok m km"
  by (auto simp: keys_ok_def)

lemma keys_ok_put [good_intros]: "keys_ok n km \<Longrightarrow> a < n \<Longrightarrow> keys_ok n (om_put k a km)"
  by (auto simp: keys_ok_def dest!: set_om_put [THEN subsetD])

lemma keys_ok_map_of: "keys_ok n km \<Longrightarrow> map_of km k = Some a \<Longrightarrow> a < n"
  by (auto simp: keys_ok_def dest!: map_of_SomeD)

lemma map_ok_inner [good_intros]: "map_ok n m \<Longrightarrow> keys_ok n (inner ob m)"
  by (fastforce simp: map_ok_def keys_ok_def om2_ok_def inner_def split: option.splits
      dest!: map_of_SomeD)

lemma map_ok_map_of: "map_ok n m \<Longrightarrow> map_of m ob = Some km \<Longrightarrow> keys_ok n km"
  using map_ok_inner [of n m ob] by (simp add: inner_def)

lemma map_ok_look2: "map_ok n m \<Longrightarrow> look2 m ob k = Some a \<Longrightarrow> a < n"
  using map_ok_inner [of n m ob] by (auto simp: look2_def intro: keys_ok_map_of)

lemma map_ok_om_put [good_intros]: "map_ok n m \<Longrightarrow> keys_ok n km \<Longrightarrow> map_ok n (om_put ob km m)"
  by (fastforce simp: map_ok_def keys_ok_def om2_ok_om_put dest!: set_om_put [THEN subsetD])

lemma map_ok_put2 [good_intros]: "map_ok n m \<Longrightarrow> a < n \<Longrightarrow> map_ok n (put2 ob k a m)"
  by (simp add: put2_def map_ok_om_put keys_ok_put map_ok_inner)

lemma map_ok_erase: "map_ok n m \<Longrightarrow> map_ok n (om_erase ob m)"
  by (fastforce simp: map_ok_def om2_ok_def om_erase_def)

lemma map_ok_set2 [good_intros]: "map_ok n m \<Longrightarrow> keys_ok n km \<Longrightarrow> map_ok n (set2 ob km m)"
  by (auto simp: set2_def map_ok_om_put map_ok_erase)

lemma map_ok_erase2 [good_intros]: "map_ok n m \<Longrightarrow> map_ok n (erase2 ob k m)"
  by (auto simp: erase2_def map_ok_set2 keys_ok_erase map_ok_map_of split: option.splits)

lemma map_ok_mono: "map_ok n m \<Longrightarrow> n \<le> k \<Longrightarrow> map_ok k m"
  by (fastforce simp: map_ok_def)

section \<open>State updates\<close>

lemma upd_ticket_sel [simp]:
  "sl_heap (upd_ticket a f s) = (sl_heap s)(a := f (sl_heap s a))"
  "sl_tickets (upd_ticket a f s) = sl_tickets s"
  "sl_entering_tickets (upd_ticket a f s) = sl_entering_tickets s"
  "sl_next_ticket (upd_ticket a f s) = sl_next_ticket s"
  "sl_server_name (upd_ticket a f s) = sl_server_name s"
  "sl_outbox (upd_ticket a f s) = sl_outbox s"
  "sl_leaders (upd_ticket a f s) = sl_leaders s"
  "sl_pcs (upd_ticket a f s) = sl_pcs s"
  "sl_next_pc (upd_ticket a f s) = sl_next_pc s"
  "sl_computers (upd_ticket a f s) = sl_computers s"
  "sl_message_cache (upd_ticket a f s) = sl_message_cache s"
  "sl_lock_status (upd_ticket a f s) = sl_lock_status s"
  "sl_timer (upd_ticket a f s) = sl_timer s"
  "sl_my_id (upd_ticket a f s) = sl_my_id s"
  "sl_my_ip_address (upd_ticket a f s) = sl_my_ip_address s"
  "sl_start_time (upd_ticket a f s) = sl_start_time s"
  "sl_service_name (upd_ticket a f s) = sl_service_name s"
  "sl_neighbors_count (upd_ticket a f s) = sl_neighbors_count s"
  "sl_neighbors_quorum (upd_ticket a f s) = sl_neighbors_quorum s"
  "sl_ticket_serial (upd_ticket a f s) = sl_ticket_serial s"
  by (simp_all add: upd_ticket_def)

lemma send_message_sel [simp]:
  "sl_heap (send_message m s) = sl_heap s"
  "sl_tickets (send_message m s) = sl_tickets s"
  "sl_entering_tickets (send_message m s) = sl_entering_tickets s"
  "sl_next_ticket (send_message m s) = sl_next_ticket s"
  "sl_server_name (send_message m s) = sl_server_name s"
  "sl_outbox (send_message m s) = sl_outbox s @ [m]"
  "sl_leaders (send_message m s) = sl_leaders s"
  "sl_pcs (send_message m s) = sl_pcs s"
  "sl_next_pc (send_message m s) = sl_next_pc s"
  "sl_computers (send_message m s) = sl_computers s"
  "sl_message_cache (send_message m s) = sl_message_cache s"
  "sl_lock_status (send_message m s) = sl_lock_status s"
  "sl_timer (send_message m s) = sl_timer s"
  "sl_my_id (send_message m s) = sl_my_id s"
  "sl_my_ip_address (send_message m s) = sl_my_ip_address s"
  "sl_start_time (send_message m s) = sl_start_time s"
  "sl_service_name (send_message m s) = sl_service_name s"
  "sl_neighbors_count (send_message m s) = sl_neighbors_count s"
  "sl_neighbors_quorum (send_message m s) = sl_neighbors_quorum s"
  "sl_ticket_serial (send_message m s) = sl_ticket_serial s"
  by (simp_all add: send_message_def)

lemmas wf_defs = wf_state_def wf_tickets_def wf_cluster_def wf_rest_def

lemma good_wf: "good root s \<Longrightarrow> wf_state s"
  by (simp add: good_def)

lemma good_maps:
  assumes "good root s"
  shows "map_ok (sl_next_ticket s) (sl_tickets s)"
    and "map_ok (sl_next_ticket s) (sl_entering_tickets s)"
    and "a < sl_next_ticket s \<Longrightarrow> keys_ok (sl_next_ticket s) (f_still_entering (sl_heap s a))"
    and "keys_ok (sl_next_pc s) (sl_computers s)"
    and "l \<in> set (sl_leaders s) \<Longrightarrow> l < sl_next_pc s"
    and "length (sl_leaders s) \<le> 3"
  using assms by (simp_all add: good_def wf_defs)

lemma good_send [good_intros]: "good root s \<Longrightarrow> quiet m \<Longrightarrow> good root (send_message m s)"
  by (erule good_step)
    (auto simp: wf_defs send_message_def same_daemon_def intro!: evolvesI [where ms = "[m]"])

lemma good_outbox:
  "good root s \<Longrightarrow> list_all quiet ms \<Longrightarrow> good root (s\<lparr>sl_outbox := sl_outbox s @ ms\<rparr>)"
  by (erule good_step) (auto simp: wf_defs same_daemon_def intro!: evolvesI [where ms = ms])

lemma good_tickets [good_intros]:
  "good root s \<Longrightarrow> map_ok (sl_next_ticket s) m \<Longrightarrow> good root (s\<lparr>sl_tickets := m\<rparr>)"
  by (erule good_step) (auto simp: wf_defs same_daemon_def intro!: evolvesI [where ms = "[]"])

lemma good_entering [good_intros]:
  "good root s \<Longrightarrow> map_ok (sl_next_ticket s) m \<Longrightarrow> good root (s\<lparr>sl_entering_tickets := m\<rparr>)"
  by (erule good_step) (auto simp: wf_defs same_daemon_def intro!: evolvesI [where ms = "[]"])

lemma good_upd [good_intros]:
  assumes "good root s" "flags_le (sl_heap s a) (f (sl_heap s a))"
    "keys_ok (sl_next_ticket s) (f_still_entering (f (sl_heap s a)))"
  shows "good root (upd_ticket a f s)"
  using assms(1) by (rule good_step)
    (use assms(2,3) in \<open>auto simp: wf_defs same_daemon_def intro!: evolvesI [where ms = "[]"]\<close>)

lemma good_new_ticket [good_intros]:
  assumes "good root s" "keys_ok (Suc (sl_next_ticket s)) (f_still_entering t)"
  shows "good root (s\<lparr>sl_heap := (sl_heap s)(sl_next_ticket s := t),
                   sl_next_ticket := Suc (sl_next_ticket s)\<rparr>)"
  using assms(1) by (rule good_step)
    (use assms(2) in \<open>auto simp: wf_defs same_daemon_def less_Suc_eq
        intro!: evolvesI [where ms = "[]"] intro: map_ok_mono keys_ok_mono\<close>)

lemma good_cache [good_intros]:
  "good root s \<Longrightarrow> \<forall>p \<in> set c. m_command (snd p) = ''LOCK'' \<Longrightarrow> good root (s\<lparr>sl_message_cache := c\<rparr>)"
  by (erule good_step) (auto simp: wf_defs same_daemon_def intro!: evolvesI [where ms = "[]"])

lemma good_timer [good_intros]: "good root s \<Longrightarrow> -1 \<le> d \<Longrightarrow> good root (s\<lparr>sl_timer := d\<rparr>)"
  by (erule good_step) (auto simp: wf_defs same_daemon_def intro!: evolvesI [where ms = "[]"])

lemma good_status [good_intros]:
  "good root s \<Longrightarrow> st = ''LOCKREADY'' \<or> st = ''NOLOCK'' \<Longrightarrow> good root (s\<lparr>sl_lock_status := st\<rparr>)"
  by (erule good_step) (auto simp: wf_defs same_daemon_def intro!: evolvesI [where ms = "[]"])

lemma good_leaders [good_intros]:
  "good root s \<Longrightarrow> \<forall>l \<in> set ls. l < sl_next_pc s \<Longrightarrow> length ls \<le> 3 \<Longrightarrow> good root (s\<lparr>sl_leaders := ls\<rparr>)"
  by (erule good_step) (auto simp: wf_defs same_daemon_def intro!: evolvesI [where ms = "[]"])

lemma good_computers [good_intros]:
  "good root s \<Longrightarrow> keys_ok (sl_next_pc s) c \<Longrightarrow> good root (s\<lparr>sl_computers := c\<rparr>)"
  by (erule good_step) (auto simp: wf_defs same_daemon_def intro!: evolvesI [where ms = "[]"])

lemma good_upd_pc [good_intros]: "good root s \<Longrightarrow> good root (upd_pc a f s)"
  by (erule good_step) (auto simp: wf_defs same_daemon_def upd_pc_def intro!: evolvesI [where ms = "[]"])

lemma good_new_pc [good_intros]:
  "good root s \<Longrightarrow> good root (s\<lparr>sl_pcs := (sl_pcs s)(sl_next_pc s := c), sl_next_pc := Suc (sl_next_pc s)\<rparr>)"
  by (erule good_step) (auto simp: wf_defs same_daemon_def less_Suc_eq
      intro!: evolvesI [where ms = "[]"] intro: keys_ok_mono)

text \<open>The other fields do not matter.\<close>

lemma good_other [good_intros]:
  "good root s \<Longrightarrow> good root (s\<lparr>sl_pace_lockstarted := x1\<rparr>)"
  "good root s \<Longrightarrow> good root (s\<lparr>sl_next_leader := x2\<rparr>)"
  "good root s \<Longrightarrow> good root (s\<lparr>sl_ticket_serial := x3\<rparr>)"
  "good root s \<Longrightarrow> good root (s\<lparr>sl_election_date := x4\<rparr>)"
  "good root s \<Longrightarrow> good root (s\<lparr>sl_neighbors_count := x5\<rparr>)"
  "good root s \<Longrightarrow> good root (s\<lparr>sl_neighbors_quorum := x6\<rparr>)"
  "good root s \<Longrightarrow> good root (s\<lparr>sl_messenger := x7\<rparr>)"
  "good root s \<Longrightarrow> good root (s\<lparr>sl_messenger_done := x8\<rparr>)"
  "good root s \<Longrightarrow> good root (s\<lparr>sl_running := x9\<rparr>)"
  by (erule good_step; auto simp: wf_defs same_daemon_def intro!: evolvesI [where ms = "[]"])+

section \<open>Messages\<close>

definition keeps_command :: "(message \<Rightarrow> message res) \<Rightarrow> bool" where
  "keeps_command op \<longleftrightarrow> (\<forall>m m'. op m = Inr m' \<longrightarrow> m_command m' = m_command m)"

lemma keeps_command_simps [simp]:
  "keeps_command (set_server n)" "keeps_command (set_service n)"
  "keeps_command (set_sent_from_server n)" "keeps_command (set_sent_from_service n)"
  "keeps_command (reply_to x)" "keeps_command (add_parameter n v)"
  "keeps_command (add_integer_parameter n i)" "keeps_command Inr"
  by (auto simp: keeps_command_def dest!: setter_Inr reply_to_Inr)

lemma chain_command:
  "chain ops m = Inr m' \<Longrightarrow> list_all keeps_command ops \<Longrightarrow> m_command m' = m_command m"
proof (induction ops arbitrary: m)
  case (Cons op ops)
  then obtain m1 where "op m = Inr m1" "chain ops m1 = Inr m'"
    by (auto simp: rbind_Inr_iff)
  with Cons show ?case by (simp add: keeps_command_def)
qed simp

lemma keeps_command_chain [simp]: "list_all keeps_command ops \<Longrightarrow> keeps_command (chain ops)"
  using chain_command by (auto simp: keeps_command_def)

lemma keeps_command_add_leaders [simp]: "keeps_command (add_leaders pcs i ls)"
proof -
  have "add_leaders pcs i ls m = Inr m' \<Longrightarrow> m_command m' = m_command m" for m m'
    by (induction ls arbitrary: i m) (auto simp: rbind_Inr_iff dest!: setter_Inr)
  then show ?thesis by (simp add: keeps_command_def)
qed

lemma build_command:
  "build (set_command c # ops) = Inr m \<Longrightarrow> list_all keeps_command ops \<Longrightarrow> m_command m = c"
  by (auto simp: build_def rbind_Inr_iff dest!: setter_Inr chain_command)

lemma build_quiet:
  "build (set_command c # ops) = Inr m \<Longrightarrow> list_all keeps_command ops \<Longrightarrow>
   c \<noteq> ''LOCKED'' \<Longrightarrow> c \<noteq> ''UNLOCKED'' \<Longrightarrow> quiet m"
  by (auto simp: quiet_def dest: build_command)

lemma send_built_Inr: "send_built r s = Inr s' \<longleftrightarrow> (\<exists>m. r = Inr m \<and> s' = send_message m s)"
  by (auto simp: send_built_def rbind_Inr_iff)

lemma lock_failed_reply_quiet: "lock_failed_reply m ob k e = Inr m' \<Longrightarrow> quiet m'"
  by (simp add: lock_failed_reply_def) (erule build_quiet, simp_all)

text \<open>\<open>send_message_to_leaders\<close> only appends copies of the message with another server.\<close>

lemma send_message_to_leaders_Inr:
  assumes "send_message_to_leaders a m s = Inr (m', b, s')"
  shows "\<exists>ms. s' = s\<lparr>sl_outbox := sl_outbox s @ ms\<rparr>
    \<and> (\<forall>x \<in> set ms. m_command x = m_command m) \<and> m_command m' = m_command m"
proof -
  obtain m0 la where m0: "chain [set_service ''snaplock'',
        add_parameter ''object_name'' (f_object_name (sl_heap s a))] m = Inr m0"
    and la: "get_leader_a s = Inr la"
    and r: "(case la of None \<Rightarrow> Inr (m0, get_computer_count s \<noteq> 1, s)
     | Some l \<Rightarrow>
         rbind (set_server (c_name (sl_pcs s l)) m0) (\<lambda>m1.
         let s1 = send_message m1 s in
         rbind (get_leader_b s1) (\<lambda>lb.
         case lb of
           None \<Rightarrow> Inr (m1, True, s1)
         | Some l2 \<Rightarrow>
             rbind (set_server (c_name (sl_pcs s1 l2)) m1) (\<lambda>m2.
             Inr (m2, True, send_message m2 s1))))) = Inr (m', b, s')"
    using assms unfolding send_message_to_leaders_def rbind_Inr_iff by blast
  have c: "m_command m0 = m_command m"
    using chain_command [OF m0] by simp
  show ?thesis
  proof (cases la)
    case None
    with r c show ?thesis by (auto intro: exI [of _ "[]"])
  next
    case (Some l)
    then obtain m1 lb where "set_server (c_name (sl_pcs s l)) m0 = Inr m1"
      and r1: "(case lb of None \<Rightarrow> Inr (m1, True, send_message m1 s)
         | Some l2 \<Rightarrow> rbind (set_server (c_name (sl_pcs s l2)) m1)
             (\<lambda>m2. Inr (m2, True, send_message m2 (send_message m1 s)))) = Inr (m', b, s')"
      using r by (simp add: rbind_Inr_iff Let_def) blast
    then have m1: "m1 = m0\<lparr>m_server := c_name (sl_pcs s l)\<rparr>"
      by (auto dest: setter_Inr)
    show ?thesis
    proof (cases lb)
      case None
      with r1 m1 c show ?thesis by (auto simp: send_message_def intro!: exI [of _ "[m1]"])
    next
      case (Some l2)
      with r1 have "s' = send_message m' (send_message m1 s)"
        and "m' = m1\<lparr>m_server := c_name (sl_pcs s l2)\<rparr>"
        by (auto simp: rbind_Inr_iff dest!: setter_Inr)
      with m1 c show ?thesis by (auto simp: send_message_def intro!: exI [of _ "[m1, m']"])
    qed
  qed
qed

lemma good_send_to_leaders [good_dests]:
  assumes "send_message_to_leaders a m s = Inr (m', b, s')" "good root s" "quiet m"
  shows "good root s' \<and> sl_next_ticket s' = sl_next_ticket s \<and> sl_heap s' = sl_heap s
    \<and> sl_tickets s' = sl_tickets s \<and> sl_entering_tickets s' = sl_entering_tickets s
    \<and> sl_server_name s' = sl_server_name s \<and> quiet m'"
proof -
  obtain ms where "s' = s\<lparr>sl_outbox := sl_outbox s @ ms\<rparr>"
    and "\<forall>x \<in> set ms. m_command x = m_command m" and "m_command m' = m_command m"
    using send_message_to_leaders_Inr [OF assms(1)] by blast
  with assms(2,3) show ?thesis
    by (auto simp: quiet_def list_all_iff intro!: good_outbox)
qed

end
