(* ===== verification/LockSteps.thy ===== *)
theory LockSteps
  imports LockPreserve
begin

text \<open>
  Every operation of the daemon keeps a state good. LOCKED and UNLOCKED are sent by
  \<open>lock_activated\<close>, \<open>lock_failed\<close> and \<open>drop_ticket\<close> only, each time with a flag that goes up.
\<close>

section \<open>Operations that pay for their message\<close>

lemma flag_count_Suc:
  assumes "a < sl_next_ticket s" "\<not> f (sl_heap s a)" "f (g (sl_heap s a))"
  shows "flag_count f s < flag_count f (upd_ticket a g s)"
proof -
  let ?A = "{i. i < sl_next_ticket s \<and> f (sl_heap s i)}"
  let ?B = "{i. i < sl_next_ticket s \<and> f (((sl_heap s)(a := g (sl_heap s a))) i)}"
  have "?A \<subset> ?B"
    using assms by (auto simp: psubset_eq set_eq_iff)
  then have "card ?A < card ?B"
    by (intro psubset_card_mono) auto
  moreover have "length (filter P [0..<k]) = card {i. i < k \<and> P i}" for P k
    by (simp add: length_filter_conv_card cong: conj_cong)
  ultimately show ?thesis by (simp add: flag_count_def)
qed

lemma evolves_pay:
  assumes "a < sl_next_ticket s" "flags_le (sl_heap s a) (g (sl_heap s a))"
    and "m_command m = ''LOCKED'' \<Longrightarrow> \<not> f_locked (sl_heap s a) \<and> f_locked (g (sl_heap s a))"
    and "m_command m = ''UNLOCKED'' \<Longrightarrow> \<not> f_lock_failed (sl_heap s a) \<and> f_lock_failed (g (sl_heap s a))"
  shows "evolves s (send_message m (upd_ticket a g s))"
proof -
  have "flag_count f_locked s \<le> flag_count f_locked (upd_ticket a g s)"
    "flag_count f_lock_failed s \<le> flag_count f_lock_failed (upd_ticket a g s)"
    using assms(2) by (auto simp: flag_count_def flags_le_def intro!: flag_count_mono)
  moreover have "m_command m = ''LOCKED'' \<Longrightarrow> flag_count f_locked s < flag_count f_locked (upd_ticket a g s)"
    using assms(1,3) flag_count_Suc by blast
  moreover have "m_command m = ''UNLOCKED'' \<Longrightarrow>
      flag_count f_lock_failed s < flag_count f_lock_failed (upd_ticket a g s)"
    using assms(1,4) flag_count_Suc by blast
  moreover have "flag_count f (send_message m u) = flag_count f u" for f u
    by (simp add: flag_count_def)
  ultimately show ?thesis
    using assms(2) by (auto simp: evolves_def paid_def sent_count_def same_daemon_def)
qed

lemma good_pay:
  assumes "good root s" "a < sl_next_ticket s" "flags_le (sl_heap s a) (g (sl_heap s a))"
    and "m_command m = ''LOCKED'' \<Longrightarrow> \<not> f_locked (sl_heap s a) \<and> f_locked (g (sl_heap s a))"
    and "m_command m = ''UNLOCKED'' \<Longrightarrow> \<not> f_lock_failed (sl_heap s a) \<and> f_lock_failed (g (sl_heap s a))"
    and "f_still_entering (g (sl_heap s a)) = f_still_entering (sl_heap s a)"
  shows "good root (send_message m (upd_ticket a g s))"
  using assms(1) by (rule good_step)
    (use assms in \<open>auto simp: wf_defs intro!: evolves_pay\<close>)

lemma good_lock_activated [good_dests]:
  assumes "lock_activated E a s = Inr s'" "good root s" "a < sl_next_ticket s"
  shows "good root s' \<and> sl_next_ticket s' = sl_next_ticket s \<and> sl_tickets s' = sl_tickets s
    \<and> sl_entering_tickets s' = sl_entering_tickets s"
  using assms good_maps(3) [OF assms(2,3)]
  by (auto simp: lock_activated_def Let_def send_built_Inr flags_le_def
      split: if_splits dest: build_command intro!: good_pay good_upd)

lemma upd_upd: "upd_ticket a g (upd_ticket a f s) = upd_ticket a (\<lambda>t. g (f t)) s"
  by (simp add: upd_ticket_def)

lemma good_lock_failed [good_dests]:
  assumes "lock_failed a s = Inr s'" "good root s" "a < sl_next_ticket s"
  shows "good root s' \<and> sl_next_ticket s' = sl_next_ticket s \<and> sl_tickets s' = sl_tickets s
    \<and> sl_entering_tickets s' = sl_entering_tickets s"
  using assms good_maps(3) [OF assms(2,3)]
  by (auto simp: lock_failed_def Let_def send_built_Inr flags_le_def upd_upd
      split: if_splits dest: build_command intro!: good_pay good_upd)

lemma good_drop_ticket [good_dests]:
  assumes "drop_ticket a s = Inr s'" "good root s" "a < sl_next_ticket s"
  shows "good root s' \<and> sl_next_ticket s' = sl_next_ticket s \<and> sl_tickets s' = sl_tickets s
    \<and> sl_entering_tickets s' = sl_entering_tickets s"
proof -
  obtain m m' b s1 where m: "build [set_command ''DROPTICKET'', add_parameter ''key''
        (if f_ticket_key (sl_heap s a) = [] then f_entering_key (sl_heap s a)
         else f_ticket_key (sl_heap s a))] = Inr m"
    and s1: "send_message_to_leaders a m s = Inr (m', b, s1)"
    and r: "(if \<not> f_lock_failed (sl_heap s1 a) then
          let s2 = upd_ticket a (\<lambda>t. t\<lparr>f_lock_failed := True\<rparr>) s1;
              t2 = sl_heap s2 a in
          send_built (build [set_command ''UNLOCKED'',
                             set_server (f_server_name t2),
                             set_service (f_service_name t2),
                             add_parameter ''object_name'' (f_object_name t2)]) s2
        else Inr s1) = Inr s'"
    using assms(1) by (auto simp: drop_ticket_def Let_def rbind_Inr_iff)
  have "quiet m"
    using m by (rule build_quiet) simp_all
  then have g: "good root s1" "sl_next_ticket s1 = sl_next_ticket s" "sl_tickets s1 = sl_tickets s"
    "sl_entering_tickets s1 = sl_entering_tickets s"
    using good_send_to_leaders [OF s1 assms(2)] by simp_all
  show ?thesis
    using r g assms(3) good_maps(3) [OF g(1)]
    by (auto simp: Let_def send_built_Inr flags_le_def split: if_splits dest: build_command
        intro!: good_pay)
qed

lemma good_activate_lock [good_dests]:
  assumes "activate_lock E a s = Inr s'" "good root s" "a < sl_next_ticket s"
  shows "good root s' \<and> sl_next_ticket s' = sl_next_ticket s \<and> sl_tickets s' = sl_tickets s
    \<and> sl_entering_tickets s' = sl_entering_tickets s"
  using assms
  by (auto simp: activate_lock_def Let_def rbind_Inr_iff split: if_splits
      dest!: good_send_to_leaders dest: good_lock_activated intro: build_quiet)

section \<open>The core of the daemon\<close>

lemma good_remove_entering [good_dests]:
  assumes "remove_entering E a key s = Inr s'" "good root s" "a < sl_next_ticket s"
  shows "good root s' \<and> sl_next_ticket s' = sl_next_ticket s \<and> sl_tickets s' = sl_tickets s
    \<and> sl_entering_tickets s' = sl_entering_tickets s"
proof -
  define left where "left = filter (\<lambda>(k, b). \<not> timed_out E (sl_heap s b))
    (om_erase key (f_still_entering (sl_heap s a)))"
  have "keys_ok (sl_next_ticket s) left"
    using good_maps(3) [OF assms(2,3)] by (simp add: left_def good_intros)
  then have "good root (upd_ticket a (\<lambda>t. t\<lparr>f_still_entering := left\<rparr>) s)"
    "good root (upd_ticket a (\<lambda>t. t\<lparr>f_still_entering := left, f_ticket_ready := True\<rparr>) s)"
    using assms(2) by (auto intro!: good_upd simp: flags_le_def)
  then show ?thesis
    using assms(1,2)
    by (auto simp: remove_entering_def Let_def left_def [symmetric] rbind_Inr_iff upd_upd
        split: if_splits dest!: good_send_to_leaders intro: build_quiet)
qed

text \<open>What the loops over an inner map keep.\<close>

definition loop_kept ::
  "snaplock \<Rightarrow> snaplock \<Rightarrow> snaplock \<Rightarrow> (string, nat) omap \<Rightarrow> (string, nat) omap \<Rightarrow> bool" where
  "loop_kept root s s' km km' \<longleftrightarrow>
     good root s' \<and> sl_next_ticket s' = sl_next_ticket s \<and> sl_tickets s' = sl_tickets s
   \<and> sl_entering_tickets s' = sl_entering_tickets s
   \<and> keys_ok (sl_next_ticket s) km' \<and> set km' \<subseteq> set km"

lemma loop_kept_Cons:
  assumes "loop_kept root s1 s' rest km'" "sl_next_ticket s1 = sl_next_ticket s"
    "sl_tickets s1 = sl_tickets s" "sl_entering_tickets s1 = sl_entering_tickets s"
    "keys_ok (sl_next_ticket s) (p # rest)"
  shows "loop_kept root s s' (p # rest) (p # km')" "loop_kept root s s' (p # rest) km'"
  using assms by (auto simp: loop_kept_def)

lemma good_find_first_loop:
  "find_first_loop E km first s = Inr (km', f, s') \<Longrightarrow> good root s \<Longrightarrow> keys_ok (sl_next_ticket s) km \<Longrightarrow>
   pred_option (\<lambda>a. a < sl_next_ticket s) first \<Longrightarrow>
   loop_kept root s s' km km' \<and> pred_option (\<lambda>a. a < sl_next_ticket s) f"
proof (induction km arbitrary: first s km' f)
  case Nil
  then show ?case by (simp add: loop_kept_def)
next
  case (Cons p rest)
  obtain k a where p: "p = (k, a)" by (cases p)
  let ?first = "case first of None \<Rightarrow> Some a | Some _ \<Rightarrow> first"
  have a: "a < sl_next_ticket s" "keys_ok (sl_next_ticket s) rest"
    using Cons.prems p by auto
  have keep: "loop_kept root s s' (p # rest) km' \<and> pred_option (\<lambda>a. a < sl_next_ticket s) f"
    if r: "rbind (find_first_loop E rest ?first s1) (\<lambda>(km, f, s'). Inr ((k, a) # km, f, s'))
        = Inr (km', f, s')"
      and g: "good root s1" "sl_next_ticket s1 = sl_next_ticket s" "sl_tickets s1 = sl_tickets s"
        "sl_entering_tickets s1 = sl_entering_tickets s" for s1
  proof -
    from r obtain km1 where km1: "find_first_loop E rest ?first s1 = Inr (km1, f, s')"
      and "km' = p # km1"
      by (auto simp: rbind_Inr_iff p)
    moreover have "pred_option (\<lambda>a. a < sl_next_ticket s1) ?first"
      using Cons.prems(4) a g(2) by (cases first) simp_all
    ultimately show ?thesis
      using Cons.IH [OF km1 g(1)] loop_kept_Cons(1) [OF _ g(2-4) Cons.prems(3)] a g(2) by simp
  qed
  show ?case
  proof (cases "timed_out E (sl_heap s a)")
    case False
    then show ?thesis using keep [of s] Cons.prems p by (simp add: Let_def)
  next
    case True
    then obtain s1 where s1: "lock_failed a s = Inr s1"
      and r: "(if timed_out E (sl_heap s1 a) then find_first_loop E rest first s1
          else rbind (find_first_loop E rest ?first s1) (\<lambda>(km, f, s'). Inr ((k, a) # km, f, s')))
        = Inr (km', f, s')"
      using Cons.prems(1) by (auto simp: p Let_def rbind_Inr_iff)
    have g: "good root s1 \<and> sl_next_ticket s1 = sl_next_ticket s \<and> sl_tickets s1 = sl_tickets s
        \<and> sl_entering_tickets s1 = sl_entering_tickets s"
      using good_lock_failed [OF s1 Cons.prems(2) a(1)] .
    show ?thesis
    proof (cases "timed_out E (sl_heap s1 a)")
      case True
      then have "find_first_loop E rest first s1 = Inr (km', f, s')"
        using r by simp
      then show ?thesis
        using Cons.IH [of first s1] loop_kept_Cons(2) [of root s1 s' rest km' s p]
          Cons.prems(3,4) a g by simp
    next
      case False
      then show ?thesis using keep [of s1] r g by simp
    qed
  qed
qed

lemma good_find_first_lock [good_dests]:
  assumes "find_first_lock E ob s = Inr (f, s')" "good root s"
  shows "good root s' \<and> sl_next_ticket s' = sl_next_ticket s
    \<and> sl_entering_tickets s' = sl_entering_tickets s
    \<and> pred_option (\<lambda>a. a < sl_next_ticket s) f"
proof (cases "map_of (sl_tickets s) ob")
  case None
  with assms show ?thesis by (simp add: find_first_lock_def)
next
  case (Some km)
  with assms(1) obtain km' s1 where r: "find_first_loop E km None s = Inr (km', f, s1)"
    and s': "s' = s1\<lparr>sl_tickets := set2 ob km' (sl_tickets s1)\<rparr>"
    by (auto simp: find_first_lock_def rbind_Inr_iff)
  have "keys_ok (sl_next_ticket s) km"
    using good_maps(1) [OF assms(2)] Some by (rule map_ok_map_of)
  then have "loop_kept root s s1 km km' \<and> pred_option (\<lambda>a. a < sl_next_ticket s) f"
    using good_find_first_loop [OF r assms(2)] by simp
  then show ?thesis
    using good_maps(1) [OF assms(2)]
    by (auto simp: s' loop_kept_def intro!: good_tickets map_ok_set2)
qed

lemma good_activate_first_lock [good_dests]:
  assumes "activate_first_lock E ob s = Inr s'" "good root s"
  shows "good root s' \<and> sl_next_ticket s' = sl_next_ticket s
    \<and> sl_entering_tickets s' = sl_entering_tickets s"
proof -
  obtain f s1 where f: "find_first_lock E ob s = Inr (f, s1)"
    and r: "(case f of None \<Rightarrow> Inr s1 | Some a \<Rightarrow> activate_lock E a s1) = Inr s'"
    using assms(1) by (auto simp: activate_first_lock_def rbind_Inr_iff)
  show ?thesis
    using good_find_first_lock [OF f assms(2)] r good_activate_lock [of E _ s1 s' root]
    by (cases f) auto
qed

section \<open>Cleanup\<close>

lemma good_cleanup_cache:
  "cleanup_cache E c n s = Inr (c', n', s') \<Longrightarrow> good root s \<Longrightarrow>
   good root s' \<and> sl_next_ticket s' = sl_next_ticket s \<and> sl_tickets s' = sl_tickets s
   \<and> sl_entering_tickets s' = sl_entering_tickets s \<and> sl_heap s' = sl_heap s \<and> set c' \<subseteq> set c"
proof (induction c arbitrary: n s c' n')
  case (Cons p c)
  obtain t m where p: "p = (t, m)" by (cases p)
  show ?case
  proof (cases "t \<le> time_now E")
    case True
    then obtain s1 where "cleanup_cache E c n s1 = Inr (c', n', s')"
      and "\<exists>m'. quiet m' \<and> s1 = send_message m' s"
      using Cons.prems(1)
      by (auto simp: p rbind_Inr_iff send_built_Inr dest: lock_failed_reply_quiet)
    then show ?thesis
      using Cons.IH [of n s1] Cons.prems(2) by (fastforce intro: good_send)
  next
    case False
    then obtain c1 where "cleanup_cache E c (if t < n then t else n) s = Inr (c1, n', s')"
      and "c' = p # c1"
      using Cons.prems(1) by (auto simp: p rbind_Inr_iff)
    then show ?thesis
      using Cons.IH [of "if t < n then t else n" s] Cons.prems(2) False by auto
  qed
qed simp

lemma good_cleanup_keys:
  "cleanup_keys E km n s = Inr (km', b, n', s') \<Longrightarrow> good root s \<Longrightarrow> keys_ok (sl_next_ticket s) km \<Longrightarrow>
   loop_kept root s s' km km'"
proof (induction km arbitrary: n s km' b n')
  case Nil
  then show ?case by (simp add: loop_kept_def)
next
  case (Cons p rest)
  obtain k a where p: "p = (k, a)" by (cases p)
  have a: "a < sl_next_ticket s" "keys_ok (sl_next_ticket s) rest"
    using Cons.prems p by auto
  have keep: "loop_kept root s s' (p # rest) km'"
    if r: "rbind (cleanup_keys E rest d s1)
        (\<lambda>(km, try, n, s'). Inr ((k, a) # km, try, n, s')) = Inr (km', b, n', s')"
      and g: "good root s1" "sl_next_ticket s1 = sl_next_ticket s" "sl_tickets s1 = sl_tickets s"
        "sl_entering_tickets s1 = sl_entering_tickets s" for s1 d
  proof -
    from r obtain km1 where km1: "cleanup_keys E rest d s1 = Inr (km1, b, n', s')"
      and "km' = p # km1"
      by (auto simp: rbind_Inr_iff p)
    then show ?thesis
      using Cons.IH [OF km1 g(1)] loop_kept_Cons(1) [OF _ g(2-4) Cons.prems(3)] a g(2) by simp
  qed
  show ?case
  proof (cases "timed_out E (sl_heap s a)")
    case False
    then show ?thesis using keep [of _ s] Cons.prems p by (simp add: Let_def)
  next
    case True
    then obtain s1 where s1: "lock_failed a s = Inr s1"
      and r: "(if timed_out E (sl_heap s1 a) then
            rbind (cleanup_keys E rest n s1) (\<lambda>(km, try, n, s'). Inr (km, True, n, s'))
          else rbind (cleanup_keys E rest (if get_current_timeout (sl_heap s1 a) < n
              then get_current_timeout (sl_heap s1 a) else n) s1)
              (\<lambda>(km, try, n, s'). Inr ((k, a) # km, try, n, s'))) = Inr (km', b, n', s')"
      using Cons.prems(1) by (auto simp: p Let_def rbind_Inr_iff)
    have g: "good root s1 \<and> sl_next_ticket s1 = sl_next_ticket s \<and> sl_tickets s1 = sl_tickets s
        \<and> sl_entering_tickets s1 = sl_entering_tickets s"
      using good_lock_failed [OF s1 Cons.prems(2) a(1)] .
    show ?thesis
    proof (cases "timed_out E (sl_heap s1 a)")
      case True
      then obtain b1 where "cleanup_keys E rest n s1 = Inr (km', b1, n', s')"
        using r by (auto simp: rbind_Inr_iff)
      then show ?thesis
        using Cons.IH [of n s1] loop_kept_Cons(2) [OF _ _ _ _ Cons.prems(3)] a g by simp
    next
      case False
      then show ?thesis using keep [of _ s1] r g by simp
    qed
  qed
qed

lemma good_cleanup_tickets:
  "cleanup_tickets E obs n s = Inr (n', s') \<Longrightarrow> good root s \<Longrightarrow>
   good root s' \<and> sl_next_ticket s' = sl_next_ticket s
   \<and> sl_entering_tickets s' = sl_entering_tickets s"
proof (induction obs arbitrary: n s)
  case (Cons ob obs)
  then obtain km b n1 s1 s3 where k: "cleanup_keys E (inner ob (sl_tickets s)) n s = Inr (km, b, n1, s1)"
    and a: "(if km \<noteq> [] \<and> b then activate_first_lock E ob
        (s1\<lparr>sl_tickets := set2 ob km (sl_tickets s1)\<rparr>)
        else Inr (s1\<lparr>sl_tickets := set2 ob km (sl_tickets s1)\<rparr>)) = Inr s3"
    and r: "cleanup_tickets E obs n1 s3 = Inr (n', s')"
    by (auto simp: rbind_Inr_iff Let_def)
  have "loop_kept root s s1 (inner ob (sl_tickets s)) km"
    using k Cons.prems(2) by (rule good_cleanup_keys) (simp add: good_maps [OF Cons.prems(2)] map_ok_inner)
  then have "good root (s1\<lparr>sl_tickets := set2 ob km (sl_tickets s1)\<rparr>)"
    "sl_next_ticket s1 = sl_next_ticket s" "sl_entering_tickets s1 = sl_entering_tickets s"
    using good_maps(1) [OF Cons.prems(2)] by (auto simp: loop_kept_def intro!: good_tickets map_ok_set2)
  then have "good root s3 \<and> sl_next_ticket s3 = sl_next_ticket s
      \<and> sl_entering_tickets s3 = sl_entering_tickets s"
    using a by (auto split: if_splits dest!: good_activate_first_lock)
  then show ?case using Cons.IH [OF r] by simp
qed simp

lemma good_cleanup_entering:
  "cleanup_entering E obs n s = Inr (n', s') \<Longrightarrow> good root s \<Longrightarrow>
   good root s' \<and> sl_next_ticket s' = sl_next_ticket s"
proof (induction obs arbitrary: n s)
  case (Cons ob obs)
  then obtain km b n1 s1 where k: "cleanup_keys E (inner ob (sl_entering_tickets s)) n s = Inr (km, b, n1, s1)"
    and r: "cleanup_entering E obs n1
        (s1\<lparr>sl_entering_tickets := set2 ob km (sl_entering_tickets s1)\<rparr>) = Inr (n', s')"
    by (auto simp: rbind_Inr_iff)
  have "loop_kept root s s1 (inner ob (sl_entering_tickets s)) km"
    using k Cons.prems(2) by (rule good_cleanup_keys) (simp add: good_maps [OF Cons.prems(2)] map_ok_inner)
  then have "good root (s1\<lparr>sl_entering_tickets := set2 ob km (sl_entering_tickets s1)\<rparr>)"
    "sl_next_ticket s1 = sl_next_ticket s"
    using good_maps(2) [OF Cons.prems(2)]
    by (auto simp: loop_kept_def intro!: good_entering map_ok_set2)
  then show ?case using Cons.IH [OF r] by simp
qed simp

lemma good_set_timeout_date [good_dests]:
  "set_timeout_date d s = Inr s' \<Longrightarrow> good root s \<Longrightarrow>
   good root s' \<and> sl_next_ticket s' = sl_next_ticket s \<and> sl_tickets s' = sl_tickets s
   \<and> sl_entering_tickets s' = sl_entering_tickets s"
  by (auto simp: set_timeout_date_def split: if_splits intro!: good_timer)

lemma good_cleanup [good_dests]:
  assumes "cleanup E s = Inr s'" "good root s"
  shows "good root s' \<and> sl_next_ticket s' = sl_next_ticket s"
proof -
  obtain c n1 s1 n2 s3 n3 s4 where c: "cleanup_cache E (sl_message_cache s) TIME_MAX s = Inr (c, n1, s1)"
    and t: "cleanup_tickets E (map fst (sl_tickets s1)) n1 (s1\<lparr>sl_message_cache := c\<rparr>) = Inr (n2, s3)"
    and e: "cleanup_entering E (map fst (sl_entering_tickets s3)) n2 s3 = Inr (n3, s4)"
    and d: "set_timeout_date (if n3 \<noteq> TIME_MAX then (n3 + 1) * 1000000 else -1) s4 = Inr s'"
    using assms(1) by (auto simp: cleanup_def rbind_Inr_iff Let_def split: if_splits)
  have g1: "good root s1" "sl_next_ticket s1 = sl_next_ticket s" "set c \<subseteq> set (sl_message_cache s)"
    using good_cleanup_cache [OF c assms(2)] by simp_all
  have "good root (s1\<lparr>sl_message_cache := c\<rparr>)"
    using assms(2) g1 by (intro good_cache) (auto simp: good_def wf_rest_def wf_state_def)
  with good_cleanup_tickets [OF t, of root] have "good root s3 \<and> sl_next_ticket s3 = sl_next_ticket s"
    using g1 by simp
  with good_cleanup_entering [OF e, of root] have "good root s4 \<and> sl_next_ticket s4 = sl_next_ticket s"
    by simp
  with good_set_timeout_date [OF d, of root] show ?thesis by simp
qed

end
