(* ===== verification/LockKept.thy ===== *)
theory LockKept
  imports LockSteps
begin

text \<open>
  Every handler of the daemon keeps a state good, and so does the daemon on any sequence
  of messages: the interpretation of \<open>message_service\<close> on the daemon's own table.
\<close>

section \<open>The bakery\<close>

lemma good_remove_entering_all:
  "remove_entering_all E key km s = Inr s' \<Longrightarrow> good root s \<Longrightarrow> keys_ok (sl_next_ticket s) km \<Longrightarrow>
   good root s' \<and> sl_next_ticket s' = sl_next_ticket s \<and> sl_tickets s' = sl_tickets s
   \<and> sl_entering_tickets s' = sl_entering_tickets s"
proof (induction km arbitrary: s)
  case (Cons p km)
  obtain k a where p: "p = (k, a)" by (cases p)
  then obtain s1 where s1: "remove_entering E a key s = Inr s1"
    and r: "remove_entering_all E key km s1 = Inr s'"
    using Cons.prems(1) by (auto simp: rbind_Inr_iff)
  show ?case
    using good_remove_entering [OF s1 Cons.prems(2)] Cons.IH [OF r] Cons.prems(3) p by simp
qed simp

lemma good_msg_lock_exiting [good_dests]:
  assumes "msg_lock_exiting E m s = Inr s'" "good root s"
  shows "good root s' \<and> sl_next_ticket s' = sl_next_ticket s"
proof -
  obtain ob key s4 where r: "(case map_of (sl_entering_tickets s) ob of
          None \<Rightarrow> Inr s
        | Some ekm \<Rightarrow>
            if map_of ekm key = None then Inr s
            else
              let s1 = s\<lparr>sl_entering_tickets :=
                           om_put ob (om_erase key ekm) (sl_entering_tickets s)\<rparr>;
                  tkm = inner ob (sl_tickets s1) in
              rbind (remove_entering_all E key tkm s1) (\<lambda>s2.
              rbind (if tkm \<noteq> [] then activate_first_lock E ob s2 else Inr s2) (\<lambda>s3.
              Inr (s3\<lparr>sl_entering_tickets :=
                        set2 ob (inner ob (sl_entering_tickets s3))
                          (sl_entering_tickets s3)\<rparr>)))) = Inr s4"
    and c: "cleanup E s4 = Inr s'"
    using assms(1) by (auto simp: msg_lock_exiting_def rbind_Inr_iff)
  have "good root s4 \<and> sl_next_ticket s4 = sl_next_ticket s"
  proof (cases "\<exists>ekm. map_of (sl_entering_tickets s) ob = Some ekm \<and> map_of ekm key \<noteq> None")
    case False
    then show ?thesis using r assms(2) by (auto split: option.splits if_splits)
  next
    case True
    then obtain ekm where ekm: "map_of (sl_entering_tickets s) ob = Some ekm" "map_of ekm key \<noteq> None"
      by blast
    let ?s1 = "s\<lparr>sl_entering_tickets := om_put ob (om_erase key ekm) (sl_entering_tickets s)\<rparr>"
    have "rbind (remove_entering_all E key (inner ob (sl_tickets s)) ?s1) (\<lambda>s2.
        rbind (if inner ob (sl_tickets s) \<noteq> [] then activate_first_lock E ob s2 else Inr s2) (\<lambda>s3.
        Inr (s3\<lparr>sl_entering_tickets := set2 ob (inner ob (sl_entering_tickets s3))
                          (sl_entering_tickets s3)\<rparr>))) = Inr s4"
      using r ekm by (simp add: Let_def)
    then obtain s2 s3 where r2: "remove_entering_all E key (inner ob (sl_tickets s)) ?s1 = Inr s2"
      and r3: "(if inner ob (sl_tickets s) \<noteq> [] then activate_first_lock E ob s2 else Inr s2) = Inr s3"
      and s4: "s4 = s3\<lparr>sl_entering_tickets := set2 ob (inner ob (sl_entering_tickets s3))
                          (sl_entering_tickets s3)\<rparr>"
      unfolding rbind_Inr_iff by blast
    have "good root ?s1"
      using assms(2) map_ok_map_of [OF good_maps(2) [OF assms(2)] ekm(1)]
      by (simp add: good_entering map_ok_om_put keys_ok_erase good_maps(2))
    with good_remove_entering_all [OF r2, of root]
    have g2: "good root s2 \<and> sl_next_ticket s2 = sl_next_ticket s"
      by (simp add: map_ok_inner good_maps(1) [OF assms(2)])
    then have "good root s3 \<and> sl_next_ticket s3 = sl_next_ticket s"
      using r3 good_activate_first_lock [of E ob s2 s3 root] by (simp split: if_splits)
    then show ?thesis
      by (auto simp: s4 intro!: good_entering map_ok_set2 map_ok_inner good_maps(2))
  qed
  then show ?thesis using good_cleanup [OF c, of root] by simp
qed

lemma good_ticket_added [good_dests]:
  assumes "ticket_added E a still s = Inr s'" "good root s" "keys_ok (sl_next_ticket s) still"
  shows "good root s' \<and> sl_next_ticket s' = sl_next_ticket s"
proof (cases "f_added_ticket_quorum (sl_heap s a)")
  case False
  let ?s1 = "upd_ticket a (\<lambda>t. t\<lparr>f_added_ticket_quorum := True, f_still_entering := still\<rparr>) s"
  obtain m m' b s2 where m: "build [set_command ''LOCKEXITING'',
        add_parameter ''key'' (f_entering_key (sl_heap ?s1 a))] = Inr m"
    and s2: "send_message_to_leaders a m ?s1 = Inr (m', b, s2)"
    and r: "msg_lock_exiting E m' s2 = Inr s'"
    using assms(1) False by (auto simp: ticket_added_def Let_def rbind_Inr_iff)
  have "good root ?s1"
    using assms(2,3) by (auto intro!: good_upd simp: flags_le_def)
  moreover have "quiet m" using m by (rule build_quiet) simp_all
  ultimately show ?thesis
    using good_send_to_leaders [OF s2, of root] good_msg_lock_exiting [OF r, of root] by simp
qed (use assms in \<open>simp add: ticket_added_def\<close>)

lemma good_add_ticket [good_dests]:
  assumes "add_ticket E a s = Inr s'" "good root s" "a < sl_next_ticket s"
  shows "good root s' \<and> sl_next_ticket s' = sl_next_ticket s"
proof -
  let ?s1 = "upd_ticket a (\<lambda>t. t\<lparr>f_added_ticket := True,
                     f_ticket_key := make_ticket_key (f_our_ticket t) (f_entering_key t)\<rparr>) s"
  let ?t = "sl_heap ?s1 a"
  let ?s2 = "set_ticket (f_object_name ?t) (f_ticket_key ?t) a ?s1"
  obtain m m' b s3 where m: "build [set_command ''ADDTICKET'', add_parameter ''key'' (f_ticket_key ?t),
        add_integer_parameter ''timeout'' (f_obtention_timeout ?t)] = Inr m"
    and s3: "send_message_to_leaders a m ?s2 = Inr (m', b, s3)"
    and r: "(if \<not> b then ticket_added E a (get_entering_tickets (f_object_name (sl_heap s3 a)) s3) s3
             else Inr s3) = Inr s'"
    using assms(1) by (auto simp: add_ticket_def Let_def rbind_Inr_iff split: if_splits)
  have "good root ?s1"
    using assms good_maps(3) [OF assms(2,3)] by (auto intro!: good_upd simp: flags_le_def)
  then have "good root ?s2"
    using assms(3) good_maps(1) [OF assms(2)] unfolding set_ticket_def
    by (intro good_tickets map_ok_put2) auto
  moreover have "quiet m" using m by (rule build_quiet) simp_all
  ultimately have g: "good root s3 \<and> sl_next_ticket s3 = sl_next_ticket s"
    using good_send_to_leaders [OF s3, of root] by (simp add: set_ticket_def)
  have "keys_ok (sl_next_ticket s3) (get_entering_tickets ob s3)" for ob
    unfolding get_entering_tickets_def by (rule map_ok_inner [OF good_maps(2)]) (use g in blast)
  with g r show ?thesis
    using good_ticket_added [of E a _ s3 s' root] by (simp split: if_splits)
qed

lemma good_max_ticket [good_dests]:
  assumes "max_ticket E a n s = Inr s'" "good root s" "a < sl_next_ticket s"
  shows "good root s' \<and> sl_next_ticket s' = sl_next_ticket s"
proof (cases "f_added_ticket (sl_heap s a)")
  case False
  let ?s1 = "upd_ticket a (\<lambda>t. t\<lparr>f_our_ticket :=
              (if n > uint (f_our_ticket t) then word_of_int n else f_our_ticket t) + 1\<rparr>) s"
  have "add_ticket E a ?s1 = Inr s'"
    using assms(1) False by (simp add: max_ticket_def)
  moreover have "good root ?s1"
    using assms(2) good_maps(3) [OF assms(2,3)] by (auto intro!: good_upd simp: flags_le_def)
  ultimately show ?thesis
    using good_add_ticket [of E a ?s1 s' root] assms(3) by simp
qed (use assms in \<open>simp add: max_ticket_def\<close>)

lemma good_entered [good_dests]:
  assumes "entered E a s = Inr s'" "good root s" "a < sl_next_ticket s"
  shows "good root s' \<and> sl_next_ticket s' = sl_next_ticket s"
proof (cases "f_get_max_ticket (sl_heap s a)")
  case False
  let ?s1 = "upd_ticket a (\<lambda>t. t\<lparr>f_get_max_ticket := True,
                     f_our_ticket := get_last_ticket (f_object_name t) s\<rparr>) s"
  obtain m m' b s2 where m: "build [set_command ''GETMAXTICKET'',
        add_parameter ''key'' (f_entering_key (sl_heap ?s1 a))] = Inr m"
    and s2: "send_message_to_leaders a m ?s1 = Inr (m', b, s2)"
    and r: "(if \<not> b then max_ticket E a (uint (f_our_ticket (sl_heap s2 a))) s2 else Inr s2) = Inr s'"
    using assms(1) False by (auto simp: entered_def Let_def rbind_Inr_iff)
  have "good root ?s1"
    using assms(2) good_maps(3) [OF assms(2,3)] by (auto intro!: good_upd simp: flags_le_def)
  moreover have "quiet m" using m by (rule build_quiet) simp_all
  ultimately have "good root s2 \<and> sl_next_ticket s2 = sl_next_ticket s"
    using good_send_to_leaders [OF s2, of root] by simp
  with r assms(3) show ?thesis
    using good_max_ticket [of E a _ s2 s' root] by (simp split: if_splits)
qed (use assms in \<open>simp add: entered_def\<close>)

lemma good_entering_op [good_dests]:
  assumes "entering E a s = Inr s'" "good root s" "a < sl_next_ticket s"
  shows "good root s' \<and> sl_next_ticket s' = sl_next_ticket s"
proof -
  let ?t = "sl_heap s a"
  obtain m m' b s1 where m: "build [set_command ''LOCKENTERING'',
                    add_parameter ''key'' (f_entering_key ?t),
                    add_integer_parameter ''timeout'' (f_obtention_timeout ?t),
                    add_integer_parameter ''duration'' (f_lock_duration ?t),
                    (if f_lock_duration ?t \<noteq> f_unlock_duration ?t
                     then add_integer_parameter ''unlock_duration'' (f_unlock_duration ?t)
                     else Inr),
                    add_parameter ''source'' (f_server_name ?t @ CHR ''/'' # f_service_name ?t),
                    add_integer_parameter ''serial'' (sint (f_serial ?t))] = Inr m"
    and s1: "send_message_to_leaders a m s = Inr (m', b, s1)"
    and r: "(if \<not> b then entered E a s1 else Inr s1) = Inr s'"
    using assms(1) by (auto simp: entering_def Let_def rbind_Inr_iff)
  have "quiet m" using m by (rule build_quiet) simp_all
  with good_send_to_leaders [OF s1, of root] assms(2)
  have "good root s1 \<and> sl_next_ticket s1 = sl_next_ticket s" by simp
  with r assms(3) show ?thesis
    using good_entered [of E a s1 s' root] by (simp split: if_splits)
qed

section \<open>Handlers\<close>

lemma rbind_InrE: "rbind r f = Inr y \<Longrightarrow> (\<And>x. r = Inr x \<Longrightarrow> f x = Inr y \<Longrightarrow> P) \<Longrightarrow> P"
  by (auto simp: rbind_Inr_iff)

lemma good_send_built [good_dests]:
  "send_built (build (set_command c # ops)) s = Inr s' \<Longrightarrow> good root s \<Longrightarrow> list_all keeps_command ops \<Longrightarrow>
   c \<noteq> ''LOCKED'' \<Longrightarrow> c \<noteq> ''UNLOCKED'' \<Longrightarrow>
   good root s' \<and> sl_next_ticket s' = sl_next_ticket s \<and> sl_heap s' = sl_heap s
   \<and> sl_tickets s' = sl_tickets s \<and> sl_entering_tickets s' = sl_entering_tickets s"
  by (auto simp: send_built_Inr intro!: good_send dest: build_quiet)

lemma good_send_lock_failed [good_dests]:
  "send_built (lock_failed_reply m ob k e) s = Inr s' \<Longrightarrow> good root s \<Longrightarrow>
   good root s' \<and> sl_next_ticket s' = sl_next_ticket s \<and> sl_heap s' = sl_heap s
   \<and> sl_tickets s' = sl_tickets s \<and> sl_entering_tickets s' = sl_entering_tickets s"
  unfolding lock_failed_reply_def by (rule good_send_built, assumption+) simp_all

lemma good_send_lockstarted [good_dests]:
  "send_lockstarted r s = Inr s' \<Longrightarrow> good root s \<Longrightarrow>
   good root s' \<and> sl_next_ticket s' = sl_next_ticket s \<and> sl_heap s' = sl_heap s
   \<and> sl_tickets s' = sl_tickets s \<and> sl_entering_tickets s' = sl_entering_tickets s"
  unfolding send_lockstarted_def by (rule good_send_built, assumption+) (auto split: option.splits)

lemma good_is_ready [good_dests]:
  "is_ready E s = Inr (b, s') \<Longrightarrow> good root s \<Longrightarrow>
   good root s' \<and> sl_next_ticket s' = sl_next_ticket s \<and> sl_heap s' = sl_heap s
   \<and> sl_tickets s' = sl_tickets s \<and> sl_entering_tickets s' = sl_entering_tickets s"
  using good_send_lockstarted [of _ "s\<lparr>sl_pace_lockstarted := time_now E + 5\<rparr>" s' root]
    good_other(1) [of root s "time_now E + 5"]
  by (auto simp: is_ready_def rbind_Inr_iff split: if_splits option.splits)

lemma good_forward [good_dests]:
  assumes "forward_message_to_leader m s = Inr s'" "good root s" "quiet m"
  shows "good root s'"
proof -
  obtain m1 where m1: "chain [set_service ''snaplock'',
      add_parameter ''lock_proxy_server_name'' (m_sent_from_server m),
      add_parameter ''lock_proxy_service_name'' (m_sent_from_service m)] m = Inr m1"
    and r: "(if sl_leaders s = [] then Inl Undefined_behaviour else
        let s1 = s\<lparr>sl_next_leader := (sl_next_leader s + 1) mod length (sl_leaders s)\<rparr> in
        send_built (set_server (c_name (sl_pcs s1 (sl_leaders s1 ! sl_next_leader s1))) m1) s1)
        = Inr s'"
    using assms(1) unfolding forward_message_to_leader_def rbind_Inr_iff by blast
  then obtain m2 i n where m2: "set_server n m1 = Inr m2"
    and s': "s' = send_message m2 (s\<lparr>sl_next_leader := i\<rparr>)"
    by (auto simp: send_built_Inr Let_def split: if_splits)
  have "m_command m1 = m_command m"
    using chain_command [OF m1] by simp
  then have "quiet m2"
    using m2 assms(3) by (auto simp: quiet_def dest!: setter_Inr)
  then show ?thesis
    unfolding s' by (intro good_send good_other assms)
qed

lemma snaplock_ticket_still [simp]: "f_still_entering (snaplock_ticket s ob k t d sn sv) = []"
  by (simp add: snaplock_ticket_def Let_def set_unlock_duration_def default_ticket_def)

lemma set_unlock_duration_sel [simp]:
  "f_still_entering (set_unlock_duration d t) = f_still_entering t"
  "flags_le t (set_unlock_duration d t)"
  "f_added_ticket (set_unlock_duration d t) = f_added_ticket t"
  "f_added_ticket_quorum (set_unlock_duration d t) = f_added_ticket_quorum t"
  "f_get_max_ticket (set_unlock_duration d t) = f_get_max_ticket t"
  "f_ticket_ready (set_unlock_duration d t) = f_ticket_ready t"
  "f_locked (set_unlock_duration d t) = f_locked t"
  "f_lock_failed (set_unlock_duration d t) = f_lock_failed t"
  "f_entering_key (set_unlock_duration d t) = f_entering_key t"
  "f_object_name (set_unlock_duration d t) = f_object_name t"
  "f_obtention_timeout (set_unlock_duration d t) = f_obtention_timeout t"
  "f_alive_timeout (set_unlock_duration d t) = f_alive_timeout t"
  "f_lock_duration (set_unlock_duration d t) = f_lock_duration t"
  "f_server_name (set_unlock_duration d t) = f_server_name t"
  "f_service_name (set_unlock_duration d t) = f_service_name t"
  "f_owner (set_unlock_duration d t) = f_owner t"
  "f_our_ticket (set_unlock_duration d t) = f_our_ticket t"
  "f_ticket_key (set_unlock_duration d t) = f_ticket_key t"
  "f_lock_timeout (set_unlock_duration d t) = f_lock_timeout t"
  by (simp_all add: set_unlock_duration_def flags_le_def Let_def)

lemma good_new_entry:
  assumes "good root s" "f_still_entering t = []"
  shows "good root (s\<lparr>sl_heap := (sl_heap s)(sl_next_ticket s := t),
      sl_next_ticket := Suc (sl_next_ticket s),
      sl_entering_tickets := put2 ob ek (sl_next_ticket s) (sl_entering_tickets s)\<rparr>)"
proof -
  let ?a = "sl_next_ticket s"
  let ?s1 = "s\<lparr>sl_heap := (sl_heap s)(?a := t), sl_next_ticket := Suc ?a\<rparr>"
  have "good root ?s1"
    using assms by (intro good_new_ticket) simp_all
  moreover have "map_ok (Suc ?a) (put2 ob ek ?a (sl_entering_tickets s))"
    using good_maps(2) [OF assms(1)] by (auto intro!: map_ok_put2 intro: map_ok_mono)
  ultimately show ?thesis
    using good_entering [of root ?s1 "put2 ob ek ?a (sl_entering_tickets s)"] by simp
qed

lemma good_lock_new_ticket [good_dests]:
  assumes "lock_new_ticket E m ob ek timeout d ud sn sv s = Inr s'" "good root s"
  shows "good root s'"
proof -
  let ?a = "sl_next_ticket s"
  let ?t = "snaplock_ticket s ob ek timeout d sn sv"
  let ?s1 = "s\<lparr>sl_heap := (sl_heap s)(?a := ?t), sl_next_ticket := Suc ?a\<rparr>"
  let ?s2 = "?s1\<lparr>sl_entering_tickets := put2 ob ek ?a (sl_entering_tickets ?s1)\<rparr>"
  let ?s3 = "upd_ticket ?a (set_unlock_duration ud) ?s2"
  have "good root ?s2"
    using good_new_entry [OF assms(2), of ?t ob ek] by simp
  then have s3: "good root ?s3"
    by (intro good_upd) simp_all
  obtain serial relock s6 where
    r: "(if relock then
           send_built (build [set_command ''ALIVE'', set_server sn, set_service sv,
                              add_parameter ''serial'' (''relock/'' @ ob @ CHR ''/'' # ek),
                              add_integer_parameter ''timestamp'' (time_now E)])
             (upd_ticket ?a (set_alive_timeout (5 + time_now E))
               (upd_ticket ?a (set_serial serial) (?s3\<lparr>sl_ticket_serial := serial\<rparr>)))
         else entering E ?a (upd_ticket ?a (set_serial serial) (?s3\<lparr>sl_ticket_serial := serial\<rparr>)))
        = Inr s6"
    and c: "cleanup E s6 = Inr s'"
    using assms(1) unfolding lock_new_ticket_def new_ticket_def Let_def prod.case
    by (elim rbind_InrE)
  let ?s4 = "upd_ticket ?a (set_serial serial) (?s3\<lparr>sl_ticket_serial := serial\<rparr>)"
  have s4: "good root ?s4"
    using good_maps(3) [OF s3, of ?a]
    by (intro good_upd [OF good_other(3) [OF s3]]) (simp_all add: set_serial_def flags_le_def)
  have "good root (upd_ticket ?a (set_alive_timeout (5 + time_now E)) ?s4)"
    using good_maps(3) [OF s4, of ?a]
    by (intro good_upd [OF s4]) (simp_all add: set_alive_timeout_def set_serial_def flags_le_def Let_def)
  then have "good root s6"
    using r s4 good_entering_op [of E ?a ?s4 s6 root]
    by (auto split: if_splits dest!: good_send_built [where root = root])
  then show ?thesis
    using good_cleanup [OF c] by simp
qed

lemma good_msg_lock:
  assumes "msg_lock E m s = Inr s'" "good root s" "m_command m = ''LOCK''"
  shows "good root s'"
proof -
  have q: "quiet m" using assms(3) by (simp add: quiet_def)
  have cache: "good root (u\<lparr>sl_message_cache := sl_message_cache u @ [(t, m)]\<rparr>)" if "good root u" for u t
    using that assms(3) by (intro good_cache) (auto simp: good_def wf_state_def wf_rest_def)
  show ?thesis
    using assms(1,2) q unfolding msg_lock_def Let_def
    by (auto elim!: rbind_InrE split: if_splits option.splits sum.splits intro!: cache
        dest!: good_cleanup [where root = root] good_send_lock_failed [where root = root]
          good_is_ready [where root = root] good_forward [where root = root]
          good_lock_new_ticket [where root = root] good_set_timeout_date [where root = root, OF _ cache])
qed

lemma find_by_entering_key_mem:
  "find_by_entering_key h ek km = Some (k, a) \<Longrightarrow> (k, a) \<in> set km \<and> f_entering_key (h a) = ek"
  by (auto simp: find_by_entering_key_def find_Some_iff) (metis nth_mem)

lemma good_find_by_entering_key:
  "good root s \<Longrightarrow> find_by_entering_key h ek (inner ob (sl_tickets s)) = Some (k, a) \<Longrightarrow>
   a < sl_next_ticket s"
  using map_ok_inner [OF good_maps(1)]
  by (fastforce simp: keys_ok_def dest!: find_by_entering_key_mem)

lemma good_msg_unlock:
  assumes "msg_unlock E m s = Inr s'" "good root s" "m_command m = ''UNLOCK''"
  shows "good root s'"
proof -
  have q: "quiet m" using assms(3) by (simp add: quiet_def)
  have drop: "good root (s2\<lparr>sl_tickets := set2 ob (om_erase k km) (sl_tickets s2)\<rparr>)"
    if d: "drop_ticket a s1 = Inr s2" and km: "map_of (sl_tickets s) ob = Some km"
      and t: "sl_tickets s1 = sl_tickets s" and f: "find_by_entering_key h ek km = Some (k, a)" and s1: "good root s1"
    for a s1 s2 ob km h ek k
  proof -
    have "keys_ok (sl_next_ticket s1) km"
      using map_ok_map_of [OF good_maps(1) [OF s1]] km t by simp
    moreover from this have "a < sl_next_ticket s1"
      using find_by_entering_key_mem [OF f] by (auto simp: keys_ok_def)
    ultimately show ?thesis
      using good_drop_ticket [OF d s1] good_maps(1) [OF s1]
      by (auto intro!: good_tickets map_ok_set2 keys_ok_erase)
  qed
  show ?thesis
    using assms(1,2) q unfolding msg_unlock_def
    by (auto elim!: rbind_InrE split: if_splits option.splits
        dest!: drop good_cleanup [where root = root] good_is_ready [where root = root]
          good_forward [where root = root])
qed

lemma good_alive:
  "good root s \<Longrightarrow> look2 (sl_entering_tickets s) ob k = Some a \<Longrightarrow>
   good root (upd_ticket a (set_alive_timeout t) s) \<and> a < sl_next_ticket s"
  using map_ok_look2 [OF good_maps(2), of root s ob k a] good_maps(3) [of root s a]
  by (auto simp: set_alive_timeout_def flags_le_def Let_def intro!: good_upd)

lemma good_msg_absolutely:
  assumes "msg_absolutely E m s = Inr s'" "good root s"
  shows "good root s'"
proof -
  have alive: "good root s'" if "entering E a (upd_ticket a (set_alive_timeout 0) s) = Inr s'"
    "look2 (sl_entering_tickets s) ob k = Some a" for a ob k
    using good_entering_op [OF that(1)] good_alive [OF assms(2) that(2)] by simp
  show ?thesis
    using assms unfolding msg_absolutely_def Let_def
    by (auto elim!: rbind_InrE split: if_splits option.splits intro: alive
        dest!: good_send_built [where root = root])
qed

lemma good_allocate_entering:
  assumes "allocate_entering E m ob key source timeout s = Inr (b, s')" "good root s"
  shows "good root s'"
proof -
  let ?a = "sl_next_ticket s"
  have new: "good root (upd_ticket ?a (set_serial x) (upd_ticket ?a
       (\<lambda>t. set_unlock_duration u (set_owner o' t))
       (s\<lparr>sl_heap := (sl_heap s)(?a := snaplock_ticket s ob key timeout d sn sv),
          sl_next_ticket := Suc ?a,
          sl_entering_tickets := put2 ob key ?a (sl_entering_tickets s)\<rparr>)))"
    (is "good root (upd_ticket ?a _ (upd_ticket ?a _ ?s2))") for x u o' d sn sv
  proof -
    have "good root ?s2"
      using assms(2) by (rule good_new_entry) simp
    then show ?thesis
      unfolding upd_upd by (rule good_upd) (simp_all add: set_owner_def set_serial_def flags_le_def)
  qed
  show ?thesis
    using assms unfolding allocate_entering_def Let_def new_ticket_def
    by (auto elim!: rbind_InrE split: if_splits intro!: new
        dest!: good_send_lock_failed [where root = root])
qed

lemma good_msg_lock_entering:
  assumes "msg_lock_entering E m s = Inr s'" "good root s"
  shows "good root s'"
  using assms unfolding msg_lock_entering_def
  by (auto elim!: rbind_InrE split: if_splits
      dest!: good_allocate_entering [where root = root] good_cleanup [where root = root]
        good_is_ready [where root = root] good_send_built [where root = root])

lemma good_msg_lock_entered:
  assumes "msg_lock_entered E m s = Inr s'" "good root s"
  shows "good root s'"
  using assms map_ok_look2 [OF good_maps(2)] unfolding msg_lock_entered_def
  by (auto elim!: rbind_InrE split: option.splits dest!: good_entered [where root = root])

lemma good_erase2:
  assumes "good root s"
  shows "good root (s\<lparr>sl_tickets := erase2 ob k (sl_tickets s)\<rparr>)"
    "good root (s\<lparr>sl_entering_tickets := erase2 ob k (sl_entering_tickets s)\<rparr>)"
    "good root (s\<lparr>sl_entering_tickets := erase2 ob k (sl_entering_tickets s),
                  sl_tickets := erase2 ob' k' (sl_tickets s)\<rparr>)"
proof -
  show "good root (s\<lparr>sl_tickets := erase2 ob k (sl_tickets s)\<rparr>)"
    and e: "good root (s\<lparr>sl_entering_tickets := erase2 ob k (sl_entering_tickets s)\<rparr>)"
    using assms by (auto intro!: good_tickets good_entering map_ok_erase2 good_maps)
  show "good root (s\<lparr>sl_entering_tickets := erase2 ob k (sl_entering_tickets s),
                  sl_tickets := erase2 ob' k' (sl_tickets s)\<rparr>)"
    using good_tickets [OF e, of "erase2 ob' k' (sl_tickets s)"] good_maps(1) [OF assms]
    by (simp add: map_ok_erase2)
qed

lemma good_msg_drop_ticket:
  assumes "msg_drop_ticket E m s = Inr s'" "good root s"
  shows "good root s'"
  using assms unfolding msg_drop_ticket_def Let_def
  by (auto elim!: rbind_InrE split: if_splits intro: good_erase2
      dest!: good_cleanup [where root = root] good_activate_first_lock [where root = root])

lemma good_msg_get_max_ticket:
  assumes "msg_get_max_ticket E m s = Inr s'" "good root s"
  shows "good root s'"
  using assms unfolding msg_get_max_ticket_def
  by (auto elim!: rbind_InrE dest!: good_cleanup [where root = root] good_send_built [where root = root])

lemma good_msg_max_ticket:
  assumes "msg_max_ticket E m s = Inr s'" "good root s"
  shows "good root s'"
  using assms map_ok_look2 [OF good_maps(2)] unfolding msg_max_ticket_def
  by (auto elim!: rbind_InrE split: option.splits dest!: good_max_ticket [where root = root])

lemma good_msg_add_ticket:
  assumes "msg_add_ticket E m s = Inr s'" "good root s"
  shows "good root s'"
proof -
  have add: "good root (upd_ticket a (\<lambda>_. t) (set_ticket ob key a s))"
    if "set_ticket_number n (sl_heap (set_ticket ob key a s) a) = Inr t"
      and l: "look2 (sl_entering_tickets s) ob' ek = Some a" for n ob key a t ob' ek
  proof -
    have a: "a < sl_next_ticket s" using good_maps(2) [OF assms(2)] l by (rule map_ok_look2)
    then have "good root (set_ticket ob key a s)"
      using assms(2) good_maps(1) [OF assms(2)] unfolding set_ticket_def
      by (intro good_tickets map_ok_put2)
    then show ?thesis
      using that(1) a good_maps(3) [OF assms(2) a]
      by (intro good_upd) (auto simp: set_ticket_number_def set_ticket_def flags_le_def split: if_splits)
  qed
  show ?thesis
    using assms unfolding msg_add_ticket_def Let_def
    by (auto elim!: rbind_InrE split: if_splits option.splits dest!: add
        dest!: good_send_lock_failed [where root = root] good_send_built [where root = root])
qed

lemma good_msg_ticket_added:
  assumes "msg_ticket_added E m s = Inr s'" "good root s"
  shows "good root s'"
  using assms map_ok_map_of [OF good_maps(2) [OF assms(2)]] unfolding msg_ticket_added_def
  by (auto elim!: rbind_InrE split: option.splits dest!: good_ticket_added [where root = root])

lemma good_msg_ticket_ready:
  assumes "msg_ticket_ready E m s = Inr s'" "good root s"
  shows "good root s'"
  using assms map_ok_look2 [OF good_maps(1) [OF assms(2)]] unfolding msg_ticket_ready_def
  by (auto elim!: rbind_InrE split: option.splits simp: set_ready_def flags_le_def
      intro!: good_upd good_maps(3))

lemma good_msg_activate_lock:
  assumes "msg_activate_lock E m s = Inr s'" "good root s"
  shows "good root s'"
  using assms unfolding msg_activate_lock_def Let_def
  by (auto elim!: rbind_InrE split: if_splits option.splits
      dest!: good_find_first_lock [where root = root] good_lock_activated [where root = root]
        good_send_built [where root = root] good_cleanup [where root = root])

lemma good_msg_lock_activated:
  assumes "msg_lock_activated E m s = Inr s'" "good root s"
  shows "good root s'"
  using assms map_ok_look2 [OF good_maps(1)] unfolding msg_lock_activated_def
  by (auto elim!: rbind_InrE split: option.splits if_splits
      dest!: good_lock_activated [where root = root])

lemma good_msg_lock_failed:
  assumes "msg_lock_failed E m s = Inr s'" "good root s" "quiet m"
  shows "good root s'"
proof -
  obtain ob key where ob: "get_object_name m = Inr ob" and key: "get_key m = Inr key"
    using assms(1) unfolding msg_lock_failed_def by (auto elim!: rbind_InrE)
  let ?fwd1 = "case look2 (sl_entering_tickets s) ob key of None \<Rightarrow> ([], [])
                 | Some a \<Rightarrow> (f_server_name (sl_heap s a), f_service_name (sl_heap s a))"
  let ?s1 = "s\<lparr>sl_entering_tickets := erase2 ob key (sl_entering_tickets s)\<rparr>"
  let ?km = "inner ob (sl_tickets ?s1)"
  let ?tk = "case map_of ?km key of Some a \<Rightarrow> Some (key, a)
               | None \<Rightarrow> find_by_entering_key (sl_heap ?s1) key ?km"
  let ?fwd = "case ?tk of None \<Rightarrow> ?fwd1
                | Some (k, a) \<Rightarrow> (f_server_name (sl_heap ?s1 a), f_service_name (sl_heap ?s1 a))"
  let ?s2 = "case ?tk of None \<Rightarrow> ?s1
               | Some (k, a) \<Rightarrow> ?s1\<lparr>sl_tickets := erase2 ob k (sl_tickets ?s1)\<rparr>"
  obtain s3 s4 where
    s3: "(if ?tk \<noteq> None \<and> map_of (sl_tickets ?s2) ob \<noteq> None
          then activate_first_lock E ob ?s2 else Inr ?s2) = Inr s3"
    and s4: "(if fst ?fwd \<noteq> [] \<and> snd ?fwd \<noteq> []
            then send_built (chain [set_server (fst ?fwd), set_service (snd ?fwd)] m) s3
            else Inr s3) = Inr s4"
    and c: "cleanup E s4 = Inr s'"
    using assms(1) unfolding msg_lock_failed_def Let_def ob key rbind_simps by (elim rbind_InrE)
  have s2: "good root ?s2"
    using assms(2) by (auto intro!: good_erase2 split: option.splits)
  have "good root s3"
    using s2 s3 good_activate_first_lock [of E ob ?s2 s3 root] by (auto split: if_split_asm)
  moreover have "quiet m'" if "chain [set_server x, set_service y] m = Inr m'" for x y m'
    using chain_command [OF that] assms(3) by (simp add: quiet_def)
  ultimately have "good root s4"
    using s4 by (auto simp: send_built_Inr split: if_splits intro!: good_send)
  with good_cleanup [OF c] show ?thesis by blast
qed

section \<open>The cluster\<close>

lemma good_msg_lock_all:
  "msg_lock_all E ms s = Inr s' \<Longrightarrow> good root s \<Longrightarrow> \<forall>m \<in> set ms. m_command m = ''LOCK'' \<Longrightarrow> good root s'"
  by (induction ms arbitrary: s) (auto simp: rbind_Inr_iff dest: good_msg_lock)

lemma good_check_lock_status:
  assumes "check_lock_status E s = Inr s'" "good root s"
  shows "good root s'"
proof -
  obtain b s1 where r: "is_ready E s = Inr (b, s1)"
    using assms(1) unfolding check_lock_status_def by (auto elim!: rbind_InrE)
  let ?st = "if b then ''LOCKREADY'' else ''NOLOCK''"
  have s1: "good root s1" using good_is_ready [OF r assms(2)] by simp
  then have st: "good root (s1\<lparr>sl_lock_status := ?st\<rparr>)"
    by (rule good_status) simp
  show ?thesis
  proof (cases "sl_lock_status s1 = ?st")
    case True
    then show ?thesis using assms(1) s1 r by (auto simp: check_lock_status_def)
  next
    case False
    then obtain s2 where s2: "send_built (build [set_command ?st, set_service ''.'',
          add_parameter ''cache'' ''no'']) (s1\<lparr>sl_lock_status := ?st\<rparr>) = Inr s2"
      and r2: "(if b \<and> sl_message_cache s2 \<noteq> [] then
         msg_lock_all E (map snd (sl_message_cache s2)) (s2\<lparr>sl_message_cache := []\<rparr>)
       else Inr s2) = Inr s'"
      using assms(1) unfolding check_lock_status_def r rbind_simps prod.case Let_def if_P [OF False]
      by (elim rbind_InrE)
    have g2: "good root s2"
      using good_send_built [OF s2 st] by (simp split: if_splits)
    then have "good root (s2\<lparr>sl_message_cache := []\<rparr>)"
      by (rule good_cache) simp
    moreover have "\<forall>m \<in> set (map snd (sl_message_cache s2)). m_command m = ''LOCK''"
      using g2 by (auto simp: good_def wf_state_def wf_rest_def)
    ultimately show ?thesis
      using r2 g2 good_msg_lock_all [of E _ "s2\<lparr>sl_message_cache := []\<rparr>" s' root]
      by (auto split: if_splits)
  qed
qed

lemma good_msg_lock_status:
  assumes "msg_lock_status E m s = Inr s'" "good root s"
  shows "good root s'"
  using assms unfolding msg_lock_status_def
  by (auto elim!: rbind_InrE split: if_splits
      dest!: good_is_ready [where root = root] good_send_built [where root = root])

text \<open>The election only picks known computers, three at most.\<close>

lemma sort_by_id_set:
  "sort_by_id s cs (m, off) = Inr (m', off') \<Longrightarrow> snd ` set m' \<subseteq> snd ` set m \<union> snd ` set cs"
proof (induction cs arbitrary: m off)
  case (Cons p cs)
  obtain k a where p: "p = (k, a)" by (cases p)
  show ?case
  proof (cases "c_priority (sl_pcs s a) = PRIORITY_OFF")
    case True
    then show ?thesis using Cons.IH [of m "Suc off"] Cons.prems p by auto
  next
    case False
    then obtain i where "sort_by_id s cs (om_put i a m, off) = Inr (m', off')"
      using Cons.prems p by (auto simp: rbind_Inr_iff Let_def split: if_splits)
    from Cons.IH [OF this] show ?thesis
      using image_mono [OF set_om_put [of i a m], of snd] p by auto
  qed
qed simp

lemma good_elect:
  assumes "elect E ls s = Inr s'" "good root s" "\<forall>l \<in> set ls. l < sl_next_pc s" "length ls \<le> 3"
  shows "good root s'"
proof -
  have "good root (s\<lparr>sl_leaders := ls, sl_election_date := current_date E\<rparr>)"
    using good_other(4) [OF good_leaders [OF assms(2-4)], of "current_date E"] by simp
  then show ?thesis
    using assms(1) unfolding elect_def Let_def
    by (auto dest!: good_send_built [where root = root])
qed

lemma good_election_status:
  assumes "election_status E s = Inr s'" "good root s"
  shows "good root s'"
proof -
  have step: "good root s1" if "elect E (map snd (take 3 m)) s = Inr s1"
    and "sort_by_id s (sl_computers s) ([], 0) = Inr (m, off)" for m off s1
  proof (rule good_elect [OF that(1) assms(2)])
    have "keys_ok (sl_next_pc s) (sl_computers s)"
      using assms(2) by (rule good_maps)
    then show "\<forall>l \<in> set (map snd (take 3 m)). l < sl_next_pc s"
      using sort_by_id_set [OF that(2)] set_take_subset [of 3 m] by (fastforce simp: keys_ok_def)
  qed simp
  show ?thesis
    using assms unfolding election_status_def
    by (auto elim!: rbind_InrE split: if_splits
        dest!: step dest!: good_check_lock_status [where root = root])
qed

lemma good_msg_cluster_up:
  assumes "msg_cluster_up E m s = Inr s'" "good root s"
  shows "good root s'"
proof -
  have "good root (s\<lparr>sl_neighbors_count := n, sl_neighbors_quorum := q\<rparr>)" for n q
    using good_other(6) [OF good_other(5) [OF assms(2)]] by simp
  then show ?thesis
    using assms unfolding msg_cluster_up_def Let_def
    by (auto elim!: rbind_InrE dest!: good_election_status [where root = root]
        good_send_lockstarted [where root = root])
qed

lemma good_msg_cluster_down:
  assumes "msg_cluster_down E m s = Inr s'" "good root s"
  shows "good root s'"
  using good_check_lock_status [OF assms(1) [unfolded msg_cluster_down_def]]
    good_leaders [OF assms(2), of "[]"] by simp

section \<open>Shared tickets and new leaders\<close>

lemma unserialize_field_still: "f_still_entering (unserialize_field E nv t) = f_still_entering t"
  by (simp add: unserialize_field_def Let_def)

lemma unserialize_field_flags: "flags_le t (unserialize_field E nv t)"
  by (simp add: unserialize_field_def Let_def flags_le_def)

lemma unserialize_kept:
  "f_still_entering (unserialize E l t) = f_still_entering t \<and> flags_le t (unserialize E l t)"
proof -
  have "f_still_entering (foldl (\<lambda>t d. unserialize_field E (name_value d) t) t ds) = f_still_entering t
      \<and> flags_le t (foldl (\<lambda>t d. unserialize_field E (name_value d) t) t ds)" for ds
    by (induction ds arbitrary: t)
      (auto simp: unserialize_field_still intro: flags_le_trans [OF unserialize_field_flags])
  then show ?thesis by (simp add: unserialize_def)
qed

lemma good_lock_tickets_line:
  assumes "good root s"
  shows "good root (lock_tickets_line E l s)"
proof -
  let ?a = "sl_next_ticket s"
  have old: "good root (upd_ticket a (unserialize E l) s)" if f: "find_ticket ob ek s = Some a" for ob ek a
  proof -
    have "a < sl_next_ticket s"
      using f map_ok_look2 [OF good_maps(2) [OF assms]] good_find_by_entering_key [OF assms]
      by (auto simp: find_ticket_def split: option.splits)
    then show ?thesis
      using assms good_maps(3) [OF assms] by (intro good_upd) (simp_all add: unserialize_kept)
  qed
  have new: "good root (s\<lparr>sl_heap := (sl_heap s)(?a := unserialize E l t), sl_next_ticket := Suc ?a\<rparr>)"
    and added: "good root (set_ticket ob k ?a
        (s\<lparr>sl_heap := (sl_heap s)(?a := unserialize E l t), sl_next_ticket := Suc ?a\<rparr>))"
    if "f_still_entering t = []" for t ob k
  proof -
    show n: "good root (s\<lparr>sl_heap := (sl_heap s)(?a := unserialize E l t), sl_next_ticket := Suc ?a\<rparr>)"
      using assms that by (intro good_new_ticket) (simp_all add: unserialize_kept)
    show "good root (set_ticket ob k ?a
        (s\<lparr>sl_heap := (sl_heap s)(?a := unserialize E l t), sl_next_ticket := Suc ?a\<rparr>))"
      unfolding set_ticket_def using n
      by (rule good_tickets)
        (auto intro!: map_ok_put2 intro: map_ok_mono [OF good_maps(1) [OF assms]])
  qed
  show ?thesis
    unfolding lock_tickets_line_def Let_def new_ticket_def
    by (auto split: option.splits intro: assms old new added)
qed

lemma good_msg_lock_tickets:
  assumes "msg_lock_tickets E m s = Inr s'" "good root s"
  shows "good root s'"
proof -
  have "good root s \<Longrightarrow> good root (foldl (\<lambda>s l. lock_tickets_line E l s) s ls)" for s ls
    by (induction ls arbitrary: s) (simp_all add: good_lock_tickets_line)
  then show ?thesis using assms by (auto simp: msg_lock_tickets_def elim!: rbind_InrE)
qed

lemma relock_message_command: "relock_message E s a = Inr m \<Longrightarrow> m_command m = ''LOCK''"
  unfolding relock_message_def Let_def by (auto elim!: rbind_InrE dest: build_command)

lemma good_send_relock:
  assumes "send_relock m rest s = Inr s'" "good root s" "m_command m = ''LOCK''"
  shows "good root s' \<and> sl_next_ticket s' = sl_next_ticket s \<and> sl_heap s' = sl_heap s
    \<and> sl_tickets s' = sl_tickets s \<and> sl_entering_tickets s' = sl_entering_tickets s"
  using assms
  by (auto simp: send_relock_def send_built_Inr quiet_def split: list.splits
      intro!: good_send dest!: setter_Inr)

definition locks_ok :: "message list \<Rightarrow> bool" where
  "locks_ok ms \<longleftrightarrow> (\<forall>m \<in> set ms. m_command m = ''LOCK'')"

lemma locks_ok_snoc: "locks_ok (ms @ [m]) \<longleftrightarrow> locks_ok ms \<and> m_command m = ''LOCK''"
  by (auto simp: locks_ok_def)

lemma good_sync_entering:
  "sync_entering E l0 km ll s = Inr (km', ll', s') \<Longrightarrow> good root s \<Longrightarrow> keys_ok (sl_next_ticket s) km \<Longrightarrow>
   locks_ok ll \<Longrightarrow> loop_kept root s s' km km' \<and> locks_ok ll'"
proof (induction km arbitrary: ll s km' ll')
  case Nil
  then show ?case by (simp add: loop_kept_def)
next
  case (Cons p rest)
  obtain k a where p: "p = (k, a)" by (cases p)
  have rest: "keys_ok (sl_next_ticket s) rest" using Cons.prems(3) by simp
  show ?case
  proof (cases "known_leader s (f_owner (sl_heap s a))")
    case True
    then obtain km1 where "sync_entering E l0 rest ll s = Inr (km1, ll', s')" "km' = p # km1"
      using Cons.prems(1) p by (auto simp: rbind_Inr_iff)
    then show ?thesis
      using Cons.IH [of ll s km1 ll'] Cons.prems rest loop_kept_Cons(1) [of root s s' rest km1 s p] by simp
  next
    case False
    then obtain m where m: "relock_message E s a = Inr m"
      and r: "(if l0 then sync_entering E l0 rest (ll @ [m]) s
        else rbind (send_relock m rest s) (\<lambda>s1. rbind (sync_entering E l0 rest ll s1)
            (\<lambda>(km, ll, s2). Inr ((k, a) # km, ll, s2)))) = Inr (km', ll', s')"
      using Cons.prems(1) p by (auto simp: rbind_Inr_iff)
    note c = relock_message_command [OF m]
    show ?thesis
    proof (cases l0)
      case True
      then show ?thesis
        using Cons.IH [of "ll @ [m]" s km' ll'] Cons.prems rest r c locks_ok_snoc [of ll m]
          loop_kept_Cons(2) [of root s s' rest km' s p] by simp
    next
      case False
      then obtain s1 km1 where s1: "send_relock m rest s = Inr s1"
        and r1: "sync_entering E l0 rest ll s1 = Inr (km1, ll', s')" and km': "km' = p # km1"
        using r p by (auto simp: rbind_Inr_iff)
      note g = good_send_relock [OF s1 Cons.prems(2) c]
      show ?thesis
        using Cons.IH [OF r1] Cons.prems rest g loop_kept_Cons(1) [of root s1 s' rest km1 s p] km' by simp
    qed
  qed
qed

lemma good_sync_entering_objects:
  "sync_entering_objects E l0 obs ll s = Inr (ll', s') \<Longrightarrow> good root s \<Longrightarrow> locks_ok ll \<Longrightarrow>
   good root s' \<and> locks_ok ll'"
proof (induction obs arbitrary: ll s)
  case (Cons ob obs)
  then obtain km ll1 s1 where k: "sync_entering E l0 (inner ob (sl_entering_tickets s)) ll s = Inr (km, ll1, s1)"
    and r: "sync_entering_objects E l0 obs ll1
        (s1\<lparr>sl_entering_tickets := om_put ob km (sl_entering_tickets s1)\<rparr>) = Inr (ll', s')"
    by (auto simp: rbind_Inr_iff)
  have lk: "loop_kept root s s1 (inner ob (sl_entering_tickets s)) km \<and> locks_ok ll1"
    using k Cons.prems(2) map_ok_inner [OF good_maps(2) [OF Cons.prems(2)]] Cons.prems(3)
    by (rule good_sync_entering)
  then have "good root (s1\<lparr>sl_entering_tickets := om_put ob km (sl_entering_tickets s1)\<rparr>)"
    using good_maps(2) [OF Cons.prems(2)] by (auto simp: loop_kept_def intro!: good_entering map_ok_om_put)
  then show ?case using Cons.IH [OF r] lk by simp
qed simp

lemma good_sync_tickets:
  "sync_tickets E l0 km ll ser s = Inr (km', ll', ser', s') \<Longrightarrow> good root s \<Longrightarrow>
   keys_ok (sl_next_ticket s) km \<Longrightarrow> locks_ok ll \<Longrightarrow> loop_kept root s s' km km' \<and> locks_ok ll'"
proof (induction km arbitrary: ll ser s km' ll' ser')
  case Nil
  then show ?case by (simp add: loop_kept_def)
next
  case (Cons p rest)
  obtain k a where p: "p = (k, a)" by (cases p)
  have rest: "keys_ok (sl_next_ticket s) rest" and a: "a < sl_next_ticket s"
    using Cons.prems(3) p by simp_all
  have kept: "loop_kept root s s' (p # rest) km' \<and> locks_ok ll'"
    if r: "rbind (sync_tickets E l0 rest ll ser1 s1)
        (\<lambda>(km, ll, ser', s2). Inr ((k, a) # km, ll, ser', s2)) = Inr (km', ll', ser', s')"
      and g: "good root s1" "sl_next_ticket s1 = sl_next_ticket s" "sl_tickets s1 = sl_tickets s"
        "sl_entering_tickets s1 = sl_entering_tickets s" for ser1 s1
  proof -
    from r obtain km1 where "sync_tickets E l0 rest ll ser1 s1 = Inr (km1, ll', ser', s')" "km' = p # km1"
      by (auto simp: rbind_Inr_iff p)
    then show ?thesis
      using Cons.IH [of ll ser1 s1 km1 ll' ser'] rest g Cons.prems(3,4)
        loop_kept_Cons(1) [of root s1 s' rest km1 s p] by simp
  qed
  have own: "good root (upd_ticket a (set_owner n) s)" for n
    using Cons.prems(2) good_maps(3) [OF Cons.prems(2) a]
    by (intro good_upd) (simp_all add: set_owner_def flags_le_def)
  show ?case
  proof (cases "f_locked (sl_heap s a)")
    case True
    let ?s1 = "if known_leader s (f_owner (sl_heap s a)) then s
               else upd_ticket a (set_owner (c_name (sl_pcs s (sl_leaders s ! 0)))) s"
    have "rbind (sync_tickets E l0 rest ll (ser @ serialize (sl_heap ?s1 a) @ [CHR 0x0A]) ?s1)
        (\<lambda>(km, ll, ser', s2). Inr ((k, a) # km, ll, ser', s2)) = Inr (km', ll', ser', s')"
      using Cons.prems(1) True unfolding p by (simp only: sync_tickets.simps Let_def if_True)
    then show ?thesis
      by (rule kept) (use own Cons.prems(2) in simp_all)
  next
    case False
    note unlocked = this
    show ?thesis
    proof (cases "known_leader s (f_owner (sl_heap s a))")
      case True
      then show ?thesis
        using kept [of ser s] Cons.prems(1,2) unlocked unfolding p by (simp add: Let_def)
    next
      case False
      then obtain m where m: "relock_message E s a = Inr m"
        and r: "(if l0 then sync_tickets E l0 rest (ll @ [m]) ser s
          else rbind (send_relock m rest s) (\<lambda>s1. rbind (sync_tickets E l0 rest ll ser s1)
            (\<lambda>(km, ll, ser', s2). Inr ((k, a) # km, ll, ser', s2)))) = Inr (km', ll', ser', s')"
        using Cons.prems(1) unlocked unfolding p by (auto simp: Let_def rbind_Inr_iff)
      note c = relock_message_command [OF m]
      show ?thesis
      proof (cases l0)
        case True
        then show ?thesis
          using Cons.IH [of "ll @ [m]" ser s km' ll' ser'] Cons.prems rest r c locks_ok_snoc [of ll m]
            loop_kept_Cons(2) [of root s s' rest km' s p] by simp
      next
        case False
        then obtain s1 where s1: "send_relock m rest s = Inr s1"
          and r1: "rbind (sync_tickets E l0 rest ll ser s1)
            (\<lambda>(km, ll, ser', s2). Inr ((k, a) # km, ll, ser', s2)) = Inr (km', ll', ser', s')"
          using r by (auto simp: rbind_Inr_iff)
        from r1 show ?thesis
          by (rule kept) (use good_send_relock [OF s1 Cons.prems(2) c] in simp_all)
      qed
    qed
  qed
qed

lemma good_sync_tickets_objects:
  "sync_tickets_objects E l0 obs ll ser s = Inr (ll', ser', s') \<Longrightarrow> good root s \<Longrightarrow> locks_ok ll \<Longrightarrow>
   good root s' \<and> locks_ok ll'"
proof (induction obs arbitrary: ll ser s)
  case (Cons ob obs)
  then obtain km ll1 ser1 s1 where k: "sync_tickets E l0 (inner ob (sl_tickets s)) ll ser s = Inr (km, ll1, ser1, s1)"
    and r: "sync_tickets_objects E l0 obs ll1 ser1
        (s1\<lparr>sl_tickets := om_put ob km (sl_tickets s1)\<rparr>) = Inr (ll', ser', s')"
    by (auto simp: rbind_Inr_iff)
  have lk: "loop_kept root s s1 (inner ob (sl_tickets s)) km \<and> locks_ok ll1"
    using k Cons.prems(2) map_ok_inner [OF good_maps(1) [OF Cons.prems(2)]] Cons.prems(3)
    by (rule good_sync_tickets)
  then have "good root (s1\<lparr>sl_tickets := om_put ob km (sl_tickets s1)\<rparr>)"
    using good_maps(1) [OF Cons.prems(2)] by (auto simp: loop_kept_def intro!: good_tickets map_ok_om_put)
  then show ?case using Cons.IH [OF r] lk by simp
qed simp

lemma good_send_lock_tickets:
  assumes "send_lock_tickets ser s = Inr s'" "good root s"
  shows "good root s'"
proof -
  have q: "quiet m" if "build [set_command ''LOCKTICKETS'', set_service ''snaplock'',
      add_parameter ''tickets'' ser] = Inr m" for m
    using that by (rule build_quiet) simp_all
  have srv: "quiet m'" if "set_server n m = Inr m'" "quiet m" for n m m'
    using that by (auto simp: quiet_def dest!: setter_Inr)
  show ?thesis
    using assms unfolding send_lock_tickets_def Let_def
    by (auto elim!: rbind_InrE split: option.splits simp: send_built_Inr
        intro!: good_send dest!: q) (blast intro: srv)+
qed

lemma good_synchronize_leaders:
  assumes "synchronize_leaders E s = Inr s'" "good root s"
  shows "good root s'"
  using assms unfolding synchronize_leaders_def Let_def
  by (auto elim!: rbind_InrE split: if_splits simp: locks_ok_def
      dest!: good_sync_entering_objects [where root = root] good_sync_tickets_objects [where root = root]
        good_msg_lock_all [where root = root] good_send_lock_tickets [where root = root])

lemma good_new_computer:
  fixes n :: string and c :: computer
  assumes "good root s"
  shows "good root (s\<lparr>sl_pcs := (sl_pcs s)(sl_next_pc s := c), sl_next_pc := Suc (sl_next_pc s),
                     sl_computers := om_put n (sl_next_pc s) (sl_computers s)\<rparr>)"
  using good_computers [OF good_new_pc [OF assms, of c], of "om_put n (sl_next_pc s) (sl_computers s)"]
    good_maps(4) [OF assms]
  by (simp add: keys_ok_put keys_ok_mono)

lemma good_add_message_leader:
  assumes "add_message_leader E m i s = Inr s'" "good root s" "length (sl_leaders s) \<le> 2"
  shows "good root s' \<and> length (sl_leaders s') \<le> Suc (length (sl_leaders s))"
proof -
  have old: "good root (s\<lparr>sl_leaders := sl_leaders s @ [l]\<rparr>)"
    if "map_of (sl_computers s) n = Some l" for l n
    using keys_ok_map_of [OF good_maps(4) [OF assms(2)] that] good_maps(5) [OF assms(2)] assms(2,3)
    by (intro good_leaders) auto
  have new: "good root (s\<lparr>sl_pcs := (sl_pcs s)(sl_next_pc s := c), sl_next_pc := Suc (sl_next_pc s),
        sl_computers := om_put n (sl_next_pc s) (sl_computers s),
        sl_leaders := sl_leaders s @ [sl_next_pc s]\<rparr>)" for c n
    using good_leaders [OF good_new_computer [OF assms(2), of n c], of "sl_leaders s @ [sl_next_pc s]"]
      good_maps(5) [OF assms(2)] assms(3) by (auto simp: less_Suc_eq)
  show ?thesis
    using assms unfolding add_message_leader_def Let_def new_pc_def
    by (auto elim!: rbind_InrE split: if_splits option.splits intro!: old new)
qed

lemma good_message_leaders:
  assumes "message_leaders E m s = Inr s'" "good root s" "sl_leaders s = []"
  shows "good root s'"
proof -
  obtain s1 s2 where s1: "add_message_leader E m 0 s = Inr s1"
    and s2: "add_message_leader E m 1 s1 = Inr s2" and s3: "add_message_leader E m 2 s2 = Inr s'"
    using assms(1) unfolding message_leaders_def by (auto elim!: rbind_InrE)
  show ?thesis
    using good_add_message_leader [OF s1 assms(2)] good_add_message_leader [OF s2, of root]
      good_add_message_leader [OF s3, of root] assms(3) by simp
qed

lemma good_msg_lock_leaders:
  assumes "msg_lock_leaders E m s = Inr s'" "good root s"
  shows "good root s'"
proof -
  have start: "good root (s\<lparr>sl_election_date := d, sl_leaders := []\<rparr>)" for d
    using good_leaders [OF good_other(4) [OF assms(2)], of "[]"] by simp
  then have "good root s1" if "message_leaders E m (s\<lparr>sl_election_date := d, sl_leaders := []\<rparr>) = Inr s1"
    for d s1
    using good_message_leaders [OF that] by simp
  then show ?thesis
    using assms(1) unfolding msg_lock_leaders_def
    by (auto elim!: rbind_InrE split: if_splits intro: good_other
        dest!: good_synchronize_leaders [where root = root] good_check_lock_status [where root = root])
qed

lemma good_started_computer:
  assumes "started_computer E m n t s = Inr (Some (b, s'))" "good root s"
  shows "good root s'"
  using assms unfolding started_computer_def Let_def new_pc_def
  by (auto elim!: rbind_InrE split: if_splits option.splits
      intro!: good_upd_pc good_new_computer)

lemma good_msg_lock_started:
  assumes "msg_lock_started E m s = Inr s'" "good root s"
  shows "good root s'"
proof -
  have newer: "good root (u\<lparr>sl_election_date := d, sl_leaders := []\<rparr>)" if "good root u" for u d
    using good_leaders [OF good_other(4) [OF that], of "[]"] by simp
  show ?thesis
    using assms unfolding msg_lock_started_def
    by (auto elim!: rbind_InrE split: if_splits option.splits intro!: newer
        dest!: good_started_computer [where root = root] good_message_leaders [where root = root]
          good_election_status [where root = root] good_send_lockstarted [where root = root])
qed

lemma good_msg_server_gone:
  assumes "msg_server_gone E m s = Inr s'" "good root s"
  shows "good root s'"
proof -
  have g1: "good root (s\<lparr>sl_computers := om_erase n (sl_computers s)\<rparr>)" for n
    using assms(2) good_maps(4) [OF assms(2)] by (intro good_computers keys_ok_erase)
  have g2: "good root (s\<lparr>sl_computers := om_erase n (sl_computers s), sl_leaders := remove1 p (sl_leaders s)\<rparr>)"
    for n p
  proof -
    have "set (remove1 p (sl_leaders s)) \<subseteq> set (sl_leaders s)"
      by (rule set_remove1_subset)
    moreover have "length (remove1 p (sl_leaders s)) \<le> 3"
      using good_maps(6) [OF assms(2)] by (auto simp: length_remove1)
    ultimately show ?thesis
      using good_maps(5) [OF assms(2)] by (intro good_leaders [OF g1]) auto
  qed
  show ?thesis
    using assms unfolding msg_server_gone_def Let_def
    by (auto elim!: rbind_InrE split: if_splits option.splits intro: g1 g2
        dest!: good_election_status [where root = root, OF _ g2]
          good_check_lock_status [where root = root])
qed

lemma good_msg_status:
  assumes "msg_status E m s = Inr s'" "good root s"
  shows "good root s'"
  using assms unfolding msg_status_def
  by (auto elim!: rbind_InrE split: if_splits dest!: good_msg_server_gone [where root = root])

lemma good_msg_list_tickets:
  assumes "msg_list_tickets date m s = Inr s'" "good root s"
  shows "good root s'"
  using assms unfolding msg_list_tickets_def by (auto dest!: good_send_built [where root = root])

lemma good_ready: "ready s = Inr s' \<Longrightarrow> good root s \<Longrightarrow> good root s'"
  unfolding ready_def by (auto dest!: good_send_built [where root = root])

lemma good_stop: "stop q s = Inr s' \<Longrightarrow> good root s \<Longrightarrow> good root s'"
  unfolding stop_def
  by (auto elim!: rbind_InrE split: option.splits if_splits intro!: good_other
      dest!: good_send_built [where root = root, OF _ good_other(8)])

section \<open>The daemon\<close>

lemmas good_handlers =
  good_msg_absolutely good_msg_activate_lock good_msg_add_ticket good_msg_cluster_up
  good_msg_cluster_down good_msg_server_gone good_msg_drop_ticket good_msg_get_max_ticket
  good_msg_lock_activated good_msg_lock_entered good_msg_lock_entering
  good_msg_lock_exiting [THEN conjunct1] good_msg_lock_leaders good_msg_lock_started
  good_msg_lock_status good_msg_lock_tickets good_msg_list_tickets good_msg_max_ticket
  good_msg_status good_msg_ticket_added good_msg_ticket_ready

lemma good_service_handler:
  assumes "(c, h) \<in> set (g_snaplock_service_messages date)" "c = m_command m"
    "h E m s = Inr s'" "good root s"
  shows "good root s'"
proof -
  consider "c = ''LOCK''" "h = msg_lock" | "c = ''UNLOCK''" "h = msg_unlock"
    | "c = ''LOCKFAILED''" "h = msg_lock_failed"
    | "h \<in> {msg_absolutely, msg_activate_lock, msg_add_ticket, msg_cluster_up, msg_cluster_down,
        msg_server_gone, msg_drop_ticket, msg_get_max_ticket, msg_lock_activated, msg_lock_entered,
        msg_lock_entering, msg_lock_exiting, msg_lock_leaders, msg_lock_started, msg_lock_status,
        msg_lock_tickets, \<lambda>E. msg_list_tickets date, msg_max_ticket, msg_status,
        msg_ticket_added, msg_ticket_ready}"
    using assms(1) unfolding g_snaplock_service_messages_def list.set
    by (elim insertE emptyE) (simp_all del: insert_iff add: insertI1 insertI2)
  then show ?thesis
  proof cases
    case 3
    then show ?thesis using assms good_msg_lock_failed [of E m s s' root] by (simp add: quiet_def)
  next
    case 4
    then show ?thesis using assms(3,4) by (auto intro: good_handlers)
  qed (use assms good_msg_lock good_msg_unlock in auto)
qed

lemma good_send_reply:
  assumes "send_reply r m s = Inr (m', s')" "good root s" "\<And>x. r = Inr x \<Longrightarrow> quiet x"
  shows "good root s'"
  using assms by (auto simp: send_reply_def rbind_Inr_iff send_built_Inr intro!: good_send)

lemma replies_quiet:
  "commands_reply cs = Inr x \<Longrightarrow> quiet x"
  "absolutely_reply E m = Inr x \<Longrightarrow> quiet x"
  "unknown_reply m = Inr x \<Longrightarrow> quiet x"
  by (auto simp: commands_reply_def absolutely_reply_def unknown_reply_def build_def quiet_def
      copy_parameter_def rbind_Inr_iff split: if_splits dest!: setter_Inr reply_to_Inr)

lemma good_default_handler:
  assumes "h \<in> {x_help x, x_alive x, x_log x, x_quitting x, x_ready x, x_stop x, x_log_unknown x,
      x_reply_with_unknown x}" "x = snaplock_connection date E" "h m s = Inr (m', s')" "good root s"
  shows "good root s'"
proof -
  have "good root s'" if "send_reply r m s = Inr (m', s')" "r \<in> {commands_reply (snaplock_commands date),
      absolutely_reply E m, unknown_reply m}" for r
    by (rule good_send_reply [OF that(1) assms(4)]) (use that(2) replies_quiet in auto)
  then show ?thesis
    using assms by (auto simp: snaplock_connection_def rbind_Inr_iff dest: good_stop good_ready)
qed

interpretation daemon: message_service "snaplock_table date E" wf_state evolves for date E
proof
  fix d m s m' s'
  assume d: "d \<in> set (snaplock_table date E)" "run_match (f_match d) (f_expr d) m \<noteq> MATCH_FALSE"
    and s: "wf_state s" and r: "f_execute d m s = Inr (m', s')"
  let ?x = "snaplock_connection date E"
  from d(1) consider (service) c h where "(c, h) \<in> set (g_snaplock_service_messages date)" "d = entry E (c, h)"
    | (default) "f_execute d \<in> {x_help ?x, x_alive ?x, x_log ?x, x_quitting ?x, x_ready ?x, x_stop ?x,
        x_log_unknown ?x, x_reply_with_unknown ?x}"
    unfolding snaplock_table_def add_snap_communicator_commands_def one_to_one_def
    by (auto simp del: g_snaplock_service_messages_def)
  then have "good s s'"
  proof cases
    case service
    then have "h E m s = Inr s'" "c = m_command m"
      using r d(2)
      by (auto simp: entry_def one_to_one_def rbind_Inr_iff run_match_def expr_text_def split: if_splits)
    with service(1) show ?thesis
      using good_refl [OF s] by (auto intro: good_service_handler)
  next
    case default
    then show ?thesis
      using good_refl [OF s] r by (auto intro: good_default_handler)
  qed
  then show "wf_state s' \<and> evolves s s'" by (simp add: good_def)
qed (auto intro: evolves_trans)

end
