(* ===== verification/LockQueue.thy ===== *)
theory LockQueue
  imports LockKept "HOL-Library.Sublist"
begin

text \<open>
  What the daemon does to the queue of an object: the list of its tickets in the order of
  their keys. Timeouts only take tickets out of a queue, and only the first ticket of a
  queue gets locked. Used for the daemon that is alone in its cluster.
\<close>

section \<open>Calm steps\<close>

text \<open>
  The parts of a ticket that timeouts, unlocking and leaving the door do not touch.
\<close>

definition sim :: "ticket \<Rightarrow> ticket \<Rightarrow> bool" where
  "sim t u \<longleftrightarrow>
     f_object_name u = f_object_name t \<and> f_entering_key u = f_entering_key t
   \<and> f_our_ticket u = f_our_ticket t \<and> f_ticket_key u = f_ticket_key t
   \<and> f_get_max_ticket u = f_get_max_ticket t \<and> f_added_ticket u = f_added_ticket t
   \<and> f_added_ticket_quorum u = f_added_ticket_quorum t"

definition same_cluster :: "snaplock \<Rightarrow> snaplock \<Rightarrow> bool" where
  "same_cluster s s' \<longleftrightarrow>
     sl_leaders s' = sl_leaders s \<and> sl_pcs s' = sl_pcs s \<and> sl_computers s' = sl_computers s
   \<and> sl_neighbors_count s' = sl_neighbors_count s \<and> sl_neighbors_quorum s' = sl_neighbors_quorum s
   \<and> sl_my_id s' = sl_my_id s \<and> sl_server_name s' = sl_server_name s"

definition calm :: "snaplock \<Rightarrow> snaplock \<Rightarrow> bool" where
  "calm s s' \<longleftrightarrow>
     same_cluster s s'
   \<and> (\<forall>a. sim (sl_heap s a) (sl_heap s' a) \<and> f_locked (sl_heap s' a) = f_locked (sl_heap s a))
   \<and> sl_next_ticket s' = sl_next_ticket s"

lemma sim_refl [simp]: "sim t t"
  by (simp add: sim_def)

lemma sim_trans: "sim t u \<Longrightarrow> sim u v \<Longrightarrow> sim t v"
  by (simp add: sim_def)

lemma same_cluster_refl [simp]: "same_cluster s s"
  by (simp add: same_cluster_def)

lemma same_cluster_trans: "same_cluster s s1 \<Longrightarrow> same_cluster s1 s2 \<Longrightarrow> same_cluster s s2"
  by (simp add: same_cluster_def)

lemma calm_refl [simp]: "calm s s"
  by (simp add: calm_def)

lemma calm_trans: "calm s s1 \<Longrightarrow> calm s1 s2 \<Longrightarrow> calm s s2"
  by (auto simp: calm_def intro: sim_trans same_cluster_trans)

lemma calm_updates [simp]:
  "calm s (s\<lparr>sl_outbox := o'\<rparr>)" "calm s (send_message m s)" "calm s (s\<lparr>sl_timer := d\<rparr>)"
  "calm s (s\<lparr>sl_tickets := m1\<rparr>)" "calm s (s\<lparr>sl_entering_tickets := m2\<rparr>)"
  "calm s (s\<lparr>sl_message_cache := c\<rparr>)" "calm s (s\<lparr>sl_ticket_serial := n\<rparr>)"
  by (simp_all add: calm_def same_cluster_def)

lemma calm_upd:
  "sim (sl_heap s a) (f (sl_heap s a)) \<Longrightarrow> f_locked (f (sl_heap s a)) = f_locked (sl_heap s a) \<Longrightarrow>
   calm s (upd_ticket a f s)"
  by (simp add: calm_def same_cluster_def)

definition same_maps :: "snaplock \<Rightarrow> snaplock \<Rightarrow> bool" where
  "same_maps s s' \<longleftrightarrow>
     sl_tickets s' = sl_tickets s \<and> sl_entering_tickets s' = sl_entering_tickets s"

lemma calm_lock_failed: "lock_failed a s = Inr s' \<Longrightarrow> calm s s' \<and> same_maps s s'"
  by (auto simp: lock_failed_def Let_def send_built_Inr upd_upd same_maps_def calm_def same_cluster_def
      sim_def split: if_splits)

lemma calm_send_to_leaders:
  "send_message_to_leaders a m s = Inr (m', b, s') \<Longrightarrow>
   calm s s' \<and> same_maps s s' \<and> sl_heap s' = sl_heap s"
  by (drule send_message_to_leaders_Inr) (auto simp: same_maps_def)

lemma calm_drop_ticket:
  assumes "drop_ticket a s = Inr s'"
  shows "calm s s' \<and> same_maps s s'"
proof -
  obtain m m' b s1 where s1: "send_message_to_leaders a m s = Inr (m', b, s1)"
    and r0: "(if \<not> f_lock_failed (sl_heap s1 a) then
          let s2 = upd_ticket a (\<lambda>t. t\<lparr>f_lock_failed := True\<rparr>) s1;
              t2 = sl_heap s2 a in
          send_built (build [set_command ''UNLOCKED'',
                             set_server (f_server_name t2),
                             set_service (f_service_name t2),
                             add_parameter ''object_name'' (f_object_name t2)]) s2
        else Inr s1) = Inr s'"
    using assms by (auto simp: drop_ticket_def Let_def rbind_Inr_iff)
  then have r: "s' = s1 \<or> (\<exists>x. s' = send_message x (upd_ticket a (\<lambda>t. t\<lparr>f_lock_failed := True\<rparr>) s1))"
    by (auto simp: Let_def send_built_Inr split: if_splits)
  have u: "calm s1 (upd_ticket a (\<lambda>t. t\<lparr>f_lock_failed := True\<rparr>) s1)"
    by (rule calm_upd) (simp_all add: sim_def)
  show ?thesis
    using calm_send_to_leaders [OF s1] r calm_trans [OF u calm_updates(2)] calm_trans
    by (fastforce simp: same_maps_def)
qed

lemma calm_remove_entering:
  assumes "remove_entering E a key s = Inr s'"
  shows "calm s s' \<and> same_maps s s'"
proof -
  have u: "calm s (upd_ticket a (\<lambda>t. t\<lparr>f_still_entering := l\<rparr>) s)"
    "calm s (upd_ticket a (\<lambda>t. t\<lparr>f_still_entering := l, f_ticket_ready := True\<rparr>) s)" for l
    by (rule calm_upd; simp add: sim_def)+
  show ?thesis
    using assms u unfolding remove_entering_def Let_def upd_upd
    by (auto elim!: rbind_InrE split: if_splits simp: same_maps_def
        dest!: calm_send_to_leaders intro: calm_trans)
qed

lemma calm_remove_entering_all:
  "remove_entering_all E key km s = Inr s' \<Longrightarrow> calm s s' \<and> same_maps s s'"
proof (induction km arbitrary: s)
  case (Cons p km)
  obtain k a where p: "p = (k, a)" by (cases p)
  then obtain s1 where s1: "remove_entering E a key s = Inr s1"
    and r: "remove_entering_all E key km s1 = Inr s'"
    using Cons.prems by (auto simp: rbind_Inr_iff)
  show ?case
    using calm_remove_entering [OF s1] Cons.IH [OF r] calm_trans by (auto simp: same_maps_def)
qed (simp add: same_maps_def)

section \<open>The loops over a queue\<close>

definition first_of :: "(string, nat) omap \<Rightarrow> nat option" where
  "first_of km = (case km of [] \<Rightarrow> None | p # _ \<Rightarrow> Some (snd p))"

lemma find_first_loop_queue:
  "find_first_loop E km first s = Inr (km', f, s') \<Longrightarrow>
   calm s s' \<and> same_maps s s' \<and> subseq km' km
   \<and> f = (case first of None \<Rightarrow> first_of km' | Some a \<Rightarrow> Some a)"
proof (induction km arbitrary: first s km')
  case Nil
  then show ?case by (auto simp: same_maps_def first_of_def split: option.splits)
next
  case (Cons p rest)
  obtain k a where p: "p = (k, a)" by (cases p)
  let ?first = "case first of None \<Rightarrow> Some a | Some _ \<Rightarrow> first"
  have keep: "calm s s' \<and> same_maps s s' \<and> subseq km' (p # rest)
      \<and> f = (case first of None \<Rightarrow> first_of km' | Some a \<Rightarrow> Some a)"
    if r: "rbind (find_first_loop E rest ?first s1) (\<lambda>(km, f, s'). Inr ((k, a) # km, f, s'))
        = Inr (km', f, s')" and g: "calm s s1" "same_maps s s1" for s1
  proof -
    from r obtain km1 where km1: "find_first_loop E rest ?first s1 = Inr (km1, f, s')"
      and "km' = p # km1"
      by (auto simp: rbind_Inr_iff p)
    then show ?thesis
      using Cons.IH [OF km1] g calm_trans p
      by (auto simp: same_maps_def first_of_def split: option.splits)
  qed
  show ?case
  proof (cases "timed_out E (sl_heap s a)")
    case False
    then show ?thesis using keep [of s] Cons.prems p by (simp add: Let_def same_maps_def)
  next
    case True
    then obtain s1 where s1: "lock_failed a s = Inr s1"
      and r: "(if timed_out E (sl_heap s1 a) then find_first_loop E rest first s1
          else rbind (find_first_loop E rest ?first s1) (\<lambda>(km, f, s'). Inr ((k, a) # km, f, s')))
        = Inr (km', f, s')"
      using Cons.prems by (auto simp: p Let_def rbind_Inr_iff)
    note g = calm_lock_failed [OF s1]
    show ?thesis
    proof (cases "timed_out E (sl_heap s1 a)")
      case True
      then have "find_first_loop E rest first s1 = Inr (km', f, s')"
        using r by simp
      from Cons.IH [OF this] show ?thesis
        using g calm_trans by (auto simp: same_maps_def)
    next
      case False
      then show ?thesis using keep [of s1] r g by simp
    qed
  qed
qed

lemma cleanup_keys_queue:
  "cleanup_keys E km n s = Inr (km', b, n', s') \<Longrightarrow> calm s s' \<and> same_maps s s' \<and> subseq km' km"
proof (induction km arbitrary: n s km' b n')
  case Nil
  then show ?case by (simp add: same_maps_def)
next
  case (Cons p rest)
  obtain k a where p: "p = (k, a)" by (cases p)
  have keep: "calm s s' \<and> same_maps s s' \<and> subseq km' (p # rest)"
    if r: "rbind (cleanup_keys E rest d s1)
        (\<lambda>(km, try, n, s'). Inr ((k, a) # km, try, n, s')) = Inr (km', b, n', s')"
      and g: "calm s s1" "same_maps s s1" for s1 d
  proof -
    from r obtain km1 where km1: "cleanup_keys E rest d s1 = Inr (km1, b, n', s')"
      and "km' = p # km1"
      by (auto simp: rbind_Inr_iff p)
    then show ?thesis
      using Cons.IH [OF km1] g calm_trans by (auto simp: same_maps_def)
  qed
  show ?case
  proof (cases "timed_out E (sl_heap s a)")
    case False
    then show ?thesis using keep [of _ s] Cons.prems p by (simp add: Let_def same_maps_def)
  next
    case True
    then obtain s1 where s1: "lock_failed a s = Inr s1"
      and r: "(if timed_out E (sl_heap s1 a) then
            rbind (cleanup_keys E rest n s1) (\<lambda>(km, try, n, s'). Inr (km, True, n, s'))
          else rbind (cleanup_keys E rest (if get_current_timeout (sl_heap s1 a) < n
              then get_current_timeout (sl_heap s1 a) else n) s1)
              (\<lambda>(km, try, n, s'). Inr ((k, a) # km, try, n, s'))) = Inr (km', b, n', s')"
      using Cons.prems by (auto simp: p Let_def rbind_Inr_iff)
    note g = calm_lock_failed [OF s1]
    show ?thesis
    proof (cases "timed_out E (sl_heap s1 a)")
      case True
      then obtain b1 where "cleanup_keys E rest n s1 = Inr (km', b1, n', s')"
        using r by (auto simp: rbind_Inr_iff)
      from Cons.IH [OF this] show ?thesis
        using g calm_trans by (auto simp: same_maps_def)
    next
      case False
      then show ?thesis using keep [of _ s1] r g by simp
    qed
  qed
qed

text \<open>How a step may change the queue of \<open>ob\<close> and leave the other queues alone.\<close>

definition shrinks :: "snaplock \<Rightarrow> snaplock \<Rightarrow> bool" where
  "shrinks s s' \<longleftrightarrow>
     (\<forall>ob. subseq (inner ob (sl_tickets s')) (inner ob (sl_tickets s)))
   \<and> (\<forall>ob. subseq (inner ob (sl_entering_tickets s')) (inner ob (sl_entering_tickets s)))"

lemma shrinks_refl [simp]: "shrinks s s"
  by (simp add: shrinks_def)

lemma shrinks_trans: "shrinks s s1 \<Longrightarrow> shrinks s1 s2 \<Longrightarrow> shrinks s s2"
  unfolding shrinks_def by (meson subseq_order.order_trans)

lemma shrinks_same_maps: "same_maps s s' \<Longrightarrow> shrinks s s'"
  by (simp add: shrinks_def same_maps_def)

lemma find_first_lock_queue:
  assumes "find_first_lock E ob s = Inr (f, s')"
  shows "calm s s' \<and> shrinks s s' \<and> f = first_of (inner ob (sl_tickets s'))"
proof (cases "map_of (sl_tickets s) ob")
  case None
  then show ?thesis using assms by (simp add: find_first_lock_def inner_def first_of_def)
next
  case (Some km)
  then obtain km' s1 where r: "find_first_loop E km None s = Inr (km', f, s1)"
    and s': "s' = s1\<lparr>sl_tickets := set2 ob km' (sl_tickets s1)\<rparr>"
    using assms by (auto simp: find_first_lock_def rbind_Inr_iff)
  have "inner ob (sl_tickets s) = km" using Some by (simp add: inner_def)
  then show ?thesis
    using find_first_loop_queue [OF r] calm_trans [of s s1 s']
    by (auto simp: s' shrinks_def same_maps_def inner_set2)
qed

end
