(* ===== verification/LockAlone.thy ===== *)
theory LockAlone
  imports LockQueue
begin

text \<open>
  A daemon alone in its cluster: the only computer and the only leader. Everything the
  bakery does then happens within one event. The queue of an object is the list of its
  tickets in \<open>f_tickets\<close>; the invariant says that only the ticket at its head may be
  locked. It is kept by every request of the clients and by the timer, as long as the
  32-bit ticket numbers do not wrap around.
\<close>

section \<open>The cluster of one\<close>

definition alone :: "snaplock \<Rightarrow> bool" where
  "alone s \<longleftrightarrow>
     (case sl_leaders s of
        [l] \<Rightarrow> sl_computers s = [(sl_server_name s, l)]
             \<and> get_id (sl_pcs s l) = Inr (sl_my_id s) \<and> c_connected (sl_pcs s l)
             \<and> sl_neighbors_count s = 1 \<and> sl_neighbors_quorum s = 1
      | _ \<Rightarrow> False)"

lemma aloneE:
  assumes "alone s"
  obtains l where "sl_leaders s = [l]" "sl_computers s = [(sl_server_name s, l)]"
    "get_id (sl_pcs s l) = Inr (sl_my_id s)" "c_connected (sl_pcs s l)"
    "sl_neighbors_count s = 1" "sl_neighbors_quorum s = 1"
  using assms by (auto simp: alone_def split: list.splits)

lemma alone_same_cluster: "same_cluster s s' \<Longrightarrow> alone s \<Longrightarrow> alone s'"
  by (auto simp: alone_def same_cluster_def split: list.splits)

lemma alone_is_ready: "alone s \<Longrightarrow> is_ready E s = Inr (True, s)"
  by (erule aloneE) (simp add: is_ready_def)

lemma alone_is_leader: "alone s \<Longrightarrow> \<exists>l. is_leader s [] = Inr (Some l)"
  by (erule aloneE) (simp add: is_leader_def)

text \<open>With no other leader nothing is sent and no answer is waited for.\<close>

definition completed :: "ticket \<Rightarrow> message \<Rightarrow> message" where
  "completed t m = m\<lparr>m_service := ''snaplock'',
     m_parameters := om_put ''object_name'' (f_object_name t) (m_parameters m)\<rparr>"

lemma alone_send_to_leaders:
  "alone s \<Longrightarrow> send_message_to_leaders a m s = Inr (completed (sl_heap s a) m, False, s)"
  by (erule aloneE)
    (simp add: send_message_to_leaders_def get_leader_a_def get_computer_count_def completed_def
      message_simps)

lemma alone_activate_lock:
  "alone s \<Longrightarrow> activate_lock E a s = (if f_ticket_ready (sl_heap s a) then lock_activated E a s else Inr s)"
  by (auto simp: activate_lock_def alone_send_to_leaders build_def lock_activated_def Let_def message_simps)

section \<open>The invariant\<close>

definition queue_entry :: "string \<Rightarrow> string \<Rightarrow> ticket \<Rightarrow> bool" where
  "queue_entry ob k t \<longleftrightarrow>
     k = make_ticket_key (f_our_ticket t) (f_entering_key t) \<and> k = f_ticket_key t
   \<and> f_object_name t = ob \<and> f_added_ticket t"

definition door_entry :: "string \<Rightarrow> string \<Rightarrow> ticket \<Rightarrow> bool" where
  "door_entry ob k t \<longleftrightarrow>
     k = f_entering_key t \<and> f_object_name t = ob
   \<and> \<not> f_added_ticket t \<and> \<not> f_added_ticket_quorum t \<and> \<not> f_locked t"

definition queue_ok :: "snaplock \<Rightarrow> string \<Rightarrow> bool" where
  "queue_ok s ob \<longleftrightarrow>
     (\<forall>p \<in> set (inner ob (sl_tickets s)). queue_entry ob (fst p) (sl_heap s (snd p)))
   \<and> (\<forall>p \<in> set (tl (inner ob (sl_tickets s))). \<not> f_locked (sl_heap s (snd p)))"

definition door_ok :: "snaplock \<Rightarrow> string \<Rightarrow> bool" where
  "door_ok s ob \<longleftrightarrow>
     (\<forall>p \<in> set (inner ob (sl_entering_tickets s)). door_entry ob (fst p) (sl_heap s (snd p)))"

definition head_locked :: "snaplock \<Rightarrow> bool" where
  "head_locked s \<longleftrightarrow> wf_state s \<and> alone s \<and> (\<forall>ob. queue_ok s ob \<and> door_ok s ob)"

lemma queue_entry_sim: "sim t u \<Longrightarrow> queue_entry ob k u = queue_entry ob k t"
  by (simp add: sim_def queue_entry_def)

lemma door_entry_sim: "sim t u \<Longrightarrow> f_locked u = f_locked t \<Longrightarrow> door_entry ob k u = door_entry ob k t"
  by (simp add: sim_def door_entry_def)

lemma subseq_set: "subseq xs ys \<Longrightarrow> set xs \<subseteq> set ys"
  by (induction xs ys rule: list_emb.induct) auto

lemma subseq_set_tl: "subseq xs ys \<Longrightarrow> set (tl xs) \<subseteq> set (tl ys)"
proof (induction xs ys rule: list_emb.induct)
  case (list_emb_Cons xs ys y)
  then show ?case using subseq_set [of xs ys] by (cases xs) auto
next
  case (list_emb_Cons2 x y xs ys)
  then show ?case using subseq_set [of xs ys] by auto
qed simp

lemma queue_ok_calm:
  assumes "queue_ok s ob" "calm s s'" "subseq (inner ob (sl_tickets s')) (inner ob (sl_tickets s))"
  shows "queue_ok s' ob"
proof -
  have "queue_entry ob k (sl_heap s' a) = queue_entry ob k (sl_heap s a)"
    "f_locked (sl_heap s' a) = f_locked (sl_heap s a)" for a k
    using assms(2) by (simp_all add: calm_def queue_entry_sim)
  then show ?thesis
    using assms(1) subseq_set [OF assms(3)] subseq_set_tl [OF assms(3)]
    by (auto simp: queue_ok_def)
qed

lemma door_ok_calm:
  assumes "door_ok s ob" "calm s s'"
    "subseq (inner ob (sl_entering_tickets s')) (inner ob (sl_entering_tickets s))"
  shows "door_ok s' ob"
proof -
  have "door_entry ob' k (sl_heap s' a) = door_entry ob' k (sl_heap s a)" for ob' k a
    using assms(2) by (simp add: calm_def door_entry_sim)
  then show ?thesis
    using assms(1) subseq_set [OF assms(3)] by (auto simp: door_ok_def)
qed

lemma head_locked_calm:
  "head_locked s \<Longrightarrow> calm s s' \<Longrightarrow> shrinks s s' \<Longrightarrow> wf_state s' \<Longrightarrow> head_locked s'"
  unfolding head_locked_def shrinks_def
  by (blast intro: queue_ok_calm door_ok_calm alone_same_cluster [OF calm_def [THEN iffD1, THEN conjunct1]])

section \<open>Locking the head\<close>

text \<open>
  A step on one ticket: the other tickets, the maps and the cluster stay; that ticket may
  become locked.
\<close>

definition only_locks :: "nat \<Rightarrow> snaplock \<Rightarrow> snaplock \<Rightarrow> bool" where
  "only_locks a s s' \<longleftrightarrow>
     same_cluster s s' \<and> same_maps s s' \<and> (\<forall>b. sim (sl_heap s b) (sl_heap s' b))
   \<and> (\<forall>b. b \<noteq> a \<longrightarrow> f_locked (sl_heap s' b) = f_locked (sl_heap s b))
   \<and> sl_next_ticket s' = sl_next_ticket s"

lemma lock_activated_only: "lock_activated E a s = Inr s' \<Longrightarrow> only_locks a s s'"
  by (auto simp: lock_activated_def Let_def send_built_Inr only_locks_def same_cluster_def same_maps_def
      sim_def split: if_splits)

lemma head_locked_lock_head:
  assumes s: "head_locked s" and o: "only_locks a s s'" and wf_state: "wf_state s'"
    and head: "first_of (inner ob (sl_tickets s)) = Some a"
  shows "head_locked s'"
proof -
  have maps: "sl_tickets s' = sl_tickets s" "sl_entering_tickets s' = sl_entering_tickets s"
    and sims: "\<And>b. sim (sl_heap s b) (sl_heap s' b)"
    and lock: "\<And>b. b \<noteq> a \<Longrightarrow> f_locked (sl_heap s' b) = f_locked (sl_heap s b)"
    using o by (simp_all add: only_locks_def same_maps_def)
  obtain k rest where q: "inner ob (sl_tickets s) = (k, a) # rest"
    using head by (auto simp: first_of_def split: list.splits)
  have ok: "queue_ok s ob'" "door_ok s ob'" for ob'
    using s by (simp_all add: head_locked_def)
  have a: "queue_entry ob k (sl_heap s a)"
    using ok(1) [of ob] q by (simp add: queue_ok_def)
  have sorted: "om_ok (inner ob' (sl_tickets s))" for ob'
    using map_ok_inner [OF good_maps(1) [OF good_refl], of s] s
    by (simp add: head_locked_def keys_ok_def)
  have tl: "b \<noteq> a" if "(k', b) \<in> set (tl (inner ob' (sl_tickets s)))" for k' b ob'
  proof
    assume "b = a"
    have mem: "(k', b) \<in> set (inner ob' (sl_tickets s))"
      using that by (cases "inner ob' (sl_tickets s)") auto
    then have "queue_entry ob' k' (sl_heap s b)"
      using ok(1) [of ob'] by (fastforce simp: queue_ok_def)
    with a \<open>b = a\<close> have "ob' = ob" "k' = k" by (auto simp: queue_entry_def)
    with that q sorted [of ob] show False by auto
  qed
  have "queue_ok s' ob'" for ob'
    using ok(1) [of ob'] tl lock
    by (fastforce simp: queue_ok_def maps queue_entry_sim [OF sims])
  moreover have "door_ok s' ob'" for ob'
  proof -
    have "b \<noteq> a" if "(k', b) \<in> set (inner ob' (sl_entering_tickets s))" for k' b
      using that ok(2) [of ob'] a by (fastforce simp: door_ok_def door_entry_def queue_entry_def)
    then show ?thesis
      using ok(2) [of ob'] lock door_entry_sim [OF sims] by (fastforce simp: door_ok_def maps)
  qed
  moreover have "alone s'"
    using s o by (auto simp: head_locked_def only_locks_def intro: alone_same_cluster)
  ultimately show ?thesis
    using wf_state by (simp add: head_locked_def)
qed

lemma head_locked_activate_first:
  assumes "activate_first_lock E ob s = Inr s'" "head_locked s"
  shows "head_locked s'"
proof -
  obtain f s1 where f: "find_first_lock E ob s = Inr (f, s1)"
    and r: "(case f of None \<Rightarrow> Inr s1 | Some a \<Rightarrow> activate_lock E a s1) = Inr s'"
    using assms(1) by (auto simp: activate_first_lock_def rbind_Inr_iff)
  have w: "wf_state s" using assms(2) by (simp add: head_locked_def)
  have g: "good s s1" and lt: "pred_option (\<lambda>a. a < sl_next_ticket s1) f"
    using good_find_first_lock [OF f good_refl [OF w]] by simp_all
  have h1: "head_locked s1"
    using assms(2) find_first_lock_queue [OF f] good_wf [OF g] by (auto intro: head_locked_calm)
  show ?thesis
  proof (cases f)
    case (Some a)
    have "activate_lock E a s1 = Inr s'" using r Some by simp
    moreover from this have "wf_state s'"
      using good_activate_lock [OF _ g, of E a s'] lt Some by (auto dest: good_wf)
    ultimately show ?thesis
      using alone_activate_lock [of s1 E a] h1 find_first_lock_queue [OF f] Some
        head_locked_lock_head [of s1 a s' ob] lock_activated_only [of E a s1 s']
      by (auto simp: head_locked_def split: if_splits)
  qed (use r h1 in simp)
qed

section \<open>Cleanup\<close>

text \<open>Steps that take tickets out of the maps and may lock some, but add none.\<close>

definition tame :: "snaplock \<Rightarrow> snaplock \<Rightarrow> bool" where
  "tame s s' \<longleftrightarrow>
     same_cluster s s' \<and> (\<forall>a. sim (sl_heap s a) (sl_heap s' a)) \<and> shrinks s s'
   \<and> sl_next_ticket s' = sl_next_ticket s"

lemma tame_refl [simp]: "tame s s"
  by (simp add: tame_def)

lemma tame_trans: "tame s s1 \<Longrightarrow> tame s1 s2 \<Longrightarrow> tame s s2"
  unfolding tame_def by (metis same_cluster_trans sim_trans shrinks_trans)

lemma tame_calm: "calm s s' \<Longrightarrow> shrinks s s' \<Longrightarrow> tame s s'"
  by (simp add: tame_def calm_def)

lemma tame_only_locks: "only_locks a s s' \<Longrightarrow> tame s s'"
  by (simp add: tame_def only_locks_def shrinks_same_maps)

lemma alone_activate_first_tame:
  assumes "activate_first_lock E ob s = Inr s'" "alone s"
  shows "tame s s'"
proof -
  obtain f s1 where f: "find_first_lock E ob s = Inr (f, s1)"
    and r: "(case f of None \<Rightarrow> Inr s1 | Some a \<Rightarrow> activate_lock E a s1) = Inr s'"
    using assms(1) by (auto simp: activate_first_lock_def rbind_Inr_iff)
  have t: "tame s s1"
    using find_first_lock_queue [OF f] by (auto intro: tame_calm)
  then have "alone s1"
    using assms(2) by (auto simp: tame_def intro: alone_same_cluster)
  then have "tame s1 s'"
    using r by (auto simp: alone_activate_lock split: option.splits if_splits
        dest: lock_activated_only tame_only_locks)
  with t show ?thesis by (rule tame_trans)
qed

lemma calm_cleanup_cache:
  "cleanup_cache E c n s = Inr (c', n', s') \<Longrightarrow> calm s s' \<and> same_maps s s'"
proof (induction c arbitrary: n s c' n')
  case (Cons p c)
  obtain t m where p: "p = (t, m)" by (cases p)
  show ?case
  proof (cases "t \<le> time_now E")
    case True
    then obtain x where "cleanup_cache E c n (send_message x s) = Inr (c', n', s')"
      using Cons.prems by (auto simp: p rbind_Inr_iff send_built_Inr)
    from Cons.IH [OF this] show ?thesis
      using calm_trans [OF calm_updates(2)] by (auto simp: same_maps_def)
  next
    case False
    then show ?thesis
      using Cons.prems Cons.IH [of "if t < n then t else n" s] by (auto simp: p rbind_Inr_iff)
  qed
qed (simp add: same_maps_def)

lemma head_locked_cleanup_tickets:
  "cleanup_tickets E obs n s = Inr (n', s') \<Longrightarrow> head_locked s \<Longrightarrow> head_locked s' \<and> tame s s'"
proof (induction obs arbitrary: n s)
  case (Cons ob obs)
  then obtain km b n1 s1 s3 where k: "cleanup_keys E (inner ob (sl_tickets s)) n s = Inr (km, b, n1, s1)"
    and a: "(if km \<noteq> [] \<and> b then activate_first_lock E ob
        (s1\<lparr>sl_tickets := set2 ob km (sl_tickets s1)\<rparr>)
        else Inr (s1\<lparr>sl_tickets := set2 ob km (sl_tickets s1)\<rparr>)) = Inr s3"
    and r: "cleanup_tickets E obs n1 s3 = Inr (n', s')"
    by (auto simp: rbind_Inr_iff Let_def)
  let ?s2 = "s1\<lparr>sl_tickets := set2 ob km (sl_tickets s1)\<rparr>"
  have w: "wf_state s" using Cons.prems(2) by (simp add: head_locked_def)
  note g = good_maps(1) [OF good_refl [OF w]]
  have lk: "loop_kept s s s1 (inner ob (sl_tickets s)) km"
    using k good_refl [OF w] map_ok_inner [OF g] by (rule good_cleanup_keys)
  then have "good s ?s2"
    using g by (auto simp: loop_kept_def intro!: good_tickets map_ok_set2)
  moreover have "calm s ?s2" "shrinks s ?s2"
    using cleanup_keys_queue [OF k] calm_trans [OF _ calm_updates(4)]
    by (auto simp: shrinks_def same_maps_def inner_set2)
  ultimately have h2: "head_locked ?s2" "tame s ?s2"
    using Cons.prems(2) by (auto intro: head_locked_calm good_wf tame_calm)
  then have "head_locked s3 \<and> tame ?s2 s3"
    using a head_locked_activate_first [of E ob ?s2 s3] alone_activate_first_tame [of E ob ?s2 s3]
    by (auto simp: head_locked_def split: if_splits)
  then show ?case
    using Cons.IH [OF r] h2(2) tame_trans by blast
qed simp

lemma head_locked_cleanup_entering:
  "cleanup_entering E obs n s = Inr (n', s') \<Longrightarrow> head_locked s \<Longrightarrow> head_locked s' \<and> tame s s'"
proof (induction obs arbitrary: n s)
  case (Cons ob obs)
  then obtain km b n1 s1 where k: "cleanup_keys E (inner ob (sl_entering_tickets s)) n s = Inr (km, b, n1, s1)"
    and r: "cleanup_entering E obs n1
        (s1\<lparr>sl_entering_tickets := set2 ob km (sl_entering_tickets s1)\<rparr>) = Inr (n', s')"
    by (auto simp: rbind_Inr_iff)
  let ?s2 = "s1\<lparr>sl_entering_tickets := set2 ob km (sl_entering_tickets s1)\<rparr>"
  have w: "wf_state s" using Cons.prems(2) by (simp add: head_locked_def)
  note g = good_maps(2) [OF good_refl [OF w]]
  have lk: "loop_kept s s s1 (inner ob (sl_entering_tickets s)) km"
    using k good_refl [OF w] map_ok_inner [OF g] by (rule good_cleanup_keys)
  then have "good s ?s2"
    using g by (auto simp: loop_kept_def intro!: good_entering map_ok_set2)
  moreover have "calm s ?s2" "shrinks s ?s2"
    using cleanup_keys_queue [OF k] calm_trans [OF _ calm_updates(5)]
    by (auto simp: shrinks_def same_maps_def inner_set2)
  ultimately have "head_locked ?s2" "tame s ?s2"
    using Cons.prems(2) by (auto intro: head_locked_calm good_wf tame_calm)
  then show ?case
    using Cons.IH [OF r] tame_trans by blast
qed simp

lemma head_locked_cleanup:
  assumes "cleanup E s = Inr s'" "head_locked s"
  shows "head_locked s' \<and> tame s s'"
proof -
  obtain c n1 s1 n2 s3 n3 s4 where c: "cleanup_cache E (sl_message_cache s) TIME_MAX s = Inr (c, n1, s1)"
    and t: "cleanup_tickets E (map fst (sl_tickets s1)) n1 (s1\<lparr>sl_message_cache := c\<rparr>) = Inr (n2, s3)"
    and e: "cleanup_entering E (map fst (sl_entering_tickets s3)) n2 s3 = Inr (n3, s4)"
    and d: "set_timeout_date (if n3 \<noteq> TIME_MAX then (n3 + 1) * 1000000 else -1) s4 = Inr s'"
    using assms(1) by (auto simp: cleanup_def rbind_Inr_iff Let_def split: if_splits)
  let ?s2 = "s1\<lparr>sl_message_cache := c\<rparr>"
  have w: "wf_state s" using assms(2) by (simp add: head_locked_def)
  have "good s s1" "set c \<subseteq> set (sl_message_cache s)"
    using good_cleanup_cache [OF c good_refl [OF w]] by simp_all
  then have "good s ?s2"
    using w by (intro good_cache) (auto simp: wf_rest_def wf_state_def)
  moreover have "calm s ?s2" "shrinks s ?s2"
    using calm_cleanup_cache [OF c] calm_trans [OF _ calm_updates(6)]
    by (auto simp: shrinks_def same_maps_def)
  ultimately have "head_locked ?s2" "tame s ?s2"
    using assms(2) by (auto intro: head_locked_calm good_wf tame_calm)
  with head_locked_cleanup_tickets [OF t] have "head_locked s3" "tame s s3"
    using tame_trans by blast+
  with head_locked_cleanup_entering [OF e] have h4: "head_locked s4" "tame s s4"
    using tame_trans by blast+
  have "wf_state s4" using h4(1) by (simp add: head_locked_def)
  then have "wf_state s'" "calm s4 s'" "shrinks s4 s'"
    using d good_set_timeout_date [OF d good_refl] good_wf
    by (auto simp: set_timeout_date_def shrinks_def split: if_splits)
  then show ?thesis
    using h4 head_locked_calm [of s4 s'] tame_calm [of s4 s'] tame_trans by blast
qed

section \<open>Ticket numbers\<close>

lemma make_ticket_key_less:
  "n < m \<Longrightarrow> make_ticket_key n e < make_ticket_key m e'"
proof -
  assume "n < m"
  moreover have "unat (w :: 32 word) < 16 ^ 8" for w
    using unsigned_less [of w, where 'a = nat] by simp
  ultimately show ?thesis
    by (simp add: make_ticket_key_def append_less_append hex_pad_less word_less_nat_alt
        del: power_numeral hex_pad.simps)
qed

lemma foldl_max_ge:
  fixes f :: "'a \<Rightarrow> 'n::linorder"
  shows "foldl (\<lambda>l p. if l < f p then f p else l) i xs \<ge> i
    \<and> (\<forall>p \<in> set xs. f p \<le> foldl (\<lambda>l p. if l < f p then f p else l) i xs)
    \<and> (foldl (\<lambda>l p. if l < f p then f p else l) i xs = i
       \<or> (\<exists>p \<in> set xs. foldl (\<lambda>l p. if l < f p then f p else l) i xs = f p))"
proof (induction xs arbitrary: i)
  case (Cons x xs)
  show ?case using Cons [of "if i < f x then f x else i"] by (auto split: if_splits intro: order_trans)
qed simp

lemma get_last_ticket_ge:
  "p \<in> set (inner ob (sl_tickets s)) \<Longrightarrow> f_our_ticket (sl_heap s (snd p)) \<le> get_last_ticket ob s"
  using foldl_max_ge [of NO_TICKET "\<lambda>p. f_our_ticket (sl_heap s (snd p))" "inner ob (sl_tickets s)"]
  by (simp add: get_last_ticket_def Let_def)

lemma get_last_ticket_mem:
  "get_last_ticket ob s = 0
   \<or> (\<exists>p \<in> set (inner ob (sl_tickets s)). get_last_ticket ob s = f_our_ticket (sl_heap s (snd p)))"
  using foldl_max_ge [of NO_TICKET "\<lambda>p. f_our_ticket (sl_heap s (snd p))" "inner ob (sl_tickets s)"]
  by (simp add: get_last_ticket_def Let_def)

text \<open>The next number of every queue is still a larger number.\<close>

definition room :: "snaplock \<Rightarrow> bool" where
  "room s \<longleftrightarrow> (\<forall>q \<in> set (sl_tickets s). \<forall>p \<in> set (snd q). f_our_ticket (sl_heap s (snd p)) < - 1)"

definition room_in :: "string \<Rightarrow> snaplock \<Rightarrow> bool" where
  "room_in ob s \<longleftrightarrow> (\<forall>p \<in> set (inner ob (sl_tickets s)). f_our_ticket (sl_heap s (snd p)) < - 1)"

lemma room_room_in: "room s \<Longrightarrow> room_in ob s"
proof (cases "map_of (sl_tickets s) ob")
  case (Some km)
  assume "room s"
  then have "\<forall>p \<in> set (snd (ob, km)). f_our_ticket (sl_heap s (snd p)) < - 1"
    using map_of_SomeD [OF Some] unfolding room_def by blast
  then show ?thesis by (simp add: room_in_def inner_def Some)
qed (simp add: room_in_def inner_def)

lemma room_in_tame: "room_in ob s \<Longrightarrow> tame s s' \<Longrightarrow> room_in ob s'"
  using subseq_set [of "inner ob (sl_tickets s')" "inner ob (sl_tickets s)"]
  by (auto simp: room_in_def tame_def shrinks_def sim_def)

lemma unat_max: "unat (- 1 :: 32 word) = 2 ^ 32 - 1"
  by (simp add: unsigned_minus_1_eq_mask mask_eq_exp_minus_1)

lemma room_in_less: "room_in ob s \<Longrightarrow> get_last_ticket ob s < get_last_ticket ob s + 1"
proof -
  assume r: "room_in ob s"
  have "get_last_ticket ob s < - 1"
  proof (cases "get_last_ticket ob s = 0")
    case False
    then show ?thesis using r get_last_ticket_mem [of ob s] by (auto simp: room_in_def)
  qed (simp add: word_less_nat_alt unat_max)
  then have "unat (get_last_ticket ob s) + 1 < 2 ^ 32"
    by (simp add: word_less_nat_alt unat_max)
  then show ?thesis
    by (simp add: word_less_nat_alt unat_word_ariths)
qed

lemma om_put_append: "\<forall>p \<in> set m. fst p < k \<Longrightarrow> om_put k v m = m @ [(k, v)]"
  by (induction m) (auto simp: less_imp_not_less less_imp_neq)

section \<open>Joining the queue\<close>

text \<open>
  The state once the ticket at the door has taken the next number, before it leaves the
  door: all the stages from LOCKENTERING to LOCKEXITING in one.
\<close>

definition joined :: "nat \<Rightarrow> snaplock \<Rightarrow> snaplock" where
  "joined a s =
     (let t = sl_heap s a; ob = f_object_name t;
          n = get_last_ticket ob s + 1; key = make_ticket_key n (f_entering_key t) in
      (upd_ticket a (\<lambda>t. t\<lparr>f_get_max_ticket := True, f_our_ticket := n, f_added_ticket := True,
           f_ticket_key := key, f_added_ticket_quorum := True,
           f_still_entering := inner ob (sl_entering_tickets s)\<rparr>) s)
        \<lparr>sl_tickets := put2 ob key a (sl_tickets s)\<rparr>)"

definition exiting_message :: "ticket \<Rightarrow> message" where
  "exiting_message t =
     empty_message\<lparr>m_command := ''LOCKEXITING'', m_service := ''snaplock'',
       m_parameters := [(''key'', f_entering_key t), (''object_name'', f_object_name t)]\<rparr>"

lemma alone_upd: "alone s \<Longrightarrow> alone (upd_ticket a f s)"
  by (rule alone_same_cluster [of s]) (simp_all add: same_cluster_def)

lemma upd_tickets_swap:
  "upd_ticket a f (s\<lparr>sl_tickets := m\<rparr>) = (upd_ticket a f s)\<lparr>sl_tickets := m\<rparr>"
  by (simp add: upd_ticket_def)

lemma alone_heap: "alone s \<Longrightarrow> alone (s\<lparr>sl_heap := h\<rparr>)"
  by (rule alone_same_cluster [of s]) (simp_all add: same_cluster_def)

lemma alone_tickets: "alone s \<Longrightarrow> alone (s\<lparr>sl_tickets := m\<rparr>)"
  by (rule alone_same_cluster [of s]) (simp_all add: same_cluster_def)

lemma key_param_order: "om_put ''object_name'' v [(''key'', w)] = [(''key'', w), (''object_name'', v)]"
  by (simp add: less_char_def)

lemma alone_ticket_added:
  "alone s \<Longrightarrow> \<not> f_added_ticket_quorum (sl_heap s a) \<Longrightarrow>
   ticket_added E a still s =
     msg_lock_exiting E (exiting_message (sl_heap s a))
       (upd_ticket a (\<lambda>t. t\<lparr>f_added_ticket_quorum := True, f_still_entering := still\<rparr>) s)"
  by (simp add: ticket_added_def Let_def build_def message_simps alone_send_to_leaders alone_upd
      completed_def exiting_message_def empty_message_def key_param_order del: om_put.simps(2))

lemma alone_add_ticket:
  assumes "alone s" "\<not> f_added_ticket (sl_heap s a)" "\<not> f_added_ticket_quorum (sl_heap s a)"
  shows "add_ticket E a s =
    msg_lock_exiting E (exiting_message (sl_heap s a))
      (let t = sl_heap s a; ob = f_object_name t;
           key = make_ticket_key (f_our_ticket t) (f_entering_key t) in
       (upd_ticket a (\<lambda>t. t\<lparr>f_added_ticket := True, f_ticket_key := key,
           f_added_ticket_quorum := True,
           f_still_entering := inner ob (sl_entering_tickets s)\<rparr>) s)
         \<lparr>sl_tickets := put2 ob key a (sl_tickets s)\<rparr>)"
proof -
  let ?s1 = "upd_ticket a (\<lambda>t. t\<lparr>f_added_ticket := True,
                     f_ticket_key := make_ticket_key (f_our_ticket t) (f_entering_key t)\<rparr>) s"
  let ?t = "sl_heap ?s1 a"
  let ?s2 = "set_ticket (f_object_name ?t) (f_ticket_key ?t) a ?s1"
  have "alone ?s2"
    using assms(1) by (simp add: set_ticket_def alone_tickets alone_upd)
  then have "add_ticket E a s = ticket_added E a (get_entering_tickets (f_object_name (sl_heap ?s2 a)) ?s2) ?s2"
    using assms(2) by (simp add: add_ticket_def Let_def build_def message_simps alone_send_to_leaders)
  also have "\<dots> = msg_lock_exiting E (exiting_message (sl_heap ?s2 a))
      (upd_ticket a (\<lambda>t. t\<lparr>f_added_ticket_quorum := True,
        f_still_entering := get_entering_tickets (f_object_name (sl_heap ?s2 a)) ?s2\<rparr>) ?s2)"
    using \<open>alone ?s2\<close> assms(3) by (intro alone_ticket_added) (simp_all add: set_ticket_def)
  finally show ?thesis
    by (simp add: set_ticket_def get_entering_tickets_def upd_tickets_swap upd_upd Let_def
        exiting_message_def)
      (simp add: upd_ticket_def)
qed

lemma alone_entering:
  assumes "alone s" "\<not> f_get_max_ticket (sl_heap s a)" "\<not> f_added_ticket (sl_heap s a)"
    "\<not> f_added_ticket_quorum (sl_heap s a)"
  shows "entering E a s = msg_lock_exiting E (exiting_message (sl_heap s a)) (joined a s)"
proof -
  let ?t = "sl_heap s a"
  let ?s1 = "upd_ticket a (\<lambda>t. t\<lparr>f_get_max_ticket := True,
                     f_our_ticket := get_last_ticket (f_object_name t) s\<rparr>) s"
  let ?s2 = "upd_ticket a (\<lambda>t. t\<lparr>f_our_ticket := f_our_ticket t + 1\<rparr>) ?s1"
  have "entering E a s = entered E a s"
    using assms(1) by (simp add: entering_def Let_def build_def message_simps alone_send_to_leaders)
  also have "\<dots> = max_ticket E a (uint (f_our_ticket (sl_heap ?s1 a))) ?s1"
    using assms(1,2)
    by (simp add: entered_def Let_def build_def message_simps alone_send_to_leaders alone_upd)
  also have "\<dots> = add_ticket E a ?s2"
    using assms(3) by (simp add: max_ticket_def upd_ticket_def)
  also have "\<dots> = msg_lock_exiting E (exiting_message (sl_heap ?s2 a)) (joined a s)"
    using assms
    by (subst alone_add_ticket) (simp_all add: alone_heap joined_def Let_def upd_upd upd_ticket_def)
  finally show ?thesis by (simp add: exiting_message_def)
qed

lemma exiting_message_params [simp]:
  "get_object_name (exiting_message t) =
     (if f_object_name t = [] then Inl Invalid_message else Inr (f_object_name t))"
  "get_key (exiting_message t) =
     (if f_entering_key t = [] then Inl Invalid_message else Inr (f_entering_key t))"
  by (simp_all add: get_object_name_def get_key_def exiting_message_def message_simps)

lemma exiting_needs_params:
  "msg_lock_exiting E m s = Inr s' \<Longrightarrow>
   (\<exists>ob. get_object_name m = Inr ob) \<and> (\<exists>key. get_key m = Inr key)"
  unfolding msg_lock_exiting_def by (elim rbind_InrE) blast

section \<open>Leaving the door\<close>

definition left_door :: "string \<Rightarrow> string \<Rightarrow> snaplock \<Rightarrow> snaplock" where
  "left_door ob key s =
     s\<lparr>sl_entering_tickets :=
         om_put ob (om_erase key (inner ob (sl_entering_tickets s))) (sl_entering_tickets s)\<rparr>"

lemma head_locked_exiting:
  assumes "msg_lock_exiting E m s = Inr s'" "get_object_name m = Inr ob" "get_key m = Inr key"
    and h: "head_locked (left_door ob key s)" and l: "look2 (sl_entering_tickets s) ob key \<noteq> None"
  shows "head_locked s' \<and> tame (left_door ob key s) s'"
proof -
  let ?s1 = "left_door ob key s"
  obtain ekm where ekm: "map_of (sl_entering_tickets s) ob = Some ekm" "map_of ekm key \<noteq> None"
    using l by (auto simp: look2_def inner_def split: option.splits)
  have tkm: "sl_tickets ?s1 = sl_tickets s" by (simp add: left_door_def)
  have s1: "?s1 = s\<lparr>sl_entering_tickets := om_put ob (om_erase key ekm) (sl_entering_tickets s)\<rparr>"
    using ekm(1) by (simp add: left_door_def inner_def)
  have "rbind (rbind (remove_entering_all E key (inner ob (sl_tickets s)) ?s1) (\<lambda>s2.
        rbind (if inner ob (sl_tickets s) \<noteq> [] then activate_first_lock E ob s2 else Inr s2) (\<lambda>s3.
        Inr (s3\<lparr>sl_entering_tickets := set2 ob (inner ob (sl_entering_tickets s3))
                          (sl_entering_tickets s3)\<rparr>)))) (cleanup E) = Inr s'"
    using assms(1-3) ekm by (simp add: msg_lock_exiting_def s1 Let_def)
  then obtain s2 s3 where r2: "remove_entering_all E key (inner ob (sl_tickets s)) ?s1 = Inr s2"
    and r3: "(if inner ob (sl_tickets s) \<noteq> [] then activate_first_lock E ob s2 else Inr s2) = Inr s3"
    and c: "cleanup E (s3\<lparr>sl_entering_tickets := set2 ob (inner ob (sl_entering_tickets s3))
                          (sl_entering_tickets s3)\<rparr>) = Inr s'"
    by (auto simp: rbind_Inr_iff)
  let ?s4 = "s3\<lparr>sl_entering_tickets := set2 ob (inner ob (sl_entering_tickets s3))
                          (sl_entering_tickets s3)\<rparr>"
  have w: "wf_state ?s1" using h by (simp add: head_locked_def)
  have "wf_state s2"
    using good_remove_entering_all [OF r2 good_refl [OF w]] map_ok_inner [OF good_maps(1) [OF good_refl [OF w]]]
    by (simp add: tkm good_def)
  then have h2: "head_locked s2" "tame ?s1 s2"
    using h calm_remove_entering_all [OF r2] head_locked_calm shrinks_same_maps tame_calm by blast+
  then have h3: "head_locked s3"
    using r3 head_locked_activate_first by (auto split: if_splits)
  have "alone s2" using h2(1) by (simp add: head_locked_def)
  then have t3: "tame ?s1 s3"
    using r3 alone_activate_first_tame tame_trans [OF h2(2)] by (auto split: if_splits intro: h2(2))
  have w3: "wf_state s3" using h3 by (simp add: head_locked_def)
  have "wf_state ?s4"
    using good_entering [OF good_refl [OF w3]] good_maps(2) [OF good_refl [OF w3]]
    by (auto intro: good_wf map_ok_set2 map_ok_inner)
  then have "head_locked ?s4"
    using h3 by (rule head_locked_calm [rotated 3]) (simp_all add: shrinks_def inner_set2)
  moreover have "tame s3 ?s4" by (rule tame_calm) (simp_all add: shrinks_def inner_set2)
  ultimately show ?thesis
    using head_locked_cleanup [OF c] tame_trans [OF tame_trans [OF t3]] by blast
qed

lemma joined_queue:
  assumes h: "head_locked s" and room: "room_in ob s"
    and a: "(ek, a) \<in> set (inner ob (sl_entering_tickets s))"
  shows "inner ob (sl_tickets (joined a s)) = inner ob (sl_tickets s)
    @ [(make_ticket_key (get_last_ticket ob s + 1) (f_entering_key (sl_heap s a)), a)]"
proof -
  let ?t = "sl_heap s a" and ?km = "inner ob (sl_tickets s)"
  let ?n = "get_last_ticket ob s + 1"
  let ?key = "make_ticket_key ?n (f_entering_key ?t)"
  have ok: "queue_ok s ob" "door_ok s ob"
    using h by (simp_all add: head_locked_def)
  have "\<forall>p \<in> set ?km. fst p < ?key"
  proof
    fix p assume p: "p \<in> set ?km"
    then have "queue_entry ob (fst p) (sl_heap s (snd p))"
      using ok(1) by (simp add: queue_ok_def)
    moreover have "f_our_ticket (sl_heap s (snd p)) < ?n"
      using get_last_ticket_ge [OF p] room_in_less [OF room] by (rule order.strict_trans1)
    ultimately show "fst p < ?key"
      using make_ticket_key_less by (simp add: queue_entry_def)
  qed
  then show ?thesis
    using ok(2) a by (fastforce simp: joined_def Let_def inner_put2 om_put_append door_ok_def door_entry_def)
qed

lemma head_locked_join:
  assumes h: "head_locked s" and room: "room_in ob s"
    and a: "(ek, a) \<in> set (inner ob (sl_entering_tickets s))"
  shows "head_locked (left_door ob ek (joined a s))"
proof -
  let ?t = "sl_heap s a" and ?km = "inner ob (sl_tickets s)" and ?em = "inner ob (sl_entering_tickets s)"
  let ?n = "get_last_ticket ob s + 1"
  let ?key = "make_ticket_key ?n (f_entering_key ?t)"
  let ?s' = "left_door ob ek (joined a s)"
  have w: "wf_state s" and ok: "queue_ok s ob'" "door_ok s ob'" for ob'
    using h by (simp_all add: head_locked_def)
  have t: "door_entry ob ek ?t"
    using ok(2) [of ob] a by (fastforce simp: door_ok_def)
  have lt: "a < sl_next_ticket s" "om_ok ?em"
    using map_ok_inner [OF good_maps(2) [OF good_refl [OF w]], of ob] a by (auto simp: keys_ok_def)
  have not_queued: "b \<noteq> a" if "(k, b) \<in> set (inner ob' (sl_tickets s))" for k b ob'
    using ok(1) [of ob'] that t by (fastforce simp: queue_ok_def queue_entry_def door_entry_def)
  have not_door: "b \<noteq> a \<or> (k = ek \<and> ob' = ob)" if "(k, b) \<in> set (inner ob' (sl_entering_tickets s))" for k b ob'
    using ok(2) [of ob'] that t by (fastforce simp: door_ok_def door_entry_def)
  have tickets: "inner ob' (sl_tickets ?s') =
      (if ob' = ob then ?km @ [(?key, a)] else inner ob' (sl_tickets s))" for ob'
  proof (cases "ob' = ob")
    case True
    then show ?thesis
      using joined_queue [OF assms] by (simp add: left_door_def)
  next
    case False
    then show ?thesis
      using t by (simp add: left_door_def joined_def Let_def inner_put2 door_entry_def)
  qed
  have door: "inner ob' (sl_entering_tickets ?s') =
      (if ob' = ob then om_erase ek ?em else inner ob' (sl_entering_tickets s))" for ob'
    by (simp add: left_door_def joined_def Let_def inner_om_put)
  have heap: "sl_heap ?s' b = sl_heap s b" if "b \<noteq> a" for b
    using that by (simp add: left_door_def joined_def Let_def)
  have ta: "queue_entry ob ?key (sl_heap ?s' a)" "\<not> f_locked (sl_heap ?s' a)"
    using t by (simp_all add: left_door_def joined_def Let_def queue_entry_def door_entry_def)
  have "queue_ok ?s' ob'" for ob'
  proof -
    have "queue_entry ob' (fst p) (sl_heap ?s' (snd p))"
      if "p \<in> set (inner ob' (sl_tickets s))" for p
      using that ok(1) [of ob'] not_queued [of "fst p" "snd p" ob'] heap [of "snd p"]
      by (simp add: queue_ok_def)
    moreover have "\<not> f_locked (sl_heap ?s' (snd p))"
      if "p \<in> set (tl (inner ob' (sl_tickets s)))" for p
    proof -
      have "p \<in> set (inner ob' (sl_tickets s))"
        using that by (cases "inner ob' (sl_tickets s)") auto
      then show ?thesis
        using that ok(1) [of ob'] not_queued [of "fst p" "snd p" ob'] heap [of "snd p"]
        by (simp add: queue_ok_def)
    qed
    ultimately show ?thesis
      using ta by (cases "inner ob (sl_tickets s)") (auto simp: queue_ok_def tickets)
  qed
  moreover have "door_ok ?s' ob'" for ob'
  proof -
    have "door_entry ob' k (sl_heap ?s' b)"
      if "(k, b) \<in> set (inner ob' (sl_entering_tickets ?s'))" for k b
    proof -
      have mem: "(k, b) \<in> set (inner ob' (sl_entering_tickets s))" and "\<not> (k = ek \<and> ob' = ob)"
        using that by (auto simp: door om_erase_def split: if_splits)
      then have "b \<noteq> a" using not_door by blast
      then show ?thesis
        using ok(2) [of ob'] mem heap [of b] by (fastforce simp: door_ok_def)
    qed
    then show ?thesis by (fastforce simp: door_ok_def)
  qed
  moreover have "alone ?s'"
  proof (rule alone_same_cluster)
    show "alone s" using h by (simp add: head_locked_def)
    show "same_cluster s ?s'"
      by (simp add: same_cluster_def left_door_def joined_def Let_def)
  qed
  moreover have "wf_state ?s'"
  proof -
    have "good s (upd_ticket a (\<lambda>t. t\<lparr>f_get_max_ticket := True, f_our_ticket := ?n, f_added_ticket := True,
           f_ticket_key := ?key, f_added_ticket_quorum := True, f_still_entering := ?em\<rparr>) s)" (is "good s ?s1")
      using good_refl [OF w] map_ok_inner [OF good_maps(2) [OF good_refl [OF w]]]
      by (intro good_upd) (simp_all add: flags_le_def)
    then have g: "good s (?s1\<lparr>sl_tickets := put2 ob ?key a (sl_tickets s)\<rparr>)"
      using good_maps(1) [OF good_refl [OF w]] lt(1) by (intro good_tickets map_ok_put2) simp_all
    moreover have "?s1\<lparr>sl_tickets := put2 ob ?key a (sl_tickets s)\<rparr> = joined a s"
      using t by (simp add: joined_def Let_def door_entry_def)
    ultimately have "good s (joined a s)" by simp
    then have "good s ?s'"
      using good_maps(2) [of s "joined a s"] unfolding left_door_def
      by (intro good_entering map_ok_om_put keys_ok_erase map_ok_inner) simp_all
    then show ?thesis by (rule good_wf)
  qed
  ultimately show ?thesis by (simp add: head_locked_def)
qed

lemma head_locked_entering:
  assumes "entering E a s = Inr s'" "head_locked s" "room_in ob s"
    "(ek, a) \<in> set (inner ob (sl_entering_tickets s))"
  shows "head_locked s' \<and> (s' = s \<or> tame (left_door ob ek (joined a s)) s')"
proof -
  have al: "alone s" using assms(2) by (simp add: head_locked_def)
  have t: "door_entry ob ek (sl_heap s a)"
    using assms(2,4) by (fastforce simp: head_locked_def door_ok_def)
  show ?thesis
  proof (cases "f_get_max_ticket (sl_heap s a)")
    case True
    then have "entering E a s = Inr s"
      using al by (simp add: entering_def entered_def Let_def build_def message_simps alone_send_to_leaders)
    then show ?thesis using assms by simp
  next
    case False
    then have r: "msg_lock_exiting E (exiting_message (sl_heap s a)) (joined a s) = Inr s'"
      using alone_entering [OF al, of a E] t assms(1) by (simp add: door_entry_def)
    have n: "f_object_name (sl_heap s a) = ob" "f_entering_key (sl_heap s a) = ek"
      using t by (simp_all add: door_entry_def)
    have ne: "ob \<noteq> []" "ek \<noteq> []"
      using exiting_needs_params [OF r] n by (auto split: if_splits)
    have "om2_ok (sl_entering_tickets s)"
      using good_maps(2) [OF good_refl] assms(2) by (simp add: head_locked_def map_ok_def)
    then have "look2 (sl_entering_tickets s) ob ek = Some a"
      using assms(4) by (simp add: look2_mem)
    then have l: "look2 (sl_entering_tickets (joined a s)) ob ek \<noteq> None"
      by (simp add: joined_def Let_def)
    have "head_locked s' \<and> tame (left_door ob ek (joined a s)) s'"
      by (rule head_locked_exiting [OF r _ _ head_locked_join [OF assms(2-4)] l])
        (simp_all add: n ne)
    then show ?thesis by blast
  qed
qed

end
