(* ===== verification/LockService.thy ===== *)
theory LockService
  imports LockAlone
begin

text \<open>
  The lock service of a daemon alone in its cluster, as a transition system: its steps are
  the requests of clients (LOCK, UNLOCK, ABSOLUTELY, LOCKSTATUS, LISTTICKETS), in any order
  and at any time, and the timer. Mutual exclusion is its invariant.
\<close>

section \<open>Invariants of a step relation\<close>

locale invariant_machine =
  fixes step :: "'s \<Rightarrow> 's \<Rightarrow> bool" and inv :: "'s \<Rightarrow> bool"
  assumes inv_step: "inv s \<Longrightarrow> step s s' \<Longrightarrow> inv s'"
begin

lemma inv_reachable: "step\<^sup>*\<^sup>* s s' \<Longrightarrow> inv s \<Longrightarrow> inv s'"
  by (induction rule: rtranclp_induct) (auto intro: inv_step)

end

text \<open>A machine whose steps are, seen through \<open>abs\<close>, steps of an abstract machine.\<close>

locale simulation = invariant_machine step inv
  for step :: "'s \<Rightarrow> 's \<Rightarrow> bool" and inv :: "'s \<Rightarrow> bool" +
  fixes astep :: "'a \<Rightarrow> 'a \<Rightarrow> bool" and abs :: "'s \<Rightarrow> 'a"
  assumes simulated: "inv s \<Longrightarrow> step s s' \<Longrightarrow> astep\<^sup>*\<^sup>* (abs s) (abs s')"
begin

lemma abs_reachable: "step\<^sup>*\<^sup>* s s' \<Longrightarrow> inv s \<Longrightarrow> astep\<^sup>*\<^sup>* (abs s) (abs s')"
proof (induction rule: rtranclp_induct)
  case (step s' s'')
  then have "astep\<^sup>*\<^sup>* (abs s') (abs s'')" using inv_reachable simulated by blast
  with step show ?case by auto
qed simp

end

section \<open>First in, first out\<close>

text \<open>
  The abstract service: one queue of tickets for each object, and the tickets that ever joined
  one. A new ticket joins at the end; tickets leave, whatever their place.
\<close>

type_synonym fifo = "(string \<Rightarrow> nat list) \<times> nat set"

inductive fifo_step :: "fifo \<Rightarrow> fifo \<Rightarrow> bool" where
  join: "a \<notin> J \<Longrightarrow> fifo_step (q, J) (q(ob := q ob @ [a]), insert a J)"
| leave: "(\<And>ob. subseq (q' ob) (q ob)) \<Longrightarrow> fifo_step (q, J) (q', J)"

definition fifo_of :: "snaplock \<Rightarrow> fifo" where
  "fifo_of s =
     (\<lambda>ob. map snd (inner ob (sl_tickets s)),
      {a. a < sl_next_ticket s \<and> f_added_ticket (sl_heap s a)})"

abbreviation serves :: "snaplock \<Rightarrow> snaplock \<Rightarrow> bool" where
  "serves s s' \<equiv> fifo_step\<^sup>*\<^sup>* (fifo_of s) (fifo_of s')"

lemma fifo_keeps_order:
  assumes "fifo_step\<^sup>*\<^sup>* x y"
  shows "snd x \<subseteq> snd y
    \<and> (\<exists>l r. fst y ob = l @ r \<and> subseq l (fst x ob) \<and> set r \<inter> snd x = {})"
  using assms
proof (induction rule: rtranclp_induct)
  case base
  show ?case by (intro conjI exI [of _ "fst x ob"] exI [of _ "[]"]) auto
next
  case (step y z)
  from step.IH obtain l r where lr: "snd x \<subseteq> snd y" "fst y ob = l @ r" "subseq l (fst x ob)" "set r \<inter> snd x = {}"
    by blast
  from step.hyps(2) show ?case
  proof cases
    case (join a J q ob')
    show ?thesis
    proof (cases "ob' = ob")
      case True
      then have "fst z ob = l @ (r @ [a])" "set (r @ [a]) \<inter> snd x = {}"
        using lr join by auto
      with lr join show ?thesis by fastforce
    next
      case False
      then show ?thesis using lr join by fastforce
    qed
  next
    case (leave q' q J)
    then have "subseq (fst z ob) (l @ r)" using lr(2) by (metis fst_conv)
    then obtain l' r' where z: "fst z ob = l' @ r'" "subseq l' l" "subseq r' r"
      by (auto elim: subseq_appendE)
    then have "subseq l' (fst x ob)" "set r' \<inter> snd x = {}"
      using lr(3,4) subseq_order.order_trans subseq_set by blast+
    with z(1) lr(1) leave show ?thesis by auto
  qed
qed

lemma serves_tame: "tame s s' \<Longrightarrow> serves s s'"
proof -
  assume t: "tame s s'"
  then have "snd (fifo_of s') = snd (fifo_of s)"
    by (simp add: tame_def sim_def fifo_of_def)
  moreover have "subseq (fst (fifo_of s') ob) (fst (fifo_of s) ob)" for ob
    using t by (auto simp: tame_def shrinks_def fifo_of_def intro: subseq_map)
  ultimately have "fifo_step (fifo_of s) (fifo_of s')"
    using fifo_step.leave [of "fst (fifo_of s')" "fst (fifo_of s)" "snd (fifo_of s)"]
    by (metis prod.collapse)
  then show ?thesis by simp
qed

lemma serves_trans: "serves s s1 \<Longrightarrow> serves s1 s2 \<Longrightarrow> serves s s2"
  by (rule rtranclp_trans)

lemma serves_joined:
  assumes h: "head_locked s" and room: "room_in ob s"
    and a: "(ek, a) \<in> set (inner ob (sl_entering_tickets s))"
  shows "serves s (left_door ob ek (joined a s))"
proof -
  let ?s' = "left_door ob ek (joined a s)"
  have w: "wf_state s" and ok: "door_ok s ob"
    using h by (simp_all add: head_locked_def)
  have t: "door_entry ob ek (sl_heap s a)"
    using ok a by (fastforce simp: door_ok_def)
  have lt: "a < sl_next_ticket s"
    using map_ok_inner [OF good_maps(2) [OF good_refl [OF w]], of ob] a by (auto simp: keys_ok_def)
  have q: "fst (fifo_of ?s') = (fst (fifo_of s))(ob := fst (fifo_of s) ob @ [a])"
  proof
    fix ob'
    show "fst (fifo_of ?s') ob' = ((fst (fifo_of s))(ob := fst (fifo_of s) ob @ [a])) ob'"
      using joined_queue [OF assms] t
      by (cases "ob' = ob")
        (simp_all add: fifo_of_def left_door_def joined_def Let_def inner_put2 door_entry_def)
  qed
  have j: "snd (fifo_of ?s') = insert a (snd (fifo_of s))"
    using lt by (auto simp: fifo_of_def left_door_def joined_def Let_def)
  have "a \<notin> snd (fifo_of s)" using t by (simp add: fifo_of_def door_entry_def)
  then have "fifo_step (fifo_of s) (fifo_of ?s')"
    using fifo_step.join [of a "snd (fifo_of s)" "fst (fifo_of s)" ob] q j by (metis prod.collapse)
  then show ?thesis by simp
qed

lemma serves_entering:
  assumes "entering E a s = Inr s'" "head_locked s" "room_in ob s"
    "(ek, a) \<in> set (inner ob (sl_entering_tickets s))"
  shows "head_locked s' \<and> serves s s'"
  using head_locked_entering [OF assms] serves_joined [OF assms(2-4)] serves_tame serves_trans by blast

lemma serves_cleanup: "cleanup E s = Inr s' \<Longrightarrow> head_locked s \<Longrightarrow> head_locked s' \<and> serves s s'"
  using head_locked_cleanup serves_tame by blast

text \<open>What a handler keeps: the invariant, and the order of service since \<open>s0\<close>.\<close>

definition kept :: "snaplock \<Rightarrow> snaplock \<Rightarrow> bool" where
  "kept s0 s \<longleftrightarrow> head_locked s \<and> serves s0 s"

lemma kept_refl: "head_locked s \<Longrightarrow> kept s s"
  by (simp add: kept_def)

lemma kept_step: "kept s0 s \<Longrightarrow> head_locked s' \<Longrightarrow> serves s s' \<Longrightarrow> kept s0 s'"
  unfolding kept_def using serves_trans by blast

lemma kept_same: "kept s0 s \<Longrightarrow> head_locked s' \<Longrightarrow> fifo_of s' = fifo_of s \<Longrightarrow> kept s0 s'"
  by (simp add: kept_def)

lemma kept_cleanup: "cleanup E s = Inr s' \<Longrightarrow> kept s0 s \<Longrightarrow> kept s0 s'"
  using serves_cleanup kept_step unfolding kept_def by blast

section \<open>Requests\<close>

lemma head_locked_send: "head_locked s \<Longrightarrow> quiet m \<Longrightarrow> head_locked (send_message m s)"
proof -
  assume h: "head_locked s" and q: "quiet m"
  then have "wf_state (send_message m s)"
    using good_wf [OF good_send [OF good_refl]] by (simp add: head_locked_def)
  with h show ?thesis
    by (intro head_locked_calm [OF h]) (simp_all add: shrinks_def)
qed

lemma kept_send: "kept s0 s \<Longrightarrow> quiet m \<Longrightarrow> kept s0 (send_message m s)"
  by (rule kept_same) (simp_all add: kept_def head_locked_send fifo_of_def)

lemma kept_reply:
  "send_built (build (set_command c # ops)) s = Inr s' \<Longrightarrow> kept s0 s \<Longrightarrow> list_all keeps_command ops \<Longrightarrow>
   c \<noteq> ''LOCKED'' \<Longrightarrow> c \<noteq> ''UNLOCKED'' \<Longrightarrow> kept s0 s'"
  by (auto simp: send_built_Inr intro!: kept_send dest: build_quiet)

lemma kept_refuse:
  "send_built (lock_failed_reply m ob k e) s = Inr s' \<Longrightarrow> kept s0 s \<Longrightarrow> kept s0 s'"
  by (auto simp: send_built_Inr intro!: kept_send dest: lock_failed_reply_quiet)

text \<open>A new ticket at the door.\<close>

definition at_door :: "string \<Rightarrow> string \<Rightarrow> ticket \<Rightarrow> snaplock \<Rightarrow> snaplock" where
  "at_door ob ek t s =
     s\<lparr>sl_heap := (sl_heap s)(sl_next_ticket s := t), sl_next_ticket := Suc (sl_next_ticket s),
       sl_entering_tickets := put2 ob ek (sl_next_ticket s) (sl_entering_tickets s)\<rparr>"

lemma head_locked_at_door:
  assumes h: "head_locked s" and t: "door_entry ob ek t" "f_still_entering t = []"
  shows "head_locked (at_door ob ek t s)"
proof -
  let ?s' = "at_door ob ek t s"
  have w: "wf_state s" and ok: "queue_ok s ob'" "door_ok s ob'" and al: "alone s" for ob'
    using h by (simp_all add: head_locked_def)
  have old: "b \<noteq> sl_next_ticket s" if "(k, b) \<in> set (inner ob' (sl_tickets s))
      \<or> (k, b) \<in> set (inner ob' (sl_entering_tickets s))" for k b ob'
    using that map_ok_inner [OF good_maps(1) [OF good_refl [OF w]], of ob']
      map_ok_inner [OF good_maps(2) [OF good_refl [OF w]], of ob']
    by (auto simp: keys_ok_def)
  have "queue_ok ?s' ob'" for ob'
  proof -
    have "sl_heap ?s' (snd p) = sl_heap s (snd p)" if "p \<in> set (inner ob' (sl_tickets s))" for p
      using old [of "fst p" "snd p" ob'] that by (simp add: at_door_def)
    moreover from this have "sl_heap ?s' (snd p) = sl_heap s (snd p)"
      if "p \<in> set (tl (inner ob' (sl_tickets s)))" for p
      using that by (cases "inner ob' (sl_tickets s)") auto
    moreover have "sl_tickets ?s' = sl_tickets s" by (simp add: at_door_def)
    ultimately show ?thesis
      using ok(1) [of ob'] by (simp add: queue_ok_def)
  qed
  moreover have "door_ok ?s' ob'" for ob'
  proof -
    have "p = (ek, sl_next_ticket s) \<and> ob' = ob \<or> p \<in> set (inner ob' (sl_entering_tickets s))"
      if "p \<in> set (inner ob' (sl_entering_tickets ?s'))" for p
      using that set_om_put [of ek "sl_next_ticket s" "inner ob (sl_entering_tickets s)"]
      by (auto simp: at_door_def inner_put2 split: if_splits)
    moreover have "door_entry ob' (fst p) (sl_heap ?s' (snd p))"
      if "p \<in> set (inner ob' (sl_entering_tickets s))" for p
      using old [of "fst p" "snd p" ob'] that ok(2) [of ob'] by (simp add: at_door_def door_ok_def)
    moreover have "door_entry ob ek (sl_heap ?s' (sl_next_ticket s))"
      using t by (simp add: at_door_def)
    ultimately show ?thesis
      by (fastforce simp: door_ok_def)
  qed
  moreover have "alone ?s'"
    using al by (rule alone_same_cluster [rotated]) (simp add: same_cluster_def at_door_def)
  moreover have "wf_state ?s'"
    unfolding at_door_def by (rule good_wf [OF good_new_entry [OF good_refl [OF w] t(2)]])
  ultimately show ?thesis by (simp add: head_locked_def)
qed

lemma head_locked_alive:
  assumes "head_locked s" "a < sl_next_ticket s"
  shows "head_locked (upd_ticket a (set_alive_timeout d) s)"
proof (rule head_locked_calm [OF assms(1)])
  have "wf_state s" using assms(1) by (simp add: head_locked_def)
  then have "good s (upd_ticket a (set_alive_timeout d) s)"
    using good_maps(3) [OF good_refl assms(2)]
    by (intro good_upd good_refl) (simp_all add: set_alive_timeout_def flags_le_def Let_def)
  then show "wf_state (upd_ticket a (set_alive_timeout d) s)" by (rule good_wf)
  show "calm s (upd_ticket a (set_alive_timeout d) s)"
    by (rule calm_upd) (simp_all add: set_alive_timeout_def sim_def Let_def)
qed (simp add: shrinks_def)

lemma kept_alive:
  "kept s0 s \<Longrightarrow> head_locked (upd_ticket a (set_alive_timeout d) s) \<Longrightarrow>
   kept s0 (upd_ticket a (set_alive_timeout d) s)"
  by (rule kept_same) (auto simp: fifo_of_def set_alive_timeout_def Let_def)

text \<open>The ticket \<open>lock_new_ticket\<close> puts at the door.\<close>

definition lock_ticket ::
  "snaplock \<Rightarrow> string \<Rightarrow> string \<Rightarrow> int \<Rightarrow> int \<Rightarrow> int \<Rightarrow> string \<Rightarrow> string \<Rightarrow> 32 word \<Rightarrow> ticket" where
  "lock_ticket s ob ek timeout d ud sn sv serial =
     set_serial serial (set_unlock_duration ud (snaplock_ticket s ob ek timeout d sn sv))"

lemma lock_ticket_simps [simp]:
  "door_entry ob ek (lock_ticket s ob ek timeout d ud sn sv serial)"
  "f_still_entering (lock_ticket s ob ek timeout d ud sn sv serial) = []"
  "\<not> f_get_max_ticket (lock_ticket s ob ek timeout d ud sn sv serial)"
  "\<not> f_added_ticket (lock_ticket s ob ek timeout d ud sn sv serial)"
  "\<not> f_added_ticket_quorum (lock_ticket s ob ek timeout d ud sn sv serial)"
  "\<not> f_ticket_ready (lock_ticket s ob ek timeout d ud sn sv serial)"
  "\<not> f_locked (lock_ticket s ob ek timeout d ud sn sv serial)"
  "\<not> f_lock_failed (lock_ticket s ob ek timeout d ud sn sv serial)"
  "f_object_name (lock_ticket s ob ek timeout d ud sn sv serial) = ob"
  "f_entering_key (lock_ticket s ob ek timeout d ud sn sv serial) = ek"
  "f_obtention_timeout (lock_ticket s ob ek timeout d ud sn sv serial) = timeout"
  "f_alive_timeout (lock_ticket s ob ek timeout d ud sn sv serial) = 0"
  "f_server_name (lock_ticket s ob ek timeout d ud sn sv serial) = sn"
  "f_service_name (lock_ticket s ob ek timeout d ud sn sv serial) = sv"
  "f_owner (lock_ticket s ob ek timeout d ud sn sv serial) = sl_server_name s"
  "f_lock_duration (lock_ticket s ob ek timeout d ud sn sv serial) = clamp_duration d"
  by (simp_all add: lock_ticket_def set_serial_def snaplock_ticket_def default_ticket_def Let_def door_entry_def)

definition waiting_state ::
  "string \<Rightarrow> string \<Rightarrow> int \<Rightarrow> int \<Rightarrow> int \<Rightarrow> string \<Rightarrow> string \<Rightarrow> 32 word \<Rightarrow> snaplock \<Rightarrow> snaplock" where
  "waiting_state ob ek timeout d ud sn sv serial s =
     (at_door ob ek (lock_ticket s ob ek timeout d ud sn sv serial) s)\<lparr>sl_ticket_serial := serial\<rparr>"

lemma lock_new_ticket_waiting:
  "lock_new_ticket E m ob ek timeout d ud sn sv s =
     rbind (next_serial s) (\<lambda>serial.
     rbind (has_parameter m ''serial'') (\<lambda>relock.
     rbind
       (let s4 = waiting_state ob ek timeout d ud sn sv serial s in
        if relock then
          send_built (build [set_command ''ALIVE'', set_server sn, set_service sv,
                             add_parameter ''serial'' (''relock/'' @ ob @ CHR ''/'' # ek),
                             add_integer_parameter ''timestamp'' (time_now E)])
            (upd_ticket (sl_next_ticket s) (set_alive_timeout (5 + time_now E)) s4)
        else entering E (sl_next_ticket s) s4)
       (cleanup E)))"
proof -
  let ?a = "sl_next_ticket s"
  let ?s1 = "s\<lparr>sl_heap := (sl_heap s)(?a := snaplock_ticket s ob ek timeout d sn sv), sl_next_ticket := Suc ?a\<rparr>"
  let ?s2 = "?s1\<lparr>sl_entering_tickets := put2 ob ek ?a (sl_entering_tickets ?s1)\<rparr>"
  let ?s3 = "upd_ticket ?a (set_unlock_duration ud) ?s2"
  have n: "next_serial ?s3 = next_serial s"
    by (simp add: next_serial_def Let_def cong: if_cong)
  have w: "upd_ticket ?a (set_serial serial) (?s3\<lparr>sl_ticket_serial := serial\<rparr>)
      = waiting_state ob ek timeout d ud sn sv serial s" for serial
    by (rule snaplock.equality)
      (simp_all add: waiting_state_def at_door_def lock_ticket_def upd_ticket_def)
  show ?thesis
    unfolding lock_new_ticket_def new_ticket_def Let_def prod.case n w ..
qed

lemma waiting_state_ok:
  assumes h: "head_locked s" and room: "room_in ob s"
  shows "head_locked (waiting_state ob ek timeout d ud sn sv serial s)"
    and "room_in ob (waiting_state ob ek timeout d ud sn sv serial s)"
    and "(ek, sl_next_ticket s)
      \<in> set (inner ob (sl_entering_tickets (waiting_state ob ek timeout d ud sn sv serial s)))"
proof -
  let ?a = "sl_next_ticket s"
  let ?t = "lock_ticket s ob ek timeout d ud sn sv serial"
  let ?s3 = "at_door ob ek ?t s"
  let ?s4 = "?s3\<lparr>sl_ticket_serial := serial\<rparr>"
  have h3: "head_locked ?s3"
    using h by (rule head_locked_at_door) simp_all
  have h4: "head_locked ?s4"
    using h3 by (rule head_locked_calm)
      (use good_wf [OF good_other(3) [OF good_refl]] h3 in \<open>simp_all add: shrinks_def head_locked_def\<close>)
  have mem: "(ek, ?a) \<in> set (inner ob (sl_entering_tickets ?s4))"
  proof -
    have "om2_ok (sl_entering_tickets ?s4)"
      using h4 by (simp add: head_locked_def wf_defs map_ok_def)
    moreover have "look2 (sl_entering_tickets ?s4) ob ek = Some ?a"
      by (simp add: at_door_def look2_put2)
    ultimately show ?thesis by (simp add: look2_mem)
  qed
  have room4: "room_in ob ?s4"
  proof -
    have "b \<noteq> ?a" if "(k, b) \<in> set (inner ob (sl_tickets s))" for k b
      using that map_ok_inner [OF good_maps(1) [OF good_refl], of s ob] h
      by (auto simp: keys_ok_def head_locked_def)
    then show ?thesis
      using room by (fastforce simp: room_in_def at_door_def)
  qed
  show "head_locked (waiting_state ob ek timeout d ud sn sv serial s)"
    "room_in ob (waiting_state ob ek timeout d ud sn sv serial s)"
    "(ek, sl_next_ticket s)
      \<in> set (inner ob (sl_entering_tickets (waiting_state ob ek timeout d ud sn sv serial s)))"
    using h4 room4 mem by (simp_all add: waiting_state_def)
qed

lemma serves_waiting_state:
  assumes "head_locked s"
  shows "fifo_of (waiting_state ob ek timeout d ud sn sv serial s) = fifo_of s"
  by (auto simp: fifo_of_def waiting_state_def at_door_def lock_ticket_def set_serial_def
      snaplock_ticket_def default_ticket_def Let_def less_Suc_eq)

lemma kept_new_ticket:
  assumes r: "lock_new_ticket E m ob ek timeout d ud sn sv s = Inr s'"
    and k: "kept s0 s" and room: "room_in ob s"
  shows "kept s0 s'"
proof -
  let ?a = "sl_next_ticket s"
  obtain serial relock s6 where
    r6: "(let s4 = waiting_state ob ek timeout d ud sn sv serial s in
        if relock then
          send_built (build [set_command ''ALIVE'', set_server sn, set_service sv,
                             add_parameter ''serial'' (''relock/'' @ ob @ CHR ''/'' # ek),
                             add_integer_parameter ''timestamp'' (time_now E)])
            (upd_ticket ?a (set_alive_timeout (5 + time_now E)) s4)
        else entering E ?a s4) = Inr s6"
    and c: "cleanup E s6 = Inr s'"
    using r unfolding lock_new_ticket_waiting by (elim rbind_InrE)
  let ?s4 = "waiting_state ob ek timeout d ud sn sv serial s"
  have h: "head_locked s" using k by (simp add: kept_def)
  note w = waiting_state_ok [OF h room, of ek timeout d ud sn sv serial]
  have k4: "kept s0 ?s4" using kept_same [OF k w(1) serves_waiting_state [OF h]] .
  have "kept s0 s6"
  proof (cases relock)
    case True
    have "kept s0 (upd_ticket ?a (set_alive_timeout (5 + time_now E)) ?s4)"
      using k4 head_locked_alive [OF w(1), of ?a] kept_alive
      by (simp add: waiting_state_def at_door_def)
    then show ?thesis
      using r6 True by (auto simp: Let_def intro: kept_reply)
  next
    case False
    then show ?thesis
      using r6 serves_entering [OF _ w] kept_step [OF k4] by (simp add: Let_def)
  qed
  then show ?thesis using kept_cleanup [OF c] by simp
qed

lemma kept_is_ready: "is_ready E s = Inr (b, s') \<Longrightarrow> kept s0 s \<Longrightarrow> b \<and> s' = s \<and> kept s0 s"
  using alone_is_ready [of s E] by (simp add: head_locked_def kept_def)

lemma kept_is_leader: "is_leader s [] = Inr l \<Longrightarrow> kept s0 s \<Longrightarrow> l \<noteq> None \<and> kept s0 s"
  using alone_is_leader [of s] by (auto simp: head_locked_def kept_def)

lemma kept_msg_lock:
  assumes "msg_lock E m s = Inr s'" "head_locked s" "room s"
  shows "kept s s'"
proof -
  have c: "kept s u \<and> (\<forall>ob. room_in ob u)" if "cleanup E s = Inr u" for u
    using kept_cleanup [OF that kept_refl] head_locked_cleanup [OF that]
      room_in_tame [OF room_room_in [OF assms(3)]] assms(2) by blast
  have new: "kept s s'" if "lock_new_ticket E m ob ek t d ud sn sv u = Inr s'" "kept s u"
    "\<forall>ob. room_in ob u" for u ob ek t d ud sn sv
    using kept_new_ticket [OF that(1,2)] that(3) by blast
  show ?thesis
    using assms(1) kept_refl [OF assms(2)] unfolding msg_lock_def Let_def
    by (auto elim!: rbind_InrE split: if_splits option.splits sum.splits
        dest!: c kept_is_ready [where ?s0.0 = s] kept_is_leader [where ?s0.0 = s] new
        dest!: kept_refuse [where ?s0.0 = s])
qed

lemma kept_msg_unlock:
  assumes "msg_unlock E m s = Inr s'" "head_locked s" "m_command m = ''UNLOCK''"
  shows "kept s s'"
proof -
  have w: "good s s" using assms(2) by (simp add: head_locked_def good_refl)
  have drop: "kept s (s2\<lparr>sl_tickets := set2 ob (om_erase k km) (sl_tickets s2)\<rparr>)"
    if d: "drop_ticket a s = Inr s2" and km: "map_of (sl_tickets s) ob = Some km"
      and f: "find_by_entering_key h ek km = Some (k, a)"
    for a s2 ob km h ek k
  proof -
    let ?s3 = "s2\<lparr>sl_tickets := set2 ob (om_erase k km) (sl_tickets s2)\<rparr>"
    have ok: "keys_ok (sl_next_ticket s) km"
      using good_maps(1) [OF w] km by (rule map_ok_map_of)
    then have "a < sl_next_ticket s"
      using find_by_entering_key_mem [OF f] by (auto simp: keys_ok_def)
    then have "good s (s2\<lparr>sl_tickets := set2 ob (om_erase k km) (sl_tickets s2)\<rparr>)"
      using good_drop_ticket [OF d w] good_maps(1) [OF w] ok
      by (auto intro!: good_tickets map_ok_set2 keys_ok_erase)
    then have wf: "wf_state ?s3" by (rule good_wf)
    have calm: "calm s (s2\<lparr>sl_tickets := set2 ob (om_erase k km) (sl_tickets s2)\<rparr>)"
      using calm_drop_ticket [OF d] calm_trans [OF _ calm_updates(4)] by blast
    have "inner ob (sl_tickets s) = km" using km by (simp add: inner_def)
    then have shrinks: "shrinks s ?s3"
      using calm_drop_ticket [OF d]
      by (auto simp: shrinks_def same_maps_def inner_set2 om_erase_def)
    show ?thesis
      using head_locked_calm [OF assms(2) calm shrinks wf] serves_tame [OF tame_calm [OF calm shrinks]]
      by (simp add: kept_def)
  qed
  show ?thesis
    using assms(1) kept_refl [OF assms(2)] unfolding msg_unlock_def
    by (auto elim!: rbind_InrE split: if_splits option.splits
        dest!: kept_is_ready [where ?s0.0 = s] kept_is_leader [where ?s0.0 = s] drop
        dest!: kept_cleanup [where ?s0.0 = s])
qed

lemma kept_msg_absolutely:
  assumes "msg_absolutely E m s = Inr s'" "head_locked s" "room s"
  shows "kept s s'"
proof -
  have w: "wf_state s" using assms(2) by (simp add: head_locked_def)
  have alive: "kept s s'" if e: "entering E a (upd_ticket a (set_alive_timeout 0) s) = Inr s'"
    and l: "look2 (sl_entering_tickets s) ob ek = Some a" for a ob ek
  proof -
    have "map_ok (sl_next_ticket s) (sl_entering_tickets s)"
      using good_maps(2) [OF good_refl [OF w]] .
    then have mem: "(ek, a) \<in> set (inner ob (sl_entering_tickets s))" and a: "a < sl_next_ticket s"
      using l look2_mem [of "sl_entering_tickets s" ob ek a] map_ok_look2 [OF _ l]
      by (simp_all add: map_ok_def)
    have "room_in ob (upd_ticket a (set_alive_timeout 0) s)"
      using room_room_in [OF assms(3), of ob]
      by (auto simp: room_in_def set_alive_timeout_def Let_def)
    then have "head_locked s' \<and> serves (upd_ticket a (set_alive_timeout 0) s) s'"
      using serves_entering [OF e head_locked_alive [OF assms(2) a]] mem by simp
    then show ?thesis
      using kept_step kept_alive [OF kept_refl [OF assms(2)] head_locked_alive [OF assms(2) a]] by blast
  qed
  show ?thesis
    using assms(1) kept_refl [OF assms(2)] unfolding msg_absolutely_def Let_def
    by (auto elim!: rbind_InrE split: if_splits option.splits dest!: alive kept_reply [where ?s0.0 = s])
qed

section \<open>The transition system\<close>

inductive service_step :: "snaplock \<Rightarrow> snaplock \<Rightarrow> bool" where
  lock: "m_command m = ''LOCK'' \<Longrightarrow> room s \<Longrightarrow> msg_lock E m s = Inr s' \<Longrightarrow> service_step s s'"
| unlock: "m_command m = ''UNLOCK'' \<Longrightarrow> msg_unlock E m s = Inr s' \<Longrightarrow> service_step s s'"
| absolutely: "m_command m = ''ABSOLUTELY'' \<Longrightarrow> room s \<Longrightarrow> msg_absolutely E m s = Inr s' \<Longrightarrow>
    service_step s s'"
| status: "msg_lock_status E m s = Inr s' \<Longrightarrow> service_step s s'"
| list: "msg_list_tickets date m s = Inr s' \<Longrightarrow> service_step s s'"
| timer: "cleanup E s = Inr s' \<Longrightarrow> service_step s s'"

inductive_cases service_stepE: "service_step s s'"

lemma kept_service_step: "head_locked s \<Longrightarrow> service_step s s' \<Longrightarrow> kept s s'"
proof (elim service_stepE)
  fix E m assume "head_locked s" "msg_lock_status E m s = Inr s'"
  then show "kept s s'"
    using kept_refl [of s]
    by (auto simp: msg_lock_status_def elim!: rbind_InrE dest!: kept_is_ready dest: kept_reply split: if_splits)
next
  fix date m assume "head_locked s" "msg_list_tickets date m s = Inr s'"
  then show "kept s s'"
    using kept_refl [of s] by (auto simp: msg_list_tickets_def elim!: rbind_InrE dest: kept_reply)
qed (auto intro: kept_msg_lock kept_msg_unlock kept_msg_absolutely kept_cleanup [OF _ kept_refl])

interpretation service: simulation service_step head_locked fifo_step fifo_of
  by unfold_locales (use kept_service_step in \<open>auto simp: kept_def\<close>)

end
