(* ===== verification/LockStart.thy ===== *)
theory LockStart
  imports LockService
begin

text \<open>
  From the start of a daemon to its first request: the state of the constructor, the
  CLUSTERUP of a cluster of one computer and the election it holds on its own.
\<close>

section \<open>The first state\<close>

lemma init_fields:
  assumes "snaplock_init pid random ip name priority t = Inr s"
  shows "sl_computers s = [(name, 0)]" "sl_leaders s = []" "sl_message_cache s = []"
    "sl_entering_tickets s = []" "sl_tickets s = []" "sl_lock_status s = ''NOLOCK''"
    "sl_timer s = -1" "sl_next_ticket s = 0" "sl_next_pc s = 1" "sl_outbox s = []"
    "sl_server_name s = name" "sl_my_ip_address s = ip" "sl_next_leader s = 0"
    "get_id (sl_pcs s 0) = Inr (sl_my_id s)" "c_priority (sl_pcs s 0) = priority"
    "c_ip_address (sl_pcs s 0) = ip" "c_connected (sl_pcs s 0)" "sl_ticket_serial s = 0"
    "c_name (sl_pcs s 0) = name" "sl_neighbors_count s = 0"
  using assms
  by (auto simp: snaplock_init_def rbind_Inr_iff Let_def computer_self_def)

lemma init_wf: "snaplock_init pid random ip name priority t = Inr s \<Longrightarrow> wf_state s"
  by (simp add: wf_defs init_fields map_ok_def)

lemma init_counts:
  "snaplock_init pid random ip name priority t = Inr s \<Longrightarrow> sent_count c s = 0 \<and> flag_count f s = 0"
  by (simp add: sent_count_def flag_count_def init_fields)

section \<open>The election of a cluster of one\<close>

lemma add_one_leader:
  "get_id (pcs l) = Inr i \<Longrightarrow> add_leaders pcs 0 [l] m = add_parameter ''leader0'' i m"
proof -
  assume "get_id (pcs l) = Inr i"
  moreover have "''leader'' @ dec (int 0) = ''leader0''"
    by (simp add: dec_def dec_nat.simps digit_0)
  ultimately show ?thesis by (simp add: message_simps del: append.simps)
qed

definition leaders_message :: "int \<Rightarrow> string \<Rightarrow> message" where
  "leaders_message d i =
     empty_message\<lparr>m_command := ''LOCKLEADERS'', m_service := ''*'',
       m_parameters := [(''election_date'', dec d), (''leader0'', i)]\<rparr>"

definition status_message :: message where
  "status_message =
     empty_message\<lparr>m_command := ''LOCKREADY'', m_service := ''.'', m_parameters := [(''cache'', ''no'')]\<rparr>"

definition started_message :: "snaplock \<Rightarrow> message" where
  "started_message s =
     empty_message\<lparr>m_command := ''LOCKSTARTED'', m_service := ''*'',
       m_parameters := [(''election_date'', dec (sl_election_date s)), (''leader0'', sl_my_id s),
         (''lockid'', sl_my_id s), (''server_name'', sl_server_name s),
         (''starttime'', dec (sl_start_time s))]\<rparr>"

lemma build_leaders:
  "get_id (pcs 0) = Inr i \<Longrightarrow>
   build [set_command ''LOCKLEADERS'', set_service ''*'',
          add_integer_parameter ''election_date'' d, add_leaders pcs 0 [0]]
   = Inr (leaders_message d i)"
  by (simp add: build_def message_simps add_one_leader leaders_message_def empty_message_def
      less_char_def del: add_leaders.simps)

lemma build_status:
  "build [set_command ''LOCKREADY'', set_service ''.'', add_parameter ''cache'' ''no''] = Inr status_message"
  by (simp add: build_def message_simps status_message_def empty_message_def)

lemma send_started:
  "get_id (sl_pcs s 0) = Inr (sl_my_id s) \<Longrightarrow> sl_leaders s = [0] \<Longrightarrow>
   send_lockstarted None s = Inr (send_message (started_message s) s)"
  by (simp add: send_lockstarted_def send_built_def build_def message_simps add_one_leader
      started_message_def empty_message_def less_char_def del: add_leaders.simps)

text \<open>The state once the daemon has elected itself and told everybody.\<close>

definition self_elected :: "env \<Rightarrow> snaplock \<Rightarrow> snaplock" where
  "self_elected E s =
     s\<lparr>sl_neighbors_count := 1, sl_neighbors_quorum := 1, sl_leaders := [0],
       sl_election_date := current_date E, sl_lock_status := ''LOCKREADY'',
       sl_outbox :=
         [leaders_message (current_date E) (sl_my_id s), status_message,
          started_message (s\<lparr>sl_election_date := current_date E\<rparr>)]\<rparr>"

lemma cluster_of_one:
  assumes s: "snaplock_init pid random ip name priority t = Inr s"
    and p: "priority \<noteq> PRIORITY_OFF" and n: "get_integer_parameter E m ''neighbors_count'' = Inr 1"
  shows "msg_cluster_up E m s = Inr (self_elected E s)"
proof -
  note f = init_fields [OF s]
  let ?s1 = "s\<lparr>sl_neighbors_count := 1, sl_neighbors_quorum := 1\<rparr>"
  let ?s2 = "?s1\<lparr>sl_leaders := [0], sl_election_date := current_date E,
      sl_outbox := [leaders_message (current_date E) (sl_my_id s)]\<rparr>"
  let ?s3 = "?s2\<lparr>sl_lock_status := ''LOCKREADY'',
      sl_outbox := [leaders_message (current_date E) (sl_my_id s), status_message]\<rparr>"
  have size1: "size_t 1 = 1" by (simp add: size_t_def)
  have sort: "sort_by_id ?s1 (sl_computers ?s1) ([], 0) = Inr ([(sl_my_id s, 0)], 0)"
    using p by (simp add: f)
  have elect: "elect E [0] ?s1 = Inr ?s2"
    using build_leaders [of "sl_pcs s" "sl_my_id s"]
    by (simp add: elect_def Let_def send_built_def send_message_def f)
  have st: "election_status E ?s1 = check_lock_status E ?s2"
    unfolding election_status_def sort rbind_simps
    using elect by (simp add: has_leaders_def may_elect_def enough_candidates_def f)
  have ready: "is_ready E ?s2 = Inr (True, ?s2)"
    by (simp add: is_ready_def f)
  have ck: "check_lock_status E ?s2 = Inr ?s3"
    unfolding check_lock_status_def ready rbind_simps
    by (simp add: f build_status send_built_def send_message_def)
  have "msg_cluster_up E m s = send_lockstarted None ?s3"
    using st ck by (simp add: msg_cluster_up_def n size1)
  also have "\<dots> = Inr (send_message (started_message ?s3) ?s3)"
    by (rule send_started) (simp_all add: f)
  also have "\<dots> = Inr (self_elected E s)"
    by (simp add: send_message_def self_elected_def started_message_def)
  finally show ?thesis .
qed

lemma self_elected_ok:
  assumes "snaplock_init pid random ip name priority t = Inr s"
  shows "head_locked (self_elected E s) \<and> room (self_elected E s)"
  using init_fields [OF assms] init_wf [OF assms]
  by (simp add: head_locked_def self_elected_def wf_defs alone_def queue_ok_def door_ok_def room_def)

end
