(* ===== verification/LockExact.thy ===== *)
theory LockExact
  imports LockStart
begin

text \<open>
  What a LOCK request does, exactly, when the daemon is alone in its cluster and nothing
  has timed out: the operation returns, the new ticket goes to the end of the queue of its
  object, and it is locked at once when the queue was empty.
\<close>

section \<open>Cleanup when nothing is due\<close>

definition due_free :: "env \<Rightarrow> (nat \<Rightarrow> ticket) \<Rightarrow> object_map \<Rightarrow> bool" where
  "due_free E h m \<longleftrightarrow>
     (\<forall>(_, km) \<in> set m. km \<noteq> [] \<and> (\<forall>(_, a) \<in> set km. \<not> timed_out E (h a)))"

definition nothing_due :: "env \<Rightarrow> snaplock \<Rightarrow> bool" where
  "nothing_due E s \<longleftrightarrow>
     0 \<le> time_now E \<and> (\<forall>p \<in> set (sl_message_cache s). time_now E < fst p)
   \<and> due_free E (sl_heap s) (sl_tickets s) \<and> due_free E (sl_heap s) (sl_entering_tickets s)"

lemma om_put_same: "om_ok m \<Longrightarrow> map_of m k = Some v \<Longrightarrow> om_put k v m = m"
  by (induction k v m rule: om_put.induct) (auto split: if_splits dest!: map_of_SomeD)

lemma set2_same: "om2_ok m \<Longrightarrow> map_of m ob = Some km \<Longrightarrow> km \<noteq> [] \<Longrightarrow> set2 ob km m = m"
  by (simp add: set2_def om2_ok_def om_put_same)

lemma cleanup_cache_quiet:
  "\<forall>p \<in> set c. time_now E < fst p \<Longrightarrow> 0 \<le> time_now E \<Longrightarrow> 0 \<le> n \<Longrightarrow>
   \<exists>n'. cleanup_cache E c n s = Inr (c, n', s) \<and> 0 \<le> n'"
proof (induction c arbitrary: n)
  case (Cons p c)
  obtain t m where p: "p = (t, m)" by (cases p)
  have "0 \<le> (if t < n then t else n)" using Cons.prems p by auto
  with Cons.IH [OF _ Cons.prems(2) this] Cons.prems p show ?case by auto
qed simp

lemma cleanup_keys_quiet:
  "\<forall>p \<in> set km. \<not> timed_out E (sl_heap s (snd p)) \<Longrightarrow> 0 \<le> time_now E \<Longrightarrow> 0 \<le> n \<Longrightarrow>
   \<exists>n'. cleanup_keys E km n s = Inr (km, False, n', s) \<and> 0 \<le> n'"
proof (induction km arbitrary: n)
  case (Cons p km)
  obtain k a where p: "p = (k, a)" by (cases p)
  let ?d = "get_current_timeout (sl_heap s a)"
  have d: "\<not> timed_out E (sl_heap s a)" "0 \<le> (if ?d < n then ?d else n)"
    using Cons.prems p by (auto simp: timed_out_def)
  with Cons.IH [OF _ Cons.prems(2) d(2)] Cons.prems p show ?case by (auto simp: Let_def)
qed simp

lemma due_free_inner:
  "due_free E h m \<Longrightarrow> \<forall>p \<in> set (inner ob m). \<not> timed_out E (h (snd p))"
  by (cases "map_of m ob") (auto simp: due_free_def inner_def dest!: map_of_SomeD, fastforce)

lemma cleanup_tickets_quiet:
  "set obs \<subseteq> fst ` set (sl_tickets s) \<Longrightarrow> due_free E (sl_heap s) (sl_tickets s) \<Longrightarrow>
   om2_ok (sl_tickets s) \<Longrightarrow> 0 \<le> time_now E \<Longrightarrow> 0 \<le> n \<Longrightarrow>
   \<exists>n'. cleanup_tickets E obs n s = Inr (n', s) \<and> 0 \<le> n'"
proof (induction obs arbitrary: n)
  case (Cons ob obs)
  obtain km where km: "map_of (sl_tickets s) ob = Some km"
    using Cons.prems(1) by (cases "map_of (sl_tickets s) ob") (auto simp: map_of_eq_None_iff)
  have ne: "km \<noteq> []" using map_of_SomeD [OF km] Cons.prems(2) by (force simp: due_free_def)
  have i: "inner ob (sl_tickets s) = km" using km by (simp add: inner_def)
  obtain n1 where "cleanup_keys E km n s = Inr (km, False, n1, s)" "0 \<le> n1"
    using cleanup_keys_quiet [of km E s n] due_free_inner [OF Cons.prems(2), of ob] Cons.prems i by auto
  moreover have "set2 ob km (sl_tickets s) = sl_tickets s"
    using Cons.prems(3) km ne by (rule set2_same)
  ultimately show ?case
    using Cons.IH [of n1] Cons.prems i by (auto simp: Let_def)
qed simp

lemma cleanup_entering_quiet:
  "set obs \<subseteq> fst ` set (sl_entering_tickets s) \<Longrightarrow> due_free E (sl_heap s) (sl_entering_tickets s) \<Longrightarrow>
   om2_ok (sl_entering_tickets s) \<Longrightarrow> 0 \<le> time_now E \<Longrightarrow> 0 \<le> n \<Longrightarrow>
   \<exists>n'. cleanup_entering E obs n s = Inr (n', s) \<and> 0 \<le> n'"
proof (induction obs arbitrary: n)
  case (Cons ob obs)
  obtain km where km: "map_of (sl_entering_tickets s) ob = Some km"
    using Cons.prems(1) by (cases "map_of (sl_entering_tickets s) ob") (auto simp: map_of_eq_None_iff)
  have ne: "km \<noteq> []" using map_of_SomeD [OF km] Cons.prems(2) by (force simp: due_free_def)
  have i: "inner ob (sl_entering_tickets s) = km" using km by (simp add: inner_def)
  obtain n1 where "cleanup_keys E km n s = Inr (km, False, n1, s)" "0 \<le> n1"
    using cleanup_keys_quiet [of km E s n] due_free_inner [OF Cons.prems(2), of ob] Cons.prems i by auto
  moreover have "set2 ob km (sl_entering_tickets s) = sl_entering_tickets s"
    using Cons.prems(3) km ne by (rule set2_same)
  ultimately show ?case
    using Cons.IH [of n1] Cons.prems i by (auto simp: Let_def)
qed simp

lemma cleanup_quiet:
  assumes "nothing_due E s" "om2_ok (sl_tickets s)" "om2_ok (sl_entering_tickets s)"
  shows "\<exists>d. cleanup E s = Inr (s\<lparr>sl_timer := d\<rparr>)"
proof -
  have now: "0 \<le> time_now E" and dt: "due_free E (sl_heap s) (sl_tickets s)"
    and de: "due_free E (sl_heap s) (sl_entering_tickets s)"
    using assms(1) by (simp_all add: nothing_due_def)
  obtain n1 where n1: "cleanup_cache E (sl_message_cache s) TIME_MAX s = Inr (sl_message_cache s, n1, s)" "0 \<le> n1"
    using cleanup_cache_quiet [of "sl_message_cache s" E TIME_MAX s] assms(1)
    by (auto simp: nothing_due_def TIME_MAX_def)
  obtain n2 where n2: "cleanup_tickets E (map fst (sl_tickets s)) n1 s = Inr (n2, s)" "0 \<le> n2"
    using cleanup_tickets_quiet [OF _ dt assms(2) now n1(2), of "map fst (sl_tickets s)"] by auto
  obtain n3 where n3: "cleanup_entering E (map fst (sl_entering_tickets s)) n2 s = Inr (n3, s)" "0 \<le> n3"
    using cleanup_entering_quiet [OF _ de assms(3) now n2(2), of "map fst (sl_entering_tickets s)"] by auto
  show ?thesis
    using n1 n2 n3 by (auto simp: cleanup_def set_timeout_date_def)
qed

lemma find_first_loop_quiet:
  "\<forall>p \<in> set km. \<not> timed_out E (sl_heap s (snd p)) \<Longrightarrow>
   find_first_loop E km first s =
     Inr (km, (case first of None \<Rightarrow> first_of km | Some a \<Rightarrow> Some a), s)"
  by (induction km arbitrary: first)
    (auto simp: Let_def first_of_def split: option.splits list.splits)

lemma find_first_lock_quiet:
  assumes "due_free E (sl_heap s) (sl_tickets s)" "om2_ok (sl_tickets s)"
  shows "find_first_lock E ob s = Inr (first_of (inner ob (sl_tickets s)), s)"
proof (cases "map_of (sl_tickets s) ob")
  case (Some km)
  then have i: "inner ob (sl_tickets s) = km" by (simp add: inner_def)
  have "km \<noteq> []" using map_of_SomeD [OF Some] assms(1) by (force simp: due_free_def)
  then show ?thesis
    using find_first_loop_quiet [of km E s None] due_free_inner [OF assms(1), of ob]
      set2_same [OF assms(2) Some] Some i
    by (simp add: find_first_lock_def)
qed (simp add: find_first_lock_def inner_def first_of_def)

section \<open>Maps with nothing due\<close>

lemma due_free_put2:
  assumes "due_free E h m" "\<not> timed_out E (h a)"
  shows "due_free E h (put2 ob k a m)"
proof -
  have "\<not> timed_out E (h b)" if "(k', b) \<in> set (om_put k a (inner ob m))" for k' b
    using subsetD [OF set_om_put that] due_free_inner [OF assms(1), of ob] assms(2) by auto
  then have new: "\<forall>(_, b) \<in> set (om_put k a (inner ob m)). \<not> timed_out E (h b)" by blast
  show ?thesis
    unfolding due_free_def
  proof
    fix q assume "q \<in> set (put2 ob k a m)"
    then have "q = (ob, om_put k a (inner ob m)) \<or> q \<in> set m"
      using set_om_put [of ob "om_put k a (inner ob m)" m] by (auto simp: put2_def)
    then show "case q of (_, km) \<Rightarrow> km \<noteq> [] \<and> (\<forall>(_, a) \<in> set km. \<not> timed_out E (h a))"
      using new assms(1) by (auto simp: due_free_def)
  qed
qed

lemma due_free_heap:
  "due_free E h m \<Longrightarrow> (\<And>ob p. p \<in> set (inner ob m) \<Longrightarrow> h' (snd p) = h (snd p)) \<Longrightarrow> om2_ok m \<Longrightarrow>
   due_free E h' m"
proof -
  assume d: "due_free E h m" and h: "\<And>ob p. p \<in> set (inner ob m) \<Longrightarrow> h' (snd p) = h (snd p)"
    and m: "om2_ok m"
  have "h' (snd p) = h (snd p)" if "(ob, km) \<in> set m" "p \<in> set km" for ob km p
  proof -
    have "inner ob m = km"
      using map_of_iff_mem [of m ob km] m that by (simp add: om2_ok_def inner_def)
    with h [of p ob] that show ?thesis by simp
  qed
  with d show ?thesis by (fastforce simp: due_free_def)
qed

lemma om_erase_put: "om_erase k (om_put k v m) = om_erase k m"
  by (induction k v m rule: om_put.induct) (auto simp: om_erase_def)

lemma due_free_erase: "due_free E h m \<Longrightarrow> due_free E h (om_erase ob m)"
  unfolding due_free_def om_erase_def by auto

section \<open>Locking and leaving the door, exactly\<close>

definition locked_message :: "string \<Rightarrow> string \<Rightarrow> string \<Rightarrow> int \<Rightarrow> message" where
  "locked_message ob server service date =
     empty_message\<lparr>m_command := ''LOCKED'', m_server := server, m_service := service,
       m_parameters := [(''object_name'', ob), (''timeout_date'', dec date)]\<rparr>"

definition lock_it :: "env \<Rightarrow> ticket \<Rightarrow> ticket" where
  "lock_it E t = t\<lparr>f_locked := True, f_lock_timeout := f_lock_duration t + time_now E\<rparr>"

lemma lock_activated_exact:
  assumes "f_ticket_ready (sl_heap s a)" "\<not> f_locked (sl_heap s a)" "\<not> f_lock_failed (sl_heap s a)"
    "f_owner (sl_heap s a) = sl_server_name s" "ok_name (f_server_name (sl_heap s a))"
    "ok_name (f_service_name (sl_heap s a))"
  shows "lock_activated E a s =
    Inr (send_message (locked_message (f_object_name (sl_heap s a)) (f_server_name (sl_heap s a))
           (f_service_name (sl_heap s a)) (f_lock_duration (sl_heap s a) + time_now E))
      (upd_ticket a (lock_it E) s))"
  using assms
  by (simp add: lock_activated_def Let_def send_built_def build_def message_simps locked_message_def
      empty_message_def less_char_def lock_it_def [abs_def])

lemma remove_entering_all_ready:
  "\<forall>p \<in> set km. f_ticket_ready (sl_heap s (snd p)) \<Longrightarrow>
   remove_entering_all E key (km @ rest) s = remove_entering_all E key rest s"
  by (induction km) (auto simp: remove_entering_def Let_def)

definition ready_now :: "ticket \<Rightarrow> ticket" where
  "ready_now t = t\<lparr>f_still_entering := [], f_ticket_ready := True\<rparr>"

lemma remove_entering_exact:
  assumes "alone s" "f_added_ticket_quorum (sl_heap s a)" "\<not> f_ticket_ready (sl_heap s a)"
    "f_still_entering (sl_heap s a) = [(key, b)]"
  shows "remove_entering E a key s = Inr (upd_ticket a ready_now s)"
  using assms
  by (simp add: remove_entering_def Let_def om_erase_def build_def message_simps alone_send_to_leaders
      alone_upd upd_upd ready_now_def [abs_def])

text \<open>A ticket that has just taken its number and is the only one at the door.\<close>

definition exiting_ticket :: "string \<Rightarrow> nat \<Rightarrow> ticket \<Rightarrow> bool" where
  "exiting_ticket ek a t \<longleftrightarrow>
     f_added_ticket_quorum t \<and> \<not> f_ticket_ready t \<and> \<not> f_locked t \<and> \<not> f_lock_failed t
   \<and> f_still_entering t = [(ek, a)] \<and> f_alive_timeout t = 0 \<and> 0 < f_lock_duration t"

lemma exiting_exact:
  assumes al: "alone s" and m: "get_object_name m = Inr ob" "get_key m = Inr ek"
    and t: "exiting_ticket ek a (sl_heap s a)"
    and q: "inner ob (sl_tickets s) = km @ [(key, a)]"
    and e: "inner ob (sl_entering_tickets s) = [(ek, a)]"
    and ready: "\<forall>p \<in> set km. f_ticket_ready (sl_heap s (snd p))"
    and due: "nothing_due E s" and ok: "om2_ok (sl_tickets s)" "om2_ok (sl_entering_tickets s)"
    and act: "activate_lock E (the (first_of (km @ [(key, a)])))
        (upd_ticket a ready_now (left_door ob ek s)) = Inr s3"
    and s3: "sl_entering_tickets s3 = sl_entering_tickets (left_door ob ek s)"
      "sl_tickets s3 = sl_tickets s" "sl_message_cache s3 = sl_message_cache s"
      "\<forall>b. timed_out E (sl_heap s3 b) \<longrightarrow> timed_out E (sl_heap s b)"
  shows "(\<exists>d. msg_lock_exiting E m s =
      Inr (s3\<lparr>sl_entering_tickets := om_erase ob (sl_entering_tickets s), sl_timer := d\<rparr>))
    \<and> nothing_due E (s3\<lparr>sl_entering_tickets := om_erase ob (sl_entering_tickets s)\<rparr>)"
proof -
  let ?s1 = "left_door ob ek s"
  let ?s2 = "upd_ticket a ready_now ?s1"
  let ?s4 = "s3\<lparr>sl_entering_tickets := om_erase ob (sl_entering_tickets s)\<rparr>"
  have ekm: "map_of (sl_entering_tickets s) ob = Some [(ek, a)]"
    using e by (auto simp: inner_def split: option.splits)
  have left: "sl_entering_tickets ?s1 = om_put ob [] (sl_entering_tickets s)"
    using e by (simp add: left_door_def om_erase_def)
  have s1: "?s1 = s\<lparr>sl_entering_tickets := om_put ob (om_erase ek [(ek, a)]) (sl_entering_tickets s)\<rparr>"
    using e by (simp add: left_door_def)
  have al1: "alone ?s1"
    using al by (rule alone_same_cluster [rotated]) (simp add: same_cluster_def left_door_def)
  have heap1: "sl_heap ?s1 = sl_heap s" by (simp add: left_door_def)
  have tickets1: "sl_tickets ?s1 = sl_tickets s" by (simp add: left_door_def)
  have "remove_entering_all E ek (inner ob (sl_tickets s)) ?s1 = rbind (remove_entering E a ek ?s1) Inr"
    using ready remove_entering_all_ready [of km ?s1 E ek "[(key, a)]"] q
    by (simp add: heap1 remove_entering_all.simps(1) [abs_def])
  also have "\<dots> = Inr ?s2"
    using t remove_entering_exact [OF al1, of a ek a E] by (simp add: heap1 exiting_ticket_def)
  finally have r2: "remove_entering_all E ek (inner ob (sl_tickets s)) ?s1 = Inr ?s2" .
  have to2: "timed_out E (sl_heap ?s2 b) = timed_out E (sl_heap s b)" for b
    using t by (simp add: heap1 timed_out_def get_current_timeout_def ready_now_def exiting_ticket_def)
  have dt: "due_free E (sl_heap s) (sl_tickets s)" and de: "due_free E (sl_heap s) (sl_entering_tickets s)"
    using due by (simp_all add: nothing_due_def)
  have "due_free E (sl_heap ?s2) (sl_tickets ?s2)"
    using dt to2 unfolding due_free_def by (simp add: tickets1)
  then have f: "find_first_lock E ob ?s2 = Inr (first_of (km @ [(key, a)]), ?s2)"
    using find_first_lock_quiet [of E ?s2 ob] ok(1) q by (simp add: tickets1)
  obtain x where x: "first_of (km @ [(key, a)]) = Some x"
    by (cases km) (auto simp: first_of_def)
  have r3: "activate_first_lock E ob ?s2 = Inr s3"
    using act by (simp add: activate_first_lock_def f x)
  have s4: "s3\<lparr>sl_entering_tickets := set2 ob (inner ob (sl_entering_tickets s3)) (sl_entering_tickets s3)\<rparr> = ?s4"
    by (simp add: s3(1) left inner_om_put set2_def om_erase_put)
  have nd: "nothing_due E ?s4"
    unfolding nothing_due_def
  proof (intro conjI)
    show "due_free E (sl_heap ?s4) (sl_tickets ?s4)"
      using dt s3(4) unfolding due_free_def by (fastforce simp: s3(2))
    have "due_free E (sl_heap s3) (sl_entering_tickets s)"
      using de s3(4) unfolding due_free_def by fastforce
    then show "due_free E (sl_heap ?s4) (sl_entering_tickets ?s4)"
      by (simp add: due_free_erase)
  qed (use due in \<open>simp_all add: nothing_due_def s3(3)\<close>)
  have "om2_ok (sl_tickets ?s4)" "om2_ok (sl_entering_tickets ?s4)"
    using ok by (auto simp: s3(2) om2_ok_def om_erase_def)
  with nd obtain d where c: "cleanup E ?s4 = Inr (?s4\<lparr>sl_timer := d\<rparr>)"
    using cleanup_quiet by blast
  have ne: "inner ob (sl_tickets ?s1) \<noteq> []"
    using q by (simp add: tickets1)
  have "msg_lock_exiting E m s = cleanup E ?s4"
    unfolding msg_lock_exiting_def m rbind_simps ekm option.case Let_def s1 [symmetric]
    using ne r2 r3 s4 by (simp add: tickets1)
  with c nd show ?thesis by auto
qed

section \<open>A LOCK request\<close>

text \<open>A well-formed request of a client that is not already in the queue of the object.\<close>

definition lock_request ::
  "env \<Rightarrow> message \<Rightarrow> string \<Rightarrow> int \<Rightarrow> int \<Rightarrow> int \<Rightarrow> string \<Rightarrow> string \<Rightarrow> bool" where
  "lock_request E m ob pid t d sn sv \<longleftrightarrow>
     get_object_name m = Inr ob \<and> get_pid E m = Inr pid \<and> get_timeout E m = Inr t
   \<and> origin_server m = Inr sn \<and> origin_service m = Inr sv
   \<and> get_integer_parameter E m ''duration'' = Inr d
   \<and> lock_unlock_duration E m = Inr (Some SNAP_UNLOCK_USES_LOCK_TIMEOUT)
   \<and> has_parameter m ''serial'' = Inr False
   \<and> time_now E < t \<and> SNAP_LOCK_MINIMUM_TIMEOUT \<le> int32 d
   \<and> ok_name sn \<and> ok_name sv"

definition object_idle :: "string \<Rightarrow> string \<Rightarrow> snaplock \<Rightarrow> bool" where
  "object_idle ob ek s \<longleftrightarrow>
     inner ob (sl_entering_tickets s) = []
   \<and> (\<forall>p \<in> set (inner ob (sl_tickets s)).
        f_ticket_ready (sl_heap s (snd p)) \<and> f_entering_key (sl_heap s (snd p)) \<noteq> ek)"

lemma alone_next_serial: "alone s \<Longrightarrow> next_serial s = Inr ((sl_ticket_serial s + 1) AND 0x00FFFFFF)"
  by (erule aloneE) (simp add: next_serial_def Let_def)

lemma clamp_duration_pos: "0 < clamp_duration d"
  by (simp add: clamp_duration_def timeout_defs)

lemma om2_ok_head_locked:
  "head_locked s \<Longrightarrow> om2_ok (sl_tickets s) \<and> om2_ok (sl_entering_tickets s)"
  by (simp add: head_locked_def wf_defs map_ok_def)

end
