(* ===== verification/LockRequest.thy ===== *)
theory LockRequest
  imports LockExact
begin

text \<open>
  A LOCK request on an object that is free, and on an object that is locked: the state the
  operation returns.
\<close>

section \<open>From the request to the queue\<close>

lemma lock_request_new:
  assumes h: "head_locked s" and due: "nothing_due E s"
    and req: "lock_request E m ob pid t d sn sv"
    and idle: "object_idle ob (make_entering_key sn pid) s"
  shows "\<exists>s1 d1. s1 = s\<lparr>sl_timer := d1\<rparr> \<and> head_locked s1 \<and>
    msg_lock E m s = lock_new_ticket E m ob (make_entering_key sn pid) t (int32 d)
      SNAP_UNLOCK_USES_LOCK_TIMEOUT sn sv s1"
proof -
  let ?ek = "make_entering_key sn pid"
  obtain d1 where c: "cleanup E s = Inr (s\<lparr>sl_timer := d1\<rparr>)"
    using cleanup_quiet [OF due] om2_ok_head_locked [OF h] by blast
  let ?s1 = "s\<lparr>sl_timer := d1\<rparr>"
  have al: "alone ?s1"
    using h by (auto simp: head_locked_def same_cluster_def intro: alone_same_cluster)
  obtain l where l: "is_leader ?s1 [] = Inr (Some l)"
    using alone_is_leader [OF al] by blast
  have "find_by_entering_key (sl_heap s) ?ek (inner ob (sl_tickets s)) = None"
    using idle by (auto simp: find_by_entering_key_def find_None_iff object_idle_def)
  then have dup: "lock_duplicate E m ob ?ek ?s1 = Inr None"
    using idle by (simp add: lock_duplicate_def look2_def object_idle_def)
  have "msg_lock E m s = lock_new_ticket E m ob ?ek t (int32 d) SNAP_UNLOCK_USES_LOCK_TIMEOUT sn sv ?s1"
    using req unfolding lock_request_def msg_lock_def
    by (simp add: c alone_is_ready [OF al] l dup Let_def)
  then show ?thesis using head_locked_cleanup [OF c h] by blast
qed

text \<open>The ticket of the request, ready, and the queue it has joined.\<close>

definition queued_ticket ::
  "snaplock \<Rightarrow> string \<Rightarrow> string \<Rightarrow> int \<Rightarrow> int \<Rightarrow> string \<Rightarrow> string \<Rightarrow> 32 word \<Rightarrow> ticket" where
  "queued_ticket s ob ek t d sn sv serial =
     (let n = get_last_ticket ob s + 1 in
      (lock_ticket s ob ek t d SNAP_UNLOCK_USES_LOCK_TIMEOUT sn sv serial)
        \<lparr>f_get_max_ticket := True, f_our_ticket := n, f_added_ticket := True,
         f_ticket_key := make_ticket_key n ek, f_added_ticket_quorum := True,
         f_still_entering := [], f_ticket_ready := True\<rparr>)"

definition queued ::
  "snaplock \<Rightarrow> string \<Rightarrow> string \<Rightarrow> int \<Rightarrow> int \<Rightarrow> string \<Rightarrow> string \<Rightarrow> 32 word \<Rightarrow> snaplock" where
  "queued s ob ek t d sn sv serial =
     s\<lparr>sl_heap := (sl_heap s)(sl_next_ticket s := queued_ticket s ob ek t d sn sv serial),
       sl_next_ticket := Suc (sl_next_ticket s), sl_ticket_serial := serial,
       sl_tickets := put2 ob (make_ticket_key (get_last_ticket ob s + 1) ek) (sl_next_ticket s)
         (sl_tickets s),
       sl_entering_tickets := om_put ob [] (sl_entering_tickets s)\<rparr>"

lemma om_put_put: "om_put k v (om_put k w m) = om_put k v m"
  by (induction k w m rule: om_put.induct) auto

lemma queue_old:
  "head_locked s \<Longrightarrow> p \<in> set (inner ob (sl_tickets s)) \<Longrightarrow> snd p \<noteq> sl_next_ticket s"
  "head_locked s \<Longrightarrow> p \<in> set (inner ob (sl_entering_tickets s)) \<Longrightarrow> snd p \<noteq> sl_next_ticket s"
  using map_ok_inner [OF good_maps(1) [OF good_refl], of s ob]
    map_ok_inner [OF good_maps(2) [OF good_refl], of s ob]
  by (auto simp: head_locked_def keys_ok_def)

lemma waiting_state_simps [simp]:
  "sl_tickets (waiting_state ob ek t d ud sn sv serial s) = sl_tickets s"
  "sl_entering_tickets (waiting_state ob ek t d ud sn sv serial s) =
     put2 ob ek (sl_next_ticket s) (sl_entering_tickets s)"
  "sl_heap (waiting_state ob ek t d ud sn sv serial s) =
     (sl_heap s)(sl_next_ticket s := lock_ticket s ob ek t d ud sn sv serial)"
  "sl_message_cache (waiting_state ob ek t d ud sn sv serial s) = sl_message_cache s"
  by (simp_all add: waiting_state_def at_door_def)

lemma get_last_ticket_waiting:
  "head_locked s \<Longrightarrow> get_last_ticket ob (waiting_state ob ek t d ud sn sv serial s) = get_last_ticket ob s"
  using queue_old(1) [of s _ ob] by (fastforce simp: get_last_ticket_def Let_def intro!: foldl_cong)

lemma queued_eq:
  assumes "head_locked s" "inner ob (sl_entering_tickets s) = []"
  shows "upd_ticket (sl_next_ticket s) ready_now (left_door ob ek (joined (sl_next_ticket s)
      (waiting_state ob ek t d SNAP_UNLOCK_USES_LOCK_TIMEOUT sn sv serial s)))
    = queued s ob ek t d sn sv serial"
  using assms get_last_ticket_waiting [OF assms(1)]
  by (intro snaplock.equality)
    (simp_all add: joined_def Let_def left_door_def queued_def queued_ticket_def ready_now_def
      upd_ticket_def inner_put2 om_erase_def put2_def om_put_put
      inner_om_put,
     simp_all add: waiting_state_def at_door_def)

lemma due_free_alloc:
  assumes h: "head_locked s" and due: "nothing_due E s"
  shows "due_free E ((sl_heap s)(sl_next_ticket s := u)) (sl_tickets s)"
    "due_free E ((sl_heap s)(sl_next_ticket s := u)) (sl_entering_tickets s)"
proof -
  have old: "due_free E (sl_heap s) (sl_tickets s)" "due_free E (sl_heap s) (sl_entering_tickets s)"
    using due by (simp_all add: nothing_due_def)
  show "due_free E ((sl_heap s)(sl_next_ticket s := u)) (sl_tickets s)"
    using old(1) by (rule due_free_heap) (auto dest: queue_old [OF h] simp: om2_ok_head_locked [OF h])
  show "due_free E ((sl_heap s)(sl_next_ticket s := u)) (sl_entering_tickets s)"
    using old(2) by (rule due_free_heap) (auto dest: queue_old [OF h] simp: om2_ok_head_locked [OF h])
qed

lemma lock_new_joins:
  assumes h: "head_locked s" and room: "room_in ob s" and due: "nothing_due E s"
    and idle: "object_idle ob ek s" and ek: "ob \<noteq> []" "ek \<noteq> []" and t: "time_now E < t"
    and m: "has_parameter m ''serial'' = Inr False" and serial: "next_serial s = Inr serial"
    and act: "activate_lock E (the (first_of (inner ob (sl_tickets s)
        @ [(make_ticket_key (get_last_ticket ob s + 1) ek, sl_next_ticket s)])))
        (queued s ob ek t d sn sv serial) = Inr s3"
    and s3: "sl_entering_tickets s3 = om_put ob [] (sl_entering_tickets s)"
      "sl_tickets s3 = sl_tickets (queued s ob ek t d sn sv serial)"
      "sl_message_cache s3 = sl_message_cache s"
      "\<forall>b. timed_out E (sl_heap s3 b) \<longrightarrow> timed_out E (sl_heap (queued s ob ek t d sn sv serial) b)"
  shows "\<exists>d'. lock_new_ticket E m ob ek t d SNAP_UNLOCK_USES_LOCK_TIMEOUT sn sv s =
    Inr (s3\<lparr>sl_entering_tickets := om_erase ob (sl_entering_tickets s), sl_timer := d'\<rparr>)"
proof -
  let ?a = "sl_next_ticket s"
  let ?W = "waiting_state ob ek t d SNAP_UNLOCK_USES_LOCK_TIMEOUT sn sv serial s"
  let ?J = "joined ?a ?W"
  let ?t = "lock_ticket s ob ek t d SNAP_UNLOCK_USES_LOCK_TIMEOUT sn sv serial"
  let ?key = "make_ticket_key (get_last_ticket ob s + 1) ek"
  have empty: "inner ob (sl_entering_tickets s) = []"
    using idle by (simp add: object_idle_def)
  have hd: "head_locked (at_door ob ek ?t s)"
    using h by (rule head_locked_at_door) simp_all
  have hW: "head_locked ?W"
    unfolding waiting_state_def using hd
    by (rule head_locked_calm)
      (use good_wf [OF good_other(3) [OF good_refl]] hd in \<open>simp_all add: shrinks_def head_locked_def\<close>)
  have al: "alone ?W" using hW by (simp add: head_locked_def)
  have memW: "(ek, ?a) \<in> set (inner ob (sl_entering_tickets ?W))"
    using empty by (simp add: inner_put2)
  have roomW: "room_in ob ?W"
    using room queue_old(1) [OF h, of _ ob] by (fastforce simp: room_in_def)
  have ent: "entering E ?a ?W = msg_lock_exiting E (exiting_message ?t) ?J"
    using alone_entering [OF al, of ?a E] by simp
  have qJ: "inner ob (sl_tickets ?J) = inner ob (sl_tickets s) @ [(?key, ?a)]"
    using joined_queue [OF hW roomW memW] get_last_ticket_waiting [OF h] by simp
  have eJ: "inner ob (sl_entering_tickets ?J) = [(ek, ?a)]"
    using empty by (simp add: joined_def Let_def inner_put2)
  have alJ: "alone ?J"
    using al by (rule alone_same_cluster [rotated]) (simp add: same_cluster_def joined_def Let_def)
  have heapJ: "sl_heap ?J b = (if b = ?a then sl_heap ?J ?a else sl_heap s b)" for b
    by (simp add: joined_def Let_def upd_ticket_def)
  have toJ: "timed_out E (sl_heap ?J b) = timed_out E (sl_heap ?W b)" for b
    by (simp add: joined_def Let_def upd_ticket_def timed_out_def get_current_timeout_def)
  have tW: "\<not> timed_out E ?t"
    using t by (simp add: timed_out_def get_current_timeout_def)
  have exi: "exiting_ticket ek ?a (sl_heap ?J ?a)"
    using empty clamp_duration_pos
    by (simp add: exiting_ticket_def joined_def Let_def upd_ticket_def inner_put2)
  have readyJ: "\<forall>p \<in> set (inner ob (sl_tickets s)). f_ticket_ready (sl_heap ?J (snd p))"
    using idle queue_old(1) [OF h, of _ ob] heapJ unfolding object_idle_def by metis
  have okJ: "om2_ok (sl_tickets ?J)" "om2_ok (sl_entering_tickets ?J)"
    using om2_ok_head_locked [OF hW]
    by (simp_all add: joined_def Let_def om2_ok_put2)
  have dueW: "due_free E (sl_heap ?W) (sl_tickets s)" "due_free E (sl_heap ?W) (sl_entering_tickets s)"
    using due_free_alloc [OF h due] by simp_all
  have dueJ: "nothing_due E ?J"
  proof -
    have a: "due_free E (sl_heap ?W) (sl_tickets ?J)"
      using due_free_put2 [OF dueW(1), of ?a ob] tW by (simp add: joined_def Let_def)
    have b: "due_free E (sl_heap ?W) (sl_entering_tickets ?J)"
      using due_free_put2 [OF dueW(2), of ?a ob ek] tW by (simp add: joined_def Let_def)
    have "due_free E (sl_heap ?J) (sl_tickets ?J)" "due_free E (sl_heap ?J) (sl_entering_tickets ?J)"
      using a b unfolding due_free_def toJ .
    then show ?thesis
      using due by (simp add: nothing_due_def) (simp add: joined_def Let_def)
  qed
  have q: "upd_ticket ?a ready_now (left_door ob ek ?J) = queued s ob ek t d sn sv serial"
    by (rule queued_eq [OF h empty])
  have toQ: "timed_out E (sl_heap (queued s ob ek t d sn sv serial) b) \<longrightarrow> timed_out E (sl_heap ?J b)" for b
    unfolding toJ using t
    by (simp add: queued_def queued_ticket_def Let_def timed_out_def get_current_timeout_def)
  have "sl_entering_tickets s3 = sl_entering_tickets (left_door ob ek ?J)"
    using empty by (simp add: s3(1) left_door_def eJ om_erase_def)
      (simp add: joined_def Let_def put2_def om_put_put)
  moreover have "sl_tickets s3 = sl_tickets ?J"
    by (simp add: s3(2) queued_def joined_def Let_def get_last_ticket_waiting [OF h])
  moreover have "sl_message_cache s3 = sl_message_cache ?J"
    by (simp add: s3(3) joined_def Let_def)
  moreover have "\<forall>b. timed_out E (sl_heap s3 b) \<longrightarrow> timed_out E (sl_heap ?J b)"
    using s3(4) toQ by blast
  ultimately have ex: "(\<exists>d. msg_lock_exiting E (exiting_message ?t) ?J =
      Inr (s3\<lparr>sl_entering_tickets := om_erase ob (sl_entering_tickets ?J), sl_timer := d\<rparr>))
    \<and> nothing_due E (s3\<lparr>sl_entering_tickets := om_erase ob (sl_entering_tickets ?J)\<rparr>)"
    using act ek
    by (intro exiting_exact [OF alJ _ _ exi qJ eJ readyJ dueJ okJ]) (simp_all add: q)
  have er: "om_erase ob (sl_entering_tickets ?J) = om_erase ob (sl_entering_tickets s)"
    by (simp add: joined_def Let_def put2_def om_erase_put)
  let ?s4 = "\<lambda>d. s3\<lparr>sl_entering_tickets := om_erase ob (sl_entering_tickets s), sl_timer := d\<rparr>"
  obtain d4 where e4: "entering E ?a ?W = Inr (?s4 d4)" and n4: "nothing_due E (?s4 d4)"
    using ex ent unfolding er by (auto simp: nothing_due_def)
  have "om2_ok (sl_tickets (?s4 d4))"
    using om2_ok_head_locked [OF h] by (simp add: s3(2) queued_def om2_ok_put2)
  moreover have "om2_ok (sl_entering_tickets (?s4 d4))"
    using om2_ok_head_locked [OF h] by (auto simp: om2_ok_def om_erase_def)
  ultimately obtain d5 where "cleanup E (?s4 d4) = Inr (?s4 d4\<lparr>sl_timer := d5\<rparr>)"
    using cleanup_quiet [OF n4] by blast
  then have "lock_new_ticket E m ob ek t d SNAP_UNLOCK_USES_LOCK_TIMEOUT sn sv s = Inr (?s4 d5)"
    unfolding lock_new_ticket_waiting by (simp add: serial m e4)
  then show ?thesis by blast
qed

section \<open>Granted, or waiting\<close>

lemma queued_simps [simp]:
  "sl_heap (queued s ob ek t d sn sv serial) =
     (sl_heap s)(sl_next_ticket s := queued_ticket s ob ek t d sn sv serial)"
  "sl_tickets (queued s ob ek t d sn sv serial) =
     put2 ob (make_ticket_key (get_last_ticket ob s + 1) ek) (sl_next_ticket s) (sl_tickets s)"
  "sl_entering_tickets (queued s ob ek t d sn sv serial) = om_put ob [] (sl_entering_tickets s)"
  "sl_message_cache (queued s ob ek t d sn sv serial) = sl_message_cache s"
  "sl_outbox (queued s ob ek t d sn sv serial) = sl_outbox s"
  "sl_server_name (queued s ob ek t d sn sv serial) = sl_server_name s"
  by (simp_all add: queued_def)

lemma queued_ticket_simps [simp]:
  "f_ticket_ready (queued_ticket s ob ek t d sn sv serial)"
  "\<not> f_locked (queued_ticket s ob ek t d sn sv serial)"
  "\<not> f_lock_failed (queued_ticket s ob ek t d sn sv serial)"
  "f_owner (queued_ticket s ob ek t d sn sv serial) = sl_server_name s"
  "f_server_name (queued_ticket s ob ek t d sn sv serial) = sn"
  "f_service_name (queued_ticket s ob ek t d sn sv serial) = sv"
  "f_object_name (queued_ticket s ob ek t d sn sv serial) = ob"
  "f_lock_duration (queued_ticket s ob ek t d sn sv serial) = clamp_duration d"
  "f_alive_timeout (queued_ticket s ob ek t d sn sv serial) = 0"
  by (simp_all add: queued_ticket_def Let_def)

lemma alone_queued: "alone s \<Longrightarrow> alone (queued s ob ek t d sn sv serial)"
  by (rule alone_same_cluster [of s]) (simp_all add: same_cluster_def queued_def)

lemma queued_inner:
  assumes h: "head_locked s" and room: "room_in ob s"
  shows "inner ob (put2 ob (make_ticket_key (get_last_ticket ob s + 1) ek) a (sl_tickets s)) =
    inner ob (sl_tickets s) @ [(make_ticket_key (get_last_ticket ob s + 1) ek, a)]"
proof -
  have "\<forall>p \<in> set (inner ob (sl_tickets s)). fst p < make_ticket_key (get_last_ticket ob s + 1) ek"
  proof
    fix p assume p: "p \<in> set (inner ob (sl_tickets s))"
    have "queue_entry ob (fst p) (sl_heap s (snd p))"
      using h p by (simp add: head_locked_def queue_ok_def)
    moreover have "f_our_ticket (sl_heap s (snd p)) < get_last_ticket ob s + 1"
      using get_last_ticket_ge [OF p] room_in_less [OF room] by (rule order.strict_trans1)
    ultimately show "fst p < make_ticket_key (get_last_ticket ob s + 1) ek"
      using make_ticket_key_less by (simp add: queue_entry_def)
  qed
  then show ?thesis by (simp add: inner_put2 om_put_append)
qed

lemma lock_request_params:
  "lock_request E m ob pid t d sn sv \<Longrightarrow> ob \<noteq> [] \<and> make_entering_key sn pid \<noteq> []"
  by (auto simp: lock_request_def get_object_name_def rbind_Inr_iff make_entering_key_def split: if_splits)

text \<open>The part of a request that is common to a free and a locked object.\<close>

lemma lock_request_start:
  assumes h: "head_locked s" and room: "room_in ob s" and due: "nothing_due E s"
    and req: "lock_request E m ob pid t d sn sv"
    and idle: "object_idle ob (make_entering_key sn pid) s"
  obtains u serial where "\<exists>d1. u = s\<lparr>sl_timer := d1\<rparr>" "head_locked u" "room_in ob u"
    "nothing_due E u" "object_idle ob (make_entering_key sn pid) u" "next_serial u = Inr serial"
    "get_last_ticket ob u = get_last_ticket ob s"
    "msg_lock E m s = lock_new_ticket E m ob (make_entering_key sn pid) t (int32 d)
       SNAP_UNLOCK_USES_LOCK_TIMEOUT sn sv u"
proof -
  obtain u d1 where u: "u = s\<lparr>sl_timer := d1\<rparr>" "head_locked u" and r: "msg_lock E m s =
      lock_new_ticket E m ob (make_entering_key sn pid) t (int32 d) SNAP_UNLOCK_USES_LOCK_TIMEOUT sn sv u"
    using lock_request_new [OF h due req idle] by blast
  have "alone u" using u(2) by (simp add: head_locked_def)
  then obtain serial where "next_serial u = Inr serial" using alone_next_serial by blast
  moreover have "room_in ob u" "nothing_due E u" "object_idle ob (make_entering_key sn pid) u"
    "get_last_ticket ob u = get_last_ticket ob s"
    using room due idle
    by (simp_all add: u(1) room_in_def nothing_due_def object_idle_def get_last_ticket_def)
  ultimately show thesis using that u r by blast
qed

lemma activate_queued:
  assumes "head_locked u" "ok_name sn" "ok_name sv"
  shows "activate_lock E (sl_next_ticket u) (queued u ob ek t d sn sv serial) =
    Inr (send_message (locked_message ob sn sv (clamp_duration d + time_now E))
      (upd_ticket (sl_next_ticket u) (lock_it E) (queued u ob ek t d sn sv serial)))"
proof -
  have "alone (queued u ob ek t d sn sv serial)"
    using assms(1) by (simp add: head_locked_def alone_queued)
  then show ?thesis
    using assms by (simp add: alone_activate_lock lock_activated_exact)
qed

lemma lock_free_object:
  assumes h: "head_locked s" and room: "room_in ob s" and due: "nothing_due E s"
    and req: "lock_request E m ob pid t d sn sv"
    and idle: "object_idle ob (make_entering_key sn pid) s"
    and free: "inner ob (sl_tickets s) = []"
  shows "returns (msg_lock E m s) (\<lambda>s'.
     inner ob (sl_tickets s') = [(make_ticket_key 1 (make_entering_key sn pid), sl_next_ticket s)]
   \<and> f_locked (sl_heap s' (sl_next_ticket s))
   \<and> f_lock_timeout (sl_heap s' (sl_next_ticket s)) = clamp_duration (int32 d) + time_now E
   \<and> sl_outbox s' = sl_outbox s @ [locked_message ob sn sv (clamp_duration (int32 d) + time_now E)])"
proof -
  let ?ek = "make_entering_key sn pid"
  obtain u serial where u: "\<exists>d1. u = s\<lparr>sl_timer := d1\<rparr>" "head_locked u" "room_in ob u"
    "nothing_due E u" "object_idle ob ?ek u" "next_serial u = Inr serial"
    "get_last_ticket ob u = get_last_ticket ob s"
    and r: "msg_lock E m s = lock_new_ticket E m ob ?ek t (int32 d) SNAP_UNLOCK_USES_LOCK_TIMEOUT sn sv u"
    using lock_request_start [OF h room due req idle] .
  have names: "ok_name sn" "ok_name sv" "time_now E < t" "has_parameter m ''serial'' = Inr False"
    using req by (simp_all add: lock_request_def)
  have su: "sl_tickets u = sl_tickets s" "sl_next_ticket u = sl_next_ticket s"
    "sl_outbox u = sl_outbox s" "sl_entering_tickets u = sl_entering_tickets s"
    using u(1) by auto
  have n: "get_last_ticket ob u = 0"
    using free u(7) by (simp add: get_last_ticket_def)
  have q: "inner ob (put2 ob (make_ticket_key 1 ?ek) a (sl_tickets s)) = [(make_ticket_key 1 ?ek, a)]" for a
    using free by (simp add: inner_put2)
  obtain d' where "msg_lock E m s = Inr
      ((send_message (locked_message ob sn sv (clamp_duration (int32 d) + time_now E))
        (upd_ticket (sl_next_ticket u) (lock_it E) (queued u ob ?ek t (int32 d) sn sv serial)))
        \<lparr>sl_entering_tickets := om_erase ob (sl_entering_tickets u), sl_timer := d'\<rparr>)"
    using lock_new_joins [OF u(2,3,4,5) _ _ names(3,4) u(6), of "int32 d" sn sv]
      activate_queued [OF u(2) names(1,2), of E ob ?ek t "int32 d" serial]
      lock_request_params [OF req] free clamp_duration_pos [of "int32 d"]
    by (fastforce simp: r su first_of_def timed_out_def get_current_timeout_def lock_it_def)
  then show ?thesis
    by (simp add: q n su lock_it_def)
qed

lemma lock_busy_object:
  assumes h: "head_locked s" and room: "room_in ob s" and due: "nothing_due E s"
    and req: "lock_request E m ob pid t d sn sv"
    and idle: "object_idle ob (make_entering_key sn pid) s"
    and busy: "inner ob (sl_tickets s) = (k, x) # rest" "f_locked (sl_heap s x)"
  shows "returns (msg_lock E m s) (\<lambda>s'.
     inner ob (sl_tickets s') = inner ob (sl_tickets s)
       @ [(make_ticket_key (get_last_ticket ob s + 1) (make_entering_key sn pid), sl_next_ticket s)]
   \<and> f_ticket_ready (sl_heap s' (sl_next_ticket s)) \<and> \<not> f_locked (sl_heap s' (sl_next_ticket s))
   \<and> (\<forall>b. b \<noteq> sl_next_ticket s \<longrightarrow> sl_heap s' b = sl_heap s b)
   \<and> sl_outbox s' = sl_outbox s)"
proof -
  let ?ek = "make_entering_key sn pid"
  obtain u serial where u: "\<exists>d1. u = s\<lparr>sl_timer := d1\<rparr>" "head_locked u" "room_in ob u"
    "nothing_due E u" "object_idle ob ?ek u" "next_serial u = Inr serial"
    "get_last_ticket ob u = get_last_ticket ob s"
    and r: "msg_lock E m s = lock_new_ticket E m ob ?ek t (int32 d) SNAP_UNLOCK_USES_LOCK_TIMEOUT sn sv u"
    using lock_request_start [OF h room due req idle] .
  have names: "time_now E < t" "has_parameter m ''serial'' = Inr False"
    using req by (simp_all add: lock_request_def)
  have su: "sl_tickets u = sl_tickets s" "sl_next_ticket u = sl_next_ticket s" "sl_heap u = sl_heap s"
    "sl_outbox u = sl_outbox s" "sl_entering_tickets u = sl_entering_tickets s"
    using u(1) by auto
  let ?q = "queued u ob ?ek t (int32 d) sn sv serial"
  have x: "x \<noteq> sl_next_ticket s"
    using queue_old(1) [OF h, of "(k, x)" ob] busy by simp
  have "alone ?q" using u(2) by (simp add: head_locked_def alone_queued)
  then have "activate_lock E x ?q = Inr ?q"
    using x busy(2) by (simp add: alone_activate_lock lock_activated_def su)
  then obtain d' where "msg_lock E m s = Inr (?q\<lparr>sl_entering_tickets := om_erase ob (sl_entering_tickets u), sl_timer := d'\<rparr>)"
    using lock_new_joins [OF u(2,3,4,5) _ _ names u(6), of "int32 d" sn sv ?q]
      lock_request_params [OF req] busy(1)
    by (auto simp: r su first_of_def)
  then show ?thesis
    using queued_inner [OF u(2,3)] by (simp add: su u(7))
qed

section \<open>Releasing the lock\<close>

definition unlock_request :: "env \<Rightarrow> message \<Rightarrow> string \<Rightarrow> int \<Rightarrow> string \<Rightarrow> bool" where
  "unlock_request E m ob pid sn \<longleftrightarrow>
     get_object_name m = Inr ob \<and> get_pid E m = Inr pid \<and> origin_server m = Inr sn"

definition unlocked_message :: "string \<Rightarrow> string \<Rightarrow> string \<Rightarrow> message" where
  "unlocked_message ob server service =
     empty_message\<lparr>m_command := ''UNLOCKED'', m_server := server, m_service := service,
       m_parameters := [(''object_name'', ob)]\<rparr>"

lemma due_free_set2:
  "due_free E h m \<Longrightarrow> \<forall>p \<in> set km. \<not> timed_out E (h (snd p)) \<Longrightarrow> due_free E h (set2 ob km m)"
  using set_om_put [of ob km m] due_free_erase [of E h m ob]
  by (fastforce simp: set2_def due_free_def)

lemma drop_ticket_exact:
  assumes "alone s" "\<not> f_lock_failed (sl_heap s a)" "ok_name (f_server_name (sl_heap s a))"
    "ok_name (f_service_name (sl_heap s a))"
  shows "drop_ticket a s = Inr (send_message
     (unlocked_message (f_object_name (sl_heap s a)) (f_server_name (sl_heap s a))
       (f_service_name (sl_heap s a)))
     (upd_ticket a (\<lambda>t. t\<lparr>f_lock_failed := True\<rparr>) s))"
  using assms
  by (simp add: drop_ticket_def Let_def build_def message_simps alone_send_to_leaders send_built_def
      unlocked_message_def empty_message_def)

lemma unlock_head:
  assumes h: "head_locked s" and due: "nothing_due E s"
    and req: "unlock_request E m ob pid sn"
    and q: "inner ob (sl_tickets s) = (k, x) # rest"
    and x: "f_entering_key (sl_heap s x) = make_entering_key sn pid" "\<not> f_lock_failed (sl_heap s x)"
      "ok_name (f_server_name (sl_heap s x))" "ok_name (f_service_name (sl_heap s x))"
  shows "returns (msg_unlock E m s) (\<lambda>s'.
     inner ob (sl_tickets s') = rest
   \<and> sl_heap s' = (sl_heap s)(x := (sl_heap s x)\<lparr>f_lock_failed := True\<rparr>)
   \<and> sl_outbox s' = sl_outbox s
       @ [unlocked_message ob (f_server_name (sl_heap s x)) (f_service_name (sl_heap s x))])"
proof -
  have al: "alone s" and "queue_ok s ob" and om: "om2_ok (sl_tickets s)" "om2_ok (sl_entering_tickets s)"
    using h om2_ok_head_locked [OF h] by (simp_all add: head_locked_def)
  then have ob: "f_object_name (sl_heap s x) = ob"
    using q by (simp add: queue_ok_def queue_entry_def)
  obtain l where l: "is_leader s [] = Inr (Some l)"
    using alone_is_leader [OF al] by blast
  have km: "map_of (sl_tickets s) ob = Some ((k, x) # rest)"
    using q by (auto simp: inner_def split: option.splits)
  have f: "find_by_entering_key (sl_heap s) (make_entering_key sn pid) ((k, x) # rest) = Some (k, x)"
    using x(1) by (simp add: find_by_entering_key_def)
  have ok: "om_ok ((k, x) # rest)"
    using om2_ok_inner [OF om(1), of ob] q by simp
  then have e: "om_erase k ((k, x) # rest) = rest"
    by (auto simp: om_erase_def filter_id_conv)
  let ?u = "unlocked_message ob (f_server_name (sl_heap s x)) (f_service_name (sl_heap s x))"
  let ?s2 = "send_message ?u (upd_ticket x (\<lambda>t. t\<lparr>f_lock_failed := True\<rparr>) s)"
  let ?s3 = "?s2\<lparr>sl_tickets := set2 ob rest (sl_tickets s)\<rparr>"
  have d: "drop_ticket x s = Inr ?s2"
    using drop_ticket_exact [OF al x(2-4)] ob by simp
  have to: "timed_out E (sl_heap ?s3 b) = timed_out E (sl_heap s b)" for b
    by (simp add: timed_out_def get_current_timeout_def)
  have "\<forall>p \<in> set rest. \<not> timed_out E (sl_heap s (snd p))"
    using due_free_inner [of E "sl_heap s" "sl_tickets s" ob] due q by (simp add: nothing_due_def)
  then have "due_free E (sl_heap s) (sl_tickets ?s3)" "due_free E (sl_heap s) (sl_entering_tickets ?s3)"
    using due by (simp_all add: nothing_due_def due_free_set2)
  then have "due_free E (sl_heap ?s3) (sl_tickets ?s3)" "due_free E (sl_heap ?s3) (sl_entering_tickets ?s3)"
    unfolding due_free_def to by simp_all
  then have "nothing_due E ?s3"
    using due by (simp add: nothing_due_def send_message_def upd_ticket_def)
  moreover have "om2_ok (sl_tickets ?s3)" "om2_ok (sl_entering_tickets ?s3)"
    using om ok by (simp_all add: om2_ok_set2)
  ultimately obtain d' where c: "cleanup E ?s3 = Inr (?s3\<lparr>sl_timer := d'\<rparr>)"
    using cleanup_quiet by blast
  have "msg_unlock E m s = Inr (?s3\<lparr>sl_timer := d'\<rparr>)"
    using req unfolding unlock_request_def msg_unlock_def
    by (simp add: alone_is_ready [OF al] l km f d e c)
  then show ?thesis by (simp add: inner_set2 fun_eq_iff)
qed

end
