(* ===== verification/LockSample.thy ===== *)
theory LockSample
  imports LockRequest
begin

text \<open>
  Concrete inputs on which the properties are exercised: a daemon on the computer \<open>a\<close>, the
  messages it receives, and the states it goes through.
\<close>

definition sample_message :: "string \<Rightarrow> (string \<times> string) list \<Rightarrow> message" where
  "sample_message command ps =
     empty_message\<lparr>m_sent_from_server := ''a'', m_sent_from_service := ''client'',
       m_command := command, m_parameters := foldl (\<lambda>m (k, v). om_put k v m) [] ps\<rparr>"

abbreviation "E0 \<equiv> std_env 1000"

definition cluster_up_message :: message where
  "cluster_up_message = sample_message ''CLUSTERUP'' [(''neighbors_count'', ''1'')]"

definition sample_lock :: "string \<Rightarrow> message" where
  "sample_lock pid = sample_message ''LOCK''
     [(''object_name'', ''o''), (''pid'', pid), (''timeout'', ''2000''), (''duration'', ''90'')]"

definition sample_unlock :: "string \<Rightarrow> message" where
  "sample_unlock pid = sample_message ''UNLOCK'' [(''object_name'', ''o''), (''pid'', pid)]"

definition sample_daemon :: snaplock where
  "sample_daemon =
     (case snaplock_init 100 7 ''10.0.0.1'' ''a'' PRIORITY_DEFAULT 500 of
        Inr s \<Rightarrow> s | Inl _ \<Rightarrow> undefined)"

definition sample_elected :: snaplock where
  "sample_elected = self_elected E0 sample_daemon"

lemma sample_init: "snaplock_init 100 7 ''10.0.0.1'' ''a'' PRIORITY_DEFAULT 500 = Inr sample_daemon"
  by (simp add: sample_daemon_def snaplock_init_def Let_def get_id_def computer_self_def computer_t_def)

lemma parse_samples:
  "to_long E0 ''1'' = Some 1" "to_long E0 ''2'' = Some 2" "to_long E0 ''2000'' = Some 2000"
  "to_long E0 ''90'' = Some 90"
  by code_simp+

lemma sample_names: "ok_name ''a''" "ok_name ''client''"
  by (simp_all add: ok_name_def verify_name_def name_char_def first_digit_def less_char_def less_eq_char_def)

lemma sample_neighbors: "get_integer_parameter E0 cluster_up_message ''neighbors_count'' = Inr 1"
  by (simp add: cluster_up_message_def sample_message_def get_integer_parameter_lit lit_simps parse_samples)

lemma sample_up: "msg_cluster_up E0 cluster_up_message sample_daemon = Inr sample_elected"
  unfolding sample_elected_def
  by (rule cluster_of_one [OF sample_init _ sample_neighbors]) simp

lemma sample_elected_ok: "head_locked sample_elected" "room sample_elected"
  using self_elected_ok [OF sample_init] by (simp_all add: sample_elected_def)

lemma sample_elected_fields:
  "sl_tickets sample_elected = []" "sl_entering_tickets sample_elected = []"
  "sl_message_cache sample_elected = []" "sl_next_ticket sample_elected = 0"
  using init_fields [OF sample_init] by (simp_all add: sample_elected_def self_elected_def)

lemma sample_lock_request:
  "lock_request E0 (sample_lock ''1'') ''o'' 1 2000 90 ''a'' ''client''"
  "lock_request E0 (sample_lock ''2'') ''o'' 2 2000 90 ''a'' ''client''"
  by (simp_all add: lock_request_def sample_lock_def sample_message_def get_object_name_def get_pid_def
      get_timeout_def origin_server_def origin_service_def proxied_def lock_unlock_duration_def
      message_simps parse_samples less_char_def int32_def timeout_defs sample_names)

lemma sample_lock_command: "m_command (sample_lock pid) = ''LOCK''"
  by (simp add: sample_lock_def sample_message_def)

text \<open>The state once the first client has the lock.\<close>

lemma sample_granted:
  "returns (msg_lock E0 (sample_lock ''1'') sample_elected) (\<lambda>s'.
     inner ''o'' (sl_tickets s') = [(make_ticket_key 1 ''a/1'', 0)]
   \<and> f_locked (sl_heap s' 0) \<and> f_lock_timeout (sl_heap s' 0) = 1090)"
proof -
  have k: "make_entering_key ''a'' 1 = ''a/1''"
    by (simp add: make_entering_key_def dec_small digit_0) code_simp
  show ?thesis
    using lock_free_object [OF sample_elected_ok(1) room_room_in [OF sample_elected_ok(2)] _
        sample_lock_request(1)]
    by (simp add: nothing_due_def due_free_def object_idle_def sample_elected_fields k int32_def
        clamp_duration_def timeout_defs returns_def split: sum.splits)
qed

lemma init_heap:
  "snaplock_init pid random ip name priority t = Inr s \<Longrightarrow> sl_heap s = (\<lambda>_. default_ticket)"
  by (auto simp: snaplock_init_def rbind_Inr_iff Let_def)

lemma sample_heap: "sl_heap sample_elected = (\<lambda>_. default_ticket)" "sl_server_name sample_elected = ''a''"
  using init_heap [OF sample_init] init_fields [OF sample_init]
  by (simp_all add: sample_elected_def self_elected_def)

text \<open>A client that holds the lock of \<open>o\<close>, and another one that waits for it.\<close>

definition sample_ticket :: "string \<Rightarrow> string \<Rightarrow> 32 word \<Rightarrow> bool \<Rightarrow> ticket" where
  "sample_ticket ek k n locked =
     default_ticket\<lparr>f_object_name := ''o'', f_obtention_timeout := 2000, f_lock_duration := 90,
       f_unlock_duration := 90, f_server_name := ''a'', f_service_name := ''client'',
       f_owner := ''a'', f_entering_key := ek, f_get_max_ticket := True, f_our_ticket := n,
       f_added_ticket := True, f_ticket_key := k, f_added_ticket_quorum := True,
       f_ticket_ready := True, f_locked := locked, f_lock_timeout := (if locked then 1090 else 0)\<rparr>"

definition sample_busy :: snaplock where
  "sample_busy = sample_elected
     \<lparr>sl_tickets := [(''o'', [(''00000001/a/1'', 0)])],
      sl_heap := (sl_heap sample_elected)(0 := sample_ticket ''a/1'' ''00000001/a/1'' 1 True),
      sl_next_ticket := 1\<rparr>"

definition sample_waiting :: snaplock where
  "sample_waiting = sample_elected
     \<lparr>sl_tickets := [(''o'', [(''00000001/a/1'', 0), (''00000002/a/2'', 1)])],
      sl_heap := (sl_heap sample_elected)(0 := sample_ticket ''a/1'' ''00000001/a/1'' 1 True,
        1 := sample_ticket ''a/2'' ''00000002/a/2'' 2 False),
      sl_next_ticket := 2\<rparr>"

lemma sample_keys:
  "make_ticket_key 1 ''a/1'' = ''00000001/a/1''" "make_ticket_key 2 ''a/2'' = ''00000002/a/2''"
  "make_entering_key ''a'' 1 = ''a/1''" "make_entering_key ''a'' 2 = ''a/2''"
  by code_simp+

lemma sample_ticket_simps [simp]:
  "f_object_name (sample_ticket ek k n l) = ''o''" "f_entering_key (sample_ticket ek k n l) = ek"
  "f_our_ticket (sample_ticket ek k n l) = n" "f_ticket_key (sample_ticket ek k n l) = k"
  "f_added_ticket (sample_ticket ek k n l)" "f_ticket_ready (sample_ticket ek k n l)"
  "f_locked (sample_ticket ek k n l) = l" "f_still_entering (sample_ticket ek k n l) = []"
  "f_lock_failed (sample_ticket ek k n l) = False" "f_server_name (sample_ticket ek k n l) = ''a''"
  "f_service_name (sample_ticket ek k n l) = ''client''"
  "timed_out E0 (sample_ticket ek k n l) = False"
  by (simp_all add: sample_ticket_def default_ticket_def timed_out_def get_current_timeout_def)

lemma sample_wf: "wf_state sample_elected" "alone sample_elected"
  using sample_elected_ok by (simp_all add: head_locked_def)

lemma sample_busy_ok:
  "head_locked sample_busy" "room sample_busy" "nothing_due E0 sample_busy"
  "inner ''o'' (sl_tickets sample_busy) = [(''00000001/a/1'', 0)]"
  "f_locked (sl_heap sample_busy 0)" "object_idle ''o'' ''a/2'' sample_busy"
  using sample_wf sample_elected_fields
  by (auto simp: head_locked_def sample_busy_def wf_defs map_ok_def om2_ok_def alone_def queue_ok_def
      door_ok_def room_def nothing_due_def due_free_def object_idle_def inner_def queue_entry_def
      sample_keys word_less_nat_alt unat_max split: list.splits)

lemma sample_waiting_ok:
  "head_locked sample_waiting" "nothing_due E0 sample_waiting"
  "inner ''o'' (sl_tickets sample_waiting) = [(''00000001/a/1'', 0), (''00000002/a/2'', 1)]"
  using sample_wf sample_elected_fields
  by (auto simp: head_locked_def sample_waiting_def wf_defs map_ok_def om2_ok_def alone_def queue_ok_def
      door_ok_def nothing_due_def due_free_def inner_def queue_entry_def
      sample_keys less_char_def less_Suc_eq split: list.splits)

lemma sample_unlock_request:
  "unlock_request E0 (sample_unlock ''1'') ''o'' 1 ''a''"
  by (simp add: unlock_request_def sample_unlock_def sample_message_def get_object_name_def get_pid_def
      origin_server_def proxied_def message_simps parse_samples less_char_def int32_def)

end
