(* ===== verification/ServiceProps.thy ===== *)
theory ServiceProps
  imports LockSample
begin

text \<open>
  The lock service a daemon alone in its cluster gives its clients: the lock of an object is
  held by at most one client, requests are served in the order of their tickets, and a
  request on a free object is granted within one event.
\<close>

section \<open>Mutual exclusion\<close>

definition locked_in :: "string \<Rightarrow> snaplock \<Rightarrow> nat" where
  "locked_in ob s =
     length (filter (\<lambda>p. f_locked (sl_heap s (snd p)))
       (inner ob (sl_tickets s) @ inner ob (sl_entering_tickets s)))"

lemma head_locked_in: "head_locked s \<Longrightarrow> locked_in ob s \<le> 1"
proof -
  assume h: "head_locked s"
  then have "queue_ok s ob" "door_ok s ob" by (simp_all add: head_locked_def)
  then have tl: "filter (\<lambda>p. f_locked (sl_heap s (snd p))) (tl (inner ob (sl_tickets s))) = []"
    and door: "filter (\<lambda>p. f_locked (sl_heap s (snd p))) (inner ob (sl_entering_tickets s)) = []"
    by (auto simp: queue_ok_def door_ok_def door_entry_def filter_empty_conv)
  show ?thesis
  proof (cases "inner ob (sl_tickets s)")
    case (Cons p q)
    then have "filter (\<lambda>p. f_locked (sl_heap s (snd p))) q = []" using tl by simp
    then show ?thesis using door by (simp add: locked_in_def Cons)
  qed (simp add: locked_in_def door)
qed

lemma locked_is_first:
  "head_locked s \<Longrightarrow> p \<in> set (inner ob (sl_tickets s)) \<Longrightarrow> f_locked (sl_heap s (snd p)) \<Longrightarrow>
   inner ob (sl_tickets s) = p # tl (inner ob (sl_tickets s))"
  using head_locked_def [of s] queue_ok_def [of s ob]
  by (cases "inner ob (sl_tickets s)") auto

text \<open>
  C1. Mutual exclusion. A daemon is started, told by CLUSTERUP that it is the only computer,
  and then receives any sequence of LOCK, UNLOCK, ABSOLUTELY, LOCKSTATUS and LISTTICKETS
  requests and timer events, at any dates: at every moment at most one ticket of an object
  is locked, and it is the first of the object's queue. (A LOCK or an ABSOLUTELY is taken to
  come while no queue holds the ticket number 2^32 - 1.)
\<close>

theorem mutual_exclusion:
  assumes "snaplock_init pid random ip name priority start_time = Inr s0" "priority \<noteq> PRIORITY_OFF"
    and "get_integer_parameter E m ''neighbors_count'' = Inr 1" "msg_cluster_up E m s0 = Inr s1"
    and "service_step\<^sup>*\<^sup>* s1 s"
  shows "locked_in ob s \<le> 1
    \<and> (\<forall>p \<in> set (inner ob (sl_tickets s)). f_locked (sl_heap s (snd p)) \<longrightarrow>
         hd (inner ob (sl_tickets s)) = p)"
proof -
  have "s1 = self_elected E s0"
    using cluster_of_one [OF assms(1-3)] assms(4) by simp
  then have "head_locked s1"
    using self_elected_ok [OF assms(1)] by simp
  then have h: "head_locked s"
    using service.inv_reachable assms(5) by blast
  then show ?thesis
    using head_locked_in locked_is_first by (metis list.sel(1))
qed

theorem mutual_exclusion_witness:
  "\<exists>s. service_step\<^sup>*\<^sup>* sample_elected s \<and> f_locked (sl_heap s 0)
     \<and> inner ''o'' (sl_tickets s) = [(make_ticket_key 1 ''a/1'', 0)] \<and> locked_in ''o'' s = 1"
proof -
  obtain s where r: "msg_lock E0 (sample_lock ''1'') sample_elected = Inr s"
    and q: "inner ''o'' (sl_tickets s) = [(make_ticket_key 1 ''a/1'', 0)]" "f_locked (sl_heap s 0)"
    using sample_granted by (auto simp: returns_iff)
  have st: "service_step\<^sup>*\<^sup>* sample_elected s"
    using service_step.lock [OF sample_lock_command sample_elected_ok(2) r] by blast
  have "locked_in ''o'' s \<le> 1"
    using mutual_exclusion [OF sample_init _ sample_neighbors sample_up st, of "''o''"] by simp
  moreover have "locked_in ''o'' s \<ge> 1"
    using q by (simp add: locked_in_def)
  ultimately show ?thesis using st q by auto
qed

section \<open>First come, first served\<close>

lemma fifo_queue: "fst (fifo_of s) ob = map snd (inner ob (sl_tickets s))"
  by (simp add: fifo_of_def)

lemma queue_joined: "head_locked s \<Longrightarrow> set (fst (fifo_of s) ob) \<subseteq> snd (fifo_of s)"
proof -
  assume h: "head_locked s"
  then have "queue_ok s ob" and w: "wf_state s" by (simp_all add: head_locked_def)
  then show ?thesis
    using map_ok_inner [OF good_maps(1) [OF good_refl [OF w]], of ob]
    by (fastforce simp: fifo_of_def queue_ok_def queue_entry_def keys_ok_def)
qed

text \<open>
  C2. The lock service is a first-in first-out service. Every run of a daemon alone in its
  cluster (any requests and timer events, from any state of the invariant of mutual exclusion)
  is, seen through the queues of tickets, a run of the abstract service, where a ticket joins a
  queue once, at its end, and leaves from anywhere. So the tickets of a queue that are still
  there later are in the same order, and those that came since are behind them: no client
  overtakes another one.
\<close>

theorem first_come_first_served:
  assumes "head_locked s" "service_step\<^sup>*\<^sup>* s s'"
  shows "fifo_step\<^sup>*\<^sup>* (fifo_of s) (fifo_of s')
    \<and> (\<exists>l r. map snd (inner ob (sl_tickets s')) = l @ r
        \<and> subseq l (map snd (inner ob (sl_tickets s)))
        \<and> set r \<inter> set (map snd (inner ob (sl_tickets s))) = {})"
proof -
  have f: "fifo_step\<^sup>*\<^sup>* (fifo_of s) (fifo_of s')"
    using service.abs_reachable assms(2,1) .
  then obtain l r where "fst (fifo_of s') ob = l @ r" "subseq l (fst (fifo_of s) ob)"
      "set r \<inter> snd (fifo_of s) = {}"
    using fifo_keeps_order [OF f, of ob] by blast
  moreover from this have "set r \<inter> set (fst (fifo_of s) ob) = {}"
    using queue_joined [OF assms(1), of ob] by blast
  ultimately show ?thesis using f unfolding fifo_queue by blast
qed

lemma sample_waits:
  "returns (msg_lock E0 (sample_lock ''2'') sample_busy) (\<lambda>s'.
     inner ''o'' (sl_tickets s') = [(''00000001/a/1'', 0), (''00000002/a/2'', 1)])"
proof -
  have last: "get_last_ticket ''o'' sample_busy + 1 = 2" "sl_next_ticket sample_busy = 1"
    using sample_busy_ok(4) by (simp_all add: get_last_ticket_def sample_busy_def)
  show ?thesis
    using lock_busy_object [OF sample_busy_ok(1) room_room_in [OF sample_busy_ok(2)] sample_busy_ok(3)
        sample_lock_request(2) _ sample_busy_ok(4,5)] sample_busy_ok(4,6)
    unfolding sample_keys last by (auto simp: returns_iff)
qed

theorem first_come_first_served_witness:
  "\<exists>s'. service_step\<^sup>*\<^sup>* sample_busy s' \<and> map snd (inner ''o'' (sl_tickets s')) = [0, 1]
     \<and> fifo_step\<^sup>*\<^sup>* (fifo_of sample_busy) (fifo_of s')"
proof -
  obtain s' where r: "msg_lock E0 (sample_lock ''2'') sample_busy = Inr s'"
    and i: "inner ''o'' (sl_tickets s') = [(''00000001/a/1'', 0), (''00000002/a/2'', 1)]"
    using sample_waits by (auto simp: returns_iff)
  have q: "map snd (inner ''o'' (sl_tickets s')) = [0, 1]"
    by (simp add: i)
  have st: "service_step\<^sup>*\<^sup>* sample_busy s'"
    by (rule r_into_rtranclp, rule service_step.lock) (fact sample_lock_command sample_busy_ok(2) r)+
  from first_come_first_served [OF sample_busy_ok(1) st]
  have "fifo_step\<^sup>*\<^sup>* (fifo_of sample_busy) (fifo_of s')" ..
  with st q show ?thesis by (intro exI conjI)
qed

section \<open>Granting, waiting, releasing\<close>

text \<open>
  C3. A LOCK on a free object is granted at once. When nothing has timed out and the object
  has no ticket, a well-formed LOCK returns (no exception), the queue of the object is the
  new ticket, numbered 1, the ticket is locked for the duration asked for, clamped to
  between a minute and a week, and exactly one message is sent: LOCKED, to the service that
  asked, with the date at which the lock times out.
\<close>

theorem lock_granted:
  assumes "head_locked s" "room_in ob s" "nothing_due E s"
    and "lock_request E m ob pid t d sn sv" "object_idle ob (make_entering_key sn pid) s"
    and "inner ob (sl_tickets s) = []"
  shows "returns (msg_lock E m s) (\<lambda>s'.
     inner ob (sl_tickets s') = [(make_ticket_key 1 (make_entering_key sn pid), sl_next_ticket s)]
   \<and> f_locked (sl_heap s' (sl_next_ticket s))
   \<and> f_lock_timeout (sl_heap s' (sl_next_ticket s)) = clamp_duration (int32 d) + time_now E
   \<and> sl_outbox s' = sl_outbox s @ [locked_message ob sn sv (clamp_duration (int32 d) + time_now E)])"
  using assms by (rule lock_free_object)

theorem lock_granted_witness:
  "returns (msg_lock E0 (sample_lock ''1'') sample_elected) (\<lambda>s'.
     inner ''o'' (sl_tickets s') = [(''00000001/a/1'', 0)] \<and> f_locked (sl_heap s' 0)
   \<and> f_lock_timeout (sl_heap s' 0) = 1090
   \<and> sl_outbox s' = sl_outbox sample_elected @ [locked_message ''o'' ''a'' ''client'' 1090])"
  using lock_granted [OF sample_elected_ok(1) room_room_in [OF sample_elected_ok(2)] _
      sample_lock_request(1)]
  by (simp add: nothing_due_def due_free_def object_idle_def sample_elected_fields sample_keys int32_def
      clamp_duration_def timeout_defs)

text \<open>
  First come, first served. When the object is locked, a well-formed LOCK of another
  client returns; its ticket goes to the end of the queue, ready and not locked; the other
  tickets, among them the locked one, are not touched and nothing is sent.
\<close>

theorem lock_waits:
  assumes "head_locked s" "room_in ob s" "nothing_due E s"
    and "lock_request E m ob pid t d sn sv" "object_idle ob (make_entering_key sn pid) s"
    and "inner ob (sl_tickets s) = (k, x) # rest" "f_locked (sl_heap s x)"
  shows "returns (msg_lock E m s) (\<lambda>s'.
     inner ob (sl_tickets s') = inner ob (sl_tickets s)
       @ [(make_ticket_key (get_last_ticket ob s + 1) (make_entering_key sn pid), sl_next_ticket s)]
   \<and> f_ticket_ready (sl_heap s' (sl_next_ticket s)) \<and> \<not> f_locked (sl_heap s' (sl_next_ticket s))
   \<and> (\<forall>b. b \<noteq> sl_next_ticket s \<longrightarrow> sl_heap s' b = sl_heap s b)
   \<and> sl_outbox s' = sl_outbox s)"
  using assms by (rule lock_busy_object)

theorem lock_waits_witness:
  "returns (msg_lock E0 (sample_lock ''2'') sample_busy) (\<lambda>s'.
     inner ''o'' (sl_tickets s') = [(''00000001/a/1'', 0), (''00000002/a/2'', 1)]
   \<and> \<not> f_locked (sl_heap s' 1) \<and> sl_outbox s' = sl_outbox sample_busy)"
proof -
  have last: "get_last_ticket ''o'' sample_busy + 1 = 2" "sl_next_ticket sample_busy = 1"
    using sample_busy_ok(4) by (simp_all add: get_last_ticket_def sample_busy_def)
  show ?thesis
    using lock_waits [OF sample_busy_ok(1) room_room_in [OF sample_busy_ok(2)] sample_busy_ok(3)
        sample_lock_request(2) _ sample_busy_ok(4,5)] sample_busy_ok(4,6)
    unfolding sample_keys last by (auto simp: returns_iff)
qed

text \<open>
  C4. What UNLOCK does. When nothing has timed out, the UNLOCK of the client that is at the
  head of the queue returns, takes exactly its ticket out of the queue and sends exactly one
  message, UNLOCKED to that client. No other ticket changes: the next ticket of the queue is
  not locked by this operation, nor is its client told anything.
\<close>

theorem unlock_releases:
  assumes "head_locked s" "nothing_due E s" "unlock_request E m ob pid sn"
    and "inner ob (sl_tickets s) = (k, x) # rest"
    and "f_entering_key (sl_heap s x) = make_entering_key sn pid" "\<not> f_lock_failed (sl_heap s x)"
    and "ok_name (f_server_name (sl_heap s x))" "ok_name (f_service_name (sl_heap s x))"
  shows "returns (msg_unlock E m s) (\<lambda>s'.
     inner ob (sl_tickets s') = rest
   \<and> sl_heap s' = (sl_heap s)(x := (sl_heap s x)\<lparr>f_lock_failed := True\<rparr>)
   \<and> sl_outbox s' = sl_outbox s
       @ [unlocked_message ob (f_server_name (sl_heap s x)) (f_service_name (sl_heap s x))])"
  using assms by (rule unlock_head)

theorem unlock_releases_witness:
  "returns (msg_unlock E0 (sample_unlock ''1'') sample_waiting) (\<lambda>s'.
     inner ''o'' (sl_tickets s') = [(''00000002/a/2'', 1)] \<and> \<not> f_locked (sl_heap s' 1)
   \<and> sl_outbox s' = sl_outbox sample_waiting @ [unlocked_message ''o'' ''a'' ''client''])"
proof -
  have h: "sl_heap sample_waiting 0 = sample_ticket ''a/1'' ''00000001/a/1'' 1 True"
    "sl_heap sample_waiting (Suc 0) = sample_ticket ''a/2'' ''00000002/a/2'' 2 False"
    by (simp_all add: sample_waiting_def)
  show ?thesis
    using unlock_releases [OF sample_waiting_ok(1,2) sample_unlock_request sample_waiting_ok(3)]
    by (auto simp: h sample_keys sample_names returns_iff)
qed

end
