(* ===== verification/DaemonProps.thy ===== *)
theory DaemonProps
  imports LockSample
begin

text \<open>
  The daemon as a whole: what holds after any sequence of events, whatever messages come
  from whomever, and what the dispatcher does with a message.
\<close>

section \<open>Runs\<close>

text \<open>
  An event is a message or the timer; each comes with its own environment (date, random
  byte, ...). A run ends when a handler throws: the program does not catch it.
\<close>

datatype event = Message message | Timer

fun daemon_run :: "(int \<Rightarrow> string) \<Rightarrow> (env \<times> event) list \<Rightarrow> snaplock \<Rightarrow> snaplock res" where
  "daemon_run date [] s = Inr s"
| "daemon_run date ((E, e) # es) s =
     rbind (case e of Message m \<Rightarrow> receive date E m s | Timer \<Rightarrow> cleanup E s) (daemon_run date es)"

fun_cases daemon_run_ConsE: "daemon_run date (p # es) s = r"

lemma receive_step:
  assumes "receive date E m s = Inr s'" "wf_state s"
  shows "wf_state s' \<and> evolves s s'"
proof -
  obtain b m' where "dispatch (snaplock_table date E) m s = Inr (b, m', s')"
    using assms(1) by (auto simp: receive_def rbind_Inr_iff)
  with assms(2) show ?thesis by (rule daemon.dispatch_step)
qed

lemma cleanup_step: "cleanup E s = Inr s' \<Longrightarrow> wf_state s \<Longrightarrow> wf_state s' \<and> evolves s s'"
  using good_cleanup [OF _ good_refl, of E s s'] by (simp add: good_def)

lemma daemon_run_step:
  "daemon_run date es s = Inr s' \<Longrightarrow> wf_state s \<Longrightarrow> wf_state s' \<and> evolves s s'"
proof (induction es arbitrary: s)
  case (Cons p es)
  obtain E e where p: "p = (E, e)" by (cases p)
  then obtain s1 where s1: "(case e of Message m \<Rightarrow> receive date E m s | Timer \<Rightarrow> cleanup E s) = Inr s1"
    and r: "daemon_run date es s1 = Inr s'"
    using Cons.prems(1) by (auto simp: rbind_Inr_iff)
  have "wf_state s1 \<and> evolves s s1"
    using s1 Cons.prems(2) receive_step cleanup_step by (cases e) auto
  then show ?case using Cons.IH [OF r] evolves_trans by blast
qed simp

section \<open>The table\<close>

lemma execute_one_to_one:
  "execute (one_to_one e h) m s =
     (if e = m_command m then rbind (h m s) (\<lambda>(m', s'). Inr (True, m', s')) else Inr (False, m, s))"
  by (simp add: execute_def one_to_one_def run_match_def expr_text_def)

lemma dispatch_table:
  "map_of l (m_command m) = Some h \<Longrightarrow>
   dispatch (map (entry E) l @ ds) m s = rbind (h E m s) (\<lambda>s'. Inr (True, m, s'))"
  by (induction l) (auto simp: entry_def execute_one_to_one rbind_assoc)

lemma dispatch_not_table:
  "m_command m \<notin> fst ` set l \<Longrightarrow> dispatch (map (entry E) l @ ds) m s = dispatch ds m s"
  by (induction l) (auto simp: entry_def execute_one_to_one)

lemma receive_command:
  "map_of (g_snaplock_service_messages date) (m_command m) = Some h \<Longrightarrow> receive date E m s = h E m s"
  by (simp add: receive_def snaplock_table_def add_snap_communicator_commands_def dispatch_table
      rbind_assoc) (simp add: rbind_def split: sum.splits)

lemma sample_receive_up:
  "receive date E0 cluster_up_message sample_daemon = Inr sample_elected"
  using receive_command [of date cluster_up_message msg_cluster_up E0 sample_daemon] sample_up
  by (simp add: g_snaplock_service_messages_def cluster_up_message_def sample_message_def)

text \<open>
  C5. Well-formedness. Whatever messages a daemon receives after its constructor, in any
  order, with any parameters and at any dates, if no handler throws the maps of its state
  are sorted by name and key, every ticket and computer they mention exists, there are at
  most three leaders, only LOCK messages are cached, the status it announced is LOCKREADY or
  NOLOCK, its name and identifier have not changed, and no message it sent is taken back.
\<close>

theorem daemon_keeps_invariant:
  assumes "snaplock_init pid random ip name priority start_time = Inr s0"
    and "daemon_run date es s0 = Inr s"
  shows "wf_state s \<and> same_daemon s0 s \<and> length (sl_leaders s) \<le> 3
    \<and> (\<forall>ob. om_ok (inner ob (sl_tickets s)) \<and> om_ok (inner ob (sl_entering_tickets s)))"
proof -
  have w: "wf_state s" "evolves s0 s"
    using daemon_run_step [OF assms(2) init_wf [OF assms(1)]] by simp_all
  then have "om2_ok (sl_tickets s)" "om2_ok (sl_entering_tickets s)"
    by (simp_all add: wf_defs map_ok_def)
  then show ?thesis
    using w by (simp add: evolves_def wf_defs om2_ok_inner)
qed

theorem daemon_keeps_invariant_witness:
  "daemon_run (\<lambda>_. []) [(E0, Message cluster_up_message)] sample_daemon = Inr sample_elected
   \<and> wf_state sample_elected \<and> length (sl_leaders sample_elected) \<le> 3"
  using daemon_keeps_invariant [OF sample_init, of "\<lambda>_. []" "[(E0, Message cluster_up_message)]" sample_elected]
  by (simp add: sample_receive_up)

text \<open>
  No lock out of nothing. After any run from the constructor, the daemon has sent at most
  one LOCKED for each ticket whose lock was activated, and at most one UNLOCKED for each
  ticket that failed or was dropped; and no ticket pays twice.
\<close>

theorem locked_messages_paid:
  assumes "snaplock_init pid random ip name priority start_time = Inr s0"
    and "daemon_run date es s0 = Inr s"
  shows "sent_count ''LOCKED'' s \<le> flag_count f_locked s
    \<and> sent_count ''UNLOCKED'' s \<le> flag_count f_lock_failed s
    \<and> flag_count f_locked s \<le> sl_next_ticket s"
  using daemon_run_step [OF assms(2) init_wf [OF assms(1)]] init_counts [OF assms(1)]
    length_filter_le [of "\<lambda>a. f_locked (sl_heap s a)" "[0..<sl_next_ticket s]"]
  by (simp add: evolves_def paid_def) (simp add: flag_count_def)

theorem locked_messages_paid_witness:
  "daemon_run (\<lambda>_. []) [(E0, Message cluster_up_message)] sample_daemon = Inr sample_elected
   \<and> sent_count ''LOCKED'' sample_elected = 0"
  using locked_messages_paid [OF sample_init, of "\<lambda>_. []" "[(E0, Message cluster_up_message)]" sample_elected]
  by (simp add: sample_receive_up sample_elected_fields)

section \<open>The life of a ticket\<close>

text \<open>The stages of the bakery, in their order; \<open>Failed\<close> is final.\<close>

datatype phase = Created | Asked_number | Added | Accepted | Ready | Locked | Failed

fun phase_rank :: "phase \<Rightarrow> nat" where
  "phase_rank Created = 0"
| "phase_rank Asked_number = 1"
| "phase_rank Added = 2"
| "phase_rank Accepted = 3"
| "phase_rank Ready = 4"
| "phase_rank Locked = 5"
| "phase_rank Failed = 6"

lemma phase_rank_inj: "phase_rank p = phase_rank q \<Longrightarrow> p = q"
  by (cases p; cases q) simp_all

instantiation phase :: linorder
begin

definition less_eq_phase :: "phase \<Rightarrow> phase \<Rightarrow> bool" where
  "less_eq_phase p q \<longleftrightarrow> phase_rank p \<le> phase_rank q"

definition less_phase :: "phase \<Rightarrow> phase \<Rightarrow> bool" where
  "less_phase p q \<longleftrightarrow> phase_rank p < phase_rank q"

instance
  by standard (auto simp: less_eq_phase_def less_phase_def dest: phase_rank_inj)

end

definition phase_of :: "ticket \<Rightarrow> phase" where
  "phase_of t =
     (if f_lock_failed t then Failed
      else if f_locked t then Locked
      else if f_ticket_ready t then Ready
      else if f_added_ticket_quorum t then Accepted
      else if f_added_ticket t then Added
      else if f_get_max_ticket t then Asked_number
      else Created)"

lemma flags_le_phase: "flags_le t u \<Longrightarrow> phase_of t \<le> phase_of u"
  by (simp add: flags_le_def phase_of_def less_eq_phase_def)

text \<open>
  A ticket only moves forward: whatever events the daemon handles, the stage a ticket has
  reached (created, number asked for, added, accepted by the leaders, ready, locked, failed)
  never goes back; in particular a ticket that failed or was dropped never becomes locked
  again.
\<close>

theorem phases_advance:
  assumes "wf_state s" "daemon_run date es s = Inr s'" "a < sl_next_ticket s"
  shows "phase_of (sl_heap s a) \<le> phase_of (sl_heap s' a)"
  using daemon_run_step [OF assms(2,1)] assms(3) by (auto simp: evolves_def intro: flags_le_phase)

theorem phases_advance_witness:
  "\<exists>s'. daemon_run (\<lambda>_. []) [(E0, Timer)] sample_waiting = Inr s' \<and> Ready \<le> phase_of (sl_heap s' 1)"
proof -
  have w: "wf_state sample_waiting" using sample_waiting_ok(1) by (simp add: head_locked_def)
  obtain d where c: "cleanup E0 sample_waiting = Inr (sample_waiting\<lparr>sl_timer := d\<rparr>)"
    using cleanup_quiet [OF sample_waiting_ok(2)] om2_ok_head_locked [OF sample_waiting_ok(1)] by blast
  then have r: "daemon_run (\<lambda>_. []) [(E0, Timer)] sample_waiting = Inr (sample_waiting\<lparr>sl_timer := d\<rparr>)"
    by simp
  have "phase_of (sl_heap sample_waiting 1) = Ready"
    by (simp add: sample_waiting_def phase_of_def)
  then have "Ready \<le> phase_of (sl_heap (sample_waiting\<lparr>sl_timer := d\<rparr>) 1)"
    using phases_advance [OF w r, of 1] by (simp add: sample_waiting_def)
  with r show ?thesis by blast
qed

text \<open>
  Dispatching. A message whose command is in the daemon's table runs exactly the handler
  of that command, once; its result is the result of the event.
\<close>

theorem receive_runs_handler:
  assumes "(m_command m, h) \<in> set (g_snaplock_service_messages date)"
  shows "receive date E m s = h E m s"
proof (rule receive_command)
  have "distinct (map fst (g_snaplock_service_messages date))"
    by (simp add: g_snaplock_service_messages_def)
  then show "map_of (g_snaplock_service_messages date) (m_command m) = Some h"
    using assms by (rule map_of_is_SomeI)
qed

theorem receive_runs_handler_witness:
  "receive (\<lambda>_. []) E0 cluster_up_message sample_daemon
     = msg_cluster_up E0 cluster_up_message sample_daemon"
  by (rule receive_runs_handler)
    (simp add: g_snaplock_service_messages_def cluster_up_message_def sample_message_def)

text \<open>
  A command the daemon does not know (not in its table, not a default command) changes
  nothing and is answered by UNKNOWN, sent to where it came from, with the command as
  parameter.
\<close>

definition unknown_message :: "message \<Rightarrow> message" where
  "unknown_message m =
     empty_message\<lparr>m_command := ''UNKNOWN'', m_server := m_sent_from_server m,
       m_service := m_sent_from_service m, m_parameters := [(''command'', m_command m)]\<rparr>"

theorem unknown_command_answered:
  assumes "m_command m \<notin> set (snaplock_commands date)" "ok_sender m"
  shows "receive date E m s = Inr (send_message (unknown_message m) s)"
proof -
  have "m_command m \<notin> fst ` set (g_snaplock_service_messages date)"
    and d: "m_command m \<notin> {''HELP'', ''ALIVE'', ''LOG'', ''QUITTING'', ''READY'', ''STOP'', ''UNKNOWN''}"
    using assms(1) by (auto simp: snaplock_commands_def)
  moreover have "unknown_reply m = Inr (unknown_message m)"
    using assms(2) by (simp add: unknown_reply_def build_def message_simps unknown_message_def empty_message_def)
  ultimately show ?thesis
    by (auto simp: receive_def snaplock_table_def add_snap_communicator_commands_def dispatch_not_table
        execute_one_to_one execute_def [of "\<lparr>f_expr = None, f_execute = h, f_match = Always_match\<rparr>" for h]
        run_match_def snaplock_connection_def send_reply_def send_built_def)
qed

theorem unknown_command_answered_witness:
  "receive (\<lambda>_. []) E0 (sample_message ''LOCKS'' []) sample_daemon
     = Inr (send_message (unknown_message (sample_message ''LOCKS'' [])) sample_daemon)"
  by (rule unknown_command_answered)
    (simp_all add: sample_message_def snaplock_commands_def g_snaplock_service_messages_def ok_sender_def
      sample_names)

end
