(* ===== verification/BakeryProps.thy ===== *)
theory BakeryProps
  imports LockSample
begin

text \<open>
  The bakery's tickets: their keys and numbers, how leaders exchange them, when a ticket
  is ready, and the durations a ticket may have.
\<close>

section \<open>Keys and numbers\<close>

text \<open>
  C6. The order of the queue. The keys of two tickets compare as their numbers do, and, when
  the numbers are equal, as their entering keys do: Lamport's order, computed by comparing
  two strings.
\<close>

theorem ticket_key_order:
  "make_ticket_key n e < make_ticket_key n' e' \<longleftrightarrow> n < n' \<or> (n = n' \<and> e < e')"
proof (cases "n = n'")
  case True
  then show ?thesis by (simp add: make_ticket_key_def append_less_append)
next
  case False
  then show ?thesis
    using make_ticket_key_less [of n n' e e'] make_ticket_key_less [of n' n e' e]
    by (metis linorder_neqE not_less_iff_gr_or_eq)
qed

lemma split_ticket_key:
  assumes "CHR ''/'' \<notin> set sn"
  shows "split_on CHR ''/'' (make_ticket_key n (make_entering_key sn pid)) = [hex_pad 8 (unat n), sn, dec pid]"
  using assms hex_pad_no_separator [of 8 "unat n"] dec_no_separator [of pid]
  by (simp add: make_ticket_key_def make_entering_key_def split_on_append split_on_none)

text \<open>
  Leaders agree on a ticket. An ADDTICKET whose key another leader made from the number
  \<open>n\<close> and the entering key of a ticket at the door gives that ticket the same number and the
  same key here, puts it in the queue under that key, and is answered by TICKETADDED.
\<close>

definition ticket_added_message :: "message \<Rightarrow> string \<Rightarrow> string \<Rightarrow> message" where
  "ticket_added_message m ob key =
     empty_message\<lparr>m_command := ''TICKETADDED'', m_server := m_sent_from_server m,
       m_service := m_sent_from_service m, m_parameters := [(''key'', key), (''object_name'', ob)]\<rparr>"

theorem add_ticket_agrees:
  assumes "numbers_ok E" "ok_sender m" "get_object_name m = Inr ob" "get_timeout E m = Inr timeout"
    and "get_key m = Inr (make_ticket_key n (make_entering_key sn pid))" "CHR ''/'' \<notin> set sn"
    and "look2 (sl_entering_tickets s) ob (make_entering_key sn pid) = Some a"
    and "f_entering_key (sl_heap s a) = make_entering_key sn pid"
    and "f_our_ticket (sl_heap s a) = 0" "\<not> f_added_ticket (sl_heap s a)"
  shows "msg_add_ticket E m s =
    (let key = make_ticket_key n (make_entering_key sn pid) in
     Inr (send_message (ticket_added_message m ob key)
       (upd_ticket a (\<lambda>t. t\<lparr>f_added_ticket := True, f_our_ticket := n, f_ticket_key := key\<rparr>)
         (set_ticket ob key a s))))"
proof -
  have n: "unat n < 2 ^ 32"
    using unsigned_less [of n, where 'a = nat] by simp
  obtain ekm where "map_of (sl_entering_tickets s) ob = Some ekm"
    using assms(7) by (auto simp: look2_def inner_def split: option.splits)
  moreover have "word_of_int (int (unat n)) = n" by simp
  moreover have "make_entering_key sn pid = sn @ CHR ''/'' # dec pid"
    by (simp add: make_entering_key_def)
  ultimately show ?thesis
    using assms split_ticket_key [OF assms(6), of n pid] numbers_okD(5) [OF assms(1) n]
    by (simp add: msg_add_ticket_def Let_def set_ticket_number_def set_ticket_def upd_ticket_def
        send_built_def build_def message_simps ticket_added_message_def empty_message_def less_char_def)
qed

text \<open>A ticket of another leader at the door.\<close>

definition sample_door :: snaplock where
  "sample_door = sample_elected
     \<lparr>sl_entering_tickets := [(''o'', [(''b/3'', 0)])],
      sl_heap := (sl_heap sample_elected)
        (0 := default_ticket\<lparr>f_object_name := ''o'', f_entering_key := ''b/3''\<rparr>),
      sl_next_ticket := 1\<rparr>"

definition sample_add :: message where
  "sample_add = sample_message ''ADDTICKET'' [(''object_name'', ''o''), (''key'', ''00000005/b/3'')]"

theorem add_ticket_agrees_witness:
  "returns (msg_add_ticket E0 sample_add sample_door) (\<lambda>s'.
     inner ''o'' (sl_tickets s') = [(''00000005/b/3'', 0)] \<and> f_our_ticket (sl_heap s' 0) = 5)"
proof -
  have k: "make_entering_key ''b'' 3 = ''b/3''" "make_ticket_key 5 ''b/3'' = ''00000005/b/3''"
    by code_simp+
  have p: "get_object_name sample_add = Inr ''o''" "get_timeout E0 sample_add = Inr 1005"
    "get_key sample_add = Inr ''00000005/b/3''" "ok_sender sample_add"
    by (simp_all add: sample_add_def sample_message_def get_object_name_def get_timeout_def get_key_def
        message_simps less_char_def timeout_defs ok_sender_def sample_names)
  show ?thesis
    using add_ticket_agrees [of E0 sample_add "''o''" 1005 5 "''b''" 3 sample_door 0]
    by (simp add: p k sample_door_def look2_def inner_def default_ticket_def set_ticket_def put2_def
        sample_elected_fields Let_def)
qed

text \<open>
  The next number. Where the largest number seen fits, MAXTICKET gives the ticket a number
  larger than the one it was told and than the one this leader knew, by exactly one; the
  ticket is then added under that number. At 2^32 - 1 the number wraps to 0, the value that
  means no ticket.
\<close>

theorem max_ticket_number:
  assumes "\<not> f_added_ticket (sl_heap s a)" "0 \<le> n" "n < 2 ^ 32"
  shows "\<exists>w. max_ticket E a n s = add_ticket E a (upd_ticket a (\<lambda>t. t\<lparr>f_our_ticket := w\<rparr>) s)
    \<and> uint w = (max n (uint (f_our_ticket (sl_heap s a))) + 1) mod 2 ^ 32"
proof -
  let ?c = "f_our_ticket (sl_heap s a)"
  let ?w = "(if n > uint ?c then word_of_int n else ?c) + 1"
  have "upd_ticket a (\<lambda>t. t\<lparr>f_our_ticket :=
              (if n > uint (f_our_ticket t) then word_of_int n else f_our_ticket t) + 1\<rparr>) s
      = upd_ticket a (\<lambda>t. t\<lparr>f_our_ticket := ?w\<rparr>) s"
    by (simp add: upd_ticket_def)
  moreover have "uint ?w = (max n (uint ?c) + 1) mod 2 ^ 32"
    using assms(2,3) by (simp add: uint_word_ariths uint_word_of_int)
  ultimately show ?thesis
    using assms(1) by (auto simp: max_ticket_def)
qed

theorem max_ticket_number_witness:
  "\<exists>w. max_ticket E0 0 4294967295 sample_door =
       add_ticket E0 0 (upd_ticket 0 (\<lambda>t. t\<lparr>f_our_ticket := w\<rparr>) sample_door) \<and> uint w = 0"
  using max_ticket_number [of sample_door 0 4294967295 E0]
  by (simp add: sample_door_def default_ticket_def)

text \<open>
  A ticket is added once. An ADDTICKET for a ticket at the door that already has a
  number, or was already added, throws \<open>std::logic_error\<close>, which ends the daemon.
\<close>

theorem second_add_ticket_throws:
  assumes "numbers_ok E" "get_object_name m = Inr ob" "get_timeout E m = Inr timeout"
    and "get_key m = Inr (make_ticket_key n (make_entering_key sn pid))" "CHR ''/'' \<notin> set sn"
    and "look2 (sl_entering_tickets s) ob (make_entering_key sn pid) = Some a"
    and "f_our_ticket (sl_heap s a) \<noteq> 0 \<or> f_added_ticket (sl_heap s a)"
  shows "msg_add_ticket E m s = Inl Logic_error"
proof -
  have n: "unat n < 2 ^ 32"
    using unsigned_less [of n, where 'a = nat] by simp
  obtain ekm where "map_of (sl_entering_tickets s) ob = Some ekm"
    using assms(6) by (auto simp: look2_def inner_def split: option.splits)
  moreover have "make_entering_key sn pid = sn @ CHR ''/'' # dec pid"
    by (simp add: make_entering_key_def)
  ultimately show ?thesis
    using assms split_ticket_key [OF assms(5), of n pid] numbers_okD(5) [OF assms(1) n]
    by (auto simp: msg_add_ticket_def Let_def set_ticket_number_def set_ticket_def)
qed

theorem second_add_ticket_throws_witness:
  "msg_add_ticket E0 sample_add
     (sample_door\<lparr>sl_heap := (sl_heap sample_door)
        (0 := (sl_heap sample_door 0)\<lparr>f_our_ticket := 5, f_added_ticket := True\<rparr>)\<rparr>) = Inl Logic_error"
proof -
  have k: "make_entering_key ''b'' 3 = ''b/3''" "make_ticket_key 5 ''b/3'' = ''00000005/b/3''"
    by code_simp+
  show ?thesis
    by (rule second_add_ticket_throws [of E0 sample_add "''o''" 1005 5 "''b''" 3 _ 0])
      (simp_all add: k sample_door_def look2_def inner_def sample_add_def sample_message_def
        get_object_name_def get_timeout_def get_key_def message_simps less_char_def timeout_defs)
qed

section \<open>Leaving the door\<close>

text \<open>
  When a ticket is ready. LOCKEXITING of an entering key a ticket waits for takes that
  key, and every entering ticket that timed out, out of the set it waits for; the ticket
  becomes ready exactly when no other live ticket is left in the set, and no other ticket is
  changed.
\<close>

theorem ready_when_door_empty:
  assumes "remove_entering E a key s = Inr s'"
    and "f_added_ticket_quorum (sl_heap s a)" "\<not> f_ticket_ready (sl_heap s a)"
    and "map_of (f_still_entering (sl_heap s a)) key \<noteq> None"
  shows "f_still_entering (sl_heap s' a) =
      filter (\<lambda>(k, b). k \<noteq> key \<and> \<not> timed_out E (sl_heap s b)) (f_still_entering (sl_heap s a))
    \<and> (f_ticket_ready (sl_heap s' a) \<longleftrightarrow>
       (\<forall>(k, b) \<in> set (f_still_entering (sl_heap s a)). k = key \<or> timed_out E (sl_heap s b)))
    \<and> (\<forall>b. b \<noteq> a \<longrightarrow> sl_heap s' b = sl_heap s b)"
proof -
  let ?left = "filter (\<lambda>(k, b). \<not> timed_out E (sl_heap s b)) (om_erase key (f_still_entering (sl_heap s a)))"
  let ?f = "\<lambda>t. t\<lparr>f_still_entering := ?left\<rparr>"
  have left: "?left = filter (\<lambda>(k, b). k \<noteq> key \<and> \<not> timed_out E (sl_heap s b)) (f_still_entering (sl_heap s a))"
    by (auto simp: om_erase_def case_prod_unfold intro!: filter_cong)
  have empty: "?left = [] \<longleftrightarrow>
      (\<forall>(k, b) \<in> set (f_still_entering (sl_heap s a)). k = key \<or> timed_out E (sl_heap s b))"
    by (auto simp: left filter_empty_conv)
  have h: "sl_heap s' = sl_heap u" if "send_message_to_leaders a m u = Inr (x, y, s')" for m u x y
    using calm_send_to_leaders [OF that] by simp
  show ?thesis
  proof (cases "?left = []")
    case True
    then obtain m x y where "send_message_to_leaders a m (upd_ticket a (\<lambda>t. t\<lparr>f_ticket_ready := True\<rparr>)
        (upd_ticket a ?f s)) = Inr (x, y, s')"
      using assms by (auto simp: remove_entering_def Let_def rbind_Inr_iff)
    from h [OF this] show ?thesis
      unfolding empty [symmetric] left [symmetric] using True by simp
  next
    case False
    then have "s' = upd_ticket a ?f s"
      using assms by (auto simp: remove_entering_def Let_def)
    then show ?thesis
      unfolding empty [symmetric] left [symmetric] using False assms(3) by simp
  qed
qed

definition sample_leaving :: snaplock where
  "sample_leaving = sample_elected\<lparr>sl_heap := (\<lambda>_. default_ticket)
     (0 := default_ticket\<lparr>f_added_ticket_quorum := True, f_still_entering := [(''b/3'', 0)]\<rparr>)\<rparr>"

theorem ready_when_door_empty_witness:
  "remove_entering E0 0 ''b/3'' sample_leaving = Inr (upd_ticket 0 ready_now sample_leaving)
   \<and> f_ticket_ready (sl_heap (upd_ticket 0 ready_now sample_leaving) 0)"
proof -
  have r: "remove_entering E0 0 ''b/3'' sample_leaving = Inr (upd_ticket 0 ready_now sample_leaving)"
    using alone_heap [OF sample_wf(2)]
    by (intro remove_entering_exact) (simp_all add: sample_leaving_def default_ticket_def)
  show ?thesis
    using ready_when_door_empty [OF r] r by (simp add: sample_leaving_def default_ticket_def)
qed

end
