(* ===== verification/TimeoutProps.thy ===== *)
theory TimeoutProps
  imports LockSample
begin

text \<open>
  What \<open>cleanup\<close> achieves: after it nothing that timed out is left, in the queues, at the doors
  and in the cache of messages; and what \<open>find_first_lock\<close> returns.
\<close>

section \<open>Timeouts only move to the future\<close>

text \<open>
  Locking and failing a ticket only move its timeout to the future, as long as the durations
  of tickets that are ready or locked are positive: the constructor ensures it, a LOCKTICKETS
  message of another leader might not.
\<close>

definition durations_ok :: "snaplock \<Rightarrow> bool" where
  "durations_ok s \<longleftrightarrow>
     (\<forall>a. f_ticket_ready (sl_heap s a) \<or> f_locked (sl_heap s a) \<longrightarrow>
        0 < f_lock_duration (sl_heap s a) \<and> 0 \<le> f_unlock_duration (sl_heap s a))"

definition later :: "env \<Rightarrow> snaplock \<Rightarrow> snaplock \<Rightarrow> bool" where
  "later E s s' \<longleftrightarrow>
     (\<forall>a. f_lock_duration (sl_heap s' a) = f_lock_duration (sl_heap s a)
        \<and> f_unlock_duration (sl_heap s' a) = f_unlock_duration (sl_heap s a)
        \<and> (f_ticket_ready (sl_heap s' a) \<or> f_locked (sl_heap s' a) \<longrightarrow>
             f_ticket_ready (sl_heap s a) \<or> f_locked (sl_heap s a))
        \<and> (timed_out E (sl_heap s' a) \<longrightarrow> timed_out E (sl_heap s a)))"

lemma later_refl [simp]: "later E s s"
  by (simp add: later_def)

lemma later_trans: "later E s s1 \<Longrightarrow> later E s1 s2 \<Longrightarrow> later E s s2"
  unfolding later_def by metis

lemma later_heap: "sl_heap s' = sl_heap s \<Longrightarrow> later E s s'"
  by (simp add: later_def)

lemma later_durations: "later E s s' \<Longrightarrow> durations_ok s \<Longrightarrow> durations_ok s'"
  unfolding later_def durations_ok_def by metis

lemma later_one:
  "sl_heap s' = (sl_heap s)(a := u) \<Longrightarrow> f_lock_duration u = f_lock_duration (sl_heap s a) \<Longrightarrow>
   f_unlock_duration u = f_unlock_duration (sl_heap s a) \<Longrightarrow>
   (f_ticket_ready u \<or> f_locked u \<Longrightarrow> f_ticket_ready (sl_heap s a) \<or> f_locked (sl_heap s a)) \<Longrightarrow>
   (timed_out E u \<Longrightarrow> timed_out E (sl_heap s a)) \<Longrightarrow> later E s s'"
  by (simp add: later_def)

definition fail_ticket :: "ticket \<Rightarrow> ticket" where
  "fail_ticket t = t\<lparr>f_lock_failed := True, f_lock_timeout :=
     (if f_locked t then f_lock_timeout t + f_unlock_duration t else f_lock_timeout t)\<rparr>"

lemma lock_failed_heap:
  assumes "lock_failed a s = Inr s'"
  shows "sl_heap s' = (sl_heap s)(a := if f_lock_failed (sl_heap s a) then sl_heap s a
    else fail_ticket (sl_heap s a))"
proof (cases "f_lock_failed (sl_heap s a)")
  case True
  then show ?thesis using assms by (simp add: lock_failed_def)
next
  case False
  then show ?thesis
    using assms
    by (cases "f_locked (sl_heap s a)")
      (auto simp: lock_failed_def Let_def send_built_Inr upd_ticket_def fail_ticket_def split: if_splits)
qed

lemma lock_failed_later:
  assumes "lock_failed a s = Inr s'" "durations_ok s"
  shows "later E s s'"
proof (rule later_one [OF lock_failed_heap [OF assms(1)]])
  have "f_locked (sl_heap s a) \<Longrightarrow> 0 \<le> f_unlock_duration (sl_heap s a)"
    using assms(2) by (simp add: durations_ok_def)
  then have "timed_out E (fail_ticket (sl_heap s a)) \<Longrightarrow> timed_out E (sl_heap s a)"
    by (auto simp: timed_out_def get_current_timeout_def fail_ticket_def split: if_splits)
  then show "timed_out E (if f_lock_failed (sl_heap s a) then sl_heap s a else fail_ticket (sl_heap s a))
      \<Longrightarrow> timed_out E (sl_heap s a)"
    by (simp split: if_splits)
qed (simp_all add: fail_ticket_def split: if_splits)

lemma lock_activated_later:
  assumes "lock_activated E a s = Inr s'" "durations_ok s"
  shows "later E s s'"
proof (cases "f_ticket_ready (sl_heap s a) \<and> \<not> f_locked (sl_heap s a) \<and> \<not> f_lock_failed (sl_heap s a)")
  case True
  then have "sl_heap s' = (sl_heap s)(a := lock_it E (sl_heap s a))"
    using assms(1)
    by (auto simp: lock_activated_def Let_def send_built_Inr upd_ticket_def lock_it_def split: if_splits)
  moreover have "timed_out E (lock_it E (sl_heap s a)) \<Longrightarrow> timed_out E (sl_heap s a)"
  proof -
    assume t: "timed_out E (lock_it E (sl_heap s a))"
    have "0 < f_lock_duration (sl_heap s a)" using assms(2) True by (simp add: durations_ok_def)
    then show ?thesis using t
      by (simp add: timed_out_def get_current_timeout_def lock_it_def split: if_splits)
  qed
  ultimately show ?thesis
    using later_one [of s' s a "lock_it E (sl_heap s a)" E] True by (simp add: lock_it_def)
next
  case False
  then have "s' = s" using assms(1) by (auto simp: lock_activated_def Let_def)
  then show ?thesis by simp
qed

lemma activate_lock_later:
  assumes r: "activate_lock E a s = Inr s'" and d: "durations_ok s"
  shows "later E s s'"
proof -
  have "sl_heap s' = sl_heap s \<or> (\<exists>u. sl_heap u = sl_heap s \<and> lock_activated E a u = Inr s')"
    using r by (auto simp: activate_lock_def Let_def rbind_Inr_iff split: if_splits
        dest!: calm_send_to_leaders)
  then consider "sl_heap s' = sl_heap s" | u where "sl_heap u = sl_heap s" "lock_activated E a u = Inr s'"
    by blast
  then show ?thesis
  proof cases
    case 2
    have "durations_ok u" using d 2(1) by (simp add: durations_ok_def)
    then have "later E u s'" using lock_activated_later 2(2) by blast
    then show ?thesis using later_trans later_heap [OF 2(1)] by blast
  qed (rule later_heap)
qed

lemma find_first_loop_live:
  "find_first_loop E km first s = Inr (km', f, s') \<Longrightarrow> durations_ok s \<Longrightarrow>
   later E s s' \<and> (\<forall>p \<in> set km'. \<not> timed_out E (sl_heap s' (snd p)))"
proof (induction km arbitrary: first s km')
  case (Cons p km)
  obtain k a where p: "p = (k, a)" by (cases p)
  have keep: "later E u s' \<and> (\<forall>p \<in> set km'. \<not> timed_out E (sl_heap s' (snd p)))"
    if live: "\<not> timed_out E (sl_heap u a)" and d: "durations_ok u"
      and r: "rbind (find_first_loop E km x u) (\<lambda>(km, f, s'). Inr ((k, a) # km, f, s')) = Inr (km', f, s')"
    for u x
  proof -
    obtain km1 where km1: "find_first_loop E km x u = Inr (km1, f, s')" "km' = (k, a) # km1"
      using r by (auto simp: rbind_Inr_iff)
    from Cons.IH [OF km1(1) d] live km1(2) show ?thesis by (auto simp: later_def)
  qed
  show ?case
  proof (cases "timed_out E (sl_heap s a)")
    case True
    then obtain s1 where s1: "lock_failed a s = Inr s1"
      and r: "(if timed_out E (sl_heap s1 a) then find_first_loop E km first s1
        else rbind (find_first_loop E km (case first of None \<Rightarrow> Some a | Some _ \<Rightarrow> first) s1)
          (\<lambda>(km, f, s'). Inr ((k, a) # km, f, s'))) = Inr (km', f, s')"
      using Cons.prems(1) by (auto simp: p rbind_Inr_iff Let_def)
    have l: "later E s s1" by (rule lock_failed_later [OF s1 Cons.prems(2)])
    have d: "durations_ok s1" using l Cons.prems(2) by (rule later_durations)
    show ?thesis
      using r Cons.IH [of first s1 km', OF _ d] keep [OF _ d] later_trans [OF l]
      by (auto split: if_splits)
  next
    case False
    then show ?thesis
      using Cons.prems keep [OF False Cons.prems(2)] by (auto simp: p Let_def)
  qed
qed simp

lemma cleanup_keys_live:
  "cleanup_keys E km n s = Inr (km', b, n', s') \<Longrightarrow> durations_ok s \<Longrightarrow>
   later E s s' \<and> (\<forall>p \<in> set km'. \<not> timed_out E (sl_heap s' (snd p)))"
proof (induction km arbitrary: n s km' b)
  case (Cons p km)
  obtain k a where p: "p = (k, a)" by (cases p)
  have keep: "later E u s' \<and> (\<forall>p \<in> set km'. \<not> timed_out E (sl_heap s' (snd p)))"
    if live: "\<not> timed_out E (sl_heap u a)" and d: "durations_ok u"
      and r: "rbind (cleanup_keys E km x u) (\<lambda>(km, try, n, s'). Inr ((k, a) # km, try, n, s'))
        = Inr (km', b, n', s')" for u x
  proof -
    obtain km1 where km1: "cleanup_keys E km x u = Inr (km1, b, n', s')" "km' = (k, a) # km1"
      using r by (auto simp: rbind_Inr_iff)
    from Cons.IH [OF km1(1) d] live km1(2) show ?thesis by (auto simp: later_def)
  qed
  show ?case
  proof (cases "timed_out E (sl_heap s a)")
    case True
    then obtain s1 where s1: "lock_failed a s = Inr s1"
      and r: "(timed_out E (sl_heap s1 a) \<and> (\<exists>b1. cleanup_keys E km n s1 = Inr (km', b1, n', s')))
        \<or> (\<not> timed_out E (sl_heap s1 a) \<and> (\<exists>x. rbind (cleanup_keys E km x s1)
          (\<lambda>(km, try, n, s'). Inr ((k, a) # km, try, n, s')) = Inr (km', b, n', s')))"
      using Cons.prems(1) by (auto simp: p rbind_Inr_iff Let_def split: if_splits)
    have l: "later E s s1" by (rule lock_failed_later [OF s1 Cons.prems(2)])
    have d: "durations_ok s1" using l Cons.prems(2) by (rule later_durations)
    show ?thesis
      using r Cons.IH [of n s1 km', OF _ d] keep [OF _ d] later_trans [OF l] by blast
  next
    case False
    then show ?thesis
      using Cons.prems keep [OF False Cons.prems(2)] by (auto simp: p Let_def)
  qed
qed simp

section \<open>Objects without timed out tickets\<close>

definition live_in :: "env \<Rightarrow> (nat \<Rightarrow> ticket) \<Rightarrow> object_map \<Rightarrow> string \<Rightarrow> bool" where
  "live_in E h m ob \<longleftrightarrow>
     (case map_of m ob of None \<Rightarrow> True
      | Some km \<Rightarrow> km \<noteq> [] \<and> (\<forall>p \<in> set km. \<not> timed_out E (h (snd p))))"

lemma live_in_later:
  "live_in E (sl_heap s) m ob \<Longrightarrow> later E s s' \<Longrightarrow> map_of m' ob = map_of m ob \<Longrightarrow>
   live_in E (sl_heap s') m' ob"
  by (auto simp: live_in_def later_def split: option.splits)

lemma live_in_set2:
  "\<forall>p \<in> set km. \<not> timed_out E (h (snd p)) \<Longrightarrow> live_in E h (set2 ob km m) ob"
  by (simp add: live_in_def set2_def map_of_om_put map_of_om_erase)

lemma map_of_set2_other: "ob' \<noteq> ob \<Longrightarrow> map_of (set2 ob km m) ob' = map_of m ob'"
  by (simp add: set2_def map_of_om_put map_of_om_erase)

lemma live_in_due_free:
  assumes "om_ok m" "\<And>ob. live_in E h m ob"
  shows "due_free E h m"
  unfolding due_free_def
proof
  fix q assume q: "q \<in> set m"
  then have "map_of m (fst q) = Some (snd q)"
    using map_of_iff_mem [OF assms(1), of "fst q" "snd q"] by simp
  then show "case q of (_, km) \<Rightarrow> km \<noteq> [] \<and> (\<forall>(_, a) \<in> set km. \<not> timed_out E (h a))"
    using assms(2) [of "fst q"] by (fastforce simp: live_in_def)
qed

text \<open>What a step on the object \<open>ob\<close> may do.\<close>

definition tidy :: "env \<Rightarrow> string \<Rightarrow> snaplock \<Rightarrow> snaplock \<Rightarrow> bool" where
  "tidy E ob s s' \<longleftrightarrow>
     later E s s' \<and> live_in E (sl_heap s') (sl_tickets s') ob
   \<and> (\<forall>ob'. ob' \<noteq> ob \<longrightarrow> map_of (sl_tickets s') ob' = map_of (sl_tickets s) ob')
   \<and> sl_entering_tickets s' = sl_entering_tickets s \<and> sl_message_cache s' = sl_message_cache s"

lemma tidy_step:
  "tidy E ob s s1 \<Longrightarrow> later E s1 s' \<Longrightarrow> sl_tickets s' = sl_tickets s1 \<Longrightarrow>
   sl_entering_tickets s' = sl_entering_tickets s1 \<Longrightarrow> sl_message_cache s' = sl_message_cache s1 \<Longrightarrow>
   tidy E ob s s'"
  unfolding tidy_def using live_in_later later_trans by (metis (no_types))

lemma same_cache_lock_failed: "lock_failed a s = Inr s' \<Longrightarrow> sl_message_cache s' = sl_message_cache s"
  by (auto simp: lock_failed_def Let_def send_built_Inr split: if_splits)

lemma find_first_loop_cache:
  "find_first_loop E km first s = Inr (km', f, s') \<Longrightarrow> sl_message_cache s' = sl_message_cache s"
proof (induction km arbitrary: first s km')
  case (Cons p km)
  then show ?case
    by (cases p) (auto simp: Let_def rbind_Inr_iff dest!: same_cache_lock_failed split: if_splits)
qed simp

lemma cleanup_keys_cache:
  "cleanup_keys E km n s = Inr (km', b, n', s') \<Longrightarrow> sl_message_cache s' = sl_message_cache s"
proof (induction km arbitrary: n s km' b)
  case (Cons p km)
  then show ?case
    by (cases p) (auto simp: Let_def rbind_Inr_iff dest!: same_cache_lock_failed split: if_splits)
qed simp

lemma find_first_lock_tidy:
  assumes r: "find_first_lock E ob s = Inr (f, s')" and d: "durations_ok s"
  shows "tidy E ob s s'"
proof (cases "map_of (sl_tickets s) ob")
  case None
  then show ?thesis using r by (simp add: find_first_lock_def tidy_def live_in_def)
next
  case (Some km)
  then obtain km' s1 where l: "find_first_loop E km None s = Inr (km', f, s1)"
    and s': "s' = s1\<lparr>sl_tickets := set2 ob km' (sl_tickets s1)\<rparr>"
    using r by (auto simp: find_first_lock_def rbind_Inr_iff)
  have live: "later E s s1" "\<forall>p \<in> set km'. \<not> timed_out E (sl_heap s1 (snd p))"
    using find_first_loop_live [OF l d] by simp_all
  moreover have "sl_tickets s1 = sl_tickets s" "sl_entering_tickets s1 = sl_entering_tickets s"
    using find_first_loop_queue [OF l] by (simp_all add: same_maps_def)
  moreover have "later E s1 s'" by (rule later_heap) (simp add: s')
  ultimately show ?thesis
    using find_first_loop_cache [OF l] later_trans [of E s s1 s']
    by (simp add: tidy_def s' live_in_set2 map_of_set2_other)
qed

lemma lock_activated_maps:
  "lock_activated E a s = Inr s' \<Longrightarrow> same_maps s s' \<and> sl_message_cache s' = sl_message_cache s"
  by (auto simp: lock_activated_def Let_def send_built_Inr same_maps_def split: if_splits)

lemma activate_lock_maps:
  assumes "activate_lock E a s = Inr s'"
  shows "same_maps s s' \<and> sl_message_cache s' = sl_message_cache s"
proof (cases "s' = s")
  case False
  then obtain m m' b u where u: "send_message_to_leaders a m s = Inr (m', b, u)"
    and r: "(if \<not> b then lock_activated E a u else Inr u) = Inr s'"
    using assms by (auto simp: activate_lock_def Let_def rbind_Inr_iff split: if_splits)
  have "same_maps s u \<and> sl_message_cache u = sl_message_cache s"
    using send_message_to_leaders_Inr [OF u] by (auto simp: same_maps_def)
  then show ?thesis
    using r lock_activated_maps [of E a u s'] by (auto simp: same_maps_def split: if_splits)
qed (simp add: same_maps_def)

lemma activate_first_lock_tidy:
  assumes r: "activate_first_lock E ob s = Inr s'" and d: "durations_ok s"
  shows "tidy E ob s s'"
proof -
  obtain f s1 where f: "find_first_lock E ob s = Inr (f, s1)"
    and a: "(case f of None \<Rightarrow> Inr s1 | Some a \<Rightarrow> activate_lock E a s1) = Inr s'"
    using r by (auto simp: activate_first_lock_def rbind_Inr_iff)
  have t: "tidy E ob s s1" by (rule find_first_lock_tidy [OF f d])
  then have "durations_ok s1" using d by (auto simp: tidy_def intro: later_durations)
  note d1 = this
  show ?thesis
  proof (cases f)
    case (Some x)
    then have x: "activate_lock E x s1 = Inr s'" using a by simp
    show ?thesis
      using tidy_step [OF t activate_lock_later [OF x d1]] activate_lock_maps [OF x]
      by (simp add: same_maps_def)
  qed (use a t in simp)
qed

lemma tidy_trans: "tidy E ob s s1 \<Longrightarrow> tidy E ob s1 s' \<Longrightarrow> tidy E ob s s'"
  unfolding tidy_def by (simp add: later_trans [of E s s1 s'])

section \<open>Cleanup\<close>

lemma cleanup_tickets_live:
  "cleanup_tickets E obs n s = Inr (n', s') \<Longrightarrow> durations_ok s \<Longrightarrow>
   (\<And>ob. ob \<notin> set obs \<Longrightarrow> live_in E (sl_heap s) (sl_tickets s) ob) \<Longrightarrow>
   later E s s' \<and> (\<forall>ob. live_in E (sl_heap s') (sl_tickets s') ob)
   \<and> sl_message_cache s' = sl_message_cache s"
proof (induction obs arbitrary: n s)
  case (Cons ob obs)
  obtain km b n1 s1 s3 where k: "cleanup_keys E (inner ob (sl_tickets s)) n s = Inr (km, b, n1, s1)"
    and a: "(if km \<noteq> [] \<and> b then activate_first_lock E ob
        (s1\<lparr>sl_tickets := set2 ob km (sl_tickets s1)\<rparr>)
        else Inr (s1\<lparr>sl_tickets := set2 ob km (sl_tickets s1)\<rparr>)) = Inr s3"
    and r: "cleanup_tickets E obs n1 s3 = Inr (n', s')"
    using Cons.prems(1) by (auto simp: rbind_Inr_iff Let_def)
  let ?s2 = "s1\<lparr>sl_tickets := set2 ob km (sl_tickets s1)\<rparr>"
  have k1: "later E s s1" "\<forall>p \<in> set km. \<not> timed_out E (sl_heap s1 (snd p))"
    using cleanup_keys_live [OF k Cons.prems(2)] by simp_all
  have "sl_tickets s1 = sl_tickets s" "sl_entering_tickets s1 = sl_entering_tickets s"
    using cleanup_keys_queue [OF k] by (simp_all add: same_maps_def)
  moreover have "later E s ?s2" using k1(1) by (rule later_trans) (simp add: later_heap)
  ultimately have t2: "tidy E ob s ?s2"
    using k1(2) cleanup_keys_cache [OF k] by (simp add: tidy_def live_in_set2 map_of_set2_other)
  then have d2: "durations_ok ?s2" using Cons.prems(2) by (auto simp: tidy_def intro: later_durations)
  have t3: "tidy E ob s s3"
  proof (cases "km \<noteq> [] \<and> b")
    case True
    then have "tidy E ob ?s2 s3" using a activate_first_lock_tidy [OF _ d2] by simp
    then show ?thesis by (rule tidy_trans [OF t2])
  next
    case False
    then show ?thesis using a t2 by auto
  qed
  then have "durations_ok s3" using Cons.prems(2) by (auto simp: tidy_def intro: later_durations)
  moreover have "live_in E (sl_heap s3) (sl_tickets s3) ob'" if "ob' \<notin> set obs" for ob'
    using t3 that Cons.prems(3) [of ob'] live_in_later [of E s "sl_tickets s" ob' s3 "sl_tickets s3"]
    by (cases "ob' = ob") (simp_all add: tidy_def)
  ultimately show ?case
    using Cons.IH [OF r] t3 later_trans [of E s s3 s'] by (simp add: tidy_def)
qed auto

lemma cleanup_entering_live:
  "cleanup_entering E obs n s = Inr (n', s') \<Longrightarrow> durations_ok s \<Longrightarrow>
   (\<And>ob. ob \<notin> set obs \<Longrightarrow> live_in E (sl_heap s) (sl_entering_tickets s) ob) \<Longrightarrow>
   later E s s' \<and> (\<forall>ob. live_in E (sl_heap s') (sl_entering_tickets s') ob)
   \<and> sl_message_cache s' = sl_message_cache s \<and> sl_tickets s' = sl_tickets s"
proof (induction obs arbitrary: n s)
  case (Cons ob obs)
  obtain km b n1 s1 where k: "cleanup_keys E (inner ob (sl_entering_tickets s)) n s = Inr (km, b, n1, s1)"
    and r: "cleanup_entering E obs n1
        (s1\<lparr>sl_entering_tickets := set2 ob km (sl_entering_tickets s1)\<rparr>) = Inr (n', s')"
    using Cons.prems(1) by (auto simp: rbind_Inr_iff)
  let ?s2 = "s1\<lparr>sl_entering_tickets := set2 ob km (sl_entering_tickets s1)\<rparr>"
  have k1: "later E s s1" "\<forall>p \<in> set km. \<not> timed_out E (sl_heap s1 (snd p))"
    using cleanup_keys_live [OF k Cons.prems(2)] by simp_all
  have m: "sl_tickets s1 = sl_tickets s" "sl_entering_tickets s1 = sl_entering_tickets s"
    using cleanup_keys_queue [OF k] by (simp_all add: same_maps_def)
  have l2: "later E s ?s2" using k1(1) by (rule later_trans) (simp add: later_heap)
  then have "durations_ok ?s2" using Cons.prems(2) by (rule later_durations)
  moreover have "live_in E (sl_heap ?s2) (sl_entering_tickets ?s2) ob'" if "ob' \<notin> set obs" for ob'
    using that k1(2) Cons.prems(3) [of ob'] m(2)
      live_in_later [OF _ l2, of "sl_entering_tickets s" ob' "sl_entering_tickets ?s2"]
    by (cases "ob' = ob") (simp_all add: live_in_set2 map_of_set2_other)
  ultimately show ?case
    using Cons.IH [OF r] l2 later_trans [of E s ?s2 s'] m(1) cleanup_keys_cache [OF k] by simp
qed auto

lemma cleanup_cache_live:
  "cleanup_cache E c n s = Inr (c', n', s') \<Longrightarrow>
   (\<forall>p \<in> set c'. time_now E < fst p) \<and> sl_heap s' = sl_heap s"
proof (induction c arbitrary: n s c' n')
  case (Cons p c)
  obtain t m where p: "p = (t, m)" by (cases p)
  show ?case
  proof (cases "t \<le> time_now E")
    case True
    then obtain x where "cleanup_cache E c n (send_message x s) = Inr (c', n', s')"
      using Cons.prems by (auto simp: p rbind_Inr_iff send_built_Inr)
    from Cons.IH [OF this] show ?thesis by simp
  next
    case False
    then show ?thesis
      using Cons.prems Cons.IH [of "if t < n then t else n" s] by (fastforce simp: p rbind_Inr_iff)
  qed
qed simp

lemma cleanup_step_wf: "cleanup E s = Inr s' \<Longrightarrow> wf_state s \<Longrightarrow> wf_state s'"
  using good_cleanup [OF _ good_refl, of E s s'] by (simp add: good_def)

lemma cleanup_live:
  assumes r: "cleanup E s = Inr s'" and w: "wf_state s" and d: "durations_ok s" and now: "0 \<le> time_now E"
  shows "nothing_due E s'"
proof -
  obtain c n1 s1 n2 s3 n3 s4 where c: "cleanup_cache E (sl_message_cache s) TIME_MAX s = Inr (c, n1, s1)"
    and t: "cleanup_tickets E (map fst (sl_tickets s1)) n1 (s1\<lparr>sl_message_cache := c\<rparr>) = Inr (n2, s3)"
    and e: "cleanup_entering E (map fst (sl_entering_tickets s3)) n2 s3 = Inr (n3, s4)"
    and f: "set_timeout_date (if n3 \<noteq> TIME_MAX then (n3 + 1) * 1000000 else -1) s4 = Inr s'"
    using r by (auto simp: cleanup_def rbind_Inr_iff Let_def split: if_splits)
  let ?s2 = "s1\<lparr>sl_message_cache := c\<rparr>"
  have c1: "\<forall>p \<in> set c. time_now E < fst p" "durations_ok ?s2"
    using cleanup_cache_live [OF c] d by (simp_all add: durations_ok_def)
  have none: "live_in E h m ob" if "ob \<notin> set (map fst m)" for h ob and m :: object_map
  proof -
    have "map_of m ob = None" using that by (auto simp: map_of_eq_None_iff)
    then show ?thesis by (simp add: live_in_def)
  qed
  have t1: "later E ?s2 s3" "\<And>ob. live_in E (sl_heap s3) (sl_tickets s3) ob" "sl_message_cache s3 = c"
    using cleanup_tickets_live [OF t c1(2)] none [of _ "sl_tickets ?s2"] by simp_all
  have d3: "durations_ok s3" using t1(1) c1(2) by (rule later_durations)
  have e1: "later E s3 s4" "\<And>ob. live_in E (sl_heap s4) (sl_entering_tickets s4) ob"
    "sl_message_cache s4 = c" "sl_tickets s4 = sl_tickets s3"
    using cleanup_entering_live [OF e d3] none [of _ "sl_entering_tickets s3"] t1(3) by simp_all
  have t4: "live_in E (sl_heap s4) (sl_tickets s4) ob" for ob
    using t1(2) e1(1) by (rule live_in_later) (simp add: e1(4))
  have s': "sl_heap s' = sl_heap s4" "sl_tickets s' = sl_tickets s4"
    "sl_entering_tickets s' = sl_entering_tickets s4" "sl_message_cache s' = sl_message_cache s4"
    using f by (auto simp: set_timeout_date_def split: if_splits)
  have "wf_state s'" using cleanup_step_wf [OF r w] .
  then have "om_ok (sl_tickets s')" "om_ok (sl_entering_tickets s')"
    by (simp_all add: wf_defs map_ok_def om2_ok_def)
  then show ?thesis
    using live_in_due_free [of _ E "sl_heap s'"] t4 e1(2,3) c1(1) now
    by (simp add: nothing_due_def s')
qed

section \<open>The properties\<close>

lemma om_ok_subseq: "subseq xs ys \<Longrightarrow> om_ok ys \<Longrightarrow> om_ok xs"
  by (induction xs ys rule: list_emb.induct) (auto dest: subseq_set)

text \<open>
  C7. The timer's work. After \<open>cleanup\<close> returned, no request of the cache, no ticket of a
  queue and no ticket at a door has reached its timeout, and no object is left with an empty
  map: a client that died cannot keep an object locked past its lock's timeout.
\<close>

theorem cleanup_removes_due:
  assumes "cleanup E s = Inr s'" "wf_state s" "durations_ok s" "0 \<le> time_now E"
  shows "(\<forall>(ob, km) \<in> set (sl_tickets s') \<union> set (sl_entering_tickets s').
      km \<noteq> [] \<and> (\<forall>(k, a) \<in> set km. \<not> timed_out E (sl_heap s' a)))
    \<and> (\<forall>(t, m) \<in> set (sl_message_cache s'). time_now E < t)"
  using cleanup_live [OF assms] by (fastforce simp: nothing_due_def due_free_def)

lemma sample_busy_durations: "durations_ok sample_busy"
  by (simp add: durations_ok_def sample_busy_def sample_heap sample_ticket_def default_ticket_def)

lemma sample_busy_expires:
  "returns (cleanup (std_env 5000) sample_busy) (\<lambda>s'. sl_tickets s' = []
     \<and> m_command (last (sl_outbox s')) = ''UNLOCKED'')"
  by (simp add: cleanup_def sample_busy_def sample_elected_fields Let_def TIME_MAX_def inner_def
      lock_failed_def timed_out_def get_current_timeout_def sample_ticket_def default_ticket_def
      build_def message_simps sample_names send_built_def set2_def om_erase_def set_timeout_date_def
      sample_heap)

theorem cleanup_removes_due_witness:
  "returns (cleanup (std_env 5000) sample_busy) (\<lambda>s'. sl_tickets s' = []
     \<and> (\<forall>(t, m) \<in> set (sl_message_cache s'). 5000 < t))"
proof -
  have w: "wf_state sample_busy" using sample_busy_ok(1) by (simp add: head_locked_def)
  show ?thesis
    using sample_busy_expires cleanup_removes_due [OF _ w sample_busy_durations, of "std_env 5000"]
    by (fastforce simp: returns_iff)
qed

text \<open>
  The first lock. What \<open>find_first_lock\<close> returns is the ticket with the smallest key
  among those of the object that did not time out; the timed out ones are out of the map,
  which is otherwise the same.
\<close>

theorem first_lock_is_smallest_live:
  assumes "find_first_lock E ob s = Inr (f, s')" "durations_ok s" "om2_ok (sl_tickets s)"
    and "look2 (sl_tickets s') ob k = Some a"
  shows "\<exists>k0 a0. f = Some a0 \<and> look2 (sl_tickets s') ob k0 = Some a0 \<and> k0 \<le> k
    \<and> \<not> timed_out E (sl_heap s' a0) \<and> look2 (sl_tickets s) ob k = Some a"
proof -
  have q: "shrinks s s'" "f = first_of (inner ob (sl_tickets s'))"
    using find_first_lock_queue [OF assms(1)] by simp_all
  have sub: "subseq (inner ob (sl_tickets s')) (inner ob (sl_tickets s))"
    using q(1) by (simp add: shrinks_def)
  have ok: "om_ok (inner ob (sl_tickets s))" using om2_ok_inner [OF assms(3)] .
  then have ok': "om_ok (inner ob (sl_tickets s'))"
    by (rule om_ok_subseq [OF sub])
  obtain k0 a0 rest where c: "inner ob (sl_tickets s') = (k0, a0) # rest"
    using assms(4) by (cases "inner ob (sl_tickets s')") (auto simp: look2_def)
  have least: "k0 \<le> k"
    using om.begin_is_least [OF ok' c] assms(4) by (simp add: look2_def)
  have "tidy E ob s s'" by (rule find_first_lock_tidy [OF assms(1,2)])
  then have "live_in E (sl_heap s') (sl_tickets s') ob" by (simp add: tidy_def)
  then have "\<not> timed_out E (sl_heap s' a0)"
    using c by (auto simp: live_in_def inner_def split: option.splits)
  moreover have "look2 (sl_tickets s) ob k = Some a"
    using assms(4) subseq_set [OF sub] by (auto simp: look2_def map_of_iff_mem ok ok')
  moreover have "f = Some a0" using q(2) c by (simp add: first_of_def)
  moreover have "look2 (sl_tickets s') ob k0 = Some a0" by (simp add: look2_def c)
  ultimately show ?thesis using least by blast
qed

theorem first_lock_is_smallest_live_witness:
  "find_first_lock E0 ''o'' sample_waiting = Inr (Some 0, sample_waiting)
   \<and> (\<exists>k0 a0. Some 0 = Some a0 \<and> look2 (sl_tickets sample_waiting) ''o'' k0 = Some a0
        \<and> k0 \<le> ''00000002/a/2'' \<and> \<not> timed_out E0 (sl_heap sample_waiting a0))"
proof -
  have ok: "om2_ok (sl_tickets sample_waiting)"
    using om2_ok_head_locked [OF sample_waiting_ok(1)] by simp
  have f: "find_first_lock E0 ''o'' sample_waiting = Inr (Some 0, sample_waiting)"
    using find_first_lock_quiet [OF _ ok, of E0 "''o''"] sample_waiting_ok(2,3)
    by (simp add: nothing_due_def first_of_def)
  have "durations_ok sample_waiting"
    by (simp add: durations_ok_def sample_waiting_def sample_heap sample_ticket_def default_ticket_def)
  moreover have "look2 (sl_tickets sample_waiting) ''o'' ''00000002/a/2'' = Some 1"
    using sample_waiting_ok(3) by (simp add: look2_def)
  ultimately show ?thesis
    using first_lock_is_smallest_live [OF f _ ok] f by blast
qed

text \<open>
  Durations. Whatever a client asks for, the lock and unlock durations of a ticket are
  between one minute and one week; in that range they are what was asked for, and the unlock
  duration is the lock duration unless given.
\<close>

theorem durations_clamped:
  "let t = set_unlock_duration ud (snaplock_ticket s ob ek timeout d sn sv) in
     60 \<le> f_lock_duration t \<and> f_lock_duration t \<le> 604800
   \<and> 60 \<le> f_unlock_duration t \<and> f_unlock_duration t \<le> 604800
   \<and> f_lock_duration t = max 60 (min 604800 d)
   \<and> f_unlock_duration t = max 60 (min 604800 (if ud = -1 then f_lock_duration t else ud))"
  by (auto simp: snaplock_ticket_def set_unlock_duration_def clamp_duration_def timeout_defs Let_def
      default_ticket_def)

end
