(* ===== verification/ClusterProps.thy ===== *)
theory ClusterProps
  imports LockSample
begin

text \<open>
  Computers and elections: identifiers, who may conduct an election and who wins it, and
  why two parts of a split cluster cannot both be ready.
\<close>

section \<open>Identifiers\<close>

lemma split_on_parts: "w \<in> set (split_on c v) \<Longrightarrow> c \<notin> set w"
  by (induction v arbitrary: w) (auto split: list.splits if_splits)

lemma split_on_bar_name: "length (split_on c v) = 5 \<Longrightarrow> i < 5 \<Longrightarrow> c \<notin> set (split_on c v ! i)"
  by (rule split_on_parts [of _ c v]) simp

text \<open>
  C8. The identifier of a computer can be read back: \<open>set_id\<close> of what \<open>get_id\<close> prints gives
  a computer with the same priority, random number, address, process and name.
\<close>

theorem identifier_round_trip:
  assumes "numbers_ok E" "computer_ok E c" "c_id c = []"
  shows "returns (get_id c) (\<lambda>i. returns (set_id E i computer_t) (\<lambda>(ok, d). ok
    \<and> c_id d = i \<and> c_priority d = c_priority c \<and> c_random_id d = c_random_id c
    \<and> c_ip_address d = c_ip_address c \<and> c_pid d = c_pid c \<and> c_name d = c_name c))"
  using assms by (rule set_id_get_id_aux)

definition sample_computer :: computer where
  "sample_computer = computer_self 100 7 ''10.0.0.1'' ''a'' 9"

lemma sample_computer_ok: "computer_ok E0 sample_computer" "c_id sample_computer = []"
  by (simp_all add: computer_ok_def sample_computer_def computer_self_def computer_t_def)

theorem identifier_round_trip_witness:
  "returns (get_id sample_computer) (\<lambda>i. returns (set_id E0 i computer_t) (\<lambda>(ok, d). ok
     \<and> c_priority d = 9 \<and> c_name d = ''a''))"
  using identifier_round_trip [OF numbers_ok_std_env sample_computer_ok]
  by (auto simp: returns_iff sample_computer_def computer_self_def computer_t_def)

text \<open>
  What \<open>set_id\<close> accepts. A computer it returned true for has a priority between 1 and 15,
  a random number of 32 bits, a process identifier of the system's range, a nonempty address
  and a nonempty name, neither with a bar; its identifier is the text that was read.
\<close>

theorem accepted_identifiers:
  assumes "set_id E i computer_t = Inr (True, d)"
  shows "computer_ok E d \<and> get_id d = Inr i"
proof -
  let ?p = "split_on CHR ''|'' i"
  have len: "length ?p = 5"
    using assms by (simp add: set_id_def computer_t_def Let_def split: if_splits)
  have "i \<noteq> []" using len by auto
  moreover have "CHR ''|'' \<notin> set (?p ! 2)" "CHR ''|'' \<notin> set (?p ! 4)"
    using split_on_bar_name [OF len] by simp_all
  ultimately show ?thesis
    using assms len int32_bounds
    by (auto simp: set_id_def computer_t_def Let_def computer_ok_def get_id_def split: if_splits)
qed

lemma sample_identifier: "get_id sample_computer = Inr ''09|7|10.0.0.1|100|a''"
  by code_simp

theorem accepted_identifiers_witness:
  "\<exists>d. set_id E0 ''09|7|10.0.0.1|100|a'' computer_t = Inr (True, d) \<and> computer_ok E0 d
     \<and> get_id d = Inr ''09|7|10.0.0.1|100|a''"
proof -
  obtain d where d: "set_id E0 ''09|7|10.0.0.1|100|a'' computer_t = Inr (True, d)"
    using set_id_get_id_aux [OF numbers_ok_std_env sample_computer_ok]
    by (auto simp: returns_iff sample_identifier)
  with accepted_identifiers [OF d] show ?thesis by blast
qed

text \<open>
  Identifiers rank by priority. The string order of two identifiers follows the
  numeric order of the priorities, because they are printed on two digits.
\<close>

theorem identifiers_rank_by_priority:
  assumes "computer_ok E c" "computer_ok E d" "c_id c = []" "c_id d = []"
    and "c_priority c < c_priority d" "get_id c = Inr i" "get_id d = Inr j"
  shows "i < j"
  using get_id_less assms by blast

theorem identifiers_rank_by_priority_witness:
  "\<exists>j. get_id (computer_self 5 3 ''10.0.0.2'' ''b'' 14) = Inr j \<and> ''09|7|10.0.0.1|100|a'' < j"
proof -
  let ?d = "computer_self 5 3 ''10.0.0.2'' ''b'' 14"
  have d: "computer_ok E0 ?d" "c_id ?d = []"
    by (simp_all add: computer_ok_def computer_self_def computer_t_def)
  then obtain j where j: "get_id ?d = Inr j"
    by (simp add: get_id_def computer_self_def computer_t_def)
  have "c_priority sample_computer < c_priority ?d"
    by (simp add: sample_computer_def computer_self_def computer_t_def)
  then have "''09|7|10.0.0.1|100|a'' < j"
    using identifiers_rank_by_priority [OF sample_computer_ok(1) d(1) sample_computer_ok(2) d(2) _
        sample_identifier j] by simp
  with j show ?thesis by blast
qed

section \<open>Majorities\<close>

lemma majorities_meet:
  assumes "finite N" "A \<subseteq> N" "B \<subseteq> N" "card N div 2 < card A" "card N div 2 < card B"
  shows "A \<inter> B \<noteq> {}"
proof
  assume "A \<inter> B = {}"
  then have "card (A \<union> B) = card A + card B"
    using assms finite_subset by (metis card_Un_disjoint)
  moreover have "card (A \<union> B) \<le> card N"
    using assms by (intro card_mono) auto
  ultimately show False using assms(4,5) by linarith
qed

lemma ready_quorum: "is_ready E s = Inr (True, s') \<Longrightarrow> sl_neighbors_quorum s \<le> length (sl_computers s)"
  by (auto simp: is_ready_def rbind_Inr_iff split: if_splits option.splits)

lemma names_card: "om_ok m \<Longrightarrow> card (fst ` set m) = length m"
  using distinct_card [OF om_ok_distinct, of m] by simp

text \<open>
  C9. No split brain. When two daemons of the same cluster, each knowing some of its
  computers, are ready at the same time (each has the quorum of CLUSTERUP, more than half of
  the cluster), there is a computer that both of them know.
\<close>

theorem ready_views_intersect:
  assumes "is_ready E s = Inr (True, s')" "is_ready F t = Inr (True, t')"
    and "finite N" "fst ` set (sl_computers s) \<subseteq> N" "fst ` set (sl_computers t) \<subseteq> N"
    and "sl_neighbors_quorum s = card N div 2 + 1" "sl_neighbors_quorum t = card N div 2 + 1"
    and "om_ok (sl_computers s)" "om_ok (sl_computers t)"
  shows "\<exists>name. map_of (sl_computers s) name \<noteq> None \<and> map_of (sl_computers t) name \<noteq> None"
proof -
  have "card N div 2 < card (fst ` set (sl_computers s))" "card N div 2 < card (fst ` set (sl_computers t))"
    using ready_quorum [OF assms(1)] ready_quorum [OF assms(2)] assms(6-9) by (simp_all add: names_card)
  then have "fst ` set (sl_computers s) \<inter> fst ` set (sl_computers t) \<noteq> {}"
    using assms(3-5) by (intro majorities_meet)
  then show ?thesis by (auto simp: map_of_eq_None_iff)
qed

theorem ready_views_intersect_witness:
  "\<exists>name. map_of (sl_computers sample_elected) name \<noteq> None"
proof -
  have r: "is_ready E0 sample_elected = Inr (True, sample_elected)"
    by (rule alone_is_ready [OF sample_wf(2)])
  have c: "sl_computers sample_elected = [(''a'', 0)]" "sl_neighbors_quorum sample_elected = 1"
    using init_fields [OF sample_init] by (simp_all add: sample_elected_def self_elected_def)
  show ?thesis
    using ready_views_intersect [OF r r, of "{''a''}"] by (auto simp: c)
qed

end
