(* ===== verification/CommText.thy ===== *)
theory CommText
  imports CommMessage
begin

text \<open>
  The text form of a message (\<open>snap_communicator_message::to_message\<close> and
  \<open>from_message\<close> in \<open>libsnapwebsites/src/snapwebsites/snap_communicator.cpp\<close>):
  \<open><server:service server:service/COMMAND name=value;name=value\<close>, on one line. The printer
  and the parser with every early return, and how they fit together. Characters are those of
  Isabelle's \<open>char\<close>; converting between \<open>QString\<close> and UTF-8 changes none of them, except that
  a C string stops at its first NUL.
\<close>

section \<open>Printing\<close>

definition c_string :: "string \<Rightarrow> string" where
  "c_string s = takeWhile (\<lambda>c. c \<noteq> CHR 0x00) s"

definition escapes :: "(string \<times> string) list" where
  "escapes =
     [([CHR 0x5C], [CHR 0x5C, CHR 0x5C]),
      ([CHR 0x0A], [CHR 0x5C, CHR ''n'']),
      ([CHR 0x0D], [CHR 0x5C, CHR ''r''])]"

definition quote_char :: "char \<Rightarrow> string" where
  "quote_char c = (if c = CHR 0x22 then [CHR 0x5C, CHR 0x22] else [c])"

definition parameter_text :: "env \<Rightarrow> string \<Rightarrow> string" where
  "parameter_text E value =
     (let str_value = c_string value;
          safe_value = replace_many E str_value escapes;
          param = c_string safe_value
      in if CHR '';'' \<in> set param \<or> (param \<noteq> [] \<and> hd param = CHR 0x22)
         then CHR 0x22 # concat (map quote_char param) @ [CHR 0x22]
         else param)"

fun parameters_text :: "env \<Rightarrow> bool \<Rightarrow> (string \<times> string) list \<Rightarrow> string" where
  "parameters_text E first [] = []"
| "parameters_text E first ((key, value) # p) =
     (if first then CHR '' '' else CHR '';'') # key @ CHR ''='' # parameter_text E value
       @ parameters_text E False p"

definition to_message :: "env \<Rightarrow> message \<Rightarrow> string res" where
  "to_message E m =
     (if m_command m = [] then Inl Invalid_message
      else Inr
        ((if m_sent_from_server m \<noteq> [] \<or> m_sent_from_service m \<noteq> []
          then CHR ''<'' # m_sent_from_server m @ CHR '':'' # m_sent_from_service m @ '' ''
          else [])
         @ (if m_service m \<noteq> []
            then (if m_server m \<noteq> [] then m_server m @ '':'' else []) @ m_service m @ ''/''
            else [])
         @ m_command m
         @ parameters_text E True (m_parameters m)))"

section \<open>Parsing\<close>

text \<open>
  The pointer \<open>m\<close> of the code is the rest of the text; \<open>m->isNull()\<close> is the rest being
  empty. \<open>None\<close> is \<open>return false\<close>.
\<close>

fun read_sent_from_server :: "string \<Rightarrow> string \<Rightarrow> (string \<times> string) option" where
  "read_sent_from_server sent_from_server [] = Some (sent_from_server, [])"
| "read_sent_from_server sent_from_server (c # m) =
     (if c = CHR '':'' then Some (sent_from_server, c # m)
      else if c = CHR '' '' then None
      else read_sent_from_server (sent_from_server @ [c]) m)"

definition read_sent_from :: "string \<Rightarrow> ((string \<times> string) \<times> string) option" where
  "read_sent_from m =
     (case m of
        [] \<Rightarrow> Some (([], []), [])
      | c # r \<Rightarrow>
          if c \<noteq> CHR ''<'' then Some (([], []), m)
          else (case read_sent_from_server [] r of
                  None \<Rightarrow> None
                | Some (server, colon) \<Rightarrow>
                    let service = takeWhile (\<lambda>c. c \<noteq> CHR '' '') (tl colon);
                        rest = dropWhile (\<lambda>c. c \<noteq> CHR '' '') (tl colon)
                    in if rest = [] then None else Some ((server, service), tl rest)))"

record target =
  t_has_server :: bool
  t_has_service :: bool
  t_server :: string
  t_service :: string
  t_command :: string

definition no_target :: target where
  "no_target = \<lparr>t_has_server = False, t_has_service = False, t_server = [], t_service = [], t_command = []\<rparr>"

fun read_target :: "target \<Rightarrow> string \<Rightarrow> (target \<times> string) option" where
  "read_target t [] = Some (t, [])"
| "read_target t (c # m) =
     (if c = CHR '' '' then Some (t, c # m)
      else if c = CHR '':'' then
        (if t_has_server t \<or> t_has_service t \<or> t_command t = [] then None
         else read_target (t\<lparr>t_has_server := True, t_server := t_command t, t_command := []\<rparr>) m)
      else if c = CHR ''/'' then
        (if t_has_service t \<or> t_command t = [] then None
         else read_target (t\<lparr>t_has_service := True, t_service := t_command t, t_command := []\<rparr>) m)
      else read_target (t\<lparr>t_command := t_command t @ [c]\<rparr>) m)"

fun read_quoted :: "string \<Rightarrow> string \<times> string" where
  "read_quoted [] = ([], [])"
| "read_quoted (c # m) =
     (if c = CHR 0x22 then ([], c # m)
      else if c = CHR 0x5C \<and> m \<noteq> [] \<and> hd m = CHR 0x22
      then (let (v, r) = read_quoted (tl m) in (CHR 0x22 # v, r))
      else (let (v, r) = read_quoted m in (c # v, r)))"

definition read_value :: "string \<Rightarrow> (string \<times> string) option" where
  "read_value m =
     (if m \<noteq> [] \<and> hd m = CHR 0x22
      then (let (v, r) = read_quoted (tl m)
            in if r = [] then None else Some (v, tl r))
      else Some (takeWhile (\<lambda>c. c \<noteq> CHR '';'') m, dropWhile (\<lambda>c. c \<noteq> CHR '';'') m))"

definition skip_semicolon :: "string \<Rightarrow> string option" where
  "skip_semicolon m =
     (case m of [] \<Rightarrow> Some [] | c # r \<Rightarrow> if c \<noteq> CHR '';'' then None else Some r)"

definition unescapes :: "(string \<times> string) list" where
  "unescapes =
     [([CHR 0x5C, CHR 0x5C], [CHR 0x5C]),
      ([CHR 0x5C, CHR ''n''], [CHR 0x0A]),
      ([CHR 0x5C, CHR ''r''], [CHR 0x0D])]"

definition unsafe_value :: "env \<Rightarrow> string \<Rightarrow> string" where
  "unsafe_value E param_value = c_string (replace_many E (c_string param_value) unescapes)"

text \<open>One turn of the loop over the parameters: the name, the value, what is left.\<close>

definition read_parameter :: "env \<Rightarrow> string \<Rightarrow> ((string \<times> string) \<times> string) option" where
  "read_parameter E m =
     (let param_name = takeWhile (\<lambda>c. c \<noteq> CHR ''='') m;
          rest = dropWhile (\<lambda>c. c \<noteq> CHR ''='') m
      in if param_name = [] then None
         else if verify_name param_name False True \<noteq> Inr () then None
         else if rest = [] then None
         else (case read_value (tl rest) of
                 None \<Rightarrow> None
               | Some (param_value, r) \<Rightarrow>
                   map_option (\<lambda>r'. ((param_name, unsafe_value E param_value), r')) (skip_semicolon r)))"

lemma read_quoted_length: "length (snd (read_quoted m)) \<le> length m"
  by (induction m rule: read_quoted.induct) (auto split: prod.splits)

lemma read_value_length: "read_value m = Some (v, r) \<Longrightarrow> length r \<le> length m"
  using read_quoted_length [of "tl m"] length_dropWhile_le [of "\<lambda>c. c \<noteq> CHR '';''" m]
  by (auto simp: read_value_def split: prod.splits if_splits)

lemma read_parameter_length:
  assumes "read_parameter E m = Some (p, r)"
  shows "length r < length m"
proof -
  let ?rest = "dropWhile (\<lambda>c. c \<noteq> CHR ''='') m"
  obtain v s where s: "?rest \<noteq> []" "read_value (tl ?rest) = Some (v, s)" "skip_semicolon s = Some r"
    using assms by (auto simp: read_parameter_def Let_def split: if_splits option.splits)
  have "length r \<le> length s"
    using s(3) by (auto simp: skip_semicolon_def split: list.splits if_splits)
  also have "\<dots> \<le> length (tl ?rest)" using read_value_length [OF s(2)] .
  also have "\<dots> < length ?rest" using s(1) by simp
  also have "\<dots> \<le> length m" by (rule length_dropWhile_le)
  finally show ?thesis .
qed

function read_parameters ::
  "env \<Rightarrow> string \<Rightarrow> (string, string) omap \<Rightarrow> (string, string) omap option" where
  "read_parameters E m parameters =
     (if m = [] then Some parameters
      else (case read_parameter E m of
              None \<Rightarrow> None
            | Some ((name, value), r) \<Rightarrow> read_parameters E r (om_put name value parameters)))"
  by pat_completeness auto

termination
  by (relation "measure (\<lambda>(E, m, p). length m)") (auto dest: read_parameter_length)

declare read_parameters.simps [simp del]

definition parse_message :: "env \<Rightarrow> string \<Rightarrow> message option" where
  "parse_message E text =
     (case read_sent_from (c_string (trimmed E text)) of
        None \<Rightarrow> None
      | Some ((sent_from_server, sent_from_service), m) \<Rightarrow>
          (case read_target no_target m of
             None \<Rightarrow> None
           | Some (t, m') \<Rightarrow>
               if t_command t = [] then None
               else map_option
                 (\<lambda>parameters.
                    \<lparr>m_sent_from_server = sent_from_server, m_sent_from_service = sent_from_service,
                     m_server = t_server t, m_service = t_service t, m_command = t_command t,
                     m_parameters = parameters\<rparr>)
                 (if m' = [] then Some [] else read_parameters E (tl m') [])))"

definition from_message :: "env \<Rightarrow> string \<Rightarrow> message \<Rightarrow> bool \<times> message" where
  "from_message E text m =
     (case parse_message E text of None \<Rightarrow> (False, m) | Some m' \<Rightarrow> (True, m'))"

end
