(* ===== verification/CommCodec.thy ===== *)
theory CommCodec
  imports CommText Numbers
begin

text \<open>
  The parser of messages read what the printer wrote: escaping, quoting, the target and the
  parameters, one at a time, under what the code relies on of \<open>string_replace_many\<close> and
  \<open>QString::trimmed\<close>. The locale \<open>codec\<close> is the contract of an encoder and its decoder.
\<close>

section \<open>Encoders and decoders\<close>

locale codec =
  fixes encode :: "'a \<Rightarrow> 'b" and decode :: "'b \<Rightarrow> 'a option" and valid :: "'a \<Rightarrow> bool"
  assumes decode_encode: "valid x \<Longrightarrow> decode (encode x) = Some x"
begin

lemma encode_unique:
  assumes "valid x" "valid y" "encode x = encode y"
  shows "x = y"
proof -
  have "Some x = Some y"
    unfolding decode_encode [OF assms(1), symmetric] decode_encode [OF assms(2), symmetric]
    by (rule arg_cong [OF assms(3)])
  then show ?thesis by (rule option.inject [THEN iffD1])
qed

lemma encode_inj: "inj_on encode (Collect valid)"
  by (rule inj_onI, rule encode_unique) auto

end

section \<open>Replacing\<close>

text \<open>
  \<open>string_replace_many\<close> is documented to search for all the strings at once: at each position
  the first pair that matches is replaced, and what was replaced is not searched again.
\<close>

fun first_match :: "(string \<times> string) list \<Rightarrow> string \<Rightarrow> (string \<times> string) option" where
  "first_match [] s = None"
| "first_match ((a, b) # ps) s =
     (if a \<noteq> [] \<and> take (length a) s = a then Some (a, b) else first_match ps s)"

function replace_scan :: "(string \<times> string) list \<Rightarrow> string \<Rightarrow> string" where
  "replace_scan ps [] = []"
| "replace_scan ps (c # s) =
     (case first_match ps (c # s) of
        None \<Rightarrow> c # replace_scan ps s
      | Some (a, b) \<Rightarrow> b @ replace_scan ps (drop (length a - 1) s))"
  by pat_completeness auto

termination
  by (relation "measure (\<lambda>(ps, s). length s)") auto

definition qt_space :: "char \<Rightarrow> bool" where
  "qt_space c \<longleftrightarrow> c \<in> {CHR 0x09, CHR 0x0A, CHR 0x0B, CHR 0x0C, CHR 0x0D, CHR '' '', CHR 0x85, CHR 0xA0}"

definition text_ok :: "env \<Rightarrow> bool" where
  "text_ok E \<longleftrightarrow>
     (\<forall>s ps. list_all (\<lambda>p. fst p \<noteq> []) ps \<longrightarrow> replace_many E s ps = replace_scan ps s)
   \<and> (\<forall>s. s \<noteq> [] \<and> \<not> qt_space (hd s) \<and> \<not> qt_space (last s) \<longrightarrow> trimmed E s = s)"

definition qt_trim :: "string \<Rightarrow> string" where
  "qt_trim s = rev (dropWhile qt_space (rev (dropWhile qt_space s)))"

definition text_env :: env where
  "text_env = (std_env 1000)\<lparr>replace_many := \<lambda>s ps. replace_scan ps s, trimmed := qt_trim\<rparr>"

lemma qt_trim_id:
  assumes "s \<noteq> []" "\<not> qt_space (hd s)" "\<not> qt_space (last s)"
  shows "qt_trim s = s"
proof -
  have "dropWhile qt_space s = s" using assms(1,2) by (cases s) auto
  moreover have "dropWhile qt_space (rev s) = rev s"
    using assms(1,3) by (cases s rule: rev_cases) auto
  ultimately show ?thesis by (simp add: qt_trim_def)
qed

lemma text_ok_text_env [simp]: "text_ok text_env"
  by (simp add: text_ok_def text_env_def qt_trim_id)

lemma text_okD:
  assumes "text_ok E"
  shows "replace_many E s escapes = replace_scan escapes s"
    and "replace_many E s unescapes = replace_scan unescapes s"
    and "s \<noteq> [] \<Longrightarrow> \<not> qt_space (hd s) \<Longrightarrow> \<not> qt_space (last s) \<Longrightarrow> trimmed E s = s"
  using assms by (simp_all add: text_ok_def escapes_def unescapes_def)

section \<open>Escaping\<close>

definition escape_char :: "char \<Rightarrow> string" where
  "escape_char c =
     (if c = CHR 0x5C then [CHR 0x5C, CHR 0x5C]
      else if c = CHR 0x0A then [CHR 0x5C, CHR ''n'']
      else if c = CHR 0x0D then [CHR 0x5C, CHR ''r'']
      else [c])"

definition escape_text :: "string \<Rightarrow> string" where
  "escape_text s = concat (map escape_char s)"

lemma escape_text_simps [simp]:
  "escape_text [] = []"
  "escape_text (c # s) = escape_char c @ escape_text s"
  "escape_text (s @ t) = escape_text s @ escape_text t"
  by (simp_all add: escape_text_def)

lemma scan_escapes: "replace_scan escapes s = escape_text s"
  by (induction s) (auto simp: escapes_def escape_char_def)

lemma scan_unescapes: "replace_scan unescapes (escape_text s) = s"
  by (induction s) (auto simp: unescapes_def escape_char_def)

lemma escape_text_empty [simp]: "escape_text s = [] \<longleftrightarrow> s = []"
  by (cases s) (auto simp: escape_char_def)

lemma escape_text_mem:
  "c \<noteq> CHR 0x5C \<Longrightarrow> c \<noteq> CHR ''n'' \<Longrightarrow> c \<noteq> CHR ''r'' \<Longrightarrow> c \<noteq> CHR 0x0A \<Longrightarrow> c \<noteq> CHR 0x0D \<Longrightarrow>
   c \<in> set (escape_text s) \<longleftrightarrow> c \<in> set s"
  by (induction s) (auto simp: escape_char_def)

lemma escape_text_lines: "CHR 0x0A \<notin> set (escape_text s)" "CHR 0x0D \<notin> set (escape_text s)"
  by (induction s) (auto simp: escape_char_def)

lemma hd_escape_text: "s \<noteq> [] \<Longrightarrow> hd (escape_text s) = CHR 0x22 \<longleftrightarrow> hd s = CHR 0x22"
  by (cases s) (auto simp: escape_char_def)

lemma last_escape_text:
  "s \<noteq> [] \<Longrightarrow> last (escape_text s) = last (escape_char (last s))"
  by (cases s rule: rev_cases) (auto simp: escape_char_def)

lemma last_escape_backslash:
  "s \<noteq> [] \<Longrightarrow> last (escape_text s) = CHR 0x5C \<longleftrightarrow> last s = CHR 0x5C"
  by (auto simp: last_escape_text escape_char_def)

lemma c_string_id [simp]: "CHR 0x00 \<notin> set s \<Longrightarrow> c_string s = s"
  by (auto simp: c_string_def takeWhile_eq_all_conv)

interpretation escaping: codec escape_text "\<lambda>s. Some (replace_scan unescapes s)" "\<lambda>_. True"
  by unfold_locales (simp add: scan_unescapes)

section \<open>Quoting\<close>

definition quoted :: "string \<Rightarrow> bool" where
  "quoted v \<longleftrightarrow> CHR '';'' \<in> set v \<or> (v \<noteq> [] \<and> hd v = CHR 0x22)"

definition value_ok :: "string \<Rightarrow> bool" where
  "value_ok v \<longleftrightarrow> CHR 0x00 \<notin> set v \<and> (quoted v \<longrightarrow> last v \<noteq> CHR 0x5C)"

lemma quoted_escape: "quoted (escape_text v) \<longleftrightarrow> quoted v"
  by (cases "v = []") (auto simp: quoted_def escape_text_mem hd_escape_text)

lemma parameter_text_eq:
  assumes "text_ok E" "CHR 0x00 \<notin> set v"
  shows "parameter_text E v =
    (if quoted v then CHR 0x22 # concat (map quote_char (escape_text v)) @ [CHR 0x22] else escape_text v)"
proof -
  have "CHR 0x00 \<notin> set (escape_text v)" using assms(2) by (simp add: escape_text_mem)
  then show ?thesis
    using assms quoted_escape [of v]
    by (simp add: parameter_text_def Let_def text_okD scan_escapes quoted_def)
qed

lemma read_quoted_back:
  "s = [] \<or> last s \<noteq> CHR 0x5C \<Longrightarrow>
   read_quoted (concat (map quote_char s) @ CHR 0x22 # r) = (s, CHR 0x22 # r)"
proof (induction s)
  case (Cons c s)
  have prem: "s = [] \<or> last s \<noteq> CHR 0x5C" using Cons.prems by (auto split: if_splits)
  show ?case
  proof (cases s)
    case Nil
    then show ?thesis using Cons by (auto simp: quote_char_def)
  next
    case (Cons d t)
    let ?q = "concat (map quote_char s) @ CHR 0x22 # r"
    have "hd ?q \<noteq> CHR 0x22"
      by (auto simp: Cons quote_char_def)
    then have "c \<noteq> CHR 0x22 \<Longrightarrow> read_quoted (c # ?q) = (c # s, CHR 0x22 # r)"
      using Cons.IH [OF prem] by simp
    moreover have "read_quoted (CHR 0x5C # CHR 0x22 # ?q) = (CHR 0x22 # s, CHR 0x22 # r)"
      using Cons.IH [OF prem] by simp
    ultimately show ?thesis
      by (simp add: quote_char_def [of c])
  qed
qed simp

lemma read_value_back:
  assumes "text_ok E" "value_ok v" "r = [] \<or> hd r = CHR '';''"
  shows "read_value (parameter_text E v @ r) = Some (escape_text v, r)"
proof (cases "quoted v")
  case True
  then have "v \<noteq> []" by (auto simp: quoted_def)
  then have "last (escape_text v) \<noteq> CHR 0x5C"
    using assms(2) True by (simp add: last_escape_backslash value_ok_def)
  then show ?thesis
    using assms True read_quoted_back [of "escape_text v" r]
    by (simp add: parameter_text_eq value_ok_def read_value_def)
next
  case False
  have n: "CHR '';'' \<notin> set (escape_text v)" "escape_text v \<noteq> [] \<Longrightarrow> hd (escape_text v) \<noteq> CHR 0x22"
    using False quoted_escape [of v] by (auto simp: quoted_def)
  have h: "\<not> (escape_text v @ r \<noteq> [] \<and> hd (escape_text v @ r) = CHR 0x22)"
    using n(2) assms(3) by (cases "escape_text v") auto
  have "read_value (escape_text v @ r) = Some (escape_text v, r)"
    by (simp only: read_value_def if_not_P [OF h] takeWhile_upto [OF n(1) assms(3)])
  then show ?thesis
    using assms False by (simp add: parameter_text_eq value_ok_def)
qed

end
