(* ===== verification/MessageProps.thy ===== *)
theory MessageProps
  imports CommCodec
begin

text \<open>
  Messages as text: what is printed is one line and is read back, what is read is well formed,
  and where a value can break out of its quotes.
\<close>

section \<open>Well-formed messages\<close>

text \<open>What the setters leave in a message.\<close>

definition server_ok :: "string \<Rightarrow> bool" where
  "server_ok s \<longleftrightarrow> ok_name s \<or> s = ''.'' \<or> s = ''*''"

definition service_ok :: "string \<Rightarrow> bool" where
  "service_ok s \<longleftrightarrow> ok_name s \<or> s = ''.'' \<or> s = ''*'' \<or> s = ''?''"

definition message_wf :: "message \<Rightarrow> bool" where
  "message_wf m \<longleftrightarrow>
     ok_name (m_sent_from_server m) \<and> ok_name (m_sent_from_service m)
   \<and> server_ok (m_server m)
   \<and> service_ok (m_service m)
   \<and> (m_command m = [] \<or> verify_name (m_command m) False False = Inr ())
   \<and> om_ok (m_parameters m)
   \<and> (\<forall>p \<in> set (m_parameters m). verify_name (fst p) False True = Inr ())"

definition name_text :: "string \<Rightarrow> bool" where
  "name_text s \<longleftrightarrow> (\<forall>c \<in> set s. name_char True c)"

lemma name_char_special:
  "name_char True c \<Longrightarrow>
   c \<notin> {CHR '' '', CHR '':'', CHR ''/'', CHR ''<'', CHR ''='', CHR '';'', CHR 0x22, CHR 0x00, CHR 0x0A, CHR 0x0D}
   \<and> \<not> qt_space c"
  by (auto simp: name_char_def qt_space_def)

lemma name_char_lower: "name_char False c \<Longrightarrow> name_char True c"
  by (auto simp: name_char_def)

lemma verify_name_text: "verify_name s e l = Inr () \<Longrightarrow> name_text s \<and> (e \<or> s \<noteq> [])"
  using name_char_lower
  by (cases l) (auto simp: verify_name_def name_text_def list_all_iff split: if_splits)

lemma name_textD:
  "name_text s \<Longrightarrow> c \<in> {CHR '' '', CHR '':'', CHR ''/'', CHR ''<'', CHR ''='', CHR '';'', CHR 0x22, CHR 0x00, CHR 0x0A, CHR 0x0D}
   \<Longrightarrow> c \<notin> set s"
  using name_char_special unfolding name_text_def by blast

text \<open>The words of the first part of a message: names and the special targets.\<close>

definition word_text :: "string \<Rightarrow> bool" where
  "word_text s \<longleftrightarrow> (\<forall>c \<in> set s. name_char True c \<or> c \<in> {CHR ''.'', CHR ''*'', CHR ''?''})"

lemma name_word: "name_text s \<Longrightarrow> word_text s"
  by (auto simp: name_text_def word_text_def)

lemma word_textD:
  "word_text s \<Longrightarrow> c \<in> set s \<Longrightarrow>
   c \<notin> {CHR '' '', CHR '':'', CHR ''/'', CHR ''<'', CHR 0x00, CHR 0x0A, CHR 0x0D} \<and> \<not> qt_space c"
proof -
  assume "word_text s" "c \<in> set s"
  then consider "name_char True c" | "c = CHR ''.''" | "c = CHR ''*''" | "c = CHR ''?''"
    by (auto simp: word_text_def)
  then show ?thesis
  proof cases
    case 1
    from name_char_special [OF this] show ?thesis by simp
  qed (simp_all add: qt_space_def)
qed

lemma message_wf_words:
  assumes "message_wf m"
  shows "word_text (m_sent_from_server m)" "word_text (m_sent_from_service m)"
    "word_text (m_server m)" "word_text (m_service m)" "word_text (m_command m)"
proof -
  have "m_command m = [] \<or> name_text (m_command m)"
    using assms verify_name_text [of "m_command m" False False] by (auto simp: message_wf_def)
  then have "word_text (m_command m)"
    by (auto simp: name_word) (simp add: word_text_def)
  moreover have "ok_name s \<or> s \<in> {''.'', ''*'', ''?''} \<Longrightarrow> word_text s" for s
    using verify_name_text [of s True True] name_word [of s]
    by (auto simp: ok_name_def) (auto simp: word_text_def)
  ultimately show "word_text (m_sent_from_server m)" "word_text (m_sent_from_service m)"
    "word_text (m_server m)" "word_text (m_service m)" "word_text (m_command m)"
    using assms by (auto simp: message_wf_def server_ok_def service_ok_def)
qed

section \<open>Reading the first part\<close>

lemma read_server_back:
  "word_text s \<Longrightarrow> read_sent_from_server acc (s @ CHR '':'' # r) = Some (acc @ s, CHR '':'' # r)"
proof (induction s arbitrary: acc)
  case (Cons c s)
  have "c \<noteq> CHR '':'' \<and> c \<noteq> CHR '' ''"
    using word_textD [OF Cons.prems, of c] by simp
  moreover have "word_text s" using Cons.prems by (simp add: word_text_def)
  ultimately show ?case using Cons.IH by simp
qed simp

lemma read_word_back:
  "word_text w \<Longrightarrow> read_target t (w @ r) = read_target (t\<lparr>t_command := t_command t @ w\<rparr>) r"
proof (induction w arbitrary: t)
  case (Cons c w)
  have "c \<notin> {CHR '' '', CHR '':'', CHR ''/''}"
    using word_textD [OF Cons.prems, of c] by simp
  moreover have "word_text w" using Cons.prems by (simp add: word_text_def)
  ultimately show ?case using Cons.IH by simp
qed simp

definition sender_text :: "message \<Rightarrow> string" where
  "sender_text m =
     (if m_sent_from_server m \<noteq> [] \<or> m_sent_from_service m \<noteq> []
      then CHR ''<'' # m_sent_from_server m @ CHR '':'' # m_sent_from_service m @ '' '' else [])"

definition target_text :: "message \<Rightarrow> string" where
  "target_text m =
     (if m_service m \<noteq> []
      then (if m_server m \<noteq> [] then m_server m @ '':'' else []) @ m_service m @ ''/'' else [])
     @ m_command m"

lemma to_message_parts:
  "m_command m \<noteq> [] \<Longrightarrow>
   to_message E m = Inr (sender_text m @ target_text m @ parameters_text E True (m_parameters m))"
  by (simp add: to_message_def sender_text_def target_text_def)

lemma read_sender_back:
  assumes "message_wf m" "r \<noteq> []" "hd r \<noteq> CHR ''<''"
  shows "read_sent_from (sender_text m @ r) = Some ((m_sent_from_server m, m_sent_from_service m), r)"
proof (cases "m_sent_from_server m \<noteq> [] \<or> m_sent_from_service m \<noteq> []")
  case True
  note w = message_wf_words [OF assms(1)]
  have sp: "CHR '' '' \<notin> set (m_sent_from_service m)"
    using word_textD [OF w(2)] by blast
  have "takeWhile (\<lambda>c. c \<noteq> CHR '' '') (m_sent_from_service m @ CHR '' '' # r) = m_sent_from_service m"
    "dropWhile (\<lambda>c. c \<noteq> CHR '' '') (m_sent_from_service m @ CHR '' '' # r) = CHR '' '' # r"
    by (rule takeWhile_upto [OF sp]; simp)+
  then show ?thesis
    using True read_server_back [OF w(1), of "[]"]
    by (simp add: sender_text_def read_sent_from_def)
next
  case False
  then show ?thesis using assms(2,3) by (cases r) (auto simp: sender_text_def read_sent_from_def)
qed

definition target_of :: "message \<Rightarrow> target" where
  "target_of m =
     \<lparr>t_has_server = (m_service m \<noteq> [] \<and> m_server m \<noteq> []), t_has_service = (m_service m \<noteq> []),
      t_server = (if m_service m \<noteq> [] then m_server m else []), t_service = m_service m,
      t_command = m_command m\<rparr>"

lemma read_target_back:
  assumes "message_wf m" "r = [] \<or> hd r = CHR '' ''"
  shows "read_target no_target (target_text m @ r) = Some (target_of m, r)"
proof -
  note w = message_wf_words [OF assms(1)]
  have stop: "read_target t r = Some (t, r)" for t
    using assms(2) by (cases r) auto
  show ?thesis
    using stop
    by (simp add: target_text_def target_of_def no_target_def read_word_back [OF w(3)]
        read_word_back [OF w(4)] read_word_back [OF w(5)])
qed

section \<open>Reading the parameters\<close>

lemma parameters_text_tail:
  "parameters_text E False p = [] \<or> hd (parameters_text E False p) = CHR '';''"
  by (cases p) auto

lemma parameters_text_empty [simp]: "parameters_text E b p = [] \<longleftrightarrow> p = []"
  by (cases p) auto

lemma read_parameter_back:
  assumes "text_ok E" "verify_name name False True = Inr ()" "value_ok v" "r = [] \<or> hd r = CHR '';''"
  shows "read_parameter E (name @ CHR ''='' # parameter_text E v @ r) = Some ((name, v), tl r)"
proof -
  have n: "name_text name" "name \<noteq> []" using verify_name_text [OF assms(2)] by simp_all
  have eq: "CHR ''='' \<notin> set name" using name_textD [OF n(1)] by simp
  have "CHR 0x00 \<notin> set v" using assms(3) by (simp add: value_ok_def)
  then have "unsafe_value E (escape_text v) = v"
    by (simp add: unsafe_value_def text_okD [OF assms(1)] scan_unescapes escape_text_mem)
  moreover have "skip_semicolon r = Some (tl r)"
    using assms(4) by (cases r) (auto simp: skip_semicolon_def)
  ultimately show ?thesis
    using n(2) assms(2) takeWhile_upto [OF eq, of "CHR ''='' # parameter_text E v @ r"]
      read_value_back [OF assms(1,3,4)]
    by (simp add: read_parameter_def Let_def)
qed

lemma read_parameters_back:
  assumes "text_ok E"
    and "\<forall>p \<in> set ps. verify_name (fst p) False True = Inr () \<and> value_ok (snd p)"
  shows "read_parameters E (tl (parameters_text E b ps)) acc
    = Some (foldl (\<lambda>m p. om_put (fst p) (snd p) m) acc ps)"
  using assms(2)
proof (induction ps arbitrary: acc b)
  case Nil
  then show ?case by (simp add: read_parameters.simps)
next
  case (Cons p ps)
  obtain k v where p: "p = (k, v)" by force
  have "read_parameter E (tl (parameters_text E b (p # ps)))
      = Some ((k, v), tl (parameters_text E False ps))"
    using read_parameter_back [OF assms(1) _ _ parameters_text_tail] Cons.prems by (simp add: p)
  then show ?case
    using Cons.IH [of False "om_put k v acc"] Cons.prems
    by (subst read_parameters.simps) (simp add: p)
qed

lemma om_put_last: "\<forall>q \<in> set m. fst q < k \<Longrightarrow> om_put k v m = m @ [(k, v)]"
  by (induction k v m rule: om_put.induct) auto

lemma om_put_all: "om_ok (acc @ m) \<Longrightarrow> foldl (\<lambda>m p. om_put (fst p) (snd p) m) acc m = acc @ m"
proof (induction m arbitrary: acc)
  case (Cons p m)
  have "\<forall>q \<in> set acc. fst q < fst p"
    using Cons.prems by (auto simp: om_ok_def sorted_wrt_append)
  then have "om_put (fst p) (snd p) acc = acc @ [p]" by (simp add: om_put_last)
  then show ?case using Cons by simp
qed simp

section \<open>What can be sent\<close>

definition ends_ok :: "string \<Rightarrow> bool" where
  "ends_ok v \<longleftrightarrow> v = [] \<or> quoted v \<or> last v \<in> {CHR 0x0A, CHR 0x0D} \<or> \<not> qt_space (last v)"

definition sendable :: "message \<Rightarrow> bool" where
  "sendable m \<longleftrightarrow>
     message_wf m \<and> m_command m \<noteq> [] \<and> (m_service m = [] \<longrightarrow> m_server m = [])
   \<and> (\<forall>p \<in> set (m_parameters m). value_ok (snd p))
   \<and> (m_parameters m \<noteq> [] \<longrightarrow> ends_ok (snd (last (m_parameters m))))"

lemma parameter_text_end:
  assumes "text_ok E" "value_ok v" "ends_ok v" "v \<noteq> []"
  shows "parameter_text E v \<noteq> [] \<and> \<not> qt_space (last (parameter_text E v))"
  using assms
  by (auto simp: parameter_text_eq value_ok_def ends_ok_def last_escape_text escape_char_def qt_space_def)

lemma parameters_text_end:
  assumes "text_ok E" "\<forall>p \<in> set ps. value_ok (snd p)" "ps \<noteq> []" "ends_ok (snd (last ps))"
  shows "\<not> qt_space (last (parameters_text E b ps))"
  using assms(2-4)
proof (induction ps arbitrary: b)
  case (Cons p ps)
  obtain k v where p: "p = (k, v)" by force
  show ?case
  proof (cases ps)
    case Nil
    have empty: "parameter_text E [] = []"
      by (simp add: parameter_text_eq [OF assms(1)] quoted_def)
    show ?thesis
      using Cons.prems parameter_text_end [OF assms(1), of v]
      by (cases "v = []") (auto simp: Nil p empty qt_space_def)
  next
    case (Cons q qs)
    then have "parameters_text E False ps \<noteq> []" by simp
    then show ?thesis
      using Cons.IH [of False] Cons.prems Cons by (simp add: p del: parameters_text_empty)
  qed
qed simp

lemma parameter_text_c_string: "parameter_text E v = parameter_text E (c_string v)"
  by (simp add: parameter_text_def c_string_def takeWhile_takeWhile)

lemma c_string_no_nul: "CHR 0x00 \<notin> set (c_string s)"
  using set_takeWhileD by (fastforce simp: c_string_def)

lemma value_chars:
  assumes "text_ok E"
  shows "set (parameter_text E v) \<inter> {CHR 0x00, CHR 0x0A, CHR 0x0D} = {}"
proof -
  have "set (concat (map quote_char w)) \<subseteq> set w \<union> {CHR 0x5C, CHR 0x22}" for w
    by (auto simp: quote_char_def split: if_splits)
  from this [of "escape_text (c_string v)"] show ?thesis
    using c_string_no_nul [of v] escape_text_lines [of "c_string v"]
    by (subst parameter_text_c_string) (auto simp: parameter_text_eq [OF assms] escape_text_mem)
qed

lemma parameters_chars:
  assumes "text_ok E"
    and "\<forall>p \<in> set ps. verify_name (fst p) False True = Inr ()"
  shows "set (parameters_text E b ps) \<inter> {CHR 0x00, CHR 0x0A, CHR 0x0D} = {}"
  using assms(2)
proof (induction ps arbitrary: b)
  case (Cons p ps)
  obtain k v where p: "p = (k, v)" by force
  have "name_text k" using Cons.prems verify_name_text by (auto simp: p)
  then have "set k \<inter> {CHR 0x00, CHR 0x0A, CHR 0x0D} = {}" using name_textD [of k] by simp
  then show ?case
    using Cons value_chars [OF assms(1), of v] by (simp add: p Int_Un_distrib2)
qed simp

lemma printed_chars:
  assumes "text_ok E" "message_wf m" "to_message E m = Inr t"
  shows "set t \<inter> {CHR 0x00, CHR 0x0A, CHR 0x0D} = {}"
proof -
  have cmd: "m_command m \<noteq> []" using assms(3) by (auto simp: to_message_def)
  note w = message_wf_words [OF assms(2)]
  have word: "word_text s \<Longrightarrow> set s \<inter> {CHR 0x00, CHR 0x0A, CHR 0x0D} = {}" for s
    using word_textD [of s] by blast
  have "set (parameters_text E True (m_parameters m)) \<inter> {CHR 0x00, CHR 0x0A, CHR 0x0D} = {}"
    using assms(1,2) by (intro parameters_chars) (auto simp: message_wf_def)
  then show ?thesis
    using assms(3) word [OF w(1)] word [OF w(2)] word [OF w(3)] word [OF w(4)] word [OF w(5)]
    by (simp add: to_message_parts [OF cmd] sender_text_def target_text_def Int_Un_distrib2
        split: if_splits) auto
qed

lemma target_text_start:
  assumes "message_wf m" "m_command m \<noteq> []"
  shows "target_text m \<noteq> []" "hd (target_text m) \<noteq> CHR ''<''" "\<not> qt_space (hd (target_text m))"
    "\<not> qt_space (last (target_text m))"
proof -
  note w = message_wf_words [OF assms(1)]
  obtain s r where s: "target_text m = s @ r" "s \<noteq> []" "word_text s"
    using assms(2) w(3-5) that [of "m_server m"] that [of "m_service m"] that [of "m_command m"]
    by (cases "m_service m = []"; cases "m_server m = []") (auto simp: target_text_def)
  then have "hd (target_text m) \<in> set s" by (cases s) auto
  from word_textD [OF s(3) this]
  show "target_text m \<noteq> []" "hd (target_text m) \<noteq> CHR ''<''" "\<not> qt_space (hd (target_text m))"
    using s by simp_all
  have "last (target_text m) = last (m_command m)" using assms(2) by (simp add: target_text_def)
  then show "\<not> qt_space (last (target_text m))"
    using word_textD [OF w(5)] assms(2) by simp
qed

lemma sendable_trimmed:
  assumes "text_ok E" "sendable m" "to_message E m = Inr t"
  shows "trimmed E t = t"
proof (rule text_okD(3) [OF assms(1)])
  have wf: "message_wf m" and cmd: "m_command m \<noteq> []" using assms(2) by (simp_all add: sendable_def)
  note ts = target_text_start [OF wf cmd]
  let ?ps = "m_parameters m"
  have t: "t = sender_text m @ target_text m @ parameters_text E True ?ps"
    using assms(3) by (simp add: to_message_parts [OF cmd])
  show "t \<noteq> []" using ts(1) by (simp add: t)
  show "\<not> qt_space (hd t)" using ts(1,3) by (auto simp: t sender_text_def qt_space_def)
  show "\<not> qt_space (last t)"
  proof (cases "?ps = []")
    case True
    then show ?thesis using ts(1,4) by (simp add: t)
  next
    case False
    then have "\<not> qt_space (last (parameters_text E True ?ps))"
      using assms(2) by (intro parameters_text_end [OF assms(1)]) (auto simp: sendable_def)
    with False show ?thesis by (simp add: t)
  qed
qed

lemma parse_printed:
  assumes "text_ok E" "sendable m" "to_message E m = Inr t"
  shows "parse_message E t = Some m"
proof -
  have wf: "message_wf m" and cmd: "m_command m \<noteq> []" using assms(2) by (simp_all add: sendable_def)
  let ?ps = "m_parameters m" and ?p = "parameters_text E True (m_parameters m)"
  have t: "t = sender_text m @ target_text m @ ?p"
    using assms(3) by (simp add: to_message_parts [OF cmd])
  have "CHR 0x00 \<notin> set t" using printed_chars [OF assms(1) wf assms(3)] by blast
  then have whole: "c_string (trimmed E t) = t" by (simp add: sendable_trimmed [OF assms])
  have sender: "read_sent_from t
      = Some ((m_sent_from_server m, m_sent_from_service m), target_text m @ ?p)"
    using target_text_start [OF wf cmd] unfolding t by (intro read_sender_back [OF wf]) simp_all
  have target: "read_target no_target (target_text m @ ?p) = Some (target_of m, ?p)"
    by (rule read_target_back [OF wf]) (cases ?ps; auto)
  have pars: "(if ?p = [] then Some [] else read_parameters E (tl ?p) []) = Some ?ps"
  proof (cases ?ps)
    case (Cons q qs)
    have "om_ok ([] @ ?ps)" using wf by (simp add: message_wf_def)
    from om_put_all [OF this] show ?thesis
      using assms(1,2) Cons by (subst read_parameters_back) (auto simp: sendable_def message_wf_def)
  qed simp
  have "(if m_service m \<noteq> [] then m_server m else []) = m_server m"
    using assms(2) by (simp add: sendable_def)
  with cmd show ?thesis
    by (simp add: parse_message_def whole sender target pars target_of_def del: parameters_text_empty)
qed

section \<open>Properties\<close>

text \<open>
  C10. Round trip of messages. A message whose names are those the setters accept, with a
  command, a target server only along with a target service, and whose values have no NUL, do
  not end in a backslash when they have to be quoted and, for the last one, do not end in a
  space, is printed; parsing the text gives back the same message.
\<close>

theorem message_round_trip:
  assumes "text_ok E" "sendable m"
  shows "returns (to_message E m) (\<lambda>t. from_message E t old = (True, m))"
  using assms parse_printed [OF assms]
  by (auto simp: returns_iff to_message_parts sendable_def from_message_def)

definition sample_text_message :: message where
  "sample_text_message =
     \<lparr>m_sent_from_server = ''cat'', m_sent_from_service = ''website'', m_server = ''*'',
      m_service = ''snaplock'', m_command = ''LOCK'',
      m_parameters = [(''object_name'', ''http://a/;b''), (''pid'', ''5'')]\<rparr>"

lemma sample_text_message_ok: "sendable sample_text_message"
  by code_simp

theorem message_round_trip_witness:
  "from_message text_env
     (''<cat:website *:snaplock/LOCK object_name='' @ [CHR 0x22] @ ''http://a/;b'' @ [CHR 0x22] @ '';pid=5'') empty_message
   = (True, sample_text_message)"
proof -
  have t: "to_message text_env sample_text_message
      = Inr (''<cat:website *:snaplock/LOCK object_name='' @ [CHR 0x22] @ ''http://a/;b'' @ [CHR 0x22] @ '';pid=5'')"
    by code_simp
  show ?thesis
    using message_round_trip [OF text_ok_text_env sample_text_message_ok, of empty_message]
    by (simp add: t)
qed

text \<open>The operations a program has to build a message.\<close>

datatype setter =
    Sent_from_server string | Sent_from_service string | To_server string | To_service string
  | Reply_to message | Command string | Parameter string string | Integer_parameter string int

primrec apply_setter :: "setter \<Rightarrow> message \<Rightarrow> message res" where
  "apply_setter (Sent_from_server s) = set_sent_from_server s"
| "apply_setter (Sent_from_service s) = set_sent_from_service s"
| "apply_setter (To_server s) = set_server s"
| "apply_setter (To_service s) = set_service s"
| "apply_setter (Reply_to m) = reply_to m"
| "apply_setter (Command s) = set_command s"
| "apply_setter (Parameter n v) = add_parameter n v"
| "apply_setter (Integer_parameter n i) = add_integer_parameter n i"

lemma fst_om_put: "p \<in> set (om_put k v m) \<Longrightarrow> fst p = k \<or> p \<in> set m"
  using set_om_put [of k v m] by auto

lemma set_server_checked: "set_server s m = Inr m' \<Longrightarrow> s = m_server m \<or> server_ok s"
  by (auto simp: set_server_def server_ok_def ok_name_def rbind_Inr_iff split: if_splits)

lemma set_service_checked: "set_service s m = Inr m' \<Longrightarrow> s = m_service m \<or> service_ok s"
  by (auto simp: set_service_def service_ok_def ok_name_def rbind_Inr_iff split: if_splits)

lemma set_server_wf:
  assumes "message_wf m" "set_server s m = Inr m'"
  shows "message_wf m'"
  using assms(1) set_server_checked [OF assms(2)] setter_Inr(1) [OF assms(2)]
  by (auto simp: message_wf_def)

lemma set_service_wf:
  assumes "message_wf m" "set_service s m = Inr m'"
  shows "message_wf m'"
  using assms(1) set_service_checked [OF assms(2)] setter_Inr(2) [OF assms(2)]
  by (auto simp: message_wf_def)

lemma set_sender_wf:
  "message_wf m \<Longrightarrow> set_sent_from_server s m = Inr m' \<Longrightarrow> message_wf m'"
  "message_wf m \<Longrightarrow> set_sent_from_service s m = Inr m' \<Longrightarrow> message_wf m'"
  by (auto simp: set_sent_from_server_def set_sent_from_service_def message_wf_def ok_name_def
      rbind_Inr_iff split: if_splits)

lemma set_command_wf: "message_wf m \<Longrightarrow> set_command s m = Inr m' \<Longrightarrow> message_wf m'"
  by (auto simp: set_command_def message_wf_def rbind_Inr_iff split: if_splits)

lemma put_parameter_wf:
  "message_wf m \<Longrightarrow> verify_name n False True = Inr () \<Longrightarrow>
   message_wf (m\<lparr>m_parameters := om_put n v (m_parameters m)\<rparr>)"
  by (auto simp: message_wf_def dest!: fst_om_put)

lemma setter_wf:
  assumes "message_wf m" "apply_setter s m = Inr m'"
  shows "message_wf m'"
proof (cases s)
  case (Reply_to x)
  then show ?thesis
    using assms by (auto simp: reply_to_def rbind_Inr_iff intro: set_service_wf set_server_wf)
next
  case (Parameter n v)
  then show ?thesis
    using assms put_parameter_wf by (auto simp: add_parameter_def rbind_Inr_iff)
next
  case (Integer_parameter n i)
  then show ?thesis
    using assms put_parameter_wf by (auto simp: add_integer_parameter_def rbind_Inr_iff)
qed (use assms in \<open>auto intro: set_server_wf set_service_wf set_sender_wf set_command_wf\<close>)

lemma chain_setters_wf:
  "message_wf m \<Longrightarrow> chain (map apply_setter ops) m = Inr m' \<Longrightarrow> message_wf m'"
proof (induction ops arbitrary: m)
  case (Cons s ops)
  then obtain m1 where "apply_setter s m = Inr m1" "chain (map apply_setter ops) m1 = Inr m'"
    by (auto simp: rbind_Inr_iff)
  with Cons show ?case using setter_wf by blast
qed simp

lemma empty_message_wf: "message_wf empty_message"
  by (simp add: message_wf_def empty_message_def server_ok_def service_ok_def)

text \<open>
  C11. One message, one line. Whatever setters a program calls on a new message, with whatever
  values, a message that can be printed is printed without a newline, a carriage return or a
  NUL: what follows it on the connection starts a new line.
\<close>

theorem message_on_one_line:
  assumes "text_ok E" "build (map apply_setter ops) = Inr m" "to_message E m = Inr t"
  shows "CHR 0x0A \<notin> set t \<and> CHR 0x0D \<notin> set t \<and> CHR 0x00 \<notin> set t"
proof -
  have "message_wf m"
    using chain_setters_wf [OF empty_message_wf] assms(2) by (simp add: build_def)
  with assms(1,3) show ?thesis using printed_chars by blast
qed

theorem message_on_one_line_witness:
  "CHR 0x0A \<notin> set (''LOCK a=x'' @ [CHR 0x5C] @ ''ny'')"
proof -
  have "build (map apply_setter [Command ''LOCK'', Parameter ''a'' (''x'' @ [CHR 0x0A] @ ''y'')])
      = Inr (empty_message\<lparr>m_command := ''LOCK'', m_parameters := [(''a'', ''x'' @ [CHR 0x0A] @ ''y'')]\<rparr>)"
    by code_simp
  moreover have "to_message text_env
      (empty_message\<lparr>m_command := ''LOCK'', m_parameters := [(''a'', ''x'' @ [CHR 0x0A] @ ''y'')]\<rparr>)
      = Inr (''LOCK a=x'' @ [CHR 0x5C] @ ''ny'')"
    by code_simp
  ultimately show ?thesis using message_on_one_line [OF text_ok_text_env] by blast
qed

lemma read_target_words:
  assumes "read_target t r = Some (t', r')" "CHR '' '' \<notin> set (t_command t)"
    "set (t_command t) \<inter> {CHR '':'', CHR ''/''} = {}"
  shows "set (t_command t') \<inter> {CHR '' '', CHR '':'', CHR ''/''} = {}"
  using assms by (induction t r rule: read_target.induct) (auto split: if_splits)

lemma read_parameters_wf:
  assumes "read_parameters E r acc = Some ps" "om_ok acc"
    "\<forall>p \<in> set acc. verify_name (fst p) False True = Inr ()"
  shows "om_ok ps \<and> (\<forall>p \<in> set ps. verify_name (fst p) False True = Inr ())"
  using assms
proof (induction E r acc rule: read_parameters.induct)
  case (1 E r acc)
  show ?case
  proof (cases "r = []")
    case True
    then show ?thesis using 1 by (simp add: read_parameters.simps)
  next
    case False
    then obtain k v r' where p: "read_parameter E r = Some ((k, v), r')"
      "read_parameters E r' (om_put k v acc) = Some ps"
      using 1(2) by (subst (asm) read_parameters.simps) (auto split: option.splits)
    have "verify_name k False True = Inr ()"
      using p(1) by (auto simp: read_parameter_def Let_def split: if_splits option.splits)
    moreover have "om_ok (om_put k v acc)" using 1(3) by blast
    ultimately show ?thesis
      using 1(1) [OF False p(1) refl refl p(2)] 1(4) by (metis fst_om_put)
  qed
qed

text \<open>
  C12. What \<open>from_message\<close> accepts. When it returns true the message has a command that is not empty and has no
  space, colon or slash (it need not be one that \<open>set_command\<close> accepts), and its parameters are a map whose names are all
  valid; when it returns false, no field is modified.
\<close>

theorem parsed_messages:
  "case from_message E text old of
     (True, m) \<Rightarrow> m_command m \<noteq> [] \<and> set (m_command m) \<inter> {CHR '' '', CHR '':'', CHR ''/''} = {}
       \<and> om_ok (m_parameters m)
       \<and> list_all (\<lambda>p. verify_name (fst p) False True = Inr ()) (m_parameters m)
   | (False, m) \<Rightarrow> m = old"
proof (cases "parse_message E text")
  case (Some m)
  then obtain t r r' where t: "read_target no_target r = Some (t, r')" "t_command t \<noteq> []"
      "m_command m = t_command t"
      "(if r' = [] then Some [] else read_parameters E (tl r') []) = Some (m_parameters m)"
    by (auto simp: parse_message_def split: option.splits if_splits)
  have "set (t_command t) \<inter> {CHR '' '', CHR '':'', CHR ''/''} = {}"
    using read_target_words [OF t(1)] by (simp add: no_target_def)
  moreover have "om_ok (m_parameters m)
      \<and> (\<forall>p \<in> set (m_parameters m). verify_name (fst p) False True = Inr ())"
    using t(4) read_parameters_wf [of E "tl r'" "[]"] by (auto split: if_splits)
  ultimately show ?thesis using Some t by (simp add: from_message_def list_all_iff)
qed (simp add: from_message_def)

text \<open>A command that \<open>set_command\<close> refuses.\<close>

lemma lowercase_accepted:
  "fst (from_message text_env ''lock@'' empty_message) \<and> set_command ''lock@'' empty_message = Inl Invalid_message"
  by code_simp

section \<open>Breaking out of the quotes\<close>

lemma text_ok_read_parameter:
  assumes "text_ok E" "text_ok F"
  shows "read_parameter E r = read_parameter F r"
proof -
  have "unsafe_value E = unsafe_value F"
    by (rule ext) (simp add: unsafe_value_def text_okD(2) [OF assms(1)] text_okD(2) [OF assms(2)])
  then show ?thesis unfolding read_parameter_def by (rule ssubst) (rule refl)
qed

lemma text_ok_read_parameters:
  assumes "text_ok E" "text_ok F"
  shows "read_parameters E r acc = read_parameters F r acc"
  using assms(1)
proof (induction E r acc rule: read_parameters.induct)
  case (1 E r acc)
  then show ?case
    using assms(2) text_ok_read_parameter [of E F r]
    by (subst (1 2) read_parameters.simps) (auto split: option.splits)
qed

lemma text_ok_parse:
  assumes "text_ok E" "text_ok F" "t \<noteq> []" "\<not> qt_space (hd t)" "\<not> qt_space (last t)"
  shows "parse_message E t = parse_message F t"
  unfolding parse_message_def text_ok_read_parameters [OF assms(1,2)]
    text_okD(3) [OF assms(1,3-5)] text_okD(3) [OF assms(2-5)]
  by (rule refl)

lemma text_ok_parameters_text:
  assumes "text_ok E" "text_ok F"
  shows "parameters_text E b ps = parameters_text F b ps"
  using assms
  by (induction E b ps rule: parameters_text.induct)
    (auto simp: parameter_text_def text_okD)

lemma text_ok_to_message:
  assumes "text_ok E" "text_ok F"
  shows "to_message E m = to_message F m"
  using text_ok_parameters_text [OF assms] by (simp add: to_message_def)

definition injecting :: message where
  "injecting = empty_message\<lparr>m_command := ''LOGIN'',
     m_parameters := [(''A'', '';'' @ [CHR 0x5C]), (''B'', '';USER=root;X=x'')]\<rparr>"

definition injected :: message where
  "injected = empty_message\<lparr>m_command := ''LOGIN'',
     m_parameters := [(''A'', '';'' @ [CHR 0x5C, CHR 0x22] @ '';B=''), (''USER'', ''root''), (''X'', ''x'' @ [CHR 0x22])]\<rparr>"

lemma injecting_printed:
  "to_message text_env injecting = Inr (''LOGIN A='' @ [CHR 0x22] @ '';'' @ [CHR 0x5C, CHR 0x5C, CHR 0x22]
     @ '';B='' @ [CHR 0x22] @ '';USER=root;X=x'' @ [CHR 0x22])"
  by code_simp

lemma injecting_parsed:
  "parse_message text_env (''LOGIN A='' @ [CHR 0x22] @ '';'' @ [CHR 0x5C, CHR 0x5C, CHR 0x22]
     @ '';B='' @ [CHR 0x22] @ '';USER=root;X=x'' @ [CHR 0x22]) = Some injected"
  by code_simp

text \<open>
  C13. A value that is quoted and ends in a backslash is not closed: the backslash is doubled,
  but inside quotes the parser takes the second one along with the closing quote for an escaped
  quote. So the values of a message with two parameters A and B, built through the setters, can
  add a parameter: it is read with a parameter USER that nobody gave it, and without B.
\<close>

theorem values_inject_parameters:
  assumes "text_ok E"
  shows "build (map apply_setter
      [Command ''LOGIN'', Parameter ''A'' ('';'' @ [CHR 0x5C]), Parameter ''B'' '';USER=root;X=x''])
      = Inr injecting
    \<and> map_of (m_parameters injecting) ''USER'' = None
    \<and> returns (to_message E injecting) (\<lambda>t. 
        fst (from_message E t old)
        \<and> map_of (m_parameters (snd (from_message E t old))) ''USER'' = Some ''root''
        \<and> map_of (m_parameters (snd (from_message E t old))) ''B'' = None)"
proof -
  let ?t = "''LOGIN A='' @ [CHR 0x22] @ '';'' @ [CHR 0x5C, CHR 0x5C, CHR 0x22]
     @ '';B='' @ [CHR 0x22] @ '';USER=root;X=x'' @ [CHR 0x22]"
  have "build (map apply_setter
      [Command ''LOGIN'', Parameter ''A'' ('';'' @ [CHR 0x5C]), Parameter ''B'' '';USER=root;X=x''])
      = Inr injecting"
    by code_simp
  moreover have "to_message E injecting = Inr ?t"
    using text_ok_to_message [OF assms text_ok_text_env] injecting_printed by simp
  moreover have "parse_message E ?t = Some injected"
    using text_ok_parse [OF assms text_ok_text_env, of ?t] injecting_parsed by (simp add: qt_space_def)
  ultimately show ?thesis
    by (simp add: from_message_def injecting_def injected_def)
qed

theorem values_inject_parameters_witness:
  "\<exists>t m. to_message text_env injecting = Inr t \<and> from_message text_env t empty_message = (True, m)
     \<and> map_of (m_parameters m) ''USER'' = Some ''root''"
  using values_inject_parameters [OF text_ok_text_env, of empty_message]
  by (auto simp: returns_iff) (metis prod.collapse)

end
