(* ===== verification/QuotedPrintable.thy ===== *)
theory QuotedPrintable
  imports CommText
begin

text \<open>
  The quoted-printable encoding of mails (\<open>libsnapwebsites/src/snapwebsites/quoted_printable.cpp\<close>):
  the class \<open>result\<close> of the encoder, whose state is the buffered space, the text so far and the
  length of the current line, and the decoder, a pointer that walks the text. Bytes are
  characters; a C string stops at its first NUL.
\<close>

unbundle bit_operations_syntax

definition QUOTED_PRINTABLE_FLAG_BINARY :: int where
  "QUOTED_PRINTABLE_FLAG_BINARY = 0x0001"

definition QUOTED_PRINTABLE_FLAG_EDBIC :: int where
  "QUOTED_PRINTABLE_FLAG_EDBIC = 0x0002"

definition QUOTED_PRINTABLE_FLAG_LFONLY :: int where
  "QUOTED_PRINTABLE_FLAG_LFONLY = 0x0004"

definition QUOTED_PRINTABLE_FLAG_NO_LONE_PERIOD :: int where
  "QUOTED_PRINTABLE_FLAG_NO_LONE_PERIOD = 0x0008"

section \<open>The encoder\<close>

record qp_result =
  qp_flags :: int
  qp_buffer :: char
  qp_text :: string
  qp_line :: int
  qp_cr :: bool

definition qp_start :: "int \<Rightarrow> qp_result" where
  "qp_start flags = \<lparr>qp_flags = flags, qp_buffer = CHR 0x00, qp_text = [], qp_line = 0, qp_cr = False\<rparr>"

definition qp_flag :: "qp_result \<Rightarrow> int \<Rightarrow> bool" where
  "qp_flag r flag \<longleftrightarrow> (qp_flags r AND flag) \<noteq> 0"

definition to_hex :: "nat \<Rightarrow> char" where
  "to_hex n =
     (let c = n mod 16 in if c \<le> 9 then char_of (c + 48) else char_of (c + 65 - 10))"

definition soft_break :: "qp_result \<Rightarrow> qp_result" where
  "soft_break r =
     r\<lparr>qp_text := qp_text r @
         (if \<not> qp_flag r QUOTED_PRINTABLE_FLAG_LFONLY then [CHR ''='', CHR 0x0D, CHR 0x0A]
          else [CHR ''='', CHR 0x0A]),
       qp_line := 0\<rparr>"

definition add_byte :: "char \<Rightarrow> qp_result \<Rightarrow> qp_result" where
  "add_byte c r =
     (if c = CHR 0x0A \<or> c = CHR 0x0D then
        (if c \<noteq> CHR 0x0D \<or> \<not> qp_flag r QUOTED_PRINTABLE_FLAG_LFONLY
         then r\<lparr>qp_text := qp_text r @ [c]\<rparr> else r)\<lparr>qp_line := 0\<rparr>
      else
        (let r1 = (if qp_line r \<ge> 75 then soft_break r else r)
         in r1\<lparr>qp_text := qp_text r1 @ [c], qp_line := qp_line r1 + 1\<rparr>))"

definition add_hex :: "char \<Rightarrow> qp_result \<Rightarrow> qp_result" where
  "add_hex c r =
     (let r1 = (if qp_line r \<ge> 73 then soft_break r else r)
      in add_byte (to_hex (of_char c)) (add_byte (to_hex (of_char c div 16)) (add_byte (CHR ''='') r1)))"

definition add_data :: "char \<Rightarrow> qp_result \<Rightarrow> qp_result" where
  "add_data c r =
     (if c = CHR '' '' \<or> c = CHR 0x09 then
        (if qp_buffer r \<noteq> CHR 0x00 then add_byte (qp_buffer r) r else r)\<lparr>qp_buffer := c\<rparr>
      else if c = CHR 0x0A \<and> qp_cr r then r\<lparr>qp_cr := False\<rparr>
      else
        (let r1 = r\<lparr>qp_cr := (c = CHR 0x0D)\<rparr>
         in if c = CHR 0x0A \<or> c = CHR 0x0D
            then add_byte (CHR 0x0A) (add_byte (CHR 0x0D)
                   (if qp_buffer r1 \<noteq> CHR 0x00
                    then (add_hex (qp_buffer r1) r1)\<lparr>qp_buffer := CHR 0x00\<rparr> else r1))
            else add_byte c
                   (if qp_buffer r1 \<noteq> CHR 0x00
                    then (add_byte (qp_buffer r1) r1)\<lparr>qp_buffer := CHR 0x00\<rparr> else r1)))"

definition encode_char :: "qp_result \<Rightarrow> char \<Rightarrow> bool" where
  "encode_char r c =
     (if c \<in> set [CHR 0x0A, CHR 0x0D, CHR 0x09, CHR '' ''] then qp_flag r QUOTED_PRINTABLE_FLAG_BINARY
      else if c = CHR ''='' then True
      else if c \<in> set (CHR 0x22 # CHR 0x5C # CHR 0x60 # ''!#$@[]^{|}~'') then qp_flag r QUOTED_PRINTABLE_FLAG_EDBIC
      else \<not> (CHR '' '' \<le> c \<and> c \<le> CHR ''~''))"

definition add_char :: "char \<Rightarrow> qp_result \<Rightarrow> qp_result" where
  "add_char c r = (if encode_char r c then add_hex c r else add_data c r)"

text \<open>The loop of \<open>add_string\<close> on the rest of the string; \<open>s[1]\<close> is NUL at the end.\<close>

fun add_chars :: "string \<Rightarrow> qp_result \<Rightarrow> qp_result" where
  "add_chars [] r = r"
| "add_chars (c # s) r =
     add_chars s
       (if qp_flag r QUOTED_PRINTABLE_FLAG_NO_LONE_PERIOD \<and> c = CHR ''.''
           \<and> (s = [] \<or> hd s = CHR 0x0D \<or> hd s = CHR 0x0A) \<and> (qp_line r = 0 \<or> qp_line r \<ge> 75)
        then add_hex (CHR ''.'') r else add_char c r)"

definition add_string :: "string \<Rightarrow> qp_result \<Rightarrow> qp_result" where
  "add_string s r =
     (let r1 = add_chars s (r\<lparr>qp_buffer := CHR 0x00\<rparr>)
      in if qp_buffer r1 \<noteq> CHR 0x00 then (add_hex (qp_buffer r1) r1)\<lparr>qp_buffer := CHR 0x00\<rparr> else r1)"

definition qp_encode :: "string \<Rightarrow> int \<Rightarrow> string" where
  "qp_encode input flags = qp_text (add_string (c_string input) (qp_start flags))"

section \<open>The decoder\<close>

definition from_hex :: "char \<Rightarrow> int" where
  "from_hex c =
     (if CHR ''0'' \<le> c \<and> c \<le> CHR ''9'' then of_char c - 48
      else if CHR ''a'' \<le> c \<and> c \<le> CHR ''f'' then of_char c - 97 + 10
      else if CHR ''A'' \<le> c \<and> c \<le> CHR ''F'' then of_char c - 65 + 10
      else -1)"

text \<open>
  How far the pointer moves over a soft line break (\<open>continue\<close> in the loop of \<open>get_byte\<close>),
  0 when there is none.
\<close>

definition break_length :: "string \<Rightarrow> nat" where
  "break_length s =
     (if take 3 s = [CHR ''='', CHR 0x0D, CHR 0x0A] then 3
      else if take 2 s = [CHR ''='', CHR 0x0D] then 2
      else if take 2 s = [CHR ''='', CHR 0x0A] then 2
      else 0)"

function get_byte :: "string \<Rightarrow> char \<times> string" where
  "get_byte s =
     (if s = [] then (CHR 0x00, [])
      else if break_length s \<noteq> 0 then get_byte (drop (break_length s) s)
      else (hd s, tl s))"
  by pat_completeness auto

termination
  by (relation "measure length") auto

declare get_byte.simps [simp del]

definition qp_getc :: "string \<Rightarrow> char \<times> string" where
  "qp_getc s =
     (let (c, s1) = get_byte s
      in if c = CHR 0x00 then (CHR 0x00, s1)
         else if c = CHR ''='' then
           (let (c2, s2) = get_byte s1; p = from_hex c2
            in if p = -1 then (CHR ''?'', s2)
               else (let (c3, s3) = get_byte s2; q = from_hex c3
                     in if q = -1 then (CHR ''?'', s3) else (char_of (p * 16 + q), s3)))
         else (c, s1))"

lemma get_byte_bound:
  "length (snd (get_byte s)) \<le> length s
   \<and> (fst (get_byte s) \<noteq> CHR 0x00 \<longrightarrow> length (snd (get_byte s)) < length s)"
proof (induction s rule: get_byte.induct)
  case (1 s)
  have "s \<noteq> [] \<Longrightarrow> break_length s \<noteq> 0 \<Longrightarrow> length (drop (break_length s) s) < length s" by simp
  with 1 show ?case by (subst (1 2 3) get_byte.simps) (auto simp del: length_drop)
qed

lemmas get_byte_length = get_byte_bound [THEN conjunct1]

lemma get_byte_shrinks: "fst (get_byte s) \<noteq> CHR 0x00 \<Longrightarrow> length (snd (get_byte s)) < length s"
  using get_byte_bound by blast

lemma qp_getc_shrinks:
  assumes "qp_getc s = (c, s')" "c \<noteq> CHR 0x00"
  shows "length s' < length s"
proof -
  obtain b s1 where b: "get_byte s = (b, s1)" by force
  have "b \<noteq> CHR 0x00" using assms b by (auto simp: qp_getc_def)
  then have "length s1 < length s" using get_byte_shrinks [of s] b by simp
  then show ?thesis
    using assms b get_byte_length [of s1] get_byte_length [of "snd (get_byte s1)"]
    by (auto simp: qp_getc_def Let_def split: prod.splits if_splits)
qed

function qp_process :: "string \<Rightarrow> string" where
  "qp_process s = (let (c, s') = qp_getc s in if c = CHR 0x00 then [] else c # qp_process s')"
  by pat_completeness auto

termination
  by (relation "measure length") (auto dest: qp_getc_shrinks [OF sym])

declare qp_process.simps [simp del]

definition qp_decode :: "string \<Rightarrow> string" where
  "qp_decode input = qp_process (c_string input)"

end
