(* ===== verification/MailProps.thy ===== *)
theory MailProps
  imports QuotedPrintable CommCodec
begin

text \<open>
  The quoted-printable encoder and decoder fit together: what each step of the encoder appends
  means, to the decoder, the characters it was given. In binary mode every text comes back; in
  text mode only when no space is followed by a character that gets encoded, because the
  encoder then writes the two in the wrong order.
\<close>

unbundle bit_operations_syntax

section \<open>The decoder on one token\<close>

lemma take_CR_LF [simp]:
  "c \<noteq> CHR ''='' \<Longrightarrow> break_length (c # s) = 0"
  "h \<noteq> CHR 0x0A \<Longrightarrow> h \<noteq> CHR 0x0D \<Longrightarrow> break_length (CHR ''='' # h # s) = 0"
  "break_length (CHR ''='' # CHR 0x0D # CHR 0x0A # s) = 3"
  "break_length (CHR ''='' # CHR 0x0A # s) = 2"
  by (simp_all add: break_length_def numeral_2_eq_2 numeral_3_eq_3)

lemma get_byte_soft [simp]:
  "get_byte (CHR ''='' # CHR 0x0D # CHR 0x0A # s) = get_byte s"
  "get_byte (CHR ''='' # CHR 0x0A # s) = get_byte s"
  by (subst get_byte.simps, simp)+

lemma get_byte_plain [simp]:
  "c \<noteq> CHR ''='' \<Longrightarrow> get_byte (c # s) = (c, s)"
  "h \<noteq> CHR 0x0A \<Longrightarrow> h \<noteq> CHR 0x0D \<Longrightarrow> get_byte (CHR ''='' # h # s) = (CHR ''='', h # s)"
  by (subst get_byte.simps, simp)+

lemma process_soft:
  "qp_process (CHR ''='' # CHR 0x0D # CHR 0x0A # s) = qp_process s"
  "qp_process (CHR ''='' # CHR 0x0A # s) = qp_process s"
  by (subst (1 2) qp_process.simps, simp add: qp_getc_def)+

lemma process_plain:
  "c \<noteq> CHR ''='' \<Longrightarrow> c \<noteq> CHR 0x00 \<Longrightarrow> qp_process (c # s) = c # qp_process s"
  by (subst qp_process.simps) (simp add: qp_getc_def)

lemma to_hex_mod: "to_hex n = to_hex (n mod 16)"
  by (simp add: to_hex_def)

lemma to_hex_table:
  "list_all (\<lambda>n. from_hex (to_hex n) = int n
     \<and> to_hex n \<notin> set [CHR 0x00, CHR 0x0A, CHR 0x0D, CHR ''='']) [0..<16]"
  by code_simp

lemma to_hex_facts:
  "from_hex (to_hex n) = int (n mod 16)"
  "to_hex n \<noteq> CHR 0x00" "to_hex n \<noteq> CHR 0x0A" "to_hex n \<noteq> CHR 0x0D" "to_hex n \<noteq> CHR ''=''"
proof -
  have "n mod 16 \<in> set [0..<16]" by simp
  then show "from_hex (to_hex n) = int (n mod 16)"
    "to_hex n \<noteq> CHR 0x00" "to_hex n \<noteq> CHR 0x0A" "to_hex n \<noteq> CHR 0x0D" "to_hex n \<noteq> CHR ''=''"
    using to_hex_table unfolding list_all_iff to_hex_mod [of n]
    by (metis list.set_intros)+
qed

definition hex_token :: "char \<Rightarrow> string" where
  "hex_token c = [CHR ''='', to_hex (of_char c div 16), to_hex (of_char c)]"

lemma nibbles: "n < (256::nat) \<Longrightarrow> int (n div 16 mod 16) * 16 + int (n mod 16) = int n"
proof -
  assume "n < 256"
  then have "n div 16 mod 16 * 16 + n mod 16 = n" by simp
  then show ?thesis by (metis of_nat_add of_nat_mult of_nat_numeral)
qed

lemma process_hex:
  assumes "c \<noteq> CHR 0x00"
  shows "qp_process (hex_token c @ s) = c # qp_process s"
proof -
  have lt: "of_char c < (256::nat)" by simp
  have v: "int (of_char c div 16 mod 16) * 16 + int (of_char c mod 16) = int (of_char c)"
    by (rule nibbles [OF lt])
  have "char_of (int (of_char c div 16 mod 16) * 16 + int (of_char c mod 16)) = c"
    unfolding v by (simp add: of_char_of)
  then show ?thesis
    using assms
    by (subst qp_process.simps) (simp add: hex_token_def qp_getc_def to_hex_facts)
qed

section \<open>What the encoder wrote\<close>

definition means :: "string \<Rightarrow> string \<Rightarrow> bool" where
  "means out s \<longleftrightarrow> (\<forall>rest. qp_process (out @ rest) = s @ qp_process rest) \<and> CHR 0x00 \<notin> set out"

lemma means_Nil: "means [] []"
  by (simp add: means_def)

lemma means_append: "means o1 s1 \<Longrightarrow> means o2 s2 \<Longrightarrow> means (o1 @ o2) (s1 @ s2)"
  by (simp add: means_def)

lemma means_soft:
  "means [CHR ''='', CHR 0x0D, CHR 0x0A] []" "means [CHR ''='', CHR 0x0A] []"
  by (simp_all add: means_def process_soft)

lemma means_plain: "c \<noteq> CHR ''='' \<Longrightarrow> c \<noteq> CHR 0x00 \<Longrightarrow> means [c] [c]"
  by (simp add: means_def process_plain)

lemma means_hex: "c \<noteq> CHR 0x00 \<Longrightarrow> means (hex_token c) [c]"
  using to_hex_facts(2) [THEN not_sym] by (simp add: means_def process_hex) (simp add: hex_token_def)

lemma means_decode: "means out s \<Longrightarrow> qp_decode out = s"
proof -
  assume m: "means out s"
  have "qp_process [] = []" by (subst qp_process.simps) (simp add: qp_getc_def get_byte.simps)
  with m show ?thesis by (simp add: means_def qp_decode_def) (metis append_Nil2)
qed

text \<open>\<open>wrote r s r'\<close>: the step appended a text that means \<open>s\<close> and kept flags and buffer.\<close>

definition wrote :: "qp_result \<Rightarrow> string \<Rightarrow> qp_result \<Rightarrow> bool" where
  "wrote r s r' \<longleftrightarrow> (\<exists>out. qp_text r' = qp_text r @ out \<and> means out s)
     \<and> qp_flags r' = qp_flags r \<and> qp_buffer r' = qp_buffer r \<and> qp_cr r' = qp_cr r"

lemma wroteI:
  "qp_text r' = qp_text r @ out \<Longrightarrow> means out s \<Longrightarrow> qp_flags r' = qp_flags r \<Longrightarrow>
   qp_buffer r' = qp_buffer r \<Longrightarrow> qp_cr r' = qp_cr r \<Longrightarrow> wrote r s r'"
  by (auto simp: wrote_def)

lemma wrote_refl: "wrote r [] r"
  by (rule wroteI [of _ _ "[]"]) (simp_all add: means_Nil)

lemma wrote_trans:
  assumes "wrote r s r1" "wrote r1 t r2"
  shows "wrote r (s @ t) r2"
proof -
  obtain o1 o2 where "qp_text r1 = qp_text r @ o1" "means o1 s" "qp_text r2 = qp_text r1 @ o2" "means o2 t"
    using assms by (auto simp: wrote_def)
  then show ?thesis
    using assms by (intro wroteI [of _ _ "o1 @ o2"]) (auto simp: wrote_def intro: means_append)
qed

lemma wrote_soft: "wrote r [] (soft_break r)"
proof (cases "qp_flag r QUOTED_PRINTABLE_FLAG_LFONLY")
  case True
  then show ?thesis by (intro wroteI [OF _ means_soft(2)]) (simp_all add: soft_break_def)
next
  case False
  then show ?thesis by (intro wroteI [OF _ means_soft(1)]) (simp_all add: soft_break_def)
qed

definition eol :: "char \<Rightarrow> bool" where
  "eol c \<longleftrightarrow> c = CHR 0x0A \<or> c = CHR 0x0D"

lemma add_byte_plain:
  "\<not> eol c \<Longrightarrow> add_byte c r =
    (let r1 = (if qp_line r \<ge> 75 then soft_break r else r)
     in r1\<lparr>qp_text := qp_text r1 @ [c], qp_line := qp_line r1 + 1\<rparr>)"
  by (simp add: add_byte_def eol_def)

lemma wrote_byte:
  assumes "\<not> eol c" "c \<noteq> CHR ''=''" "c \<noteq> CHR 0x00"
  shows "wrote r [c] (add_byte c r)"
proof -
  let ?r1 = "if qp_line r \<ge> 75 then soft_break r else r"
  have "wrote r [] ?r1" by (simp add: wrote_soft wrote_refl)
  moreover have "wrote ?r1 [c] (?r1\<lparr>qp_text := qp_text ?r1 @ [c], qp_line := qp_line ?r1 + 1\<rparr>)"
    by (rule wroteI [of _ _ "[c]"]) (simp_all add: means_plain assms)
  ultimately have "wrote r ([] @ [c]) (?r1\<lparr>qp_text := qp_text ?r1 @ [c], qp_line := qp_line ?r1 + 1\<rparr>)"
    by (rule wrote_trans)
  then show ?thesis by (simp add: add_byte_plain [OF assms(1)] Let_def)
qed

lemma to_hex_not_eol: "\<not> eol (to_hex n)" "\<not> eol (CHR ''='')"
  by (simp_all add: eol_def to_hex_facts)

lemma add_hex_eq:
  "add_hex c r =
    (let r1 = (if qp_line r \<ge> 73 then soft_break r else r)
     in r1\<lparr>qp_text := qp_text r1 @ hex_token c, qp_line := qp_line r1 + 3\<rparr>)"
  by (simp add: add_hex_def add_byte_plain to_hex_not_eol Let_def soft_break_def hex_token_def)

lemma wrote_hex:
  assumes "c \<noteq> CHR 0x00"
  shows "wrote r [c] (add_hex c r)"
proof -
  let ?r1 = "if qp_line r \<ge> 73 then soft_break r else r"
  have "wrote r [] ?r1" by (simp add: wrote_soft wrote_refl)
  moreover have "wrote ?r1 [c] (?r1\<lparr>qp_text := qp_text ?r1 @ hex_token c, qp_line := qp_line ?r1 + 3\<rparr>)"
    by (rule wroteI [of _ _ "hex_token c"]) (simp_all add: means_hex assms)
  ultimately have "wrote r ([] @ [c]) (?r1\<lparr>qp_text := qp_text ?r1 @ hex_token c, qp_line := qp_line ?r1 + 3\<rparr>)"
    by (rule wrote_trans)
  then show ?thesis by (simp add: add_hex_eq Let_def)
qed

section \<open>Binary mode\<close>

definition binary :: "int \<Rightarrow> bool" where
  "binary flags \<longleftrightarrow> (flags AND QUOTED_PRINTABLE_FLAG_BINARY) \<noteq> 0"

lemma encode_char_cases:
  assumes "\<not> encode_char r c"
  shows "c \<noteq> CHR ''='' \<and> c \<noteq> CHR 0x00"
proof -
  have "encode_char r (CHR ''='')" "encode_char r (CHR 0x00)" by (simp_all add: encode_char_def)
  with assms show ?thesis by metis
qed

lemma encode_char_spaces:
  "c \<in> set [CHR 0x0A, CHR 0x0D, CHR 0x09, CHR '' ''] \<Longrightarrow> encode_char r c \<longleftrightarrow> binary (qp_flags r)"
  unfolding encode_char_def binary_def qp_flag_def by (simp only: if_True)

lemma add_data_plain:
  assumes "c \<notin> set [CHR 0x0A, CHR 0x0D, CHR 0x09, CHR '' '']" "qp_buffer r = CHR 0x00"
  shows "add_data c r = add_byte c (r\<lparr>qp_cr := False\<rparr>)"
  using assms by (simp add: add_data_def)

lemma wrote_char_binary:
  assumes "binary (qp_flags r)" "qp_buffer r = CHR 0x00" "\<not> qp_cr r" "c \<noteq> CHR 0x00"
  shows "wrote r [c] (add_char c r)"
proof (cases "encode_char r c")
  case True
  then show ?thesis by (simp add: add_char_def wrote_hex assms(4))
next
  case False
  then have c: "c \<notin> set [CHR 0x0A, CHR 0x0D, CHR 0x09, CHR '' '']"
    using encode_char_spaces [of c r] assms(1) by blast
  have "r\<lparr>qp_cr := False\<rparr> = r" using assms(3) by (cases r) simp
  with False show ?thesis
    using wrote_byte [of c r] encode_char_cases [OF False] c
    by (simp add: add_char_def add_data_plain [OF c assms(2)] eol_def assms(4))
qed

lemma wrote_chars_binary:
  "binary (qp_flags r) \<Longrightarrow> qp_buffer r = CHR 0x00 \<Longrightarrow> \<not> qp_cr r \<Longrightarrow> CHR 0x00 \<notin> set s \<Longrightarrow>
   wrote r s (add_chars s r)"
proof (induction s arbitrary: r)
  case Nil
  then show ?case by (simp add: wrote_refl)
next
  case (Cons c s)
  let ?r1 = "if qp_flag r QUOTED_PRINTABLE_FLAG_NO_LONE_PERIOD \<and> c = CHR ''.''
           \<and> (s = [] \<or> hd s = CHR 0x0D \<or> hd s = CHR 0x0A) \<and> (qp_line r = 0 \<or> qp_line r \<ge> 75)
        then add_hex (CHR ''.'') r else add_char c r"
  have w: "wrote r [c] ?r1"
    using wrote_char_binary [of r c] wrote_hex [of "CHR ''.''" r] Cons.prems by auto
  then have "wrote ?r1 s (add_chars s ?r1)"
    using Cons.prems by (intro Cons.IH) (auto simp: wrote_def)
  from wrote_trans [OF w this] show ?case by simp
qed

text \<open>
  Quoted-printable round trip. In binary mode, with any other flags, every text without a
  NUL is decoded to itself, wherever the lines were broken and whichever characters are escaped.
\<close>

theorem binary_mail_round_trip:
  assumes "(flags AND QUOTED_PRINTABLE_FLAG_BINARY) \<noteq> 0" "CHR 0x00 \<notin> set s"
  shows "qp_decode (qp_encode s flags) = s"
proof -
  let ?r = "qp_start flags"
  have w: "wrote ?r s (add_chars s ?r)"
    using assms by (intro wrote_chars_binary) (simp_all add: qp_start_def binary_def)
  then obtain out where "qp_text (add_chars s ?r) = out" "means out s"
    by (auto simp: wrote_def qp_start_def)
  moreover have "?r\<lparr>qp_buffer := CHR 0x00\<rparr> = ?r" "qp_buffer (add_chars s ?r) = CHR 0x00"
    using w by (simp_all add: wrote_def qp_start_def)
  ultimately show ?thesis
    using assms(2) by (simp add: qp_encode_def add_string_def Let_def means_decode)
qed

theorem binary_mail_round_trip_witness:
  "qp_encode ''a =b'' 1 = ''a=20=3Db'' \<and> qp_decode ''a=20=3Db'' = ''a =b''"
proof -
  have "qp_encode ''a =b'' 1 = ''a=20=3Db''" by code_simp
  then show ?thesis
    using binary_mail_round_trip [of 1 "''a =b''"] by (simp add: QUOTED_PRINTABLE_FLAG_BINARY_def)
qed

section \<open>Text mode\<close>

text \<open>
  In text mode a space or tab waits in \<open>f_buffer\<close> for the next character. \<open>emits r s r'\<close>: what
  was pending and \<open>s\<close> is now written, except for what is pending in \<open>r'\<close>.
\<close>

definition pending :: "qp_result \<Rightarrow> string" where
  "pending r = (if qp_buffer r = CHR 0x00 then [] else [qp_buffer r])"

definition emits :: "qp_result \<Rightarrow> string \<Rightarrow> qp_result \<Rightarrow> bool" where
  "emits r s r' \<longleftrightarrow>
     (\<exists>out w. qp_text r' = qp_text r @ out \<and> means out w \<and> pending r @ s = w @ pending r')
   \<and> qp_flags r' = qp_flags r \<and> qp_cr r' = qp_cr r"

lemma emitsI:
  "qp_text r' = qp_text r @ out \<Longrightarrow> means out w \<Longrightarrow> pending r @ s = w @ pending r' \<Longrightarrow>
   qp_flags r' = qp_flags r \<Longrightarrow> qp_cr r' = qp_cr r \<Longrightarrow> emits r s r'"
  unfolding emits_def by blast

lemma emits_refl: "emits r [] r"
  by (rule emitsI [OF _ means_Nil]) simp_all

lemma emits_trans:
  assumes "emits r s r1" "emits r1 t r2"
  shows "emits r (s @ t) r2"
proof -
  obtain o1 w1 o2 w2 where o: "qp_text r1 = qp_text r @ o1" "means o1 w1" "pending r @ s = w1 @ pending r1"
      "qp_text r2 = qp_text r1 @ o2" "means o2 w2" "pending r1 @ t = w2 @ pending r2"
    using assms unfolding emits_def by blast
  have "pending r @ s @ t = (w1 @ w2) @ pending r2"
    using o(3,6) by (metis append.assoc)
  then show ?thesis
    using assms o means_append [OF o(2,5)] unfolding emits_def
    by (intro conjI exI [of _ "o1 @ o2"] exI [of _ "w1 @ w2"]) simp_all
qed

lemma wrote_emits:
  assumes "wrote r s r'" "pending r = []"
  shows "emits r s r'"
proof -
  obtain out where "qp_text r' = qp_text r @ out" "means out s" using assms by (auto simp: wrote_def)
  then show ?thesis
    using assms by (intro emitsI [of r' r out s]) (auto simp: wrote_def pending_def split: if_splits)
qed

lemma wrote_flush:
  assumes "wrote r (pending r) r'"
  shows "emits r [] (r'\<lparr>qp_buffer := CHR 0x00\<rparr>)"
proof -
  obtain out where "qp_text r' = qp_text r @ out" "means out (pending r)"
    using assms by (auto simp: wrote_def)
  then show ?thesis
    using assms by (intro emitsI [of _ r out "pending r"]) (simp_all add: wrote_def pending_def)
qed

definition blank :: "char \<Rightarrow> bool" where
  "blank c \<longleftrightarrow> c = CHR '' '' \<or> c = CHR 0x09"

definition flush_byte :: "qp_result \<Rightarrow> qp_result" where
  "flush_byte r =
     (if qp_buffer r \<noteq> CHR 0x00 then (add_byte (qp_buffer r) r)\<lparr>qp_buffer := CHR 0x00\<rparr> else r)"

definition flush_hex :: "qp_result \<Rightarrow> qp_result" where
  "flush_hex r =
     (if qp_buffer r \<noteq> CHR 0x00 then (add_hex (qp_buffer r) r)\<lparr>qp_buffer := CHR 0x00\<rparr> else r)"

lemma flush_buffer [simp]: "pending (flush_byte r) = []" "pending (flush_hex r) = []"
  by (auto simp: pending_def flush_byte_def flush_hex_def)

lemma emits_flush_byte:
  assumes "qp_buffer r = CHR 0x00 \<or> blank (qp_buffer r)"
  shows "emits r [] (flush_byte r)"
proof (cases "qp_buffer r = CHR 0x00")
  case True
  then show ?thesis by (simp add: flush_byte_def emits_refl)
next
  case False
  then have "wrote r [qp_buffer r] (add_byte (qp_buffer r) r)"
    using assms by (intro wrote_byte) (auto simp: blank_def eol_def)
  then show ?thesis using False wrote_flush by (simp add: flush_byte_def pending_def)
qed

lemma emits_flush_hex: "emits r [] (flush_hex r)"
proof (cases "qp_buffer r = CHR 0x00")
  case True
  then show ?thesis by (simp add: flush_hex_def emits_refl)
next
  case False
  then have "wrote r [qp_buffer r] (add_hex (qp_buffer r) r)" by (rule wrote_hex)
  then show ?thesis using False wrote_flush by (simp add: flush_hex_def pending_def)
qed

lemma add_data_cases:
  assumes "c \<noteq> CHR 0x0D" "\<not> qp_cr r"
  shows "add_data c r =
    (if blank c then (if qp_buffer r \<noteq> CHR 0x00 then add_byte (qp_buffer r) r else r)\<lparr>qp_buffer := c\<rparr>
     else if c = CHR 0x0A then add_byte (CHR 0x0A) (add_byte (CHR 0x0D) (flush_hex r))
     else add_byte c (flush_byte r))"
  using assms by (cases r) (simp add: add_data_def blank_def flush_byte_def flush_hex_def)

definition lf_only :: "int \<Rightarrow> bool" where
  "lf_only flags \<longleftrightarrow> (flags AND QUOTED_PRINTABLE_FLAG_LFONLY) \<noteq> 0"

lemma wrote_newline:
  assumes "lf_only (qp_flags r)"
  shows "wrote r [CHR 0x0A] (add_byte (CHR 0x0A) (add_byte (CHR 0x0D) r))"
  using assms
  by (intro wroteI [of _ _ "[CHR 0x0A]"])
    (simp_all add: add_byte_def qp_flag_def lf_only_def means_plain)

lemma emits_blank:
  assumes "qp_buffer r = CHR 0x00 \<or> blank (qp_buffer r)" "blank c"
  shows "emits r [c] ((if qp_buffer r \<noteq> CHR 0x00 then add_byte (qp_buffer r) r else r)\<lparr>qp_buffer := c\<rparr>)"
proof -
  let ?f = "flush_byte r"
  have "emits ?f [c] (?f\<lparr>qp_buffer := c\<rparr>)"
    using assms(2) flush_buffer(1) [of r]
    by (intro emitsI [OF _ means_Nil]) (auto simp: pending_def blank_def)
  from emits_trans [OF emits_flush_byte [OF assms(1)] this] show ?thesis
    by (simp add: flush_byte_def split: if_splits)
qed

lemma emits_data:
  assumes "qp_buffer r = CHR 0x00 \<or> blank (qp_buffer r)" "lf_only (qp_flags r)" "\<not> qp_cr r"
    "c \<notin> set [CHR 0x0D, CHR 0x00, CHR ''='']"
  shows "emits r [c] (add_data c r)"
proof -
  have cr: "c \<noteq> CHR 0x0D" using assms(4) by simp
  consider "blank c" | "\<not> blank c" "c = CHR 0x0A" | "\<not> blank c" "c \<noteq> CHR 0x0A" by blast
  then show ?thesis
  proof cases
    case 1
    then show ?thesis using emits_blank [OF assms(1)] by (simp add: add_data_cases [OF cr assms(3)])
  next
    case 2
    have "emits r ([] @ [c]) (add_byte (CHR 0x0A) (add_byte (CHR 0x0D) (flush_hex r)))"
      using 2 emits_flush_hex [of r] assms(2)
      by (intro emits_trans [OF emits_flush_hex] wrote_emits)
        (auto simp: emits_def intro: wrote_newline)
    with 2 show ?thesis unfolding add_data_cases [OF cr assms(3)] by simp
  next
    case 3
    have "emits r ([] @ [c]) (add_byte c (flush_byte r))"
      using 3 assms(4)
      by (intro emits_trans [OF emits_flush_byte [OF assms(1)]] wrote_emits wrote_byte)
        (auto simp: eol_def)
    with 3 show ?thesis by (simp add: add_data_cases [OF cr assms(3)])
  qed
qed

text \<open>The texts the encoder gets right: after a space or a tab, neither an escape nor a period.\<close>

definition escaped :: "int \<Rightarrow> char \<Rightarrow> bool" where
  "escaped flags c = encode_char (qp_start flags) c"

fun spaces_ok :: "int \<Rightarrow> string \<Rightarrow> bool" where
  "spaces_ok flags (c # d # s) \<longleftrightarrow>
     (blank c \<longrightarrow> \<not> escaped flags d \<and> d \<noteq> CHR ''.'') \<and> spaces_ok flags (d # s)"
| "spaces_ok flags s \<longleftrightarrow> True"

lemma encode_char_escaped: "encode_char r c = escaped (qp_flags r) c"
  by (simp add: escaped_def encode_char_def qp_flag_def qp_start_def)

definition ready_for :: "qp_result \<Rightarrow> string \<Rightarrow> bool" where
  "ready_for r s \<longleftrightarrow>
     (qp_buffer r = CHR 0x00 \<or> blank (qp_buffer r)) \<and> lf_only (qp_flags r) \<and> \<not> qp_cr r
   \<and> set s \<inter> {CHR 0x0D, CHR 0x00} = {} \<and> spaces_ok (qp_flags r) s
   \<and> (qp_buffer r \<noteq> CHR 0x00 \<longrightarrow> s = [] \<or> \<not> escaped (qp_flags r) (hd s) \<and> hd s \<noteq> CHR ''.'')"

lemma add_byte_keeps: "qp_buffer (add_byte c r) = qp_buffer r"
  by (simp add: add_byte_def Let_def soft_break_def)

lemma add_data_buffer:
  assumes "c \<noteq> CHR 0x0D" "\<not> qp_cr r"
  shows "qp_buffer (add_data c r) = (if blank c then c else CHR 0x00)"
  by (simp add: add_data_cases [OF assms] add_byte_keeps flush_hex_def flush_byte_def)

lemma add_hex_buffer: "qp_buffer (add_hex c r) = qp_buffer r"
  by (simp add: add_hex_eq Let_def soft_break_def)

lemma blank_escaped: "blank c \<Longrightarrow> escaped f c = binary f"
  using encode_char_spaces [of c "qp_start f"] by (auto simp: blank_def escaped_def qp_start_def)

lemma spaces_ok_Cons:
  "spaces_ok f (c # s) \<Longrightarrow>
   spaces_ok f s \<and> (blank c \<longrightarrow> s = [] \<or> \<not> escaped f (hd s) \<and> hd s \<noteq> CHR ''.'')"
  by (cases s) auto

lemma emits_char:
  assumes "ready_for r (c # s)" "\<not> binary (qp_flags r)"
  shows "emits r [c] (add_char c r) \<and> ready_for (add_char c r) s"
proof (cases "escaped (qp_flags r) c")
  case True
  then have b: "qp_buffer r = CHR 0x00" "c \<noteq> CHR 0x00" "\<not> blank c"
    using assms blank_escaped by (auto simp: ready_for_def)
  then have w: "wrote r [c] (add_char c r)"
    using True wrote_hex by (simp add: add_char_def encode_char_escaped)
  with b have "emits r [c] (add_char c r)"
    by (intro wrote_emits) (simp_all add: pending_def)
  with w show ?thesis
    using assms b(1) spaces_ok_Cons [of "qp_flags r" c s] by (auto simp: ready_for_def wrote_def)
next
  case False
  then have c: "c \<notin> set [CHR 0x0D, CHR 0x00, CHR ''='']"
    using assms encode_char_cases [of r c] by (auto simp: ready_for_def encode_char_escaped)
  have e: "add_char c r = add_data c r" using False by (simp add: add_char_def encode_char_escaped)
  have em: "emits r [c] (add_data c r)"
    using assms c by (intro emits_data) (auto simp: ready_for_def)
  have "qp_buffer (add_data c r) = (if blank c then c else CHR 0x00)"
    using assms c by (intro add_data_buffer) (auto simp: ready_for_def)
  with em show ?thesis
    using assms spaces_ok_Cons [of "qp_flags r" c s] by (auto simp: e ready_for_def emits_def)
qed

lemma emits_period:
  assumes "ready_for r (CHR ''.'' # s)"
  shows "emits r [CHR ''.''] (add_hex (CHR ''.'') r) \<and> ready_for (add_hex (CHR ''.'') r) s"
proof -
  have b: "qp_buffer r = CHR 0x00" using assms by (auto simp: ready_for_def)
  have w: "wrote r [CHR ''.''] (add_hex (CHR ''.'') r)" by (rule wrote_hex) simp
  then have "emits r [CHR ''.''] (add_hex (CHR ''.'') r)"
    using b by (intro wrote_emits) (simp_all add: pending_def)
  with w show ?thesis
    using assms b spaces_ok_Cons [of "qp_flags r" "CHR ''.''" s] by (auto simp: ready_for_def wrote_def)
qed

lemma emits_chars:
  "ready_for r s \<Longrightarrow> \<not> binary (qp_flags r) \<Longrightarrow> emits r s (add_chars s r)"
proof (induction s arbitrary: r)
  case Nil
  then show ?case by (simp add: emits_refl)
next
  case (Cons c s)
  let ?r1 = "if qp_flag r QUOTED_PRINTABLE_FLAG_NO_LONE_PERIOD \<and> c = CHR ''.''
           \<and> (s = [] \<or> hd s = CHR 0x0D \<or> hd s = CHR 0x0A) \<and> (qp_line r = 0 \<or> qp_line r \<ge> 75)
        then add_hex (CHR ''.'') r else add_char c r"
  have e: "emits r [c] ?r1 \<and> ready_for ?r1 s"
    using emits_char [OF Cons.prems] emits_period [of r s] Cons.prems(1) by auto
  then have "emits ?r1 s (add_chars s ?r1)"
    using Cons.prems(2) by (intro Cons.IH) (auto simp: emits_def)
  from emits_trans [OF conjunct1 [OF e] this] show ?case by simp
qed

text \<open>
  C18. Round trip of the mails that are sent. With lines that end in a line feed (the flag the
  sendmail plugin gives) and not in binary mode, a text without a carriage return or a NUL is
  decoded to itself, provided that no space or tab stands before an escaped character or a period.
\<close>

theorem text_mail_round_trip:
  assumes "(flags AND QUOTED_PRINTABLE_FLAG_LFONLY) \<noteq> 0" "(flags AND QUOTED_PRINTABLE_FLAG_BINARY) = 0"
    and "CHR 0x00 \<notin> set s" "CHR 0x0D \<notin> set s" "spaces_ok flags s"
  shows "qp_decode (qp_encode s flags) = s"
proof -
  let ?r = "qp_start flags" and ?e = "add_string s (qp_start flags)"
  have "ready_for ?r s" "\<not> binary (qp_flags ?r)"
    using assms by (auto simp: ready_for_def qp_start_def lf_only_def binary_def)
  then have "emits ?r s (add_chars s ?r)" by (rule emits_chars)
  moreover have "?e = flush_hex (add_chars s ?r)"
    by (simp add: add_string_def qp_start_def flush_hex_def Let_def)
  ultimately have "emits ?r (s @ []) ?e" using emits_flush_hex emits_trans by metis
  moreover have "pending ?e = []" by (simp add: \<open>?e = flush_hex (add_chars s ?r)\<close>)
  ultimately have "\<exists>out. qp_text ?e = out \<and> means out s"
    by (auto simp: emits_def qp_start_def pending_def)
  then show ?thesis using assms(3) by (auto simp: qp_encode_def means_decode)
qed

theorem text_mail_round_trip_witness:
  "qp_decode (qp_encode (''x=1, y '' @ [CHR 0x0A] @ ''.'') 12) = ''x=1, y '' @ [CHR 0x0A] @ ''.''"
proof -
  have "spaces_ok 12 (''x=1, y '' @ [CHR 0x0A] @ ''.'')" by code_simp
  then show ?thesis
    using text_mail_round_trip [of 12 "''x=1, y '' @ [CHR 0x0A] @ ''.''"]
    by (simp add: QUOTED_PRINTABLE_FLAG_BINARY_def QUOTED_PRINTABLE_FLAG_LFONLY_def)
qed

text \<open>
  The condition is needed. The encoder does not write a buffered space before an escape:
  with the flags of the sendmail plugin the space of \<open>a =b\<close> comes after the equal sign, and so
  it does before every letter that is not ASCII.
\<close>

theorem space_before_escape_moves:
  "qp_decode (qp_encode ''a =b'' 12) = ''a= b''
   \<and> qp_encode (''a '' @ [CHR 0xC3, CHR 0xA9, CHR ''t'']) 12 = ''a=C3=A9 t''"
  by code_simp

section \<open>Lines\<close>

text \<open>The lines of a text, carriage returns counted as line ends.\<close>

definition text_lines :: "string \<Rightarrow> string list" where
  "text_lines t = split_on (CHR 0x0A) (map (\<lambda>c. if c = CHR 0x0D then CHR 0x0A else c) t)"

lemma split_on_snoc:
  "split_on c (s @ [x]) =
     (if x = c then split_on c s @ [[]] else butlast (split_on c s) @ [last (split_on c s) @ [x]])"
  by (induction s) (auto split: list.splits)

lemma text_lines_Nil: "text_lines [] = [[]]"
  by (simp add: text_lines_def)

lemma text_lines_snoc:
  "text_lines (t @ [c]) =
     (if eol c then text_lines t @ [[]] else butlast (text_lines t) @ [last (text_lines t) @ [c]])"
  by (simp add: text_lines_def split_on_snoc eol_def)

lemma text_lines_not_Nil: "text_lines t \<noteq> []"
  by (simp add: text_lines_def)

definition mail_char :: "char \<Rightarrow> bool" where
  "mail_char c \<longleftrightarrow> eol c \<or> c = CHR 0x09 \<or> (CHR '' '' \<le> c \<and> c \<le> CHR ''~'')"

definition lines_ok :: "string \<Rightarrow> int \<Rightarrow> bool" where
  "lines_ok t n \<longleftrightarrow>
     (\<forall>l \<in> set (text_lines t). length l \<le> 76) \<and> int (length (last (text_lines t))) = n
   \<and> (\<forall>c \<in> set t. mail_char c)"

lemma lines_ok_eol: "lines_ok t n \<Longrightarrow> eol c \<Longrightarrow> lines_ok (t @ [c]) 0"
  by (auto simp: lines_ok_def text_lines_snoc mail_char_def)

lemma lines_ok_char:
  "lines_ok t n \<Longrightarrow> n \<le> 75 \<Longrightarrow> \<not> eol c \<Longrightarrow> mail_char c \<Longrightarrow> lines_ok (t @ [c]) (n + 1)"
  using in_set_butlastD [of _ "text_lines t"]
  by (auto simp: lines_ok_def text_lines_snoc)

definition line_ok :: "qp_result \<Rightarrow> bool" where
  "line_ok r \<longleftrightarrow> lines_ok (qp_text r) (qp_line r) \<and> qp_line r \<le> 75
     \<and> (qp_buffer r = CHR 0x00 \<or> blank (qp_buffer r))"

lemma hex_mail_chars: "mail_char (to_hex n)" "mail_char (CHR ''='')"
proof -
  have "list_all (\<lambda>n. mail_char (to_hex n)) [0..<16]" by code_simp
  moreover have "n mod 16 \<in> set [0..<16]" by simp
  ultimately show "mail_char (to_hex n)" unfolding list_all_iff to_hex_mod [of n] by blast
qed (simp add: mail_char_def)

lemma lines_ok_break:
  assumes "lines_ok t n" "n \<le> 75"
  shows "lines_ok (t @ [CHR ''='', CHR 0x0D, CHR 0x0A]) 0" "lines_ok (t @ [CHR ''='', CHR 0x0A]) 0"
proof -
  have e: "lines_ok (t @ [CHR ''='']) (n + 1)"
    by (rule lines_ok_char [OF assms to_hex_not_eol(2) hex_mail_chars(2)])
  have lf: "eol (CHR 0x0A)" and cr: "eol (CHR 0x0D)" by (simp_all add: eol_def)
  show "lines_ok (t @ [CHR ''='', CHR 0x0A]) 0" using lines_ok_eol [OF e lf] by simp
  show "lines_ok (t @ [CHR ''='', CHR 0x0D, CHR 0x0A]) 0"
    using lines_ok_eol [OF lines_ok_eol [OF e cr] lf] by simp
qed

lemma line_ok_soft: "line_ok r \<Longrightarrow> line_ok (soft_break r)"
  using lines_ok_break [of "qp_text r" "qp_line r"] by (auto simp: line_ok_def soft_break_def)

lemma line_ok_byte:
  assumes "line_ok r" "mail_char c" "\<not> eol c"
  shows "line_ok (add_byte c r)"
proof -
  let ?r1 = "if qp_line r \<ge> 75 then soft_break r else r"
  have "line_ok ?r1" "qp_line ?r1 < 75"
    using assms(1) line_ok_soft by (auto simp: soft_break_def)
  then have "line_ok (?r1\<lparr>qp_text := qp_text ?r1 @ [c], qp_line := qp_line ?r1 + 1\<rparr>)"
    using lines_ok_char [of "qp_text ?r1" "qp_line ?r1" c] assms(2,3)
    by (auto simp: line_ok_def simp del: append_assoc)
  then show ?thesis by (simp add: add_byte_plain [OF assms(3)] Let_def)
qed

lemma line_ok_newline:
  assumes "line_ok r"
  shows "line_ok (add_byte (CHR 0x0A) (add_byte (CHR 0x0D) r))"
proof -
  have lf: "eol (CHR 0x0A)" and cr: "eol (CHR 0x0D)" by (simp_all add: eol_def)
  have t: "lines_ok (qp_text r) (qp_line r)" using assms by (simp add: line_ok_def)
  show ?thesis
    using assms lines_ok_eol [OF t lf] lines_ok_eol [OF lines_ok_eol [OF t cr] lf]
    by (simp add: line_ok_def add_byte_def qp_flag_def)
qed

lemma line_ok_hex: "line_ok r \<Longrightarrow> line_ok (add_hex c r)"
  unfolding add_hex_def Let_def
  by (intro line_ok_byte hex_mail_chars to_hex_not_eol) (simp add: line_ok_soft)

lemma blank_mail_char: "blank c \<Longrightarrow> mail_char c \<and> \<not> eol c"
  by (auto simp: blank_def mail_char_def eol_def)

lemma line_ok_buffer: "line_ok r \<Longrightarrow> c = CHR 0x00 \<or> blank c \<Longrightarrow> line_ok (r\<lparr>qp_buffer := c\<rparr>)"
  by (simp add: line_ok_def)

lemma line_ok_flush: "line_ok r \<Longrightarrow> line_ok (flush_byte r)" "line_ok r \<Longrightarrow> line_ok (flush_hex r)"
proof -
  assume r: "line_ok r"
  then have "qp_buffer r \<noteq> CHR 0x00 \<Longrightarrow> line_ok (add_byte (qp_buffer r) r)"
    using line_ok_byte [OF r] blank_mail_char by (simp add: line_ok_def)
  then show "line_ok (flush_byte r)" "line_ok (flush_hex r)"
    using r line_ok_hex line_ok_buffer by (simp_all add: flush_byte_def flush_hex_def)
qed

lemma add_data_steps:
  "add_data c r =
    (if blank c then (if qp_buffer r \<noteq> CHR 0x00 then add_byte (qp_buffer r) r else r)\<lparr>qp_buffer := c\<rparr>
     else if c = CHR 0x0A \<and> qp_cr r then r\<lparr>qp_cr := False\<rparr>
     else if eol c
     then add_byte (CHR 0x0A) (add_byte (CHR 0x0D) (flush_hex (r\<lparr>qp_cr := (c = CHR 0x0D)\<rparr>)))
     else add_byte c (flush_byte (r\<lparr>qp_cr := False\<rparr>)))"
  by (auto simp: add_data_def blank_def eol_def flush_byte_def flush_hex_def Let_def)

lemma line_ok_cr: "line_ok r \<Longrightarrow> line_ok (r\<lparr>qp_cr := b\<rparr>)"
  by (simp add: line_ok_def)

lemma plain_mail_char:
  assumes "\<not> encode_char r c" "\<not> blank c" "\<not> eol c"
  shows "mail_char c"
proof (rule ccontr)
  assume n: "\<not> mail_char c"
  have ascii: "\<forall>d \<in> set (CHR ''='' # CHR 0x22 # CHR 0x5C # CHR 0x60 # ''!#$@[]^{|}~''). mail_char d"
    by (simp add: mail_char_def)
  have "c \<notin> set [CHR 0x0A, CHR 0x0D, CHR 0x09, CHR '' '']"
    using assms(2,3) by (simp add: blank_def eol_def)
  moreover have "c \<noteq> CHR ''=''" "c \<notin> set (CHR 0x22 # CHR 0x5C # CHR 0x60 # ''!#$@[]^{|}~'')"
    using ascii n by auto
  ultimately have "encode_char r c \<longleftrightarrow> \<not> (CHR '' '' \<le> c \<and> c \<le> CHR ''~'')"
    unfolding encode_char_def by (simp only: if_False)
  with assms(1) n show False by (simp add: mail_char_def)
qed

lemma line_ok_char:
  assumes "line_ok r"
  shows "line_ok (add_char c r)"
proof (cases "encode_char r c")
  case True
  then show ?thesis by (simp add: add_char_def line_ok_hex assms)
next
  case False
  note steps = line_ok_byte line_ok_newline line_ok_flush line_ok_cr assms
  have "line_ok (add_data c r)"
  proof (cases "blank c")
    case True
    then have "line_ok ((flush_byte r)\<lparr>qp_buffer := c\<rparr>)"
      by (intro line_ok_buffer steps) simp
    with True show ?thesis by (simp add: add_data_steps flush_byte_def split: if_splits)
  next
    case blank: False
    show ?thesis
    proof (cases "eol c")
      case True
      then show ?thesis using blank by (auto simp: add_data_steps intro: steps)
    next
      case noeol: False
      then have "c \<noteq> CHR 0x0A" by (auto simp: eol_def)
      with noeol blank show ?thesis
        using plain_mail_char [OF False blank noeol] by (auto simp: add_data_steps intro: steps)
    qed
  qed
  with False show ?thesis by (simp add: add_char_def)
qed

lemma line_ok_chars: "line_ok r \<Longrightarrow> line_ok (add_chars s r)"
  by (induction s arbitrary: r) (simp_all add: line_ok_char line_ok_hex)

text \<open>
  Whatever the text and the flags, no line of an encoded mail is longer than 76 characters,
  and only printable ASCII characters, tabs and line ends are left in it.
\<close>

theorem mail_lines_short:
  "list_all (\<lambda>l. length l \<le> 76) (text_lines (qp_encode s flags))
   \<and> list_all mail_char (qp_encode s flags)"
proof -
  have "line_ok ((qp_start flags)\<lparr>qp_buffer := CHR 0x00\<rparr>)"
    by (simp add: line_ok_def lines_ok_def qp_start_def text_lines_Nil)
  then have "line_ok (flush_hex (add_chars (c_string s) ((qp_start flags)\<lparr>qp_buffer := CHR 0x00\<rparr>)))"
    by (intro line_ok_flush line_ok_chars)
  then have "line_ok (add_string (c_string s) (qp_start flags))"
    by (simp add: add_string_def flush_hex_def Let_def)
  then show ?thesis by (simp add: qp_encode_def line_ok_def lines_ok_def list_all_iff)
qed

end
