(* ===== verification/FuzzyCompare.thy ===== *)
theory FuzzyCompare
  imports SnapPrelude
begin

text \<open>
  \<open>libsnapwebsites/src/snapwebsites/fuzzy_string_compare.cpp\<close>: the Levenshtein distance of two
  wide strings with two rows of integers, and the search of a needle in a haystack up to a
  distance. A \<open>std::wstring\<close> is a list of any characters; distances stay below the lengths, so
  the \<open>int\<close> of the code does not overflow on strings of less than \<open>2 ^ 31\<close> characters.
\<close>

section \<open>The code\<close>

definition fill_cell :: "'a \<Rightarrow> 'a list \<Rightarrow> int list \<Rightarrow> int list \<Rightarrow> nat \<Rightarrow> int list" where
  "fill_cell si t v0 v1 j =
     (let cost = (if si = t ! j then 0 else 1)
      in v1[j + 1 := min (v1 ! j + 1) (min (v0 ! (j + 1) + 1) (v0 ! j + cost))])"

definition fill_row :: "'a list \<Rightarrow> 'a list \<Rightarrow> int list \<times> int list \<Rightarrow> nat \<Rightarrow> int list \<times> int list" where
  "fill_row s t v i =
     (let (v0, v1) = v;
          v1' = foldl (fill_cell (s ! i) t v0) (v1[0 := int i + 1]) [0..<length t]
      in (v1', v0))"

definition levenshtein_distance :: "'a list \<Rightarrow> 'a list \<Rightarrow> int" where
  "levenshtein_distance s t =
     (if s = t then 0
      else if s = [] then int (length t)
      else if t = [] then int (length s)
      else
        (let v0 = map int [0..<length t + 1]; v1 = replicate (length t + 1) 0
         in fst (foldl (fill_row s t) (v0, v1) [0..<length s]) ! length t))"

text \<open>
  \<open>substr(pos, count)\<close>; the two loops are the positions and the lengths that are tried.
\<close>

definition substr :: "'a list \<Rightarrow> nat \<Rightarrow> nat \<Rightarrow> 'a list" where
  "substr s pos count = take count (drop pos s)"

definition strstr_with_levenshtein_distance :: "'a list \<Rightarrow> 'a list \<Rightarrow> int \<Rightarrow> bool res" where
  "strstr_with_levenshtein_distance haystack needle distance =
     (if distance \<le> 0 then Inl Invalid_parameters
      else if length needle \<ge> length haystack
      then Inr (levenshtein_distance haystack needle \<le> distance)
      else Inr
        (list_ex (\<lambda>i.
           let max_distance = min (i + nat distance) (length haystack) - i
           in list_ex (\<lambda>j.
                levenshtein_distance (substr haystack (i - length needle) (i + j)) needle \<le> distance)
              [0..<max_distance + 1])
          [length needle..<length haystack]))"

section \<open>Edits\<close>

text \<open>One edit inserts, deletes or replaces one character.\<close>

inductive edit :: "'a list \<Rightarrow> 'a list \<Rightarrow> bool" where
  insert: "edit (xs @ ys) (xs @ c # ys)"
| delete: "edit (xs @ c # ys) (xs @ ys)"
| replace: "edit (xs @ c # ys) (xs @ d # ys)"

fun ed :: "'a list \<Rightarrow> 'a list \<Rightarrow> nat" where
  "ed [] t = length t"
| "ed s [] = length s"
| "ed (a # s) (b # t) =
     min (ed (a # s) t + 1) (min (ed s (b # t) + 1) (ed s t + (if a = b then 0 else 1)))"

lemma ed_Nil [simp]: "ed s [] = length s"
  by (cases s) auto

lemma ed_Cons1: "ed (a # s) t \<le> ed s t + 1"
  by (cases t) auto

lemma ed_Cons2: "ed s (b # t) \<le> ed s t + 1"
  by (cases s) auto

lemma ed_tail: "ed s t \<le> ed s (c # t) + 1"
proof (induction s)
  case (Cons a s)
  then show ?case using ed_Cons1 [of a s t] by auto
qed simp

lemma ed_insert: "ed s (xs @ c # ys) \<le> ed s (xs @ ys) + 1"
proof (induction s xs rule: ed.induct)
  case (2 a s)
  show ?case using ed_Cons2 [of "a # s" c ys] by simp
qed auto

lemma ed_delete: "ed s (xs @ ys) \<le> ed s (xs @ c # ys) + 1"
proof (induction s xs rule: ed.induct)
  case (2 a s)
  show ?case using ed_tail [of "a # s" ys c] by simp
qed auto

lemma ed_head: "ed s (d # t) \<le> ed s (c # t) + 1"
  by (induction s) auto

lemma ed_replace: "ed s (xs @ d # ys) \<le> ed s (xs @ c # ys) + 1"
proof (induction s xs rule: ed.induct)
  case (2 a s)
  show ?case using ed_head [of "a # s" d ys c] by simp
qed auto

lemma ed_edit: "edit t u \<Longrightarrow> ed s u \<le> ed s t + 1"
  by (induction rule: edit.induct) (rule ed_insert ed_delete ed_replace)+

lemma ed_self: "ed s s = 0"
  by (induction s) auto

lemma ed_least: "(edit ^^ n) s t \<Longrightarrow> ed s t \<le> n"
proof (induction n arbitrary: t)
  case (Suc n)
  then obtain u where "(edit ^^ n) s u" "edit u t" by auto
  with Suc.IH ed_edit [of u t s] show ?case by fastforce
qed (simp add: ed_self)

lemma edit_Cons: "edit s t \<Longrightarrow> edit (a # s) (a # t)"
proof (induction rule: edit.induct)
  case (insert xs ys c)
  show ?case using edit.insert [of "a # xs" ys c] by simp
next
  case (delete xs c ys)
  show ?case using edit.delete [of "a # xs" c ys] by simp
next
  case (replace xs c ys d)
  show ?case using edit.replace [of "a # xs" c ys d] by simp
qed

lemma edits_Cons: "(edit ^^ n) s t \<Longrightarrow> (edit ^^ n) (a # s) (a # t)"
  by (induction n arbitrary: t) (auto intro: edit_Cons)

lemma edits_insert: "(edit ^^ n) s t \<Longrightarrow> (edit ^^ Suc n) s (b # t)"
  using edit.insert [of "[]" t b] by auto

lemma edits_delete: "(edit ^^ n) s t \<Longrightarrow> (edit ^^ Suc n) (a # s) t"
  using relpowp_Suc_I2 [of edit "a # s" s n t] edit.delete [of "[]" a s] by simp

lemma edits_replace: "(edit ^^ n) s t \<Longrightarrow> (edit ^^ Suc n) (a # s) (b # t)"
  by (rule relpowp_Suc_I2 [OF edit.replace [of "[]" a s b, simplified] edits_Cons])

lemma ed_reached: "(edit ^^ ed s t) s t"
proof (induction s t rule: ed.induct)
  case (1 t)
  have "(edit ^^ length t) [] t"
  proof (induction t)
    case (Cons c t)
    then show ?case using edits_insert [of "length t" "[]" t c] by simp
  qed simp
  then show ?case by simp
next
  case (2 a s)
  have "(edit ^^ length u) u []" for u :: "'a list"
  proof (induction u)
    case (Cons c u)
    then show ?case using edits_delete [of "length u" u "[]" c] by simp
  qed simp
  from this [of "a # s"] show ?case by (simp del: relpowp.simps)
next
  case (3 a s b t)
  consider "ed (a # s) (b # t) = Suc (ed (a # s) t)" | "ed (a # s) (b # t) = Suc (ed s (b # t))"
    | "a = b" "ed (a # s) (b # t) = ed s t" | "ed (a # s) (b # t) = Suc (ed s t)"
  proof -
    have "ed (a # s) (b # t) \<in> {Suc (ed (a # s) t), Suc (ed s (b # t)), ed s t + (if a = b then 0 else 1)}"
      by (simp add: min_def)
    then show ?thesis using that by (cases "a = b") (auto simp del: ed.simps)
  qed
  then show ?case
  proof cases
    case 1
    show ?thesis unfolding 1 by (rule edits_insert [OF 3(1)])
  next
    case 2
    show ?thesis unfolding 2 by (rule edits_delete [OF 3(2)])
  next
    case c: 3
    show ?thesis unfolding c(2) using edits_Cons [OF 3(3), of a] c(1) by simp
  next
    case 4
    show ?thesis unfolding 4 by (rule edits_replace [OF 3(3)])
  qed
qed

lemma edit_rev: "edit s t \<Longrightarrow> edit (rev s) (rev t)"
proof (induction rule: edit.induct)
  case (insert xs ys c)
  show ?case using edit.insert [of "rev ys" "rev xs" c] by simp
next
  case (delete xs c ys)
  show ?case using edit.delete [of "rev ys" c "rev xs"] by simp
next
  case (replace xs c ys d)
  show ?case using edit.replace [of "rev ys" c "rev xs" d] by simp
qed

lemma edits_rev: "(edit ^^ n) s t \<Longrightarrow> (edit ^^ n) (rev s) (rev t)"
  by (induction n arbitrary: t) (auto intro: edit_rev)

lemma ed_rev: "ed (rev s) (rev t) = ed s t"
proof (rule antisym)
  have le: "ed (rev s) (rev t) \<le> ed s t" for s t :: "'a list"
    by (intro ed_least edits_rev ed_reached)
  show "ed (rev s) (rev t) \<le> ed s t" by (rule le)
  show "ed s t \<le> ed (rev s) (rev t)" using le [of "rev s" "rev t"] by simp
qed

section \<open>The two rows\<close>

definition cell :: "'a list \<Rightarrow> 'a list \<Rightarrow> nat \<Rightarrow> nat \<Rightarrow> int" where
  "cell s t i j = int (ed (rev (take i s)) (rev (take j t)))"

lemma cell_first: "i \<le> length s \<Longrightarrow> cell s t i 0 = int i"
  by (simp add: cell_def)

lemma cell_top: "j \<le> length t \<Longrightarrow> cell s t 0 j = int j"
  by (simp add: cell_def)

lemma cell_Suc:
  "i < length s \<Longrightarrow> j < length t \<Longrightarrow>
   cell s t (Suc i) (Suc j) =
     min (cell s t (Suc i) j + 1)
       (min (cell s t i (Suc j) + 1) (cell s t i j + (if s ! i = t ! j then 0 else 1)))"
  by (simp add: cell_def take_Suc_conv_app_nth min_def)

definition is_row :: "'a list \<Rightarrow> 'a list \<Rightarrow> nat \<Rightarrow> nat \<Rightarrow> int list \<Rightarrow> bool" where
  "is_row s t i k v \<longleftrightarrow> length v = length t + 1 \<and> (\<forall>j \<le> k. v ! j = cell s t i j)"

lemma fill_cells:
  assumes "i < length s" "is_row s t i (length t) v0" "length v1 = length t + 1" "k \<le> length t"
  shows "is_row s t (Suc i) k (foldl (fill_cell (s ! i) t v0) (v1[0 := int i + 1]) [0..<k])"
  using assms(4)
proof (induction k)
  case 0
  then show ?case using assms(1,3) by (simp add: is_row_def cell_first)
next
  case (Suc k)
  let ?w = "foldl (fill_cell (s ! i) t v0) (v1[0 := int i + 1]) [0..<k]"
  have w: "is_row s t (Suc i) k ?w" using Suc by simp
  then have "fill_cell (s ! i) t v0 ?w k = ?w[Suc k := cell s t (Suc i) (Suc k)]"
    using assms(1,2) Suc.prems by (simp add: fill_cell_def is_row_def cell_Suc)
  then show ?case
    using w Suc.prems by (auto simp: is_row_def nth_list_update le_Suc_eq)
qed

definition rows :: "'a list \<Rightarrow> 'a list \<Rightarrow> nat \<Rightarrow> int list \<times> int list" where
  "rows s t k =
     foldl (fill_row s t) (map int [0..<length t + 1], replicate (length t + 1) 0) [0..<k]"

lemma rows_Suc: "rows s t (Suc k) = fill_row s t (rows s t k) k"
  by (simp add: rows_def)

lemma rows_0: "is_row s t 0 (length t) (fst (rows s t 0)) \<and> length (snd (rows s t 0)) = length t + 1"
proof -
  have "\<forall>j \<le> length t. map int [0..<length t + 1] ! j = int j"
    by (simp add: nth_append le_less)
  then show ?thesis by (simp add: rows_def is_row_def cell_top del: upt_Suc)
qed

lemma fill_rows:
  "k \<le> length s \<Longrightarrow>
   is_row s t k (length t) (fst (rows s t k)) \<and> length (snd (rows s t k)) = length t + 1"
proof (induction k)
  case (Suc k)
  obtain v0 v1 where v: "rows s t k = (v0, v1)" by force
  have "is_row s t (Suc k) (length t)
      (foldl (fill_cell (s ! k) t v0) (v1[0 := int k + 1]) [0..<length t])"
    using Suc by (intro fill_cells) (simp_all add: v)
  then show ?case
    using Suc by (simp add: v rows_Suc fill_row_def Let_def is_row_def)
qed (use rows_0 in blast)

lemma levenshtein_distance_ed: "levenshtein_distance s t = int (ed s t)"
proof -
  have "fst (rows s t (length s)) ! length t = int (ed s t)"
    using fill_rows [of "length s" s t] by (simp add: is_row_def cell_def ed_rev)
  then show ?thesis
    unfolding levenshtein_distance_def Let_def rows_def [symmetric] by (simp add: ed_self)
qed

text \<open>
  C19. The distance the two rows compute is the least number of edits (insertions, deletions,
  replacements of one character) that turn one string into the other: so many edits do, and
  fewer do not.
\<close>

theorem levenshtein_least_edits:
  "(edit ^^ nat (levenshtein_distance s t)) s t
   \<and> (\<forall>n. (edit ^^ n) s t \<longrightarrow> levenshtein_distance s t \<le> int n)"
  by (simp add: levenshtein_distance_ed ed_reached ed_least)

theorem levenshtein_least_edits_witness:
  "levenshtein_distance ''LOCK'' ''UNLOCKED'' = 4 \<and> \<not> (edit ^^ 3) ''LOCK'' ''UNLOCKED''"
proof -
  have "levenshtein_distance ''LOCK'' ''UNLOCKED'' = 4" by code_simp
  then show ?thesis
    using levenshtein_least_edits [of "''LOCK''" "''UNLOCKED''"] by fastforce
qed

section \<open>Searching\<close>

text \<open>
  The search finds nothing that is not there: when it returns true, some piece of the
  haystack is within the distance of the needle; a distance that is not positive throws.
\<close>

theorem strstr_sound:
  assumes "strstr_with_levenshtein_distance haystack needle distance = Inr True"
  shows "0 < distance \<and> (\<exists>xs piece ys n. haystack = xs @ piece @ ys \<and> int n \<le> distance
    \<and> (edit ^^ n) piece needle)"
proof (cases "length needle \<ge> length haystack")
  case True
  then have "0 < distance" "int (ed haystack needle) \<le> distance"
    using assms by (auto simp: strstr_with_levenshtein_distance_def levenshtein_distance_ed split: if_splits)
  then show ?thesis
    using ed_reached [of haystack needle]
    by (intro conjI exI [of _ "[]"] exI [of _ haystack] exI [of _ "ed haystack needle"]) simp_all
next
  case False
  then have "0 < distance" "\<exists>p q. levenshtein_distance (substr haystack p q) needle \<le> distance"
    using assms
    by (auto simp: strstr_with_levenshtein_distance_def list_ex_iff Let_def split: if_splits)
  moreover have "haystack = take p haystack @ substr haystack p q @ drop q (drop p haystack)" for p q
    by (simp only: substr_def append_take_drop_id)
  ultimately show ?thesis
    using ed_reached by (metis levenshtein_distance_ed)
qed

theorem strstr_sound_witness:
  "\<exists>xs piece ys n. ''abcxxx'' = xs @ piece @ ys \<and> int n \<le> 1 \<and> (edit ^^ n) piece ''abd''"
proof -
  have "strstr_with_levenshtein_distance ''abcxxx'' ''abd'' 1 = Inr True" by code_simp
  from strstr_sound [OF this] show ?thesis by blast
qed

text \<open>
  The converse does not hold: the length given to \<open>substr\<close> grows with the position, and a
  needle in the middle of the haystack is missed.
\<close>

lemma strstr_misses_needle:
  "strstr_with_levenshtein_distance ''yyyabczzz'' ''abc'' 1 = Inr False"
  by code_simp

end
