(* ===== verification/SnapVersion.thy ===== *)
theory SnapVersion
  imports SnapPrelude "HOL-Library.Word"
begin

text \<open>
  Names, versions and versioned filenames
  (\<open>libsnapwebsites/src/snapwebsites/snap_version.cpp\<close>). An error message is a constructor of
  \<open>version_error\<close> and an empty \<open>f_error\<close> is \<open>None\<close>; a version number is a \<open>uint32_t\<close>, read as an
  \<open>int\<close> where the code casts it. The cached text of a version is left out. The arithmetic of
  \<open>validate_version\<close> on an \<open>int\<close> that overflows is undefined behaviour.
\<close>

datatype version_error =
    Name_too_short | Name_start | Name_double_dash | Name_character | Name_ending_dash
  | Version_required | Version_ending_period | Version_number_expected | Version_character
  | Operator_not_recognized
  | Filename_extension | Filename_underscore | Filename_browser

datatype compare_t = COMPARE_INVALID | COMPARE_SMALLER | COMPARE_EQUAL | COMPARE_LARGER

section \<open>Names\<close>

definition lower :: "char \<Rightarrow> bool" where
  "lower c \<longleftrightarrow> \<not> (c < CHR ''a'' \<or> c > CHR ''z'')"

definition decimal :: "char \<Rightarrow> bool" where
  "decimal c \<longleftrightarrow> \<not> (c < CHR ''0'' \<or> c > CHR ''9'')"

fun inside_constraints :: "char \<Rightarrow> string \<Rightarrow> version_error option" where
  "inside_constraints p [] = None"
| "inside_constraints p (c # s) =
     (if c = CHR ''-'' then
        (if p = CHR ''-'' then Some Name_double_dash else inside_constraints c s)
      else if \<not> decimal c \<and> \<not> lower c then Some Name_character
      else inside_constraints c s)"

text \<open>\<open>None\<close> is returning true, with the error cleared.\<close>

definition validate_basic_name :: "string \<Rightarrow> version_error option" where
  "validate_basic_name name =
     (if length name < 2 then Some Name_too_short
      else if \<not> lower (name ! 0) then Some Name_start
      else (case inside_constraints (name ! 0) name of
              Some e \<Rightarrow> Some e
            | None \<Rightarrow> if last name = CHR ''-'' then Some Name_ending_dash else None))"

text \<open>\<open>indexOf("::")\<close>: what is before and after it.\<close>

fun split_scope :: "string \<Rightarrow> (string \<times> string) option" where
  "split_scope (a # b # s) =
     (if a = CHR '':'' \<and> b = CHR '':'' then Some ([], s)
      else map_option (\<lambda>(n, r). (a # n, r)) (split_scope (b # s)))"
| "split_scope s = None"

text \<open>The error, the name without its namespace, the namespace.\<close>

definition validate_name :: "string \<Rightarrow> version_error option \<times> string \<times> string" where
  "validate_name name =
     (case split_scope name of
        Some (namespace_string, rest) \<Rightarrow>
          (case validate_basic_name namespace_string of
             Some e \<Rightarrow> (Some e, rest, namespace_string)
           | None \<Rightarrow> (validate_basic_name rest, rest, namespace_string))
      | None \<Rightarrow> (validate_basic_name name, name, []))"

record name =
  n_name :: string
  n_namespace :: string
  n_error :: "version_error option"

definition new_name :: name where
  "new_name = \<lparr>n_name = [], n_namespace = [], n_error = None\<rparr>"

definition name_clear :: "name \<Rightarrow> name" where
  "name_clear n = n\<lparr>n_name := [], n_error := None\<rparr>"

definition set_name :: "string \<Rightarrow> name \<Rightarrow> bool \<times> name" where
  "set_name name_string n =
     (case validate_name name_string of
        (Some e, _, _) \<Rightarrow> (False, n\<lparr>n_error := Some e\<rparr>)
      | (None, the_name, namespace_string) \<Rightarrow>
          (True, n\<lparr>n_error := None, n_name := the_name, n_namespace := namespace_string\<rparr>))"

definition name_compare :: "name \<Rightarrow> name \<Rightarrow> compare_t" where
  "name_compare n rhs =
     (if n_error n \<noteq> None \<or> n_error rhs \<noteq> None then COMPARE_INVALID
      else if n_name n = ''any'' \<or> n_name rhs = ''any'' then COMPARE_EQUAL
      else if n_name n < n_name rhs then COMPARE_SMALLER
      else if n_name rhs < n_name n then COMPARE_LARGER
      else COMPARE_EQUAL)"

section \<open>Versions\<close>

type_synonym 'a validated = "version_error + 'a"

text \<open>The inner loop: the digits after the first one, up to a period or the end.\<close>

fun read_number :: "int \<Rightarrow> string \<Rightarrow> (int \<times> string) validated res" where
  "read_number value [] = Inr (Inr (value, []))"
| "read_number value (c # s) =
     (if \<not> decimal c then
        (if c \<noteq> CHR ''.'' then Inr (Inl Version_character)
         else if s = [] then Inl Snap_logic_error
         else Inr (Inr (value, s)))
      else if value * 10 + of_char c \<ge> 2 ^ 31 then Inl Undefined_behaviour
      else read_number (value * 10 + of_char c - 48) s)"

lemma read_number_length: "read_number v s = Inr (Inr (w, r)) \<Longrightarrow> length r \<le> length s"
  by (induction v s rule: read_number.induct) (auto split: if_splits)

function read_numbers :: "string \<Rightarrow> 32 word list validated res" where
  "read_numbers s =
     (case s of
        [] \<Rightarrow> Inr (Inr [])
      | c # r \<Rightarrow>
          if \<not> decimal c then Inr (Inl Version_number_expected)
          else (case read_number (of_char c - 48) r of
                  Inl e \<Rightarrow> Inl e
                | Inr (Inl e) \<Rightarrow> Inr (Inl e)
                | Inr (Inr (value, r')) \<Rightarrow>
                    rbind (read_numbers r') (\<lambda>v. Inr (map_sum (\<lambda>e. e) (\<lambda>v. word_of_int value # v) v))))"
  by pat_completeness auto

termination
  by (relation "measure length") (auto dest: read_number_length)

declare read_numbers.simps [simp del]

fun canonicalize :: "32 word list \<Rightarrow> 32 word list" where
  "canonicalize version =
     (if length version > 1 \<and> last version = 0 then canonicalize (butlast version) else version)"

declare canonicalize.simps [simp del]

definition validate_version :: "string \<Rightarrow> 32 word list validated res" where
  "validate_version version_string =
     (if length version_string < 1 then Inr (Inl Version_required)
      else if last version_string = CHR ''.'' then Inr (Inl Version_ending_period)
      else rbind (read_numbers version_string) (\<lambda>v. Inr (map_sum (\<lambda>e. e) canonicalize v)))"

section \<open>Operators\<close>

datatype operator_t =
    OPERATOR_UNORDERED | OPERATOR_EQUAL | OPERATOR_EXCEPT | OPERATOR_EARLIER | OPERATOR_LATER
  | OPERATOR_EARLIER_OR_EQUAL | OPERATOR_LATER_OR_EQUAL

definition validate_operator :: "string \<Rightarrow> operator_t validated" where
  "validate_operator operator_string =
     (if operator_string = ''='' \<or> operator_string = ''=='' then Inr OPERATOR_EQUAL
      else if operator_string = ''!='' \<or> operator_string = ''<>'' then Inr OPERATOR_EXCEPT
      else if operator_string = ''<'' then Inr OPERATOR_EARLIER
      else if operator_string = ''>'' then Inr OPERATOR_LATER
      else if operator_string = ''<='' then Inr OPERATOR_EARLIER_OR_EQUAL
      else if operator_string = ''>='' then Inr OPERATOR_LATER_OR_EQUAL
      else Inl Operator_not_recognized)"

record version_operator =
  o_operator :: operator_t
  o_error :: "version_error option"

definition new_operator :: version_operator where
  "new_operator = \<lparr>o_operator = OPERATOR_UNORDERED, o_error = None\<rparr>"

definition set_operator_string :: "string \<Rightarrow> version_operator \<Rightarrow> bool \<times> version_operator" where
  "set_operator_string operator_string vo =
     (case validate_operator operator_string of
        Inl e \<Rightarrow> (False, vo\<lparr>o_error := Some e\<rparr>)
      | Inr op \<Rightarrow> (True, vo\<lparr>o_error := None, o_operator := op\<rparr>))"

definition get_operator_string :: "operator_t \<Rightarrow> string" where
  "get_operator_string op =
     (case op of
        OPERATOR_UNORDERED \<Rightarrow> [] | OPERATOR_EQUAL \<Rightarrow> ''='' | OPERATOR_EXCEPT \<Rightarrow> ''!=''
      | OPERATOR_EARLIER \<Rightarrow> ''<'' | OPERATOR_LATER \<Rightarrow> ''>''
      | OPERATOR_EARLIER_OR_EQUAL \<Rightarrow> ''<='' | OPERATOR_LATER_OR_EQUAL \<Rightarrow> ''>='')"

record version =
  v_version :: "32 word list"
  v_error :: "version_error option"
  v_operator :: version_operator

definition new_version :: version where
  "new_version = \<lparr>v_version = [], v_error = None, v_operator = new_operator\<rparr>"

definition version_is_valid :: "version \<Rightarrow> bool" where
  "version_is_valid v \<longleftrightarrow> v_error v = None \<and> o_error (v_operator v) = None"

definition set_version :: "32 word list \<Rightarrow> version \<Rightarrow> version" where
  "set_version version_vector v = v\<lparr>v_error := None, v_version := canonicalize version_vector\<rparr>"

definition set_version_string :: "string \<Rightarrow> version \<Rightarrow> (bool \<times> version) res" where
  "set_version_string version_string v =
     rbind (validate_version version_string)
       (\<lambda>r. Inr (case r of Inl e \<Rightarrow> (False, v\<lparr>v_error := Some e\<rparr>)
                 | Inr version_vector \<Rightarrow> (True, set_version version_vector v)))"

definition set_operator :: "version_operator \<Rightarrow> version \<Rightarrow> version" where
  "set_operator op v = v\<lparr>v_operator := op\<rparr>"

definition get_version_string :: "version \<Rightarrow> string" where
  "get_version_string v =
     (case v_version v of
        [] \<Rightarrow> []
      | n # ns \<Rightarrow> dec (sint n) @ concat (map (\<lambda>n. CHR ''.'' # dec (sint n)) ns))"

definition get_opversion_string :: "version \<Rightarrow> string" where
  "get_opversion_string v =
     (if o_operator (v_operator v) \<noteq> OPERATOR_UNORDERED
      then get_operator_string (o_operator (v_operator v)) @ '' '' @ get_version_string v
      else get_version_string v)"

text \<open>The loop of \<open>compare\<close> from index \<open>i\<close>: the two vectors from there, zeros beyond an end.\<close>

definition version_at :: "32 word list \<Rightarrow> nat \<Rightarrow> int" where
  "version_at version i = (if i \<ge> length version then 0 else sint (version ! i))"

function compare_loop :: "32 word list \<Rightarrow> 32 word list \<Rightarrow> nat \<Rightarrow> compare_t" where
  "compare_loop lhs rhs i =
     (if i \<ge> max (length lhs) (length rhs) then COMPARE_EQUAL
      else if version_at lhs i < version_at rhs i then COMPARE_SMALLER
      else if version_at lhs i > version_at rhs i then COMPARE_LARGER
      else compare_loop lhs rhs (i + 1))"
  by pat_completeness auto

termination
  by (relation "measure (\<lambda>(lhs, rhs, i). max (length lhs) (length rhs) - i)") auto

declare compare_loop.simps [simp del]

definition version_compare :: "version \<Rightarrow> version \<Rightarrow> compare_t" where
  "version_compare v rhs =
     (if \<not> version_is_valid v \<or> \<not> version_is_valid rhs then COMPARE_INVALID
      else compare_loop (v_version v) (v_version rhs) 0)"

section \<open>Versioned filenames\<close>

record versioned_filename =
  f_error :: "version_error option"
  f_extension :: string
  f_name :: name
  f_version :: version
  f_browser :: name

definition versioned_filename :: "string \<Rightarrow> versioned_filename res" where
  "versioned_filename extension =
     (if extension = [] then Inl Invalid_extension
      else Inr
        \<lparr>f_error = None,
         f_extension = (if extension ! 0 \<noteq> CHR ''.'' then CHR ''.'' # extension else extension),
         f_name = new_name, f_version = new_version, f_browser = new_name\<rparr>)"

text \<open>\<open>QString\<close>: \<open>endsWith\<close>, \<open>indexOf(c, from)\<close>, \<open>lastIndexOf(c)\<close> plus one, \<open>mid(pos, n)\<close>.\<close>

definition ends_with :: "string \<Rightarrow> string \<Rightarrow> bool" where
  "ends_with s e \<longleftrightarrow> length e \<le> length s \<and> drop (length s - length e) s = e"

definition index_of :: "char \<Rightarrow> nat \<Rightarrow> string \<Rightarrow> nat option" where
  "index_of c from s =
     (let w = takeWhile (\<lambda>d. d \<noteq> c) (drop from s)
      in if from + length w < length s then Some (from + length w) else None)"

definition after_last :: "char \<Rightarrow> string \<Rightarrow> nat" where
  "after_last c s = length s - length (takeWhile (\<lambda>d. d \<noteq> c) (rev s))"

definition mid :: "string \<Rightarrow> nat \<Rightarrow> nat \<Rightarrow> string" where
  "mid s pos n = take n (drop pos s)"

definition filename_is_valid :: "versioned_filename \<Rightarrow> bool" where
  "filename_is_valid f \<longleftrightarrow> f_error f = None \<and> n_error (f_name f) = None
     \<and> version_is_valid (f_version f) \<and> n_error (f_browser f) = None"

text \<open>Where the parts of a filename are: the start, the two underscores, the end.\<close>

definition find_parts :: "string \<Rightarrow> string \<Rightarrow> (nat \<times> nat \<times> nat \<times> nat) validated" where
  "find_parts extension filename =
     (if \<not> ends_with filename extension then Inl Filename_extension
      else
        (let max_length = length filename - length extension;
             start = after_last CHR ''/'' filename
         in case index_of CHR ''_'' start filename of
              None \<Rightarrow> Inl Filename_underscore
            | Some p1 \<Rightarrow>
                if p1 > max_length then Inl Filename_underscore
                else (case index_of CHR ''_'' (p1 + 1) filename of
                        None \<Rightarrow> Inr (start, p1, max_length, max_length)
                      | Some p2 \<Rightarrow>
                          if p2 > max_length then Inr (start, p1, max_length, max_length)
                          else if p2 + 1 \<ge> max_length then Inl Filename_browser
                          else Inr (start, p1, p2, max_length))))"

definition set_filename :: "string \<Rightarrow> versioned_filename \<Rightarrow> (bool \<times> versioned_filename) res" where
  "set_filename filename f =
     (case find_parts (f_extension f) filename of
        Inl e \<Rightarrow> Inr (False, f\<lparr>f_error := Some e\<rparr>)
      | Inr (start, p1, p2, max_length) \<Rightarrow>
          let name = mid filename start (p1 - start);
              version_string = mid filename (p1 + 1) (p2 - (p1 + 1));
              browser = (if p2 < max_length then mid filename (p2 + 1) (max_length - p2 - 1) else [])
          in case fst (validate_name name) of
               Some e \<Rightarrow> Inr (False, f\<lparr>f_error := Some e\<rparr>)
             | None \<Rightarrow>
                 rbind (validate_version version_string) (\<lambda>v.
                   case v of
                     Inl e \<Rightarrow> Inr (False, f\<lparr>f_error := Some e\<rparr>)
                   | Inr _ \<Rightarrow>
                       (case (if p2 < max_length then validate_basic_name browser else None) of
                          Some e \<Rightarrow> Inr (False, f\<lparr>f_error := Some e\<rparr>)
                        | None \<Rightarrow>
                            rbind (set_version_string version_string (f_version f)) (\<lambda>(_, version).
                              Inr (True, f\<lparr>f_error := None, f_name := snd (set_name name (f_name f)),
                                f_version := version,
                                f_browser := (if browser = [] then name_clear (f_browser f)
                                              else snd (set_name browser (f_browser f)))\<rparr>)))))"

definition get_filename :: "bool \<Rightarrow> versioned_filename \<Rightarrow> string" where
  "get_filename extension f =
     (if \<not> filename_is_valid f then []
      else n_name (f_name f) @ ''_'' @ get_version_string (f_version f)
        @ (if n_name (f_browser f) = [] then [] else CHR ''_'' # n_name (f_browser f))
        @ (if extension then f_extension f else []))"

definition filename_compare :: "versioned_filename \<Rightarrow> versioned_filename \<Rightarrow> compare_t" where
  "filename_compare f rhs =
     (if \<not> filename_is_valid f then COMPARE_INVALID
      else (case name_compare (f_name f) (f_name rhs) of
              COMPARE_EQUAL \<Rightarrow>
                (case name_compare (f_browser f) (f_browser rhs) of
                   COMPARE_EQUAL \<Rightarrow> version_compare (f_version f) (f_version rhs)
                 | c \<Rightarrow> c)
            | c \<Rightarrow> c))"

end
