(* ===== verification/VersionProps.thy ===== *)
theory VersionProps
  imports SnapVersion Numbers
begin

text \<open>
  Versions: which names and versions are accepted, the order of versions, a version printed and
  read back, the canonical form of a versioned filename, and comparing with a filename that was
  refused.
\<close>

section \<open>Names\<close>

definition name_letter :: "char \<Rightarrow> bool" where
  "name_letter c \<longleftrightarrow> lower c \<or> decimal c \<or> c = CHR ''-''"

fun double_dash :: "string \<Rightarrow> bool" where
  "double_dash (a # b # s) \<longleftrightarrow> (a = CHR ''-'' \<and> b = CHR ''-'') \<or> double_dash (b # s)"
| "double_dash s \<longleftrightarrow> False"

lemma dash_not_alnum: "\<not> decimal (CHR ''-'')" "\<not> lower (CHR ''-'')"
  by (simp_all add: decimal_def lower_def)

lemma inside_constraints_None:
  "inside_constraints p s = None \<longleftrightarrow> list_all name_letter s \<and> \<not> double_dash (p # s)"
  by (induction p s rule: inside_constraints.induct) (auto simp: name_letter_def dash_not_alnum)

text \<open>
  The names that are accepted: at least two characters, a letter first, then letters, digits
  and dashes, no two dashes in a row and no dash at the end. Every other name is refused.
\<close>

theorem basic_names:
  "validate_basic_name s = None \<longleftrightarrow>
     (\<exists>c r. s = c # r \<and> r \<noteq> [] \<and> lower c \<and> list_all name_letter r \<and> \<not> double_dash s
        \<and> last s \<noteq> CHR ''-'')"
proof (cases s)
  case (Cons c r)
  have "c \<noteq> CHR ''-'' \<or> \<not> lower c" using dash_not_alnum by auto
  then show ?thesis
    using Cons inside_constraints_None [of c s]
    by (cases r) (auto simp: validate_basic_name_def name_letter_def split: option.splits)
qed (simp add: validate_basic_name_def)

lemma basic_name_letters: "validate_basic_name s = None \<Longrightarrow> list_all name_letter s \<and> length s \<ge> 2"
proof -
  assume "validate_basic_name s = None"
  then have "2 \<le> length s" "inside_constraints (s ! 0) s = None"
    by (auto simp: validate_basic_name_def split: if_splits option.splits)
  then show ?thesis by (simp add: inside_constraints_None)
qed

section \<open>Reading numbers\<close>

definition number_of :: "int \<Rightarrow> string \<Rightarrow> int" where
  "number_of v ds = foldl (\<lambda>v c. v * 10 + of_char c - 48) v ds"

lemma int_of_char: "(of_char c :: int) = int (of_char c)"
  by (simp add: of_nat_of_char)

lemma decimal_value: "decimal c \<Longrightarrow> 48 \<le> (of_char c :: int) \<and> (of_char c :: int) \<le> 57"
proof -
  assume "decimal c"
  then have "48 \<le> (of_char c :: nat) \<and> (of_char c :: nat) \<le> 57"
    by (simp add: decimal_def less_char_def not_less)
  then show ?thesis by (simp only: int_of_char) linarith
qed

lemma number_of_ge: "list_all decimal ds \<Longrightarrow> 0 \<le> v \<Longrightarrow> v \<le> number_of v ds"
proof (induction ds arbitrary: v)
  case (Cons c ds)
  let ?w = "v * 10 + of_char c - 48"
  have "v \<le> ?w" "0 \<le> ?w" using Cons.prems decimal_value [of c] by simp_all
  then show ?case using Cons.IH [of ?w] Cons.prems by (simp add: number_of_def)
qed (simp add: number_of_def)

lemma read_digits:
  "list_all decimal ds \<Longrightarrow> 0 \<le> v \<Longrightarrow> number_of v ds + 48 < 2 ^ 31 \<Longrightarrow>
   read_number v (ds @ r) = read_number (number_of v ds) r"
proof (induction ds arbitrary: v)
  case (Cons c ds)
  let ?w = "v * 10 + of_char c - 48"
  have w: "0 \<le> ?w" using Cons.prems decimal_value [of c] by simp
  have eq: "number_of v (c # ds) = number_of ?w ds" by (simp add: number_of_def)
  have "?w \<le> number_of ?w ds" using Cons.prems w by (intro number_of_ge) simp_all
  then have "\<not> v * 10 + of_char c \<ge> 2 ^ 31" using Cons.prems(3) eq by linarith
  then show ?case using Cons w eq by simp
qed (simp add: number_of_def)

lemma digit_decimal: "d < 10 \<Longrightarrow> decimal (digit d) \<and> (of_char (digit d) :: int) = 48 + int d"
proof -
  assume d: "d < 10"
  have v: "(of_char (digit d) :: nat) = 48 + d" using d by (simp add: of_char_digit)
  then have "(of_char (digit d) :: int) = 48 + int d" by (simp only: int_of_char)
  with v d show ?thesis by (simp add: decimal_def less_char_def)
qed

lemma dec_nat_digits: "list_all decimal (dec_nat n) \<and> number_of 0 (dec_nat n) = int n"
proof (induction n rule: dec_nat.induct)
  case (1 n)
  show ?case
  proof (cases "n < 10")
    case True
    then show ?thesis
      using digit_decimal [of n] by (subst (1 2) dec_nat.simps) (simp add: number_of_def)
  next
    case False
    moreover have "int (n div 10) * 10 + int (n mod 10) = int n"
      by (metis div_mult_mod_eq of_nat_add of_nat_mult of_nat_numeral)
    ultimately show ?thesis
      using 1 digit_decimal [of "n mod 10"]
      by (subst (1 2) dec_nat.simps) (simp add: number_of_def)
  qed
qed

section \<open>Versions as text\<close>

text \<open>A number the parser can read without overflow.\<close>

definition readable :: "32 word \<Rightarrow> bool" where
  "readable n \<longleftrightarrow> 0 \<le> sint n \<and> sint n + 48 < 2 ^ 31"

lemma dec_digits:
  assumes "readable n"
  shows "list_all decimal (dec (sint n)) \<and> number_of 0 (dec (sint n)) = sint n"
  using assms dec_nat_digits [of "nat (sint n)"] by (simp add: dec_def readable_def)

lemma read_numbers_first:
  assumes "list_all decimal ds" "ds \<noteq> []" "number_of 0 ds + 48 < 2 ^ 31"
  shows "read_numbers (ds @ r) =
    (case read_number (number_of 0 ds) r of
       Inl e \<Rightarrow> Inl e
     | Inr (Inl e) \<Rightarrow> Inr (Inl e)
     | Inr (Inr (value, r')) \<Rightarrow>
         rbind (read_numbers r') (\<lambda>v. Inr (map_sum (\<lambda>e. e) (\<lambda>v. word_of_int value # v) v)))"
proof -
  obtain c es where ds: "ds = c # es" using assms(2) by (cases ds) auto
  have n: "number_of 0 ds = number_of (of_char c - 48) es" by (simp add: ds number_of_def)
  have "read_number (of_char c - 48) (es @ r) = read_number (number_of 0 ds) r"
    using assms decimal_value [of c] unfolding n by (intro read_digits) (simp_all add: ds n)
  then show ?thesis
    using assms(1) by (subst read_numbers.simps) (simp add: ds)
qed

definition version_text :: "32 word list \<Rightarrow> string" where
  "version_text v =
     (case v of [] \<Rightarrow> []
      | n # ns \<Rightarrow> dec (sint n) @ concat (map (\<lambda>n. CHR ''.'' # dec (sint n)) ns))"

lemma get_version_string_text: "get_version_string v = version_text (v_version v)"
  by (simp add: get_version_string_def version_text_def)

lemma read_version_text:
  "v \<noteq> [] \<Longrightarrow> list_all readable v \<Longrightarrow> read_numbers (version_text v) = Inr (Inr v)"
proof (induction v)
  case (Cons n ns)
  have n: "list_all decimal (dec (sint n))" "number_of 0 (dec (sint n)) = sint n"
    "number_of 0 (dec (sint n)) + 48 < 2 ^ 31"
    using dec_digits [of n] Cons.prems by (auto simp: readable_def)
  note first = read_numbers_first [OF n(1) dec_not_Nil n(3)]
  show ?case
  proof (cases ns)
    case Nil
    have "read_numbers [] = Inr (Inr [])" by (simp add: read_numbers.simps)
    then show ?thesis using first [of "[]"] by (simp add: version_text_def Nil n(2))
  next
    case (Cons m ms)
    have t: "version_text (n # ns) = dec (sint n) @ CHR ''.'' # version_text ns"
      "version_text ns \<noteq> []"
      by (simp_all add: version_text_def Cons)
    have "\<not> decimal (CHR ''.'')" by (simp add: decimal_def)
    then have "read_number (number_of 0 (dec (sint n))) (CHR ''.'' # version_text ns)
        = Inr (Inr (sint n, version_text ns))"
      using t(2) n(2) by simp
    moreover have "read_numbers (version_text ns) = Inr (Inr ns)"
      using Cons.IH Cons.prems Cons by simp
    ultimately show ?thesis using first [of "CHR ''.'' # version_text ns"] by (simp add: t(1))
  qed
qed simp

lemma version_text_last: "v \<noteq> [] \<Longrightarrow> list_all readable v \<Longrightarrow> version_text v \<noteq> [] \<and> decimal (last (version_text v))"
proof (induction v)
  case (Cons n ns)
  have d: "decimal (last (dec (sint n)))"
    using dec_digits [of n] Cons.prems dec_not_Nil [of "sint n"]
    by (auto simp: list_all_iff)
  show ?case
  proof (cases ns)
    case Nil
    then show ?thesis using d by (simp add: version_text_def)
  next
    case (Cons m ms)
    then have "version_text (n # ns) = dec (sint n) @ CHR ''.'' # version_text ns"
      by (simp add: version_text_def)
    then show ?thesis using Cons.IH Cons.prems Cons by simp
  qed
qed simp

definition canonical :: "32 word list \<Rightarrow> bool" where
  "canonical v \<longleftrightarrow> v \<noteq> [] \<and> (length v > 1 \<longrightarrow> last v \<noteq> 0)"

lemma canonicalize_id: "canonical v \<Longrightarrow> canonicalize v = v"
  by (subst canonicalize.simps) (auto simp: canonical_def)

lemma canonicalize_canonical: "v \<noteq> [] \<Longrightarrow> canonical (canonicalize v)"
proof (induction v rule: canonicalize.induct)
  case (1 v)
  show ?case
  proof (cases "length v > 1 \<and> last v = 0")
    case True
    then have "butlast v \<noteq> []" by (cases v) auto
    then show ?thesis using 1(1) [OF True] True by (subst canonicalize.simps) simp
  next
    case False
    then have "canonicalize v = v" by (subst canonicalize.simps) (rule if_not_P)
    with False 1(2) show ?thesis by (auto simp: canonical_def)
  qed
qed

lemma canonicalize_set: "set (canonicalize v) \<subseteq> set v"
proof (induction v rule: canonicalize.induct)
  case (1 v)
  then show ?case
    by (subst canonicalize.simps) (auto dest: in_set_butlastD)
qed

lemma validate_version_text:
  assumes "canonical v" "list_all readable v"
  shows "validate_version (version_text v) = Inr (Inr v)"
proof -
  have ne: "v \<noteq> []" using assms(1) by (simp add: canonical_def)
  have l: "version_text v \<noteq> []" "decimal (last (version_text v))"
    using version_text_last [OF ne assms(2)] by simp_all
  then have "last (version_text v) \<noteq> CHR ''.''" by (auto simp: decimal_def)
  then show ?thesis
    using l(1) read_version_text [OF ne assms(2)] canonicalize_id [OF assms(1)]
    by (cases "version_text v") (simp_all add: validate_version_def)
qed

text \<open>
  Round trip of versions. The text of a version in canonical form, whose numbers leave room
  for one more character below \<open>2 ^ 31\<close>, is accepted and gives the same numbers back.
\<close>

theorem version_round_trip:
  assumes "canonical (v_version v)" "list_all readable (v_version v)"
  shows "returns (set_version_string (get_version_string v) w)
    (\<lambda>(ok, w'). ok \<and> v_version w' = v_version v \<and> v_error w' = None)"
  using validate_version_text [OF assms]
  by (simp add: set_version_string_def get_version_string_text set_version_def
      canonicalize_id [OF assms(1)])

theorem version_round_trip_witness:
  "returns (set_version_string ''1.0.12'' new_version) (\<lambda>(ok, w). ok \<and> v_version w = [1, 0, 12])"
proof -
  let ?v = "new_version\<lparr>v_version := [1, 0, 12]\<rparr>"
  have "canonical (v_version ?v)" "list_all readable (v_version ?v)"
    by (simp_all add: canonical_def readable_def)
  moreover have "get_version_string ?v = ''1.0.12''" by code_simp
  ultimately show ?thesis
    using version_round_trip [of ?v new_version] by (auto intro: returns_mono)
qed

section \<open>What the parser accepts\<close>

lemma read_number_bounds:
  "read_number v s = Inr (Inr (w, r)) \<Longrightarrow> 0 \<le> v \<Longrightarrow> v + 48 < 2 ^ 31 \<Longrightarrow> 0 \<le> w \<and> w + 48 < 2 ^ 31"
proof (induction v s rule: read_number.induct)
  case (2 v c s)
  show ?case
  proof (cases "decimal c")
    case True
    have "0 \<le> v * 10 + of_char c - 48" using decimal_value [OF True] 2(3) by simp
    then show ?thesis using 2 True by (auto split: if_splits)
  next
    case False
    then show ?thesis using 2 by (auto split: if_splits)
  qed
qed simp

lemma sint_of_int_small: "0 \<le> w \<Longrightarrow> w < 2 ^ 31 \<Longrightarrow> sint (word_of_int w :: 32 word) = w"
  by (simp add: int_word_sint)

lemma read_numbers_readable:
  "read_numbers s = Inr (Inr v) \<Longrightarrow> list_all readable v \<and> (s \<noteq> [] \<longrightarrow> v \<noteq> [])"
proof (induction s arbitrary: v rule: read_numbers.induct)
  case (1 s)
  show ?case
  proof (cases s)
    case Nil
    then show ?thesis using 1(2) by (simp add: read_numbers.simps)
  next
    case (Cons c r)
    then have c: "decimal c" using 1(2) by (auto simp: read_numbers.simps split: if_splits)
    have eq: "read_numbers s = (case read_number (of_char c - 48) r of
         Inl e \<Rightarrow> Inl e
       | Inr (Inl e) \<Rightarrow> Inr (Inl e)
       | Inr (Inr (value, r')) \<Rightarrow>
           rbind (read_numbers r') (\<lambda>v. Inr (map_sum (\<lambda>e. e) (\<lambda>v. word_of_int value # v) v)))"
      using c Cons by (subst read_numbers.simps) simp
    obtain w r' where w: "read_number (of_char c - 48) r = Inr (Inr (w, r'))"
      using 1(2) unfolding eq by (auto split: sum.splits)
    then obtain u where u: "read_numbers r' = Inr u" "map_sum (\<lambda>e. e) (\<lambda>v. word_of_int w # v) u = Inr v"
      using 1(2) unfolding eq by (auto simp: rbind_Inr_iff)
    then obtain vs where vs: "read_numbers r' = Inr (Inr vs)" "v = word_of_int w # vs"
      by (cases u) auto
    have "0 \<le> w \<and> w + 48 < 2 ^ 31"
      using read_number_bounds [OF w] decimal_value [OF c] by simp
    then have "readable (word_of_int w)"
      by (simp add: readable_def sint_of_int_small)
    moreover have "list_all readable vs" using 1(1) [OF Cons _ w refl refl vs(1)] c by simp
    ultimately show ?thesis by (simp add: vs(2))
  qed
qed

lemma validated_version:
  assumes "validate_version s = Inr (Inr v)"
  shows "canonical v \<and> list_all readable v"
proof -
  obtain x where x: "read_numbers s = Inr x" "map_sum (\<lambda>e. e) canonicalize x = Inr v" "s \<noteq> []"
    using assms by (auto simp: validate_version_def rbind_Inr_iff split: if_splits)
  then obtain u where u: "read_numbers s = Inr (Inr u)" "v = canonicalize u" "s \<noteq> []"
    by (cases x) auto
  then have "list_all readable u" "u \<noteq> []" using read_numbers_readable by auto
  then show ?thesis
    using canonicalize_canonical canonicalize_set [of u] by (auto simp: u(2) list_all_iff)
qed

section \<open>The order of versions\<close>

fun zero_padded :: "int list \<Rightarrow> int list \<Rightarrow> compare_t" where
  "zero_padded [] [] = COMPARE_EQUAL"
| "zero_padded (a # s) [] =
     (if a < 0 then COMPARE_SMALLER else if a > 0 then COMPARE_LARGER else zero_padded s [])"
| "zero_padded [] (b # t) =
     (if 0 < b then COMPARE_SMALLER else if 0 > b then COMPARE_LARGER else zero_padded [] t)"
| "zero_padded (a # s) (b # t) =
     (if a < b then COMPARE_SMALLER else if a > b then COMPARE_LARGER else zero_padded s t)"

lemma compare_loop_padded:
  "compare_loop l r i = zero_padded (map sint (drop i l)) (map sint (drop i r))"
proof (induction l r i rule: compare_loop.induct)
  case (1 l r i)
  show ?case
  proof (cases "i \<ge> max (length l) (length r)")
    case True
    then show ?thesis by (subst compare_loop.simps) simp
  next
    case False
    have d: "drop i x = (if i < length x then x ! i # drop (i + 1) x else [])" for x :: "32 word list"
      using Cons_nth_drop_Suc [of i x] by simp
    show ?thesis
      using 1 False by (subst compare_loop.simps, subst (1 2) d) (auto simp: version_at_def)
  qed
qed

lemma padded_positive:
  "\<forall>a \<in> set s. 0 \<le> a \<Longrightarrow> s \<noteq> [] \<Longrightarrow> last s \<noteq> 0 \<Longrightarrow>
   zero_padded s [] = COMPARE_LARGER \<and> zero_padded [] s = COMPARE_SMALLER"
proof (induction s)
  case (Cons a s)
  then show ?case by (cases "s = []") auto
qed simp

definition order_of :: "int list \<Rightarrow> int list \<Rightarrow> compare_t" where
  "order_of s t = (if s < t then COMPARE_SMALLER else if t < s then COMPARE_LARGER else COMPARE_EQUAL)"

lemma padded_order:
  "\<forall>a \<in> set s \<union> set t. 0 \<le> a \<Longrightarrow> s = [] \<or> last s \<noteq> 0 \<Longrightarrow> t = [] \<or> last t \<noteq> 0 \<Longrightarrow>
   zero_padded s t = order_of s t"
proof (induction s t rule: zero_padded.induct)
  case (2 a s)
  then show ?case using padded_positive [of "a # s"] by (simp add: order_of_def)
next
  case (3 b t)
  then show ?case using padded_positive [of "b # t"] by (simp add: order_of_def)
next
  case (4 a s b t)
  then show ?case by (auto simp: order_of_def split: if_splits)
qed (simp add: order_of_def)

lemma padded_order_canonical:
  assumes "\<forall>a \<in> set s \<union> set t. 0 \<le> a" "s \<noteq> []" "t \<noteq> []"
    "length s > 1 \<longrightarrow> last s \<noteq> 0" "length t > 1 \<longrightarrow> last t \<noteq> 0"
  shows "zero_padded s t = order_of s t"
proof -
  obtain a s' b t' where st: "s = a # s'" "t = b # t'" using assms(2,3) by (cases s; cases t) auto
  have "zero_padded s' t' = order_of s' t'"
    using assms st by (intro padded_order) auto
  then show ?thesis by (auto simp: st order_of_def)
qed

text \<open>
  The order of versions. On canonical versions whose numbers are below \<open>2 ^ 31\<close>, which is
  what the parser makes, \<open>compare\<close> is the lexicographic order of the lists of numbers: a total
  order in which two versions are equal only when all their numbers are.
\<close>

theorem version_compare_lexicographic:
  assumes "version_is_valid v" "version_is_valid w" "canonical (v_version v)" "canonical (v_version w)"
    and "\<forall>n \<in> set (v_version v) \<union> set (v_version w). 0 \<le> sint n"
  shows "version_compare v w =
    (if map sint (v_version v) < map sint (v_version w) then COMPARE_SMALLER
     else if map sint (v_version w) < map sint (v_version v) then COMPARE_LARGER
     else COMPARE_EQUAL)"
proof -
  have "zero_padded (map sint (v_version v)) (map sint (v_version w))
      = order_of (map sint (v_version v)) (map sint (v_version w))"
    using assms(3-5) by (intro padded_order_canonical) (auto simp: canonical_def last_map signed_eq_0_iff)
  then show ?thesis
    using assms(1,2) by (simp add: version_compare_def compare_loop_padded order_of_def)
qed

theorem version_compare_lexicographic_witness:
  "version_compare (new_version\<lparr>v_version := [1, 2]\<rparr>) (new_version\<lparr>v_version := [1, 2, 0, 1]\<rparr>)
   = COMPARE_SMALLER"
  by (subst version_compare_lexicographic)
    (simp_all add: version_is_valid_def new_version_def new_operator_def canonical_def)

section \<open>Filenames\<close>

text \<open>
  Comparing with a filename that was refused. \<open>compare\<close> checks its own filename only: after
  \<open>set_filename\<close> returned false on the right hand side, the result is the one it gave before,
  for the name that object held, and \<open>COMPARE_INVALID\<close> only the other way around.
\<close>

theorem refused_filename_compares:
  assumes "set_filename text rhs = Inr (False, rhs')"
  shows "filename_compare f rhs' = filename_compare f rhs \<and> filename_compare rhs' f = COMPARE_INVALID"
proof -
  have refused: "\<exists>e. rhs' = rhs\<lparr>f_error := Some e\<rparr>"
  proof (cases "find_parts (f_extension rhs) text")
    case (Inl e)
    then show ?thesis using assms by (auto simp: set_filename_def)
  next
    case (Inr parts)
    obtain start p1 p2 n where parts: "parts = (start, p1, p2, n)" by (cases parts)
    let ?version = "validate_version (mid text (p1 + 1) (p2 - (p1 + 1)))"
    consider (err) e where "?version = Inl e" | (refused) e where "?version = Inr (Inl e)"
      | (ok) v where "?version = Inr (Inr v)"
      by (cases ?version) (auto, metis sum.exhaust)
    then show ?thesis
      using assms Inr parts
      by cases (auto simp: set_filename_def Let_def rbind_Inr_iff split: option.splits if_splits)
  qed
  then have fields: "f_name rhs' = f_name rhs" "f_browser rhs' = f_browser rhs" "f_version rhs' = f_version rhs"
    "\<not> filename_is_valid rhs'"
    by (auto simp: filename_is_valid_def)
  show ?thesis unfolding filename_compare_def fields(1-3) using fields(4) by simp
qed

theorem refused_filename_compares_witness:
  "\<exists>f rhs rhs'. versioned_filename ''js'' = Inr rhs \<and> set_filename ''bad.js'' rhs = Inr (False, rhs')
     \<and> set_filename ''editor_1.2.js'' rhs = Inr (True, f) \<and> filename_compare f rhs' = COMPARE_LARGER"
proof -
  obtain rhs where rhs: "versioned_filename ''js'' = Inr rhs" by (simp add: versioned_filename_def)
  have e: "returns (versioned_filename ''js'') (\<lambda>rhs.
      returns (set_filename ''bad.js'' rhs) (\<lambda>(ok, rhs'). \<not> ok) \<and>
      returns (set_filename ''editor_1.2.js'' rhs) (\<lambda>(ok, f). ok \<and> filename_compare f rhs = COMPARE_LARGER))"
    by code_simp
  then obtain rhs' f where r: "set_filename ''bad.js'' rhs = Inr (False, rhs')"
    "set_filename ''editor_1.2.js'' rhs = Inr (True, f)" "filename_compare f rhs = COMPARE_LARGER"
    by (auto simp: rhs returns_iff)
  with refused_filename_compares [OF r(1), of f] rhs show ?thesis by auto
qed

lemma index_of_found:
  "c \<notin> set w \<Longrightarrow> index_of c (length u) (u @ w @ c # r) = Some (length u + length w)"
  by (simp add: index_of_def Let_def takeWhile_upto)

lemma takeWhile_none: "c \<notin> set w \<Longrightarrow> takeWhile (\<lambda>d. d \<noteq> c) w = w"
  by (auto simp: takeWhile_eq_all_conv)

lemma index_of_none:
  "c \<notin> set w \<Longrightarrow> index_of c (length u) (u @ w) = None"
  by (simp add: index_of_def Let_def takeWhile_none)

lemma index_of_later:
  assumes "c \<notin> set w" "r = [] \<or> hd r \<noteq> c" "index_of c (length u) (u @ w @ r) = Some p"
  shows "length u + length w < p"
proof -
  have w: "takeWhile (\<lambda>d. d \<noteq> c) (w @ r) = w @ takeWhile (\<lambda>d. d \<noteq> c) r"
    using assms(1) by (intro takeWhile_append2) auto
  have p: "p = length u + length (takeWhile (\<lambda>d. d \<noteq> c) (w @ r))" "p < length u + length (w @ r)"
    using assms(3) by (auto simp: index_of_def Let_def split: if_splits)
  then have "r \<noteq> []" unfolding w by (cases r) auto
  then have "takeWhile (\<lambda>d. d \<noteq> c) r \<noteq> []" using assms(2) by (cases r) auto
  with p(1) show ?thesis unfolding w by simp
qed

lemma after_last_none: "c \<notin> set s \<Longrightarrow> after_last c s = 0"
  by (simp add: after_last_def takeWhile_none)

lemma after_last_le: "after_last c s \<le> length s"
  by (simp add: after_last_def)

lemma after_last_suffix: "c \<in> set e \<Longrightarrow> length s < after_last c (s @ e)"
proof -
  assume "c \<in> set e"
  then have "takeWhile (\<lambda>d. d \<noteq> c) (rev e @ rev s) = takeWhile (\<lambda>d. d \<noteq> c) (rev e)"
    by (intro takeWhile_append1) auto
  moreover have "length (takeWhile (\<lambda>d. d \<noteq> c) (rev e)) < length (rev e)"
  proof -
    obtain u v where "rev e = u @ c # v" "c \<notin> set u"
      using \<open>c \<in> set e\<close> split_list_first [of c "rev e"] by auto
    then show ?thesis by (simp add: takeWhile_upto)
  qed
  ultimately show ?thesis by (simp add: after_last_def)
qed

lemma ends_with_append: "ends_with (s @ e) e"
  by (simp add: ends_with_def)

text \<open>The parts of a canonical filename are found.\<close>

lemma find_parts_canonical:
  assumes "CHR ''_'' \<notin> set n" "CHR ''_'' \<notin> set v" "CHR ''_'' \<notin> set b"
    and "CHR ''/'' \<notin> set (n @ v @ b @ e)" "e \<noteq> []" "hd e \<noteq> CHR ''_''" "b = [] \<or> length b \<ge> 2"
  shows "find_parts e (n @ ''_'' @ v @ (if b = [] then [] else CHR ''_'' # b) @ e)
    = Inr (0, length n, length n + 1 + length v,
        length (n @ ''_'' @ v @ (if b = [] then [] else CHR ''_'' # b)))"
proof -
  let ?s = "n @ ''_'' @ v @ (if b = [] then [] else CHR ''_'' # b) @ e"
  have start: "after_last CHR ''/'' ?s = 0" using assms(4) by (intro after_last_none) auto
  have p1: "index_of CHR ''_'' 0 ?s = Some (length n)"
    using index_of_found [OF assms(1), of "[]"] by simp
  have ends: "ends_with ?s e"
    using ends_with_append [of "n @ ''_'' @ v @ (if b = [] then [] else CHR ''_'' # b)" e] by simp
  show ?thesis
  proof (cases "b = []")
    case True
    have "index_of CHR ''_'' (length n + 1) ?s = None
      \<or> (\<exists>p. index_of CHR ''_'' (length n + 1) ?s = Some p \<and> length n + 1 + length v < p)"
      using index_of_later [OF assms(2), of e "n @ ''_''"] assms(6) True
      by (cases "index_of CHR ''_'' (length n + 1) ?s") auto
    then show ?thesis
      using start p1 ends True by (auto simp: find_parts_def Let_def)
  next
    case False
    then have "index_of CHR ''_'' (length n + 1) ?s = Some (length n + 1 + length v)"
      using index_of_found [OF assms(2), of "n @ ''_''" "b @ e"] by simp
    then show ?thesis
      using start p1 ends False assms(7) by (simp add: find_parts_def Let_def)
  qed
qed

lemma basic_name_chars:
  assumes "validate_basic_name s = None" "\<not> name_letter c"
  shows "c \<notin> set s"
  using basic_name_letters [OF assms(1)] assms(2) by (auto simp: list_all_iff)

lemma validate_name_None:
  assumes "fst (validate_name s) = None"
  shows "validate_basic_name (fst (snd (validate_name s))) = None"
  using assms by (auto simp: validate_name_def split: option.splits prod.splits)

lemma basic_name_scope: "CHR '':'' \<notin> set s \<Longrightarrow> split_scope s = None"
  by (induction s rule: split_scope.induct) auto

lemma validate_basic:
  assumes "validate_basic_name s = None"
  shows "validate_name s = (None, s, [])"
proof -
  have "\<not> name_letter (CHR '':'')" by (simp add: name_letter_def lower_def decimal_def)
  then have "split_scope s = None" using assms basic_name_chars basic_name_scope by blast
  then show ?thesis using assms by (simp add: validate_name_def)
qed

lemma set_name_fields:
  "fst (validate_name s) = None \<Longrightarrow>
   n_name (snd (set_name s n)) = fst (snd (validate_name s)) \<and> n_error (snd (set_name s n)) = None"
  by (auto simp: set_name_def split: prod.splits option.splits)

definition filename_ok :: "versioned_filename \<Rightarrow> bool" where
  "filename_ok f \<longleftrightarrow> f_extension f \<noteq> [] \<and> hd (f_extension f) = CHR ''.''
     \<and> o_error (v_operator (f_version f)) = None"

lemma find_parts_slash:
  assumes "find_parts e s = Inr (start, p1, p2, n)"
  shows "CHR ''/'' \<notin> set e"
proof
  assume slash: "CHR ''/'' \<in> set e"
  have e: "ends_with s e" using assms by (auto simp: find_parts_def split: if_splits)
  then have s: "s = take (length s - length e) s @ e"
    by (metis append_take_drop_id ends_with_def)
  then have "length s - length e < after_last CHR ''/'' s"
    using after_last_suffix [OF slash, of "take (length s - length e) s"] by (metis length_take min.absorb2 diff_le_self)
  moreover obtain p where "index_of CHR ''_'' (after_last CHR ''/'' s) s = Some p" "p \<le> length s - length e"
    using assms by (auto simp: find_parts_def Let_def split: option.splits if_splits)
  moreover have "after_last CHR ''/'' s \<le> p"
    using \<open>index_of CHR ''_'' (after_last CHR ''/'' s) s = Some p\<close>
    by (auto simp: index_of_def Let_def split: if_splits)
  ultimately show False by simp
qed

definition accept :: "string \<Rightarrow> 32 word list \<Rightarrow> string \<Rightarrow> versioned_filename \<Rightarrow> versioned_filename" where
  "accept n v b f =
     f\<lparr>f_error := None, f_name := snd (set_name n (f_name f)),
       f_version := set_version v (f_version f),
       f_browser := (if b = [] then name_clear (f_browser f) else snd (set_name b (f_browser f)))\<rparr>"

lemma set_filename_accepts:
  assumes "set_filename text f = Inr (True, f')"
  shows "\<exists>n vs v b. f' = accept n v b f \<and> fst (validate_name n) = None
    \<and> validate_version vs = Inr (Inr v) \<and> (b = [] \<or> validate_basic_name b = None)
    \<and> CHR ''/'' \<notin> set (f_extension f)"
proof -
  obtain start p1 p2 len where parts: "find_parts (f_extension f) text = Inr (start, p1, p2, len)"
    using assms by (auto simp: set_filename_def split: sum.splits)
  define n vs b where "n = mid text start (p1 - start)" and "vs = mid text (p1 + 1) (p2 - (p1 + 1))"
    and "b = (if p2 < len then mid text (p2 + 1) (len - p2 - 1) else [])"
  have n: "fst (validate_name n) = None"
    using assms parts unfolding n_def by (auto simp: set_filename_def Let_def split: option.splits)
  obtain x where x: "validate_version vs = Inr x"
    using assms parts n unfolding n_def vs_def
    by (auto simp: set_filename_def Let_def rbind_Inr_iff)
  obtain v where v: "validate_version vs = Inr (Inr v)"
    using assms parts n x unfolding n_def vs_def
    by (cases x) (auto simp: set_filename_def Let_def)
  have ok: "(if p2 < len then validate_basic_name b else None) = None"
    using assms parts n v unfolding n_def vs_def b_def
    by (auto simp: set_filename_def Let_def split: option.splits if_splits)
  have "f' = accept n v b f"
    using assms parts n v ok unfolding n_def vs_def b_def
    by (auto simp: set_filename_def Let_def accept_def set_version_string_def split: if_splits)
  moreover have "b = [] \<or> validate_basic_name b = None" using ok by (auto simp: b_def split: if_splits)
  ultimately show ?thesis using n v find_parts_slash [OF parts] by blast
qed

definition canonical_filename :: "string \<Rightarrow> string \<Rightarrow> string \<Rightarrow> string \<Rightarrow> string" where
  "canonical_filename n v b e = n @ ''_'' @ v @ (if b = [] then [] else CHR ''_'' # b) @ e"

lemma mid_inner: "i = length u \<Longrightarrow> k = length w \<Longrightarrow> mid (u @ w @ r) i k = w"
  by (simp add: mid_def)

lemma set_filename_canonical:
  assumes "validate_basic_name n = None" "validate_version vs = Inr (Inr v)" "CHR ''_'' \<notin> set vs"
    "CHR ''/'' \<notin> set vs" "b = [] \<or> validate_basic_name b = None"
    "CHR ''/'' \<notin> set (f_extension f)" "f_extension f \<noteq> []" "hd (f_extension f) = CHR ''.''"
  shows "set_filename (canonical_filename n vs b (f_extension f)) f = Inr (True, accept n v b f)"
proof -
  let ?e = "f_extension f" and ?t = "canonical_filename n vs b (f_extension f)"
  let ?len = "length (n @ ''_'' @ vs @ (if b = [] then [] else CHR ''_'' # b))"
  have nl: "\<not> name_letter (CHR ''_'')" "\<not> name_letter (CHR ''/'')"
    by (simp_all add: name_letter_def lower_def decimal_def)
  have n: "CHR ''_'' \<notin> set n" "CHR ''/'' \<notin> set n" using basic_name_chars [OF assms(1)] nl by blast+
  have b: "CHR ''_'' \<notin> set b" "CHR ''/'' \<notin> set b" "b = [] \<or> 2 \<le> length b"
    using assms(5) basic_name_chars nl basic_name_letters by auto
  have parts: "find_parts ?e ?t = Inr (0, length n, length n + 1 + length vs, ?len)"
    unfolding canonical_filename_def
    using n b assms(3,4,6-8) by (intro find_parts_canonical) simp_all
  have name: "mid ?t 0 (length n - 0) = n" by (simp add: canonical_filename_def mid_def)
  have version: "mid ?t (length n + 1) (length n + 1 + length vs - (length n + 1)) = vs"
    using mid_inner [of _ "n @ ''_''" _ vs "(if b = [] then [] else CHR ''_'' # b) @ ?e"]
    by (simp add: canonical_filename_def)
  have browser: "(if length n + 1 + length vs < ?len
      then mid ?t (length n + 1 + length vs + 1) (?len - (length n + 1 + length vs) - 1) else []) = b"
    using mid_inner [of _ "n @ ''_'' @ vs @ ''_''" _ b ?e]
    by (simp add: canonical_filename_def)
  show ?thesis
    unfolding set_filename_def parts sum.case prod.case Let_def name version browser
    using assms(1,2,5) validate_basic [OF assms(1)]
    by (auto simp: accept_def set_version_string_def)
qed

lemma version_text_chars:
  "list_all readable v \<Longrightarrow> c \<in> set (version_text v) \<Longrightarrow> decimal c \<or> c = CHR ''.''"
proof -
  assume "list_all readable v" "c \<in> set (version_text v)"
  then have "c = CHR ''.'' \<or> (\<exists>n \<in> set v. readable n \<and> c \<in> set (dec (sint n)))"
    by (cases v) (auto simp: version_text_def list_all_iff split: if_splits)
  then show ?thesis using dec_digits by (auto simp: list_all_iff)
qed

lemma accept_fields:
  assumes "filename_ok f" "fst (validate_name n) = None" "validate_version vs = Inr (Inr v)"
    "b = [] \<or> validate_basic_name b = None"
  shows "n_name (f_name (accept n v b f)) = fst (snd (validate_name n))"
    "v_version (f_version (accept n v b f)) = v" "n_name (f_browser (accept n v b f)) = b"
    "get_filename True (accept n v b f)
      = canonical_filename (fst (snd (validate_name n))) (version_text v) b (f_extension f)"
proof -
  let ?f = "accept n v b f"
  have v: "canonicalize v = v" using canonicalize_id validated_version [OF assms(3)] by blast
  have fn: "n_name (f_name ?f) = fst (snd (validate_name n)) \<and> n_error (f_name ?f) = None"
    using set_name_fields [OF assms(2)] by (simp add: accept_def)
  have fb: "n_name (f_browser ?f) = b \<and> n_error (f_browser ?f) = None"
    using assms(4) set_name_fields [of b] validate_basic [of b] by (auto simp: accept_def name_clear_def)
  have fv: "v_version (f_version ?f) = v" "version_is_valid (f_version ?f)"
    using assms(1) v by (simp_all add: accept_def set_version_def version_is_valid_def filename_ok_def)
  have "filename_is_valid ?f" using fn fb fv(2) by (simp add: filename_is_valid_def) (simp add: accept_def)
  moreover have "f_extension ?f = f_extension f" by (simp add: accept_def)
  ultimately show "n_name (f_name ?f) = fst (snd (validate_name n))"
    "v_version (f_version ?f) = v" "n_name (f_browser ?f) = b"
    "get_filename True ?f = canonical_filename (fst (snd (validate_name n))) (version_text v) b (f_extension f)"
    using fn fb fv(1) by (simp_all add: get_filename_def canonical_filename_def get_version_string_text)
qed

text \<open>
  C20. The canonical form of a versioned filename. The name \<open>get_filename\<close> prints for a filename
  that was accepted (without path and namespace, numbers without leading zeros, version without
  ending zeros) is accepted, has the same name, version and browser, and is its own canonical form.
\<close>

theorem filename_canonical:
  assumes "filename_ok f" "set_filename text f = Inr (True, f')"
  shows "returns (set_filename (get_filename True f') f) (\<lambda>(ok, g). ok
    \<and> n_name (f_name g) = n_name (f_name f') \<and> v_version (f_version g) = v_version (f_version f')
    \<and> n_name (f_browser g) = n_name (f_browser f') \<and> get_filename True g = get_filename True f')"
proof -
  obtain n0 vs v b where a: "f' = accept n0 v b f" "fst (validate_name n0) = None"
      "validate_version vs = Inr (Inr v)" "b = [] \<or> validate_basic_name b = None"
      "CHR ''/'' \<notin> set (f_extension f)"
    using set_filename_accepts [OF assms(2)] by blast
  let ?n = "fst (snd (validate_name n0))"
  note f' = accept_fields [OF assms(1) a(2-4), folded a(1)]
  have n: "validate_basic_name ?n = None" using validate_name_None [OF a(2)] .
  have v: "canonical v" "list_all readable v" using validated_version [OF a(3)] by simp_all
  note vt = validate_version_text [OF v]
  have chars: "CHR ''_'' \<notin> set (version_text v)" "CHR ''/'' \<notin> set (version_text v)"
    using version_text_chars [OF v(2), of "CHR ''_''"] version_text_chars [OF v(2), of "CHR ''/''"]
    by (auto simp: decimal_def)
  have "set_filename (get_filename True f') f = Inr (True, accept ?n v b f)"
    unfolding f'(4) using n vt chars a(4,5) assms(1)
    by (intro set_filename_canonical) (simp_all add: filename_ok_def)
  moreover have "fst (validate_name ?n) = None" "fst (snd (validate_name ?n)) = ?n"
    using validate_basic [OF n] by simp_all
  ultimately show ?thesis
    using accept_fields [OF assms(1) _ vt a(4), of ?n] f' by simp
qed

theorem filename_canonical_witness:
  "\<exists>f. versioned_filename ''.js'' = Inr f
     \<and> returns (set_filename ''editor_1.2_chrome.js'' f) (\<lambda>(ok, g). ok \<and> v_version (f_version g) = [1, 2])"
proof -
  obtain f where f: "versioned_filename ''.js'' = Inr f" "filename_ok f"
    by (simp add: versioned_filename_def filename_ok_def new_version_def new_operator_def)
  have "returns (versioned_filename ''.js'') (\<lambda>f.
      returns (set_filename ''lib/editor_01.2.0_chrome.js'' f) (\<lambda>(ok, g). ok
        \<and> get_filename True g = ''editor_1.2_chrome.js'' \<and> v_version (f_version g) = [1, 2]))"
    by code_simp
  then obtain g where g: "set_filename ''lib/editor_01.2.0_chrome.js'' f = Inr (True, g)"
    "get_filename True g = ''editor_1.2_chrome.js''" "v_version (f_version g) = [1, 2]"
    by (auto simp: f(1) returns_iff)
  show ?thesis
    using filename_canonical [OF f(2) g(1)] f(1) unfolding g(2,3) by (auto intro: returns_mono)
qed

end
