(* ===== verification/SnapPath.thy ===== *)
theory SnapPath
  imports SnapPrelude
begin

text \<open>
  Paths of pages (\<open>snap_child::canonicalize_path\<close> of snap_child.cpp and the keys that
  \<open>path_info_t\<close> of the content plugin computes from them). Every path that arrives from the
  outside goes through \<open>canonicalize_path\<close> before it is used as a key of the database or as
  a filename, so what matters is that its result cannot climb out of the site.
  The code looks at \<open>QChar::cell()\<close>, the low byte of a character; characters of the model
  have one byte.
\<close>

section \<open>The code\<close>

text \<open>
  One iteration replaces the character at \<open>i\<close>, then removes characters in place. The
  arguments of the loop are the index and the path.
\<close>

definition canonical_char :: "char \<Rightarrow> char" where
  "canonical_char c =
     (if c = CHR 0x5C then CHR ''/''
      else if c = CHR '' '' \<or> c = CHR ''+'' then CHR ''-''
      else c)"

definition remove_at :: "nat \<Rightarrow> 'a list \<Rightarrow> 'a list" where
  "remove_at i xs = take i xs @ drop (Suc i) xs"

lemma length_remove_at [simp]: "i < length xs \<Longrightarrow> length (remove_at i xs) = length xs - 1"
  by (simp add: remove_at_def)

function canonicalize_loop :: "nat \<Rightarrow> string \<Rightarrow> string" where
  "canonicalize_loop i path =
     (if i < length path then
        let path = path[i := canonical_char (path ! i)] in
        if i = 0 \<and> (path ! 0 = CHR ''.'' \<or> path ! 0 = CHR ''/'') then
          canonicalize_loop 0 (dropWhile (\<lambda>c. c = CHR ''.'' \<or> c = CHR ''/'' \<or> c = CHR 0x5C) (tl path))
        else if path ! i = CHR ''/'' \<and> i + 1 < length path then
          if path ! (i + 1) = CHR ''/'' then canonicalize_loop i (remove_at (i + 1) path)
          else if path ! (i + 1) = CHR ''.'' then canonicalize_loop i (remove_at (i + 1) path)
          else canonicalize_loop (i + 1) path
        else if (path ! i = CHR ''.'' \<or> path ! i = CHR ''-'' \<or> path ! i = CHR ''/'')
            \<and> i + 1 \<ge> length path then
          canonicalize_loop i (remove_at i path)
        else canonicalize_loop (i + 1) path
      else path)"
  by pat_completeness auto
termination
proof (relation "measure (\<lambda>(i, path). length path - i)", goal_cases)
  case (2 i path p)
  then show ?case
    using length_dropWhile_le [of "\<lambda>c. c = CHR ''.'' \<or> c = CHR ''/'' \<or> c = CHR 0x5C" "tl p"]
    by (cases path) simp_all
qed (simp, linarith | simp)+

declare canonicalize_loop.simps [simp del]

definition canonicalize_path :: "string \<Rightarrow> string" where
  "canonicalize_path path = canonicalize_loop 0 path"

definition path_cpath :: "string \<Rightarrow> string \<Rightarrow> string" where
  "path_cpath site_key path =
     (if take (length site_key) path = site_key then drop (length site_key) path
      else canonicalize_path path)"

definition path_key :: "string \<Rightarrow> string \<Rightarrow> string" where
  "path_key site_key path =
     (if take (length site_key) path = site_key then path
      else site_key @ canonicalize_path path)"

section \<open>What a canonical path is\<close>

text \<open>
  No character that the loop replaces, no separator or period in front, and no period
  behind a separator, in the part of the path that was visited.
\<close>

definition safe_upto :: "nat \<Rightarrow> string \<Rightarrow> bool" where
  "safe_upto i p \<longleftrightarrow> i \<le> length p
     \<and> (\<forall>j < i. canonical_char (p ! j) = p ! j)
     \<and> (0 < i \<longrightarrow> p ! 0 \<noteq> CHR ''.'' \<and> p ! 0 \<noteq> CHR ''/'')
     \<and> (\<forall>j < i. Suc j < length p \<longrightarrow> p ! j = CHR ''/'' \<longrightarrow> p ! Suc j \<noteq> CHR ''.'')"

lemma canonical_char_idem [simp]: "canonical_char (canonical_char c) = canonical_char c"
  by (simp add: canonical_char_def)

lemma canonical_char_period: "canonical_char c = CHR ''.'' \<longleftrightarrow> c = CHR ''.''"
  by (simp add: canonical_char_def)

lemma safe_upto_0 [simp]: "safe_upto 0 p"
  by (simp add: safe_upto_def)

lemma nth_remove_at: "j < i \<Longrightarrow> i < length xs \<Longrightarrow> remove_at i xs ! j = xs ! j"
  by (simp add: remove_at_def nth_append)

lemma safe_update:
  assumes "safe_upto i p" "i < length p"
  shows "safe_upto i (p[i := canonical_char (p ! i)])"
  using assms by (auto simp: safe_upto_def nth_list_update canonical_char_period)

lemma safe_remove:
  assumes "safe_upto i p" "i < k" "k < length p"
  shows "safe_upto i (remove_at k p)"
  using assms by (auto simp: safe_upto_def nth_remove_at)

lemma safe_remove_last:
  assumes "safe_upto i p" "Suc i = length p"
  shows "safe_upto i (remove_at i p)"
  using assms by (auto simp: safe_upto_def nth_remove_at)

lemma safe_next:
  assumes "safe_upto i p" "i < length p" "canonical_char (p ! i) = p ! i"
    and "i = 0 \<Longrightarrow> p ! 0 \<noteq> CHR ''.'' \<and> p ! 0 \<noteq> CHR ''/''"
    and "Suc i < length p \<Longrightarrow> p ! i = CHR ''/'' \<Longrightarrow> p ! Suc i \<noteq> CHR ''.''"
  shows "safe_upto (Suc i) p"
  using assms by (auto simp: safe_upto_def less_Suc_eq)

lemma canonicalize_loop_safe:
  "safe_upto i p \<Longrightarrow>
   safe_upto (length (canonicalize_loop i p)) (canonicalize_loop i p)
   \<and> length (canonicalize_loop i p) \<le> length p"
proof (induction i p rule: canonicalize_loop.induct)
  case (1 i p)
  show ?case
  proof (cases "i < length p")
    case False
    then show ?thesis
      using "1.prems" by (subst (1 2 3) canonicalize_loop.simps) (auto simp: safe_upto_def)
  next
    case True
    define q where "q = p[i := canonical_char (p ! i)]"
    have q: "safe_upto i q" "length q = length p" "canonical_char (q ! i) = q ! i"
      using safe_update [OF "1.prems" True] True by (simp_all add: q_def)
    let ?lead = "\<lambda>c. c = CHR ''.'' \<or> c = CHR ''/'' \<or> c = CHR 0x5C"
    have step: "canonicalize_loop i p =
       (if i = 0 \<and> (q ! 0 = CHR ''.'' \<or> q ! 0 = CHR ''/'') then canonicalize_loop 0 (dropWhile ?lead (tl q))
        else if q ! i = CHR ''/'' \<and> i + 1 < length q then
          if q ! (i + 1) = CHR ''/'' then canonicalize_loop i (remove_at (i + 1) q)
          else if q ! (i + 1) = CHR ''.'' then canonicalize_loop i (remove_at (i + 1) q)
          else canonicalize_loop (i + 1) q
        else if (q ! i = CHR ''.'' \<or> q ! i = CHR ''-'' \<or> q ! i = CHR ''/'') \<and> i + 1 \<ge> length q
        then canonicalize_loop i (remove_at i q)
        else canonicalize_loop (i + 1) q)"
      using True by (subst canonicalize_loop.simps) (simp only: q_def Let_def if_True)
    note IH = "1.IH" [OF True q_def]
    show ?thesis
    proof (cases "i = 0 \<and> (q ! 0 = CHR ''.'' \<or> q ! 0 = CHR ''/'')")
      case lead: True
      then have "canonicalize_loop i p = canonicalize_loop 0 (dropWhile ?lead (tl q))"
        using step by simp
      moreover have "length (dropWhile ?lead (tl q)) \<le> length p"
        using length_dropWhile_le [of ?lead "tl q"] q(2) by simp
      ultimately show ?thesis
        using IH(1) [OF lead safe_upto_0] by simp
    next
      case no_lead: False
      note IH = IH(2-) [OF no_lead]
      show ?thesis
      proof (cases "q ! i = CHR ''/'' \<and> i + 1 < length q")
        case slash: True
        note IH = IH(1-3) [OF slash]
        consider "q ! (i + 1) = CHR ''/''" | "q ! (i + 1) \<noteq> CHR ''/''" "q ! (i + 1) = CHR ''.''"
          | "q ! (i + 1) \<noteq> CHR ''/''" "q ! (i + 1) \<noteq> CHR ''.''" by blast
        then show ?thesis
        proof cases
          case 1
          then show ?thesis
            using IH(1) [OF 1] step no_lead slash safe_remove [OF q(1), of "i + 1"] q(2) by auto
        next
          case 2
          then show ?thesis
            using IH(2) [OF 2] step no_lead slash safe_remove [OF q(1), of "i + 1"] q(2) by auto
        next
          case 3
          have "safe_upto (i + 1) q"
            using safe_next [OF q(1) _ q(3)] no_lead 3 q(2) True by auto
          then show ?thesis
            using IH(3) [OF 3] step no_lead slash 3 q(2) by simp
        qed
      next
        case no_slash: False
        note IH = IH(4-) [OF no_slash]
        show ?thesis
        proof (cases "(q ! i = CHR ''.'' \<or> q ! i = CHR ''-'' \<or> q ! i = CHR ''/'') \<and> i + 1 \<ge> length q")
          case last: True
          then have "Suc i = length q" using q(2) True by simp
          then show ?thesis
            using IH(1) [OF last] step no_lead no_slash last safe_remove_last [OF q(1)] q(2) by auto
        next
          case False
          have "safe_upto (i + 1) q"
            using safe_next [OF q(1) _ q(3)] no_lead no_slash q(2) True by auto
          then show ?thesis
            using IH(2) [OF False] step no_lead no_slash False q(2) by auto
        qed
      qed
    qed
  qed
qed

section \<open>Segments\<close>

text \<open>
  \<open>inside_site p\<close>: a relative path without backslashes, spaces and plus signs, and with no
  segment that starts with a period (so neither \<open>..\<close> nor a hidden file).
\<close>

definition inside_site :: "string \<Rightarrow> bool" where
  "inside_site p \<longleftrightarrow>
     (\<forall>w \<in> set (split_on CHR ''/'' p). w = [] \<or> hd w \<noteq> CHR ''.'')
     \<and> (p = [] \<or> hd p \<noteq> CHR ''/'')
     \<and> (\<forall>c \<in> set p. c \<noteq> CHR 0x5C \<and> c \<noteq> CHR '' '' \<and> c \<noteq> CHR ''+'')"

lemma canonical_char_fixed:
  "canonical_char c = c \<longleftrightarrow> c \<noteq> CHR 0x5C \<and> c \<noteq> CHR '' '' \<and> c \<noteq> CHR ''+''"
  by (simp add: canonical_char_def)

lemma words_after:
  "successively (\<lambda>a b. a = d \<longrightarrow> b \<noteq> e) p \<Longrightarrow>
   (\<forall>w \<in> set (tl (split_on d p)). w = [] \<or> hd w \<noteq> e)
   \<and> (hd (split_on d p) = [] \<or> p \<noteq> [] \<and> hd (hd (split_on d p)) = hd p)"
proof (induction p)
  case (Cons x p)
  have IH: "\<forall>w \<in> set (tl (split_on d p)). w = [] \<or> hd w \<noteq> e"
    "hd (split_on d p) = [] \<or> p \<noteq> [] \<and> hd (hd (split_on d p)) = hd p"
    using Cons.IH Cons.prems by (auto simp: successively_Cons)
  have "p \<noteq> [] \<Longrightarrow> x = d \<Longrightarrow> hd p \<noteq> e"
    using Cons.prems by (simp add: successively_Cons)
  with IH show ?case
    by (cases "split_on d p") auto
qed simp

lemma words_not_starting:
  assumes "successively (\<lambda>a b. a = d \<longrightarrow> b \<noteq> e) p" "p = [] \<or> hd p \<noteq> e"
  shows "\<forall>w \<in> set (split_on d p). w = [] \<or> hd w \<noteq> e"
  using words_after [OF assms(1)] assms(2) by (cases "split_on d p") auto

lemma safe_inside: "safe_upto (length p) p \<Longrightarrow> inside_site p"
  unfolding inside_site_def
proof (intro conjI)
  assume s: "safe_upto (length p) p"
  then have "successively (\<lambda>a b. a = CHR ''/'' \<longrightarrow> b \<noteq> CHR ''.'') p" "p = [] \<or> hd p \<noteq> CHR ''.''"
    by (auto simp: safe_upto_def successively_conv_nth hd_conv_nth)
  then show "\<forall>w \<in> set (split_on CHR ''/'' p). w = [] \<or> hd w \<noteq> CHR ''.''"
    by (rule words_not_starting)
  show "p = [] \<or> hd p \<noteq> CHR ''/''"
    using s by (auto simp: safe_upto_def hd_conv_nth)
  show "\<forall>c \<in> set p. c \<noteq> CHR 0x5C \<and> c \<noteq> CHR '' '' \<and> c \<noteq> CHR ''+''"
    using s by (auto simp: safe_upto_def in_set_conv_nth canonical_char_fixed [symmetric])
qed

text \<open>
  C31. Whatever the path, its canonical form stays inside of the site: it is relative, no
  segment of it starts with a period (there is no way to \<open>..\<close> or to a hidden file), it has no
  backslash, space or plus sign, and it is not longer. The loop ends on every path.
\<close>

theorem canonicalize_stays_inside:
  "inside_site (canonicalize_path p) \<and> length (canonicalize_path p) \<le> length p"
  using canonicalize_loop_safe [of 0 p] safe_inside by (simp add: canonicalize_path_def)

text \<open>
  What the loop does not do: of two periods at the end one stays, a backslash behind a slash
  leaves two slashes. The result is then not a fixed point.
\<close>

lemma canonicalize_leaves:
  "canonicalize_path ''a..'' = ''a.''" "canonicalize_path ''a.'' = ''a''"
  "canonicalize_path [CHR ''a'', CHR ''/'', CHR 0x5C, CHR ''b''] = ''a//b''"
  "canonicalize_path ''../../etc/passwd'' = ''etc/passwd''"
  by code_simp+

end
