(* ===== verification/PageStatus.thy ===== *)
theory PageStatus
  imports SnapPrelude
begin

text \<open>
  The status of a page (\<open>path_info_t::status_t\<close> of status.cpp, \<open>path_info_t::get_status\<close> and
  \<open>set_status\<close> of path_info.cpp, in the content plugin): a state machine whose states are kept
  in the database as 32-bit numbers. A row of the content table is modelled by the three cells
  these functions use.
\<close>

unbundle bit_operations_syntax

section \<open>The code\<close>

datatype error_t = NO_ERROR | UNDEFINED | UNSUPPORTED

datatype state_t = UNKNOWN_STATE | CREATE | NORMAL | HIDDEN | MOVED | DELETED

record status_t =
  f_error :: error_t
  f_state :: state_t

definition new_status :: status_t where
  "new_status = \<lparr>f_error = NO_ERROR, f_state = UNKNOWN_STATE\<rparr>"

primrec state_value :: "state_t \<Rightarrow> 32 word" where
  "state_value UNKNOWN_STATE = 0"
| "state_value CREATE = 1"
| "state_value NORMAL = 2"
| "state_value HIDDEN = 3"
| "state_value MOVED = 4"
| "state_value DELETED = 5"

definition set_status_value :: "32 word \<Rightarrow> status_t \<Rightarrow> status_t" where
  "set_status_value current_status st =
     (let st1 = st\<lparr>f_state := UNKNOWN_STATE\<rparr>; state = current_status AND 255 in
      if state = state_value NORMAL then st1\<lparr>f_error := NO_ERROR, f_state := NORMAL\<rparr>
      else if state = state_value HIDDEN then st1\<lparr>f_error := NO_ERROR, f_state := HIDDEN\<rparr>
      else if state = state_value MOVED then st1\<lparr>f_error := NO_ERROR, f_state := MOVED\<rparr>
      else if state = state_value DELETED then st1\<lparr>f_error := NO_ERROR, f_state := DELETED\<rparr>
      else st1\<lparr>f_error := UNSUPPORTED\<rparr>)"

definition get_status_value :: "status_t \<Rightarrow> 32 word res" where
  "get_status_value st =
     (if f_error st \<noteq> NO_ERROR then Inl Snap_logic_error
      else if f_state st \<in> {NORMAL, HIDDEN, MOVED, DELETED} then Inr (state_value (f_state st))
      else Inl Snap_logic_error)"

definition is_error :: "status_t \<Rightarrow> bool" where
  "is_error st \<longleftrightarrow> f_error st \<noteq> NO_ERROR"

definition reset_state :: "state_t \<Rightarrow> status_t \<Rightarrow> status_t" where
  "reset_state state st = st\<lparr>f_error := NO_ERROR, f_state := state\<rparr>"

definition valid_transition :: "status_t \<Rightarrow> status_t \<Rightarrow> bool" where
  "valid_transition now destination =
     (if is_error now then f_error now = UNDEFINED \<and> f_state destination = CREATE
      else (f_state now, f_state destination) \<in>
        {(NORMAL, NORMAL), (NORMAL, HIDDEN), (NORMAL, MOVED), (NORMAL, DELETED),
         (HIDDEN, HIDDEN), (HIDDEN, NORMAL), (HIDDEN, DELETED),
         (MOVED, MOVED), (MOVED, NORMAL), (MOVED, HIDDEN),
         (DELETED, DELETED), (DELETED, NORMAL),
         (CREATE, CREATE), (CREATE, NORMAL), (CREATE, HIDDEN)})"

primrec status_name_to_string :: "state_t \<Rightarrow> string" where
  "status_name_to_string UNKNOWN_STATE = ''unknown''"
| "status_name_to_string CREATE = ''create''"
| "status_name_to_string NORMAL = ''normal''"
| "status_name_to_string HIDDEN = ''hidden''"
| "status_name_to_string MOVED = ''moved''"
| "status_name_to_string DELETED = ''deleted''"

definition string_to_status_name :: "string \<Rightarrow> state_t" where
  "string_to_status_name state =
     (if state = ''create'' then CREATE
      else if state = ''normal'' then NORMAL
      else if state = ''hidden'' then HIDDEN
      else if state = ''moved'' then MOVED
      else if state = ''deleted'' then DELETED
      else UNKNOWN_STATE)"

text \<open>
  \<open>c_status\<close> is \<open>None\<close> when the cell does not hold four bytes, \<open>c_primary_owner\<close> the empty
  string when there is no such cell. \<open>page_set_status\<close> writes the date of the change before it
  converts the status, which may throw: it returns the exception and the table.
\<close>

record content_row =
  c_status :: "32 word option"
  c_primary_owner :: string
  c_status_changed :: "int option"

type_synonym content_table = "string \<Rightarrow> content_row option"

definition page_get_status :: "content_table \<Rightarrow> string \<Rightarrow> status_t" where
  "page_get_status table key =
     (case table key of
        None \<Rightarrow> new_status\<lparr>f_error := UNDEFINED\<rparr>
      | Some row \<Rightarrow>
          (case c_status row of
             None \<Rightarrow>
               if c_primary_owner row = [] then new_status\<lparr>f_error := UNDEFINED\<rparr>
               else reset_state CREATE new_status
           | Some v \<Rightarrow> set_status_value v new_status))"

definition empty_row :: content_row where
  "empty_row = \<lparr>c_status = None, c_primary_owner = [], c_status_changed = None\<rparr>"

definition get_row :: "content_table \<Rightarrow> string \<Rightarrow> content_row" where
  "get_row table key = (case table key of None \<Rightarrow> empty_row | Some row \<Rightarrow> row)"

definition page_set_status ::
  "int \<Rightarrow> string \<Rightarrow> status_t \<Rightarrow> content_table \<Rightarrow> exn option \<times> content_table" where
  "page_set_status start_date key st table =
     (if is_error st then (Some Invalid_sequence, table)
      else if \<not> valid_transition (page_get_status table key) st then (Some Invalid_sequence, table)
      else
        let table1 = table(key \<mapsto> (get_row table key)\<lparr>c_status_changed := Some start_date\<rparr>) in
        case get_status_value st of
          Inl e \<Rightarrow> (Some e, table1)
        | Inr v \<Rightarrow> (None, table1(key \<mapsto> (get_row table1 key)\<lparr>c_status := Some v\<rparr>)))"

section \<open>What it keeps\<close>

text \<open>
  Only the four states that may be saved are ever in the table, and a page keeps one once it
  has it.
\<close>

definition saved :: "state_t set" where
  "saved = {NORMAL, HIDDEN, MOVED, DELETED}"

definition statuses_ok :: "content_table \<Rightarrow> bool" where
  "statuses_ok table \<longleftrightarrow>
     (\<forall>key row v. table key = Some row \<longrightarrow> c_status row = Some v \<longrightarrow> v \<in> state_value ` saved)"

lemma state_value_mask: "state_value x AND 255 = state_value x"
  by (cases x) simp_all

lemma set_state_value:
  "x \<in> saved \<Longrightarrow> set_status_value (state_value x) st = st\<lparr>f_error := NO_ERROR, f_state := x\<rparr>"
  unfolding saved_def set_status_value_def state_value_mask by auto

lemma get_status_value_iff:
  "get_status_value st = Inr v \<longleftrightarrow> f_error st = NO_ERROR \<and> f_state st \<in> saved \<and> v = state_value (f_state st)"
  by (auto simp: get_status_value_def saved_def)

lemma status_names: "string_to_status_name (status_name_to_string x) = x"
  by (cases x) (simp_all add: string_to_status_name_def)

lemma read_saved:
  "x \<in> saved \<Longrightarrow> table key = Some row \<Longrightarrow> c_status row = Some (state_value x) \<Longrightarrow>
   page_get_status table key = \<lparr>f_error = NO_ERROR, f_state = x\<rparr>"
  by (simp add: page_get_status_def set_state_value new_status_def)

lemma read_other: "other \<noteq> key \<Longrightarrow> page_get_status (table(key \<mapsto> row)) other = page_get_status table other"
  by (simp add: page_get_status_def)

lemma read_dated:
  "page_get_status (table(key \<mapsto> (get_row table key)\<lparr>c_status_changed := d\<rparr>)) key = page_get_status table key"
  by (simp add: page_get_status_def get_row_def empty_row_def split: option.split)

lemma statuses_ok_update:
  "statuses_ok table \<Longrightarrow> (\<forall>v. c_status row = Some v \<longrightarrow> v \<in> state_value ` saved) \<Longrightarrow>
   statuses_ok (table(key \<mapsto> row))"
  by (simp add: statuses_ok_def)

lemma get_row_ok:
  "statuses_ok table \<Longrightarrow> c_status (get_row table key) = Some v \<Longrightarrow> v \<in> state_value ` saved"
  by (auto simp: statuses_ok_def get_row_def empty_row_def split: option.splits)

lemma page_set_status_cases:
  obtains (refused) e where "page_set_status date key st table = (Some e, table)"
      "is_error st \<or> \<not> valid_transition (page_get_status table key) st"
  | (thrown) e where "page_set_status date key st table =
        (Some e, table(key \<mapsto> (get_row table key)\<lparr>c_status_changed := Some date\<rparr>))"
      "f_state st \<notin> saved"
  | (changed) "page_set_status date key st table =
        (None, table(key \<mapsto> (get_row table key)\<lparr>c_status_changed := Some date,
                                             c_status := Some (state_value (f_state st))\<rparr>))"
      "\<not> is_error st" "f_state st \<in> saved" "valid_transition (page_get_status table key) st"
proof (cases "is_error st \<or> \<not> valid_transition (page_get_status table key) st")
  case True
  then show ?thesis
    using refused by (auto simp: page_set_status_def)
next
  case ok: False
  show ?thesis
  proof (cases "f_state st \<in> saved")
    case True
    then have "get_status_value st = Inr (state_value (f_state st))"
      using ok by (simp add: get_status_value_iff is_error_def)
    then show ?thesis
      using ok True changed by (simp add: page_set_status_def get_row_def)
  next
    case False
    then show ?thesis
      using ok thrown by (auto simp: page_set_status_def get_status_value_def saved_def is_error_def)
  qed
qed

text \<open>
  C32. The status of pages. Changing the status of a page succeeds exactly when the new status
  is one of the four that may be saved and the state machine goes there from the current one;
  reading the page then gives the new status. No other page changes, and when the change fails,
  whether before or after the date of the change was written, the page reads as before. The
  table never holds another value than the four.
\<close>

theorem page_status_changes:
  assumes "statuses_ok table"
  shows "statuses_ok (snd (page_set_status date key st table))
    \<and> (\<forall>other. page_get_status (snd (page_set_status date key st table)) other =
         (if other = key \<and> fst (page_set_status date key st table) = None
          then st else page_get_status table other))
    \<and> (fst (page_set_status date key st table) = None \<longleftrightarrow>
         \<not> is_error st \<and> f_state st \<in> saved \<and> valid_transition (page_get_status table key) st)"
proof (cases rule: page_set_status_cases [of date key st table])
  case (refused e)
  then show ?thesis using assms by simp
next
  case (thrown e)
  have "page_get_status (snd (page_set_status date key st table)) other = page_get_status table other" for other
    using thrown(1) by (cases "other = key") (simp_all add: read_other read_dated)
  moreover have "statuses_ok (snd (page_set_status date key st table))"
    using thrown(1) statuses_ok_update [OF assms] get_row_ok [OF assms] by simp
  ultimately show ?thesis
    using thrown by simp
next
  case changed
  let ?row = "(get_row table key)\<lparr>c_status_changed := Some date, c_status := Some (state_value (f_state st))\<rparr>"
  have "page_get_status (table(key \<mapsto> ?row)) key = \<lparr>f_error = NO_ERROR, f_state = f_state st\<rparr>"
    by (rule read_saved [OF changed(3), of _ _ ?row]) simp_all
  then have "page_get_status (table(key \<mapsto> ?row)) key = st"
    using changed(2) by (simp add: is_error_def)
  moreover have "statuses_ok (table(key \<mapsto> ?row))"
    using statuses_ok_update [OF assms] changed(3) by simp
  ultimately show ?thesis
    using changed by (simp add: read_other)
qed

theorem page_status_changes_witness:
  "fst (page_set_status 5 ''k'' \<lparr>f_error = NO_ERROR, f_state = NORMAL\<rparr>
      [''k'' \<mapsto> \<lparr>c_status = None, c_primary_owner = ''content'', c_status_changed = None\<rparr>]) = None"
proof -
  let ?table = "[''k'' \<mapsto> \<lparr>c_status = None, c_primary_owner = ''content'', c_status_changed = None\<rparr>]"
  have "statuses_ok ?table" by (simp add: statuses_ok_def)
  from page_status_changes [OF this, THEN conjunct2, THEN conjunct2,
      of 5 "''k''" "\<lparr>f_error = NO_ERROR, f_state = NORMAL\<rparr>"]
  show ?thesis
    by (simp add: is_error_def saved_def valid_transition_def page_get_status_def reset_state_def
        new_status_def)
qed

text \<open>The names of the states, as scripts and permissions use them, are read back.\<close>

lemma status_name_injective: "status_name_to_string x = status_name_to_string y \<Longrightarrow> x = y"
  by (metis status_names)

end
