(* ===== verification/PermSets.thy ===== *)
theory PermSets
  imports SnapPath PageStatus OrderedMap Numbers "HOL-Library.Sublist"
begin

text \<open>
  The sets of rights that decide on an access (\<open>permissions::sets_t\<close> of permissions.cpp): the
  rights of the user, the permissions that each plugin asks for, the two optimised insertions,
  the decision, and the text by which both sets are kept in the cache table.

  The rights are kept with a final slash so that \<open>startsWith\<close> compares whole segments. The
  user's set keeps the shorter of two nested rights, a plugin's set the longer one.
\<close>

section \<open>The code\<close>

record path_info_t =
  f_cpath :: string
  f_key :: string
  f_renamed_path :: string
  f_real_key :: string

record sets_t =
  f_user_path :: string
  f_ipath :: path_info_t
  f_action :: string
  f_login_status :: string
  f_user_rights :: "string list"
  f_plugin_permissions :: "(string, string list) omap"
  f_using_user_cache :: bool
  f_using_plugin_cache :: bool
  f_modified_user_permissions :: bool
  f_modified_plugin_permissions :: bool

definition new_sets :: "string \<Rightarrow> path_info_t \<Rightarrow> string \<Rightarrow> string \<Rightarrow> sets_t" where
  "new_sets user_path ipath action login_status =
     \<lparr>f_user_path = user_path, f_ipath = ipath, f_action = action, f_login_status = login_status,
      f_user_rights = [], f_plugin_permissions = [],
      f_using_user_cache = False, f_using_plugin_cache = False,
      f_modified_user_permissions = False, f_modified_plugin_permissions = False\<rparr>"

definition with_slash :: "string \<Rightarrow> string" where
  "with_slash right = (if right = [] \<or> last right \<noteq> CHR ''/'' then right @ ''/'' else right)"

text \<open>The loop of \<open>add_user_right\<close>; the inner \<open>while\<close> removes what the new right covers.\<close>

fun user_right_loop :: "string \<Rightarrow> string list \<Rightarrow> string list" where
  "user_right_loop right [] = [right]"
| "user_right_loop right (x # xs) =
     (if length right > length x then
        if prefix x right then x # xs else x # user_right_loop right xs
      else if length x > length right then
        if prefix right x then right # filter (\<lambda>y. \<not> prefix right y) xs
        else x # user_right_loop right xs
      else if x = right then x # xs
      else x # user_right_loop right xs)"

definition add_user_right :: "string \<Rightarrow> sets_t \<Rightarrow> sets_t" where
  "add_user_right right st =
     st\<lparr>f_user_rights := user_right_loop (with_slash right) (f_user_rights st)\<rparr>"

fun plugin_permission_loop :: "string \<Rightarrow> string list \<Rightarrow> string list" where
  "plugin_permission_loop right [] = [right]"
| "plugin_permission_loop right (x # xs) =
     (if length right > length x then
        if prefix x right then plugin_permission_loop right xs
        else x # plugin_permission_loop right xs
      else if length x > length right then
        if prefix right x then x # xs else x # plugin_permission_loop right xs
      else if x = right then x # xs
      else x # plugin_permission_loop right xs)"

definition add_plugin_permission :: "string \<Rightarrow> string \<Rightarrow> sets_t \<Rightarrow> sets_t" where
  "add_plugin_permission plugin right st =
     (let right' = with_slash right;
          s = (case map_of (f_plugin_permissions st) plugin of
                 None \<Rightarrow> [right']
               | Some old \<Rightarrow> plugin_permission_loop right' old) in
      st\<lparr>f_plugin_permissions := om_put plugin s (f_plugin_permissions st)\<rparr>)"

definition rights_path :: string where
  "rights_path = ''types/permissions/rights''"

definition is_root :: "string \<Rightarrow> sets_t \<Rightarrow> bool" where
  "is_root site_key st \<longleftrightarrow> with_slash (path_key site_key rights_path) \<in> set (f_user_rights st)"

definition allowed :: "sets_t \<Rightarrow> bool" where
  "allowed st \<longleftrightarrow>
     f_user_rights st \<noteq> [] \<and> f_plugin_permissions st \<noteq> []
     \<and> (\<forall>p \<in> set (f_plugin_permissions st). \<exists>i \<in> set (snd p). \<exists>j \<in> set (f_user_rights st). prefix j i)"

section \<open>The text of the cache\<close>

text \<open>
  A cell of the cache holds the date and the text. Lines end with a newline; what follows the
  last one is ignored.
\<close>

definition newline :: char where
  "newline = CHR 0x0A"

definition cache_lines :: "string \<Rightarrow> string list" where
  "cache_lines text = butlast (split_on newline text)"

definition user_cache_text :: "string list \<Rightarrow> string" where
  "user_cache_text rights = concat (map (\<lambda>right. right @ [newline]) rights)"

definition plugin_cache_text :: "(string, string list) omap \<Rightarrow> string" where
  "plugin_cache_text permissions =
     concat (map (\<lambda>(plugin, rights). CHR ''*'' # plugin @ [newline]
       @ concat (map (\<lambda>right. right @ [newline]) rights)) permissions)"

definition push_permission ::
  "string \<Rightarrow> string \<Rightarrow> (string, string list) omap \<Rightarrow> (string, string list) omap" where
  "push_permission plugin right m =
     om_put plugin ((case map_of m plugin of None \<Rightarrow> [] | Some old \<Rightarrow> old) @ [right]) m"

text \<open>The flag tells whether the loop reached the end of the text.\<close>

fun read_plugin_lines ::
  "string \<Rightarrow> string list \<Rightarrow> (string, string list) omap \<Rightarrow> bool \<times> (string, string list) omap" where
  "read_plugin_lines plugin [] m = (True, m)"
| "read_plugin_lines plugin (l # ls) m =
     (if l \<noteq> [] \<and> hd l = CHR ''*'' then read_plugin_lines (tl l) ls m
      else if plugin = [] then (False, m)
      else read_plugin_lines plugin ls (push_permission plugin l m))"

section \<open>The optimised sets and the plain ones\<close>

text \<open>
  \<open>covered us p\<close>: one of the user's rights \<open>us\<close> is the permission \<open>p\<close> or one of its parents.
\<close>

definition covered :: "string set \<Rightarrow> string \<Rightarrow> bool" where
  "covered us p \<longleftrightarrow> (\<exists>u \<in> us. prefix u p)"

lemma covered_insert: "covered (insert u us) p \<longleftrightarrow> prefix u p \<or> covered us p"
  by (auto simp: covered_def)

lemma covered_prefix: "covered us p \<Longrightarrow> prefix p q \<Longrightarrow> covered us q"
  by (auto simp: covered_def intro: prefix_order.trans)

lemma covered_drop:
  "prefix r p \<or> covered (set (filter (\<lambda>y. \<not> prefix r y) xs)) p \<longleftrightarrow> prefix r p \<or> covered (set xs) p"
proof (cases "prefix r p")
  case False
  have "prefix u p \<Longrightarrow> \<not> prefix r u" for u
    using False prefix_order.trans [of r u p] by blast
  then show ?thesis
    by (simp only: False simp_thms covered_def set_filter) blast
qed simp

lemma user_right_loop_covers:
  "covered (set (user_right_loop r xs)) p \<longleftrightarrow> prefix r p \<or> covered (set xs) p"
proof (induction r xs rule: user_right_loop.induct)
  case (2 r x xs)
  note tr = prefix_order.trans [of x r p] prefix_order.trans [of r x p]
  consider "length r > length x" "prefix x r" | "length r > length x" "\<not> prefix x r"
    | "length x > length r" "prefix r x" | "length x > length r" "\<not> prefix r x"
    | "length x = length r" "x = r" | "length x = length r" "x \<noteq> r" by linarith
  then show ?case
  proof cases
    case 1
    then have "user_right_loop r (x # xs) = x # xs" by simp
    then show ?thesis
      using tr(1) [OF 1(2)] by (simp only: list.set covered_insert) blast
  next
    case c: 2
    then show ?thesis
      using 2(1) by (simp add: covered_insert) blast
  next
    case 3
    then have e: "user_right_loop r (x # xs) = r # filter (\<lambda>y. \<not> prefix r y) xs" by simp
    show ?thesis
      unfolding e using covered_drop [of r p xs] tr(2) [OF 3(2)]
      by (simp only: list.set covered_insert) blast
  next
    case 4
    then show ?thesis
      using 2(2) by (simp add: covered_insert) blast
  next
    case 5
    then show ?thesis
      by (simp add: covered_insert)
  next
    case 6
    then show ?thesis
      using 2(3) by (simp add: covered_insert) blast
  qed
qed (simp add: covered_def)

lemma user_right_loop_not_Nil [simp]: "user_right_loop r xs \<noteq> []"
  by (cases xs) auto

lemma plugin_loop_covers:
  "(\<exists>i \<in> set (plugin_permission_loop r xs). covered us i)
   \<longleftrightarrow> covered us r \<or> (\<exists>i \<in> set xs. covered us i)"
proof (induction r xs rule: plugin_permission_loop.induct)
  case (2 r x xs)
  then show ?case
    by (auto dest: covered_prefix)
qed simp

lemma plugin_loop_subset: "set (plugin_permission_loop r xs) \<subseteq> insert r (set xs)"
  by (induction r xs rule: plugin_permission_loop.induct) auto

lemma plugin_loop_not_Nil [simp]: "plugin_permission_loop r xs \<noteq> []"
  by (induction r xs rule: plugin_permission_loop.induct) auto

text \<open>\<open>minimal us\<close>: the rights that no other right of \<open>us\<close> covers.\<close>

definition antichain :: "string set \<Rightarrow> bool" where
  "antichain us \<longleftrightarrow> (\<forall>a \<in> us. \<forall>b \<in> us. prefix a b \<longrightarrow> a = b)"

definition minimal :: "string set \<Rightarrow> string set" where
  "minimal us = {u \<in> us. \<forall>v \<in> us. prefix v u \<longrightarrow> v = u}"

lemma antichainD: "antichain us \<Longrightarrow> a \<in> us \<Longrightarrow> b \<in> us \<Longrightarrow> prefix a b \<Longrightarrow> a = b"
  by (simp add: antichain_def)

lemma antichain_subset: "antichain us \<Longrightarrow> vs \<subseteq> us \<Longrightarrow> antichain vs"
  unfolding antichain_def by blast

lemma antichain_minimal:
  assumes "antichain ws" "ws \<subseteq> us" "\<And>p. covered ws p \<longleftrightarrow> covered us p"
  shows "ws = minimal us"
proof (intro set_eqI iffI)
  fix w assume w: "w \<in> ws"
  have "v = w" if v: "v \<in> us" "prefix v w" for v
  proof -
    have "covered us v" unfolding covered_def using v(1) by blast
    then have "covered ws v" using assms(3) by blast
    then obtain x where x: "x \<in> ws" "prefix x v" unfolding covered_def by blast
    then have "x = w"
      using antichainD [OF assms(1) x(1) w] prefix_order.trans [OF x(2) v(2)] by blast
    then show ?thesis using prefix_order.antisym v(2) x(2) by blast
  qed
  then show "w \<in> minimal us" using w assms(2) by (auto simp: minimal_def)
next
  fix u assume u: "u \<in> minimal us"
  then have "covered us u" unfolding covered_def minimal_def by blast
  then have "covered ws u" using assms(3) by blast
  then obtain w where w: "w \<in> ws" "prefix w u" unfolding covered_def by blast
  with u assms(2) have "w = u" unfolding minimal_def by blast
  with w(1) show "u \<in> ws" by blast
qed

lemma user_right_loop_subset: "set (user_right_loop r xs) \<subseteq> insert r (set xs)"
  by (induction r xs rule: user_right_loop.induct) auto

lemma user_right_loop_antichain:
  "antichain (set xs) \<Longrightarrow> distinct xs \<Longrightarrow>
   antichain (set (user_right_loop r xs)) \<and> distinct (user_right_loop r xs)"
proof (induction r xs rule: user_right_loop.induct)
  case (1 r)
  show ?case by (simp add: antichain_def)
next
  case (2 r x xs)
  have ax: "antichain (set xs)" "distinct xs" "x \<notin> set xs"
    using 2(4,5) antichain_subset [of "set (x # xs)" "set xs"] by auto
  have fresh: "\<not> prefix x y \<and> \<not> prefix y x" if "y \<in> set xs" for y
    using that 2(4) ax(3) unfolding antichain_def by (metis list.set_intros(1,2))
  have keep: "antichain (set (x # user_right_loop r xs)) \<and> distinct (x # user_right_loop r xs)"
    if a: "antichain (set (user_right_loop r xs)) \<and> distinct (user_right_loop r xs)"
      and n: "\<not> prefix x r" "\<not> prefix r x"
  proof -
    have "\<not> prefix x y \<and> \<not> prefix y x" if "y \<in> set (user_right_loop r xs)" for y
      using that user_right_loop_subset [of r xs] fresh [of y] n by blast
    with a show ?thesis unfolding antichain_def by auto
  qed
  consider "length r > length x" "prefix x r" | "length r > length x" "\<not> prefix x r"
    | "length x > length r" "prefix r x" | "length x > length r" "\<not> prefix r x"
    | "length x = length r" "x = r" | "length x = length r" "x \<noteq> r" by linarith
  then show ?case
  proof cases
    case 3
    then have e: "user_right_loop r (x # xs) = r # filter (\<lambda>y. \<not> prefix r y) xs" by simp
    have "\<not> prefix y r" if "y \<in> set xs" for y
      using fresh [OF that] prefix_order.trans [of y r x] 3(2) by blast
    with ax show ?thesis unfolding e antichain_def by auto
  next
    case c: 2
    then have "\<not> prefix r x" using prefix_length_le [of r x] by linarith
    with c keep [OF 2(1) [OF c(1) c(2) ax(1,2)]] show ?thesis by simp
  next
    case 4
    then have "\<not> prefix x r" using prefix_length_le [of x r] by linarith
    with 4 keep [OF 2(2) [OF _ 4(1,2) ax(1,2)]] show ?thesis by simp
  next
    case 6
    then have "\<not> prefix x r" "\<not> prefix r x"
      using same_length_different [of x r] by (auto simp: prefix_def)
    with 6 keep [OF 2(3) [OF _ _ 6(2) ax(1,2)]] show ?thesis by simp
  qed (use 2(4,5) in simp_all)
qed

lemma minimal_antichain: "antichain (minimal us)"
  unfolding antichain_def minimal_def by blast

text \<open>
  \<open>collected U P st\<close>: the rights added so far are \<open>U\<close>, the permissions added for a plugin \<open>pl\<close>
  are \<open>P pl\<close> (all with a final slash); \<open>st\<close> holds what the optimised insertions left of them.
\<close>

fun plugin_collected :: "string set \<Rightarrow> string list option \<Rightarrow> bool" where
  "plugin_collected ps None \<longleftrightarrow> ps = {}"
| "plugin_collected ps (Some xs) \<longleftrightarrow> ps \<noteq> {} \<and> xs \<noteq> [] \<and> set xs \<subseteq> ps
     \<and> (\<forall>us. (\<exists>i \<in> set xs. covered us i) \<longleftrightarrow> (\<exists>i \<in> ps. covered us i))"

definition collected :: "string set \<Rightarrow> (string \<Rightarrow> string set) \<Rightarrow> sets_t \<Rightarrow> bool" where
  "collected U P st \<longleftrightarrow>
     set (f_user_rights st) = minimal U \<and> distinct (f_user_rights st)
     \<and> (\<forall>p. covered (minimal U) p \<longleftrightarrow> covered U p)
     \<and> om_ok (f_plugin_permissions st)
     \<and> (\<forall>pl. plugin_collected (P pl) (map_of (f_plugin_permissions st) pl))"

lemma collected_new: "collected {} (\<lambda>_. {}) (new_sets user_path ipath action login_status)"
  by (simp add: collected_def new_sets_def minimal_def)

lemma collected_add_user_right:
  assumes c: "collected U P st"
  shows "collected (insert (with_slash r) U) P (add_user_right r st)"
proof -
  let ?r = "with_slash r" and ?ws = "f_user_rights st"
  have a: "antichain (set (user_right_loop ?r ?ws)) \<and> distinct (user_right_loop ?r ?ws)"
    using c by (intro user_right_loop_antichain) (simp_all add: collected_def minimal_antichain)
  have cov: "covered (set (user_right_loop ?r ?ws)) p \<longleftrightarrow> covered (insert ?r U) p" for p
    using c by (simp add: user_right_loop_covers covered_insert collected_def)
  have "set (user_right_loop ?r ?ws) \<subseteq> insert ?r U"
    using c user_right_loop_subset [of ?r ?ws] by (auto simp: collected_def minimal_def)
  then have "set (user_right_loop ?r ?ws) = minimal (insert ?r U)"
    using antichain_minimal a cov by blast
  moreover from this have "\<forall>p. covered (minimal (insert ?r U)) p \<longleftrightarrow> covered (insert ?r U) p"
    using cov by simp
  ultimately show ?thesis
    using a c by (simp add: collected_def add_user_right_def)
qed

lemma collected_add_plugin_permission:
  assumes c: "collected U P st"
  shows "collected U (P(pl := insert (with_slash r) (P pl))) (add_plugin_permission pl r st)"
proof -
  have "plugin_collected (P pl) (map_of (f_plugin_permissions st) pl)"
    using c by (simp add: collected_def)
  then have "plugin_collected (insert (with_slash r) (P pl))
      (Some (case map_of (f_plugin_permissions st) pl of None \<Rightarrow> [with_slash r]
             | Some old \<Rightarrow> plugin_permission_loop (with_slash r) old))"
    using plugin_loop_subset [of "with_slash r" "the (map_of (f_plugin_permissions st) pl)"]
    by (cases "map_of (f_plugin_permissions st) pl") (auto simp: plugin_loop_covers)
  with c show ?thesis
    by (simp add: collected_def add_plugin_permission_def Let_def map_of_om_put om_ok_put)
qed

text \<open>The decision in terms of the plain sets.\<close>

definition granted :: "string set \<Rightarrow> (string \<Rightarrow> string set) \<Rightarrow> bool" where
  "granted U P \<longleftrightarrow> U \<noteq> {} \<and> (\<exists>pl. P pl \<noteq> {}) \<and> (\<forall>pl. P pl \<noteq> {} \<longrightarrow> (\<exists>p \<in> P pl. covered U p))"

lemma collected_no_rights: "collected U P st \<Longrightarrow> f_user_rights st = [] \<longleftrightarrow> U = {}"
proof
  assume c: "collected U P st" and n: "f_user_rights st = []"
  show "U = {}"
  proof (rule ccontr)
    assume "U \<noteq> {}"
    then obtain u where "u \<in> U" by blast
    then have "covered U u" by (auto simp: covered_def)
    moreover have "minimal U = {}" using c n by (simp add: collected_def)
    moreover have "covered (minimal U) u \<longleftrightarrow> covered U u"
      using c unfolding collected_def by blast
    ultimately show False by (simp add: covered_def)
  qed
qed (simp add: collected_def minimal_def)

lemma is_root_collected:
  "collected U P st \<Longrightarrow> is_root site_key st \<longleftrightarrow> with_slash (path_key site_key rights_path) \<in> minimal U"
  by (simp add: is_root_def collected_def)

lemma allowed_collected:
  assumes c: "collected U P st"
  shows "allowed st \<longleftrightarrow> granted U P"
proof -
  let ?m = "f_plugin_permissions st" and ?us = "set (f_user_rights st)"
  have ok: "om_ok ?m" and pc: "\<And>pl. plugin_collected (P pl) (map_of ?m pl)"
    using c by (simp_all add: collected_def)
  have some: "P pl \<noteq> {} \<longleftrightarrow> (\<exists>xs. map_of ?m pl = Some xs)" for pl
    using pc [of pl] by (cases "map_of ?m pl") auto
  have mem: "(pl, xs) \<in> set ?m \<longleftrightarrow> map_of ?m pl = Some xs" for pl xs
    using map_of_iff_mem [OF ok] by blast
  have "?m = [] \<longleftrightarrow> \<not> (\<exists>pl. P pl \<noteq> {})"
    unfolding some mem [symmetric] by (cases ?m) force+
  moreover have "(\<exists>i \<in> set xs. covered ?us i) \<longleftrightarrow> (\<exists>p \<in> P pl. covered U p)"
    if "map_of ?m pl = Some xs" for pl xs
  proof -
    have "covered ?us = covered U" using c by (auto simp: collected_def)
    then show ?thesis using pc [of pl] that by simp
  qed
  then have "(\<forall>p \<in> set ?m. \<exists>i \<in> set (snd p). covered ?us i)
      \<longleftrightarrow> (\<forall>pl. P pl \<noteq> {} \<longrightarrow> (\<exists>p \<in> P pl. covered U p))"
    unfolding some by (force simp: mem [symmetric])
  ultimately show ?thesis
    unfolding allowed_def granted_def collected_no_rights [OF c] covered_def by blast
qed

section \<open>The text of the cache is read back\<close>

lemma cache_lines_append:
  "newline \<notin> set l \<Longrightarrow> cache_lines (l @ newline # t) = l # cache_lines t"
  by (simp add: cache_lines_def split_on_append)

lemma cache_lines_concat:
  "(\<forall>l \<in> set ls. newline \<notin> set l) \<Longrightarrow> cache_lines (concat (map (\<lambda>l. l @ [newline]) ls)) = ls"
  by (induction ls) (simp_all add: cache_lines_append cache_lines_def [of "[]"])

lemma user_cache_read:
  "(\<forall>r \<in> set rights. newline \<notin> set r) \<Longrightarrow> cache_lines (user_cache_text rights) = rights"
  by (simp add: user_cache_text_def cache_lines_concat)

definition plugin_lines :: "(string, string list) omap \<Rightarrow> string list" where
  "plugin_lines m = concat (map (\<lambda>(plugin, rights). (CHR ''*'' # plugin) # rights) m)"

lemma plugin_cache_text_lines:
  "plugin_cache_text m = concat (map (\<lambda>l. l @ [newline]) (plugin_lines m))"
  by (induction m) (auto simp: plugin_cache_text_def plugin_lines_def)

text \<open>What the text can hold: no newline, a plugin with a name, rights without a star in front.\<close>

definition cacheable :: "(string, string list) omap \<Rightarrow> bool" where
  "cacheable m \<longleftrightarrow> om_ok m
     \<and> (\<forall>(plugin, rights) \<in> set m. plugin \<noteq> [] \<and> newline \<notin> set plugin \<and> rights \<noteq> []
         \<and> (\<forall>r \<in> set rights. newline \<notin> set r \<and> \<not> (r \<noteq> [] \<and> hd r = CHR ''*'')))"

lemma om_put_greater: "(\<forall>q \<in> set m. fst q < k) \<Longrightarrow> om_put k v m = m @ [(k, v)]"
proof (induction m)
  case (Cons q m)
  then show ?case by (cases q) (auto simp: not_less_iff_gr_or_eq)
qed simp

lemma om_put_replace_last:
  "(\<forall>q \<in> set m. fst q < k) \<Longrightarrow> om_put k v (m @ [(k, w)]) = m @ [(k, v)]"
proof (induction m)
  case (Cons q m)
  then show ?case by (cases q) (auto simp: not_less_iff_gr_or_eq)
qed simp

lemma map_of_greater: "(\<forall>q \<in> set m. fst q < k) \<Longrightarrow> map_of m (k :: 'a::linorder) = None"
  by (induction m) auto

lemma read_rights:
  assumes "\<forall>q \<in> set m. fst q < plugin" "plugin \<noteq> []"
    and "\<forall>r \<in> set rights. \<not> (r \<noteq> [] \<and> hd r = CHR ''*'')"
  shows "read_plugin_lines plugin (rights @ ls) (m @ [(plugin, old)]) =
     read_plugin_lines plugin ls (m @ [(plugin, old @ rights)])"
  using assms(3)
proof (induction rights arbitrary: old)
  case (Cons r rights)
  have "push_permission plugin r (m @ [(plugin, old)]) = m @ [(plugin, old @ [r])]"
    using assms(1) by (simp add: push_permission_def om_put_replace_last map_add_def map_of_greater)
  with Cons assms(2) show ?case by auto
qed simp

lemma read_plugins:
  "(\<forall>q \<in> set m'. \<forall>p \<in> set m. fst q < fst p) \<Longrightarrow> cacheable m \<Longrightarrow>
   read_plugin_lines pl (plugin_lines m) m' = (True, m' @ m)"
proof (induction m arbitrary: m' pl)
  case Nil
  then show ?case by (simp add: plugin_lines_def)
next
  case (Cons p m)
  obtain plugin rights where p: "p = (plugin, rights)" by force
  then obtain r rs where rs: "rights = r # rs" and star: "\<not> (r \<noteq> [] \<and> hd r = CHR ''*'')"
    and rest: "\<forall>r \<in> set rs. \<not> (r \<noteq> [] \<and> hd r = CHR ''*'')" and pl: "plugin \<noteq> []"
    using Cons.prems(2) by (cases rights) (auto simp: cacheable_def)
  have less: "\<forall>q \<in> set m'. fst q < plugin"
    using Cons.prems(1) p by auto
  have "push_permission plugin r m' = m' @ [(plugin, [r])]"
    using less by (simp add: push_permission_def map_of_greater om_put_greater)
  then have "read_plugin_lines pl (plugin_lines (p # m)) m' =
      read_plugin_lines plugin (rs @ plugin_lines m) (m' @ [(plugin, [r])])"
    using star pl by (auto simp: p rs plugin_lines_def)
  also have "\<dots> = read_plugin_lines plugin (plugin_lines m) (m' @ [p])"
    using read_rights [OF less pl rest, of "plugin_lines m" "[r]"] by (simp add: p rs)
  also have "\<dots> = (True, (m' @ [p]) @ m)"
  proof (rule Cons.IH)
    show "\<forall>q \<in> set (m' @ [p]). \<forall>p' \<in> set m. fst q < fst p'"
      using Cons.prems by (auto simp: cacheable_def)
    show "cacheable m" using Cons.prems(2) by (auto simp: cacheable_def)
  qed
  finally show ?case by simp
qed

lemma plugin_cache_read:
  assumes "cacheable m"
  shows "read_plugin_lines [] (cache_lines (plugin_cache_text m)) [] = (True, m)"
proof -
  have "\<forall>l \<in> set (plugin_lines m). newline \<notin> set l"
    using assms by (auto simp: plugin_lines_def cacheable_def newline_def)
  then have "cache_lines (plugin_cache_text m) = plugin_lines m"
    by (simp add: plugin_cache_text_lines cache_lines_concat)
  then show ?thesis using read_plugins [of "[]" m "[]"] assms by simp
qed

end
