(* ===== verification/PermAccess.thy ===== *)
theory PermAccess
  imports PermSets
begin

text \<open>
  Who may do what to a page (\<open>snapserver-core-plugins/src/permissions/permissions.cpp\<close>): collecting
  the rights of a user and the permissions of a page from the database, their caches, the
  decision (\<open>on_access_allowed\<close>) and the answer given to a request (\<open>on_validate_action\<close>).

  The database is the record \<open>site\<close>. No other plugin of the repository listens to the signals
  \<open>get_user_rights\<close>, \<open>get_plugin_permissions\<close> and \<open>access_allowed\<close>, so a signal is its
  implementation here. What is written and read again is the state \<open>perm_state\<close>: the cells of the
  cache table, the actions known to be valid, and the date of the last change of a permission.
  Flags that are only written (\<open>f_user_cache_reset\<close>, the reviewed caches) are left out.
\<close>

section \<open>The database\<close>

text \<open>
  \<open>links name key\<close>: the keys that \<open>next_link\<close> returns for the page \<open>key\<close>, in order; a unique link
  is a list of at most one. The branch of a page is part of what \<open>links\<close> looks up.
  \<open>dynamic_depth\<close> is the cell \<open>permissions::dynamic\<close>, a signed char.
\<close>

record site =
  site_key :: string
  content :: content_table
  dynamic_depth :: "string \<Rightarrow> int option"
  links :: "string \<Rightarrow> string \<Rightarrow> string list"
  start_date :: int
  secure_site :: int

record perm_state =
  f_cache :: "string \<times> string \<Rightarrow> (int \<times> string) option"
  f_valid_actions :: "string list"
  f_last_updated :: int

definition row_exists :: "site \<Rightarrow> string \<Rightarrow> bool" where
  "row_exists S key \<longleftrightarrow> content S key \<noteq> None"

definition has_owner :: "site \<Rightarrow> string \<Rightarrow> bool" where
  "has_owner S key \<longleftrightarrow> (case content S key of None \<Rightarrow> False | Some row \<Rightarrow> c_primary_owner row \<noteq> [])"

definition key_of :: "site \<Rightarrow> string \<Rightarrow> string" where
  "key_of S path = path_key (site_key S) path"

section \<open>Runs that may throw or not return\<close>

text \<open>
  \<open>None\<close>: the run does not return. \<open>Some (Some e, s)\<close>: it throws \<open>e\<close>, having changed the state to
  \<open>s\<close> (the destructor of \<open>sets_t\<close> then still saves it). \<open>Some (None, s)\<close>: it returns.
\<close>

type_synonym 's run = "(exn option \<times> 's) option"

definition and_then :: "'s run \<Rightarrow> ('s \<Rightarrow> 's run) \<Rightarrow> 's run" where
  "and_then r f = Option.bind r (\<lambda>p. case fst p of Some e \<Rightarrow> Some p | None \<Rightarrow> f (snd p))"

primrec each :: "('a \<Rightarrow> 's \<Rightarrow> 's run) \<Rightarrow> 'a list \<Rightarrow> 's \<Rightarrow> 's run" where
  "each f [] s = Some (None, s)"
| "each f (x # xs) s = and_then (f x s) (each f xs)"

lemma and_then_simps [simp]:
  "and_then None f = None" "and_then (Some (Some e, s)) f = Some (Some e, s)"
  "and_then (Some (None, s)) f = f s"
  by (simp_all add: and_then_def)

lemma and_then_mono [partial_function_mono]:
  assumes "mono_option A" "\<And>s. mono_option (\<lambda>f. B f s)"
  shows "mono_option (\<lambda>f. and_then (A f) (B f))"
  unfolding and_then_def
proof (rule bind_mono [OF assms(1)])
  fix p :: "exn option \<times> 'c"
  show "mono_option (\<lambda>f. case fst p of None \<Rightarrow> B f (snd p) | Some e \<Rightarrow> Some p)"
    by (cases "fst p") (simp_all add: assms(2) option.const_mono)
qed

lemma each_mono [partial_function_mono]:
  assumes "\<And>x s. mono_option (\<lambda>f. B f x s)"
  shows "mono_option (\<lambda>f. each (B f) xs s)"
proof (induction xs arbitrary: s)
  case (Cons x xs)
  then show ?case by (simp add: and_then_mono assms)
qed (simp add: option.const_mono)

section \<open>Groups\<close>

definition contains_text :: "string \<Rightarrow> string \<Rightarrow> bool" where
  "contains_text t s \<longleftrightarrow> list_ex (prefix t) (suffixes s)"

definition action_link :: "string \<Rightarrow> string" where
  "action_link action = ''permissions::action::'' @ action"

definition direct_action_link :: "string \<Rightarrow> string" where
  "direct_action_link action = ''permissions::direct::action::'' @ action"

definition children_link :: string where
  "children_link = ''content::children''"

partial_function (option) recursive_add_user_rights :: "site \<Rightarrow> string \<Rightarrow> sets_t \<Rightarrow> sets_t run" where
  "recursive_add_user_rights S gr st =
     (if \<not> row_exists S gr then Some (Some Invalid_group_name, st)
      else
        and_then
          (Some (None, fold add_user_right (links S (action_link (f_action st)) (key_of S gr)) st))
          (each (recursive_add_user_rights S) (links S children_link (key_of S gr))))"

definition add_user_rights :: "site \<Rightarrow> string \<Rightarrow> sets_t \<Rightarrow> sets_t run" where
  "add_user_rights S gr st =
     (if contains_text rights_path gr then Some (Some Snap_logic_error, st)
      else recursive_add_user_rights S gr st)"

partial_function (option) recursive_add_plugin_permissions ::
    "site \<Rightarrow> string \<Rightarrow> string \<Rightarrow> sets_t \<Rightarrow> sets_t run" where
  "recursive_add_plugin_permissions S plugin_name gr st =
     (if \<not> row_exists S gr then Some (Some Invalid_group_name, st)
      else
        and_then
          (Some (None, fold (add_plugin_permission plugin_name)
             (links S (action_link (f_action st)) (key_of S gr)) st))
          (each (recursive_add_plugin_permissions S plugin_name) (links S children_link (key_of S gr))))"

definition add_plugin_permissions :: "site \<Rightarrow> string \<Rightarrow> string \<Rightarrow> sets_t \<Rightarrow> sets_t run" where
  "add_plugin_permissions S plugin_name gr st =
     (if contains_text rights_path gr then Some (Some Snap_logic_error, st)
      else recursive_add_plugin_permissions S plugin_name gr st)"

declare recursive_add_user_rights.simps [code]
declare recursive_add_plugin_permissions.simps [code]

section \<open>The rights of a user\<close>

definition status_spammer :: string where
  "status_spammer = ''permissions::login_status::spammer''"
definition status_visitor :: string where
  "status_visitor = ''permissions::login_status::visitor''"
definition status_returning_visitor :: string where
  "status_returning_visitor = ''permissions::login_status::returning_visitor''"
definition status_returning_registered :: string where
  "status_returning_registered = ''permissions::login_status::returning_registered''"
definition status_registered :: string where
  "status_registered = ''permissions::login_status::registered''"

text \<open>The path of each group is that of its parent with one more segment.\<close>

definition registered_group :: string where
  "registered_group =
     ''types/permissions/groups/root/administrator/editor/moderator/author/commenter/registered-user''"
definition returning_registered_group :: string where
  "returning_registered_group = registered_group @ ''/returning-registered-user''"
definition returning_visitor_group :: string where
  "returning_visitor_group = returning_registered_group @ ''/returning-visitor''"
definition visitor_group :: string where
  "visitor_group = returning_visitor_group @ ''/visitor''"
definition spammer_group :: string where
  "spammer_group = visitor_group @ ''/spammer''"

definition get_user_rights_impl :: "site \<Rightarrow> sets_t \<Rightarrow> sets_t run" where
  "get_user_rights_impl S st =
     (let login_status = f_login_status st in
      if login_status = status_spammer then
        add_user_rights S (site_key S @ spammer_group) st
      else if login_status = status_returning_visitor then
        add_user_rights S (site_key S @ returning_visitor_group) st
      else if f_user_path st = [] \<or> login_status = status_visitor then
        add_user_rights S (site_key S @ visitor_group) st
      else
        let user_key = key_of S (f_user_path st) in
        if \<not> row_exists S user_key then Some (Some Invalid_path, st)
        else
          let st1 = add_user_right user_key st in
          if login_status = status_registered then
            and_then (add_user_rights S (site_key S @ registered_group) st1) (\<lambda>st2.
            and_then (each (add_user_rights S) (links S ''permissions::direct::group'' user_key) st2) (\<lambda>st3.
              each (add_user_rights S)
                (links S (direct_action_link (f_action st3)) user_key) st3))
          else
            and_then (add_user_rights S (site_key S @ returning_registered_group) st1) (\<lambda>st2.
              each (add_user_rights S)
                (links S ''permissions::direct::group::returning_registered_user'' user_key) st2))"

section \<open>The permissions of a page\<close>

definition content_name :: string where "content_name = ''content''"
definition permissions_name :: string where "permissions_name = ''permissions''"

text \<open>\<open>user/123\<close>: only digits behind \<open>user/\<close> (or nothing).\<close>

definition is_user_page :: "string \<Rightarrow> bool" where
  "is_user_page cpath \<longleftrightarrow> take 5 cpath = ''user/''
     \<and> list_all (\<lambda>c. CHR ''0'' \<le> c \<and> c \<le> CHR ''9'') (drop 5 cpath)"

text \<open>
  The loop that goes up from a page that does not exist: \<open>parts\<close> are the segments left, in
  reverse. The result is the depth and the key of the page found.
\<close>

definition join_slash :: "string list \<Rightarrow> string" where
  "join_slash parts = (case parts of [] \<Rightarrow> [] | p # ps \<Rightarrow> p @ concat (map (\<lambda>q. CHR ''/'' # q) ps))"

fun find_parent :: "site \<Rightarrow> nat \<Rightarrow> string list \<Rightarrow> (nat \<times> string) option" where
  "find_parent S depth [] = None"
| "find_parent S depth (part # parts) =
     (if parts = [] then None
      else
        let key = site_key S @ join_slash (rev parts) in
        if row_exists S key then Some (depth + 1, key)
        else find_parent S (depth + 1) parts)"

datatype page_found =
    No_page                          \<comment> \<open>let other modules take over\<close>
  | This_page string                 \<comment> \<open>the page itself\<close>
  | Real_page string                 \<comment> \<open>another page stands for it\<close>

definition find_page :: "site \<Rightarrow> path_info_t \<Rightarrow> page_found" where
  "find_page S ipath =
     (if f_renamed_path ipath \<noteq> [] then
        let key = key_of S (f_renamed_path ipath) in
        if has_owner S key then Real_page key else No_page
      else if has_owner S (f_key ipath) then This_page (f_key ipath)
      else
        case find_parent S 0 (rev (split_on CHR ''/'' (f_cpath ipath))) of
          None \<Rightarrow> No_page
        | Some (depth, key) \<Rightarrow>
            (case dynamic_depth S key of
               None \<Rightarrow> No_page
             | Some d \<Rightarrow> if int depth > d then No_page else Real_page key))"

definition set_real_path :: "site \<Rightarrow> string \<Rightarrow> sets_t \<Rightarrow> sets_t" where
  "set_real_path S key st = st\<lparr>f_ipath := (f_ipath st)\<lparr>f_real_key := key_of S key\<rparr>\<rparr>"

definition status_path :: string where
  "status_path = ''types/permissions/status''"

definition page_permissions :: "site \<Rightarrow> string \<Rightarrow> sets_t \<Rightarrow> sets_t run" where
  "page_permissions S key st =
     (let page_key = key_of S key;
          state = f_state (page_get_status (content S) page_key);
          st1 = (if state \<noteq> NORMAL then
                   add_plugin_permission permissions_name
                     (key_of S (status_path @ ''/'' @ status_name_to_string state)) st
                 else st);
          st2 = fold (add_plugin_permission content_name)
                  (links S (direct_action_link (f_action st1)) key) st1 in
      case links S ''content::page_type'' key of
        [] \<Rightarrow> Some (None, st2)
      | page_type # _ \<Rightarrow>
          let type_key = key_of S page_type;
              st3 = fold (add_plugin_permission content_name)
                      (links S (action_link (f_action st2)) type_key) st2 in
          each (add_plugin_permissions S content_name) (links S ''permissions::group'' type_key) st3)"

definition get_plugin_permissions_impl :: "site \<Rightarrow> sets_t \<Rightarrow> sets_t run" where
  "get_plugin_permissions_impl S st =
     (let ipath = f_ipath st;
          st1 = (if is_user_page (f_cpath ipath)
                 then add_plugin_permission content_name (f_key ipath) st else st) in
      case find_page S ipath of
        No_page \<Rightarrow> Some (None, st1)
      | This_page key \<Rightarrow> page_permissions S key st1
      | Real_page key \<Rightarrow> page_permissions S key (set_real_path S key st1))"

section \<open>The caches\<close>

text \<open>The row of the user's cache; an empty path is that of the anonymous user.\<close>

definition user_cache_cell :: "site \<Rightarrow> sets_t \<Rightarrow> string \<times> string" where
  "user_cache_cell S st =
     (key_of S (if f_user_path st = [] then ''user'' else f_user_path st),
      f_login_status st @ ''::'' @ f_action st)"

definition plugin_cache_cell :: "sets_t \<Rightarrow> string \<times> string" where
  "plugin_cache_cell st = (f_key (f_ipath st), ''permissions::plugin::action::'' @ f_action st)"

definition read_from_user_cache :: "site \<Rightarrow> perm_state \<Rightarrow> sets_t \<Rightarrow> bool \<times> sets_t" where
  "read_from_user_cache S ps st =
     (if f_using_user_cache st then (True, st)
      else
        case f_cache ps (user_cache_cell S st) of
          None \<Rightarrow> (False, st)
        | Some (timestamp, text) \<Rightarrow>
            if timestamp < f_last_updated ps then (False, st)
            else (True, st\<lparr>f_user_rights := f_user_rights st @ cache_lines text,
                           f_using_user_cache := True\<rparr>))"

definition read_from_plugin_cache :: "perm_state \<Rightarrow> sets_t \<Rightarrow> bool \<times> sets_t" where
  "read_from_plugin_cache ps st =
     (if f_using_plugin_cache st then (True, st)
      else if f_renamed_path (f_ipath st) \<noteq> [] then (False, st)
      else
        case f_cache ps (plugin_cache_cell st) of
          None \<Rightarrow> (False, st)
        | Some (timestamp, text) \<Rightarrow>
            if timestamp < f_last_updated ps then (False, st)
            else
              case read_plugin_lines [] (cache_lines text) (f_plugin_permissions st) of
                (complete, m) \<Rightarrow>
                  (True, st\<lparr>f_plugin_permissions := m, f_using_plugin_cache := complete\<rparr>))"

definition save_to_user_cache :: "site \<Rightarrow> sets_t \<Rightarrow> perm_state \<Rightarrow> perm_state" where
  "save_to_user_cache S st ps =
     (if f_using_user_cache st \<or> \<not> f_modified_user_permissions st then ps
      else ps\<lparr>f_cache := (f_cache ps)
              (user_cache_cell S st \<mapsto> (start_date S, user_cache_text (f_user_rights st)))\<rparr>)"

definition save_to_plugin_cache :: "site \<Rightarrow> sets_t \<Rightarrow> perm_state \<Rightarrow> perm_state" where
  "save_to_plugin_cache S st ps =
     (if f_using_plugin_cache st \<or> \<not> f_modified_plugin_permissions st then ps
      else if f_renamed_path (f_ipath st) \<noteq> [] then ps
      else ps\<lparr>f_cache := (f_cache ps)
              (plugin_cache_cell st \<mapsto> (start_date S, plugin_cache_text (f_plugin_permissions st)))\<rparr>)"

text \<open>The destructor of \<open>sets_t\<close>.\<close>

definition save_sets :: "site \<Rightarrow> sets_t \<Rightarrow> perm_state \<Rightarrow> perm_state" where
  "save_sets S st ps = save_to_plugin_cache S st (save_to_user_cache S st ps)"

definition get_user_rights :: "site \<Rightarrow> perm_state \<Rightarrow> sets_t \<Rightarrow> sets_t run" where
  "get_user_rights S ps st =
     (case read_from_user_cache S ps st of
        (True, st1) \<Rightarrow> Some (None, st1)
      | (False, st1) \<Rightarrow> get_user_rights_impl S (st1\<lparr>f_modified_user_permissions := True\<rparr>))"

definition get_plugin_permissions :: "site \<Rightarrow> perm_state \<Rightarrow> sets_t \<Rightarrow> sets_t run" where
  "get_plugin_permissions S ps st =
     (case read_from_plugin_cache ps st of
        (True, st1) \<Rightarrow> Some (None, st1)
      | (False, st1) \<Rightarrow> get_plugin_permissions_impl S (st1\<lparr>f_modified_plugin_permissions := True\<rparr>))"

section \<open>The decision\<close>

definition actions_path :: string where
  "actions_path = ''types/permissions/actions''"

text \<open>
  The sets once the rights and, when they are needed, the permissions were collected, and the
  decision: \<open>result.not_permitted()\<close> is \<open>False\<close>.
\<close>

definition collect_and_decide :: "site \<Rightarrow> perm_state \<Rightarrow> sets_t \<Rightarrow> (bool res \<times> sets_t) option" where
  "collect_and_decide S ps st =
     (case get_user_rights S ps st of
        None \<Rightarrow> None
      | Some (Some e, st1) \<Rightarrow> Some (Inl e, st1)
      | Some (None, st1) \<Rightarrow>
          if f_user_rights st1 = [] then Some (Inr False, st1)
          else if is_root (site_key S) st1 then Some (Inr True, st1)
          else
            case get_plugin_permissions S ps st1 of
              None \<Rightarrow> None
            | Some (Some e, st2) \<Rightarrow> Some (Inl e, st2)
            | Some (None, st2) \<Rightarrow> Some (Inr (allowed st2), st2))"

definition on_access_allowed ::
    "site \<Rightarrow> string \<Rightarrow> path_info_t \<Rightarrow> string \<Rightarrow> string \<Rightarrow> perm_state \<Rightarrow>
     (bool res \<times> path_info_t \<times> perm_state) option" where
  "on_access_allowed S user_path ipath action login_status ps =
     (if action \<notin> set (f_valid_actions ps)
         \<and> \<not> row_exists S (site_key S @ actions_path @ ''/'' @ action)
      then Some (Inl Access_denied, ipath, ps)
      else
        let ps1 = ps\<lparr>f_valid_actions := List.insert action (f_valid_actions ps)\<rparr> in
        case collect_and_decide S ps1 (new_sets user_path ipath action login_status) of
          None \<Rightarrow> None
        | Some (r, st) \<Rightarrow> Some (r, f_ipath st, save_sets S st ps1))"

section \<open>Changes of permissions\<close>

definition expected_time_accuracy_epsilon :: int where
  "expected_time_accuracy_epsilon = 10000"

definition reset_permissions_cache :: "int \<Rightarrow> perm_state \<Rightarrow> perm_state" where
  "reset_permissions_cache current ps =
     ps\<lparr>f_last_updated := current + expected_time_accuracy_epsilon\<rparr>"

definition on_modified_link :: "int \<Rightarrow> string \<Rightarrow> perm_state \<Rightarrow> perm_state" where
  "on_modified_link current link_name ps =
     (if take 13 link_name = ''permissions::'' then reset_permissions_cache current ps else ps)"

section \<open>Answering a request\<close>

text \<open>
  What the request and the users plugin say of the visitor. \<open>v_transparent\<close> is
  \<open>is_transparent_hit()\<close>, set from the query string (\<open>hit=transparent\<close>); \<open>v_hit\<close> that query option;
  \<open>v_path_callback\<close> whether the callback is a \<open>path_error_callback\<close>; \<open>v_permit_redirect\<close> what the
  listeners of \<open>permit_redirect_to_login_on_not_allowed\<close> answer.
\<close>

record visitor =
  v_spammer :: bool
  v_user_path :: string
  v_session_is_old :: bool
  v_logged_in :: bool
  v_valid :: bool
  v_transparent :: bool
  v_method :: string
  v_iframe :: "string option"
  v_hit :: "string option"
  v_path_callback :: bool
  v_action_parameter :: string
  v_permit_redirect :: bool

definition get_user_path :: "visitor \<Rightarrow> string" where
  "get_user_path v = (if v_user_path v = ''user'' then [] else v_user_path v)"

definition get_login_status :: "visitor \<Rightarrow> string" where
  "get_login_status v =
     (if v_spammer v then status_spammer
      else if get_user_path v = [] then
        if v_session_is_old v then status_returning_visitor else status_visitor
      else if v_logged_in v then status_registered
      else status_returning_registered)"

definition permit_redirect_to_login_on_not_allowed :: "visitor \<Rightarrow> bool" where
  "permit_redirect_to_login_on_not_allowed v =
     (if v_action_parameter v = ''submit'' then False else v_permit_redirect v)"

text \<open>
  \<open>Redirected\<close> and \<open>Refused\<close> are the calls \<open>on_redirect\<close> and \<open>on_error\<close> of the callback; \<open>Passed\<close> is
  the return of a request that is allowed; \<open>Silent\<close> the return of one that is not allowed, without
  a call of the callback. Messages and the referrer are left out.
\<close>

datatype answer = Passed | Refused | Redirected string | Silent

definition refused_visitor ::
    "site \<Rightarrow> visitor \<Rightarrow> path_info_t \<Rightarrow> perm_state \<Rightarrow> (answer res \<times> perm_state) option" where
  "refused_visitor S v ipath ps =
     (let redirect = permit_redirect_to_login_on_not_allowed v \<and> (v_method v = ''GET'' \<or> v_method v = ''POST'') in
      if v_spammer v then
        Some (Inr (if f_cpath ipath \<noteq> [] \<and> redirect then Redirected ''/'' else Refused), ps)
      else if f_cpath ipath = ''login'' then Some (Inr Refused, ps)
      else if \<not> redirect then Some (Inr Refused, ps)
      else if v_iframe v = Some ''true'' then
        Some (Inr (if v_transparent v then Silent else Redirected ''remove-iframe-for-login''), ps)
      else
        case on_access_allowed S [] ipath ''view'' status_visitor ps of
          None \<Rightarrow> None
        | Some (Inl e, _, ps1) \<Rightarrow> Some (Inl e, ps1)
        | Some (Inr _, _, ps1) \<Rightarrow>
            Some (Inr (if v_hit v = Some ''transparent'' \<and> v_path_callback v then Redirected ''login''
                       else if v_transparent v then Silent
                       else Redirected ''login''), ps1))"

definition refused_user ::
    "site \<Rightarrow> visitor \<Rightarrow> path_info_t \<Rightarrow> string \<Rightarrow> perm_state \<Rightarrow> (answer res \<times> perm_state) option" where
  "refused_user S v ipath action ps =
     (if get_login_status v = status_returning_registered
         \<and> permit_redirect_to_login_on_not_allowed v \<and> (v_method v = ''GET'' \<or> v_method v = ''POST'')
      then
        case on_access_allowed S (get_user_path v) ipath action status_registered ps of
          None \<Rightarrow> None
        | Some (Inl e, _, ps1) \<Rightarrow> Some (Inl e, ps1)
        | Some (Inr ok, _, ps1) \<Rightarrow>
            Some (Inr (if ok then if v_transparent v then Silent else Redirected ''verify-credentials''
                       else Refused), ps1)
      else Some (Inr Refused, ps))"

definition on_validate_action ::
    "site \<Rightarrow> visitor \<Rightarrow> path_info_t \<Rightarrow> string \<Rightarrow> perm_state \<Rightarrow> (answer res \<times> perm_state) option" where
  "on_validate_action S v ipath action ps =
     (if action = [] then Some (Inl Access_denied, ps)
      else
        case on_access_allowed S (get_user_path v) ipath action (get_login_status v) ps of
          None \<Rightarrow> None
        | Some (Inl e, _, ps1) \<Rightarrow> Some (Inl e, ps1)
        | Some (Inr ok, ipath1, ps1) \<Rightarrow>
            if ok then Some (Inr Passed, ps1)
            else if v_valid v then refused_user S v ipath1 action ps1
            else refused_visitor S v ipath1 ps1)"

text \<open>
  \<open>on_check_for_redirect\<close>: the address to redirect to, if any. The modes of a site are 0 (no),
  1 (per page) and 2 (always).
\<close>

definition on_check_for_redirect :: "site \<Rightarrow> string \<Rightarrow> path_info_t \<Rightarrow> string option" where
  "on_check_for_redirect S protocol ipath =
     (if protocol = ''https'' \<or> secure_site S = 0 then None
      else if secure_site S = 1 \<and> links S ''permissions::secure_page'' (f_key ipath) = [] then None
      else if take 5 (f_key ipath) = ''http:'' then
        Some (take 4 (f_key ipath) @ CHR ''s'' # drop 4 (f_key ipath))
      else None)"

end
