(* ===== verification/PermSpec.thy ===== *)
theory PermSpec
  imports PermAccess
begin

text \<open>
  What an access is decided from, without the order of the insertions, the optimised sets and the
  caches: the rights of a group and its subgroups, of a user, and the permissions that a page asks
  for, as sets; and that the code collects exactly these.
\<close>

section \<open>Runs\<close>

lemma and_then_Some:
  "and_then r f = Some (None, t) \<longleftrightarrow> (\<exists>s. r = Some (None, s) \<and> f s = Some (None, t))"
  by (auto simp: and_then_def bind_eq_Some_conv split: option.splits)

lemma and_then_returns:
  "r \<noteq> None \<Longrightarrow> (\<And>s. f s \<noteq> None) \<Longrightarrow> and_then r f \<noteq> None"
  by (cases r) (auto simp: and_then_def split: option.split)

text \<open>A run through a list, with what was done so far.\<close>

lemma each_invariant:
  assumes "each f xs s = Some (None, t)" "I {} s"
    and "\<And>x ys s t. x \<in> set xs \<Longrightarrow> f x s = Some (None, t) \<Longrightarrow> I ys s \<Longrightarrow> I (insert x ys) t"
  shows "I (set xs) t"
proof -
  have "each f xs s = Some (None, t) \<Longrightarrow> I ys s \<Longrightarrow>
      (\<And>x ys s t. x \<in> set xs \<Longrightarrow> f x s = Some (None, t) \<Longrightarrow> I ys s \<Longrightarrow> I (insert x ys) t) \<Longrightarrow>
      I (ys \<union> set xs) t" for ys
  proof (induction xs arbitrary: ys s)
    case (Cons x xs)
    then obtain u where u: "f x s = Some (None, u)" "each f xs u = Some (None, t)"
      by (auto simp: and_then_Some)
    have "I (insert x ys \<union> set xs) t"
      by (rule Cons.IH [OF u(2)]) (use Cons.prems u(1) in auto)
    then show ?case by simp
  qed simp
  from this [of "{}"] assms show ?thesis by simp
qed

lemma each_returns:
  "(\<And>x s. x \<in> set xs \<Longrightarrow> f x s \<noteq> None) \<Longrightarrow> each f xs s \<noteq> None"
proof (induction xs arbitrary: s)
  case (Cons x xs)
  have "each f xs u \<noteq> None" for u
    by (rule Cons.IH) (use Cons.prems in auto)
  moreover have "f x s \<noteq> None"
    by (rule Cons.prems) simp
  ultimately show ?case
    using and_then_returns [of "f x s" "each f xs"] by simp
qed simp

lemma fold_invariant:
  assumes "I {} s" "\<And>x ys s. x \<in> set xs \<Longrightarrow> I ys s \<Longrightarrow> I (insert x ys) (f x s)"
  shows "I (set xs) (fold f xs s)"
proof -
  have "I ys s \<Longrightarrow> (\<And>x ys s. x \<in> set xs \<Longrightarrow> I ys s \<Longrightarrow> I (insert x ys) (f x s)) \<Longrightarrow>
      I (ys \<union> set xs) (fold f xs s)" for ys
  proof (induction xs arbitrary: ys s)
    case (Cons x xs)
    have "I (insert x ys \<union> set xs) (fold f xs (f x s))"
      by (rule Cons.IH) (use Cons.prems in auto)
    then show ?case by simp
  qed simp
  from this [of "{}"] assms show ?thesis by simp
qed

section \<open>Groups\<close>

inductive group_right :: "site \<Rightarrow> string \<Rightarrow> string \<Rightarrow> string \<Rightarrow> bool" for S action where
  here: "right \<in> set (links S (action_link action) (key_of S gr)) \<Longrightarrow> group_right S action gr right"
| child: "c \<in> set (links S children_link (key_of S gr)) \<Longrightarrow> group_right S action c right \<Longrightarrow>
    group_right S action gr right"

definition group_rights :: "site \<Rightarrow> string \<Rightarrow> string \<Rightarrow> string set" where
  "group_rights S action gr = with_slash ` {right. group_right S action gr right}"

lemma group_rights_unfold:
  "group_rights S action gr =
     with_slash ` set (links S (action_link action) (key_of S gr))
     \<union> (\<Union>c \<in> set (links S children_link (key_of S gr)). group_rights S action c)"
proof -
  have "{right. group_right S action gr right} =
      set (links S (action_link action) (key_of S gr))
      \<union> (\<Union>c \<in> set (links S children_link (key_of S gr)). {right. group_right S action c right})"
    by (auto elim: group_right.cases intro: group_right.intros)
  then show ?thesis unfolding group_rights_def by (simp only: image_Un image_UN)
qed

text \<open>What adding rights leaves alone, and the same for permissions.\<close>

definition same_user :: "sets_t \<Rightarrow> sets_t \<Rightarrow> bool" where
  "same_user st st' \<longleftrightarrow> st' = st\<lparr>f_user_rights := f_user_rights st'\<rparr>"

definition same_page :: "sets_t \<Rightarrow> sets_t \<Rightarrow> bool" where
  "same_page st st' \<longleftrightarrow> st' = st\<lparr>f_plugin_permissions := f_plugin_permissions st'\<rparr>"

lemma same_user_action: "same_user st st' \<Longrightarrow> f_action st' = f_action st"
  by (cases st; cases st') (simp add: same_user_def)

lemma same_page_action: "same_page st st' \<Longrightarrow> f_action st' = f_action st"
  by (cases st; cases st') (simp add: same_page_def)

definition user_collected :: "string set \<Rightarrow> (string \<Rightarrow> string set) \<Rightarrow> sets_t \<Rightarrow> sets_t \<Rightarrow> bool" where
  "user_collected U P st st' \<longleftrightarrow> collected U P st' \<and> same_user st st'"

definition page_collected :: "string set \<Rightarrow> (string \<Rightarrow> string set) \<Rightarrow> sets_t \<Rightarrow> sets_t \<Rightarrow> bool" where
  "page_collected U P st st' \<longleftrightarrow> collected U P st' \<and> same_page st st'"

lemma user_collected_refl: "collected U P st \<Longrightarrow> user_collected U P st st"
  by (simp add: user_collected_def same_user_def)

lemma page_collected_refl: "collected U P st \<Longrightarrow> page_collected U P st st"
  by (simp add: page_collected_def same_page_def)

lemma user_collected_add:
  "user_collected U P st0 st \<Longrightarrow> user_collected (insert (with_slash r) U) P st0 (add_user_right r st)"
  by (cases st0; cases st)
    (simp add: user_collected_def collected_add_user_right, simp add: same_user_def add_user_right_def)

lemma page_collected_add:
  "page_collected U P st0 st \<Longrightarrow>
   page_collected U (P(pl := insert (with_slash r) (P pl))) st0 (add_plugin_permission pl r st)"
  by (cases st0; cases st)
    (simp add: page_collected_def collected_add_plugin_permission,
     simp add: same_page_def add_plugin_permission_def Let_def)

lemma user_collected_fold:
  assumes "user_collected U P st0 st"
  shows "user_collected (U \<union> with_slash ` set rs) P st0 (fold add_user_right rs st)"
  by (rule fold_invariant [where I = "\<lambda>ys st. user_collected (U \<union> with_slash ` ys) P st0 st"])
    (use assms user_collected_add in auto)

definition ask :: "string \<Rightarrow> string set \<Rightarrow> (string \<Rightarrow> string set) \<Rightarrow> string \<Rightarrow> string set" where
  "ask pl rs P = P(pl := P pl \<union> rs)"

lemma page_collected_fold:
  assumes "page_collected U P st0 st"
  shows "page_collected U (ask pl (with_slash ` set rs) P) st0 (fold (add_plugin_permission pl) rs st)"
proof (rule fold_invariant [where I = "\<lambda>ys st. page_collected U (ask pl (with_slash ` ys) P) st0 st"])
  show "page_collected U (ask pl (with_slash ` {}) P) st0 st"
    using assms by (simp add: ask_def)
next
  fix x ys st assume "page_collected U (ask pl (with_slash ` ys) P) st0 st"
  from page_collected_add [OF this, of pl x]
  show "page_collected U (ask pl (with_slash ` insert x ys) P) st0 (add_plugin_permission pl x st)"
    by (simp add: ask_def)
qed

lemma ask_empty [simp]: "ask pl {} P = P"
  by (simp add: ask_def)

lemma ask_one: "ask pl {r} P = P(pl := insert r (P pl))"
  by (simp add: ask_def)

lemma ask_ask: "ask pl rs (ask pl ss P) = ask pl (ss \<union> rs) P"
  by (simp add: ask_def Un_assoc)

section \<open>What the recursions collect\<close>

lemma recursive_user_collects:
  assumes "recursive_add_user_rights S gr st = Some r" "fst r = None" "user_collected U P st0 st"
  shows "user_collected (U \<union> group_rights S (f_action st0) gr) P st0 (snd r)"
  using assms
proof (induction S gr st r arbitrary: U rule: recursive_add_user_rights.raw_induct [rotated, consumes 1, case_names step])
  case (step rec S gr st r)
  have act: "f_action st = f_action st0"
    using step.prems(2) by (simp add: user_collected_def same_user_action)
  let ?st1 = "fold add_user_right (links S (action_link (f_action st)) (key_of S gr)) st"
  obtain t where t: "r = (None, t)"
    using step.prems(1) by (cases r) auto
  then have run: "each (rec S) (links S children_link (key_of S gr)) ?st1 = Some (None, t)"
    using step.hyps by (simp split: if_splits)
  let ?U = "U \<union> with_slash ` set (links S (action_link (f_action st0)) (key_of S gr))"
  have "user_collected (?U \<union> (\<Union>c \<in> set (links S children_link (key_of S gr)).
      group_rights S (f_action st0) c)) P st0 t"
  proof (rule each_invariant [OF run,
        where I = "\<lambda>ys st. user_collected (?U \<union> (\<Union>c \<in> ys. group_rights S (f_action st0) c)) P st0 st"])
    show "user_collected (?U \<union> (\<Union>c \<in> {}. group_rights S (f_action st0) c)) P st0 ?st1"
      using user_collected_fold [OF step.prems(2)] act by simp
  next
    fix c ys s u
    assume "rec S c s = Some (None, u)"
      "user_collected (?U \<union> (\<Union>c \<in> ys. group_rights S (f_action st0) c)) P st0 s"
    from step.IH [OF this(1) _ this(2)]
    show "user_collected (?U \<union> (\<Union>c \<in> insert c ys. group_rights S (f_action st0) c)) P st0 u"
      by (simp add: Un_assoc Un_left_commute Un_commute)
  qed
  then show ?case
    by (simp add: t group_rights_unfold [of S _ gr] Un_assoc)
qed

lemma recursive_plugin_collects:
  assumes "recursive_add_plugin_permissions S pl gr st = Some r" "fst r = None" "page_collected U P st0 st"
  shows "page_collected U (ask pl (group_rights S (f_action st0) gr) P) st0 (snd r)"
  using assms
proof (induction S pl gr st r arbitrary: P rule: recursive_add_plugin_permissions.raw_induct [rotated, consumes 1, case_names step])
  case (step rec S pl gr st r)
  have act: "f_action st = f_action st0"
    using step.prems(2) by (simp add: page_collected_def same_page_action)
  let ?st1 = "fold (add_plugin_permission pl) (links S (action_link (f_action st)) (key_of S gr)) st"
  obtain t where t: "r = (None, t)"
    using step.prems(1) by (cases r) auto
  then have run: "each (rec S pl) (links S children_link (key_of S gr)) ?st1 = Some (None, t)"
    using step.hyps by (simp split: if_splits)
  let ?P = "ask pl (with_slash ` set (links S (action_link (f_action st0)) (key_of S gr))) P"
  have "page_collected U (ask pl (\<Union>c \<in> set (links S children_link (key_of S gr)).
      group_rights S (f_action st0) c) ?P) st0 t"
  proof (rule each_invariant [OF run,
        where I = "\<lambda>ys st. page_collected U (ask pl (\<Union>c \<in> ys. group_rights S (f_action st0) c) ?P) st0 st"])
    show "page_collected U (ask pl (\<Union>c \<in> {}. group_rights S (f_action st0) c) ?P) st0 ?st1"
      using page_collected_fold [OF step.prems(2)] act by (simp add: ask_ask)
  next
    fix c ys s u
    assume "rec S pl c s = Some (None, u)"
      "page_collected U (ask pl (\<Union>c \<in> ys. group_rights S (f_action st0) c) ?P) st0 s"
    from step.IH [OF this(1) _ this(2)]
    show "page_collected U (ask pl (\<Union>c \<in> insert c ys. group_rights S (f_action st0) c) ?P) st0 u"
      by (simp add: ask_ask Un_assoc Un_left_commute Un_commute)
  qed
  then show ?case
    by (simp add: t ask_ask group_rights_unfold [of S _ gr])
qed

section \<open>The recursions return\<close>

text \<open>The links from a group to its children have no cycle.\<close>

definition child_of :: "site \<Rightarrow> (string \<times> string) set" where
  "child_of S = {(c, gr). c \<in> set (links S children_link (key_of S gr))}"

lemma recursive_user_returns:
  "wf (child_of S) \<Longrightarrow> recursive_add_user_rights S gr st \<noteq> None"
proof (induction gr arbitrary: st rule: wf_induct_rule)
  case (less gr)
  then have "each (recursive_add_user_rights S) (links S children_link (key_of S gr)) s \<noteq> None" for s
    by (intro each_returns) (simp add: child_of_def)
  then show ?case
    by (subst recursive_add_user_rights.simps) simp
qed

lemma recursive_plugin_returns:
  "wf (child_of S) \<Longrightarrow> recursive_add_plugin_permissions S pl gr st \<noteq> None"
proof (induction gr arbitrary: st rule: wf_induct_rule)
  case (less gr)
  then have "each (recursive_add_plugin_permissions S pl) (links S children_link (key_of S gr)) s \<noteq> None" for s
    by (intro each_returns) (simp add: child_of_def)
  then show ?case
    by (subst recursive_add_plugin_permissions.simps) simp
qed

section \<open>The rights of a user, the permissions of a page\<close>

text \<open>The keys of the page of the user and the groups that give a user rights.\<close>

definition user_keys :: "site \<Rightarrow> string \<Rightarrow> string \<Rightarrow> string set" where
  "user_keys S user_path status =
     (if status \<in> {status_spammer, status_returning_visitor, status_visitor} \<or> user_path = [] then {}
      else {key_of S user_path})"

definition user_groups :: "site \<Rightarrow> string \<Rightarrow> string \<Rightarrow> string \<Rightarrow> string set" where
  "user_groups S user_path action status =
     (if status = status_spammer then {site_key S @ spammer_group}
      else if status = status_returning_visitor then {site_key S @ returning_visitor_group}
      else if user_path = [] \<or> status = status_visitor then {site_key S @ visitor_group}
      else if status = status_registered then
        insert (site_key S @ registered_group)
          (set (links S ''permissions::direct::group'' (key_of S user_path))
           \<union> set (links S (direct_action_link action) (key_of S user_path)))
      else
        insert (site_key S @ returning_registered_group)
          (set (links S ''permissions::direct::group::returning_registered_user'' (key_of S user_path))))"

definition user_rights :: "site \<Rightarrow> string \<Rightarrow> string \<Rightarrow> string \<Rightarrow> string set" where
  "user_rights S user_path action status =
     with_slash ` user_keys S user_path status
     \<union> (\<Union>g \<in> user_groups S user_path action status. group_rights S action g)"

text \<open>What a page asks for itself, by plugin.\<close>

definition asked_for :: "site \<Rightarrow> string \<Rightarrow> string \<Rightarrow> string \<Rightarrow> string set" where
  "asked_for S action key =
     (let state = f_state (page_get_status (content S) (key_of S key));
          type_key = (case links S ''content::page_type'' key of [] \<Rightarrow> None | t # _ \<Rightarrow> Some (key_of S t)) in
      (\<lambda>_. {})
       (permissions_name :=
          (if state \<noteq> NORMAL
           then {with_slash (key_of S (status_path @ ''/'' @ status_name_to_string state))} else {}),
        content_name :=
          with_slash ` set (links S (direct_action_link action) key)
          \<union> (case type_key of
               None \<Rightarrow> {}
             | Some k \<Rightarrow> with_slash ` set (links S (action_link action) k)
                 \<union> (\<Union>g \<in> set (links S ''permissions::group'' k). group_rights S action g))))"

definition page_asks :: "site \<Rightarrow> path_info_t \<Rightarrow> string \<Rightarrow> string \<Rightarrow> string set" where
  "page_asks S ipath action =
     ask content_name (if is_user_page (f_cpath ipath) then {with_slash (f_key ipath)} else {})
       (case find_page S ipath of
          No_page \<Rightarrow> \<lambda>_. {}
        | This_page key \<Rightarrow> asked_for S action key
        | Real_page key \<Rightarrow> asked_for S action key)"

definition may_access :: "site \<Rightarrow> string \<Rightarrow> path_info_t \<Rightarrow> string \<Rightarrow> string \<Rightarrow> bool" where
  "may_access S user_path ipath action status \<longleftrightarrow>
     (let U = user_rights S user_path action status in
      with_slash (key_of S rights_path) \<in> minimal U \<or> granted U (page_asks S ipath action))"

section \<open>The code collects them\<close>

lemma add_user_rights_collects:
  assumes "add_user_rights S gr st = Some (None, t)" "user_collected U P st0 st"
  shows "user_collected (U \<union> group_rights S (f_action st0) gr) P st0 t"
  using assms recursive_user_collects [of S gr st "(None, t)" U P st0]
  by (simp add: add_user_rights_def split: if_splits)

lemma each_user_collects:
  assumes "each (add_user_rights S) gs st = Some (None, t)" "user_collected U P st0 st"
  shows "user_collected (U \<union> (\<Union>g \<in> set gs. group_rights S (f_action st0) g)) P st0 t"
proof (rule each_invariant [OF assms(1),
      where I = "\<lambda>ys st. user_collected (U \<union> (\<Union>g \<in> ys. group_rights S (f_action st0) g)) P st0 st"])
  fix g ys s u
  assume "add_user_rights S g s = Some (None, u)"
    "user_collected (U \<union> (\<Union>g \<in> ys. group_rights S (f_action st0) g)) P st0 s"
  from add_user_rights_collects [OF this]
  show "user_collected (U \<union> (\<Union>g \<in> insert g ys. group_rights S (f_action st0) g)) P st0 u"
    by (simp add: Un_assoc Un_left_commute Un_commute)
qed (use assms(2) in simp)

lemma each_plugin_collects:
  assumes "each (add_plugin_permissions S pl) gs st = Some (None, t)" "page_collected U P st0 st"
  shows "page_collected U (ask pl (\<Union>g \<in> set gs. group_rights S (f_action st0) g) P) st0 t"
proof (rule each_invariant [OF assms(1),
      where I = "\<lambda>ys st. page_collected U (ask pl (\<Union>g \<in> ys. group_rights S (f_action st0) g) P) st0 st"])
  fix g ys s u
  assume "add_plugin_permissions S pl g s = Some (None, u)"
    and c: "page_collected U (ask pl (\<Union>g \<in> ys. group_rights S (f_action st0) g) P) st0 s"
  then have "recursive_add_plugin_permissions S pl g s = Some (None, u)"
    by (simp add: add_plugin_permissions_def split: if_splits)
  from recursive_plugin_collects [OF this _ c]
  show "page_collected U (ask pl (\<Union>g \<in> insert g ys. group_rights S (f_action st0) g) P) st0 u"
    by (simp add: ask_ask Un_commute)
qed (use assms(2) in \<open>simp add: ask_def\<close>)

lemma statuses_distinct:
  "status_spammer \<noteq> status_registered" "status_returning_visitor \<noteq> status_registered"
  "status_visitor \<noteq> status_registered"
  by (simp_all add: status_spammer_def status_registered_def status_returning_visitor_def status_visitor_def)

lemma get_user_rights_impl_collects:
  assumes run: "get_user_rights_impl S st = Some (None, t)" and c: "collected {} P st"
  shows "user_collected (user_rights S (f_user_path st) (f_action st) (f_login_status st)) P st t"
proof -
  note c = user_collected_refl [OF c]
  let ?path = "f_user_path st" and ?action = "f_action st" and ?status = "f_login_status st"
  note defs = user_rights_def user_keys_def user_groups_def
  consider (one) g where "add_user_rights S g st = Some (None, t)"
      "user_rights S ?path ?action ?status = group_rights S ?action g"
    | (user) "?path \<noteq> []" "?status \<notin> {status_spammer, status_returning_visitor, status_visitor}"
    by (cases "?status \<in> {status_spammer, status_returning_visitor, status_visitor} \<or> ?path = []")
      (use run in \<open>auto simp: get_user_rights_impl_def defs Let_def split: if_splits\<close>)
  then show ?thesis
  proof cases
    case one
    then show ?thesis
      using add_user_rights_collects [OF one(1) c] by simp
  next
    case user
    let ?key = "key_of S ?path"
    let ?st1 = "add_user_right ?key st"
    have c1: "user_collected {with_slash ?key} P st ?st1"
      using user_collected_add [OF c, of ?key] by simp
    show ?thesis
    proof (cases "?status = status_registered")
      case True
      obtain st2 st3 where
        runs: "add_user_rights S (site_key S @ registered_group) ?st1 = Some (None, st2)"
        "each (add_user_rights S) (links S ''permissions::direct::group'' ?key) st2 = Some (None, st3)"
        "each (add_user_rights S) (links S (direct_action_link (f_action st3)) ?key) st3
           = Some (None, t)"
        using run user True
        by (auto simp: get_user_rights_impl_def Let_def and_then_Some statuses_distinct split: if_splits)
      note c2 = add_user_rights_collects [OF runs(1) c1]
      note c3 = each_user_collects [OF runs(2) c2]
      have "f_action st3 = ?action"
        using c3 by (simp add: user_collected_def same_user_action)
      with each_user_collects [OF runs(3) c3] show ?thesis
        using user True by (simp add: defs Un_assoc UN_Un)
    next
      case False
      obtain st2 where
        runs: "add_user_rights S (site_key S @ returning_registered_group) ?st1 = Some (None, st2)"
        "each (add_user_rights S) (links S ''permissions::direct::group::returning_registered_user'' ?key) st2
           = Some (None, t)"
        using run user False
        by (auto simp: get_user_rights_impl_def Let_def and_then_Some split: if_splits)
      note c2 = add_user_rights_collects [OF runs(1) c1]
      from each_user_collects [OF runs(2) c2] show ?thesis
        using user False by (simp add: defs Un_assoc)
    qed
  qed
qed

lemma names_distinct: "content_name \<noteq> permissions_name"
  by (simp add: content_name_def permissions_name_def)

lemma page_permissions_collects:
  assumes run: "page_permissions S key st = Some (None, t)" and c: "collected U P st"
  shows "page_collected U (\<lambda>pl. P pl \<union> asked_for S (f_action st) key pl) st t"
proof -
  let ?state = "f_state (page_get_status (content S) (key_of S key))"
  let ?status_key = "key_of S (status_path @ ''/'' @ status_name_to_string ?state)"
  let ?A = "if ?state \<noteq> NORMAL then {with_slash ?status_key} else {}"
  let ?D = "with_slash ` set (links S (direct_action_link (f_action st)) key)"
  define st1 where "st1 = (if ?state \<noteq> NORMAL
    then add_plugin_permission permissions_name ?status_key st else st)"
  define st2 where "st2 = fold (add_plugin_permission content_name)
    (links S (direct_action_link (f_action st1)) key) st1"
  have c1: "page_collected U (ask permissions_name ?A P) st st1"
    using page_collected_refl [OF c] page_collected_add [OF page_collected_refl [OF c], of permissions_name ?status_key]
    by (auto simp: st1_def ask_one)
  have a1: "f_action st1 = f_action st" if "page_collected U Q st s" "s = st1" for Q s
    using that by (simp add: page_collected_def same_page_action)
  have c2: "page_collected U (ask content_name ?D (ask permissions_name ?A P)) st st2"
    using page_collected_fold [OF c1] a1 [OF c1] by (simp add: st2_def)
  have a2: "f_action st2 = f_action st"
    using c2 by (simp add: page_collected_def same_page_action)
  show ?thesis
  proof (cases "links S ''content::page_type'' key")
    case Nil
    then have "t = st2"
      using run by (simp add: page_permissions_def Let_def st1_def st2_def)
    moreover have "(\<lambda>pl. P pl \<union> asked_for S (f_action st) key pl) = ask content_name ?D (ask permissions_name ?A P)"
      using Nil names_distinct by (simp add: fun_eq_iff asked_for_def ask_def Let_def Un_assoc)
    ultimately show ?thesis using c2 by simp
  next
    case (Cons page_type ts)
    let ?k = "key_of S page_type"
    let ?T = "with_slash ` set (links S (action_link (f_action st)) ?k)"
    let ?G = "\<Union>g \<in> set (links S ''permissions::group'' ?k). group_rights S (f_action st) g"
    define st3 where "st3 = fold (add_plugin_permission content_name) (links S (action_link (f_action st2)) ?k) st2"
    have run3: "each (add_plugin_permissions S content_name) (links S ''permissions::group'' ?k) st3 = Some (None, t)"
      using run Cons by (simp add: page_permissions_def Let_def st1_def st2_def st3_def)
    have c3: "page_collected U (ask content_name ?T (ask content_name ?D (ask permissions_name ?A P))) st st3"
      using page_collected_fold [OF c2] a2 by (simp add: st3_def)
    have "(\<lambda>pl. P pl \<union> asked_for S (f_action st) key pl) =
        ask content_name ?G (ask content_name ?T (ask content_name ?D (ask permissions_name ?A P)))"
      using Cons names_distinct by (simp add: fun_eq_iff asked_for_def ask_def Let_def Un_assoc)
    with each_plugin_collects [OF run3 c3] show ?thesis by simp
  qed
qed

text \<open>The whole collection changes the rights, the permissions and the real key of the page only.\<close>

definition same_request :: "sets_t \<Rightarrow> sets_t \<Rightarrow> bool" where
  "same_request st t \<longleftrightarrow>
     f_user_path t = f_user_path st \<and> f_action t = f_action st \<and> f_login_status t = f_login_status st
     \<and> f_key (f_ipath t) = f_key (f_ipath st) \<and> f_renamed_path (f_ipath t) = f_renamed_path (f_ipath st)
     \<and> f_using_user_cache t = f_using_user_cache st \<and> f_using_plugin_cache t = f_using_plugin_cache st
     \<and> f_modified_user_permissions t = f_modified_user_permissions st
     \<and> f_modified_plugin_permissions t = f_modified_plugin_permissions st"

lemma same_user_request: "same_user st t \<Longrightarrow> same_request st t"
  by (cases st; cases t) (simp add: same_user_def same_request_def)

lemma same_page_request: "same_page st t \<Longrightarrow> same_request st t"
  by (cases st; cases t) (simp add: same_page_def same_request_def)

lemma same_request_real: "same_request st (set_real_path S key st)"
  by (simp add: same_request_def set_real_path_def)

lemma same_request_trans: "same_request st t \<Longrightarrow> same_request t u \<Longrightarrow> same_request st u"
  by (simp add: same_request_def)

lemma get_plugin_permissions_impl_collects:
  assumes run: "get_plugin_permissions_impl S st = Some (None, t)" and c: "collected U (\<lambda>_. {}) st"
  shows "collected U (page_asks S (f_ipath st) (f_action st)) t"
    and "f_user_rights t = f_user_rights st" and "same_request st t"
proof -
  let ?X = "if is_user_page (f_cpath (f_ipath st)) then {with_slash (f_key (f_ipath st))} else {}"
  define st1 where "st1 = (if is_user_page (f_cpath (f_ipath st))
    then add_plugin_permission content_name (f_key (f_ipath st)) st else st)"
  have "page_collected U (ask content_name ?X (\<lambda>_. {})) st st1"
    using page_collected_refl [OF c] page_collected_add [OF page_collected_refl [OF c], of content_name "f_key (f_ipath st)"]
    by (auto simp: st1_def ask_one)
  then have c1: "collected U (ask content_name ?X (\<lambda>_. {})) st1" and same: "same_page st st1"
    by (simp_all add: page_collected_def)
  have f1: "f_action st1 = f_action st" "f_user_rights st1 = f_user_rights st"
    using same by (cases st; cases st1; simp add: same_page_def)+
  have merge: "(\<lambda>pl. ask content_name ?X (\<lambda>_. {}) pl \<union> Q pl) = ask content_name ?X Q" for Q
    by (simp add: fun_eq_iff ask_def Un_commute)
  have found: "collected U (ask content_name ?X (asked_for S (f_action st) key)) t
      \<and> f_user_rights t = f_user_rights st \<and> same_page st2 t"
    if "page_permissions S key st2 = Some (None, t)" "collected U (ask content_name ?X (\<lambda>_. {})) st2"
      "f_action st2 = f_action st" "f_user_rights st2 = f_user_rights st" for st2 key
  proof -
    have pc: "page_collected U (ask content_name ?X (asked_for S (f_action st) key)) st2 t"
      using page_permissions_collects [OF that(1,2)] that(3) by (simp only: merge)
    moreover have "f_user_rights t = f_user_rights st2"
      using pc by (cases st2; cases t) (simp add: page_collected_def same_page_def)
    ultimately show ?thesis using that(4) by (simp add: page_collected_def)
  qed
  have real: "collected U Q (set_real_path S key st1) \<longleftrightarrow> collected U Q st1" for key Q
    by (simp add: collected_def set_real_path_def)
  have real_fields: "f_action (set_real_path S key st1) = f_action st1"
    "f_user_rights (set_real_path S key st1) = f_user_rights st1" for key
    by (simp_all add: set_real_path_def)
  have r1: "same_request st st1"
    using same same_page_request by blast
  have "collected U (page_asks S (f_ipath st) (f_action st)) t \<and> f_user_rights t = f_user_rights st
      \<and> same_request st t"
  proof (cases "find_page S (f_ipath st)")
    case No_page
    then show ?thesis
      using run c1 f1 r1 by (simp add: get_plugin_permissions_impl_def Let_def st1_def page_asks_def)
  next
    case (This_page key)
    then have "page_permissions S key st1 = Some (None, t)"
      using run by (simp add: get_plugin_permissions_impl_def Let_def st1_def)
    from found [OF this c1 f1] r1 show ?thesis
      by (auto simp: page_asks_def This_page dest: same_page_request same_request_trans)
  next
    case (Real_page key)
    then have "page_permissions S key (set_real_path S key st1) = Some (None, t)"
      using run by (simp add: get_plugin_permissions_impl_def Let_def st1_def)
    from found [OF this] c1 f1 have
      "collected U (ask content_name ?X (asked_for S (f_action st) key)) t \<and> f_user_rights t = f_user_rights st
        \<and> same_page (set_real_path S key st1) t"
      by (simp add: real real_fields)
    moreover from this have "same_request st t"
      using r1 same_request_real same_page_request same_request_trans by blast
    ultimately show ?thesis
      by (simp add: page_asks_def Real_page)
  qed
  then show "collected U (page_asks S (f_ipath st) (f_action st)) t"
    and "f_user_rights t = f_user_rights st" and "same_request st t" by auto
qed

end
