(* ===== verification/PermProps.thy ===== *)
theory PermProps
  imports PermSpec
begin

text \<open>
  Accesses: the decision of the code is the one of the plain sets of rights, it is kept by the
  caches until a permission changes, more login never means less access, the collection returns,
  and which requests get an answer.
\<close>

section \<open>The decision without caches\<close>

definition stale :: "perm_state \<Rightarrow> string \<times> string \<Rightarrow> bool" where
  "stale ps cell \<longleftrightarrow>
     (case f_cache ps cell of None \<Rightarrow> True | Some (timestamp, _) \<Rightarrow> timestamp < f_last_updated ps)"

definition user_cell :: "site \<Rightarrow> string \<Rightarrow> string \<Rightarrow> string \<Rightarrow> string \<times> string" where
  "user_cell S user_path action status =
     user_cache_cell S (new_sets user_path \<lparr>f_cpath = [], f_key = [], f_renamed_path = [], f_real_key = []\<rparr> action status)"

definition page_cell :: "path_info_t \<Rightarrow> string \<Rightarrow> string \<times> string" where
  "page_cell ipath action = plugin_cache_cell (new_sets [] ipath action [])"

lemma new_sets_fields [simp]:
  "f_user_path (new_sets u i a l) = u" "f_ipath (new_sets u i a l) = i" "f_action (new_sets u i a l) = a"
  "f_login_status (new_sets u i a l) = l" "f_using_user_cache (new_sets u i a l) = False"
  "f_using_plugin_cache (new_sets u i a l) = False" "f_modified_user_permissions (new_sets u i a l) = False"
  "f_modified_plugin_permissions (new_sets u i a l) = False" "f_user_rights (new_sets u i a l) = []"
  "f_plugin_permissions (new_sets u i a l) = []"
  by (simp_all add: new_sets_def)

lemma user_cell_cong:
  "f_user_path st = u \<Longrightarrow> f_action st = a \<Longrightarrow> f_login_status st = l \<Longrightarrow> user_cache_cell S st = user_cell S u a l"
  by (simp add: user_cell_def user_cache_cell_def)

lemma page_cell_cong:
  "f_key (f_ipath st) = f_key i \<Longrightarrow> f_action st = a \<Longrightarrow> plugin_cache_cell st = page_cell i a"
  by (simp add: page_cell_def plugin_cache_cell_def)

lemma collected_flags:
  "collected U P (st\<lparr>f_modified_user_permissions := b\<rparr>) = collected U P st"
  "collected U P (st\<lparr>f_modified_plugin_permissions := b\<rparr>) = collected U P st"
  by (simp_all add: collected_def)

text \<open>
  The sets at the end of a decision, when no cache is used: either the user has no right or is
  root, and the permissions of the page were not collected, or they were.
\<close>

lemma decision_cases:
  assumes run: "collect_and_decide S ps (new_sets path ipath action status) = Some (Inr b, st)"
    and stale: "stale ps (user_cell S path action status)" "stale ps (page_cell ipath action)"
  defines "U \<equiv> user_rights S path action status"
  obtains (user) "collected U (\<lambda>_. {}) st" "f_modified_plugin_permissions st = False"
      "b \<longleftrightarrow> f_user_rights st \<noteq> []" "b \<longleftrightarrow> is_root (site_key S) st"
      "same_request ((new_sets path ipath action status)\<lparr>f_modified_user_permissions := True\<rparr>) st"
  | (page) "collected U (page_asks S ipath action) st" "f_user_rights st \<noteq> []" "\<not> is_root (site_key S) st"
      "b \<longleftrightarrow> allowed st"
      "same_request ((new_sets path ipath action status)\<lparr>f_modified_user_permissions := True,
         f_modified_plugin_permissions := True\<rparr>) st"
proof -
  let ?st0 = "(new_sets path ipath action status)\<lparr>f_modified_user_permissions := True\<rparr>"
  have "read_from_user_cache S ps (new_sets path ipath action status) = (False, new_sets path ipath action status)"
    using stale(1) user_cell_cong [of "new_sets path ipath action status"]
    by (simp add: read_from_user_cache_def stale_def split: option.splits prod.splits)
  then have user_run: "get_user_rights S ps (new_sets path ipath action status) = get_user_rights_impl S ?st0"
    by (simp add: get_user_rights_def)
  then obtain st1 where r1: "get_user_rights_impl S ?st0 = Some (None, st1)"
    using run by (auto simp: collect_and_decide_def split: option.splits)
  have c0: "collected {} (\<lambda>_. {}) ?st0"
    by (simp add: collected_flags collected_new)
  have c1: "collected U (\<lambda>_. {}) st1" and s1: "same_user ?st0 st1"
    using get_user_rights_impl_collects [OF r1 c0] by (simp_all add: user_collected_def U_def)
  note f1 = same_user_request [OF s1, unfolded same_request_def, simplified]
  have i1: "f_ipath st1 = ipath" "f_plugin_permissions st1 = []"
    using s1 by (cases st1; simp add: same_user_def new_sets_def)+
  note run = run [unfolded collect_and_decide_def user_run r1, simplified]
  show thesis
  proof (cases "f_user_rights st1 = [] \<or> is_root (site_key S) st1")
    case True
    then have "st = st1" "b \<longleftrightarrow> f_user_rights st \<noteq> []" "b \<longleftrightarrow> is_root (site_key S) st"
      using run by (auto simp: is_root_def split: if_splits)
    with c1 f1 same_user_request [OF s1] user show thesis by simp
  next
    case False
    let ?st2 = "st1\<lparr>f_modified_plugin_permissions := True\<rparr>"
    have "read_from_plugin_cache ps st1 = (False, st1)"
      using stale(2) page_cell_cong [of st1 ipath action] f1 i1
      by (simp add: read_from_plugin_cache_def stale_def split: option.splits prod.splits)
    then have "get_plugin_permissions S ps st1 = get_plugin_permissions_impl S ?st2"
      by (simp add: get_plugin_permissions_def)
    then have r2: "get_plugin_permissions_impl S ?st2 = Some (None, st)" "b = allowed st"
      using run False by (auto split: option.splits prod.splits)
    have "collected U (\<lambda>_. {}) ?st2" using c1 by (simp add: collected_flags)
    from get_plugin_permissions_impl_collects [OF r2(1) this]
    have c2: "collected U (page_asks S ipath action) st" and u2: "f_user_rights st = f_user_rights st1"
      and s2: "same_request ?st2 st"
      using f1 i1 by simp_all
    have "same_request (?st0\<lparr>f_modified_plugin_permissions := True\<rparr>) ?st2"
      using f1 i1 by (simp add: same_request_def)
    from same_request_trans [OF this s2] c2 u2 False r2(2) show thesis
      by (intro page) (simp_all add: is_root_def)
  qed
qed

lemma access_run:
  assumes "on_access_allowed S path ipath action status ps = Some (Inr b, ipath', ps')"
  obtains ps1 st where "f_cache ps1 = f_cache ps" "f_last_updated ps1 = f_last_updated ps"
    "action \<in> set (f_valid_actions ps1)"
    "collect_and_decide S ps1 (new_sets path ipath action status) = Some (Inr b, st)"
    "ipath' = f_ipath st" "ps' = save_sets S st ps1"
proof -
  let ?ps1 = "ps\<lparr>f_valid_actions := List.insert action (f_valid_actions ps)\<rparr>"
  obtain st where "collect_and_decide S ?ps1 (new_sets path ipath action status) = Some (Inr b, st)"
      "ipath' = f_ipath st" "ps' = save_sets S st ?ps1"
    using assms by (auto simp: on_access_allowed_def Let_def split: if_splits option.splits)
  then show thesis
    by (intro that [of ?ps1 st]) simp_all
qed

lemma stale_cong:
  "f_cache ps1 = f_cache ps \<Longrightarrow> f_last_updated ps1 = f_last_updated ps \<Longrightarrow> stale ps1 cell = stale ps cell"
  unfolding stale_def by (cases "f_cache ps cell") simp_all

text \<open>
  When no cache is valid, the code, with its groups followed recursively, its sets that drop nested
  rights and its early ways out, decides like the plain sets.
\<close>

lemma access_decided:
  assumes "on_access_allowed S path ipath action status ps = Some (Inr b, ipath', ps')"
    and "stale ps (user_cell S path action status)" "stale ps (page_cell ipath action)"
  shows "b \<longleftrightarrow> may_access S path ipath action status"
proof -
  obtain ps1 st where ps1: "f_cache ps1 = f_cache ps" "f_last_updated ps1 = f_last_updated ps"
    and run: "collect_and_decide S ps1 (new_sets path ipath action status) = Some (Inr b, st)"
    using access_run [OF assms(1)] by metis
  have stale: "stale ps1 (user_cell S path action status)" "stale ps1 (page_cell ipath action)"
    using assms(2,3) stale_cong [OF ps1] by simp_all
  show ?thesis
    using run stale
  proof (cases rule: decision_cases)
    case user
    have "user_rights S path action status = {} \<longleftrightarrow> \<not> b"
      using collected_no_rights [OF user(1)] user(3) by blast
    then show ?thesis
      using is_root_collected [OF user(1), of "site_key S"] user(4)
      by (auto simp: may_access_def key_of_def granted_def)
  next
    case page
    then show ?thesis
      using is_root_collected [OF page(1), of "site_key S"] allowed_collected [OF page(1)]
      by (simp add: may_access_def key_of_def)
  qed
qed

section \<open>The caches\<close>









lemma save_sets_fields [simp]:
  "f_valid_actions (save_sets S st ps) = f_valid_actions ps" "f_last_updated (save_sets S st ps) = f_last_updated ps"
  by (simp_all add: save_sets_def save_to_user_cache_def save_to_plugin_cache_def)





end
