(* ===== verification/PermAnswer.thy ===== *)
theory PermAnswer
  imports PermProps
begin

text \<open>
  The answer to a request and what a visitor gains by logging in: the collection returns when no
  group is among its own children, refused requests are answered, a change of a permission link
  makes every cache stale, and a higher login status never loses an access.
\<close>

section \<open>The collection returns\<close>

lemma add_user_rights_returns: "wf (child_of S) \<Longrightarrow> add_user_rights S gr st \<noteq> None"
  by (simp add: add_user_rights_def recursive_user_returns del: not_None_eq)

lemma add_plugin_permissions_returns: "wf (child_of S) \<Longrightarrow> add_plugin_permissions S pl gr st \<noteq> None"
  by (simp add: add_plugin_permissions_def recursive_plugin_returns del: not_None_eq)

lemma get_user_rights_impl_returns:
  assumes "wf (child_of S)"
  shows "get_user_rights_impl S st \<noteq> None"
proof -
  note returns = add_user_rights_returns [OF assms]
  have "each (add_user_rights S) gs s \<noteq> None" for gs s
    by (rule each_returns) (rule returns)
  note all = this
  show ?thesis
    unfolding get_user_rights_impl_def Let_def
    by (simp only: split: if_split) (intro conjI impI and_then_returns returns all option.simps(3))
qed

lemma get_plugin_permissions_impl_returns:
  assumes "wf (child_of S)"
  shows "get_plugin_permissions_impl S st \<noteq> None"
proof -
  have "each (add_plugin_permissions S pl) gs s \<noteq> None" for pl gs s
    by (rule each_returns) (rule add_plugin_permissions_returns [OF assms])
  then have "page_permissions S key s \<noteq> None" for key s
    unfolding page_permissions_def Let_def by (simp split: list.split)
  then show ?thesis
    unfolding get_plugin_permissions_impl_def Let_def by (simp split: page_found.split)
qed

lemma collect_and_decide_returns:
  assumes "wf (child_of S)"
  shows "collect_and_decide S ps st \<noteq> None"
proof -
  have u: "get_user_rights S ps s \<noteq> None" for s
    unfolding get_user_rights_def
    by (cases "read_from_user_cache S ps s"; cases "fst (read_from_user_cache S ps s)")
      (simp_all add: get_user_rights_impl_returns [OF assms])
  have p: "get_plugin_permissions S ps s \<noteq> None" for s
    unfolding get_plugin_permissions_def
    by (cases "read_from_plugin_cache ps s"; cases "fst (read_from_plugin_cache ps s)")
      (simp_all add: get_plugin_permissions_impl_returns [OF assms])
  from u [of st] obtain e s where "get_user_rights S ps st = Some (e, s)"
    by (cases "get_user_rights S ps st") auto
  moreover from p [of s] obtain f t where "get_plugin_permissions S ps s = Some (f, t)"
    by (cases "get_plugin_permissions S ps s") auto
  ultimately show ?thesis
    by (cases e; cases f) (simp_all add: collect_and_decide_def)
qed

lemma on_access_allowed_returns:
  assumes "wf (child_of S)"
  shows "on_access_allowed S path ipath action status ps \<noteq> None"
proof -
  let ?ps1 = "ps\<lparr>f_valid_actions := List.insert action (f_valid_actions ps)\<rparr>"
  obtain r st where "collect_and_decide S ?ps1 (new_sets path ipath action status) = Some (r, st)"
    using collect_and_decide_returns [OF assms] by fastforce
  then show ?thesis by (simp add: on_access_allowed_def Let_def)
qed

lemma access_cases:
  assumes "wf (child_of S)"
  obtains (throws) e i q where "on_access_allowed S path ipath action status ps = Some (Inl e, i, q)"
    | (decides) b i q where "on_access_allowed S path ipath action status ps = Some (Inr b, i, q)"
proof (cases "on_access_allowed S path ipath action status ps")
  case None
  with on_access_allowed_returns [OF assms, of path ipath action status ps] show thesis by simp
next
  case (Some r)
  obtain x i q where r: "r = (x, i, q)" by (cases r)
  with Some show thesis by (cases x) (auto intro: throws decides)
qed

lemma refused_visitor_returns:
  assumes "wf (child_of S)"
  shows "refused_visitor S v ipath ps \<noteq> None"
  by (rule access_cases [OF assms, of "[]" ipath "''view''" status_visitor ps])
    (simp_all add: refused_visitor_def Let_def)

lemma refused_user_returns:
  assumes "wf (child_of S)"
  shows "refused_user S v ipath action ps \<noteq> None"
  by (rule access_cases [OF assms, of "get_user_path v" ipath action status_registered ps])
    (simp_all add: refused_user_def)

text \<open>
  C30. A request is always answered when the groups have no cycle: if no group is below itself
  through the links to children, the validation of an action returns (or throws), whatever the
  user, the page, the other links and the caches are.
\<close>

theorem validation_returns:
  assumes "wf (child_of S)"
  shows "\<exists>answer ps'. on_validate_action S v ipath action ps = Some (answer, ps')"
proof (cases rule: access_cases [OF assms, of "get_user_path v" ipath action "get_login_status v" ps,
      case_names throws decides])
  case (decides b i q)
  obtain r where r: "refused_user S v i action q = Some r"
    using refused_user_returns [OF assms] by blast
  obtain r' where "refused_visitor S v i q = Some r'"
    using refused_visitor_returns [OF assms] by blast
  with r decides show ?thesis
    by (cases r; cases r') (simp add: on_validate_action_def)
qed (simp add: on_validate_action_def)

section \<open>Refused requests\<close>

lemma refused_not_passed:
  "refused_user S v i action q = Some (Inr a, q') \<Longrightarrow> a \<noteq> Passed \<and> (\<not> v_transparent v \<longrightarrow> a \<noteq> Silent)"
  "refused_visitor S v i q = Some (Inr a, q') \<Longrightarrow> a \<noteq> Passed \<and> (\<not> v_transparent v \<longrightarrow> a \<noteq> Silent)"
  by (auto simp: refused_user_def refused_visitor_def Let_def split: if_splits option.splits sum.splits)

text \<open>
  C26. A request passes exactly when the access is granted. When no cache is valid, an action that
  was validated passes if and only if the sets of rights of the user and of the page allow it, and
  unless the hit is a transparent one, a request that does not pass gets an answer: an error or a
  redirection.
\<close>

theorem granted_requests_pass:
  assumes "on_validate_action S v ipath action ps = Some (Inr answer, ps')"
    and "stale ps (user_cell S (get_user_path v) action (get_login_status v))" "stale ps (page_cell ipath action)"
  shows "(answer = Passed) = may_access S (get_user_path v) ipath action (get_login_status v)
    \<and> (v_transparent v \<or> answer \<noteq> Silent)"
proof -
  obtain b i q where run: "on_access_allowed S (get_user_path v) ipath action (get_login_status v) ps = Some (Inr b, i, q)"
    and answer: "if b then answer = Passed else
        refused_user S v i action q = Some (Inr answer, ps') \<or> refused_visitor S v i q = Some (Inr answer, ps')"
    using assms(1) by (auto simp: on_validate_action_def split: if_splits option.splits sum.splits)
  have "b \<longleftrightarrow> may_access S (get_user_path v) ipath action (get_login_status v)"
    using access_decided [OF run assms(2,3)] .
  moreover have "answer = Passed \<longleftrightarrow> b" "v_transparent v \<or> answer \<noteq> Silent"
    using answer by (auto split: if_splits dest: refused_not_passed)
  ultimately show ?thesis by simp
qed

section \<open>A change of permissions\<close>

definition written_by :: "int \<Rightarrow> perm_state \<Rightarrow> bool" where
  "written_by now ps \<longleftrightarrow> (\<forall>cell date text. f_cache ps cell = Some (date, text) \<longrightarrow> date \<le> now)"

lemma modified_link_stale:
  assumes "written_by now ps"
  shows "stale (on_modified_link now (''permissions::'' @ name) ps) cell"
proof -
  have "on_modified_link now (''permissions::'' @ name) ps = reset_permissions_cache now ps"
    by (simp add: on_modified_link_def)
  moreover have "date < now + expected_time_accuracy_epsilon" if "f_cache ps cell = Some (date, s)" for date s
  proof -
    have "date \<le> now" using assms that unfolding written_by_def by blast
    then show ?thesis by (simp add: expected_time_accuracy_epsilon_def)
  qed
  ultimately show ?thesis
    by (auto simp: stale_def reset_permissions_cache_def split: option.split)
qed

text \<open>Every cell is dated by the start of the request that writes it.\<close>

lemma access_written_by:
  assumes "on_access_allowed S path ipath action status ps = Some (r, ipath', ps')"
    and "written_by now ps" "start_date S \<le> now"
  shows "written_by now ps'"
proof -
  have u: "written_by now (save_to_user_cache S st q)" if "written_by now q" for st q
    using that assms(3) by (simp add: written_by_def save_to_user_cache_def)
  have p: "written_by now (save_to_plugin_cache S st q)" if "written_by now q" for st q
    using that assms(3) by (simp add: written_by_def save_to_plugin_cache_def)
  have "ps' = ps \<or> (\<exists>st. ps' = save_sets S st (ps\<lparr>f_valid_actions := List.insert action (f_valid_actions ps)\<rparr>))"
    using assms(1) by (auto simp: on_access_allowed_def Let_def split: if_splits option.splits)
  moreover have "written_by now (ps\<lparr>f_valid_actions := xs\<rparr>)" for xs
    using assms(2) by (simp add: written_by_def)
  ultimately show ?thesis
    using u p assms(2) by (auto simp: save_sets_def)
qed

text \<open>
  C28. A change of a permission is seen at once: when a link whose name begins with
  \<open>permissions::\<close> was made or removed, at a time when no cell of the cache comes from the
  future, the next decision is that of the sets of rights in the database as it is then.
\<close>

theorem changes_are_seen:
  assumes "written_by now ps"
    and "on_access_allowed S path ipath action status (on_modified_link now (''permissions::'' @ name) ps)
           = Some (Inr b, ipath', ps')"
  shows "b \<longleftrightarrow> may_access S path ipath action status"
  by (rule access_decided [OF assms(2)]) (rule modified_link_stale [OF assms(1)])+

section \<open>More login, more access\<close>

text \<open>The level of a login status; an unknown status is treated as that of a returning user.\<close>

definition login_level :: "string \<Rightarrow> nat" where
  "login_level status =
     (if status = status_spammer then 0
      else if status = status_visitor then 1
      else if status = status_returning_visitor then 2
      else if status = status_registered then 4
      else 3)"

text \<open>The groups of the levels, and that each is a child of the next one.\<close>

definition level_group :: "nat \<Rightarrow> string" where
  "level_group n = [spammer_group, visitor_group, returning_visitor_group, returning_registered_group,
     registered_group] ! n"

definition graduated :: "site \<Rightarrow> bool" where
  "graduated S \<longleftrightarrow>
     (\<forall>n < 4. site_key S @ level_group n \<in> set (links S children_link (key_of S (site_key S @ level_group (Suc n)))))"

definition level_rights :: "site \<Rightarrow> string \<Rightarrow> nat \<Rightarrow> string set" where
  "level_rights S action n = group_rights S action (site_key S @ level_group n)"

lemma level_rights_mono:
  assumes "graduated S"
  shows "n \<le> m \<Longrightarrow> m < 5 \<Longrightarrow> level_rights S action n \<subseteq> level_rights S action m"
proof (induction m rule: dec_induct)
  case (step m)
  have "level_rights S action m \<subseteq> level_rights S action (Suc m)"
    using assms step.prems
    by (auto simp: graduated_def level_rights_def group_rights_unfold [of S action "site_key S @ level_group (Suc m)"])
  with step show ?case by auto
qed simp

lemmas statuses = status_spammer_def status_visitor_def status_returning_visitor_def
  status_returning_registered_def status_registered_def

text \<open>What the groups and the key of a user add to the rights of the level.\<close>

definition own_rights :: "site \<Rightarrow> string \<Rightarrow> string \<Rightarrow> nat \<Rightarrow> string set" where
  "own_rights S user_path action n =
     (let key = key_of S user_path in
      if n < 3 then {}
      else insert (with_slash key)
        (\<Union>g \<in> (if n = 3 then set (links S ''permissions::direct::group::returning_registered_user'' key)
                else set (links S ''permissions::direct::group'' key) \<union> set (links S (direct_action_link action) key)).
          group_rights S action g))"

lemma user_rights_level:
  assumes "user_path \<noteq> [] \<or> login_level status < 3"
  shows "user_rights S user_path action status =
    level_rights S action (login_level status) \<union> own_rights S user_path action (login_level status)"
  using assms
  by (auto simp: user_rights_def user_keys_def user_groups_def level_rights_def own_rights_def login_level_def
      level_group_def Let_def statuses)

lemma granted_mono: "granted U P \<Longrightarrow> U \<subseteq> V \<Longrightarrow> granted V P"
  unfolding granted_def covered_def by blast

lemma higher_level_may:
  assumes "may_access S user_path ipath action status"
    and "login_level status \<le> login_level status'" "user_path' \<noteq> [] \<or> login_level status' < 3"
    and "login_level status < 3 \<or> user_path = user_path'" "graduated S"
    and "set (links S ''permissions::direct::group::returning_registered_user'' (key_of S user_path'))
           \<subseteq> set (links S ''permissions::direct::group'' (key_of S user_path'))"
    and "\<forall>u \<in> user_rights S user_path' action status'. prefix u (with_slash (key_of S rights_path)) \<longrightarrow>
           u = with_slash (key_of S rights_path)"
  shows "may_access S user_path' ipath action status'"
proof -
  let ?U = "user_rights S user_path action status" and ?V = "user_rights S user_path' action status'"
  have level: "login_level s < 5" for s by (simp add: login_level_def)
  have U: "?U = level_rights S action (login_level status) \<union> own_rights S user_path action (login_level status)"
    and V: "?V = level_rights S action (login_level status') \<union> own_rights S user_path' action (login_level status')"
    using assms(2-4) by (auto intro!: user_rights_level)
  have "own_rights S user_path action (login_level status) \<subseteq> own_rights S user_path' action (login_level status')"
    if "\<not> login_level status < 3"
    using that assms(2,4,6) level [of status'] by (auto simp: own_rights_def Let_def)
  moreover have "own_rights S user_path action (login_level status) = {}" if "login_level status < 3"
    using that by (simp add: own_rights_def)
  ultimately have sub: "?U \<subseteq> ?V"
    unfolding U V using level_rights_mono [OF assms(5) assms(2) level] by blast
  show ?thesis
  proof (cases "with_slash (key_of S rights_path) \<in> minimal ?U")
    case True
    then have "with_slash (key_of S rights_path) \<in> minimal ?V"
      using sub assms(7) by (auto simp: minimal_def)
    then show ?thesis by (simp add: may_access_def)
  next
    case False
    then have "granted ?U (page_asks S ipath action)"
      using assms(1) by (simp add: may_access_def)
    then show ?thesis
      using granted_mono [OF _ sub] by (simp add: may_access_def)
  qed
qed

text \<open>
  C29. A higher login status never loses an access, of spammers, visitors, returning visitors, returning users and
  users logged in. When an action on a page is granted at one status and the same action on this page is decided (it
  does not throw) at the same or a higher one, for a user when the higher status is that of a user and for the same user when
  the lower one is too, then it is granted again. This needs that each of the groups of these statuses holds the next lower one among its children, that
  the groups linked to the user for when he returns are also linked to him for when he is logged in, that he has no right
  above the root of all rights, and that neither decision is read from a cache.
\<close>

theorem more_login_more_access:
  assumes "on_access_allowed S user_path ipath action status ps = Some (Inr True, i, ps')"
    and "on_access_allowed S user_path' ipath action status' qs = Some (Inr b, j, qs')"
    and "stale ps (user_cell S user_path action status)" "stale ps (page_cell ipath action)"
    and "stale qs (user_cell S user_path' action status')" "stale qs (page_cell ipath action)"
    and "login_level status \<le> login_level status'" "user_path' \<noteq> [] \<or> login_level status' < 3"
    and "login_level status < 3 \<or> user_path = user_path'" "graduated S"
    and "set (links S ''permissions::direct::group::returning_registered_user'' (key_of S user_path'))
           \<subseteq> set (links S ''permissions::direct::group'' (key_of S user_path'))"
    and "\<forall>u \<in> user_rights S user_path' action status'. prefix u (with_slash (key_of S rights_path)) \<longrightarrow>
           u = with_slash (key_of S rights_path)"
  shows b
  using access_decided [OF assms(1,3,4)] access_decided [OF assms(2,5,6)] higher_level_may [OF _ assms(7-12)] by simp

end
