(* ===== verification/PermSample.thy ===== *)
theory PermSample
  imports PermAnswer
begin

text \<open>
  A small site on which the theorems on accesses apply: every page exists and is a normal one, the
  groups of the login statuses are children of each other, the group of visitors may view public
  pages, that of registered users all pages, and the page \<open>news\<close> is a public page.
\<close>

definition key :: "string \<Rightarrow> string" where
  "key path = ''http://s/'' @ path"

definition public_right :: string where "public_right = key ''types/permissions/rights/view/public''"
definition view_right :: string where "view_right = key ''types/permissions/rights/view''"

definition sample_children :: "string \<Rightarrow> string list" where
  "sample_children k =
     (if k = key registered_group then [key returning_registered_group]
      else if k = key returning_registered_group then [key returning_visitor_group]
      else if k = key returning_visitor_group then [key visitor_group]
      else if k = key visitor_group then [key spammer_group]
      else [])"

definition sample_links :: "string \<Rightarrow> string \<Rightarrow> string list" where
  "sample_links name k =
     (if name = children_link then sample_children k
      else if name = action_link ''view'' then
        if k = key visitor_group then [public_right]
        else if k = key registered_group then [view_right] else []
      else if name = direct_action_link ''view'' \<and> k = key ''news'' then [public_right]
      else [])"

definition sample_row :: content_row where
  "sample_row = \<lparr>c_status = Some 2, c_primary_owner = ''content'', c_status_changed = None\<rparr>"

definition sample_site :: site where
  "sample_site =
     \<lparr>site_key = key [], content = (\<lambda>_. Some sample_row), dynamic_depth = (\<lambda>_. None),
      links = sample_links, start_date = 100, secure_site = 0\<rparr>"

definition sample_perms :: perm_state where
  "sample_perms = \<lparr>f_cache = (\<lambda>_. None), f_valid_actions = [], f_last_updated = 0\<rparr>"

definition news_page :: path_info_t where
  "news_page = \<lparr>f_cpath = ''news'', f_key = key ''news'', f_renamed_path = [], f_real_key = []\<rparr>"

lemma sample_fields [simp]:
  "site_key sample_site = key []" "content sample_site k = Some sample_row"
  "links sample_site = sample_links" "start_date sample_site = 100"
  "row_exists sample_site k" "has_owner sample_site k"
  by (simp_all add: sample_site_def row_exists_def has_owner_def sample_row_def)

lemma key_append [simp]: "key [] @ path = key path" "key a @ b = key (a @ b)"
  by (simp_all add: key_def)

lemma key_inject [simp]: "key a = key b \<longleftrightarrow> a = b"
  by (simp add: key_def)

lemma path_key_key [simp]: "path_key (key []) (key path) = key path"
  by (simp add: path_key_def key_def)

lemma key_of_key [simp]: "key_of sample_site (key path) = key path"
  by (simp add: key_of_def)

lemma link_names [simp]:
  "children_link \<noteq> action_link a" "children_link \<noteq> direct_action_link a" "action_link a \<noteq> direct_action_link b"
  "action_link a \<noteq> children_link" "direct_action_link a \<noteq> children_link" "direct_action_link b \<noteq> action_link a"
  "''content::page_type'' \<noteq> children_link" "''content::page_type'' \<noteq> action_link a"
  "''content::page_type'' \<noteq> direct_action_link a"
  by (simp_all add: children_link_def action_link_def direct_action_link_def)

lemma groups_distinct [simp]:
  "spammer_group \<noteq> visitor_group" "spammer_group \<noteq> returning_visitor_group"
  "spammer_group \<noteq> returning_registered_group" "spammer_group \<noteq> registered_group"
  "visitor_group \<noteq> returning_visitor_group" "visitor_group \<noteq> returning_registered_group"
  "visitor_group \<noteq> registered_group" "returning_visitor_group \<noteq> returning_registered_group"
  "returning_visitor_group \<noteq> registered_group" "returning_registered_group \<noteq> registered_group"
  by (simp_all add: spammer_group_def visitor_group_def returning_visitor_group_def returning_registered_group_def)

lemmas groups_distinct_sym [simp] = groups_distinct [THEN not_sym]

lemma sample_links_children [simp]: "sample_links children_link k = sample_children k"
  by (simp add: sample_links_def)

lemma sample_links_view [simp]:
  "sample_links (action_link ''view'') (key visitor_group) = [public_right]"
  "sample_links (action_link ''view'') (key registered_group) = [view_right]"
  "sample_links (action_link ''view'') (key spammer_group) = []"
  "sample_links (action_link ''view'') (key returning_visitor_group) = []"
  "sample_links (action_link ''view'') (key returning_registered_group) = []"
  "sample_links (direct_action_link ''view'') (key ''news'') = [public_right]"
  "sample_links ''content::page_type'' k = []"
  by (simp_all add: sample_links_def)

lemma sample_children_simps [simp]:
  "sample_children (key registered_group) = [key returning_registered_group]"
  "sample_children (key returning_registered_group) = [key returning_visitor_group]"
  "sample_children (key returning_visitor_group) = [key visitor_group]"
  "sample_children (key visitor_group) = [key spammer_group]"
  "sample_children (key spammer_group) = []"
  by (simp_all add: sample_children_def)

lemma contains_text_step:
  "contains_text t [] \<longleftrightarrow> t = []"
  "contains_text t (c # s) \<longleftrightarrow> prefix t (c # s) \<or> contains_text t s"
  by (auto simp: contains_text_def)

lemma visitor_group_name [simp]: "\<not> contains_text rights_path (key visitor_group)"
  by (simp add: contains_text_step rights_path_def key_def visitor_group_def returning_visitor_group_def
      returning_registered_group_def registered_group_def)

lemma visitor_rights:
  "recursive_add_user_rights sample_site (key visitor_group) st =
     Some (None, add_user_right public_right st)"
  if "f_action st = ''view''" for st
  using that
  by (simp add: recursive_add_user_rights.simps [of _ "key visitor_group"]
      recursive_add_user_rights.simps [of _ "key spammer_group"] add_user_right_def)

lemma sample_state [simp]: "page_get_status (content sample_site) k = \<lparr>f_error = NO_ERROR, f_state = NORMAL\<rparr>"
  by (simp add: page_get_status_def sample_row_def set_status_value_def new_status_def)

definition news_sets :: sets_t where
  "news_sets = (new_sets [] news_page ''view'' status_visitor)\<lparr>f_user_rights := [with_slash public_right],
     f_plugin_permissions := [(content_name, [with_slash public_right])],
     f_modified_user_permissions := True, f_modified_plugin_permissions := True\<rparr>"

lemma news_user_rights:
  assumes "f_cache ps = (\<lambda>_. None)"
  shows "get_user_rights sample_site ps (new_sets [] news_page ''view'' status_visitor) =
    Some (None, news_sets\<lparr>f_plugin_permissions := [], f_modified_plugin_permissions := False\<rparr>)"
  using assms visitor_rights
  by (simp add: get_user_rights_def read_from_user_cache_def get_user_rights_impl_def news_sets_def Let_def
      add_user_rights_def statuses add_user_right_def new_sets_def)

lemma news_plugin_permissions:
  assumes "f_cache ps = (\<lambda>_. None)"
  shows "get_plugin_permissions sample_site ps
      (news_sets\<lparr>f_plugin_permissions := [], f_modified_plugin_permissions := False\<rparr>) =
    Some (None, news_sets)"
proof -
  have "find_page sample_site news_page = This_page (key ''news'')" "\<not> is_user_page (f_cpath news_page)"
    by (simp_all add: find_page_def news_page_def is_user_page_def)
  then show ?thesis
    using assms
    by (simp add: get_plugin_permissions_def read_from_plugin_cache_def get_plugin_permissions_impl_def
        news_sets_def Let_def new_sets_def page_permissions_def add_plugin_permission_def)
qed

lemma root_key [simp]: "path_key (key []) rights_path = key rights_path"
  by code_simp

lemma right_below_root: "with_slash (key rights_path) \<noteq> with_slash public_right"
  by (simp add: with_slash_def public_right_def key_def rights_path_def)

lemma news_is_public:
  assumes "f_cache ps = (\<lambda>_. None)"
  shows "on_access_allowed sample_site [] news_page ''view'' status_visitor ps =
    Some (Inr True, news_page,
      save_sets sample_site news_sets (ps\<lparr>f_valid_actions := List.insert ''view'' (f_valid_actions ps)\<rparr>))"
proof -
  have "\<not> is_root (key []) (news_sets\<lparr>f_plugin_permissions := [], f_modified_plugin_permissions := False\<rparr>)"
    "allowed news_sets" "f_user_rights news_sets \<noteq> []" "f_ipath news_sets = news_page"
    using right_below_root
    by (simp_all add: is_root_def news_sets_def allowed_def)
  then show ?thesis
    using news_user_rights news_plugin_permissions assms
    by (simp add: on_access_allowed_def Let_def collect_and_decide_def)
qed


section \<open>The theorems at this site\<close>

definition group_level :: "string \<Rightarrow> nat" where
  "group_level k =
     (if k = key registered_group then 4 else if k = key returning_registered_group then 3
      else if k = key returning_visitor_group then 2 else if k = key visitor_group then 1 else 0)"

lemma sample_child_wf: "wf (child_of sample_site)"
proof (rule wf_subset [OF wf_measure])
  have "group_level c < group_level (key_of sample_site gr)" if "c \<in> set (sample_children (key_of sample_site gr))" for c gr
    using that by (auto simp: sample_children_def group_level_def split: if_splits)
  moreover have "key_of sample_site c = c" if "c \<in> set (sample_children k)" for c k
    using that by (auto simp: sample_children_def split: if_splits)
  ultimately show "child_of sample_site \<subseteq> measure (\<lambda>gr. group_level (key_of sample_site gr))"
    by (auto simp: child_of_def)
qed

definition passer_by :: visitor where
  "passer_by = \<lparr>v_spammer = False, v_user_path = [], v_session_is_old = False, v_logged_in = False,
     v_valid = False, v_transparent = False, v_method = ''GET'', v_iframe = None, v_hit = None,
     v_path_callback = True, v_action_parameter = [], v_permit_redirect = True\<rparr>"

lemma passer_by_fields [simp]: "get_user_path passer_by = []" "get_login_status passer_by = status_visitor"
  by (simp_all add: passer_by_def get_user_path_def get_login_status_def)

theorem validation_returns_witness:
  "\<exists>answer ps'. on_validate_action sample_site passer_by news_page ''edit'' sample_perms = Some (answer, ps')"
  by (rule validation_returns [OF sample_child_wf])

lemma no_cache_stale [simp]: "f_cache ps = (\<lambda>_. None) \<Longrightarrow> stale ps cell"
  by (simp add: stale_def)

lemma sample_no_cache [simp]: "f_cache sample_perms = (\<lambda>_. None)" "f_last_updated sample_perms = 0"
  by (simp_all add: sample_perms_def)

theorem granted_requests_pass_witness:
  "may_access sample_site [] news_page ''view'' status_visitor"
proof -
  have "\<exists>ps'. on_validate_action sample_site passer_by news_page ''view'' sample_perms = Some (Inr Passed, ps')"
    by (simp add: on_validate_action_def news_is_public)
  then obtain ps' where "on_validate_action sample_site passer_by news_page ''view'' sample_perms = Some (Inr Passed, ps')" ..
  from granted_requests_pass [OF this] show ?thesis by simp
qed

theorem changes_are_seen_witness:
  "may_access sample_site [] news_page ''view'' status_visitor \<and> written_by 300 sample_perms"
proof -
  have w: "written_by 300 sample_perms" by (simp add: written_by_def)
  have "f_cache (on_modified_link 300 (''permissions::'' @ ''group'') sample_perms) = (\<lambda>_. None)"
    by (simp add: on_modified_link_def reset_permissions_cache_def)
  from changes_are_seen [OF w news_is_public [OF this]] w show ?thesis by simp
qed

lemma level_groups:
  "group_rights sample_site ''view'' (key spammer_group) = {}"
  "group_rights sample_site ''view'' (key visitor_group) = {with_slash public_right}"
  "group_rights sample_site ''view'' (key returning_visitor_group) = {with_slash public_right}"
  "group_rights sample_site ''view'' (key returning_registered_group) = {with_slash public_right}"
  "group_rights sample_site ''view'' (key registered_group) = {with_slash view_right, with_slash public_right}"
proof -
  show s: "group_rights sample_site ''view'' (key spammer_group) = {}"
    by (simp add: group_rights_unfold [of _ _ "key spammer_group"])
  show v: "group_rights sample_site ''view'' (key visitor_group) = {with_slash public_right}"
    by (simp add: group_rights_unfold [of _ _ "key visitor_group"] s)
  show rv: "group_rights sample_site ''view'' (key returning_visitor_group) = {with_slash public_right}"
    by (simp add: group_rights_unfold [of _ _ "key returning_visitor_group"] v)
  show rr: "group_rights sample_site ''view'' (key returning_registered_group) = {with_slash public_right}"
    by (simp add: group_rights_unfold [of _ _ "key returning_registered_group"] rv)
  show "group_rights sample_site ''view'' (key registered_group) = {with_slash view_right, with_slash public_right}"
    by (simp add: group_rights_unfold [of _ _ "key registered_group"] rr insert_commute)
qed



text \<open>The same page for a user who is logged in.\<close>

definition member_sets :: sets_t where
  "member_sets = (new_sets ''user/1'' news_page ''view'' status_registered)
     \<lparr>f_user_rights := [with_slash (key ''user/1''), with_slash view_right], f_modified_user_permissions := True\<rparr>"

lemma registered_group_name [simp]: "\<not> contains_text rights_path (key registered_group)"
  by (simp add: contains_text_step rights_path_def key_def registered_group_def)

lemma registered_rights:
  assumes "f_action st = ''view''"
  shows "recursive_add_user_rights sample_site (key registered_group) st =
    Some (None, add_user_right public_right (add_user_right view_right st))"
proof -
  have a: "f_action (add_user_right r st) = ''view''" for r using assms by (simp add: add_user_right_def Let_def)
  then show ?thesis
    using assms visitor_rights
    by (simp add: recursive_add_user_rights.simps [of _ "key registered_group"]
        recursive_add_user_rights.simps [of _ "key returning_registered_group"]
        recursive_add_user_rights.simps [of _ "key returning_visitor_group"])
qed

lemma member_links [simp]:
  "sample_links ''permissions::direct::group'' k = []" "sample_links ''permissions::direct::group::returning_registered_user'' k = []"
  "sample_links (direct_action_link ''view'') (key ''user/1'') = []"
  by (simp_all add: sample_links_def) (simp_all add: action_link_def direct_action_link_def children_link_def)

lemma member_user_rights:
  assumes "f_cache ps = (\<lambda>_. None)"
  shows "get_user_rights sample_site ps (new_sets ''user/1'' news_page ''view'' status_registered) = Some (None, member_sets)"
proof -
  have user: "key_of sample_site ''user/1'' = key ''user/1''" by code_simp
  let ?st = "(new_sets ''user/1'' news_page ''view'' status_registered)\<lparr>f_modified_user_permissions := True\<rparr>"
  have r: "add_user_right public_right (add_user_right view_right (add_user_right (key ''user/1'') ?st)) = member_sets"
    by (simp add: add_user_right_def Let_def member_sets_def new_sets_def public_right_def view_right_def key_def with_slash_def)
  have f: "f_action (add_user_right (key ''user/1'') ?st) = ''view''" by (simp add: add_user_right_def Let_def new_sets_def)
  have g: "f_action member_sets = ''view''" by (simp add: member_sets_def new_sets_def)
  show ?thesis
    using assms user registered_rights [OF f] r g
    by (simp add: get_user_rights_def read_from_user_cache_def get_user_rights_impl_def Let_def add_user_rights_def statuses
        new_sets_def)
qed

definition member_decided :: sets_t where
  "member_decided = member_sets\<lparr>f_plugin_permissions := [(content_name, [with_slash public_right])],
     f_modified_plugin_permissions := True\<rparr>"

lemma member_plugin_permissions:
  assumes "f_cache ps = (\<lambda>_. None)"
  shows "get_plugin_permissions sample_site ps member_sets = Some (None, member_decided)"
proof -
  have "find_page sample_site news_page = This_page (key ''news'')" "\<not> is_user_page (f_cpath news_page)"
    by (simp_all add: find_page_def news_page_def is_user_page_def)
  then show ?thesis
    using assms
    by (simp add: get_plugin_permissions_def read_from_plugin_cache_def get_plugin_permissions_impl_def
        member_sets_def member_decided_def Let_def new_sets_def page_permissions_def add_plugin_permission_def)
qed

lemma news_for_member:
  assumes "f_cache ps = (\<lambda>_. None)"
  shows "\<exists>i ps'. on_access_allowed sample_site ''user/1'' news_page ''view'' status_registered ps = Some (Inr True, i, ps')"
proof -
  have "\<not> is_root (key []) member_sets" "f_user_rights member_sets \<noteq> []"
    by (simp_all add: is_root_def member_sets_def)
      (simp add: view_right_def key_def rights_path_def with_slash_def)
  moreover have "allowed member_decided"
    by (simp add: allowed_def member_decided_def member_sets_def view_right_def public_right_def key_def with_slash_def)
  ultimately show ?thesis
    using member_user_rights member_plugin_permissions assms
    by (simp add: on_access_allowed_def Let_def collect_and_decide_def)
qed

theorem more_login_more_access_witness:
  "\<exists>i ps j qs. on_access_allowed sample_site [] news_page ''view'' status_visitor sample_perms = Some (Inr True, i, ps)
    \<and> on_access_allowed sample_site ''user/1'' news_page ''view'' status_registered sample_perms = Some (Inr True, j, qs)"
proof -
  obtain i ps where v: "on_access_allowed sample_site [] news_page ''view'' status_visitor sample_perms = Some (Inr True, i, ps)"
    using news_is_public by simp
  obtain b j qs where m: "on_access_allowed sample_site ''user/1'' news_page ''view'' status_registered sample_perms = Some (Inr b, j, qs)"
    using news_for_member [of sample_perms] by auto
  have level: "login_level status_visitor \<le> login_level status_registered" "login_level status_visitor < 3"
    by (simp_all add: login_level_def statuses)
  have "n < 4 \<Longrightarrow> n = 0 \<or> n = 1 \<or> n = 2 \<or> n = 3" for n :: nat by linarith
  then have graduated: "graduated sample_site" by (force simp: graduated_def level_group_def)
  have user: "key_of sample_site ''user/1'' = key ''user/1''" by code_simp
  have "user_rights sample_site ''user/1'' ''view'' status_registered =
      {with_slash (key ''user/1''), with_slash view_right, with_slash public_right}"
    by (simp add: user_rights_def user_keys_def user_groups_def statuses level_groups insert_commute user)
  moreover have "with_slash (key_of sample_site rights_path) = ''http://s/types/permissions/rights/''"
    by (simp add: key_of_def) (simp add: with_slash_def key_def rights_path_def)
  ultimately have root: "\<forall>u \<in> user_rights sample_site ''user/1'' ''view'' status_registered.
      prefix u (with_slash (key_of sample_site rights_path)) \<longrightarrow> u = with_slash (key_of sample_site rights_path)"
    by (simp add: with_slash_def view_right_def public_right_def key_def)
  have b using more_login_more_access [OF v m _ _ _ _ level(1) _ _ graduated _ root] level(2) by simp
  with v m show ?thesis by auto
qed






end
