(* ===== verification/RouterState.thy ===== *)
theory RouterState
  imports CommMessage Numbers
begin

text \<open>
  The message router of a computer (\<open>snapcommunicator/src/snapcommunicator.cpp\<close>): the connections
  to the services of the computer and to the routers of other computers, the state of the server,
  and the messages sent.

  Connections are shared pointers in the code, held by the list of the event loop and by the two
  maps of remote addresses: the model keeps them in \<open>r_heap\<close> and refers to them by number.
  \<open>f_smaller_ips\<close> and \<open>f_gossip_ips\<close> hold numbers. What a class inherits twice under one name keeps
  both fields: \<open>c_server_name\<close> is that of \<open>base_connection\<close>, \<open>c_host\<close> that of \<open>service_connection\<close>
  and \<open>c_peer\<close> that of \<open>remote_snap_communicator\<close>.
\<close>

section \<open>Addresses\<close>

text \<open>
  The class \<open>addr::addr\<close> belongs to another project. The router uses three texts of an address
  (without port, without port but with the brackets of IPv6, with port), its port, the kind of
  network, and two comparisons; \<open>string_to_addr\<close> is \<open>None\<close> when it throws.
\<close>

datatype network_type = Loopback | Private | Public | Other_network

record addr =
  ip_only :: string
  ip_brackets :: string
  ip_port :: string
  addr_port :: int
  network :: network_type

record renv = env +
  string_to_addr :: "string \<Rightarrow> addr option"
  addr_eq :: "addr \<Rightarrow> addr \<Rightarrow> bool"
  addr_less :: "addr \<Rightarrow> addr \<Rightarrow> bool"
  has_output :: "nat \<Rightarrow> bool"
  is_connected :: "nat \<Rightarrow> bool"

section \<open>Connections\<close>

text \<open>\<open>Own_conn\<close>: the listeners, the signal, the UDP messenger and the timer of the server.\<close>

datatype conn_kind = Service_conn | Remote_conn | Gossip_conn | Own_conn

datatype connection_type = CONNECTION_TYPE_DOWN | CONNECTION_TYPE_LOCAL | CONNECTION_TYPE_REMOTE

type_synonym names = "(string, bool) omap"

record conn_state =
  c_kind :: conn_kind
  c_name :: string
  c_address :: addr
  c_commands :: names
  c_started_on :: int
  c_ended_on :: int
  c_type :: connection_type
  c_server_name :: string
  c_my_address :: string
  c_services :: names
  c_services_heard_of :: names
  c_remote :: bool
  c_wants_loadavg :: bool
  c_named :: bool
  c_host :: string
  c_peer :: string
  c_was_connected :: bool
  c_failures :: int
  c_failure_start_time :: int
  c_flagged :: bool
  c_gossip_addr :: string
  c_wait :: int
  c_timeout_delay :: int
  c_timeout_date :: int
  c_enabled :: bool
  c_done :: bool

definition new_connection :: "conn_kind \<Rightarrow> string \<Rightarrow> addr \<Rightarrow> conn_state" where
  "new_connection kind name address =
     \<lparr>c_kind = kind, c_name = name, c_address = address, c_commands = [],
      c_started_on = -1, c_ended_on = -1, c_type = CONNECTION_TYPE_DOWN,
      c_server_name = [], c_my_address = [], c_services = [], c_services_heard_of = [],
      c_remote = False, c_wants_loadavg = False, c_named = False, c_host = [], c_peer = [],
      c_was_connected = False, c_failures = -1, c_failure_start_time = 0, c_flagged = False,
      c_gossip_addr = [], c_wait = 0, c_timeout_delay = -1, c_timeout_date = -1,
      c_enabled = True, c_done = False\<rparr>"

definition names_add :: "string list \<Rightarrow> names \<Rightarrow> names" where
  "names_add xs m = fold (\<lambda>s. om_put s True) xs m"

definition skip_empty :: "string list \<Rightarrow> string list" where
  "skip_empty xs = filter (\<lambda>s. s \<noteq> []) xs"

definition connection_started :: "int \<Rightarrow> conn_state \<Rightarrow> conn_state" where
  "connection_started now c = c\<lparr>c_started_on := now, c_ended_on := -1\<rparr>"

definition connection_ended :: "int \<Rightarrow> conn_state \<Rightarrow> conn_state" where
  "connection_ended now c =
     (if c_started_on c \<noteq> -1 \<and> c_ended_on c = -1 then c\<lparr>c_ended_on := now\<rparr> else c)"

definition set_services :: "string \<Rightarrow> conn_state \<Rightarrow> conn_state" where
  "set_services services c = c\<lparr>c_services := names_add (split_on CHR '','' services) (c_services c)\<rparr>"

definition set_services_heard_of :: "string \<Rightarrow> conn_state \<Rightarrow> conn_state" where
  "set_services_heard_of services c =
     c\<lparr>c_services_heard_of := names_add (split_on CHR '','' services) (c_services_heard_of c)\<rparr>"

definition set_commands :: "('a env_scheme) \<Rightarrow> string \<Rightarrow> conn_state \<Rightarrow> conn_state" where
  "set_commands E commands c =
     c\<lparr>c_commands := names_add (skip_empty (map (trimmed E) (split_on CHR '','' commands))) (c_commands c)\<rparr>"

definition understand_command :: "conn_state \<Rightarrow> string \<Rightarrow> bool" where
  "understand_command c command \<longleftrightarrow> map_of (c_commands c) command \<noteq> None"

definition has_commands :: "conn_state \<Rightarrow> bool" where
  "has_commands c \<longleftrightarrow> c_commands c \<noteq> []"

text \<open>\<open>is_base\<close>: the cast to \<open>base_connection\<close> succeeds.\<close>

definition is_base :: "conn_state \<Rightarrow> bool" where
  "is_base c \<longleftrightarrow> c_kind c = Service_conn \<or> c_kind c = Remote_conn"

section \<open>The server\<close>

text \<open>
  \<open>r_neighbors_file\<close> holds the lines of neighbors.txt, \<open>r_neighbors_read\<close> is whether the name of
  that file is set, \<open>r_status_file\<close> the last cluster-status.txt. \<open>r_own\<close> are the connections of the
  server itself in the order \<open>shutdown\<close> removes them. Messages sent on a connection are appended to
  \<open>r_outbox\<close>; what the event loop does with them is not part of the model.
\<close>

record router =
  r_heap :: "nat \<Rightarrow> conn_state"
  r_next :: nat
  r_connections :: "nat list"
  r_own :: "nat list"
  r_loadavg_timer :: nat
  r_server_name :: string
  r_public_ip :: string
  r_my_address :: addr
  r_local_services :: string
  r_local_services_list :: names
  r_services_heard_of :: string
  r_services_heard_of_list :: "string list"
  r_explicit_neighbors :: string
  r_all_neighbors :: names
  r_neighbors_read :: bool
  r_neighbors_file :: "string list"
  r_registered_for_loadavg :: names
  r_all_ips :: "(string, int) omap"
  r_smaller_ips :: "(string, nat) omap"
  r_gossip_ips :: "(string, nat) omap"
  r_last_start_date :: int
  r_max_connections :: nat
  r_total_count_sent :: nat
  r_shutdown :: bool
  r_force_restart :: bool
  r_cache :: "(int \<times> message) list"
  r_received :: "(string, int) omap"
  r_cluster_status :: string
  r_cluster_complete :: string
  r_status_file :: "string list"
  r_sequence :: int
  r_debug :: bool
  r_outbox :: "(nat \<times> message) list"

definition upd_conn :: "nat \<Rightarrow> (conn_state \<Rightarrow> conn_state) \<Rightarrow> router \<Rightarrow> router" where
  "upd_conn i f r = r\<lparr>r_heap := (r_heap r)(i := f (r_heap r i))\<rparr>"

definition add_conn :: "conn_state \<Rightarrow> router \<Rightarrow> router" where
  "add_conn c r = r\<lparr>r_heap := (r_heap r)(r_next r := c), r_connections := r_connections r @ [r_next r],
     r_next := Suc (r_next r)\<rparr>"

definition remove_connection :: "nat \<Rightarrow> router \<Rightarrow> router" where
  "remove_connection i r = r\<lparr>r_connections := filter (\<lambda>j. j \<noteq> i) (r_connections r)\<rparr>"

definition send_on :: "nat \<Rightarrow> message \<Rightarrow> router \<Rightarrow> router" where
  "send_on i m r = r\<lparr>r_outbox := r_outbox r @ [(i, m)]\<rparr>"

text \<open>The reply to the connection a message came from, which is one of two classes.\<close>

definition send_back :: "nat \<Rightarrow> message \<Rightarrow> router \<Rightarrow> router res" where
  "send_back i m r = (if is_base (r_heap r i) then Inr (send_on i m r) else Inl Snap_exception)"

definition verify_command :: "nat \<Rightarrow> message \<Rightarrow> router \<Rightarrow> unit res" where
  "verify_command i m r =
     (if \<not> r_debug r then Inr ()
      else if \<not> is_base (r_heap r i) then Inl Undefined_behaviour
      else if \<not> has_commands (r_heap r i) then Inr ()
      else if understand_command (r_heap r i) (m_command m) then Inr ()
      else Inl Snap_exception)"

section \<open>Broadcasting\<close>

text \<open>
  Where a message goes: \<open>all\<close> is to every network, \<open>remote\<close> to the local network too. The state of
  the loop is the list of informed neighbors, the connections chosen, and the server (services of
  this computer are sent the message at once).
\<close>

definition broadcast_destination :: "message \<Rightarrow> string" where
  "broadcast_destination m =
     (if m_service m \<notin> {''.'', ''?'', ''*''} then (if m_server m = [] then ''?'' else m_server m)
      else m_service m)"

definition inform :: "nat \<Rightarrow> string \<Rightarrow> string list \<times> nat list \<Rightarrow> string list \<times> nat list" where
  "inform i address s =
     (if address \<in> set (fst s) then s else (fst s @ [address], snd s @ [i]))"

definition broadcast_one ::
    "message \<Rightarrow> bool \<Rightarrow> bool \<Rightarrow> nat \<Rightarrow> (string list \<times> nat list) \<times> router \<Rightarrow> (string list \<times> nat list) \<times> router" where
  "broadcast_one m all remote i s =
     (let c = r_heap (snd s) i; r = snd s in
      if c_kind c = Service_conn then
        (case network (c_address c) of
           Loopback \<Rightarrow> if understand_command c (m_command m) then (fst s, send_on i m r) else s
         | Private \<Rightarrow> if remote then (inform i (ip_only (c_address c)) (fst s), r) else s
         | Public \<Rightarrow> if all then (inform i (ip_only (c_address c)) (fst s), r) else s
         | Other_network \<Rightarrow> s)
      else if c_kind c = Remote_conn then
        (case network (c_address c) of
           Loopback \<Rightarrow> s
         | Private \<Rightarrow> if remote then (inform i (ip_only (c_address c)) (fst s), r) else s
         | Public \<Rightarrow> if all then (inform i (ip_only (c_address c)) (fst s), r) else s
         | Other_network \<Rightarrow> s)
      else s)"

text \<open>The connections that accept a message for a service; the list holds base connections only.\<close>

definition broadcast_accepting :: "router \<Rightarrow> nat list \<Rightarrow> string list \<times> nat list \<Rightarrow> string list \<times> nat list" where
  "broadcast_accepting r accepting s =
     fold (\<lambda>i s. if is_base (r_heap r i) then inform i (ip_only (c_address (r_heap r i))) s else s) accepting s"

text \<open>
  What a received broadcast carries: its identifier, its timeout, its informed neighbors and its
  hops, and the server that remembers it. \<open>None\<close>: it is ignored.
\<close>

definition broadcast_received ::
    "('a env_scheme) \<Rightarrow> message \<Rightarrow> router \<Rightarrow> (string \<times> int \<times> string \<times> int \<times> router) option res" where
  "broadcast_received E m r =
     rbind (has_parameter m ''broadcast_msgid'') (\<lambda>has.
     if \<not> has then Inr (Some ([], 0, [], 0, r))
     else
       rbind (get_integer_parameter (env.truncate E) m ''broadcast_timeout'') (\<lambda>timeout.
       if timeout < time_now E then Inr None
       else
         rbind (get_parameter m ''broadcast_msgid'') (\<lambda>msgid.
         if map_of (r_received r) msgid \<noteq> None then Inr None
         else
           let r1 = r\<lparr>r_received := om_put msgid timeout
                 (filter (\<lambda>p. \<not> snd p < time_now E) (r_received r))\<rparr> in
           rbind (get_parameter m ''broadcast_informed_neighbors'') (\<lambda>informed.
           rbind (get_integer_parameter (env.truncate E) m ''broadcast_hops'') (\<lambda>hops.
             Inr (Some (msgid, timeout, informed, int32 hops, r1)))))))"

fun join_comma :: "string list \<Rightarrow> string" where
  "join_comma [] = []"
| "join_comma [x] = x"
| "join_comma (x # y # xs) = x @ CHR '','' # join_comma (y # xs)"

definition broadcast_copy ::
    "('a env_scheme) \<Rightarrow> message \<Rightarrow> string \<Rightarrow> int \<Rightarrow> int \<Rightarrow> string list \<Rightarrow> router \<Rightarrow> message res" where
  "broadcast_copy E m msgid timeout hops informed r =
     (if hops = 2 ^ 31 - 1 then Inl Undefined_behaviour
      else chain
        [add_parameter ''broadcast_msgid''
           (if msgid = [] then r_server_name r @ ''-'' @ dec (r_sequence r) else msgid),
         add_integer_parameter ''broadcast_hops'' (hops + 1),
         add_parameter ''broadcast_originator'' (ip_brackets (r_my_address r)),
         add_integer_parameter ''broadcast_timeout'' (if timeout = 0 then time_now E + 10 else timeout),
         add_parameter ''broadcast_informed_neighbors'' (join_comma informed)] m)"

definition broadcast_message :: "('a env_scheme) \<Rightarrow> message \<Rightarrow> nat list \<Rightarrow> router \<Rightarrow> router res" where
  "broadcast_message E m accepting r =
     rbind (broadcast_received E m r) (\<lambda>received.
     case received of None \<Rightarrow> Inr r
     | Some (msgid, timeout, informed_neighbors, hops, r1) \<Rightarrow>
       let informed = skip_empty (split_on CHR '','' informed_neighbors);
           all = (hops < 5 \<and> broadcast_destination m = ''*'');
           remote = (hops < 5 \<and> (all \<or> broadcast_destination m = ''?''));
           s = (if accepting = [] then fold (broadcast_one m all remote) (r_connections r1) ((informed, []), r1)
                else (broadcast_accepting r1 accepting (informed, []), r1));
           informed1 = fst (fst s); chosen = snd (fst s); r2 = snd s in
       if chosen = [] then Inr r2
       else
         let originator = ip_brackets (r_my_address r2);
             informed2 = (if originator \<in> set informed1 then informed1 else informed1 @ [originator]);
             r3 = r2\<lparr>r_sequence := r_sequence r2 + 1\<rparr> in
         rbind (broadcast_copy E m msgid timeout hops informed2 r3) (\<lambda>copy.
           Inr (fold (\<lambda>i. send_on i copy) chosen r3)))"

end
