(* ===== verification/RouterCluster.thy ===== *)
theory RouterCluster
  imports RouterState
begin

text \<open>
  The cluster as one router sees it: the status of connections and of the cluster, the addresses of
  the neighbors and the connections made to them (\<open>remote_communicator_connections\<close>), the services
  heard of, the load average messages, and the end of the server. \<open>process_load_balancing\<close> and the
  file that \<open>save_loadavg\<close> writes are floating point I/O and left out.
\<close>

section \<open>Status of a connection\<close>

text \<open>\<open>sc\<close> is \<open>None\<close> for the connection made up for a service that is not known. Dates are positive.\<close>

definition connection_status :: "string \<Rightarrow> conn_state option \<Rightarrow> message res" where
  "connection_status name sc =
     rbind (build [set_command ''STATUS'', add_parameter ''cache'' ''no'', add_parameter ''service'' name]) (\<lambda>m.
     case sc of None \<Rightarrow> Inr m
     | Some c \<Rightarrow> if \<not> is_base c then Inr m else chain
         [if c_server_name c = [] then Inr else add_parameter ''server_name'' (c_server_name c),
          add_parameter ''status'' (if c_type c = CONNECTION_TYPE_DOWN then ''down'' else ''up''),
          if c_started_on c = -1 then Inr else add_integer_parameter ''up_since'' (c_started_on c div 1000000),
          if c_ended_on c = -1 then Inr else add_integer_parameter ''down_since'' (c_ended_on c div 1000000)] m)"

definition is_service :: "router \<Rightarrow> nat \<Rightarrow> bool" where
  "is_service r i \<longleftrightarrow> c_kind (r_heap r i) = Service_conn"

definition send_status_to_all :: "message \<Rightarrow> router \<Rightarrow> router" where
  "send_status_to_all m r =
     fold (\<lambda>i r. if is_service r i \<and> understand_command (r_heap r i) ''STATUS'' then send_on i m r else r)
       (r_connections r) r"

definition send_status :: "nat \<Rightarrow> router \<Rightarrow> router res" where
  "send_status i r =
     rbind (connection_status (c_name (r_heap r i)) (Some (r_heap r i))) (\<lambda>m. Inr (send_status_to_all m r))"

definition reply_status :: "string \<Rightarrow> conn_state option \<Rightarrow> nat \<Rightarrow> router \<Rightarrow> router res" where
  "reply_status name sc reply r =
     rbind (connection_status name sc) (\<lambda>m.
     if \<not> is_service r reply then Inr r
     else rbind (verify_command reply m r) (\<lambda>_. Inr (send_on reply m r)))"

section \<open>Status of the cluster\<close>

definition count_live_connections :: "router \<Rightarrow> nat" where
  "count_live_connections r =
     length (filter (\<lambda>i. c_kind (r_heap r i) = Remote_conn \<or> is_base (r_heap r i) \<and> c_remote (r_heap r i))
       (r_connections r))"

definition cluster_message :: "string \<Rightarrow> nat \<Rightarrow> message res" where
  "cluster_message status neighbors =
     build [set_command status, set_service ''.'', add_integer_parameter ''neighbors_count'' (int neighbors)]"

text \<open>\<open>reply\<close> is \<open>None\<close> for the null pointer; a connection that is not a service is dereferenced as null.\<close>

definition announce_status ::
    "('a env_scheme) \<Rightarrow> string \<Rightarrow> nat option \<Rightarrow> router \<Rightarrow> router res" where
  "announce_status E status reply r =
     rbind (cluster_message status (length (r_all_neighbors r))) (\<lambda>m.
     case reply of
       None \<Rightarrow> broadcast_message E m [] r
     | Some i \<Rightarrow>
         if \<not> is_service r i then Inl Undefined_behaviour
         else if understand_command (r_heap r i) status then Inr (send_on i m r) else Inr r)"

definition cluster_quorum :: "router \<Rightarrow> nat" where
  "cluster_quorum r = length (r_all_neighbors r) div 2 + 1"

definition cluster_state :: "router \<Rightarrow> string" where
  "cluster_state r = (if count_live_connections r + 1 \<ge> cluster_quorum r then ''CLUSTERUP'' else ''CLUSTERDOWN'')"

definition cluster_completeness :: "router \<Rightarrow> string" where
  "cluster_completeness r =
     (if count_live_connections r + 1 = length (r_all_neighbors r) then ''CLUSTERCOMPLETE'' else ''CLUSTERINCOMPLETE'')"

definition cluster_status :: "('a env_scheme) \<Rightarrow> nat option \<Rightarrow> router \<Rightarrow> router res" where
  "cluster_status E reply r =
     (let neighbors = length (r_all_neighbors r);
          new_status = cluster_state r;
          new_complete = cluster_completeness r;
          first = (new_status \<noteq> r_cluster_status r \<or> r_total_count_sent r \<noteq> neighbors \<or> reply \<noteq> None);
          second = (new_complete \<noteq> r_cluster_complete r \<or> r_total_count_sent r \<noteq> neighbors \<or> reply \<noteq> None);
          r1 = (if first \<and> reply = None then r\<lparr>r_cluster_status := new_status\<rparr> else r) in
      rbind (if first then announce_status E new_status reply r1 else Inr r1) (\<lambda>r2.
      let r3 = (if second \<and> reply = None then r2\<lparr>r_cluster_complete := new_complete\<rparr> else r2) in
      rbind (if second then announce_status E new_complete reply r3 else Inr r3) (\<lambda>r4.
      let r5 = (if reply = None then r4\<lparr>r_total_count_sent := neighbors\<rparr> else r4) in
      Inr (if (first \<or> second) \<and> reply = None
           then r5\<lparr>r_status_file := [r_cluster_status r5, r_cluster_complete r5]\<rparr> else r5))))"

section \<open>Remote connections\<close>

definition REMOTE_CONNECTION_DEFAULT_TIMEOUT :: int where
  "REMOTE_CONNECTION_DEFAULT_TIMEOUT = 60 * 1000000"
definition REMOTE_CONNECTION_RECONNECT_TIMEOUT :: int where
  "REMOTE_CONNECTION_RECONNECT_TIMEOUT = 5 * 60 * 1000000"
definition REMOTE_CONNECTION_TOO_BUSY_TIMEOUT :: int where
  "REMOTE_CONNECTION_TOO_BUSY_TIMEOUT = 24 * 60 * 60 * 1000000"
definition FIRST_TIMEOUT :: int where
  "FIRST_TIMEOUT = 5 * 1000000"

definition parse_addr :: "('a renv_scheme) \<Rightarrow> string \<Rightarrow> addr res" where
  "parse_addr E s = (case string_to_addr E s of None \<Rightarrow> Inl Addr_invalid | Some a \<Rightarrow> Inr a)"

text \<open>The event loop accepts each new connection, as it has a new pointer.\<close>

definition new_remote :: "('a renv_scheme) \<Rightarrow> string \<Rightarrow> router \<Rightarrow> router res" where
  "new_remote E address r =
     rbind (parse_addr E address) (\<lambda>a.
     let date = max (current_date E) (r_last_start_date r);
         c = (new_connection Remote_conn (''remote communicator connection: '' @ address) a)
               \<lparr>c_timeout_delay := REMOTE_CONNECTION_DEFAULT_TIMEOUT, c_timeout_date := date\<rparr> in
     Inr (add_conn c (r\<lparr>r_smaller_ips := om_put address (r_next r) (r_smaller_ips r),
        r_last_start_date := date + 1000000\<rparr>)))"

definition new_gossip :: "string \<Rightarrow> addr \<Rightarrow> router \<Rightarrow> router" where
  "new_gossip address a r =
     add_conn ((new_connection Gossip_conn (''gossip to remote snap communicator: '' @ address) a)
         \<lparr>c_gossip_addr := address, c_wait := FIRST_TIMEOUT, c_timeout_delay := FIRST_TIMEOUT\<rparr>)
       (r\<lparr>r_gossip_ips := om_put address (r_next r) (r_gossip_ips r)\<rparr>)"

definition reconnect :: "('a renv_scheme) \<Rightarrow> nat \<Rightarrow> router \<Rightarrow> router" where
  "reconnect E i r =
     (if is_connected E i then r
      else upd_conn i (\<lambda>c. c\<lparr>c_timeout_delay := REMOTE_CONNECTION_TOO_BUSY_TIMEOUT,
             c_timeout_date := current_date E, c_enabled := True\<rparr>) r)"

definition add_remote_communicator :: "('a renv_scheme) \<Rightarrow> string \<Rightarrow> router \<Rightarrow> router res" where
  "add_remote_communicator E location r =
     rbind (parse_addr E location) (\<lambda>a.
     if addr_eq E a (r_my_address r) then Inr r
     else
       let address = ip_brackets a in
       if map_of (r_all_ips r) address \<noteq> None then
         if addr_less E a (r_my_address r) then
           (case map_of (r_smaller_ips r) address of None \<Rightarrow> Inr r | Some i \<Rightarrow> Inr (reconnect E i r))
         else Inr r
       else
         let r1 = r\<lparr>r_all_ips := om_put address (addr_port a) (r_all_ips r)\<rparr> in
         if addr_less E a (r_my_address r) then new_remote E address r1
         else Inr (new_gossip address a r1))"

definition stop_gossiping :: "router \<Rightarrow> router" where
  "stop_gossiping r = fold (\<lambda>p. remove_connection (snd p)) (r_gossip_ips r) (r\<lparr>r_gossip_ips := []\<rparr>)"

definition retry_after :: "int \<Rightarrow> string \<Rightarrow> router \<Rightarrow> router" where
  "retry_after delay address r =
     (case map_of (r_smaller_ips r) address of None \<Rightarrow> r
      | Some i \<Rightarrow> upd_conn i (\<lambda>c. c\<lparr>c_timeout_delay := delay, c_enabled := True\<rparr>) r)"

definition too_busy :: "string \<Rightarrow> router \<Rightarrow> router" where
  "too_busy = retry_after REMOTE_CONNECTION_TOO_BUSY_TIMEOUT"

definition shutting_down :: "string \<Rightarrow> router \<Rightarrow> router" where
  "shutting_down = retry_after REMOTE_CONNECTION_RECONNECT_TIMEOUT"

definition server_unreachable :: "('a env_scheme) \<Rightarrow> string \<Rightarrow> router \<Rightarrow> router res" where
  "server_unreachable E address r =
     rbind (build [set_service ''.'', set_command ''UNREACHABLE'', add_parameter ''who'' address])
       (\<lambda>m. broadcast_message E m [] r)"

definition gossip_received :: "string \<Rightarrow> router \<Rightarrow> router" where
  "gossip_received address r =
     (case map_of (r_gossip_ips r) address of None \<Rightarrow> r
      | Some i \<Rightarrow> (remove_connection i r)\<lparr>r_gossip_ips := om_erase address (r_gossip_ips r)\<rparr>)"

definition without_port :: "string \<Rightarrow> string" where
  "without_port s =
     (if s = [] \<or> hd s = CHR '':'' then s else takeWhile (\<lambda>c. c \<noteq> CHR '':'') s)"

definition forget_remote_connection :: "string \<Rightarrow> router \<Rightarrow> router" where
  "forget_remote_connection location r =
     (case map_of (r_smaller_ips r) (without_port location) of None \<Rightarrow> r
      | Some i \<Rightarrow> (remove_connection i r)\<lparr>r_smaller_ips := om_erase (without_port location) (r_smaller_ips r)\<rparr>)"

section \<open>Neighbors\<close>

text \<open>\<open>save_neighbors\<close>: a line per neighbor. \<open>read_neighbors\<close> reads the file the first time only.\<close>

definition save_neighbors :: "router \<Rightarrow> router res" where
  "save_neighbors r =
     (if \<not> r_neighbors_read r then Inl Logic_error
      else Inr (r\<lparr>r_neighbors_file := map fst (r_all_neighbors r)\<rparr>))"

definition put_neighbor :: "string \<Rightarrow> router \<Rightarrow> router" where
  "put_neighbor s r = r\<lparr>r_all_neighbors := om_put s True (r_all_neighbors r)\<rparr>"

primrec read_neighbor_lines :: "('a renv_scheme) \<Rightarrow> string list \<Rightarrow> router \<Rightarrow> router res" where
  "read_neighbor_lines E [] r = Inr r"
| "read_neighbor_lines E (l # ls) r =
     (if l \<noteq> [] \<and> hd l = CHR ''#'' then read_neighbor_lines E ls r
      else rbind (add_remote_communicator E (trimmed E l) (put_neighbor (trimmed E l) r))
             (read_neighbor_lines E ls))"

definition read_neighbors :: "('a renv_scheme) \<Rightarrow> router \<Rightarrow> router res" where
  "read_neighbors E r =
     (if r_neighbors_read r then Inr r
      else read_neighbor_lines E (r_neighbors_file r) (r\<lparr>r_neighbors_read := True\<rparr>))"

primrec add_neighbor_list :: "('a renv_scheme) \<Rightarrow> string list \<Rightarrow> bool \<times> router \<Rightarrow> (bool \<times> router) res" where
  "add_neighbor_list E [] s = Inr s"
| "add_neighbor_list E (n # ns) s =
     (if map_of (r_all_neighbors (snd s)) n \<noteq> None then add_neighbor_list E ns s
      else rbind (add_remote_communicator E n (put_neighbor n (snd s)))
             (\<lambda>r. add_neighbor_list E ns (True, r)))"

definition add_neighbors :: "('a renv_scheme) \<Rightarrow> string \<Rightarrow> router \<Rightarrow> router res" where
  "add_neighbors E new_neighbors r =
     rbind (read_neighbors E r) (\<lambda>r1.
     if new_neighbors = [] then Inr r1
     else
       rbind (add_neighbor_list E (skip_empty (split_on CHR '','' new_neighbors)) (False, r1)) (\<lambda>(changed, r2).
       if changed then save_neighbors r2 else Inr r2))"

definition remove_neighbor :: "string \<Rightarrow> router \<Rightarrow> router res" where
  "remove_neighbor neighbor r =
     rbind (if map_of (r_all_neighbors r) neighbor \<noteq> None
            then save_neighbors (r\<lparr>r_all_neighbors := om_erase neighbor (r_all_neighbors r)\<rparr>) else Inr r) (\<lambda>r1.
     Inr (forget_remote_connection neighbor (gossip_received neighbor r1)))"

section \<open>Services heard of\<close>

text \<open>\<open>QMap::unite\<close> keeps a key that is in both maps twice; \<open>remove\<close> removes every copy.\<close>

definition unite :: "names \<Rightarrow> string list \<Rightarrow> string list" where
  "unite m ks = foldr insort (map fst m) ks"

definition refresh_heard_of :: "router \<Rightarrow> router" where
  "refresh_heard_of r =
     (let gathered = fold (\<lambda>i ks. if is_service r i then
            unite (c_services_heard_of (r_heap r i)) (unite (c_services (r_heap r i)) ks) else ks)
            (r_connections r) [];
          kept = filter (\<lambda>k. map_of (r_local_services_list r) k = None) gathered in
      r\<lparr>r_services_heard_of_list := kept, r_services_heard_of := join_comma kept\<rparr>)"

section \<open>Load average\<close>

definition register_for_loadavg :: "string \<Rightarrow> router \<Rightarrow> router res" where
  "register_for_loadavg ip r =
     (case find (\<lambda>i. is_base (r_heap r i) \<and> c_my_address (r_heap r i) = ip) (r_connections r) of
        None \<Rightarrow> Inr r
      | Some i \<Rightarrow> rbind (build [set_command ''REGISTERFORLOADAVG'']) (\<lambda>m. Inr (send_on i m r)))"

primrec listen_loadavg_ips :: "string list \<Rightarrow> router \<Rightarrow> router res" where
  "listen_loadavg_ips [] r = Inr r"
| "listen_loadavg_ips (ip # ips) r =
     (if map_of (r_registered_for_loadavg r) ip \<noteq> None then listen_loadavg_ips ips r
      else rbind (register_for_loadavg ip
             (r\<lparr>r_registered_for_loadavg := om_put ip True (r_registered_for_loadavg r)\<rparr>))
             (listen_loadavg_ips ips))"

definition listen_loadavg :: "message \<Rightarrow> router \<Rightarrow> router res" where
  "listen_loadavg m r =
     rbind (get_parameter m ''ips'') (\<lambda>ips. listen_loadavg_ips (split_on CHR '','' ips) r)"

text \<open>The parameters are read and the address is parsed; the file of load averages is left out.\<close>

definition save_loadavg :: "('a renv_scheme) \<Rightarrow> message \<Rightarrow> router \<Rightarrow> router res" where
  "save_loadavg E m r =
     rbind (get_parameter m ''avg'') (\<lambda>_. rbind (get_parameter m ''my_address'') (\<lambda>address.
     rbind (get_parameter m ''timestamp'') (\<lambda>_. rbind (parse_addr E address) (\<lambda>_. Inr r))))"

section \<open>The end of the server\<close>

definition mark_done :: "nat \<Rightarrow> router \<Rightarrow> router" where
  "mark_done i = upd_conn i (\<lambda>c. c\<lparr>c_done := True\<rparr>)"

definition shutdown_one :: "('a renv_scheme) \<Rightarrow> bool \<Rightarrow> nat \<Rightarrow> router \<Rightarrow> router res" where
  "shutdown_one E quitting i r =
     (let c = r_heap r i in
      if c_kind c = Remote_conn then
        rbind (build [set_command (if quitting then ''SHUTDOWN'' else ''DISCONNECT'')])
          (\<lambda>m. Inr (mark_done i (send_on i m r)))
      else if c_kind c = Service_conn then
        (case c_type c of
           CONNECTION_TYPE_DOWN \<Rightarrow> Inr (remove_connection i r)
         | CONNECTION_TYPE_REMOTE \<Rightarrow>
             rbind (build [set_command (if quitting then ''SHUTDOWN'' else ''DISCONNECT'')]) (\<lambda>m.
             rbind (verify_command i m r) (\<lambda>_. Inr (mark_done i (send_on i m r))))
         | CONNECTION_TYPE_LOCAL \<Rightarrow>
             if understand_command c ''DISCONNECTING'' then
               rbind (build [set_command ''DISCONNECTING'']) (\<lambda>m. Inr (send_on i m (mark_done i r)))
             else if has_output E i then Inr (mark_done i r)
             else Inr (remove_connection i r))
      else Inr r)"

primrec shutdown_all :: "('a renv_scheme) \<Rightarrow> bool \<Rightarrow> nat list \<Rightarrow> router \<Rightarrow> router res" where
  "shutdown_all E quitting [] r = Inr r"
| "shutdown_all E quitting (i # is) r =
     rbind (shutdown_one E quitting i r) (shutdown_all E quitting is)"

definition shutdown :: "('a renv_scheme) \<Rightarrow> bool \<Rightarrow> router \<Rightarrow> router res" where
  "shutdown E quitting r =
     (let r1 = stop_gossiping (r\<lparr>r_shutdown := True\<rparr>) in
      rbind (shutdown_all E quitting (r_connections r1) r1) (\<lambda>r2.
        Inr (fold remove_connection (r_own r2) r2)))"

section \<open>A connection to a neighbor is made\<close>

definition connect_message :: "router \<Rightarrow> message res" where
  "connect_message r =
     build [set_command ''CONNECT'', add_integer_parameter ''version'' 1,
       add_parameter ''my_address'' (ip_port (r_my_address r)), add_parameter ''server_name'' (r_server_name r),
       if r_explicit_neighbors r = [] then Inr else add_parameter ''neighbors'' (r_explicit_neighbors r),
       if r_local_services r = [] then Inr else add_parameter ''services'' (r_local_services r),
       if r_services_heard_of r = [] then Inr else add_parameter ''heard_of'' (r_services_heard_of r)]"

definition process_connected :: "nat \<Rightarrow> router \<Rightarrow> router res" where
  "process_connected i r =
     rbind (connect_message r) (\<lambda>m.
     send_status i (if is_base (r_heap r i) then send_on i m r else r))"

end
