(* ===== verification/RouterMessage.thy ===== *)
theory RouterMessage
  imports RouterCluster
begin

text \<open>
  A message that arrives at the router (\<open>process_message\<close> of snapcommunicator.cpp): those for the
  router itself, by command, and those it forwards to a service of this computer, keeps until that
  service registers, or passes on to other computers. Logging is left out.
\<close>

section \<open>Connections between computers\<close>

definition set_if_given :: "message \<Rightarrow> string \<Rightarrow> (string \<Rightarrow> router \<Rightarrow> router res) \<Rightarrow> router \<Rightarrow> router res" where
  "set_if_given m name f r =
     rbind (has_parameter m name) (\<lambda>has. if has then rbind (get_parameter m name) (\<lambda>v. f v r) else Inr r)"

text \<open>The services and neighbors that CONNECT and ACCEPT tell.\<close>

definition learn_services :: "('a renv_scheme) \<Rightarrow> nat \<Rightarrow> message \<Rightarrow> router \<Rightarrow> router res" where
  "learn_services E i m r =
     rbind (set_if_given m ''services'' (\<lambda>v r. Inr (upd_conn i (set_services v) r)) r) (\<lambda>r.
     rbind (set_if_given m ''heard_of'' (\<lambda>v r. Inr (upd_conn i (set_services_heard_of v) r)) r) (\<lambda>r.
     rbind (set_if_given m ''neighbors'' (add_neighbors E) r) (\<lambda>r. Inr (refresh_heard_of r))))"

definition help_message :: "message res" where
  "help_message = build [set_command ''HELP'']"

definition new_remote_connection :: "string \<Rightarrow> message res" where
  "new_remote_connection name =
     build [set_command ''NEWREMOTECONNECTION'', set_service ''.'', add_parameter ''server_name'' name]"

definition msg_accept :: "('a renv_scheme) \<Rightarrow> nat \<Rightarrow> message \<Rightarrow> router \<Rightarrow> router res" where
  "msg_accept E i m r =
     rbind (has_parameter m ''server_name'') (\<lambda>has_name. rbind (has_parameter m ''my_address'') (\<lambda>has_address.
     if \<not> has_name \<or> \<not> has_address then Inr r
     else
       rbind (get_parameter m ''server_name'') (\<lambda>name. rbind (get_parameter m ''my_address'') (\<lambda>his_address.
       let r1 = upd_conn i (\<lambda>c. (connection_started (current_date E) c)\<lparr>c_type := CONNECTION_TYPE_REMOTE,
             c_server_name := name, c_my_address := his_address\<rparr>) r in
       rbind (learn_services E i m r1) (\<lambda>r2.
       rbind help_message (\<lambda>help. rbind (send_back i help r2) (\<lambda>r3.
       rbind (register_for_loadavg his_address r3) (\<lambda>r4.
       rbind (new_remote_connection name) (\<lambda>news. broadcast_message E news [] r4)))))))))"

definition refuse_message :: "(message \<Rightarrow> message res) list \<Rightarrow> message res" where
  "refuse_message ops = build ([set_command ''REFUSE''] @ ops)"

definition accept_message :: "router \<Rightarrow> message \<Rightarrow> message res" where
  "accept_message r m = chain
     [set_command ''ACCEPT'', add_parameter ''server_name'' (r_server_name r),
      add_parameter ''my_address'' (ip_port (r_my_address r)),
      if r_local_services r = [] then Inr else add_parameter ''services'' (r_local_services r),
      if r_services_heard_of r = [] then Inr else add_parameter ''heard_of'' (r_services_heard_of r)] m"

text \<open>The neighbors are in the reply before it is known whether the connection is refused.\<close>

definition connect_reply :: "router \<Rightarrow> message res" where
  "connect_reply r =
     build [if r_explicit_neighbors r = [] then Inr else add_parameter ''neighbors'' (r_explicit_neighbors r)]"

definition accept_connect ::
    "('a renv_scheme) \<Rightarrow> nat \<Rightarrow> message \<Rightarrow> message \<Rightarrow> router \<Rightarrow> (message \<times> router) res" where
  "accept_connect E i m reply r =
     (let r1 = upd_conn i (\<lambda>c. (connection_started (current_date E) c)\<lparr>c_type := CONNECTION_TYPE_REMOTE\<rparr>) r in
      rbind (learn_services E i m r1) (\<lambda>r2.
      rbind (accept_message r2 reply) (\<lambda>reply.
      rbind (get_parameter m ''my_address'') (\<lambda>his_address.
      let r3 = upd_conn i (\<lambda>c. c\<lparr>c_my_address := his_address\<rparr>) r2 in
      rbind (register_for_loadavg his_address r3) (\<lambda>r4.
      rbind (add_neighbors E his_address r4) (\<lambda>r5.
      Inr (reply, gossip_received his_address r5)))))))"

text \<open>Another connection that uses the name already.\<close>

definition name_taken :: "router \<Rightarrow> nat \<Rightarrow> string \<Rightarrow> bool" where
  "name_taken r i name \<longleftrightarrow>
     list_ex (\<lambda>j. j \<noteq> i \<and> is_base (r_heap r j) \<and> c_server_name (r_heap r j) = name) (r_connections r)"

text \<open>The reply to CONNECT; the flag tells whether the connection is refused.\<close>

definition answer_connect ::
    "('a renv_scheme) \<Rightarrow> nat \<Rightarrow> message \<Rightarrow> string \<Rightarrow> router \<Rightarrow> (bool \<times> message \<times> router) res" where
  "answer_connect E i m name r =
     (if name_taken r i name then
        rbind (refuse_message ([add_parameter ''conflict'' ''name'']
            @ (if r_shutdown r then [add_parameter ''shutdown'' ''true''] else [])))
          (\<lambda>reply. Inr (True, reply, r))
      else
        let r1 = upd_conn i (\<lambda>c. c\<lparr>c_server_name := name\<rparr>) r in
        rbind (connect_reply r1) (\<lambda>reply.
        if r_shutdown r then
          rbind (chain [set_command ''REFUSE'', add_parameter ''shutdown'' ''true''] reply)
            (\<lambda>reply. Inr (True, reply, r1))
        else if length (r_connections r1) \<ge> r_max_connections r1 then
          rbind (set_command ''REFUSE'' reply) (\<lambda>reply. Inr (True, reply, r1))
        else
          rbind (accept_connect E i m reply r1) (\<lambda>(reply, r2). Inr (False, reply, r2))))"

definition msg_connect :: "('a renv_scheme) \<Rightarrow> nat \<Rightarrow> message \<Rightarrow> router \<Rightarrow> router res" where
  "msg_connect E i m r =
     rbind (has_parameter m ''version'') (\<lambda>has_version. rbind (has_parameter m ''my_address'') (\<lambda>has_address.
     rbind (has_parameter m ''server_name'') (\<lambda>has_name.
     if \<not> has_version \<or> \<not> has_address \<or> \<not> has_name then Inr r
     else
       rbind (get_integer_parameter (env.truncate E) m ''version'') (\<lambda>version.
       if version \<noteq> 1 then Inr r
       else
         rbind (get_parameter m ''server_name'') (\<lambda>name.
         rbind (answer_connect E i m name r) (\<lambda>(refuse, reply, r1).
         rbind (send_back i reply r1) (\<lambda>r2.
         rbind (if refuse then Inr r2
                else
                  rbind help_message (\<lambda>help. rbind (send_back i help r2) (\<lambda>r3.
                  rbind (new_remote_connection name) (\<lambda>news.
                  rbind (broadcast_message E news [] r3) (cluster_status E None)))))
           (send_status i))))))))"

definition msg_disconnect :: "('a renv_scheme) \<Rightarrow> nat \<Rightarrow> router \<Rightarrow> router res" where
  "msg_disconnect E i r =
     (let r1 = upd_conn i (connection_ended (current_date E)) r in
      rbind (if c_type (r_heap r1 i) \<noteq> CONNECTION_TYPE_REMOTE then Inr r1
             else
               let r2 = upd_conn i (\<lambda>c. c\<lparr>c_type := CONNECTION_TYPE_DOWN\<rparr>) r1;
                   r3 = (if c_kind (r_heap r2 i) = Remote_conn
                         then shutting_down (ip_port (c_address (r_heap r2 i))) r2
                         else remove_connection i r2);
                   r4 = refresh_heard_of r3; name = c_server_name (r_heap r4 i) in
               rbind (if name = [] then Inr r4
                      else rbind (build [set_command ''DISCONNECTED'', set_service ''.'', add_parameter ''server_name'' name])
                             (\<lambda>m. broadcast_message E m [] r4))
                 (cluster_status E None))
        (send_status i))"

definition msg_forget :: "('a renv_scheme) \<Rightarrow> message \<Rightarrow> router \<Rightarrow> router res" where
  "msg_forget E m r =
     rbind (get_parameter m ''ip'') (\<lambda>ip.
     rbind (remove_neighbor ip r) (\<lambda>r1.
     rbind (has_parameter m ''broadcast_hops'') (\<lambda>has.
     if has then Inr r1
     else rbind (build [set_command ''FORGET'', set_server ''*'', set_service ''snapcommunicator'', add_parameter ''ip'' ip])
            (\<lambda>forget. broadcast_message E forget [] r1))))"

definition msg_gossip :: "('a renv_scheme) \<Rightarrow> nat \<Rightarrow> message \<Rightarrow> router \<Rightarrow> router res" where
  "msg_gossip E i m r =
     rbind (has_parameter m ''my_address'') (\<lambda>has.
     if \<not> has then Inr r
     else
       rbind (get_parameter m ''my_address'') (\<lambda>address.
       rbind (add_neighbors E address r) (\<lambda>r1.
       rbind (add_remote_communicator E address r1) (\<lambda>r2.
       rbind (build [set_command ''RECEIVED'']) (\<lambda>reply. send_back i reply r2)))))"

definition msg_refuse :: "('a renv_scheme) \<Rightarrow> nat \<Rightarrow> message \<Rightarrow> router \<Rightarrow> router res" where
  "msg_refuse E i m r =
     (if c_kind (r_heap r i) \<noteq> Remote_conn then Inl Snap_exception
      else
        rbind (has_parameter m ''shutdown'') (\<lambda>has.
        let address = ip_port (c_address (r_heap r i)) in
        Inr (if has then shutting_down address r else too_busy address r)))"

section \<open>Services of this computer\<close>

definition drop_stale :: "int \<Rightarrow> router \<Rightarrow> router" where
  "drop_stale now r = r\<lparr>r_cache := filter (\<lambda>p. \<not> now > fst p) (r_cache r)\<rparr>"

text \<open>The messages kept for a service are sent in the order they came, and no longer kept.\<close>

definition send_cached :: "nat \<Rightarrow> string \<Rightarrow> router \<Rightarrow> router" where
  "send_cached i service r =
     fold (\<lambda>p. send_on i (snd p)) (filter (\<lambda>p. m_service (snd p) = service) (r_cache r))
       (r\<lparr>r_cache := filter (\<lambda>p. m_service (snd p) \<noteq> service) (r_cache r)\<rparr>)"

definition msg_register :: "('a renv_scheme) \<Rightarrow> nat \<Rightarrow> message \<Rightarrow> router \<Rightarrow> router res" where
  "msg_register E i m r =
     rbind (has_parameter m ''service'') (\<lambda>has_service. rbind (has_parameter m ''version'') (\<lambda>has_version.
     if \<not> has_service \<or> \<not> has_version then Inr r
     else
       rbind (get_integer_parameter (env.truncate E) m ''version'') (\<lambda>version.
       if version \<noteq> 1 then Inr r
       else
         rbind (get_parameter m ''service'') (\<lambda>service.
         let r1 = upd_conn i (\<lambda>c. (connection_started (current_date E)
                (if c_kind c = Service_conn then c\<lparr>c_named := True\<rparr> else c))
                \<lparr>c_name := service, c_type := CONNECTION_TYPE_LOCAL\<rparr>) r in
         rbind help_message (\<lambda>help. rbind (send_back i help r1) (\<lambda>r2.
         rbind (build [set_command ''READY'']) (\<lambda>ready. rbind (send_back i ready r2) (\<lambda>r3.
         rbind (send_status i r3) (\<lambda>r4.
         Inr (send_cached i service (drop_stale (time_now E) r4))))))))))) "

definition set_wants_loadavg :: "bool \<Rightarrow> nat \<Rightarrow> router \<Rightarrow> router" where
  "set_wants_loadavg wants i = upd_conn i (\<lambda>c. c\<lparr>c_wants_loadavg := wants\<rparr>)"

definition enable_timer :: "bool \<Rightarrow> router \<Rightarrow> router" where
  "enable_timer enable r = upd_conn (r_loadavg_timer r) (\<lambda>c. c\<lparr>c_enabled := enable\<rparr>) r"

text \<open>
  The search for a connection that wants the messages calls a function of the null pointer when it
  meets a connection of another class first.
\<close>

fun someone_wants_loadavg :: "router \<Rightarrow> nat list \<Rightarrow> bool res" where
  "someone_wants_loadavg r [] = Inr False"
| "someone_wants_loadavg r (i # is) =
     (if \<not> is_base (r_heap r i) then Inl Undefined_behaviour
      else if c_wants_loadavg (r_heap r i) then Inr True
      else someone_wants_loadavg r is)"

definition msg_unregister_for_loadavg :: "nat \<Rightarrow> router \<Rightarrow> router res" where
  "msg_unregister_for_loadavg i r =
     (let r1 = set_wants_loadavg False i r in
      rbind (someone_wants_loadavg r1 (r_connections r1)) (\<lambda>wanted.
        Inr (if wanted then r1 else enable_timer False r1)))"

definition msg_service_status :: "nat \<Rightarrow> message \<Rightarrow> router \<Rightarrow> router res" where
  "msg_service_status i m r =
     rbind (get_parameter m ''service'') (\<lambda>service.
     if service = [] then Inr r
     else
       case find (\<lambda>j. c_name (r_heap r j) = service) (r_connections r) of
         None \<Rightarrow> reply_status service None i r
       | Some j \<Rightarrow> reply_status service (Some (r_heap r j)) i r)"

definition msg_unregister :: "('a renv_scheme) \<Rightarrow> nat \<Rightarrow> message \<Rightarrow> router \<Rightarrow> router res" where
  "msg_unregister E i m r =
     rbind (has_parameter m ''service'') (\<lambda>has.
     if \<not> has then Inr r
     else
       rbind (send_status i (upd_conn i (\<lambda>c. connection_ended (current_date E) (c\<lparr>c_type := CONNECTION_TYPE_DOWN\<rparr>)) r)) (\<lambda>r1.
       Inr (remove_connection i (upd_conn i (\<lambda>c. c\<lparr>c_name := []\<rparr>) r1))))"

definition msg_public_ip :: "nat \<Rightarrow> router \<Rightarrow> router res" where
  "msg_public_ip i r =
     (if \<not> is_service r i then Inl Snap_exception
      else rbind (build [set_command ''SERVER_PUBLIC_IP'', add_parameter ''public_ip'' (r_public_ip r)]) (\<lambda>m.
        rbind (verify_command i m r) (\<lambda>_. Inr (send_on i m r))))"

text \<open>The commands a service or another router must understand, checked in debug mode.\<close>

definition required_commands :: "conn_state \<Rightarrow> string list" where
  "required_commands c =
     [''HELP'', ''QUITTING'', if c_kind c = Remote_conn \<or> c_remote c then ''ACCEPT'' else ''READY'',
      ''STOP'', ''UNKNOWN'']"

definition msg_commands :: "('a renv_scheme) \<Rightarrow> nat \<Rightarrow> message \<Rightarrow> router \<Rightarrow> router res" where
  "msg_commands E i m r =
     rbind (has_parameter m ''list'') (\<lambda>has.
     if \<not> has then Inr r
     else
       rbind (get_parameter m ''list'') (\<lambda>commands.
       let r1 = upd_conn i (set_commands E commands) r in
       if r_debug r \<and> \<not> list_all (understand_command (r_heap r1 i)) (required_commands (r_heap r1 i))
       then Inl Snap_exception else Inr r1))"

definition router_commands :: string where
  "router_commands = ''ACCEPT,CLUSTERSTATUS,COMMANDS,CONNECT,DISCONNECT,FORGET,GOSSIP,HELP,LISTENLOADAVG,LOADAVG,LOG,PUBLIC_IP,QUITTING,REFUSE,REGISTER,REGISTERFORLOADAVG,RELOADCONFIG,SERVICES,SHUTDOWN,STOP,UNKNOWN,UNREGISTER,UNREGISTERFORLOADAVG''"

definition msg_help :: "nat \<Rightarrow> router \<Rightarrow> router res" where
  "msg_help i r =
     rbind (build [set_command ''COMMANDS'', add_parameter ''list'' router_commands]) (\<lambda>m. send_back i m r)"

section \<open>Messages for the router\<close>

text \<open>A command that is not known, or not on this connection, is answered on TCP.\<close>

definition unknown_command :: "nat \<Rightarrow> bool \<Rightarrow> string \<Rightarrow> router \<Rightarrow> router res" where
  "unknown_command i udp command r =
     (if udp then Inr r
      else rbind (build [set_command ''UNKNOWN'', add_parameter ''command'' command]) (\<lambda>m.
        rbind (verify_command i m r) (\<lambda>_. send_back i m r)))"

definition tcp_only :: "nat \<Rightarrow> bool \<Rightarrow> string \<Rightarrow> router res \<Rightarrow> router \<Rightarrow> router res" where
  "tcp_only i udp command result r =
     (if udp then Inr r else if is_base (r_heap r i) then result else unknown_command i udp command r)"

definition router_command :: "('a renv_scheme) \<Rightarrow> nat \<Rightarrow> bool \<Rightarrow> message \<Rightarrow> router \<Rightarrow> router res" where
  "router_command E i udp m r =
     (let command = m_command m; tcp = (\<lambda>result. tcp_only i udp command result r) in
      if command = ''ACCEPT'' then tcp (msg_accept E i m r)
      else if command = ''CLUSTERSTATUS'' then tcp (cluster_status E (Some i) r)
      else if command = ''COMMANDS'' then tcp (msg_commands E i m r)
      else if command = ''CONNECT'' then tcp (msg_connect E i m r)
      else if command = ''DISCONNECT'' then tcp (msg_disconnect E i r)
      else if command = ''FORGET'' then msg_forget E m r
      else if command = ''GOSSIP'' then tcp (msg_gossip E i m r)
      else if command = ''HELP'' then tcp (msg_help i r)
      else if command = ''LOADAVG'' then save_loadavg E m r
      else if command = ''LISTENLOADAVG'' then listen_loadavg m r
      else if command \<in> {''LOG'', ''LISTSERVICES'', ''QUITTING''} then Inr r
      else if command = ''PUBLIC_IP'' then msg_public_ip i r
      else if command = ''REFUSE'' then (if udp then Inr r else msg_refuse E i m r)
      else if command = ''REGISTER'' then tcp (msg_register E i m r)
      else if command = ''REGISTERFORLOADAVG'' then tcp (Inr (enable_timer True (set_wants_loadavg True i r)))
      else if command = ''RELOADCONFIG'' then shutdown E False (r\<lparr>r_force_restart := True\<rparr>)
      else if command = ''SHUTDOWN'' then shutdown E True r
      else if command = ''STOP'' then shutdown E False r
      else if command = ''SERVICESTATUS'' then msg_service_status i m r
      else if command = ''UNKNOWN'' then rbind (get_parameter m ''command'') (\<lambda>_. Inr r)
      else if command = ''UNREGISTER'' then tcp (msg_unregister E i m r)
      else if command = ''UNREGISTERFORLOADAVG'' then tcp (msg_unregister_for_loadavg i r)
      else unknown_command i udp command r)"

text \<open>Once the server stops, every other message on TCP is answered by QUITTING and the end.\<close>

definition quitting_reply :: "nat \<Rightarrow> bool \<Rightarrow> string \<Rightarrow> router \<Rightarrow> router res" where
  "quitting_reply i udp command r =
     rbind (if udp \<or> command = ''UNREGISTER'' then Inr r
            else rbind (build [set_command ''QUITTING'']) (\<lambda>m.
              rbind (verify_command i m r) (\<lambda>_. send_back i m r)))
       (\<lambda>r. Inr (if udp then r else remove_connection i r))"

section \<open>Messages for services\<close>

text \<open>The time to live that a message asks for, in seconds.\<close>

definition cache_parameters :: "string \<Rightarrow> (string, string) omap" where
  "cache_parameters cache =
     fold (\<lambda>p m. case split_on CHR ''='' p of [k, v] \<Rightarrow> om_put k v m | _ \<Rightarrow> m) (split_on CHR '';'' cache) []"

definition cache_ttl :: "('a env_scheme) \<Rightarrow> string \<Rightarrow> int" where
  "cache_ttl E cache =
     (case map_of (cache_parameters cache) ''ttl'' of
        None \<Rightarrow> 60
      | Some s \<Rightarrow> (case to_int E s of None \<Rightarrow> 60 | Some ttl \<Rightarrow> if ttl < 10 \<or> ttl > 86400 then 60 else ttl))"

definition cache_message :: "('a env_scheme) \<Rightarrow> message \<Rightarrow> router \<Rightarrow> router res" where
  "cache_message E m r =
     rbind (has_parameter m ''cache'') (\<lambda>has.
     rbind (if has then get_parameter m ''cache'' else Inr []) (\<lambda>cache.
     Inr (if cache = ''no'' then r
          else r\<lparr>r_cache := r_cache r @ [(time_now E + cache_ttl E cache, m)]\<rparr>)))"

definition transmission_report :: "nat \<Rightarrow> message \<Rightarrow> router \<Rightarrow> router res" where
  "transmission_report i m r =
     rbind (has_parameter m ''transmission_report'') (\<lambda>has.
     if \<not> has then Inr r
     else rbind (get_parameter m ''transmission_report'') (\<lambda>report.
       if report \<noteq> ''failure'' then Inr r
       else rbind (build [set_command ''TRANSMISSIONREPORT'', add_parameter ''status'' ''failed''])
              (\<lambda>reply. send_back i reply r)))"

text \<open>
  The walk through the connections: \<open>Found_service i\<close> is the connection of the service on this
  computer, \<open>Remotes\<close> the connections to other routers met until the end.
\<close>

datatype route = Found_service nat | Remotes "nat list"

fun find_route ::
    "router \<Rightarrow> string \<Rightarrow> string \<Rightarrow> nat list \<Rightarrow> nat list \<Rightarrow> route res" where
  "find_route r server service accepting [] = Inr (Remotes accepting)"
| "find_route r server service accepting (i # is) =
     (let c = r_heap r i in
      if \<not> is_base c then find_route r server service accepting is
      else if c_server_name c = [] \<and> \<not> r_debug r then find_route r server service accepting is
      else if c_server_name c = [] \<and> (c_kind c = Service_conn \<or> c_type c \<noteq> CONNECTION_TYPE_DOWN) then Inl Runtime_error
      else if c_server_name c = [] then find_route r server service accepting is
      else if \<not> (server = [] \<or> server = ''*'' \<or> server = c_server_name c) then
        find_route r server service accepting is
      else if c_kind c = Service_conn then
        if c_name c = service then Inr (Found_service i)
        else find_route r server service
          (if c_type c = CONNECTION_TYPE_REMOTE then accepting @ [i] else accepting) is
      else find_route r server service (accepting @ [i]) is)"

definition forward_message ::
    "('a renv_scheme) \<Rightarrow> nat \<Rightarrow> string \<Rightarrow> message \<Rightarrow> router \<Rightarrow> router res" where
  "forward_message E i server m r =
     (let service = m_service m in
      if service \<in> {''*'', ''?'', ''.''} then
        if server \<noteq> [] \<and> server \<noteq> ''*'' \<and> service \<noteq> ''.'' then Inr r
        else broadcast_message E m [] r
      else
        rbind (find_route r server service [] (r_connections r)) (\<lambda>route.
        case route of
          Found_service j \<Rightarrow>
            (case verify_command j m r of Inl _ \<Rightarrow> Inr r | Inr _ \<Rightarrow> Inr (send_on j m r))
        | Remotes accepting \<Rightarrow>
            if (server = [] \<or> server = ''*'' \<or> server = r_server_name r)
               \<and> map_of (r_local_services_list r) service \<noteq> None
            then rbind (cache_message E m r) (transmission_report i m)
            else if server = r_server_name r then transmission_report i m r
            else if accepting = [] then Inr r
            else broadcast_message E m accepting r))"

text \<open>A broadcast that timed out or that was received already is ignored.\<close>

definition ignored_broadcast :: "('a env_scheme) \<Rightarrow> message \<Rightarrow> router \<Rightarrow> bool res" where
  "ignored_broadcast E m r =
     rbind (has_parameter m ''broadcast_msgid'') (\<lambda>has.
     if \<not> has then Inr False
     else
       rbind (get_integer_parameter (env.truncate E) m ''broadcast_timeout'') (\<lambda>timeout.
       if timeout < time_now E then Inr True
       else rbind (get_parameter m ''broadcast_msgid'') (\<lambda>msgid. Inr (map_of (r_received r) msgid \<noteq> None))))"

definition process_message :: "('a renv_scheme) \<Rightarrow> nat \<Rightarrow> bool \<Rightarrow> message \<Rightarrow> router \<Rightarrow> router res" where
  "process_message E i udp m r =
     rbind (ignored_broadcast E m r) (\<lambda>ignored.
     if ignored then Inr r
     else
       let server = (if m_server m = ''.'' then r_server_name r else m_server m) in
       if (server = [] \<or> server = r_server_name r \<or> server = ''*'')
          \<and> (m_service m = [] \<or> m_service m = ''snapcommunicator'') then
         if r_shutdown r then quitting_reply i udp (m_command m) r
         else router_command E i udp m r
       else forward_message E i server m r)"

end
