(* ===== verification/RouterEvents.thy ===== *)
theory RouterEvents
  imports RouterMessage
begin

text \<open>
  The events of the connections of the router: a new connection, a message, a hang up, an error, a
  timeout, the attempts to connect to other routers. What the event loop itself does with sockets
  and threads is I/O; \<open>c_enabled\<close> is whether the timer of a connection runs.
\<close>

section \<open>Messages by connection\<close>

definition service_message :: "('a renv_scheme) \<Rightarrow> nat \<Rightarrow> message \<Rightarrow> router \<Rightarrow> router res" where
  "service_message E i m r =
     (if c_named (r_heap r i) then
        rbind (chain [set_sent_from_server (c_host (r_heap r i)), set_sent_from_service (c_name (r_heap r i))] m)
          (\<lambda>m. process_message E i False m r)
      else process_message E i False m r)"

definition remote_message :: "('a renv_scheme) \<Rightarrow> nat \<Rightarrow> message \<Rightarrow> router \<Rightarrow> router res" where
  "remote_message E i m r =
     process_message E i False m
       (if c_peer (r_heap r i) = [] then upd_conn i (\<lambda>c. c\<lparr>c_peer := m_sent_from_server m\<rparr>) r else r)"

definition gossip_message :: "nat \<Rightarrow> message \<Rightarrow> router \<Rightarrow> router" where
  "gossip_message i m r =
     (if m_command m = ''RECEIVED'' then gossip_received (c_gossip_addr (r_heap r i)) r else r)"

section \<open>Connections that come and go\<close>

definition accept_connection :: "('a renv_scheme) \<Rightarrow> bool \<Rightarrow> string \<Rightarrow> router \<Rightarrow> router res" where
  "accept_connection E local remote_address r =
     rbind (parse_addr E remote_address) (\<lambda>a.
     let c = (new_connection Service_conn [] a)\<lparr>c_host := r_server_name r\<rparr> in
     if local then
       Inr (add_conn (c\<lparr>c_name := ''client connection'', c_server_name := r_server_name r\<rparr>) r)
     else if network a = Loopback then Inr r
     else Inr (add_conn (c\<lparr>c_name := ''remote connection from: '' @ remote_address, c_remote := True\<rparr>) r))"

definition service_down :: "nat \<Rightarrow> router \<Rightarrow> router res" where
  "service_down i r = send_status i (upd_conn i (\<lambda>c. c\<lparr>c_type := CONNECTION_TYPE_DOWN\<rparr>) r)"

definition hangup_message :: "string \<Rightarrow> message res" where
  "hangup_message name = build [set_command ''HANGUP'', set_service ''.'', add_parameter ''server_name'' name]"

definition service_hup :: "('a renv_scheme) \<Rightarrow> nat \<Rightarrow> router \<Rightarrow> router res" where
  "service_hup E i r =
     (let r1 = remove_connection i r; c = r_heap r1 i in
      rbind (if c_remote c \<and> c_server_name c \<noteq> [] then
               rbind (hangup_message (c_server_name c)) (\<lambda>m.
               rbind (broadcast_message E m [] r1) (cluster_status E (Some i)))
             else Inr r1)
        (service_down i))"

definition remote_connected :: "nat \<Rightarrow> router \<Rightarrow> router res" where
  "remote_connected i r =
     rbind (process_connected i (upd_conn i (\<lambda>c. c\<lparr>c_was_connected := True, c_failures := 0,
         c_failure_start_time := 0, c_flagged := False, c_enabled := False\<rparr>) r)) (\<lambda>r1.
     Inr (upd_conn i (\<lambda>c. c\<lparr>c_timeout_delay := REMOTE_CONNECTION_DEFAULT_TIMEOUT\<rparr>) r1))"

text \<open>
  Counting failures: the test before the increment compares with the smallest number of the type,
  and the flag is raised at twenty failures in more than an hour.
\<close>

definition count_failure :: "int \<Rightarrow> conn_state \<Rightarrow> conn_state" where
  "count_failure now c =
     (let c1 = (if c_failures c \<le> 0 then c\<lparr>c_failure_start_time := now, c_failures := 1\<rparr>
                else if c_failures c < - (2 ^ 31) then c\<lparr>c_failures := c_failures c + 1\<rparr>
                else c) in
      if \<not> c_flagged c1 \<and> c_failures c1 \<ge> 20 \<and> now - c_failure_start_time c1 > 60 * 60 * 1000000
      then c1\<lparr>c_flagged := True\<rparr> else c1)"

definition remote_failed :: "('a renv_scheme) \<Rightarrow> nat \<Rightarrow> router \<Rightarrow> router res" where
  "remote_failed E i r =
     (let r1 = upd_conn i (\<lambda>c. c\<lparr>c_enabled := True\<rparr>) r; c = r_heap r1 i in
      rbind (if c_was_connected c \<and> c_peer c \<noteq> [] then
               rbind (hangup_message (c_peer c)) (\<lambda>m.
                 broadcast_message E m [] (upd_conn i (\<lambda>c. c\<lparr>c_was_connected := False\<rparr>) r1))
             else Inr r1) (\<lambda>r2.
      Inr (upd_conn i (count_failure (current_date E)) r2)))"

definition gossip_timeout :: "nat \<Rightarrow> router \<Rightarrow> router" where
  "gossip_timeout i =
     upd_conn i (\<lambda>c. if c_wait c < 3600 * 1000000
       then c\<lparr>c_wait := c_wait c * 2, c_timeout_delay := c_wait c * 2\<rparr> else c)"

definition gossip_connected :: "nat \<Rightarrow> router \<Rightarrow> router res" where
  "gossip_connected i r =
     rbind (build [set_command ''GOSSIP'', add_parameter ''my_address'' (ip_port (r_my_address r))])
       (\<lambda>m. Inr (send_on i m (upd_conn i (\<lambda>c. c\<lparr>c_enabled := False\<rparr>) r)))"

definition gossip_failed :: "('a renv_scheme) \<Rightarrow> nat \<Rightarrow> router \<Rightarrow> router res" where
  "gossip_failed E i r =
     server_unreachable E (c_gossip_addr (r_heap r i)) (upd_conn i (\<lambda>c. c\<lparr>c_enabled := True\<rparr>) r)"

section \<open>Events\<close>

datatype router_action =
    Accepted bool string        \<comment> \<open>a client of the local or of the remote listener\<close>
  | Message_on nat message
  | Udp_message nat message
  | Hung_up nat                 \<comment> \<open>a service or a router that connected to this one\<close>
  | Broken nat                  \<comment> \<open>error, invalid socket or timeout of such a connection\<close>
  | Connected nat               \<comment> \<open>a connection made by this router\<close>
  | Not_connected nat
  | Gossip_timeout nat
  | Interrupt

definition message_on :: "('a renv_scheme) \<Rightarrow> nat \<Rightarrow> message \<Rightarrow> router \<Rightarrow> router res" where
  "message_on E i m r =
     (case c_kind (r_heap r i) of
        Service_conn \<Rightarrow> service_message E i m r
      | Remote_conn \<Rightarrow> remote_message E i m r
      | Gossip_conn \<Rightarrow> Inr (gossip_message i m r)
      | Own_conn \<Rightarrow> Inr r)"

definition connected :: "nat \<Rightarrow> router \<Rightarrow> router res" where
  "connected i r =
     (if c_kind (r_heap r i) = Remote_conn then remote_connected i r
      else if c_kind (r_heap r i) = Gossip_conn then gossip_connected i r else Inr r)"

definition not_connected :: "('a renv_scheme) \<Rightarrow> nat \<Rightarrow> router \<Rightarrow> router res" where
  "not_connected E i r =
     (if c_kind (r_heap r i) = Remote_conn then remote_failed E i r
      else if c_kind (r_heap r i) = Gossip_conn then gossip_failed E i r else Inr r)"

fun router_event :: "('a renv_scheme) \<Rightarrow> router_action \<Rightarrow> router \<Rightarrow> router res" where
  "router_event E (Accepted local address) r = accept_connection E local address r"
| "router_event E (Message_on i m) r = message_on E i m r"
| "router_event E (Udp_message i m) r = process_message E i True m r"
| "router_event E (Hung_up i) r = (if is_service r i then service_hup E i r else Inr r)"
| "router_event E (Broken i) r = (if is_service r i then service_down i (remove_connection i r) else Inr r)"
| "router_event E (Connected i) r = connected i r"
| "router_event E (Not_connected i) r = not_connected E i r"
| "router_event E (Gossip_timeout i) r =
     Inr (if c_kind (r_heap r i) = Gossip_conn then gossip_timeout i r else r)"
| "router_event E Interrupt r = shutdown E False r"

primrec router_run :: "(('a renv_scheme) \<times> router_action) list \<Rightarrow> router \<Rightarrow> router res" where
  "router_run [] r = Inr r"
| "router_run (p # ps) r = rbind (router_event (fst p) (snd p) r) (router_run ps)"

section \<open>Start\<close>

text \<open>
  The state at the end of \<open>init\<close>, with the parameters of the configuration: \<open>own\<close> are the
  connections of the server, \<open>timer\<close> the load average timer among them; \<open>listen\<close> is \<open>None\<close> when the
  server listens on the loopback address only.
\<close>

definition new_router ::
    "conn_state list \<Rightarrow> nat \<Rightarrow> string \<Rightarrow> string \<Rightarrow> addr \<Rightarrow> string \<Rightarrow> names \<Rightarrow> string \<Rightarrow> string list \<Rightarrow> nat \<Rightarrow> bool \<Rightarrow> router" where
  "new_router own timer server_name public_ip my_address services services_list explicit file max_connections debug =
     \<lparr>r_heap = (\<lambda>i. if i < length own then own ! i else new_connection Own_conn [] my_address),
      r_next = length own, r_connections = [0..<length own], r_own = [0..<length own],
      r_loadavg_timer = timer, r_server_name = server_name, r_public_ip = public_ip,
      r_my_address = my_address, r_local_services = services, r_local_services_list = services_list,
      r_services_heard_of = [], r_services_heard_of_list = [], r_explicit_neighbors = [],
      r_all_neighbors = [], r_neighbors_read = False, r_neighbors_file = file,
      r_registered_for_loadavg = [], r_all_ips = [], r_smaller_ips = [], r_gossip_ips = [],
      r_last_start_date = 0, r_max_connections = max_connections, r_total_count_sent = 0,
      r_shutdown = False, r_force_restart = False, r_cache = [], r_received = [],
      r_cluster_status = [], r_cluster_complete = [], r_status_file = [], r_sequence = 0,
      r_debug = debug, r_outbox = []\<rparr>"

definition init_router :: "('a renv_scheme) \<Rightarrow> string option \<Rightarrow> string \<Rightarrow> router \<Rightarrow> router res" where
  "init_router E listen explicit r =
     rbind (case listen of None \<Rightarrow> Inr r | Some address \<Rightarrow> add_neighbors E address r) (\<lambda>r1.
     rbind (add_neighbors E explicit (r1\<lparr>r_explicit_neighbors := explicit\<rparr>)) (cluster_status E None))"

end
