(* ===== verification/RouterInvariant.thy ===== *)
theory RouterInvariant
  imports RouterEvents
begin

text \<open>
  What every event keeps of the state of the router, and how the state may evolve: connections are
  never reused, the identity of the router does not change, messages sent are not taken back, the
  identifier of a broadcast is remembered as long as it may arrive again.
\<close>

section \<open>The invariant and the evolution\<close>

definition conn_ok :: "conn_state \<Rightarrow> bool" where
  "conn_ok c \<longleftrightarrow> c_failures c \<le> 1 \<and> \<not> c_flagged c"

definition ips_ok :: "router \<Rightarrow> conn_kind \<Rightarrow> (string, nat) omap \<Rightarrow> bool" where
  "ips_ok r kind m \<longleftrightarrow> om_ok m \<and>
     (\<forall>p \<in> set m. snd p < r_next r \<and> c_kind (r_heap r (snd p)) = kind)"

text \<open>
  What \<open>shutdown\<close> relies on: each connection of the server is in \<open>r_own\<close> and each gossip connection
  in \<open>r_gossip_ips\<close>, whose addresses are all in \<open>r_all_ips\<close> so that none is replaced by another one.
\<close>

definition conns_known :: "router \<Rightarrow> bool" where
  "conns_known r \<longleftrightarrow>
     (\<forall>i \<in> set (r_connections r).
        (c_kind (r_heap r i) = Own_conn \<longrightarrow> i \<in> set (r_own r))
        \<and> (c_kind (r_heap r i) = Gossip_conn \<longrightarrow> (\<exists>a. map_of (r_gossip_ips r) a = Some i)))
     \<and> (\<forall>a. map_of (r_all_ips r) a = None \<longrightarrow> map_of (r_gossip_ips r) a = None)"

definition rwf :: "router \<Rightarrow> bool" where
  "rwf r \<longleftrightarrow>
     distinct (r_connections r) \<and> (\<forall>i \<in> set (r_connections r). i < r_next r)
     \<and> ips_ok r Remote_conn (r_smaller_ips r) \<and> ips_ok r Gossip_conn (r_gossip_ips r)
     \<and> om_ok (r_received r) \<and> om_ok (r_all_neighbors r) \<and> (\<forall>i. conn_ok (r_heap r i))
     \<and> conns_known r"

definition revolves :: "int \<Rightarrow> router \<Rightarrow> router \<Rightarrow> bool" where
  "revolves now r r' \<longleftrightarrow>
     r_next r \<le> r_next r'
     \<and> (\<forall>i < r_next r. c_kind (r_heap r' i) = c_kind (r_heap r i) \<and> c_address (r_heap r' i) = c_address (r_heap r i))
     \<and> (\<exists>new. r_outbox r' = r_outbox r @ new)
     \<and> (\<forall>x t. map_of (r_received r) x = Some t \<longrightarrow> now \<le> t \<longrightarrow> map_of (r_received r') x = Some t)
     \<and> r_server_name r' = r_server_name r \<and> r_my_address r' = r_my_address r
     \<and> r_own r' = r_own r \<and> r_debug r' = r_debug r
     \<and> r_local_services_list r' = r_local_services_list r
     \<and> (r_shutdown r \<longrightarrow> r_shutdown r')"

definition rgood :: "int \<Rightarrow> router \<Rightarrow> router \<Rightarrow> bool" where
  "rgood now r r' \<longleftrightarrow> (rwf r \<longrightarrow> rwf r' \<and> revolves now r r')"

lemma revolves_refl: "revolves now r r"
  by (simp add: revolves_def)

lemma revolves_trans: "revolves now r r1 \<Longrightarrow> revolves now r1 r2 \<Longrightarrow> revolves now r r2"
  unfolding revolves_def by (auto intro: order.trans)

lemma rgood_refl [intro!]: "rgood now r r"
  by (simp add: rgood_def revolves_refl)

lemma rgood_trans: "rgood now r r1 \<Longrightarrow> rgood now r1 r2 \<Longrightarrow> rgood now r r2"
  unfolding rgood_def using revolves_trans by blast

section \<open>Steps\<close>

lemma rgood_send [intro!]: "rgood now r (send_on i m r)"
  by (simp add: rgood_def rwf_def revolves_def ips_ok_def conns_known_def send_on_def)

lemma rgood_remove [intro!]: "rgood now r (remove_connection i r)"
  by (simp add: rgood_def rwf_def revolves_def ips_ok_def conns_known_def remove_connection_def)

definition keeps_conn :: "(conn_state \<Rightarrow> conn_state) \<Rightarrow> bool" where
  "keeps_conn f \<longleftrightarrow>
     (\<forall>c. c_kind (f c) = c_kind c \<and> c_address (f c) = c_address c \<and> (conn_ok c \<longrightarrow> conn_ok (f c)))"

lemma rgood_upd: "keeps_conn f \<Longrightarrow> rgood now r (upd_conn i f r)"
  by (auto simp: rgood_def rwf_def revolves_def ips_ok_def conns_known_def upd_conn_def keeps_conn_def)

lemma rgood_add: "conn_ok c \<Longrightarrow> is_base c \<Longrightarrow> rgood now r (add_conn c r)"
  by (force simp: rgood_def rwf_def revolves_def ips_ok_def conns_known_def is_base_def add_conn_def)

lemma known_add:
  assumes "rwf r" "r_heap r' = r_heap r" "r_next r' = r_next r" "r_connections r' = r_connections r" "r_own r' = r_own r"
    and "c_kind c \<noteq> Own_conn" "c_kind c = Gossip_conn \<Longrightarrow> map_of (r_gossip_ips r') b = Some (r_next r)"
    and "\<And>a i. map_of (r_gossip_ips r) a = Some i \<Longrightarrow> map_of (r_gossip_ips r') a = Some i"
    and "\<And>a. map_of (r_all_ips r') a = None \<Longrightarrow> map_of (r_gossip_ips r') a = None"
  shows "conns_known (add_conn c r')"
proof -
  have "(c_kind (r_heap r i) = Own_conn \<longrightarrow> i \<in> set (r_own r)) \<and> i \<noteq> r_next r
      \<and> (c_kind (r_heap r i) = Gossip_conn \<longrightarrow> (\<exists>a. map_of (r_gossip_ips r') a = Some i))"
    if "i \<in> set (r_connections r)" for i
    using assms(1,8) that unfolding rwf_def conns_known_def by blast
  with assms(2-7,9) show ?thesis
    by (auto simp: conns_known_def add_conn_def)
qed

lemma rgood_smaller:
  assumes "conn_ok c" "c_kind c = Remote_conn"
  shows "rgood now r (add_conn c (r\<lparr>r_smaller_ips := om_put (ip_brackets (a :: addr)) (r_next r) (r_smaller_ips r),
      r_last_start_date := d\<rparr>))" (is "rgood now r (add_conn c ?r)")
proof -
  have "conns_known (add_conn c ?r)" if "rwf r"
    using that assms(2) by (intro known_add [where r = r]) (simp_all add: rwf_def conns_known_def)
  then show ?thesis
    using assms set_om_put [of "ip_brackets a" "r_next r" "r_smaller_ips r"]
    by (fastforce simp: rgood_def rwf_def revolves_def ips_ok_def add_conn_def)
qed

lemma rgood_gossip:
  assumes "conn_ok c" "c_kind c = Gossip_conn" "map_of (r_all_ips r) (ip_brackets (a :: addr)) = None"
  shows "rgood now r (add_conn c (r\<lparr>r_all_ips := om_put (ip_brackets a) port (r_all_ips r),
      r_gossip_ips := om_put (ip_brackets a) (r_next r) (r_gossip_ips r)\<rparr>))" (is "rgood now r (add_conn c ?r)")
proof -
  have "conns_known (add_conn c ?r)" if "rwf r"
  proof -
    have none: "map_of (r_gossip_ips r) b = None" if "map_of (r_all_ips r) b = None" for b
      using \<open>rwf r\<close> that by (simp add: rwf_def conns_known_def)
    show ?thesis
      using that assms(2) none [OF assms(3)] none
      by (intro known_add [where r = r and b = "ip_brackets a"]) (auto simp: map_of_om_put split: if_splits)
  qed
  then show ?thesis
    using assms set_om_put [of "ip_brackets a" "r_next r" "r_gossip_ips r"]
    by (fastforce simp: rgood_def rwf_def revolves_def ips_ok_def add_conn_def)
qed

text \<open>Fields that the invariant and the evolution do not look at.\<close>

definition aside :: "router \<Rightarrow> router \<Rightarrow> bool" where
  "aside r r' \<longleftrightarrow>
     r_heap r' = r_heap r \<and> r_next r' = r_next r \<and> r_connections r' = r_connections r \<and> r_own r' = r_own r
     \<and> r_smaller_ips r' = r_smaller_ips r \<and> r_gossip_ips r' = r_gossip_ips r \<and> r_all_ips r' = r_all_ips r \<and> r_received r' = r_received r
     \<and> r_all_neighbors r' = r_all_neighbors r \<and> r_outbox r' = r_outbox r \<and> r_server_name r' = r_server_name r
     \<and> r_my_address r' = r_my_address r \<and> r_debug r' = r_debug r
     \<and> r_local_services_list r' = r_local_services_list r \<and> r_shutdown r' = r_shutdown r \<and> r_cache r' = r_cache r"

lemma rgood_aside: "aside r r' \<Longrightarrow> rgood now r r'"
  by (simp add: aside_def rgood_def rwf_def revolves_def ips_ok_def conns_known_def)

lemma aside_simps [simp, intro!]:
  "aside r (r\<lparr>r_services_heard_of_list := l, r_services_heard_of := s\<rparr>)"
  "aside r (r\<lparr>r_explicit_neighbors := s\<rparr>)" "aside r (r\<lparr>r_neighbors_read := b\<rparr>)"
  "aside r (r\<lparr>r_neighbors_file := l\<rparr>)" "aside r (r\<lparr>r_registered_for_loadavg := names\<rparr>)"
  "aside r (r\<lparr>r_total_count_sent := n\<rparr>)" "aside r (r\<lparr>r_force_restart := b\<rparr>)"
  "aside r (r\<lparr>r_cluster_status := s\<rparr>)" "aside r (r\<lparr>r_cluster_complete := s\<rparr>)"
  "aside r (r\<lparr>r_status_file := l\<rparr>)" "aside r (r\<lparr>r_sequence := i\<rparr>)"
  by (simp_all add: aside_def)

lemma rgood_neighbors:
  "rgood now r (r\<lparr>r_all_neighbors := om_put s True (r_all_neighbors r)\<rparr>)"
  "rgood now r (r\<lparr>r_all_neighbors := om_erase s (r_all_neighbors r)\<rparr>)"
  by (auto simp: rgood_def rwf_def revolves_def ips_ok_def conns_known_def)

lemma rgood_shutdown: "rgood now r (r\<lparr>r_shutdown := True\<rparr>)"
  by (simp add: rgood_def rwf_def revolves_def ips_ok_def conns_known_def)

lemma set_om_erase: "set (om_erase k m) \<subseteq> set m"
  by (auto simp: om_erase_def)

lemma rgood_erase_smaller: "rgood now r (r\<lparr>r_smaller_ips := om_erase s (r_smaller_ips r)\<rparr>)"
  using set_om_erase [of s "r_smaller_ips r"]
  by (auto simp: rgood_def rwf_def revolves_def ips_ok_def conns_known_def)

lemma rgood_erase_gossip:
  assumes "map_of (r_gossip_ips r) s = Some i"
  shows "rgood now r ((remove_connection i r)\<lparr>r_gossip_ips := om_erase s (r_gossip_ips r)\<rparr>)"
proof -
  have "conns_known ((remove_connection i r)\<lparr>r_gossip_ips := om_erase s (r_gossip_ips r)\<rparr>)" if "rwf r"
  proof -
    have "j = i \<or> map_of (om_erase s (r_gossip_ips r)) a = Some j" if "map_of (r_gossip_ips r) a = Some j" for a j
      using that assms by (cases "a = s") (simp_all add: map_of_om_erase)
    moreover have "map_of (om_erase s (r_gossip_ips r)) a = None" if "map_of (r_gossip_ips r) a = None" for a
      using that by (simp add: map_of_om_erase)
    ultimately show ?thesis
      using that unfolding rwf_def conns_known_def by (simp add: remove_connection_def) blast
  qed
  then show ?thesis
    using set_om_erase [of s "r_gossip_ips r"]
    by (auto simp: rgood_def rwf_def revolves_def ips_ok_def remove_connection_def)
qed

lemma rgood_all_ips: "rgood now r (r\<lparr>r_all_ips := om_put s port (r_all_ips r)\<rparr>)"
  by (simp add: rgood_def rwf_def revolves_def ips_ok_def conns_known_def map_of_om_put)

text \<open>No gossip connection is left when gossiping ends.\<close>

definition gossips :: "router \<Rightarrow> nat set" where
  "gossips r = snd ` set (r_gossip_ips r)"

lemma remove_connections:
  "fold (\<lambda>p. remove_connection (snd p)) m r = r\<lparr>r_connections := filter (\<lambda>j. j \<notin> snd ` set m) (r_connections r)\<rparr>"
  by (induction m arbitrary: r) (auto simp: remove_connection_def intro!: filter_cong)

lemma stop_gossiping_eq:
  "stop_gossiping r = r\<lparr>r_gossip_ips := [], r_connections := filter (\<lambda>j. j \<notin> gossips r) (r_connections r)\<rparr>"
  by (simp add: stop_gossiping_def remove_connections gossips_def)

lemma gossip_known: "rwf r \<Longrightarrow> i \<in> set (r_connections r) \<Longrightarrow> c_kind (r_heap r i) = Gossip_conn \<Longrightarrow> i \<in> gossips r"
  unfolding rwf_def conns_known_def gossips_def by (metis imageI map_of_SomeD snd_conv)

lemma rgood_stop_gossiping: "rgood now r (stop_gossiping r)"
proof -
  have "conns_known (stop_gossiping r)" if "rwf r"
    using that gossip_known [OF that] by (auto simp: stop_gossiping_eq rwf_def conns_known_def)
  then show ?thesis
    by (auto simp: stop_gossiping_eq rgood_def rwf_def revolves_def ips_ok_def)
qed

lemma map_of_filter_om: "om_ok m \<Longrightarrow> map_of m x = Some t \<Longrightarrow> P (x, t) \<Longrightarrow> map_of (filter P m) x = Some t"
  using map_of_iff_mem [of m x t] map_of_iff_mem [OF om_ok_filter [of m P], of x t] by auto

lemma rgood_remember:
  assumes "map_of (r_received r) msgid = None"
  shows "rgood now r (r\<lparr>r_received := om_put msgid timeout (filter (\<lambda>p. \<not> snd p < now) (r_received r))\<rparr>)"
proof -
  have "map_of (om_put msgid timeout (filter (\<lambda>p. \<not> snd p < now) (r_received r))) x = Some t"
    if "om_ok (r_received r)" "map_of (r_received r) x = Some t" "now \<le> t" for x t
    using that assms map_of_filter_om [of "r_received r" x t "\<lambda>p. \<not> snd p < now"]
    by (auto simp: map_of_om_put)
  then show ?thesis
    by (auto simp: rgood_def rwf_def revolves_def ips_ok_def conns_known_def)
qed

lemma rgood_cache: "rgood now r (r\<lparr>r_cache := cache\<rparr>)"
  by (simp add: rgood_def rwf_def revolves_def ips_ok_def conns_known_def)

lemma rgood_earlier: "rgood now r r' \<Longrightarrow> now \<le> later \<Longrightarrow> rgood later r r'"
  unfolding rgood_def revolves_def by (auto intro: order.trans)

section \<open>Evolutions\<close>

text \<open>
  What a relation between states has to allow so that every operation stays within it: the steps that the operations
  are made of. \<open>rgood\<close> is one, that kept messages wait for their service is another.
\<close>

locale router_evolution =
  fixes evolves :: "int \<Rightarrow> router \<Rightarrow> router \<Rightarrow> bool"
  assumes evolves_refl [intro!]: "evolves now r r"
    and evolves_trans: "evolves now r r1 \<Longrightarrow> evolves now r1 r2 \<Longrightarrow> evolves now r r2"
    and evolves_earlier: "evolves now r r' \<Longrightarrow> now \<le> later \<Longrightarrow> evolves later r r'"
    and evolves_send [intro!]: "evolves now r (send_on i m r)"
    and evolves_remove [intro!]: "evolves now r (remove_connection i r)"
    and evolves_upd: "keeps_conn f \<Longrightarrow> evolves now r (upd_conn i f r)"
    and evolves_add: "conn_ok c \<Longrightarrow> is_base c \<Longrightarrow> evolves now r (add_conn c r)"
    and evolves_smaller: "conn_ok c \<Longrightarrow> c_kind c = Remote_conn \<Longrightarrow>
      evolves now r (add_conn c (r\<lparr>r_smaller_ips := om_put (ip_brackets (a :: addr)) (r_next r) (r_smaller_ips r),
        r_last_start_date := d\<rparr>))"
    and evolves_gossip: "conn_ok c \<Longrightarrow> c_kind c = Gossip_conn \<Longrightarrow> map_of (r_all_ips r) (ip_brackets (a :: addr)) = None \<Longrightarrow>
      evolves now r (add_conn c (r\<lparr>r_all_ips := om_put (ip_brackets a) port (r_all_ips r),
        r_gossip_ips := om_put (ip_brackets a) (r_next r) (r_gossip_ips r)\<rparr>))"
    and evolves_aside: "aside r r' \<Longrightarrow> evolves now r r'"
    and evolves_cached: "evolves now r (r\<lparr>r_cache := r_cache r @ [entry]\<rparr>)"
    and evolves_neighbors: "evolves now r (r\<lparr>r_all_neighbors := om_put s True (r_all_neighbors r)\<rparr>)"
      "evolves now r (r\<lparr>r_all_neighbors := om_erase s (r_all_neighbors r)\<rparr>)"
    and evolves_shutdown: "evolves now r (r\<lparr>r_shutdown := True\<rparr>)"
    and evolves_erase_smaller: "evolves now r (r\<lparr>r_smaller_ips := om_erase s (r_smaller_ips r)\<rparr>)"
    and evolves_erase_gossip: "map_of (r_gossip_ips r) s = Some i \<Longrightarrow>
      evolves now r ((remove_connection i r)\<lparr>r_gossip_ips := om_erase s (r_gossip_ips r)\<rparr>)"
    and evolves_all_ips: "evolves now r (r\<lparr>r_all_ips := om_put s port (r_all_ips r)\<rparr>)"
    and evolves_stop_gossiping: "evolves now r (stop_gossiping r)"
    and evolves_remember: "map_of (r_received r) msgid = None \<Longrightarrow>
      evolves now r (r\<lparr>r_received := om_put msgid timeout (filter (\<lambda>p. \<not> snd p < now) (r_received r))\<rparr>)"

section \<open>Operations that may throw\<close>

context router_evolution
begin

lemma unless_trans: "evolves now r r1 \<Longrightarrow> unless_exn x (evolves now r1) \<Longrightarrow> unless_exn x (evolves now r)"
  using evolves_trans by (auto elim: unless_exn_mono)

lemma unless_bind_router:
  fixes x :: "router res"
  assumes "unless_exn x (evolves now r)" "\<And>r1. unless_exn (f r1) (evolves now r1)"
  shows "unless_exn (rbind x f) (evolves now r)"
  using assms unless_trans by (auto intro: unless_exn_rbind)

lemma unless_bind_pair:
  fixes x :: "('b \<times> router) res"
  assumes "unless_exn x (\<lambda>(_, r1). evolves now r r1)" "\<And>b r1. unless_exn (f (b, r1)) (evolves now r1)"
  shows "unless_exn (rbind x f) (evolves now r)"
  using assms unless_trans by (auto intro: unless_exn_rbind)

lemma unless_bind_any:
  fixes x :: "'v res"
  shows "(\<And>y. unless_exn (f y) P) \<Longrightarrow> unless_exn (rbind x f) P"
  by (cases x) simp_all

lemma unless_Inr: "evolves now r r' \<Longrightarrow> unless_exn (Inr r') (evolves now r)"
  by simp

lemma unless_if: "(b \<Longrightarrow> unless_exn x P) \<Longrightarrow> (\<not> b \<Longrightarrow> unless_exn y P) \<Longrightarrow> unless_exn (if b then x else y) P"
  by simp

lemma unless_Inl: "unless_exn (Inl e) P"
  by simp

text \<open>Binding the result of a setter, a getter or a check leaves the state as it is.\<close>

lemmas unless_bind_value =
  unless_bind_any [where 'v = message] unless_bind_any [where 'v = bool] unless_bind_any [where 'v = string]
  unless_bind_any [where 'v = int] unless_bind_any [where 'v = unit] unless_bind_any [where 'v = addr]
  unless_bind_any [where 'v = route]

lemmas router_steps = unless_bind_value unless_bind_router unless_if unless_Inl unless_Inr

end

end
