(* ===== verification/RouterKept.thy ===== *)
theory RouterKept
  imports RouterInvariant
begin

text \<open>Every operation of the router keeps the invariant and lets the state evolve as it may.\<close>

lemma keeps_conn_simps [simp, intro!]:
  "keeps_conn (\<lambda>c. c\<lparr>c_timeout_delay := delay, c_timeout_date := date, c_enabled := b\<rparr>)"
  "keeps_conn (\<lambda>c. c\<lparr>c_timeout_delay := delay, c_enabled := b\<rparr>)" "keeps_conn (\<lambda>c. c\<lparr>c_timeout_delay := delay\<rparr>)"
  "keeps_conn (\<lambda>c. c\<lparr>c_done := b\<rparr>)" "keeps_conn (\<lambda>c. c\<lparr>c_enabled := b\<rparr>)" "keeps_conn (\<lambda>c. c\<lparr>c_type := t\<rparr>)"
  "keeps_conn (\<lambda>c. c\<lparr>c_my_address := s\<rparr>)" "keeps_conn (\<lambda>c. c\<lparr>c_server_name := s\<rparr>)" "keeps_conn (\<lambda>c. c\<lparr>c_peer := s\<rparr>)"
  "keeps_conn (\<lambda>c. c\<lparr>c_wants_loadavg := b\<rparr>)" "keeps_conn (\<lambda>c. c\<lparr>c_name := s\<rparr>)" "keeps_conn (\<lambda>c. c\<lparr>c_was_connected := b\<rparr>)"
  "keeps_conn (set_services s)" "keeps_conn (set_services_heard_of s)" "keeps_conn (set_commands E s)"
  "keeps_conn (connection_started now)" "keeps_conn (connection_ended now)" "keeps_conn (count_failure now)"
  "keeps_conn (\<lambda>c. (connection_started now c)\<lparr>c_type := t, c_server_name := s, c_my_address := a\<rparr>)"
  "keeps_conn (\<lambda>c. (connection_started now c)\<lparr>c_type := t\<rparr>)"
  "keeps_conn (\<lambda>c. connection_ended now (c\<lparr>c_type := t\<rparr>))"
  "keeps_conn (\<lambda>c. c\<lparr>c_was_connected := b, c_failures := 0, c_failure_start_time := 0, c_flagged := False, c_enabled := e\<rparr>)"
  "keeps_conn (\<lambda>c. if c_wait c < 3600 * 1000000
       then c\<lparr>c_wait := c_wait c * 2, c_timeout_delay := c_wait c * 2\<rparr> else c)"
  "keeps_conn (\<lambda>c. (connection_started now (if c_kind c = Service_conn then c\<lparr>c_named := True\<rparr> else c))
     \<lparr>c_name := s, c_type := t\<rparr>)"
  by (auto simp: keeps_conn_def conn_ok_def set_services_def set_services_heard_of_def set_commands_def
      connection_started_def connection_ended_def count_failure_def Let_def)

context router_evolution
begin

lemma evolves_fold: "(\<And>x r. evolves now r (f x r)) \<Longrightarrow> evolves now r (fold f xs r)"
proof (induction xs arbitrary: r)
  case (Cons x xs)
  then show ?case
    using evolves_trans [of now r "f x r" "fold f xs (f x r)"] by simp
qed auto

section \<open>Broadcasting\<close>

lemma kept_received:
  assumes "broadcast_received E m r = Inr (Some (msgid, timeout, informed, hops, r1))"
  shows "evolves (time_now E) r r1"
  using assms evolves_remember [of r _ "time_now E"]
  by (auto simp: broadcast_received_def rbind_Inr_iff Let_def split: if_splits)

lemma evolves_broadcast_one: "evolves now (snd s) (snd (broadcast_one m all remote i s))"
  by (auto simp: broadcast_one_def Let_def split: network_type.split)

lemma evolves_broadcast_loop: "evolves now (snd s) (snd (fold (broadcast_one m all remote) is s))"
proof (induction "is" arbitrary: s)
  case (Cons i "is")
  show ?case
    using evolves_trans [OF evolves_broadcast_one Cons.IH] by simp
qed auto

lemma evolves_sequence: "evolves now r (r\<lparr>r_sequence := i\<rparr>)"
  by (simp add: evolves_aside)

lemma kept_broadcast: "unless_exn (broadcast_message E m accepting r) (evolves (time_now E) r)"
proof -
  have "evolves (time_now E) r r'" if run: "broadcast_message E m accepting r = Inr r'" for r'
  proof -
    obtain received where rec: "broadcast_received E m r = Inr received"
      using run by (auto simp: broadcast_message_def rbind_Inr_iff)
    show ?thesis
    proof (cases received)
      case None
      then show ?thesis using run rec by (simp add: broadcast_message_def evolves_refl)
    next
      case (Some p)
      obtain msgid timeout informed hops r1 where p: "p = (msgid, timeout, informed, hops, r1)"
        by (cases p) auto
      let ?all = "hops < 5 \<and> broadcast_destination m = ''*''"
      let ?remote = "hops < 5 \<and> (?all \<or> broadcast_destination m = ''?'')"
      define s where "s = (if accepting = []
        then fold (broadcast_one m ?all ?remote) (r_connections r1) ((skip_empty (split_on CHR '','' informed), []), r1)
        else (broadcast_accepting r1 accepting (skip_empty (split_on CHR '','' informed), []), r1))"
      have r1: "evolves (time_now E) r r1"
        using kept_received rec Some p by blast
      have r2: "evolves (time_now E) r1 (snd s)"
        using evolves_broadcast_loop [where s = "((skip_empty (split_on CHR '','' informed), []), r1)"]
        by (auto simp: s_def)
      let ?r3 = "(snd s)\<lparr>r_sequence := r_sequence (snd s) + 1\<rparr>"
      have "r' = snd s \<or> (\<exists>copy. r' = fold (\<lambda>i. send_on i copy) (snd (fst s)) ?r3)"
        using run rec Some p
        by (auto simp: broadcast_message_def Let_def rbind_Inr_iff s_def [symmetric] split: if_splits)
      moreover have "evolves (time_now E) ?r3 (fold (\<lambda>i. send_on i copy) (snd (fst s)) ?r3)" for copy
        by (rule evolves_fold) (rule evolves_send)
      ultimately show ?thesis
        using evolves_trans [OF r1 r2] evolves_trans evolves_sequence by blast
    qed
  qed
  then show ?thesis by (simp add: unless_exn_iff)
qed

section \<open>The cluster\<close>

lemmas evolves_upds = evolves_upd [OF keeps_conn_simps(1)] evolves_upd [OF keeps_conn_simps(2)]

lemma evolves_send_status: "evolves now r (send_status_to_all m r)"
  unfolding send_status_to_all_def by (rule evolves_fold) auto

lemma kept_send_status: "unless_exn (send_status i r) (evolves now r)"
  unfolding send_status_def by (intro router_steps evolves_send_status)

lemma kept_reply_status: "unless_exn (reply_status name sc reply r) (evolves now r)"
  unfolding reply_status_def by (intro router_steps evolves_send evolves_refl)

lemma kept_announce: "unless_exn (announce_status E status reply r) (evolves (time_now E) r)"
  unfolding announce_status_def
  by (rule unless_bind_value, cases reply) (auto simp: kept_broadcast intro!: router_steps)

lemma kept_cluster_status: "unless_exn (cluster_status E reply r) (evolves (time_now E) r)"
proof -
  have a: "evolves (time_now E) r (if b then r\<lparr>r_cluster_status := s\<rparr> else r)"
      "evolves (time_now E) r (if b then r\<lparr>r_cluster_complete := s\<rparr> else r)" for b s r
    by (simp_all add: evolves_aside evolves_refl)
  have b: "evolves (time_now E) r (if c then (if b then r\<lparr>r_total_count_sent := n\<rparr> else r)\<lparr>r_status_file := f r\<rparr>
      else if b then r\<lparr>r_total_count_sent := n\<rparr> else r)" for b c n f r
    by (rule evolves_aside) (simp add: aside_def)
  show ?thesis
    unfolding cluster_status_def Let_def
    by (rule unless_bind_router, rule unless_if, rule unless_trans [OF a(1)], rule kept_announce,
        rule unless_Inr, rule a(1), rule unless_bind_router, rule unless_if, rule unless_trans [OF a(2)],
        rule kept_announce, rule unless_Inr, rule a(2), rule unless_Inr) (simp add: evolves_aside aside_def)
qed

lemma kept_new_remote:
  "unless_exn (new_remote E (ip_brackets (a :: addr)) r) (evolves now r)"
  unfolding new_remote_def Let_def
  by (intro unless_bind_value unless_Inr evolves_smaller) (simp_all add: conn_ok_def new_connection_def)

lemma evolves_new_gossip:
  assumes "map_of (r_all_ips r) (ip_brackets (a :: addr)) = None"
  shows "evolves now r (new_gossip (ip_brackets a) b (r\<lparr>r_all_ips := om_put (ip_brackets a) port (r_all_ips r)\<rparr>))"
  using evolves_gossip [OF _ _ assms] by (simp add: new_gossip_def conn_ok_def new_connection_def)

lemma evolves_reconnect: "evolves now r (reconnect E i r)"
  by (simp add: reconnect_def evolves_upd evolves_refl)

lemma kept_add_remote: "unless_exn (add_remote_communicator E location r) (evolves now r)"
proof -
  note new = unless_trans [OF evolves_all_ips kept_new_remote] evolves_new_gossip
  show ?thesis
    unfolding add_remote_communicator_def Let_def
    by (auto intro!: unless_bind_value unless_if new evolves_reconnect split: option.split)
qed

lemma evolves_retry_after: "evolves now r (retry_after delay address r)"
  by (auto simp: retry_after_def split: option.split intro: evolves_upd)

lemma kept_unreachable: "unless_exn (server_unreachable E address r) (evolves (time_now E) r)"
  unfolding server_unreachable_def by (intro unless_bind_value kept_broadcast)

lemma evolves_gossip_received: "evolves now r (gossip_received address r)"
  unfolding gossip_received_def
  by (auto split: option.split intro: evolves_erase_gossip)

lemma evolves_forget: "evolves now r (forget_remote_connection location r)"
  unfolding forget_remote_connection_def
  using evolves_trans [OF evolves_remove evolves_erase_smaller] by (auto simp: remove_connection_def split: option.split)

lemma kept_save_neighbors: "unless_exn (save_neighbors r) (evolves now r)"
  by (simp add: save_neighbors_def evolves_aside)

lemma evolves_put_neighbor: "evolves now r (put_neighbor s r)"
  unfolding put_neighbor_def by (rule evolves_neighbors)

lemma kept_read_lines: "unless_exn (read_neighbor_lines E ls r) (evolves now r)"
proof (induction ls arbitrary: r)
  case (Cons l ls)
  show ?case
    by (simp only: read_neighbor_lines.simps)
      (intro unless_if Cons.IH unless_bind_router, rule unless_trans [OF evolves_put_neighbor kept_add_remote])
qed auto

lemma kept_read_neighbors: "unless_exn (read_neighbors E r) (evolves now r)"
proof -
  have a: "evolves now r (r\<lparr>r_neighbors_read := True\<rparr>)" by (simp add: evolves_aside)
  show ?thesis
    unfolding read_neighbors_def
    by (intro unless_if unless_Inr evolves_refl) (rule unless_trans [OF a kept_read_lines])
qed

lemma kept_neighbor_list:
  "unless_exn (add_neighbor_list E ns (b, r)) (\<lambda>(_, r1). evolves now r r1)"
proof (induction ns arbitrary: b r)
  case (Cons n ns)
  have "unless_exn (rbind x (\<lambda>r. add_neighbor_list E ns (True, r))) (\<lambda>(_, r1). evolves now r r1)"
    if "unless_exn x (evolves now r)" for x
    using that
  proof (rule unless_exn_rbind)
    fix r1 assume "evolves now r r1"
    then show "unless_exn (add_neighbor_list E ns (True, r1)) (\<lambda>(_, r1). evolves now r r1)"
      using Cons.IH [of True r1] evolves_trans by (auto elim!: unless_exn_mono)
  qed
  note rest = this [OF unless_trans [OF evolves_put_neighbor kept_add_remote]]
  show ?case
    by (simp only: add_neighbor_list.simps snd_conv) (intro unless_if Cons.IH rest)
qed auto

lemma kept_add_neighbors: "unless_exn (add_neighbors E s r) (evolves now r)"
  unfolding add_neighbors_def
  by (intro unless_bind_router kept_read_neighbors unless_if unless_Inr evolves_refl unless_bind_pair
      kept_neighbor_list) (simp add: kept_save_neighbors evolves_refl)

lemma kept_remove_neighbor: "unless_exn (remove_neighbor s r) (evolves now r)"
  unfolding remove_neighbor_def
  by (intro unless_bind_router unless_if unless_Inr evolves_refl unless_trans [OF evolves_neighbors(2) kept_save_neighbors]
      evolves_trans [OF evolves_gossip_received evolves_forget])

lemma evolves_refresh: "evolves now r (refresh_heard_of r)"
  by (simp add: refresh_heard_of_def Let_def evolves_aside)

lemma kept_register_loadavg: "unless_exn (register_for_loadavg ip r) (evolves now r)"
  unfolding register_for_loadavg_def
  by (auto split: option.split intro!: unless_bind_value)

lemma kept_listen_ips: "unless_exn (listen_loadavg_ips ips r) (evolves now r)"
proof (induction ips arbitrary: r)
  case (Cons ip ips)
  have a: "evolves now r (r\<lparr>r_registered_for_loadavg := names\<rparr>)" for names by (simp add: evolves_aside)
  show ?case
    by (simp only: listen_loadavg_ips.simps)
      (intro unless_if Cons.IH unless_bind_router, rule unless_trans [OF a kept_register_loadavg])
qed auto

lemma kept_listen_loadavg: "unless_exn (listen_loadavg m r) (evolves now r)"
  unfolding listen_loadavg_def by (intro unless_bind_value kept_listen_ips)

lemma kept_save_loadavg: "unless_exn (save_loadavg E m r) (evolves now r)"
  unfolding save_loadavg_def by (intro unless_bind_value unless_Inr evolves_refl)

lemma evolves_mark_done: "evolves now r (mark_done i r)"
  unfolding mark_done_def by (rule evolves_upd) simp

lemma kept_shutdown_one: "unless_exn (shutdown_one E quitting i r) (evolves now r)"
  unfolding shutdown_one_def Let_def
  by (auto split: connection_type.split intro!: unless_if unless_bind_value evolves_mark_done
      evolves_trans [OF evolves_send evolves_mark_done] evolves_trans [OF evolves_mark_done evolves_send])

lemma kept_shutdown_all: "unless_exn (shutdown_all E quitting is r) (evolves now r)"
  by (induction "is" arbitrary: r)
    (simp add: evolves_refl, simp only: shutdown_all.simps, intro unless_bind_router kept_shutdown_one)

lemma kept_shutdown: "unless_exn (shutdown E quitting r) (evolves now r)"
  unfolding shutdown_def Let_def
  by (intro unless_bind_router unless_Inr evolves_fold evolves_remove,
      rule unless_trans [OF evolves_trans [OF evolves_shutdown evolves_stop_gossiping] kept_shutdown_all])

lemma kept_process_connected: "unless_exn (process_connected i r) (evolves now r)"
proof -
  have a: "evolves now r (if b then send_on i m r else r)" for b m by (simp add: evolves_send evolves_refl)
  show ?thesis
    unfolding process_connected_def
    by (intro unless_bind_value unless_trans [OF a kept_send_status])
qed

end

end
