(* ===== verification/RouterRuns.thy ===== *)
theory RouterRuns
  imports RouterKept
begin

text \<open>The handlers of messages, the events and the runs of the router keep its invariant.\<close>

section \<open>Handlers\<close>

text \<open>What an evolution has to allow when a service registers: sending what was kept for it and forgetting what is stale.\<close>

definition register_kept :: "(int \<Rightarrow> router \<Rightarrow> router \<Rightarrow> bool) \<Rightarrow> int \<Rightarrow> message \<Rightarrow> bool" where
  "register_kept R now m \<longleftrightarrow>
     (\<forall>i s r. m_command m = ''REGISTER'' \<longrightarrow> get_parameter m ''service'' = Inr s \<longrightarrow> R now r (send_cached i s (drop_stale now r)))"

definition event_kept :: "(int \<Rightarrow> router \<Rightarrow> router \<Rightarrow> bool) \<Rightarrow> int \<Rightarrow> router_action \<Rightarrow> bool" where
  "event_kept R now ev \<longleftrightarrow>
     (case ev of Message_on i m \<Rightarrow> register_kept R now m | Udp_message i m \<Rightarrow> register_kept R now m | _ \<Rightarrow> True)"

context router_evolution
begin

abbreviation kept_by :: "('a env_scheme) \<Rightarrow> router res \<Rightarrow> router \<Rightarrow> bool" where
  "kept_by E x r \<equiv> unless_exn x (evolves (time_now E) r)"

lemma kept_set_if_given:
  "(\<And>v r. unless_exn (f v r) (evolves now r)) \<Longrightarrow> unless_exn (set_if_given m name f r) (evolves now r)"
  unfolding set_if_given_def by (intro unless_bind_value unless_if unless_Inr evolves_refl)

lemma kept_upd: "keeps_conn f \<Longrightarrow> unless_exn (Inr (upd_conn i f r)) (evolves now r)"
  by (simp add: evolves_upd)

lemma kept_learn: "unless_exn (learn_services E i m r) (evolves now r)"
  unfolding learn_services_def
  by (intro unless_bind_router kept_set_if_given kept_upd keeps_conn_simps kept_add_neighbors unless_Inr evolves_refresh)

lemma kept_send_back: "unless_exn (send_back i m r) (evolves now r)"
  by (simp add: send_back_def evolves_send)

lemma kept_accept: "kept_by E (msg_accept E i m r) r"
  unfolding msg_accept_def Let_def
  by (intro unless_bind_value unless_if unless_Inr evolves_refl unless_bind_router kept_send_back
      kept_register_loadavg kept_broadcast,
      rule unless_trans [OF evolves_upd [OF keeps_conn_simps(19)] kept_learn])

lemma unless_bind_first:
  fixes x :: "router res"
  assumes "unless_exn x (evolves now r)" "\<And>r1. unless_exn (f r1) (\<lambda>q. evolves now r1 (snd q))"
  shows "unless_exn (rbind x f) (\<lambda>q. evolves now r (snd q))"
proof (rule unless_exn_rbind [OF assms(1)])
  fix r1 assume "evolves now r r1"
  then show "unless_exn (f r1) (\<lambda>q. evolves now r (snd q))"
    using evolves_trans by (blast intro: unless_exn_mono [OF assms(2)])
qed

lemma kept_accept_connect:
  "unless_exn (accept_connect E i m reply r) (\<lambda>q. evolves now r (snd q))"
  unfolding accept_connect_def Let_def
  by (rule unless_bind_first, rule unless_trans [OF evolves_upd [OF keeps_conn_simps(20)] kept_learn],
      rule unless_bind_value, rule unless_bind_value, rule unless_bind_first,
      rule unless_trans [OF evolves_upd [OF keeps_conn_simps(7)] kept_register_loadavg],
      rule unless_bind_first, rule kept_add_neighbors) (simp add: evolves_gossip_received)

lemma kept_answer_connect:
  "unless_exn (answer_connect E i m name r) (\<lambda>q. evolves now r (snd (snd q)))"
proof -
  let ?r1 = "upd_conn i (\<lambda>c. c\<lparr>c_server_name := name\<rparr>) r"
  have r1: "evolves now r ?r1" by (rule evolves_upd) simp
  have "unless_exn (rbind (accept_connect E i m reply ?r1) (\<lambda>(reply, r2). Inr (False, reply, r2)))
      (\<lambda>q. evolves now r (snd (snd q)))" for reply
  proof (rule unless_exn_rbind [OF kept_accept_connect])
    fix p assume "evolves now ?r1 (snd p)"
    then show "unless_exn (case p of (reply, r2) \<Rightarrow> Inr (False, reply, r2)) (\<lambda>q. evolves now r (snd (snd q)))"
      using evolves_trans [OF r1] by (cases p) simp
  qed
  note accepted = this
  show ?thesis
    unfolding answer_connect_def Let_def
    by (intro unless_if unless_bind_value accepted) (simp_all add: evolves_refl r1)
qed

lemma kept_connect: "kept_by E (msg_connect E i m r) r"
proof -
  have tail: "kept_by E (rbind (send_back i reply r1) (\<lambda>r2.
       rbind (if refuse then Inr r2
              else rbind help_message (\<lambda>help. rbind (send_back i help r2) (\<lambda>r3.
                  rbind (new_remote_connection name) (\<lambda>news.
                  rbind (broadcast_message E news [] r3) (cluster_status E None)))))
         (send_status i))) r1" for refuse reply r1 name
    by (intro unless_bind_router unless_bind_value unless_if unless_Inr evolves_refl kept_send_back
        kept_broadcast kept_cluster_status kept_send_status)
  have "kept_by E (rbind (answer_connect E i m name r) (\<lambda>(refuse, reply, r1).
       rbind (send_back i reply r1) (\<lambda>r2.
       rbind (if refuse then Inr r2
              else rbind help_message (\<lambda>help. rbind (send_back i help r2) (\<lambda>r3.
                  rbind (new_remote_connection name) (\<lambda>news.
                  rbind (broadcast_message E news [] r3) (cluster_status E None)))))
         (send_status i)))) r" for name
  proof (rule unless_exn_rbind [OF kept_answer_connect])
    fix p :: "bool \<times> message \<times> router" assume "evolves (time_now E) r (snd (snd p))"
    then show "kept_by E (case p of (refuse, reply, r1) \<Rightarrow> rbind (send_back i reply r1) (\<lambda>r2.
       rbind (if refuse then Inr r2
              else rbind help_message (\<lambda>help. rbind (send_back i help r2) (\<lambda>r3.
                  rbind (new_remote_connection name) (\<lambda>news.
                  rbind (broadcast_message E news [] r3) (cluster_status E None)))))
         (send_status i))) r"
      using unless_trans [OF _ tail] by (cases p) simp
  qed
  then show ?thesis
    unfolding msg_connect_def by (intro unless_bind_value unless_if unless_Inr evolves_refl)
qed

lemma kept_disconnected:
  "kept_by E (rbind (if c_server_name (r_heap r4 i) = [] then Inr r4
       else rbind (build [set_command ''DISCONNECTED'', set_service ''.'', add_parameter ''server_name'' name])
              (\<lambda>m. broadcast_message E m [] r4)) (cluster_status E None)) r4"
  by (intro unless_bind_router unless_if unless_Inr evolves_refl unless_bind_value kept_broadcast kept_cluster_status)

lemma kept_disconnect: "kept_by E (msg_disconnect E i r) r"
proof -
  let ?r1 = "upd_conn i (connection_ended (current_date E)) r"
  let ?r2 = "upd_conn i (\<lambda>c. c\<lparr>c_type := CONNECTION_TYPE_DOWN\<rparr>) ?r1"
  let ?r3 = "if c_kind (r_heap ?r2 i) = Remote_conn
    then shutting_down (ip_port (c_address (r_heap ?r2 i))) ?r2 else remove_connection i ?r2"
  have r1: "evolves (time_now E) r ?r1" by (rule evolves_upd) simp
  have "evolves (time_now E) ?r1 ?r2" by (rule evolves_upd) simp
  moreover have "evolves (time_now E) ?r2 (refresh_heard_of ?r3)"
    using evolves_trans [OF evolves_retry_after evolves_refresh] evolves_trans [OF evolves_remove evolves_refresh]
    by (simp add: shutting_down_def)
  ultimately have r4: "evolves (time_now E) ?r1 (refresh_heard_of ?r3)" by (rule evolves_trans)
  note gone = unless_trans [OF r4 kept_disconnected]
  show ?thesis
    unfolding msg_disconnect_def Let_def
    by (rule unless_trans [OF r1], rule unless_bind_router, rule unless_if, rule unless_Inr, rule evolves_refl,
        rule gone, rule kept_send_status)
qed

lemma kept_forget: "kept_by E (msg_forget E m r) r"
  unfolding msg_forget_def
  by (intro unless_bind_value unless_bind_router kept_remove_neighbor unless_if unless_Inr evolves_refl kept_broadcast)

lemma kept_gossip: "kept_by E (msg_gossip E i m r) r"
  unfolding msg_gossip_def
  by (intro unless_bind_value unless_bind_router unless_if unless_Inr evolves_refl kept_add_neighbors
      kept_add_remote kept_send_back)

lemma kept_msg_refuse: "kept_by E (msg_refuse E i m r) r"
  unfolding msg_refuse_def shutting_down_def too_busy_def Let_def
  by (intro unless_if unless_bind_value unless_Inl) (simp add: evolves_retry_after)

lemma kept_register:
  assumes "m_command m = ''REGISTER''" "register_kept evolves (time_now E) m"
  shows "kept_by E (msg_register E i m r) r"
proof -
  have r: "evolves (time_now E) r (send_cached i s (drop_stale (time_now E) r))"
    if "get_parameter m ''service'' = Inr s" for s r
    using assms that by (simp add: register_kept_def)
  have "kept_by E (rbind (get_parameter m ''service'') f) r"
    if "\<And>s. get_parameter m ''service'' = Inr s \<Longrightarrow> kept_by E (f s) r" for f :: "string \<Rightarrow> router res" and r
    using that by (cases "get_parameter m ''service''") simp_all
  note service = this
  show ?thesis
    unfolding msg_register_def Let_def
    by (intro unless_bind_any [where 'v = bool] unless_bind_any [where 'v = int] unless_if unless_Inr evolves_refl service,
        intro unless_bind_any [where 'v = message],
        rule unless_bind_router, rule unless_trans [OF evolves_upd [OF keeps_conn_simps(24)] kept_send_back],
        intro unless_bind_any [where 'v = message] unless_bind_router kept_send_back kept_send_status unless_Inr r)
qed

lemma evolves_wants: "evolves now r (set_wants_loadavg b i r)" "evolves now r (enable_timer b r)"
  by (simp_all add: set_wants_loadavg_def enable_timer_def evolves_upd)

lemma kept_unregister_loadavg: "kept_by E (msg_unregister_for_loadavg i r) r"
  unfolding msg_unregister_for_loadavg_def Let_def
  by (rule unless_bind_value) (simp add: evolves_wants evolves_trans [OF evolves_wants(1) evolves_wants(2)])

lemma kept_service_status: "kept_by E (msg_service_status i m r) r"
  unfolding msg_service_status_def
  by (intro unless_bind_value unless_if unless_Inr evolves_refl) (auto split: option.split simp: kept_reply_status)

lemma kept_unregister: "kept_by E (msg_unregister E i m r) r"
  unfolding msg_unregister_def
  by (intro unless_bind_value unless_if unless_Inr evolves_refl unless_bind_router
      evolves_trans [OF evolves_upd [OF keeps_conn_simps(11)] evolves_remove],
      rule unless_trans [OF evolves_upd [OF keeps_conn_simps(21)] kept_send_status])

lemma kept_public_ip: "kept_by E (msg_public_ip i r) r"
  unfolding msg_public_ip_def by (intro unless_bind_value unless_if unless_Inr unless_Inl evolves_send)

lemma kept_commands: "kept_by E (msg_commands E' i m r) r"
  unfolding msg_commands_def Let_def
  by (intro unless_bind_value unless_if unless_Inr unless_Inl evolves_refl evolves_upd keeps_conn_simps)

lemma kept_help: "kept_by E (msg_help i r) r"
  unfolding msg_help_def by (intro unless_bind_value kept_send_back)

lemma kept_unknown: "kept_by E (unknown_command i udp command r) r"
  unfolding unknown_command_def by (intro unless_bind_value unless_if unless_Inr evolves_refl kept_send_back)

lemma kept_tcp_only: "kept_by E x r \<Longrightarrow> kept_by E (tcp_only i udp command x r) r"
  unfolding tcp_only_def by (intro unless_if unless_Inr evolves_refl kept_unknown)

lemma kept_wants: "kept_by E (Inr (enable_timer b (set_wants_loadavg b' i r))) r"
  by (simp add: evolves_trans [OF evolves_wants(1) evolves_wants(2)])

lemma kept_restart: "kept_by E (shutdown E' q (r\<lparr>r_force_restart := b\<rparr>)) r"
  by (rule unless_trans [OF _ kept_shutdown]) (simp add: evolves_aside)

lemma kept_router_command:
  assumes "register_kept evolves (time_now E) m"
  shows "kept_by E (router_command E i udp m r) r"
  unfolding router_command_def Let_def
  by (intro unless_if kept_tcp_only kept_accept kept_cluster_status kept_commands kept_connect kept_disconnect
      kept_forget kept_gossip kept_help kept_save_loadavg kept_listen_loadavg unless_Inr evolves_refl
      kept_public_ip kept_msg_refuse kept_register assms kept_wants kept_restart kept_shutdown kept_service_status
      kept_unregister kept_unregister_loadavg kept_unknown unless_bind_value)

lemma kept_quitting: "kept_by E (quitting_reply i udp command r) r"
  unfolding quitting_reply_def
  by (intro unless_bind_router unless_if unless_Inr evolves_refl unless_bind_value kept_send_back)
    (simp add: evolves_refl evolves_remove)

lemma kept_cache_message: "kept_by E (cache_message E' m r) r"
  unfolding cache_message_def
  by (intro unless_bind_value unless_Inr) (simp add: evolves_refl evolves_cached)

lemma kept_report: "kept_by E (transmission_report i m r) r"
  unfolding transmission_report_def
  by (intro unless_bind_value unless_if unless_Inr evolves_refl kept_send_back)

lemma kept_forward: "kept_by E (forward_message E i server m r) r"
proof -
  have "kept_by E (case verify_command j m r of Inl _ \<Rightarrow> Inr r | Inr _ \<Rightarrow> Inr (send_on j m r)) r" for j
    by (cases "verify_command j m r") (simp_all add: evolves_refl evolves_send)
  note found = this
  have "kept_by E (case route of Found_service j \<Rightarrow>
            (case verify_command j m r of Inl _ \<Rightarrow> Inr r | Inr _ \<Rightarrow> Inr (send_on j m r))
        | Remotes accepting \<Rightarrow>
            if (server = [] \<or> server = ''*'' \<or> server = r_server_name r)
               \<and> map_of (r_local_services_list r) (m_service m) \<noteq> None
            then rbind (cache_message E m r) (transmission_report i m)
            else if server = r_server_name r then transmission_report i m r
            else if accepting = [] then Inr r
            else broadcast_message E m accepting r) r" for route
    by (cases route) (simp_all only: route.case found, intro unless_if unless_bind_router kept_cache_message
        kept_report unless_Inr evolves_refl kept_broadcast)
  then show ?thesis
    unfolding forward_message_def Let_def
    by (intro unless_if unless_Inr evolves_refl kept_broadcast unless_bind_value)
qed

lemma kept_process_message: "register_kept evolves (time_now E) m \<Longrightarrow> kept_by E (process_message E i udp m r) r"
  unfolding process_message_def Let_def
  by (intro unless_bind_value unless_if unless_Inr evolves_refl kept_quitting kept_router_command kept_forward)

section \<open>Events\<close>

lemma kept_service_message:
  assumes "register_kept evolves (time_now E) m"
  shows "kept_by E (service_message E i m r) r"
proof -
  have "kept_by E (rbind (chain [set_sent_from_server s, set_sent_from_service t] m) (\<lambda>m. process_message E i False m r)) r" for s t
  proof (cases "chain [set_sent_from_server s, set_sent_from_service t] m")
    case (Inr m')
    then have "m_command m' = m_command m" "m_parameters m' = m_parameters m"
      by (auto simp: rbind_Inr_iff set_sent_from_server_def set_sent_from_service_def split: if_splits)
    then have "register_kept evolves (time_now E) m'"
      using assms by (simp add: register_kept_def get_parameter_def)
    then show ?thesis using Inr kept_process_message by simp
  qed simp
  then show ?thesis unfolding service_message_def by (intro unless_if kept_process_message assms)
qed

lemma kept_remote_message:
  assumes "register_kept evolves (time_now E) m"
  shows "kept_by E (remote_message E i m r) r"
proof -
  have "evolves now r (if b then upd_conn i (\<lambda>c. c\<lparr>c_peer := s\<rparr>) r else r)" for now b s
    by (simp add: evolves_upd evolves_refl)
  then show ?thesis
    unfolding remote_message_def by (rule unless_trans [OF _ kept_process_message [OF assms]])
qed

lemma kept_accept_connection: "kept_by E (accept_connection E' local remote_address r) r"
  unfolding accept_connection_def Let_def
  by (intro unless_bind_value unless_if unless_Inr evolves_refl evolves_add) (simp_all add: conn_ok_def is_base_def new_connection_def)

lemma kept_service_down: "unless_exn (service_down i r) (evolves now r)"
  unfolding service_down_def by (rule unless_trans [OF evolves_upd [OF keeps_conn_simps(6)] kept_send_status])

lemma kept_service_hup: "kept_by E (service_hup E i r) r"
proof -
  have "kept_by E (rbind x (service_down i)) (remove_connection i r)"
    if "kept_by E x (remove_connection i r)" for x
    by (rule unless_bind_router [OF that kept_service_down])
  note removed = unless_trans [OF evolves_remove this]
  show ?thesis
    unfolding service_hup_def Let_def
    by (rule removed)
      (intro unless_if unless_bind_value unless_bind_router kept_broadcast kept_cluster_status unless_Inr evolves_refl)
qed

lemma kept_remote_connected: "unless_exn (remote_connected i r) (evolves now r)"
  unfolding remote_connected_def
  by (rule unless_bind_router, rule unless_trans [OF evolves_upd [OF keeps_conn_simps(22)] kept_process_connected],
      rule unless_Inr, rule evolves_upd) simp

lemma kept_remote_failed: "kept_by E (remote_failed E i r) r"
proof -
  have "kept_by E (rbind x (\<lambda>r2. Inr (upd_conn i (count_failure now) r2))) (upd_conn i (\<lambda>c. c\<lparr>c_enabled := True\<rparr>) r)"
    if "kept_by E x (upd_conn i (\<lambda>c. c\<lparr>c_enabled := True\<rparr>) r)" for x now
    by (rule unless_bind_router [OF that], rule unless_Inr, rule evolves_upd) simp
  note counted = unless_trans [OF evolves_upd [OF keeps_conn_simps(5)] this]
  show ?thesis
    unfolding remote_failed_def Let_def
    by (rule counted, intro unless_if unless_bind_value unless_Inr evolves_refl)
      (rule unless_trans [OF evolves_upd [OF keeps_conn_simps(12)] kept_broadcast])
qed

lemma kept_gossip_connected: "unless_exn (gossip_connected i r) (evolves now r)"
  unfolding gossip_connected_def
  by (intro unless_bind_value unless_Inr evolves_trans [OF evolves_upd [OF keeps_conn_simps(5)] evolves_send])

lemma kept_gossip_failed: "kept_by E (gossip_failed E i r) r"
  unfolding gossip_failed_def by (rule unless_trans [OF evolves_upd [OF keeps_conn_simps(5)] kept_unreachable])

lemma evolves_gossip_timeout: "evolves now r (gossip_timeout i r)"
  unfolding gossip_timeout_def by (rule evolves_upd) (rule keeps_conn_simps(23))

lemma kept_event:
  assumes "event_kept evolves (time_now E) ev"
  shows "kept_by E (router_event E ev r) r"
proof (cases ev)
  case (Message_on i m)
  then show ?thesis
    using assms
    by (cases "c_kind (r_heap r i)") (simp_all add: event_kept_def message_on_def kept_service_message kept_remote_message
        gossip_message_def evolves_gossip_received evolves_refl)
next
  case (Broken i)
  then show ?thesis
    using unless_trans [OF evolves_remove kept_service_down] by (simp add: evolves_refl)
qed (use assms in \<open>simp_all add: event_kept_def kept_accept_connection kept_process_message kept_service_hup connected_def
    not_connected_def kept_remote_connected kept_gossip_connected kept_remote_failed kept_gossip_failed evolves_gossip_timeout
    evolves_refl kept_shutdown\<close>)

lemma run_evolves:
  "router_run ps r = Inr r' \<Longrightarrow>
   \<forall>p \<in> set ps. time_now (fst p) \<le> now \<and> event_kept evolves (time_now (fst p)) (snd p) \<Longrightarrow> evolves now r r'"
proof (induction ps arbitrary: r)
  case (Cons p ps)
  obtain r1 where r1: "router_event (fst p) (snd p) r = Inr r1" "router_run ps r1 = Inr r'"
    using Cons.prems(1) by (auto simp: rbind_Inr_iff)
  have "evolves (time_now (fst p)) r r1" using unless_exnD [OF kept_event r1(1)] Cons.prems(2) by simp
  then have "evolves now r r1" using evolves_earlier Cons.prems(2) by auto
  then show ?case using Cons.IH [OF r1(2)] Cons.prems(2) evolves_trans by auto
qed (simp add: evolves_refl)

lemma kept_init: "kept_by E (init_router E listen explicit r) r"
proof -
  have a: "evolves now r (r\<lparr>r_explicit_neighbors := s\<rparr>)" for now r s by (simp add: evolves_aside)
  have "kept_by E (case listen of None \<Rightarrow> Inr r | Some address \<Rightarrow> add_neighbors E address r) r"
    by (cases listen) (simp_all add: evolves_refl kept_add_neighbors)
  note listens = this
  show ?thesis
    unfolding init_router_def
    by (rule unless_bind_router [OF listens], rule unless_bind_router,
        rule unless_trans [OF a kept_add_neighbors], rule kept_cluster_status)
qed

end

section \<open>The invariant\<close>

interpretation sound: router_evolution rgood
  by unfold_locales
    (auto intro: rgood_trans rgood_earlier rgood_upd rgood_add rgood_smaller rgood_gossip rgood_aside rgood_cache
      rgood_neighbors rgood_shutdown rgood_erase_smaller rgood_erase_gossip rgood_all_ips rgood_stop_gossiping rgood_remember)

lemma rgood_register: "register_kept rgood now m"
proof -
  have "rgood now r (send_cached i s r)" for i s r
    unfolding send_cached_def by (rule rgood_trans [OF rgood_cache sound.evolves_fold]) auto
  then show ?thesis
    using rgood_trans [OF rgood_cache] by (fastforce simp: register_kept_def drop_stale_def)
qed

lemma rgood_event: "event_kept rgood now ev"
  by (simp add: event_kept_def rgood_register split: router_action.split)

lemma run_kept:
  assumes "router_run ps r = Inr r'" "rwf r" "\<forall>p \<in> set ps. time_now (fst p) \<le> now"
  shows "rwf r' \<and> revolves now r r'"
  using sound.run_evolves [OF assms(1), of now] assms(2,3) rgood_event by (simp add: rgood_def)

lemma new_router_wf:
  assumes "\<forall>c \<in> set own. conn_ok c \<and> c_kind c = Own_conn"
  shows "rwf (new_router own timer name public me services list explicit file maximum debug)"
proof -
  have "conn_ok (if i < length own then own ! i else new_connection Own_conn [] me)" for i
    using assms by (simp add: conn_ok_def new_connection_def)
  then show ?thesis
    using assms by (auto simp: rwf_def new_router_def ips_ok_def conns_known_def)
qed

end
