(* ===== verification/RouterProps.thy ===== *)
theory RouterProps
  imports RouterRuns
begin

text \<open>
  What the router does with messages: a broadcast is passed on once and to computers that do not
  have it, a message for a service of this computer goes to it or waits for it, and what happens
  when the router stops, restarts, or is refused by another one.
\<close>

section \<open>Literal names\<close>

lemma router_commands_lit:
  "lit_command ''HELP''" "lit_command ''READY''" "lit_command ''STATUS''" "lit_command ''UNKNOWN''"
  "lit_command ''GOSSIP''" "lit_command ''SHUTDOWN''" "lit_command ''DISCONNECT''" "lit_command ''DISCONNECTING''"
  by (simp_all add: lit_command_def verify_name_def name_char_def first_digit_def less_char_def less_eq_char_def)

lemma router_params_lit:
  "lit_param ''broadcast_msgid''" "lit_param ''broadcast_timeout''" "lit_param ''broadcast_hops''"
  "lit_param ''broadcast_originator''" "lit_param ''broadcast_informed_neighbors''" "lit_param ''version''"
  "lit_param ''my_address''" "lit_param ''transmission_report''" "lit_param ''up_since''"
  "lit_param ''down_since''" "lit_param ''shutdown''"
  by (simp_all add: lit_param_def verify_name_def name_char_def first_digit_def less_char_def less_eq_char_def)

lemmas router_simps = message_simps router_commands_lit router_params_lit

section \<open>Broadcasts\<close>

text \<open>The identifier and the date a broadcast carries.\<close>

definition carries :: "('a env_scheme) \<Rightarrow> message \<Rightarrow> string \<Rightarrow> int \<Rightarrow> bool" where
  "carries E m msgid timeout \<longleftrightarrow>
     map_of (m_parameters m) ''broadcast_msgid'' = Some msgid
     \<and> get_integer_parameter (env.truncate E) m ''broadcast_timeout'' = Inr timeout"

lemma broadcast_ignored:
  assumes "carries E m msgid timeout" "timeout < time_now E \<or> map_of (r_received r) msgid \<noteq> None"
  shows "process_message E i udp m r = Inr r" "broadcast_message E m accepting r = Inr r"
proof -
  have "ignored_broadcast E m r = Inr True" "broadcast_received E m r = Inr None"
    using assms by (auto simp: carries_def ignored_broadcast_def broadcast_received_def
        has_parameter_lit [OF router_params_lit(1)] get_parameter_lit [OF router_params_lit(1)])
  then show "process_message E i udp m r = Inr r" "broadcast_message E m accepting r = Inr r"
    by (simp_all add: process_message_def broadcast_message_def)
qed

lemma sends_keep_received: "r_received (fold (\<lambda>i. send_on i copy) is r) = r_received r"
  by (induction "is" arbitrary: r) (simp_all add: send_on_def)

lemma loop_keeps_received: "r_received (snd (fold (broadcast_one m all remote) is s)) = r_received (snd s)"
  by (induction "is" arbitrary: s)
    (auto simp: broadcast_one_def send_on_def Let_def split: network_type.split)

lemma broadcast_remembers:
  assumes "broadcast_message E m accepting r = Inr r'" "carries E m msgid timeout"
    and "time_now E \<le> timeout" "map_of (r_received r) msgid = None"
  shows "map_of (r_received r') msgid = Some timeout"
proof -
  obtain received where rec: "broadcast_received E m r = Inr received"
    using assms(1) by (auto simp: broadcast_message_def rbind_Inr_iff)
  then obtain informed hops r1 where r1: "received = Some (msgid, timeout, informed, hops, r1)"
      "map_of (r_received r1) msgid = Some timeout"
    using assms(2-4)
    by (auto simp: carries_def broadcast_received_def Let_def rbind_Inr_iff map_of_om_put
        has_parameter_lit [OF router_params_lit(1)] get_parameter_lit [OF router_params_lit(1)] split: if_splits)
  have "r_received r' = r_received r1"
    using assms(1) rec r1(1)
    by (auto simp: broadcast_message_def Let_def rbind_Inr_iff sends_keep_received loop_keeps_received
        split: if_splits)
  then show ?thesis using r1(2) by simp
qed

text \<open>
  C21. A broadcast is passed on once. When a router has passed on a broadcast with an identifier it
  had not seen, then, whatever happens to it afterwards (messages, connections, other broadcasts,
  timeouts of its records), another copy with this identifier and this date changes nothing and
  sends nothing: not to the services of the computer, not to other routers.
\<close>

theorem broadcast_once:
  assumes "rwf r" "broadcast_message E m accepting r = Inr r1"
    and "carries E m msgid timeout" "map_of (r_received r) msgid = None" "time_now E \<le> timeout"
    and "router_run ps r1 = Inr r2" "\<forall>p \<in> set ps. time_now (fst p) \<le> time_now E'"
    and "carries E' m' msgid timeout"
  shows "process_message E' i udp m' r2 = Inr r2 \<and> broadcast_message E' m' accepting' r2 = Inr r2"
proof (cases "timeout < time_now E'")
  case True
  with broadcast_ignored [OF assms(8)] show ?thesis by blast
next
  case False
  have "rwf r1"
    using unless_exnD [OF sound.kept_broadcast assms(2)] assms(1) by (simp add: rgood_def)
  then have "revolves (time_now E') r1 r2"
    using run_kept [OF assms(6) _ assms(7)] by blast
  moreover have "map_of (r_received r1) msgid = Some timeout"
    by (rule broadcast_remembers [OF assms(2,3,5,4)])
  ultimately have "map_of (r_received r2) msgid = Some timeout"
    using False by (simp add: revolves_def)
  with broadcast_ignored [OF assms(8)] show ?thesis by simp
qed

section \<open>Who is informed\<close>

text \<open>
  The state of the loop: \<open>informed\<close> are the addresses at its start, what was chosen since has other
  addresses, all different, and is in the list now.
\<close>

definition address_of :: "router \<Rightarrow> nat \<Rightarrow> string" where
  "address_of r i = ip_only (c_address (r_heap r i))"

definition informs :: "router \<Rightarrow> string list \<Rightarrow> string list \<times> nat list \<Rightarrow> bool" where
  "informs r informed s \<longleftrightarrow>
     fst s = informed @ map (address_of r) (snd s)
     \<and> distinct (map (address_of r) (snd s)) \<and> (\<forall>i \<in> set (snd s). address_of r i \<notin> set informed)
     \<and> (\<forall>i \<in> set (snd s). is_base (r_heap r i))"

lemma informs_inform:
  assumes "informs r informed s" "is_base (r_heap r i)"
  shows "informs r informed (inform i (address_of r i) s)"
proof (cases "address_of r i \<in> set (fst s)")
  case False
  then have "address_of r i \<notin> set informed" "address_of r i \<notin> address_of r ` set (snd s)"
    using assms(1) by (auto simp: informs_def)
  with False assms show ?thesis by (auto simp: informs_def inform_def)
qed (use assms in \<open>simp add: inform_def\<close>)

text \<open>What is sent at once goes to services of the computer that know the command.\<close>

definition told :: "router \<Rightarrow> message \<Rightarrow> (nat \<times> message) \<Rightarrow> bool" where
  "told r m p \<longleftrightarrow> snd p = m \<and> is_service r (fst p) \<and> network (c_address (r_heap r (fst p))) = Loopback
     \<and> understand_command (r_heap r (fst p)) (m_command m)"

definition loop_ok :: "router \<Rightarrow> message \<Rightarrow> string list \<Rightarrow> (string list \<times> nat list) \<times> router \<Rightarrow> bool" where
  "loop_ok r m informed s \<longleftrightarrow> informs r informed (fst s)
     \<and> (\<exists>local. snd s = r\<lparr>r_outbox := r_outbox r @ local\<rparr> \<and> (\<forall>p \<in> set local. told r m p))"

lemma loop_ok_one:
  assumes "loop_ok r m informed s"
  shows "loop_ok r m informed (broadcast_one m all remote i s)"
proof -
  obtain local where l: "snd s = r\<lparr>r_outbox := r_outbox r @ local\<rparr>" "\<forall>p \<in> set local. told r m p"
    and inf: "informs r informed (fst s)"
    using assms by (auto simp: loop_ok_def)
  let ?c = "r_heap r i"
  have heap: "r_heap (snd s) i = ?c" using l(1) by simp
  have sent: "loop_ok r m informed (fst s, send_on i m (snd s))" if "told r m (i, m)"
    using l inf that by (auto simp: loop_ok_def send_on_def intro!: exI [of _ "local @ [(i, m)]"])
  have chosen: "loop_ok r m informed (inform i (ip_only (c_address ?c)) (fst s), snd s)" if "is_base ?c"
    using informs_inform [OF inf that] l by (auto simp: loop_ok_def address_of_def)
  show ?thesis
    using assms sent chosen heap
    by (auto simp: broadcast_one_def Let_def is_base_def told_def is_service_def split: network_type.split)
qed

lemma loop_ok_all: "loop_ok r m informed s \<Longrightarrow> loop_ok r m informed (fold (broadcast_one m all remote) is s)"
  by (induction "is" arbitrary: s) (simp_all add: loop_ok_one)

lemma loop_ok_here: "informs r informed s \<Longrightarrow> loop_ok r m informed (s, r)"
  by (auto simp: loop_ok_def intro!: exI [of _ "[]"])

lemma informs_accepting:
  assumes "informs r informed s"
  shows "informs r informed (broadcast_accepting r accepting s)"
proof -
  have "informs r informed (fold (\<lambda>i s. if is_base (r_heap r i) then inform i (ip_only (c_address (r_heap r i))) s else s) is s)"
    if "informs r informed s" for "is" s
    using that informs_inform
    by (induction "is" arbitrary: s) (simp_all add: address_of_def [symmetric])
  then show ?thesis using assms by (simp add: broadcast_accepting_def)
qed

lemma sends_outbox: "fold (\<lambda>i. send_on i copy) is r = r\<lparr>r_outbox := r_outbox r @ map (\<lambda>i. (i, copy)) is\<rparr>"
  by (induction "is" arbitrary: r) (simp_all add: send_on_def)

text \<open>The copy that is passed on says who has it.\<close>

definition names_informed :: "message \<Rightarrow> string list \<Rightarrow> bool" where
  "names_informed copy informed \<longleftrightarrow>
     map_of (m_parameters copy) ''broadcast_informed_neighbors'' = Some (join_comma informed)"

lemma copy_names_informed:
  "broadcast_copy E m msgid timeout hops informed r = Inr copy \<Longrightarrow> names_informed copy informed"
  by (auto simp: broadcast_copy_def names_informed_def rbind_Inr_iff map_of_om_put
      dest!: setter_Inr split: if_splits)

text \<open>The neighbors that are informed when a message arrives, none when it starts here.\<close>

definition informed_before :: "message \<Rightarrow> string list" where
  "informed_before m =
     (case map_of (m_parameters m) ''broadcast_msgid'' of None \<Rightarrow> []
      | Some _ \<Rightarrow> (case map_of (m_parameters m) ''broadcast_informed_neighbors'' of
          None \<Rightarrow> [] | Some s \<Rightarrow> skip_empty (split_on CHR '','' s)))"

lemma broadcast_received_informed:
  "broadcast_received E m r = Inr (Some (msgid, timeout, informed, hops, r1)) \<Longrightarrow>
   skip_empty (split_on CHR '','' informed) = informed_before m
   \<and> r_heap r1 = r_heap r \<and> r_outbox r1 = r_outbox r \<and> r_my_address r1 = r_my_address r"
  by (auto simp: broadcast_received_def informed_before_def rbind_Inr_iff Let_def skip_empty_def
      has_parameter_lit [OF router_params_lit(1)] get_parameter_lit [OF router_params_lit(1)]
      get_parameter_lit [OF router_params_lit(5)] split: if_splits option.splits)

lemma broadcast_sends:
  assumes "broadcast_message E m accepting r = Inr r'"
  obtains "r' = r"
  | local chosen copy informed where
      "r_outbox r' = r_outbox r @ local @ map (\<lambda>i. (i, copy)) chosen" "\<forall>p \<in> set local. told r m p"
      "informs r (informed_before m) (informed, chosen)"
      "chosen \<noteq> [] \<longrightarrow> names_informed copy (if ip_brackets (r_my_address r) \<in> set informed then informed
         else informed @ [ip_brackets (r_my_address r)])"
proof -
  obtain received where rec: "broadcast_received E m r = Inr received"
    using assms by (auto simp: broadcast_message_def rbind_Inr_iff)
  show thesis
  proof (cases received)
    case None
    then show thesis using that(1) assms rec by (simp add: broadcast_message_def)
  next
    case (Some p)
    obtain msgid timeout informed0 hops r1 where p: "received = Some (msgid, timeout, informed0, hops, r1)"
      using Some by (cases p) auto
    note before = broadcast_received_informed [OF rec [unfolded p]]
    let ?inf = "informed_before m"
    let ?all = "hops < 5 \<and> broadcast_destination m = ''*''"
    let ?remote = "hops < 5 \<and> (?all \<or> broadcast_destination m = ''?'')"
    define s where "s = (if accepting = []
      then fold (broadcast_one m ?all ?remote) (r_connections r1) ((?inf, []), r1)
      else (broadcast_accepting r1 accepting (?inf, []), r1))"
    have start: "informs r1 ?inf (?inf, [])" by (simp add: informs_def)
    have "loop_ok r1 m ?inf s"
      using loop_ok_all [OF loop_ok_here [OF start]] loop_ok_here [OF informs_accepting [OF start]]
      by (simp add: s_def)
    then obtain local where l: "snd s = r1\<lparr>r_outbox := r_outbox r1 @ local\<rparr>" "\<forall>p \<in> set local. told r1 m p"
      and inf: "informs r1 ?inf (fst s)" by (auto simp: loop_ok_def)
    have "address_of r1 = address_of r"
      using before by (simp add: fun_eq_iff address_of_def)
    then have told: "\<forall>p \<in> set local. told r m p" and inf: "informs r ?inf (fst (fst s), snd (fst s))"
      using l(2) inf before by (auto simp: told_def is_service_def informs_def)
    let ?me = "ip_brackets (r_my_address r)"
    let ?all_informed = "if ?me \<in> set (fst (fst s)) then fst (fst s) else fst (fst s) @ [?me]"
    have "broadcast_message E m accepting r =
        (let informed1 = fst (fst s); chosen = snd (fst s); r2 = snd s in
         if chosen = [] then Inr r2
         else let originator = ip_brackets (r_my_address r2);
              informed2 = (if originator \<in> set informed1 then informed1 else informed1 @ [originator]);
              r3 = r2\<lparr>r_sequence := r_sequence r2 + 1\<rparr> in
           rbind (broadcast_copy E m msgid timeout hops informed2 r3) (\<lambda>copy.
             Inr (fold (\<lambda>i. send_on i copy) chosen r3)))"
      by (simp only: broadcast_message_def rec p rbind_simps option.case prod.case Let_def before s_def)
    moreover have me: "r_my_address (snd s) = r_my_address r" using l(1) before by simp
    ultimately have run: "(if snd (fst s) = [] then Inr (snd s)
         else rbind (broadcast_copy E m msgid timeout hops ?all_informed ((snd s)\<lparr>r_sequence := r_sequence (snd s) + 1\<rparr>))
           (\<lambda>copy. Inr (fold (\<lambda>i. send_on i copy) (snd (fst s)) ((snd s)\<lparr>r_sequence := r_sequence (snd s) + 1\<rparr>)))) = Inr r'"
      unfolding assms Let_def me by simp
    consider "snd (fst s) = []" "r' = snd s"
      | copy where "snd (fst s) \<noteq> []"
        "broadcast_copy E m msgid timeout hops ?all_informed ((snd s)\<lparr>r_sequence := r_sequence (snd s) + 1\<rparr>) = Inr copy"
        "r' = fold (\<lambda>i. send_on i copy) (snd (fst s)) ((snd s)\<lparr>r_sequence := r_sequence (snd s) + 1\<rparr>)"
    proof (cases "snd (fst s) = []")
      case True
      with run that(1) show ?thesis by simp
    next
      case False
      with run obtain copy where
        "broadcast_copy E m msgid timeout hops ?all_informed ((snd s)\<lparr>r_sequence := r_sequence (snd s) + 1\<rparr>) = Inr copy"
        "r' = fold (\<lambda>i. send_on i copy) (snd (fst s)) ((snd s)\<lparr>r_sequence := r_sequence (snd s) + 1\<rparr>)"
        by (simp only: if_False rbind_Inr_iff) blast
      with False that(2) show ?thesis by blast
    qed
    then show thesis
    proof cases
      case 1
      then show thesis
        using that(2) [of local undefined "[]" "fst (fst s)"] l(1) told inf before by simp
    next
      case 2
      then show thesis
        using that(2) [of local copy "snd (fst s)" "fst (fst s)"] l(1) told inf before copy_names_informed [OF 2(2)]
        by (simp add: sends_outbox)
    qed
  qed
qed

text \<open>
  C22. Only those who do not know are told. A broadcast is sent as it is to services of this
  computer that know its command, and as one and the same copy to other routers: never to an
  address in the list of informed neighbors it came with, never twice to one address, and the list
  in the copy is the old one with exactly these addresses, and this router, added.
\<close>

theorem broadcast_informs:
  assumes "broadcast_message E m accepting r = Inr r'"
  shows "\<exists>local chosen copy informed.
    r_outbox r' = r_outbox r @ local @ map (\<lambda>i. (i, copy)) chosen
    \<and> list_all (told r m) local
    \<and> distinct (map (address_of r) chosen) \<and> set (map (address_of r) chosen) \<inter> set (informed_before m) = {}
    \<and> (chosen = [] \<or> names_informed copy informed
         \<and> set informed = set (informed_before m) \<union> set (map (address_of r) chosen) \<union> {ip_brackets (r_my_address r)})"
  using assms
proof (cases rule: broadcast_sends)
  case 1
  then show ?thesis by (intro exI [of _ "[]"]) simp
next
  case (2 local chosen copy informed)
  let ?me = "ip_brackets (r_my_address r)"
  have "set (if ?me \<in> set informed then informed else informed @ [?me]) =
      set (informed_before m) \<union> set (map (address_of r) chosen) \<union> {?me}"
    using 2(3) by (auto simp: informs_def)
  with 2 show ?thesis
    by (intro exI [of _ local] exI [of _ chosen] exI [of _ copy]
        exI [of _ "if ?me \<in> set informed then informed else informed @ [?me]"])
      (auto simp: informs_def list_all_iff)
qed

end
