(* ===== verification/RouterServices.thy ===== *)
theory RouterServices
  imports RouterProps
begin

text \<open>
  Messages for the services of the computer: delivery to the service that registered, keeping those
  for a service that did not yet; and the neighbors of the router: what it keeps over a restart, and
  how it ends.
\<close>

section \<open>Delivery\<close>

text \<open>A message for the service \<open>s\<close> of this computer, which is not a broadcast on its way.\<close>

definition for_service :: "router \<Rightarrow> message \<Rightarrow> string \<Rightarrow> bool" where
  "for_service r m s \<longleftrightarrow>
     m_service m = s \<and> s \<notin> {[], ''snapcommunicator'', ''*'', ''?'', ''.''}
     \<and> m_server m \<in> {[], ''.'', ''*'', r_server_name r}
     \<and> map_of (m_parameters m) ''broadcast_msgid'' = None"

definition serves_as :: "router \<Rightarrow> string \<Rightarrow> nat \<Rightarrow> bool" where
  "serves_as r s i \<longleftrightarrow> is_service r i \<and> c_name (r_heap r i) = s"

lemma find_route_skip:
  assumes "\<not> r_debug r" "\<forall>i \<in> set xs. \<not> serves_as r s i"
  shows "\<exists>accepting'. find_route r server s accepting (xs @ ys) = find_route r server s accepting' ys"
  using assms(2)
proof (induction xs arbitrary: accepting)
  case (Cons i xs)
  have IH: "\<exists>accepting'. find_route r server s acc (xs @ ys) = find_route r server s accepting' ys" for acc
    using Cons by simp
  have "\<not> serves_as r s i" using Cons.prems by simp
  then show ?case
    using assms(1) IH by (auto simp: Let_def serves_as_def is_service_def)
qed auto

lemma find_route_service:
  assumes "\<not> r_debug r" "\<forall>i \<in> set xs. \<not> serves_as r s i" "serves_as r s j"
    and "server \<in> {[], ''*'', r_server_name r}" "c_server_name (r_heap r j) = r_server_name r" "r_server_name r \<noteq> []"
  shows "find_route r server s [] (xs @ j # ys) = Inr (Found_service j)"
proof -
  obtain acc where "find_route r server s [] (xs @ j # ys) = find_route r server s acc (j # ys)"
    using find_route_skip [OF assms(1,2)] by metis
  then show ?thesis
    using assms by (auto simp: serves_as_def is_service_def is_base_def)
qed

lemma for_service_forwards:
  assumes "for_service r m s"
  shows "process_message E i udp m r =
    forward_message E i (if m_server m = ''.'' then r_server_name r else m_server m) m r"
  using assms by (auto simp: process_message_def for_service_def ignored_broadcast_def
      has_parameter_lit [OF router_params_lit(1)])

text \<open>
  A message for a service goes to that service. When a service has registered under a name on
  this computer, a message for that name, from any connection and with any command, is handed to
  the first connection with the name, unchanged and once; nothing else is sent or changed.
\<close>

theorem service_message_delivered:
  assumes "for_service r m s" "\<not> r_debug r" "r_server_name r \<noteq> []"
    and "r_connections r = xs @ j # ys" "\<forall>i \<in> set xs. \<not> serves_as r s i"
    and "serves_as r s j" "c_server_name (r_heap r j) = r_server_name r"
  shows "process_message E i udp m r = Inr (send_on j m r)"
proof -
  let ?server = "if m_server m = ''.'' then r_server_name r else m_server m"
  have server: "?server \<in> {[], ''*'', r_server_name r}" and s: "m_service m = s" "s \<notin> {''*'', ''?'', ''.''}"
    using assms(1) by (auto simp: for_service_def)
  have "find_route r ?server s [] (r_connections r) = Inr (Found_service j)"
    using find_route_service [OF assms(2,5,6) server assms(7,3)] assms(4) by simp
  then show ?thesis
    using s assms(2)
    by (simp only: for_service_forwards [OF assms(1)] forward_message_def Let_def)
      (simp add: verify_command_def)
qed

lemma router_params_lit2:
  "lit_param ''cache''" "lit_param ''service''" "lit_param ''status''" "lit_param ''server_name''"
  by (simp_all add: lit_param_def verify_name_def name_char_def first_digit_def less_char_def less_eq_char_def)

section \<open>Messages that are kept\<close>

text \<open>
  What is kept for the service \<open>s\<close> stays, in its order, as long as no message registers that service: messages may
  only be put behind it.
\<close>

definition waiting_for :: "int \<Rightarrow> string \<Rightarrow> router \<Rightarrow> (int \<times> message) list" where
  "waiting_for now s r = filter (\<lambda>p. m_service (snd p) = s \<and> now \<le> fst p) (r_cache r)"

definition keeps_waiting :: "string \<Rightarrow> int \<Rightarrow> router \<Rightarrow> router \<Rightarrow> bool" where
  "keeps_waiting s now r r' \<longleftrightarrow> (\<exists>later. waiting_for now s r' = waiting_for now s r @ later)"

lemma keeps_waiting_same: "r_cache r' = r_cache r \<Longrightarrow> keeps_waiting s now r r'"
  by (simp add: keeps_waiting_def waiting_for_def)

lemma keeps_waiting_trans: "keeps_waiting s now r r1 \<Longrightarrow> keeps_waiting s now r1 r2 \<Longrightarrow> keeps_waiting s now r r2"
  by (auto simp: keeps_waiting_def)

lemma keeps_waiting_earlier:
  assumes "keeps_waiting s now r r'" "now \<le> later"
  shows "keeps_waiting s later r r'"
proof -
  have f: "waiting_for later s q = filter (\<lambda>p. later \<le> fst p) (waiting_for now s q)" for q
    using assms(2) by (auto simp: waiting_for_def intro!: filter_cong)
  show ?thesis using assms(1) f by (auto simp: keeps_waiting_def)
qed

interpretation waiting: router_evolution "keeps_waiting s" for s
proof
  show "keeps_waiting s now r r1 \<Longrightarrow> keeps_waiting s now r1 r2 \<Longrightarrow> keeps_waiting s now r r2" for now r r1 r2
    by (rule keeps_waiting_trans)
  show "keeps_waiting s now r r' \<Longrightarrow> now \<le> later \<Longrightarrow> keeps_waiting s later r r'" for now later r r'
    by (rule keeps_waiting_earlier)
qed (auto simp: send_on_def remove_connection_def upd_conn_def add_conn_def aside_def stop_gossiping_eq
  keeps_waiting_def waiting_for_def)

definition registers_service :: "string \<Rightarrow> router_action \<Rightarrow> bool" where
  "registers_service s ev \<longleftrightarrow>
     (case ev of
        Message_on i m \<Rightarrow> m_command m = ''REGISTER'' \<and> map_of (m_parameters m) ''service'' = Some s
      | Udp_message i m \<Rightarrow> m_command m = ''REGISTER'' \<and> map_of (m_parameters m) ''service'' = Some s
      | _ \<Rightarrow> False)"

lemma sends_cached:
  "fold (\<lambda>p. send_on j (snd p)) ps r = r\<lparr>r_outbox := r_outbox r @ map (\<lambda>p. (j, snd p)) ps\<rparr>"
  by (induction ps arbitrary: r) (simp_all add: send_on_def)

lemma other_service_registers:
  assumes "\<not> registers_service s ev"
  shows "event_kept (keeps_waiting s) now ev"
proof -
  have w: "keeps_waiting s now r (send_cached i s' (drop_stale now r))" if "s' \<noteq> s" for i s' r
  proof -
    have "waiting_for now s (send_cached i s' (drop_stale now r)) = waiting_for now s r"
      using that by (auto simp: waiting_for_def send_cached_def drop_stale_def sends_cached intro!: filter_cong)
    then show ?thesis by (simp add: keeps_waiting_def)
  qed
  have "register_kept (keeps_waiting s) now m"
    if "\<not> (m_command m = ''REGISTER'' \<and> map_of (m_parameters m) ''service'' = Some s)" for m
    using that w by (auto simp: register_kept_def get_parameter_lit router_params_lit2 split: option.splits)
  then show ?thesis using assms by (simp add: event_kept_def registers_service_def split: router_action.splits)
qed

lemma kept_messages_wait:
  assumes "router_run ps r = Inr r'" "\<forall>p \<in> set ps. time_now (fst p) \<le> now \<and> \<not> registers_service s (snd p)"
  shows "\<exists>later. waiting_for now s r' = waiting_for now s r @ later \<and> (\<forall>p \<in> set later. m_service (snd p) = s)"
proof -
  have "keeps_waiting s now r r'"
    using waiting.run_evolves [OF assms(1)] assms(2) other_service_registers by blast
  then obtain later where l: "waiting_for now s r' = waiting_for now s r @ later" by (auto simp: keeps_waiting_def)
  have "set later \<subseteq> set (waiting_for now s r')" using l by simp
  then have "\<forall>p \<in> set later. m_service (snd p) = s" by (auto simp: waiting_for_def)
  then show ?thesis using l by blast
qed

section \<open>Waiting for a service\<close>

lemma find_route_none:
  assumes "\<not> r_debug r" "\<forall>i \<in> set is. \<not> serves_as r s i"
  shows "\<exists>accepting'. find_route r server s accepting is = Inr (Remotes accepting')"
  using find_route_skip [OF assms, of server accepting "[]"] by simp

definition keepable :: "router \<Rightarrow> message \<Rightarrow> string \<Rightarrow> bool" where
  "keepable r m s \<longleftrightarrow> for_service r m s \<and> map_of (r_local_services_list r) s \<noteq> None
     \<and> map_of (m_parameters m) ''cache'' = None \<and> map_of (m_parameters m) ''transmission_report'' = None"

lemma cache_ttl_default: "cache_ttl E [] = 60"
  by (simp add: cache_ttl_def cache_parameters_def)

lemma message_kept:
  assumes "keepable r m s" "\<not> r_debug r" "\<forall>i \<in> set (r_connections r). \<not> serves_as r s i"
  shows "process_message E i udp m r = Inr (r\<lparr>r_cache := r_cache r @ [(time_now E + 60, m)]\<rparr>)"
proof -
  let ?server = "if m_server m = ''.'' then r_server_name r else m_server m"
  have fs: "for_service r m s" using assms(1) by (simp add: keepable_def)
  have server: "?server = [] \<or> ?server = ''*'' \<or> ?server = r_server_name r"
    and s: "m_service m = s" "s \<notin> {''*'', ''?'', ''.''}"
    using fs by (auto simp: for_service_def)
  obtain accepting where route: "find_route r ?server s [] (r_connections r) = Inr (Remotes accepting)"
    using find_route_none [OF assms(2,3)] by metis
  have kept: "cache_message E m r = Inr (r\<lparr>r_cache := r_cache r @ [(time_now E + 60, m)]\<rparr>)"
    and quiet: "transmission_report i m q = Inr q" for q
    using assms(1) by (simp_all add: keepable_def cache_message_def transmission_report_def cache_ttl_default
        has_parameter_lit router_params_lit lit_params)
  show ?thesis
    using assms(1) s server route
    by (simp only: for_service_forwards [OF fs] forward_message_def Let_def)
      (simp add: keepable_def kept quiet)
qed

lemma send_status_to_all_eq:
  "send_status_to_all m r = r\<lparr>r_outbox := r_outbox r @ map (\<lambda>i. (i, m))
     (filter (\<lambda>i. is_service r i \<and> understand_command (r_heap r i) ''STATUS'') (r_connections r))\<rparr>"
proof -
  have "fold (\<lambda>i r. if is_service r i \<and> understand_command (r_heap r i) ''STATUS'' then send_on i m r else r) is r =
    r\<lparr>r_outbox := r_outbox r @ map (\<lambda>i. (i, m))
       (filter (\<lambda>i. is_service r i \<and> understand_command (r_heap r i) ''STATUS'') is)\<rparr>" for "is"
    by (induction "is" arbitrary: r) (simp_all add: send_on_def is_service_def)
  then show ?thesis by (simp add: send_status_to_all_def)
qed

lemma connection_status_Inr: "\<exists>m. connection_status name sc = Inr m"
  by (cases sc) (auto simp: connection_status_def build_def message_simps router_commands_lit router_params_lit
      router_params_lit2)

lemma send_status_sends:
  obtains status where "send_status i r = Inr (r\<lparr>r_outbox := r_outbox r @ status\<rparr>)"
    "\<forall>p \<in> set status. is_service r (fst p) \<and> understand_command (r_heap r (fst p)) ''STATUS''"
proof -
  obtain m where "send_status i r = Inr (send_status_to_all m r)"
    using connection_status_Inr [of "c_name (r_heap r i)" "Some (r_heap r i)"] by (auto simp: send_status_def)
  then show thesis
    by (intro that [of "map (\<lambda>i. (i, m))
       (filter (\<lambda>i. is_service r i \<and> understand_command (r_heap r i) ''STATUS'') (r_connections r))"])
      (auto simp: send_status_to_all_eq)
qed

text \<open>A REGISTER of the service \<open>s\<close> in the version of the protocol.\<close>

definition registers :: "('a env_scheme) \<Rightarrow> message \<Rightarrow> string \<Rightarrow> bool" where
  "registers E m s \<longleftrightarrow> m_command m = ''REGISTER'' \<and> m_server m = [] \<and> m_service m = []
     \<and> map_of (m_parameters m) ''service'' = Some s
     \<and> get_integer_parameter (env.truncate E) m ''version'' = Inr 1
     \<and> map_of (m_parameters m) ''version'' \<noteq> None \<and> map_of (m_parameters m) ''broadcast_msgid'' = None"

lemma register_sends:
  assumes "registers E m s" "is_service r j"
  obtains r' status where "msg_register E j m r = Inr r'"
    "r_outbox r' = r_outbox r
       @ [(j, empty_message\<lparr>m_command := ''HELP''\<rparr>), (j, empty_message\<lparr>m_command := ''READY''\<rparr>)]
       @ status @ map (\<lambda>p. (j, snd p)) (waiting_for (time_now E) s r)"
    "r_cache r' = filter (\<lambda>p. m_service (snd p) \<noteq> s \<and> time_now E \<le> fst p) (r_cache r)"
proof -
  define r1 where "r1 = upd_conn j (\<lambda>c. (connection_started (current_date E)
                (if c_kind c = Service_conn then c\<lparr>c_named := True\<rparr> else c))
                \<lparr>c_name := s, c_type := CONNECTION_TYPE_LOCAL\<rparr>) r"
  let ?ask = "empty_message\<lparr>m_command := ''HELP''\<rparr>" and ?ready = "empty_message\<lparr>m_command := ''READY''\<rparr>"
  have base: "is_base (r_heap r1 j)" "r_outbox r1 = r_outbox r" "r_cache r1 = r_cache r"
    using assms(2) by (simp_all add: r1_def upd_conn_def is_base_def is_service_def connection_started_def)
  have built: "help_message = Inr ?ask" "build [set_command ''READY''] = Inr ?ready"
    by (simp_all add: help_message_def build_def set_command_lit router_commands_lit)
  have replies: "send_back j ?ask r1 = Inr (send_on j ?ask r1)"
    "send_back j ?ready (send_on j ?ask r1) = Inr (send_on j ?ready (send_on j ?ask r1))"
    using base(1) by (simp_all add: send_back_def send_on_def)
  have reg: "msg_register E j m r = rbind (send_status j (send_on j ?ready (send_on j ?ask r1)))
      (\<lambda>r4. Inr (send_cached j s (drop_stale (time_now E) r4)))"
    using assms(1)
    by (simp add: msg_register_def registers_def Let_def built replies r1_def [symmetric]
        has_parameter_lit get_parameter_lit router_params_lit lit_params)
  obtain status where r4: "send_status j (send_on j ?ready (send_on j ?ask r1)) =
      Inr ((send_on j ?ready (send_on j ?ask r1))
        \<lparr>r_outbox := r_outbox (send_on j ?ready (send_on j ?ask r1)) @ status\<rparr>)"
    by (rule send_status_sends)
  show thesis
    by (rule that, simp only: reg r4 rbind_simps)
      (simp_all add: send_cached_def drop_stale_def sends_cached waiting_for_def not_less conj_commute base send_on_def)
qed

lemma registers_processed:
  assumes "registers E m s" "is_service r j" "\<not> r_shutdown r"
  shows "process_message E j False m r = msg_register E j m r"
  using assms
  by (auto simp: registers_def process_message_def ignored_broadcast_def router_command_def tcp_only_def
      is_base_def is_service_def Let_def has_parameter_lit [OF router_params_lit(1)])

text \<open>
  C23. A message waits for its service. A message (without a cache or transmission_report parameter) for a service that
  belongs to this computer but is not there is kept and changes nothing else. Whatever happens to the router until then
  (messages, connections, broadcasts, other services that register), as long as no message registers this service: when
  a connection registers as the service within a minute, and the router is not shutting down, the message is sent to it,
  behind those that were kept before it and before those that came later, in the order they came, and no message of that
  service is kept any longer. The router does not run in debug mode.
\<close>

theorem message_waits_for_service:
  assumes "keepable r m s" "\<not> r_debug r" "\<forall>i \<in> set (r_connections r). \<not> serves_as r s i"
    and "router_run ps (r\<lparr>r_cache := r_cache r @ [(time_now E + 60, m)]\<rparr>) = Inr r2"
    and "\<forall>p \<in> set ps. time_now (fst p) \<le> time_now E' \<and> \<not> registers_service s (snd p)"
    and "registers E' reg s" "is_service r2 j" "\<not> r_shutdown r2" "time_now E' \<le> time_now E + 60"
  shows "process_message E i udp m r = Inr (r\<lparr>r_cache := r_cache r @ [(time_now E + 60, m)]\<rparr>)
    \<and> (\<exists>r3 greeting later. process_message E' j False reg r2 = Inr r3
        \<and> r_outbox r3 = r_outbox r2 @ greeting
            @ map (\<lambda>p. (j, snd p)) (waiting_for (time_now E') s r @ [(time_now E + 60, m)] @ later)
        \<and> list_all (\<lambda>p. m_service (snd p) = s) later \<and> list_all (\<lambda>p. m_service (snd p) \<noteq> s) (r_cache r3))"
proof -
  define r1 where "r1 = r\<lparr>r_cache := r_cache r @ [(time_now E + 60, m)]\<rparr>"
  have kept: "process_message E i udp m r = Inr r1"
    using message_kept [OF assms(1-3), where E = E and i = i and udp = udp] by (simp add: r1_def)
  obtain later where later: "waiting_for (time_now E') s r2 = waiting_for (time_now E') s r1 @ later"
    "\<forall>p \<in> set later. m_service (snd p) = s"
    using kept_messages_wait [OF assms(4,5)] by (auto simp: r1_def)
  have "waiting_for (time_now E') s r1 = waiting_for (time_now E') s r @ [(time_now E + 60, m)]"
    using assms(1,9) by (simp add: r1_def waiting_for_def keepable_def for_service_def)
  moreover obtain r3 status where "msg_register E' j reg r2 = Inr r3"
    "r_outbox r3 = r_outbox r2
       @ [(j, empty_message\<lparr>m_command := ''HELP''\<rparr>), (j, empty_message\<lparr>m_command := ''READY''\<rparr>)]
       @ status @ map (\<lambda>p. (j, snd p)) (waiting_for (time_now E') s r2)"
    "r_cache r3 = filter (\<lambda>p. m_service (snd p) \<noteq> s \<and> time_now E' \<le> fst p) (r_cache r2)"
    by (rule register_sends [OF assms(6,7)])
  ultimately show ?thesis
    using kept later registers_processed [OF assms(6-8)]
    by (intro conjI exI [of _ r3] exI [of _ "[(j, empty_message\<lparr>m_command := ''HELP''\<rparr>),
      (j, empty_message\<lparr>m_command := ''READY''\<rparr>)] @ status"] exI [of _ later]) (simp_all add: r1_def list_all_iff)
qed

end
