(* ===== verification/RouterNeighbors.thy ===== *)
theory RouterNeighbors
  imports RouterServices
begin

text \<open>
  The life of a router: what it knows of its neighbors after a restart, what holds at any time of a
  run, and how it ends.
\<close>

section \<open>The file of neighbors\<close>

text \<open>A name that is read back as it was written: not empty, without blanks around, not a comment.\<close>

definition neighbor_line_ok :: "('a env_scheme) \<Rightarrow> string \<Rightarrow> bool" where
  "neighbor_line_ok E s \<longleftrightarrow> s \<noteq> [] \<and> hd s \<noteq> CHR ''#'' \<and> trimmed E s = s"

definition knows :: "router \<Rightarrow> string set" where
  "knows r = fst ` set (r_all_neighbors r)"

lemma knows_put: "knows (put_neighbor s r) = insert s (knows r)"
  by (simp add: knows_def put_neighbor_def dom_map_of_conv_image_fst [symmetric] map_of_om_put)

lemma add_remote_knows:
  "add_remote_communicator E s r = Inr r' \<Longrightarrow> r_all_neighbors r' = r_all_neighbors r"
  by (auto simp: add_remote_communicator_def new_remote_def new_gossip_def reconnect_def add_conn_def upd_conn_def
      rbind_Inr_iff Let_def split: if_splits option.splits)

lemma read_lines_knows:
  assumes "read_neighbor_lines E ls r = Inr r'" "\<forall>l \<in> set ls. neighbor_line_ok E l"
  shows "knows r' = knows r \<union> set ls"
  using assms
proof (induction ls arbitrary: r)
  case (Cons l ls)
  have ok: "hd l \<noteq> CHR ''#''" "trimmed E l = l" using Cons.prems(2) by (simp_all add: neighbor_line_ok_def)
  then obtain r1 where r1: "add_remote_communicator E l (put_neighbor l r) = Inr r1" "read_neighbor_lines E ls r1 = Inr r'"
    using Cons.prems(1) by (auto simp: rbind_Inr_iff)
  have "knows r1 = insert l (knows r)"
    using add_remote_knows [OF r1(1)] knows_put [of l r] by (simp add: knows_def)
  then show ?case
    using Cons.IH [OF r1(2)] Cons.prems(2) by auto
qed simp

lemma om_ok_keys_unique: "om_ok m \<Longrightarrow> om_ok m' \<Longrightarrow> fst ` set m = fst ` set m' \<Longrightarrow> map fst m = map fst m'"
  by (rule sorted_distinct_set_unique) (simp_all add: om_ok_def strict_sorted_iff)

text \<open>
  Neighbors survive a restart. When a router has written its neighbors to the file and another
  run of the program reads that file, it knows the same neighbors again, neither more nor less.
\<close>

theorem neighbors_survive_restart:
  assumes "rwf r" "save_neighbors r = Inr r1" "list_all (neighbor_line_ok E) (map fst (r_all_neighbors r))"
    and "r_neighbors_file r2 = r_neighbors_file r1" "\<not> r_neighbors_read r2" "rwf r2" "r_all_neighbors r2 = []"
    and "read_neighbors E r2 = Inr r3"
  shows "map fst (r_all_neighbors r3) = map fst (r_all_neighbors r)"
proof -
  have "r_neighbors_file r2 = map fst (r_all_neighbors r)"
    using assms(2,4) by (auto simp: save_neighbors_def split: if_splits)
  then have "read_neighbor_lines E (map fst (r_all_neighbors r)) (r2\<lparr>r_neighbors_read := True\<rparr>) = Inr r3"
    using assms(5,8) by (simp add: read_neighbors_def)
  then have "knows r3 = knows r"
    using read_lines_knows [of E "map fst (r_all_neighbors r)" "r2\<lparr>r_neighbors_read := True\<rparr>" r3] assms(3,7)
    by (simp add: list_all_iff knows_def)
  moreover have "rwf r3"
    using unless_exnD [OF sound.kept_read_neighbors assms(8)] assms(6) by (simp add: rgood_def)
  ultimately show ?thesis
    using assms(1) by (intro om_ok_keys_unique) (simp_all add: rwf_def knows_def)
qed

section \<open>The end of a router\<close>

definition ended :: "router \<Rightarrow> nat \<Rightarrow> bool" where
  "ended r i \<longleftrightarrow> i \<notin> set (r_connections r) \<or> c_done (r_heap r i)"

definition ends_more :: "router \<Rightarrow> router \<Rightarrow> bool" where
  "ends_more r r' \<longleftrightarrow>
     set (r_connections r') \<subseteq> set (r_connections r) \<and> (\<forall>j. ended r j \<longrightarrow> ended r' j)
     \<and> (\<forall>j. c_kind (r_heap r' j) = c_kind (r_heap r j))
     \<and> r_own r' = r_own r \<and> r_debug r' = r_debug r \<and> r_shutdown r' = r_shutdown r"

lemma ends_more_refl: "ends_more r r"
  by (simp add: ends_more_def)

lemma ends_more_trans: "ends_more r r1 \<Longrightarrow> ends_more r1 r2 \<Longrightarrow> ends_more r r2"
  unfolding ends_more_def by auto

lemma ends_more_steps: "ends_more r (send_on i m r)" "ends_more r (mark_done i r)" "ends_more r (remove_connection i r)"
  by (auto simp: ends_more_def ended_def send_on_def mark_done_def upd_conn_def remove_connection_def)

lemma ended_steps: "ended (mark_done i r) i" "ended (send_on j m (mark_done i r)) i" "ended (remove_connection i r) i"
  by (simp_all add: ended_def send_on_def mark_done_def upd_conn_def remove_connection_def)

lemma shutdown_messages:
  "build [set_command ''SHUTDOWN''] = Inr (empty_message\<lparr>m_command := ''SHUTDOWN''\<rparr>)"
  "build [set_command ''DISCONNECT''] = Inr (empty_message\<lparr>m_command := ''DISCONNECT''\<rparr>)"
  "build [set_command ''DISCONNECTING''] = Inr (empty_message\<lparr>m_command := ''DISCONNECTING''\<rparr>)"
  by (simp_all add: build_def set_command_lit router_commands_lit)

lemma shutdown_one_ends:
  assumes "\<not> r_debug r"
  obtains r' where "shutdown_one E quitting i r = Inr r'" "ends_more r r'" "is_base (r_heap r i) \<Longrightarrow> ended r' i"
proof -
  note step = ends_more_refl ends_more_steps ends_more_trans [OF ends_more_steps(1) ends_more_steps(2)]
    ends_more_trans [OF ends_more_steps(2) ends_more_steps(1)]
  have "\<exists>r'. shutdown_one E quitting i r = Inr r' \<and> ends_more r r' \<and> (is_base (r_heap r i) \<longrightarrow> ended r' i)"
    using assms
    by (cases "c_kind (r_heap r i)"; cases "c_type (r_heap r i)"; cases quitting;
        cases "understand_command (r_heap r i) ''DISCONNECTING''"; cases "has_output E i")
      (auto simp: shutdown_one_def shutdown_messages verify_command_def is_base_def Let_def step ended_steps)
  with that show thesis by blast
qed

lemma shutdown_all_ends:
  assumes "\<not> r_debug r"
  shows "\<exists>r'. shutdown_all E quitting is r = Inr r' \<and> ends_more r r'
    \<and> (\<forall>i \<in> set is. is_base (r_heap r i) \<longrightarrow> ended r' i)"
  using assms
proof (induction "is" arbitrary: r)
  case (Cons i "is")
  obtain r1 where r1: "shutdown_one E quitting i r = Inr r1" "ends_more r r1" "is_base (r_heap r i) \<Longrightarrow> ended r1 i"
    using shutdown_one_ends [OF Cons.prems, of E quitting i] by blast
  then have "\<not> r_debug r1" using Cons.prems by (simp add: ends_more_def)
  from Cons.IH [OF this] obtain r' where r': "shutdown_all E quitting is r1 = Inr r'" "ends_more r1 r'"
      "\<forall>i \<in> set is. is_base (r_heap r1 i) \<longrightarrow> ended r' i" by blast
  have base: "is_base (r_heap r1 j) = is_base (r_heap r j)" for j
    using r1(2) by (simp add: ends_more_def is_base_def)
  show ?case
    using r1 r' ends_more_trans [OF r1(2) r'(2)] base by (auto simp: ends_more_def)
qed (simp add: ends_more_refl)

lemma remove_own:
  "fold remove_connection own r = r\<lparr>r_connections := filter (\<lambda>j. j \<notin> set own) (r_connections r)\<rparr>"
  by (induction own arbitrary: r) (auto simp: remove_connection_def intro!: filter_cong)

text \<open>
  C24. A router that is told to end lets go of everything but connections that are to be closed. From a well-formed
  state, when it does not run in debug mode, \<open>shutdown\<close> returns, with the router shutting down; the only
  connections left are those to services and to other routers, and each of them is marked done: no listener, no timer
  of the server and no attempt to gossip is left.
\<close>

theorem shutdown_ends:
  assumes "rwf r" "\<not> r_debug r"
  shows "\<exists>r'. shutdown E quitting r = Inr r' \<and> r_shutdown r'
    \<and> list_all (\<lambda>i. is_base (r_heap r' i) \<and> c_done (r_heap r' i)) (r_connections r')"
proof -
  define r1 where "r1 = stop_gossiping (r\<lparr>r_shutdown := True\<rparr>)"
  have r1: "rwf r1" "\<not> r_debug r1" "r_shutdown r1" "r_own r1 = r_own r"
    using assms rgood_trans [OF rgood_shutdown rgood_stop_gossiping, of undefined r]
    by (auto simp: r1_def rgood_def stop_gossiping_eq)
  have none: "r_gossip_ips r1 = []" by (simp add: r1_def stop_gossiping_eq)
  obtain r2 where r2: "shutdown_all E quitting (r_connections r1) r1 = Inr r2" "ends_more r1 r2"
      "\<forall>i \<in> set (r_connections r1). is_base (r_heap r1 i) \<longrightarrow> ended r2 i"
    using shutdown_all_ends [OF r1(2)] by blast
  have left: "is_base (r_heap r2 i) \<and> c_done (r_heap r2 i)"
    if "i \<in> set (r_connections r2)" "i \<notin> set (r_own r2)" for i
  proof -
    have i: "i \<in> set (r_connections r1)" "i \<notin> set (r_own r1)" "c_kind (r_heap r2 i) = c_kind (r_heap r1 i)"
      using that r2(2) by (auto simp: ends_more_def)
    have "is_base (r_heap r1 i)"
      using i r1(1) none by (cases "c_kind (r_heap r1 i)") (auto simp: is_base_def rwf_def conns_known_def)
    then show ?thesis
      using r2(3) i that(1) by (auto simp: ended_def is_base_def)
  qed
  have "shutdown E quitting r = Inr (r2\<lparr>r_connections := filter (\<lambda>j. j \<notin> set (r_own r2)) (r_connections r2)\<rparr>)"
    using r2(1) by (simp add: shutdown_def Let_def r1_def [symmetric] remove_own)
  then show ?thesis
    using left r2(2) r1(3) by (auto simp: ends_more_def list_all_iff)
qed

section \<open>Runs\<close>

text \<open>
  C25. The state of a router stays sound. After the start and any sequence of events that the router
  survives, its connections are distinct and known, its maps are in order, the addresses in them
  belong to connections of their kind; and no connection was ever flagged as failing, as the counter
  of failures never exceeds one, however often a neighbor could not be reached.
\<close>

theorem router_stays_sound:
  assumes "init_router E listen explicit
      (new_router own timer name public me services list neighbors file maximum debug) = Inr r"
    and "\<forall>c \<in> set own. c_kind c = Own_conn \<and> conn_ok c"
    and "router_run ps r = Inr r'"
  shows "rwf r' \<and> (\<forall>i. c_failures (r_heap r' i) \<le> 1 \<and> \<not> c_flagged (r_heap r' i))"
proof -
  have "rwf r"
    using unless_exnD [OF sound.kept_init assms(1)] new_router_wf assms(2) by (auto simp: rgood_def)
  moreover have "\<forall>p \<in> set ps. time_now (fst p) \<le> Max (insert 0 ((\<lambda>p. time_now (fst p)) ` set ps))"
    by simp
  ultimately have "rwf r'"
    using run_kept [OF assms(3)] by blast
  then show ?thesis by (simp add: rwf_def conn_ok_def)
qed

end
