(* ===== verification/RouterSample.thy ===== *)
theory RouterSample
  imports RouterNeighbors LockSample
begin

text \<open>
  Concrete routers and messages on which the properties of the router are exercised: the router of
  \<open>server\<close>, with the service \<open>lock\<close>, a client that did not register yet, and a neighbor.
\<close>

definition E_at :: "int \<Rightarrow> unit renv_scheme" where
  "E_at t = env.extend (std_env t)
     \<lparr>string_to_addr = (\<lambda>s. Some \<lparr>ip_only = s, ip_brackets = s, ip_port = s, addr_port = 4040, network = Private\<rparr>),
      addr_eq = (=), addr_less = (\<lambda>a b. ip_only a < ip_only b), has_output = (\<lambda>_. False),
      is_connected = (\<lambda>_. False)\<rparr>"

lemma E_at_simps [simp]:
  "env.truncate (E_at t) = std_env t" "time_now (E_at t) = t" "current_date (E_at t) = t * 1000000"
  "to_long (std_env t) = parse_int" "trimmed (E_at t) = (\<lambda>s. s)" "to_int (E_at t) = parse_int"
  "string_to_addr (E_at t) s = Some \<lparr>ip_only = s, ip_brackets = s, ip_port = s, addr_port = 4040, network = Private\<rparr>"
  "addr_eq (E_at t) = (=)" "addr_less (E_at t) a b = (ip_only a < ip_only b)"
  by (simp_all add: E_at_def env.extend_def env.truncate_def std_env_def fun_eq_iff)

definition sample_addr :: "string \<Rightarrow> network_type \<Rightarrow> addr" where
  "sample_addr ip kind = \<lparr>ip_only = ip, ip_brackets = ip, ip_port = ip @ '':4040'', addr_port = 4040, network = kind\<rparr>"

definition sample_me :: addr where
  "sample_me = sample_addr ''10.0.0.1'' Private"

definition sample_start :: router where
  "sample_start = new_router [new_connection Own_conn ''signal'' sample_me] 0 ''server'' ''1.2.3.4'' sample_me
     ''lock'' [(''lock'', True)] [] [] 100 False"

definition sample_client :: "string \<Rightarrow> conn_state" where
  "sample_client name = (new_connection Service_conn name (sample_addr ''127.0.0.1'' Loopback))
     \<lparr>c_host := ''server'', c_server_name := ''server'', c_commands := [(''NEWS'', True)]\<rparr>"

definition sample_router :: router where
  "sample_router = add_conn (sample_client ''lock'') sample_start"

definition sample_unregistered :: router where
  "sample_unregistered = add_conn (sample_client ''client connection'') sample_start"

definition sample_linked :: router where
  "sample_linked = add_conn (new_connection Remote_conn ''remote'' (sample_addr ''10.0.0.3'' Private)) sample_router"

lemma router_sample_wf: "rwf sample_start" "rwf sample_router" "rwf sample_unregistered" "rwf sample_linked"
proof -
  show start: "rwf sample_start"
    unfolding sample_start_def by (rule new_router_wf) (simp add: conn_ok_def new_connection_def)
  have "rwf (add_conn (sample_client name) sample_start)" for name
    using rgood_add [of "sample_client name" 0 sample_start] start
    by (simp add: rgood_def conn_ok_def is_base_def sample_client_def new_connection_def)
  then show router: "rwf sample_router" and "rwf sample_unregistered"
    by (simp_all add: sample_router_def sample_unregistered_def)
  show "rwf sample_linked"
    using rgood_add [of "new_connection Remote_conn ''remote'' (sample_addr ''10.0.0.3'' Private)" 0 sample_router] router
    by (simp add: sample_linked_def rgood_def conn_ok_def is_base_def new_connection_def)
qed

lemmas sample_router_defs = sample_linked_def sample_router_def sample_unregistered_def sample_start_def
  new_router_def add_conn_def sample_client_def new_connection_def sample_me_def sample_addr_def

section \<open>Witnesses\<close>

definition sample_news :: message where
  "sample_news = empty_message\<lparr>m_command := ''NEWS'', m_service := ''?'', m_parameters :=
     [(''broadcast_hops'', ''1''), (''broadcast_informed_neighbors'', ''10.0.0.2''),
      (''broadcast_msgid'', ''other-1''), (''broadcast_timeout'', ''1010'')]\<rparr>"

lemma sample_parses:
  "parse_int ''1010'' = Some 1010" "parse_int ''1'' = Some 1" "split_on CHR '','' ''10.0.0.2'' = [''10.0.0.2'']"
  by code_simp+

lemma sample_carries: "carries (E_at t) sample_news ''other-1'' 1010"
  by (simp add: carries_def sample_news_def get_integer_parameter_lit router_params_lit sample_parses)

lemma sample_passed_on:
  "\<exists>r'. broadcast_message (E_at 1000) sample_news [] sample_linked = Inr r' \<and> length (r_outbox r') = 2"
  by (simp add: broadcast_message_def broadcast_received_def sample_news_def has_parameter_lit get_parameter_lit
      get_integer_parameter_lit router_params_lit sample_parses Let_def sample_router_defs broadcast_destination_def
      skip_empty_def int32_def broadcast_one_def understand_command_def inform_def send_on_def
      broadcast_copy_def add_parameter_lit add_integer_parameter_lit upt_conv_Cons)

theorem broadcast_once_witness:
  "\<exists>r1. broadcast_message (E_at 1000) sample_news [] sample_linked = Inr r1
     \<and> process_message (E_at 1005) 2 False sample_news r1 = Inr r1 \<and> broadcast_message (E_at 1005) sample_news [] r1 = Inr r1"
proof -
  obtain r1 where r1: "broadcast_message (E_at 1000) sample_news [] sample_linked = Inr r1"
    using sample_passed_on by blast
  have "map_of (r_received sample_linked) ''other-1'' = None" by (simp add: sample_router_defs)
  from broadcast_once [OF router_sample_wf(4) r1 sample_carries this, of "[]" r1 "E_at 1005" sample_news 2 False "[]"]
  have "process_message (E_at 1005) 2 False sample_news r1 = Inr r1 \<and> broadcast_message (E_at 1005) sample_news [] r1 = Inr r1"
    using sample_carries by simp
  with r1 show ?thesis by blast
qed

theorem broadcast_informs_witness:
  "\<exists>r' local chosen copy informed. broadcast_message (E_at 1000) sample_news [] sample_linked = Inr r'
    \<and> r_outbox r' = r_outbox sample_linked @ local @ map (\<lambda>i. (i, copy)) chosen
    \<and> list_all (told sample_linked sample_news) local"
  using sample_passed_on broadcast_informs [of "E_at 1000" sample_news "[]" sample_linked] by blast

definition sample_request :: message where
  "sample_request = empty_message\<lparr>m_command := ''LOCK'', m_service := ''lock''\<rparr>"

lemma sample_for_lock: "for_service r sample_request ''lock''"
  by (simp add: for_service_def sample_request_def empty_message_def)

lemma sample_serves:
  "serves_as sample_router ''lock'' 1" "\<not> serves_as sample_router ''lock'' 0"
  "\<not> serves_as sample_unregistered ''lock'' 0" "\<not> serves_as sample_unregistered ''lock'' 1"
  by (simp_all add: serves_as_def is_service_def sample_router_defs)

lemma router_fields:
  "r_connections sample_router = [0, 1]" "r_connections sample_unregistered = [0, 1]"
  "\<not> r_debug sample_router" "\<not> r_debug sample_unregistered" "\<not> r_shutdown sample_unregistered"
  "r_server_name sample_router = ''server''" "c_server_name (r_heap sample_router 1) = ''server''"
  "is_service sample_unregistered 1" "r_local_services_list sample_unregistered = [(''lock'', True)]"
  "r_neighbors_file sample_start = []" "r_cache sample_unregistered = []"
  by (simp_all add: sample_router_defs is_service_def upt_conv_Cons)

theorem service_message_delivered_witness:
  "process_message (E_at 1000) 0 True sample_request sample_router = Inr (send_on 1 sample_request sample_router)"
  by (rule service_message_delivered [OF sample_for_lock router_fields(3) _ _ _ sample_serves(1), where xs = "[0]" and ys = "[]"])
    (simp_all add: router_fields [unfolded One_nat_def] sample_serves [unfolded One_nat_def])

definition sample_register :: message where
  "sample_register = empty_message\<lparr>m_command := ''REGISTER'',
     m_parameters := [(''service'', ''lock''), (''version'', ''1'')]\<rparr>"

lemma sample_registers: "registers (E_at t) sample_register ''lock''"
  by (simp add: registers_def sample_register_def empty_message_def get_integer_parameter_lit router_params_lit sample_parses)

definition sample_kept :: router where
  "sample_kept = sample_unregistered\<lparr>r_cache := [(1060, sample_request)]\<rparr>"

text \<open>In between, another message for the service comes on a datagram, and a client connects.\<close>

definition between :: "(unit renv_scheme \<times> router_action) list" where
  "between = [(E_at 1010, Udp_message 0 sample_request), (E_at 1020, Gossip_timeout 1)]"

lemma sample_keepable:
  "keepable sample_unregistered sample_request ''lock''"
  "\<forall>i \<in> set (r_connections sample_unregistered). \<not> serves_as sample_unregistered ''lock'' i"
  by (simp add: keepable_def sample_for_lock router_fields, simp add: sample_request_def empty_message_def)
    (simp add: router_fields sample_serves [unfolded One_nat_def])

lemma sample_between:
  "router_run between sample_kept = Inr (sample_kept\<lparr>r_cache := [(1060, sample_request), (1070, sample_request)]\<rparr>)"
proof -
  have "keepable sample_kept sample_request ''lock''"
    using sample_keepable(1) by (simp add: sample_kept_def keepable_def for_service_def)
  moreover have "\<forall>i \<in> set (r_connections sample_kept). \<not> serves_as sample_kept ''lock'' i" "\<not> r_debug sample_kept"
    using sample_keepable(2) router_fields(4) by (simp_all add: sample_kept_def serves_as_def is_service_def)
  ultimately have "process_message (E_at 1010) 0 True sample_request sample_kept
      = Inr (sample_kept\<lparr>r_cache := [(1060, sample_request), (1070, sample_request)]\<rparr>)"
    using message_kept [of sample_kept sample_request "''lock''" "E_at 1010" 0 True] by (simp add: sample_kept_def)
  then show ?thesis
    using router_fields(8) by (simp add: between_def is_service_def sample_kept_def)
qed

theorem message_waits_for_service_witness:
  "\<exists>r3 greeting (later :: (int \<times> message) list). process_message (E_at 1030) 1 False sample_register
      (sample_kept\<lparr>r_cache := [(1060, sample_request), (1070, sample_request)]\<rparr>) = Inr r3
    \<and> r_outbox r3 = greeting @ (1, sample_request) # map (\<lambda>p. (1, snd p)) later
    \<and> list_all (\<lambda>p. m_service (snd p) \<noteq> ''lock'') (r_cache r3)"
proof -
  have none: "waiting_for 1030 ''lock'' sample_unregistered = []"
    "r_outbox (sample_kept\<lparr>r_cache := [(1060, sample_request), (1070, sample_request)]\<rparr>) = []"
    by (simp_all add: waiting_for_def sample_kept_def sample_router_defs)
  have run: "router_run between (sample_unregistered\<lparr>r_cache := r_cache sample_unregistered @ [(time_now (E_at 1000) + 60, sample_request)]\<rparr>)
      = Inr (sample_kept\<lparr>r_cache := [(1060, sample_request), (1070, sample_request)]\<rparr>)"
    using sample_between by (simp add: sample_kept_def router_fields)
  have later: "\<forall>p \<in> set between. time_now (fst p) \<le> time_now (E_at 1030) \<and> \<not> registers_service ''lock'' (snd p)"
    by (simp add: between_def registers_service_def sample_request_def)
  have final: "is_service (sample_kept\<lparr>r_cache := [(1060, sample_request), (1070, sample_request)]\<rparr>) 1"
    "\<not> r_shutdown (sample_kept\<lparr>r_cache := [(1060, sample_request), (1070, sample_request)]\<rparr>)"
    using router_fields(5,8) by (simp_all add: sample_kept_def is_service_def)
  have t: "time_now (E_at 1030) \<le> time_now (E_at 1000) + 60" by simp
  show ?thesis
    using message_waits_for_service [OF sample_keepable(1) router_fields(4) sample_keepable(2) run later sample_registers final t,
        of 0 True, unfolded E_at_simps none] by (auto simp: sample_kept_def)
qed

definition sample_known :: router where
  "sample_known = sample_start\<lparr>r_neighbors_read := True, r_all_neighbors := [(''10.0.0.2:4040'', True)]\<rparr>"

definition sample_saved :: router where
  "sample_saved = sample_known\<lparr>r_neighbors_file := [''10.0.0.2:4040'']\<rparr>"

definition sample_restarted :: router where
  "sample_restarted = sample_start\<lparr>r_neighbors_file := [''10.0.0.2:4040'']\<rparr>"

theorem neighbors_survive_restart_witness:
  "\<exists>r3. read_neighbors (E_at 1000) sample_restarted = Inr r3 \<and> map fst (r_all_neighbors r3) = [''10.0.0.2:4040'']"
proof -
  have "rwf sample_known" "rwf sample_restarted"
    using router_sample_wf(1) by (simp_all add: sample_known_def sample_restarted_def rwf_def ips_ok_def conns_known_def)
  moreover have "save_neighbors sample_known = Inr sample_saved"
    by (simp add: save_neighbors_def sample_known_def sample_saved_def)
  moreover have "list_all (neighbor_line_ok (E_at 1000)) (map fst (r_all_neighbors sample_known))"
    by (simp add: sample_known_def neighbor_line_ok_def)
  moreover have "\<exists>r3. read_neighbors (E_at 1000) sample_restarted = Inr r3"
    by (simp add: read_neighbors_def sample_restarted_def sample_router_defs add_remote_communicator_def
        put_neighbor_def parse_addr_def new_remote_def Let_def)
  ultimately show ?thesis
    using neighbors_survive_restart [of sample_known sample_saved "E_at 1000" sample_restarted]
    by (auto simp: sample_saved_def sample_restarted_def sample_known_def sample_router_defs)
qed

theorem shutdown_ends_witness:
  "\<exists>r'. shutdown (E_at 1000) True sample_router = Inr r' \<and> r_shutdown r'
     \<and> list_all (\<lambda>i. is_base (r_heap r' i) \<and> c_done (r_heap r' i)) (r_connections r')"
  by (rule shutdown_ends [OF router_sample_wf(2) router_fields(3)])

lemma broadcast_nobody:
  assumes "map_of (m_parameters m) ''broadcast_msgid'' = None" "\<forall>i \<in> set (r_connections r). \<not> is_base (r_heap r i)"
  shows "broadcast_message E m [] r = Inr r"
proof -
  have "fold (broadcast_one m all remote) is (([], []), r) = (([], []), r)"
    if "\<forall>i \<in> set is. \<not> is_base (r_heap r i)" for "is" all remote
    using that by (induction "is") (simp_all add: broadcast_one_def is_base_def Let_def)
  with assms show ?thesis
    by (simp add: broadcast_message_def broadcast_received_def has_parameter_lit router_params_lit skip_empty_def Let_def)
qed

lemma sample_cluster_message:
  "\<exists>m. cluster_message ''CLUSTERUP'' n = Inr m \<and> map_of (m_parameters m) ''broadcast_msgid'' = None"
  "\<exists>m. cluster_message ''CLUSTERINCOMPLETE'' n = Inr m \<and> map_of (m_parameters m) ''broadcast_msgid'' = None"
proof -
  have lits: "lit_command ''CLUSTERUP''" "lit_command ''CLUSTERINCOMPLETE''" "lit_param ''neighbors_count''"
    by (simp_all add: lit_command_def lit_param_def verify_name_def name_char_def first_digit_def less_char_def less_eq_char_def)
  show "\<exists>m. cluster_message ''CLUSTERUP'' n = Inr m \<and> map_of (m_parameters m) ''broadcast_msgid'' = None"
    "\<exists>m. cluster_message ''CLUSTERINCOMPLETE'' n = Inr m \<and> map_of (m_parameters m) ''broadcast_msgid'' = None"
    by (simp_all add: cluster_message_def build_def message_simps lits empty_message_def map_of_om_put)
qed

lemma sample_initialized: "\<exists>r. init_router (E_at 1000) None [] sample_start = Inr r"
proof -
  have start: "add_neighbors (E_at 1000) [] sample_start = Inr (sample_start\<lparr>r_neighbors_read := True\<rparr>)"
    "sample_start\<lparr>r_explicit_neighbors := []\<rparr> = sample_start"
    by (simp_all add: add_neighbors_def read_neighbors_def sample_start_def new_router_def)
  have alone: "cluster_state (sample_start\<lparr>r_neighbors_read := True\<rparr>) = ''CLUSTERUP''"
    "cluster_completeness (sample_start\<lparr>r_neighbors_read := True\<rparr>) = ''CLUSTERINCOMPLETE''"
    by (simp_all add: cluster_state_def cluster_completeness_def cluster_quorum_def count_live_connections_def is_base_def
        sample_router_defs)
  obtain up incomplete where m: "cluster_message ''CLUSTERUP'' 0 = Inr up" "map_of (m_parameters up) ''broadcast_msgid'' = None"
    "cluster_message ''CLUSTERINCOMPLETE'' 0 = Inr incomplete" "map_of (m_parameters incomplete) ''broadcast_msgid'' = None"
    using sample_cluster_message by blast
  have "r_all_neighbors sample_start = []" "r_total_count_sent sample_start = 0" "r_cluster_status sample_start = []"
    "r_cluster_complete sample_start = []" "r_connections sample_start = [0]" "\<not> is_base (r_heap sample_start 0)"
    by (simp_all add: sample_router_defs is_base_def)
  then show ?thesis
    by (simp add: init_router_def start cluster_status_def alone announce_status_def m broadcast_nobody Let_def)
qed

theorem router_stays_sound_witness:
  "\<exists>r r'. init_router (E_at 1000) None [] sample_start = Inr r \<and> router_run [(E_at 1001, Gossip_timeout 0)] r = Inr r'
     \<and> rwf r'"
proof -
  obtain r where r: "init_router (E_at 1000) None [] sample_start = Inr r"
    using sample_initialized by blast
  have "router_run [(E_at 1001, Gossip_timeout 0)] r =
      Inr (if c_kind (r_heap r 0) = Gossip_conn then gossip_timeout 0 r else r)" by simp
  with router_stays_sound [OF r [unfolded sample_start_def] _ this] r show ?thesis
    by (auto simp: conn_ok_def new_connection_def)
qed

end
