(* ===== verification/CivilDate.thy ===== *)
theory CivilDate
  imports SnapPrelude "HOL-Library.Signed_Division"
begin

text \<open>
  Broken-down dates (\<open>struct tm\<close>) and their conversion to seconds since 1970, which
  \<open>libsnapwebsites/src/snapwebsites/mkgmtime.c\<close> computes without time zones; the last day of a month
  (\<open>snap_child::last_day_of_month\<close>); and what \<open>gmtime_r\<close> of the C library does. Years count from 1900
  in the fields, months from 0.
\<close>

section \<open>Dates\<close>

record tm =
  tm_sec :: int
  tm_min :: int
  tm_hour :: int
  tm_mday :: int
  tm_mon :: int
  tm_year :: int
  tm_wday :: int
  tm_yday :: int

definition is_leap :: "int \<Rightarrow> bool" where
  "is_leap y \<longleftrightarrow> y smod 4 = 0 \<and> (y smod 100 \<noteq> 0 \<or> (y + 1900) smod 400 = 0)"

definition days_in_year :: "int \<Rightarrow> int" where
  "days_in_year y = (if is_leap y then 366 else 365)"

text \<open>\<open>leap\<close> is whether \<open>days_in_feb\<close> is 29.\<close>

definition days_in_month :: "bool \<Rightarrow> int \<Rightarrow> int" where
  "days_in_month leap m =
     (if m = 1 then (if leap then 29 else 28) else if m \<in> {3, 5, 8, 10} then 30 else 31)"

definition days_before_month :: "int \<Rightarrow> int" where
  "days_before_month m = [0, 31, 59, 90, 120, 151, 181, 212, 243, 273, 304, 334] ! nat m"

section \<open>Out of range values\<close>

text \<open>A value out of \<open>0 .. n - 1\<close> is replaced by its remainder; the quotient goes to the next unit.\<close>

definition carry :: "int \<Rightarrow> int \<Rightarrow> int \<times> int" where
  "carry n x =
     (if x < 0 \<or> x > n - 1 then
        (if x smod n < 0 then (x sdiv n - 1, x smod n + n) else (x sdiv n, x smod n))
      else (0, x))"

function days_down :: "bool \<Rightarrow> int \<Rightarrow> int \<Rightarrow> int \<Rightarrow> int \<times> int \<times> int" where
  "days_down leap y m d =
     (if d > 0 then (y, m, d)
      else
        let y' = (if m - 1 = -1 then y - 1 else y); m' = (if m - 1 = -1 then 11 else m - 1);
            leap' = (if m - 1 = -1 then days_in_year y' = 366 else leap) in
        days_down leap' y' m' (d + days_in_month leap' m'))"
  by pat_completeness auto

termination
  by (relation "measure (\<lambda>(leap, y, m, d). nat (1 - d))") (auto simp: days_in_month_def split: if_splits)

function days_up :: "bool \<Rightarrow> int \<Rightarrow> int \<Rightarrow> int \<Rightarrow> int \<times> int \<times> int" where
  "days_up leap y m d =
     (if d \<le> days_in_month leap m then (y, m, d)
      else
        let y' = (if m + 1 = 12 then y + 1 else y); m' = (if m + 1 = 12 then 0 else m + 1);
            leap' = (if m + 1 = 12 then days_in_year y' = 366 else leap) in
        days_up leap' y' m' (d - days_in_month leap m))"
  by pat_completeness auto

termination
  by (relation "measure (\<lambda>(leap, y, m, d). nat d)") (auto simp: days_in_month_def split: if_splits)

definition validate_structure :: "tm \<Rightarrow> tm" where
  "validate_structure t =
     (let (q1, sec) = carry 60 (tm_sec t); (q2, mn) = carry 60 (tm_min t + q1);
          (q3, hour) = carry 24 (tm_hour t + q2); mday = tm_mday t + q3;
          (q4, mon) = (if tm_mon t > 11 then carry 12 (tm_mon t) else (0, tm_mon t));
          year = tm_year t + q4; leap = (days_in_year year = 366);
          (y, m, d) = (if mday \<le> 0 then days_down leap year mon mday else days_up leap year mon mday) in
      t\<lparr>tm_sec := sec, tm_min := mn, tm_hour := hour, tm_mday := d, tm_mon := m, tm_year := y\<rparr>)"

section \<open>Seconds since 1970\<close>

definition year_days :: "int \<Rightarrow> int" where
  "year_days y =
     (if y > 70 then sum_list (map days_in_year [70..y - 1])
      else if y < 70 then - sum_list (map days_in_year [y + 1..69]) - days_in_year y
      else 0)"

definition day_of_year :: "tm \<Rightarrow> int" where
  "day_of_year t = tm_mday t - 1 + days_before_month (tm_mon t)
     + (if tm_mon t > 1 \<and> days_in_year (tm_year t) = 366 then 1 else 0)"

definition mkgmtime :: "tm \<Rightarrow> int" where
  "mkgmtime t0 =
     (let t = validate_structure t0 in
      if tm_year t > 10000 \<or> tm_year t < -10000 then -1
      else tm_sec t + tm_min t * 60 + tm_hour t * 3600 + (day_of_year t + year_days (tm_year t)) * 86400)"

definition g_month_days :: "int list" where
  "g_month_days = [31, 28, 31, 30, 31, 30, 31, 31, 30, 31, 30, 31]"

definition last_day_of_month :: "int \<Rightarrow> int \<Rightarrow> int res" where
  "last_day_of_month month year =
     (if month < 1 \<or> month > 12 then Inl Snap_logic_error
      else if month = 2 then
        Inr (if year \<le> 1752 then (if year smod 4 = 0 then 29 else 28)
             else if year smod 4 = 0 \<and> (year smod 100 \<noteq> 0 \<or> year smod 400 = 0) then 29 else 28)
      else if month = 9 \<and> year = 1752 then Inl Snap_logic_error
      else Inr (g_month_days ! nat (month - 1)))"

section \<open>The C library\<close>

text \<open>\<open>gmtime_r\<close>: the year and the day in it, the month and the day in it, by counting.\<close>

function split_year :: "int \<Rightarrow> int \<Rightarrow> int \<times> int" where
  "split_year y d =
     (if d < 0 then split_year (y - 1) (d + days_in_year (y - 1))
      else if d \<ge> days_in_year y then split_year (y + 1) (d - days_in_year y)
      else (y, d))"
  by pat_completeness auto

termination
  by (relation "measure (\<lambda>(y, d). if d < 0 then nat (- d) + 1 else if d \<ge> days_in_year y then nat d + 1 else 0)")
    (auto simp: days_in_year_def)

function split_month :: "bool \<Rightarrow> int \<Rightarrow> int \<Rightarrow> int \<times> int" where
  "split_month leap m d =
     (if m \<ge> 11 \<or> d < days_in_month leap m then (m, d + 1)
      else split_month leap (m + 1) (d - days_in_month leap m))"
  by pat_completeness auto

termination
  by (relation "measure (\<lambda>(leap, m, d). nat (11 - m))") auto

definition gmtime :: "int \<Rightarrow> tm" where
  "gmtime t =
     (let days = t div 86400; s = t mod 86400; (y, yd) = split_year 70 days;
          (m, d) = split_month (is_leap y) 0 yd in
      \<lparr>tm_sec = s mod 60, tm_min = s div 60 mod 60, tm_hour = s div 3600, tm_mday = d, tm_mon = m,
       tm_year = y, tm_wday = (days + 4) mod 7, tm_yday = yd\<rparr>)"

declare days_down.simps [simp del] days_up.simps [simp del] split_year.simps [simp del] split_month.simps [simp del]

section \<open>A date and its number of seconds\<close>

lemma carry_floor: "0 < n \<Longrightarrow> carry n x = (x div n, x mod n)"
proof -
  assume n: "0 < n"
  consider "0 \<le> x" "x < n" | "n \<le> x" | "x < 0" "n dvd x" | "x < 0" "\<not> n dvd x" by linarith
  then show ?thesis
  proof cases
    case 2
    have "\<not> x mod n < 0" using pos_mod_sign [OF n, of x] by linarith
    with 2 n show ?thesis
      by (simp add: carry_def signed_divide_int_eq_divide_int signed_modulo_int_eq_modulo_int)
  next
    case 4
    have "x mod n - n < 0" using n by simp
    with 4 n show ?thesis
      by (simp add: carry_def signed_divide_int_eq_divide_int signed_modulo_int_eq_modulo_int)
  qed (use n in \<open>auto simp: carry_def signed_divide_int_eq_divide_int signed_modulo_int_eq_modulo_int\<close>)
qed

lemma carry_in_range: "0 \<le> x \<Longrightarrow> x < n \<Longrightarrow> carry n x = (0, x)"
  by (simp add: carry_def)

lemma smod_0_iff: "0 < n \<Longrightarrow> x smod n = 0 \<longleftrightarrow> (n :: int) dvd x"
  by (auto simp: signed_modulo_int_eq_modulo_int dvd_eq_mod_eq_0) (smt (verit) pos_mod_bound)

lemma days_in_month_pos: "28 \<le> days_in_month leap m" "days_in_month leap m \<le> 31"
  by (simp_all add: days_in_month_def)

text \<open>The first day of a year, counted from 1970.\<close>

lemma year_days_next: "year_days (y + 1) = year_days y + days_in_year y"
proof -
  consider "y > 70" | "y = 70" | "y = 69" | "y < 69" by linarith
  then show ?thesis
  proof cases
    case 1
    then have "[70..y] = [70..y - 1] @ [y]" by (simp add: upto_rec2)
    with 1 show ?thesis by (simp add: year_days_def)
  next
    case 4
    have "[y + 1..69] = (y + 1) # [y + 1 + 1..69]" by (rule upto_rec1) (use 4 in simp)
    with 4 show ?thesis by (simp add: year_days_def add.commute)
  qed (simp_all add: year_days_def upto_rec1)
qed

lemma split_year_days:
  assumes "split_year y0 d0 = (y, d)"
  shows "year_days y + d = year_days y0 + d0" "0 \<le> d" "d < days_in_year y"
proof -
  have "year_days (fst p) + snd p = year_days y0 + d0 \<and> 0 \<le> snd p \<and> snd p < days_in_year (fst p)"
    if "p = split_year y0 d0" for p
    using that
  proof (induction y0 d0 arbitrary: p rule: split_year.induct)
    case (1 y d)
    show ?case
      using 1 year_days_next [of y] year_days_next [of "y - 1"]
      by (subst (asm) (3) split_year.simps) (auto split: if_splits)
  qed
  from this [of "(y, d)"] assms
  show "year_days y + d = year_days y0 + d0" "0 \<le> d" "d < days_in_year y" by simp_all
qed

lemma split_month_days:
  assumes "0 \<le> yd" "yd < (if leap then 366 else 365)" "split_month leap 0 yd = (m, d)"
  shows "0 \<le> m" "m \<le> 11" "1 \<le> d" "d \<le> days_in_month leap m"
    "d - 1 + days_before_month m + (if m > 1 \<and> leap then 1 else 0) = yd"
proof -
  have "0 \<le> m \<and> m \<le> 11 \<and> 1 \<le> d \<and> d \<le> days_in_month leap m
    \<and> d - 1 + days_before_month m + (if m > 1 \<and> leap then 1 else 0) = yd"
    using assms
    by (cases leap) (simp_all add: split_month.simps days_in_month_def days_before_month_def split: if_splits)
  then show "0 \<le> m" "m \<le> 11" "1 \<le> d" "d \<le> days_in_month leap m"
    "d - 1 + days_before_month m + (if m > 1 \<and> leap then 1 else 0) = yd" by simp_all
qed

lemma leap_year: "days_in_year y = 366 \<longleftrightarrow> is_leap y"
  by (simp add: days_in_year_def)

text \<open>The days from 1970 to a date.\<close>

definition day_number :: "int \<Rightarrow> int \<Rightarrow> int \<Rightarrow> int" where
  "day_number y m d =
     d - 1 + days_before_month m + (if m > 1 \<and> is_leap y then 1 else 0) + year_days y"

lemma months_cases: "0 \<le> m \<Longrightarrow> m \<le> 11 \<Longrightarrow> (m :: int) \<in> {0, 1, 2, 3, 4, 5, 6, 7, 8, 9, 10, 11}"
  unfolding insert_iff empty_iff by presburger

lemma day_number_next_month:
  "0 \<le> m \<Longrightarrow> m < 11 \<Longrightarrow> day_number y (m + 1) d = day_number y m (d + days_in_month (is_leap y) m)"
  using months_cases [of m] by (auto simp: day_number_def days_before_month_def days_in_month_def)

lemma day_number_next_year: "day_number (y + 1) 0 d = day_number y 11 (d + 31)"
  by (simp add: day_number_def days_before_month_def year_days_next days_in_year_def)

lemma days_down_number:
  assumes "0 \<le> m" "m \<le> 11" "days_down (is_leap y) y m d = (y', m', d')"
  shows "day_number y' m' d' = day_number y m d \<and> 0 \<le> m' \<and> m' \<le> 11 \<and> 0 < d'"
proof -
  have "day_number (fst p) (fst (snd p)) (snd (snd p)) = day_number y m d \<and> 0 \<le> fst (snd p) \<and> fst (snd p) \<le> 11
      \<and> 0 < snd (snd p)"
    if "leap = is_leap y" "0 \<le> m" "m \<le> 11" "p = days_down leap y m d" for leap p
    using that
  proof (induction leap y m d arbitrary: p rule: days_down.induct)
    case (1 leap y m d)
    show ?case
    proof (cases "d > 0")
      case True
      then have "p = (y, m, d)" using 1(5) by (simp add: days_down.simps [of leap y m d])
      with True 1(3,4) show ?thesis by simp
    next
      case False
      show ?thesis
      proof (cases "m = 0")
        case True
        have "p = days_down (is_leap (y - 1)) (y - 1) 11 (d + days_in_month (is_leap (y - 1)) 11)"
          using 1(5) False True by (simp add: days_down.simps [of leap y 0 d] leap_year Let_def)
        with 1(1) [OF False, of "y - 1" 11 "is_leap (y - 1)" p] True show ?thesis
          using day_number_next_year [of "y - 1" d] by (simp add: leap_year days_in_month_def)
      next
        case m: False
        have "p = days_down leap y (m - 1) (d + days_in_month leap (m - 1))"
          using 1(5) False m by (simp add: days_down.simps [of leap y m d] Let_def)
        with 1(1) [OF False, of y "m - 1" leap p] m 1(2-4) show ?thesis
          using day_number_next_month [of "m - 1" y d] by simp
      qed
    qed
  qed
  from this [OF refl assms(1,2), of "(y', m', d')"] assms(3) show ?thesis by simp
qed

lemma days_up_number:
  assumes "0 \<le> m" "m \<le> 11" "0 < d" "days_up (is_leap y) y m d = (y', m', d')"
  shows "day_number y' m' d' = day_number y m d \<and> 0 \<le> m' \<and> m' \<le> 11 \<and> 0 < d'"
proof -
  have "day_number (fst p) (fst (snd p)) (snd (snd p)) = day_number y m d \<and> 0 \<le> fst (snd p) \<and> fst (snd p) \<le> 11
      \<and> 0 < snd (snd p)"
    if "leap = is_leap y" "0 \<le> m" "m \<le> 11" "0 < d" "p = days_up leap y m d" for leap p
    using that
  proof (induction leap y m d arbitrary: p rule: days_up.induct)
    case (1 leap y m d)
    show ?case
    proof (cases "d \<le> days_in_month leap m")
      case True
      then have "p = (y, m, d)" using 1(6) by (simp add: days_up.simps [of leap y m d])
      with True 1(3-5) show ?thesis by simp
    next
      case False
      show ?thesis
      proof (cases "m = 11")
        case True
        have "p = days_up (is_leap (y + 1)) (y + 1) 0 (d - 31)"
          using 1(6) False True by (simp add: days_up.simps [of leap y 11 d] leap_year days_in_month_def Let_def)
        with 1(1) [OF False, of "y + 1" 0 "is_leap (y + 1)" p] True False show ?thesis
          using day_number_next_year [of y "d - 31"] by (simp add: leap_year days_in_month_def)
      next
        case m: False
        have "p = days_up leap y (m + 1) (d - days_in_month leap m)"
          using 1(6) False m by (simp add: days_up.simps [of leap y m d] Let_def)
        with 1(1) [OF False, of y "m + 1" leap p] m False 1(2-4) show ?thesis
          using day_number_next_month [of m y "d - days_in_month leap m"] by simp
      qed
    qed
  qed
  from this [OF refl assms(1-3), of "(y', m', d')"] assms(4) show ?thesis by simp
qed

section \<open>What \<open>mkgmtime\<close> computes\<close>

text \<open>The instant of a date with any fields but a negative month: days, hours, minutes and seconds add up.\<close>

definition instant :: "tm \<Rightarrow> int" where
  "instant t = tm_sec t + 60 * tm_min t + 3600 * tm_hour t
     + 86400 * day_number (tm_year t + tm_mon t div 12) (tm_mon t mod 12) (tm_mday t)"

lemma units_add_up:
  fixes a0 a1 b0 b1 c0 c1 :: int
  shows "a0 + 60 * b0 + 3600 * c0 + 86400 * c1
    = (60 * a1 + a0) + 60 * ((60 * b1 + b0) - a1) + 3600 * ((24 * c1 + c0) - b1)"
  by simp

lemma seconds_carried:
  fixes a b c :: int
  assumes "b = k + a div 60" "c = l + b div 60"
  shows "a mod 60 + 60 * (b mod 60) + 3600 * (c mod 24) + 86400 * (c div 24) = a + 60 * k + 3600 * l"
proof -
  have k: "k = b - a div 60" and l: "l = c - b div 60" using assms by (simp_all only: add_diff_cancel_right')
  show ?thesis
    unfolding k l
    using units_add_up [of "a mod 60" "b mod 60" "c mod 24" "c div 24" "a div 60" "b div 60"]
    unfolding mult_div_mod_eq .
qed

lemma seconds_split: "s mod 60 + 60 * (s div 60 mod 60) + 3600 * (s div 3600) = (s :: int)"
proof -
  have "s div 3600 = s div 60 div 60" using zdiv_zmult2_eq [of 60 s 60] by simp
  then show ?thesis
    using units_add_up [of "s mod 60" "s div 60 mod 60" "s div 60 div 60" 0 "s div 60" "s div 60 div 60"]
    unfolding mult_div_mod_eq by simp
qed

lemma day_number_add: "day_number y m (d + k) = day_number y m d + k"
  by (simp add: day_number_def)

lemma validate_structure_instant:
  assumes "0 \<le> tm_mon t"
  defines "v \<equiv> validate_structure t"
  shows "tm_sec v + 60 * tm_min v + 3600 * tm_hour v + 86400 * day_number (tm_year v) (tm_mon v) (tm_mday v)
      = instant t"
    and "0 \<le> tm_mon v" "tm_mon v \<le> 11"
proof -
  define mn hour mday where
    "mn = tm_min t + tm_sec t div 60" and "hour = tm_hour t + mn div 60" and "mday = tm_mday t + hour div 24"
  define year mon where "year = tm_year t + tm_mon t div 12" and "mon = tm_mon t mod 12"
  have month: "(if tm_mon t > 11 then carry 12 (tm_mon t) else (0, tm_mon t)) = (tm_mon t div 12, mon)"
    using assms(1) by (simp add: carry_floor mon_def)
  have range: "0 \<le> mon" "mon \<le> 11" by (simp_all add: mon_def)
  obtain y m d where days: "(if mday \<le> 0 then days_down (days_in_year year = 366) year mon mday
      else days_up (days_in_year year = 366) year mon mday) = (y, m, d)" by (rule prod_cases3)
  have v: "v = t\<lparr>tm_sec := tm_sec t mod 60, tm_min := mn mod 60, tm_hour := hour mod 24, tm_mday := d,
      tm_mon := m, tm_year := y\<rparr>"
    using days by (simp add: v_def validate_structure_def carry_floor month Let_def
        flip: mn_def hour_def mday_def year_def mon_def split: if_splits)
  have number: "day_number y m d = day_number year mon mday \<and> 0 \<le> m \<and> m \<le> 11"
    using days days_down_number [OF range, of year mday y m d] days_up_number [OF range, of mday year y m d]
    by (simp add: leap_year split: if_splits)
  then show "0 \<le> tm_mon v" "tm_mon v \<le> 11" by (simp_all add: v)
  have "tm_sec t mod 60 + 60 * (mn mod 60) + 3600 * (hour mod 24) + 86400 * (hour div 24)
      = tm_sec t + 60 * tm_min t + 3600 * tm_hour t"
    by (rule seconds_carried [OF mn_def hour_def])
  then show "tm_sec v + 60 * tm_min v + 3600 * tm_hour v + 86400 * day_number (tm_year v) (tm_mon v) (tm_mday v)
      = instant t"
    using number
    by (simp add: v instant_def mday_def day_number_add flip: year_def mon_def)
qed

lemma mkgmtime_instant:
  assumes "0 \<le> tm_mon t" "\<bar>tm_year (validate_structure t)\<bar> \<le> 10000"
  shows "mkgmtime t = instant t"
  using validate_structure_instant [OF assms(1)] assms(2)
  by (auto simp: mkgmtime_def day_of_year_def day_number_def leap_year Let_def)

lemma gmtime_valid:
  "1 \<le> tm_mday (gmtime t) \<and> tm_mday (gmtime t) \<le> days_in_month (is_leap (tm_year (gmtime t))) (tm_mon (gmtime t))"
  "0 \<le> tm_mon (gmtime t) \<and> tm_mon (gmtime t) \<le> 11"
  "0 \<le> tm_sec (gmtime t) \<and> tm_sec (gmtime t) < 60" "0 \<le> tm_min (gmtime t) \<and> tm_min (gmtime t) < 60"
  "0 \<le> tm_hour (gmtime t) \<and> tm_hour (gmtime t) < 24" "0 \<le> tm_wday (gmtime t) \<and> tm_wday (gmtime t) < 7"
  "instant (gmtime t) = t"
proof -
  obtain y yd where y: "split_year 70 (t div 86400) = (y, yd)" by fastforce
  obtain m d where m: "split_month (is_leap y) 0 yd = (m, d)" by fastforce
  note yd = split_year_days [OF y]
  have "yd < (if is_leap y then 366 else 365)" using yd(3) by (simp add: days_in_year_def split: if_splits)
  note md = split_month_days [OF yd(2) this m]
  have g: "gmtime t = \<lparr>tm_sec = t mod 86400 mod 60, tm_min = t mod 86400 div 60 mod 60,
      tm_hour = t mod 86400 div 3600, tm_mday = d, tm_mon = m, tm_year = y,
      tm_wday = (t div 86400 + 4) mod 7, tm_yday = yd\<rparr>"
    by (simp add: gmtime_def y m Let_def)
  show "1 \<le> tm_mday (gmtime t) \<and> tm_mday (gmtime t) \<le> days_in_month (is_leap (tm_year (gmtime t))) (tm_mon (gmtime t))"
    "0 \<le> tm_mon (gmtime t) \<and> tm_mon (gmtime t) \<le> 11"
    "0 \<le> tm_sec (gmtime t) \<and> tm_sec (gmtime t) < 60" "0 \<le> tm_min (gmtime t) \<and> tm_min (gmtime t) < 60"
    "0 \<le> tm_wday (gmtime t) \<and> tm_wday (gmtime t) < 7"
    using md by (simp_all add: g)
  define s where "s = t mod 86400"
  have "0 \<le> s \<and> s < 86400" by (simp add: s_def)
  then have "0 \<le> s div 3600 \<and> s div 3600 < 24"
    using zdiv_mono1 [of s 86399 3600] by (simp add: pos_imp_zdiv_nonneg_iff)
  then have h: "0 \<le> t mod 86400 div 3600 \<and> t mod 86400 div 3600 < 24" by (simp add: s_def)
  then show "0 \<le> tm_hour (gmtime t) \<and> tm_hour (gmtime t) < 24" by (simp add: g)
  have "t mod 86400 mod 60 + 60 * (t mod 86400 div 60 mod 60) + 3600 * (t mod 86400 div 3600)
      + 86400 * (t div 86400) = t" unfolding seconds_split by simp
  moreover have "day_number y m d = t div 86400"
    using md(5) yd(1) by (simp add: day_number_def year_days_def)
  moreover have "y + m div 12 = y" "m mod 12 = m" using md(1,2) by simp_all
  ultimately show "instant (gmtime t) = t" by (simp only: g instant_def tm.simps)
qed

text \<open>A date that is right already is left as it is.\<close>

definition date_in_range :: "tm \<Rightarrow> bool" where
  "date_in_range t \<longleftrightarrow> 0 \<le> tm_sec t \<and> tm_sec t < 60 \<and> 0 \<le> tm_min t \<and> tm_min t < 60 \<and> 0 \<le> tm_hour t \<and> tm_hour t < 24
     \<and> 1 \<le> tm_mday t \<and> tm_mday t \<le> days_in_month (is_leap (tm_year t)) (tm_mon t) \<and> 0 \<le> tm_mon t \<and> tm_mon t \<le> 11"

lemma date_in_range_gmtime: "date_in_range (gmtime t)"
  using gmtime_valid [of t] by (simp add: date_in_range_def)

lemma validate_structure_in_range: "date_in_range t \<Longrightarrow> validate_structure t = t"
  by (simp add: date_in_range_def validate_structure_def carry_in_range leap_year days_up.simps)

lemma mkgmtime_in_range: "date_in_range t \<Longrightarrow> \<bar>tm_year t\<bar> \<le> 10000 \<Longrightarrow> mkgmtime t = instant t"
  by (rule mkgmtime_instant) (simp_all add: validate_structure_in_range, simp add: date_in_range_def)

text \<open>A few days more than a month has end in the same year or the next.\<close>

lemma days_up_year: "d \<le> 56 \<Longrightarrow> fst (days_up leap y m d) = y \<or> fst (days_up leap y m d) = y + 1"
proof -
  assume d: "d \<le> 56"
  have step: "fst (days_up l y' m' d') = y'" if "d' \<le> 28" for l y' m' d'
    using that days_in_month_pos [of l m'] by (simp add: days_up.simps [of l y' m' d'])
  show ?thesis
    using d days_in_month_pos [of leap m]
    by (subst (1 2) days_up.simps [of leap y m d]) (simp add: step Let_def)
qed

lemma mkgmtime_later:
  assumes "date_in_range t" "\<bar>tm_year t\<bar> < 10000" "0 \<le> h" "h < 240" "0 \<le> m" "m < 240"
  shows "mkgmtime (t\<lparr>tm_hour := tm_hour t + h, tm_min := tm_min t + m\<rparr>) = instant t + 3600 * h + 60 * m"
proof -
  let ?t = "t\<lparr>tm_hour := tm_hour t + h, tm_min := tm_min t + m\<rparr>"
  let ?mn = "tm_min t + m" and ?hour = "tm_hour t + h + (tm_min t + m) div 60"
  let ?mday = "tm_mday t + ?hour div 24"
  note r = assms(1) [unfolded date_in_range_def]
  have hour: "0 \<le> ?hour" "?hour < 24 + 240 + 5" 
    using r assms(3-6) zdiv_mono1 [of ?mn 299 60] by (simp_all add: pos_imp_zdiv_nonneg_iff)
  then have mday: "0 < ?mday" "?mday \<le> 56"
    using r days_in_month_pos [of "is_leap (tm_year t)" "tm_mon t"] zdiv_mono1 [of ?hour 268 24]
    by (simp_all add: pos_imp_zdiv_nonneg_iff add_pos_nonneg)
  have "tm_year (validate_structure ?t) = fst (days_up (is_leap (tm_year t)) (tm_year t) (tm_mon t) ?mday)"
    using r mday(1) by (simp add: validate_structure_def carry_in_range carry_floor leap_year Let_def split: prod.split)
  then have "\<bar>tm_year (validate_structure ?t)\<bar> \<le> 10000"
    using days_up_year [OF mday(2), of "is_leap (tm_year t)" "tm_year t" "tm_mon t"] assms(2) by auto
  then have "mkgmtime ?t = instant ?t" using r by (intro mkgmtime_instant) simp_all
  then show ?thesis by (simp add: instant_def)
qed

end
