(* ===== verification/HttpText.thy ===== *)
theory HttpText
  imports SnapPrelude
begin

text \<open>
  Texts of the HTTP protocol: what \<open>libsnapwebsites/src/snapwebsites\<close> uses of Qt on them, the character
  classes of the C library it scans them with, and texts of words, which Qt does not change.
\<close>

section \<open>Qt\<close>

text \<open>
  \<open>simplified\<close> is \<open>QString::simplified\<close>, \<open>to_lower\<close> is \<open>QString::toLower\<close>, \<open>trim\<close> is
  \<open>boost::trim_copy\<close>, \<open>q_trimmed\<close> is \<open>QString::trimmed\<close>, \<open>to_float\<close> is \<open>QString::toFloat\<close>: the number when \<open>ok\<close>
  is set. Every finite \<open>float\<close> is a multiple of the smallest one: \<open>Level n\<close> is n times 2 to the power of -149.
\<close>

datatype level = Level int | Infinity bool | Not_a_number

record qt_env =
  simplified :: "string \<Rightarrow> string"
  to_lower :: "string \<Rightarrow> string"
  trim :: "string \<Rightarrow> string"
  q_trimmed :: "string \<Rightarrow> string"
  to_float :: "string \<Rightarrow> level option"

section \<open>The C library\<close>

definition isspace :: "char \<Rightarrow> bool" where
  "isspace c \<longleftrightarrow> c \<in> {CHR '' '', CHR 0x09, CHR 0x0A, CHR 0x0B, CHR 0x0C, CHR 0x0D}"

definition blank_char :: "char \<Rightarrow> bool" where
  "blank_char c \<longleftrightarrow> c = CHR '' '' \<or> c = CHR 0x09"

definition isdigit :: "char \<Rightarrow> bool" where
  "isdigit c \<longleftrightarrow> CHR ''0'' \<le> c \<and> c \<le> CHR ''9''"

definition skip_spaces :: "string \<Rightarrow> string" where
  "skip_spaces = dropWhile isspace"

text \<open>
  A \<open>char const *\<close> is the rest of its buffer. \<open>peek s k\<close> is \<open>s[k]\<close>, NUL at the end of the
  buffer; \<open>c_str s\<close> the string that \<open>s\<close> points to.
\<close>

definition peek :: "string \<Rightarrow> nat \<Rightarrow> char" where
  "peek s k = (if k < length s then s ! k else CHR 0x00)"

definition c_str :: "string \<Rightarrow> string" where
  "c_str = takeWhile (\<lambda>c. c \<noteq> CHR 0x00)"

lemma peek_simps [simp]:
  "peek [] k = CHR 0x00" "peek (c # s) 0 = c" "peek (c # s) (Suc k) = peek s k"
  "peek (c # s) (numeral n) = peek s (pred_numeral n)" "peek (c # s) 1 = peek s 0"
  by (simp_all add: peek_def numeral_eq_Suc)

section \<open>Texts of words\<close>

text \<open>Printable ASCII characters, in words that single spaces separate.\<close>

definition word_char :: "char \<Rightarrow> bool" where
  "word_char c \<longleftrightarrow> CHR ''!'' \<le> c \<and> c \<le> CHR ''~''"

fun simple_text :: "string \<Rightarrow> bool" where
  "simple_text [] = True"
| "simple_text [c] = word_char c"
| "simple_text (c # d # r) =
     (word_char c \<and> (if d = CHR '' '' then r \<noteq> [] \<and> simple_text r else simple_text (d # r)))"

definition ascii_lower :: "char \<Rightarrow> char" where
  "ascii_lower c = (if CHR ''A'' \<le> c \<and> c \<le> CHR ''Z'' then char_of (of_char c + 32 :: nat) else c)"

text \<open>What the documentation of Qt says of such texts.\<close>

definition qt_ok :: "qt_env \<Rightarrow> bool" where
  "qt_ok v \<longleftrightarrow> (\<forall>s. simple_text s \<longrightarrow> simplified v s = s)
     \<and> (\<forall>s. (\<forall>c\<in>set s. c \<le> CHR ''~'') \<longrightarrow> to_lower v s = map ascii_lower s)
     \<and> (\<forall>s. simple_text s \<longrightarrow> trim v s = s)"

lemma simple_text_ascii: "simple_text s \<Longrightarrow> \<forall>c\<in>set s. c \<le> CHR ''~''"
  by (induction s rule: simple_text.induct) (auto simp: word_char_def split: if_splits)

lemma qt_ok_simps:
  assumes "qt_ok v"
  shows "simple_text s \<Longrightarrow> simplified v s = s" "simple_text s \<Longrightarrow> to_lower v s = map ascii_lower s"
    "simple_text s \<Longrightarrow> trim v s = s"
  using assms simple_text_ascii [of s] by (auto simp: qt_ok_def)

lemma simple_text_word: "w \<noteq> [] \<Longrightarrow> list_all word_char w \<Longrightarrow> simple_text w"
  by (induction w rule: simple_text.induct) (auto simp: word_char_def)

lemma simple_text_words:
  "w \<noteq> [] \<Longrightarrow> list_all word_char w \<Longrightarrow> r \<noteq> [] \<Longrightarrow> simple_text (w @ CHR '' '' # r) = simple_text r"
proof (induction w rule: simple_text.induct)
  case (3 c d w)
  then show ?case by (auto simp: word_char_def)
qed simp_all

lemma word_char_digit: "d < 10 \<Longrightarrow> word_char (digit d)"
  by (simp add: word_char_def digit_def less_eq_char_def)

text \<open>An environment with that documented behaviour.\<close>

fun squeeze :: "string \<Rightarrow> string" where
  "squeeze [] = []"
| "squeeze [c] = (if isspace c then [] else [c])"
| "squeeze (c # d # r) =
     (if isspace c then (if isspace d \<or> squeeze (d # r) = [] then squeeze (d # r) else CHR '' '' # squeeze (d # r))
      else c # squeeze (d # r))"

definition std_text :: qt_env where
  "std_text = \<lparr>simplified = (\<lambda>s. squeeze (skip_spaces s)), to_lower = map ascii_lower,
     trim = (\<lambda>s. rev (skip_spaces (rev (skip_spaces s)))), q_trimmed = (\<lambda>s. rev (skip_spaces (rev (skip_spaces s)))),
     to_float = (\<lambda>s. if s \<noteq> [] \<and> list_all isdigit s
        then Some (Level (2 ^ 149 * foldl (\<lambda>n c. n * 10 + int (of_char c - 48 :: nat)) 0 s)) else None)\<rparr>"

lemma word_char_not_space: "word_char c \<Longrightarrow> \<not> isspace c"
  by (auto simp: word_char_def isspace_def less_eq_char_def)

lemma squeeze_simple: "simple_text s \<Longrightarrow> squeeze s = s \<and> (s \<noteq> [] \<longrightarrow> word_char (hd s) \<and> word_char (last s))"
proof (induction s rule: simple_text.induct)
  case (3 c d r)
  show ?case
  proof (cases "d = CHR '' ''")
    case True
    obtain e r' where r: "r = e # r'" using 3 True by (cases r) auto
    have "squeeze r = r" "word_char e" "word_char (last r)" using 3 True r by auto
    then have "squeeze (CHR '' '' # r) = CHR '' '' # r"
      using word_char_not_space [of e] r by (simp add: isspace_def)
    then show ?thesis using 3(3) True r \<open>word_char (last r)\<close> word_char_not_space [of c] by simp
  next
    case False
    then show ?thesis using 3 word_char_not_space [of c] by simp
  qed
qed (auto dest: word_char_not_space)

lemma qt_ok_std: "qt_ok std_text"
proof -
  have "skip_spaces s = s" if "simple_text s" for s
    using squeeze_simple [OF that] word_char_not_space by (cases s) (auto simp: skip_spaces_def)
  moreover have "skip_spaces (rev s) = rev s" if "simple_text s" for s
    using squeeze_simple [OF that] word_char_not_space by (cases s rule: rev_cases) (auto simp: skip_spaces_def)
  ultimately show ?thesis
    by (simp add: qt_ok_def std_text_def squeeze_simple)
qed

end
