(* ===== verification/HttpDate.thy ===== *)
theory HttpDate
  imports CivilDate HttpText
begin

text \<open>
  Dates as text: \<open>snap_child::date_to_string\<close> and \<open>snap_child::string_to_date\<close> of
  \<open>libsnapwebsites/src/snapwebsites/snap_child.cpp\<close>. The parser is a chain of functions from the broken-down
  date and the rest of the text to both after them, None where the code returns false.
\<close>

section \<open>Names\<close>

definition g_week_day_name :: "string list" where
  "g_week_day_name = [''Sunday'', ''Monday'', ''Tuesday'', ''Wedneday'', ''Thursday'', ''Friday'', ''Saturday'']"

definition g_month_name :: "string list" where
  "g_month_name = [''January'', ''February'', ''Marsh'', ''April'', ''May'', ''June'', ''July'', ''August'',
     ''September'', ''October'', ''November'', ''December'']"

definition g_timezone_adjust :: "int list" where
  "g_timezone_adjust = [-1, -2, -3, -4, -5, -6, -7, -8, -9, 0, -10, -11, -12,
     1, 2, 3, 4, 5, 6, 7, 8, 9, 10, 11, 12, 0]"

section \<open>Dates to text\<close>

datatype date_format_t =
    DATE_FORMAT_SHORT
  | DATE_FORMAT_SHORT_US
  | DATE_FORMAT_LONG
  | DATE_FORMAT_TIME
  | DATE_FORMAT_EMAIL
  | DATE_FORMAT_HTTP

text \<open>\<open>arg(i, k, 10, QChar('0'))\<close>: at least \<open>k\<close> characters, zeroes after the sign.\<close>

definition pad :: "nat \<Rightarrow> int \<Rightarrow> string" where
  "pad k i =
     (let s = dec_nat (nat \<bar>i\<bar>) in
      if i < 0 then CHR ''-'' # replicate (k - 1 - length s) (CHR ''0'') @ s
      else replicate (k - length s) (CHR ''0'') @ s)"

text \<open>The year of strftime's \<open>%Y\<close> is not padded; \<open>%m\<close>, \<open>%d\<close>, \<open>%H\<close>, \<open>%M\<close>, \<open>%S\<close> have two digits.\<close>

definition clock_text :: "tm \<Rightarrow> string" where
  "clock_text t = pad 2 (tm_hour t) @ '':'' @ pad 2 (tm_min t) @ '':'' @ pad 2 (tm_sec t)"

definition day_text :: "tm \<Rightarrow> string" where
  "day_text t = pad 2 (tm_mday t) @ '' '' @ take 3 (g_month_name ! nat (tm_mon t)) @ '' ''
     @ pad 4 (tm_year t + 1900)"

definition date_to_string :: "int \<Rightarrow> date_format_t \<Rightarrow> string" where
  "date_to_string v date_format =
     (let t = gmtime (v sdiv 1000000) in
      case date_format of
        DATE_FORMAT_SHORT \<Rightarrow> dec (tm_year t + 1900) @ ''-'' @ pad 2 (tm_mon t + 1) @ ''-'' @ pad 2 (tm_mday t)
      | DATE_FORMAT_SHORT_US \<Rightarrow> pad 2 (tm_mon t + 1) @ ''-'' @ pad 2 (tm_mday t) @ ''-'' @ dec (tm_year t + 1900)
      | DATE_FORMAT_LONG \<Rightarrow> dec (tm_year t + 1900) @ ''-'' @ pad 2 (tm_mon t + 1) @ ''-'' @ pad 2 (tm_mday t)
          @ ''T'' @ clock_text t @ ''Z''
      | DATE_FORMAT_TIME \<Rightarrow> clock_text t
      | DATE_FORMAT_EMAIL \<Rightarrow> day_text t @ '' '' @ clock_text t @ '' +0000''
      | DATE_FORMAT_HTTP \<Rightarrow> take 3 (g_week_day_name ! nat (tm_wday t)) @ '', '' @ day_text t @ '' ''
          @ clock_text t @ '' +0000'')"

section \<open>The parts of a date\<close>

definition find_name :: "string \<Rightarrow> string list \<Rightarrow> nat option" where
  "find_name s names =
     (case filter (\<lambda>i. take 3 (c_str s) = names ! i) [0..<length names] of [] \<Rightarrow> None | i # _ \<Rightarrow> Some i)"

definition skip_name :: "string \<Rightarrow> string \<Rightarrow> string" where
  "skip_name s name =
     (if take (length name - 3) (drop 3 s) = drop 3 name then drop (length name) s else drop 3 s)"

definition parse_week_day :: "tm \<times> string \<Rightarrow> (tm \<times> string) option" where
  "parse_week_day = (\<lambda>(t, s).
     case find_name s [''sun'', ''mon'', ''tue'', ''wed'', ''thu'', ''fri'', ''sat''] of
       None \<Rightarrow> None
     | Some i \<Rightarrow> Some (t\<lparr>tm_wday := int i\<rparr>, skip_name s (g_week_day_name ! i)))"

definition parse_month :: "tm \<times> string \<Rightarrow> (tm \<times> string) option" where
  "parse_month = (\<lambda>(t, s).
     case find_name s [''jan'', ''feb'', ''mar'', ''apr'', ''may'', ''jun'', ''jul'', ''aug'', ''sep'', ''oct'',
         ''nov'', ''dec''] of
       None \<Rightarrow> None
     | Some i \<Rightarrow> Some (t\<lparr>tm_mon := int i\<rparr>, skip_spaces (skip_name s (g_month_name ! i))))"

definition integer_step :: "32 word \<Rightarrow> char \<Rightarrow> 32 word" where
  "integer_step u c = u * 10 + of_nat (of_char c) - 48"

definition integer :: "nat \<Rightarrow> nat \<Rightarrow> 32 word \<Rightarrow> 32 word \<Rightarrow> string \<Rightarrow> (int \<times> string) option" where
  "integer min_len max_len min_value max_value s =
     (let digits = takeWhile isdigit s; u_result = foldl integer_step 0 digits; count = length digits in
      if count < min_len \<or> count > max_len \<or> u_result < min_value \<or> u_result > max_value then None
      else Some (sint u_result, dropWhile isdigit s))"

definition expect :: "char \<Rightarrow> string \<Rightarrow> string option" where
  "expect c s = (if peek s 0 = c then Some (tl s) else None)"

definition parse_time :: "tm \<times> string \<Rightarrow> (tm \<times> string) option" where
  "parse_time = (\<lambda>(t, s).
     Option.bind (integer 2 2 0 23 s) (\<lambda>(h, s).
     Option.bind (expect (CHR '':'') s) (\<lambda>s.
     Option.bind (integer 2 2 0 59 s) (\<lambda>(m, s).
     Option.bind (expect (CHR '':'') s) (\<lambda>s.
     Option.bind (integer 2 2 0 60 s) (\<lambda>(sec, s).
     Some (t\<lparr>tm_hour := h, tm_min := m, tm_sec := sec\<rparr>, skip_spaces s)))))))"

definition parse_mday :: "tm \<times> string \<Rightarrow> (tm \<times> string) option" where
  "parse_mday = (\<lambda>(t, s). map_option (\<lambda>(d, s). (t\<lparr>tm_mday := d\<rparr>, s)) (integer 1 2 1 31 s))"

definition parse_year :: "tm \<times> string \<Rightarrow> (tm \<times> string) option" where
  "parse_year = (\<lambda>(t, s). map_option (\<lambda>(y, s). (t\<lparr>tm_year := y\<rparr>, s)) (integer 2 4 0 3000 s))"

text \<open>The zones with a name, and the hours the code adds for them.\<close>

definition zone_names :: "(string \<times> int) list" where
  "zone_names = [(''ut'', 0), (''utc'', 0), (''gmt'', 0), (''est'', -5), (''edt'', -4), (''cst'', -6),
     (''cdt'', -5), (''mst'', -7), (''mdt'', -6), (''pst'', -8), (''pdt'', -7)]"

definition digit_value :: "char \<Rightarrow> int" where
  "digit_value c = int (of_char c) - 48"

definition parse_timezone :: "tm \<times> string \<Rightarrow> tm option" where
  "parse_timezone = (\<lambda>(t, s).
     let z = c_str s in
     if z = [] then Some t
     else (case map_of zone_names z of
       Some h \<Rightarrow> Some (t\<lparr>tm_hour := tm_hour t + h\<rparr>)
     | None \<Rightarrow>
         if length z = 1 \<and> CHR ''a'' \<le> hd z \<and> hd z \<le> CHR ''z'' \<and> hd z \<noteq> CHR ''j'' then
           Some (t\<lparr>tm_hour := tm_hour t + g_timezone_adjust ! (of_char (hd z) - 97)\<rparr>)
         else if length z = 5 \<and> (hd z = CHR ''+'' \<or> hd z = CHR ''-'') \<and> list_all isdigit (tl z) then
           (let sign = (if hd z = CHR ''+'' then 1 else -1) in
            Some (t\<lparr>tm_hour := tm_hour t + (digit_value (z ! 1) * 10 + digit_value (z ! 2)) * sign,
              tm_min := tm_min t + (digit_value (z ! 3) * 10 + digit_value (z ! 4)) * sign\<rparr>))
         else None))"

section \<open>The formats\<close>

definition skip :: "tm \<times> string \<Rightarrow> (tm \<times> string) option" where
  "skip = (\<lambda>(t, s). Some (t, skip_spaces s))"

definition parse_ansi :: "tm \<times> string \<Rightarrow> tm option" where
  "parse_ansi p =
     Option.bind (skip p) (\<lambda>p. Option.bind (parse_month p) (\<lambda>p. Option.bind (parse_mday p) (\<lambda>p.
     Option.bind (skip p) (\<lambda>p. Option.bind (parse_time p) (\<lambda>p. Option.bind (parse_year p) (\<lambda>p.
     Option.bind (skip p) parse_timezone))))))"

definition parse_us :: "tm \<times> string \<Rightarrow> tm option" where
  "parse_us p =
     Option.bind (skip p) (\<lambda>p. Option.bind (parse_month p) (\<lambda>p. Option.bind (skip p) (\<lambda>p.
     Option.bind (parse_mday p) (\<lambda>p. Option.bind (skip p) (\<lambda>p. Option.bind (parse_year p) (\<lambda>p.
     Option.bind (skip p) (\<lambda>p. map_option fst (parse_time p))))))))"

definition parse_iso :: "tm \<times> string \<Rightarrow> tm option" where
  "parse_iso = (\<lambda>(t, s).
     Option.bind (integer 4 4 0 3000 s) (\<lambda>(y, s). Option.bind (expect (CHR ''-'') s) (\<lambda>s.
     Option.bind (integer 2 2 1 12 s) (\<lambda>(m, s). Option.bind (expect (CHR ''-'') s) (\<lambda>s.
     Option.bind (integer 2 2 1 31 s) (\<lambda>(d, s).
     Some (t\<lparr>tm_year := y, tm_mon := m - 1, tm_mday := d\<rparr>)))))))"

definition skip_dash :: "string \<Rightarrow> string" where
  "skip_dash s = (if peek s 0 = CHR ''-'' then tl s else s)"

definition parse_http :: "tm \<times> string \<Rightarrow> tm option" where
  "parse_http p =
     Option.bind (parse_mday p) (\<lambda>(t, s). Option.bind (parse_month (t, skip_spaces (skip_dash s))) (\<lambda>(t, s).
     Option.bind (parse_year (t, if peek s 0 = CHR ''-'' then skip_spaces (tl s) else s)) (\<lambda>p.
     Option.bind (skip p) (\<lambda>p. Option.bind (parse_time p) parse_timezone))))"

text \<open>Whether the text ends in a time, as a date of the C preprocessor does.\<close>

definition preprocessor_date :: "string \<Rightarrow> bool" where
  "preprocessor_date s \<longleftrightarrow>
     length (c_str s) = 20 \<and> peek s 14 = CHR '':'' \<and> peek s 17 = CHR '':''
     \<or> length (c_str s) = 19 \<and> peek s 13 = CHR '':'' \<and> peek s 16 = CHR '':''"

definition tm_zero :: tm where
  "tm_zero = \<lparr>tm_sec = 0, tm_min = 0, tm_hour = 0, tm_mday = 0, tm_mon = 0, tm_year = 0, tm_wday = 0,
     tm_yday = 0\<rparr>"

definition parse_date :: "string \<Rightarrow> tm option" where
  "parse_date s =
     (if length s = 10 \<and> peek s 4 = CHR ''-'' \<and> peek s 7 = CHR ''-'' then parse_iso (tm_zero, s)
      else if CHR ''a'' \<le> peek s 0 \<and> peek s 0 \<le> CHR ''z'' then
        (case parse_week_day (tm_zero, s) of
           None \<Rightarrow> if preprocessor_date s then parse_us (tm_zero, s) else parse_ansi (tm_zero, s)
         | Some (t, r) \<Rightarrow>
             if peek r 0 = CHR '' '' then parse_ansi (t, r)
             else if peek r 0 \<noteq> CHR '','' then None
             else parse_http (t, skip_spaces (tl r)))
      else parse_http (tm_zero, s))"

text \<open>A year of two digits is in 1970 to 2069.\<close>

definition full_year :: "int \<Rightarrow> int" where
  "full_year y = (if y < 100 then (if y + 1900 < 1970 then y + 2000 else y + 1900) else y)"

definition string_to_date :: "qt_env \<Rightarrow> string \<Rightarrow> int res" where
  "string_to_date v date =
     (case parse_date (to_lower v (simplified v date)) of
        None \<Rightarrow> Inr (-1)
      | Some t \<Rightarrow>
          let year = full_year (tm_year t) in
          rbind (last_day_of_month (tm_mon t + 1) year) (\<lambda>last.
            if tm_mday t > last then Inr (-1) else Inr (mkgmtime (t\<lparr>tm_year := year - 1900\<rparr>))))"

end
