(* ===== verification/DateProps.thy ===== *)
theory DateProps
  imports HttpDate Numbers
begin

text \<open>
  A date printed for a header or a mail is read back as the same instant, and what the parser does with time
  zones.
\<close>

section \<open>Digits\<close>

lemma isdigit_digit: "d < 10 \<Longrightarrow> isdigit (digit d)"
  by (simp add: isdigit_def digit_def less_eq_char_def)

lemma digit_value_digit: "d < 10 \<Longrightarrow> digit_value (digit d) = int d"
  by (simp add: digit_value_def of_char_digit)

lemma ascii_lower_digit: "d < 10 \<Longrightarrow> ascii_lower (digit d) = digit d"
  by (simp add: ascii_lower_def digit_def less_eq_char_def)

lemma digit_range: "d < 10 \<Longrightarrow> CHR ''0'' \<le> digit d \<and> digit d \<le> CHR ''9''"
  using isdigit_digit [of d] by (simp add: isdigit_def)

lemma digit_plain: 
  assumes "d < 10"
  shows "\<not> isspace (digit d)" "digit d \<noteq> CHR ''-''" "\<not> CHR ''a'' \<le> digit d" "digit d \<noteq> CHR 0x00"
  using digit_range [OF assms] by (auto simp: isspace_def less_eq_char_def)

definition number_text :: "nat list \<Rightarrow> string" where
  "number_text ds = map digit ds"

lemma length_number_text: "length (number_text ds) = length ds"
  by (simp add: number_text_def)

definition value_of :: "nat list \<Rightarrow> nat" where
  "value_of = foldl (\<lambda>n d. n * 10 + d) 0"

lemma integer_step_digit: "d < 10 \<Longrightarrow> integer_step (of_nat n) (digit d) = of_nat (n * 10 + d)"
  by (simp add: integer_step_def of_char_digit algebra_simps)

lemma fold_integer_step:
  "list_all (\<lambda>d. d < 10) ds \<Longrightarrow>
   foldl integer_step (of_nat n) (number_text ds) = of_nat (foldl (\<lambda>n d. n * 10 + d) n ds)"
  by (induction ds arbitrary: n) (simp_all add: number_text_def integer_step_digit del: of_nat_add of_nat_mult)

lemma takeWhile_digits:
  assumes "list_all (\<lambda>d. d < 10) ds" "r = [] \<or> \<not> isdigit (hd r)"
  shows "takeWhile isdigit (number_text ds @ r) = number_text ds" "dropWhile isdigit (number_text ds @ r) = r"
  using assms by (induction ds) (auto simp: number_text_def isdigit_digit, (cases r; simp)+)

lemma integer_number:
  assumes "list_all (\<lambda>d. d < 10) ds" "r = [] \<or> \<not> isdigit (hd r)" "min_len \<le> length ds" "length ds \<le> max_len"
    "value_of ds < 2 ^ 31" "unat lo \<le> value_of ds" "value_of ds \<le> unat hi"
  shows "integer min_len max_len lo hi (number_text ds @ r) = Some (int (value_of ds), r)"
proof -
  let ?u = "of_nat (value_of ds) :: 32 word"
  have u: "foldl integer_step 0 (number_text ds) = ?u"
    using fold_integer_step [OF assms(1), of 0] by (simp add: value_of_def)
  have n: "unat ?u = value_of ds" using assms(5) by (simp add: unat_of_nat)
  then have "sint ?u = int (value_of ds)"
    using assms(5) by (simp add: signed_of_nat signed_take_bit_int_eq_self)
  moreover have "\<not> ?u < lo" "\<not> hi < ?u" using assms(6,7) n by (simp_all add: word_less_nat_alt)
  ultimately show ?thesis
    using assms(3,4) by (simp add: integer_def takeWhile_digits [OF assms(1,2)] u length_number_text Let_def)
qed

lemma dec_nat_1: "n < 10 \<Longrightarrow> dec_nat n = [digit n]"
  by (simp add: dec_nat.simps)

lemma dec_nat_2: "10 \<le> n \<Longrightarrow> n < 100 \<Longrightarrow> dec_nat n = [digit (n div 10), digit (n mod 10)]"
  using dec_nat_1 [of "n div 10"] by (simp add: dec_nat.simps [of n])

lemma dec_nat_3: "100 \<le> n \<Longrightarrow> n < 1000 \<Longrightarrow>
    dec_nat n = [digit (n div 100), digit (n div 10 mod 10), digit (n mod 10)]"
  using dec_nat_2 [of "n div 10"] by (simp add: dec_nat.simps [of n] div_mult2_eq [symmetric])

lemma dec_nat_4: "1000 \<le> n \<Longrightarrow> n < 10000 \<Longrightarrow>
    dec_nat n = [digit (n div 1000), digit (n div 100 mod 10), digit (n div 10 mod 10), digit (n mod 10)]"
  using dec_nat_3 [of "n div 10"] by (simp add: dec_nat.simps [of n] div_mult2_eq [symmetric])

lemma digit_zero: "digit 0 = CHR ''0''"
  by code_simp

definition digits2 :: "nat \<Rightarrow> nat list" where
  "digits2 n = [n div 10, n mod 10]"

definition digits4 :: "nat \<Rightarrow> nat list" where
  "digits4 n = [n div 1000, n div 100 mod 10, n div 10 mod 10, n mod 10]"

lemma pad_2: "0 \<le> i \<Longrightarrow> i < 100 \<Longrightarrow> pad 2 i = number_text (digits2 (nat i))"
  by (cases "i < 10") (auto simp: pad_def digits2_def number_text_def digit_zero dec_nat_1 dec_nat_2 Let_def
      nat_less_iff le_nat_iff)

lemma pad_4: "100 \<le> i \<Longrightarrow> i < 10000 \<Longrightarrow> pad 4 i = number_text (digits4 (nat i))"
  by (cases "i < 1000") (auto simp: pad_def digits4_def number_text_def digit_zero dec_nat_3 dec_nat_4 Let_def
      nat_less_iff le_nat_iff)

lemma digits_ok:
  "n < 100 \<Longrightarrow> list_all (\<lambda>d. d < 10) (digits2 n)" "n < 10000 \<Longrightarrow> list_all (\<lambda>d. d < 10) (digits4 n)"
  by (auto simp: digits2_def digits4_def less_mult_imp_div_less)

lemma value_of_digits: "value_of (digits2 n) = n" "value_of (digits4 n) = n"
proof -
  show "value_of (digits2 n) = n" by (simp add: value_of_def digits2_def)
  have "((n div 1000 * 10 + n div 100 mod 10) * 10 + n div 10 mod 10) * 10 + n mod 10 = n"
  proof -
    have "n div 1000 = n div 100 div 10" "n div 100 = n div 10 div 10"
      by (simp_all only: div_mult2_eq [symmetric]) simp_all
    then show ?thesis by (simp only: div_mult_mod_eq)
  qed
  then show "value_of (digits4 n) = n" by (simp add: value_of_def digits4_def)
qed

lemma digits_length: "length (digits2 n) = 2" "length (digits4 n) = 4"
  by (simp_all add: digits2_def digits4_def)

section \<open>Reading a printed date\<close>

lemma seven: "(n :: nat) < 7 \<Longrightarrow> n \<in> {0, 1, 2, 3, 4, 5, 6}"
  by auto

lemma twelve: "(n :: nat) < 12 \<Longrightarrow> n \<in> {0, 1, 2, 3, 4, 5, 6, 7, 8, 9, 10, 11}"
  unfolding insert_iff empty_iff by presburger

definition short_day :: "nat \<Rightarrow> string" where
  "short_day i = map ascii_lower (take 3 (g_week_day_name ! i))"

definition short_month :: "nat \<Rightarrow> string" where
  "short_month i = map ascii_lower (take 3 (g_month_name ! i))"

lemma short_day_eq:
  "map short_day [0..<7] = [''sun'', ''mon'', ''tue'', ''wed'', ''thu'', ''fri'', ''sat'']"
  by code_simp

lemma short_month_eq:
  "map short_month [0..<12] =
    [''jan'', ''feb'', ''mar'', ''apr'', ''may'', ''jun'', ''jul'', ''aug'', ''sep'', ''oct'', ''nov'', ''dec'']"
  by code_simp

lemma short_day_nth: "i < 7 \<Longrightarrow> short_day i = [''sun'', ''mon'', ''tue'', ''wed'', ''thu'', ''fri'', ''sat''] ! i"
  using arg_cong [OF short_day_eq, of "\<lambda>l. l ! i"] by simp

lemma short_month_nth: "i < 12 \<Longrightarrow> short_month i =
    [''jan'', ''feb'', ''mar'', ''apr'', ''may'', ''jun'', ''jul'', ''aug'', ''sep'', ''oct'', ''nov'', ''dec''] ! i"
  using arg_cong [OF short_month_eq, of "\<lambda>l. l ! i"] by simp

lemma find_name_nth:
  assumes "c_str (names ! i) = names ! i" "length (names ! i) = 3" "distinct names" "i < length names"
  shows "find_name (names ! i @ r) names = Some i"
proof -
  have "take 3 (c_str (names ! i @ r)) = names ! i"
  proof -
    have "\<forall>c\<in>set (names ! i). c \<noteq> CHR 0x00" 
      using assms(1) unfolding c_str_def takeWhile_eq_all_conv .
    then have "c_str (names ! i @ r) = names ! i @ c_str r" by (simp add: c_str_def)
    then show ?thesis using assms(2) by simp
  qed
  moreover have "filter (\<lambda>j. names ! i = names ! j) [0..<length names] = [i]"
  proof -
    have "filter (\<lambda>j. names ! i = names ! j) [0..<length names] = filter (\<lambda>j. j = i) [0..<length names]"
      using assms(3,4) by (intro filter_cong) (auto simp: nth_eq_iff_index_eq)
    also have "\<dots> = [i]"
    proof -
      have "[0..<length names] = [0..<i] @ i # [Suc i..<length names]"
        using assms(4) upt_conv_Cons [of i "length names"] upt_add_eq_append [of 0 i "length names - i"] by simp
      then show ?thesis by (simp add: filter_False)
    qed
    finally show ?thesis .
  qed
  ultimately show ?thesis by (simp add: find_name_def)
qed

lemma skip_name_short:
  assumes "length w = 3" "length name > 3 \<longrightarrow> (r = [] \<or> hd r \<noteq> name ! 3)" "3 \<le> length name"
  shows "skip_name (w @ r) name = r"
proof (cases "length name = 3")
  case False
  then have "drop 3 name = name ! 3 # drop 4 name"
    using assms(3) Cons_nth_drop_Suc [of 3 name] by simp
  moreover have "take (length name - 3) r \<noteq> name ! 3 # drop 4 name"
    using assms False by (cases r) (auto simp: take_Cons')
  ultimately show ?thesis using assms by (simp add: skip_name_def)
qed (use assms in \<open>simp add: skip_name_def\<close>)

lemma parse_week_day_short:
  assumes "i < 7"
  shows "parse_week_day (t, short_day i @ CHR '','' # r) = Some (t\<lparr>tm_wday := int i\<rparr>, CHR '','' # r)"
proof -
  let ?names = "[''sun'', ''mon'', ''tue'', ''wed'', ''thu'', ''fri'', ''sat'']"
  have "find_name (?names ! i @ CHR '','' # r) ?names = Some i"
    using seven [OF assms] by (intro find_name_nth) (auto simp: c_str_def)
  moreover have "skip_name (?names ! i @ CHR '','' # r) (g_week_day_name ! i) = CHR '','' # r"
    using seven [OF assms] by (intro skip_name_short) (auto simp: g_week_day_name_def)
  ultimately show ?thesis by (simp add: parse_week_day_def short_day_nth [OF assms])
qed

lemma parse_month_short:
  assumes "i < 12"
  shows "parse_month (t, short_month i @ CHR '' '' # r) = Some (t\<lparr>tm_mon := int i\<rparr>, skip_spaces r)"
proof -
  let ?names = "[''jan'', ''feb'', ''mar'', ''apr'', ''may'', ''jun'', ''jul'', ''aug'', ''sep'', ''oct'', ''nov'',
    ''dec'']"
  have "find_name (?names ! i @ CHR '' '' # r) ?names = Some i"
    using twelve [OF assms] by (intro find_name_nth) (auto simp: c_str_def)
  moreover have "skip_name (?names ! i @ CHR '' '' # r) (g_month_name ! i) = CHR '' '' # r"
    using twelve [OF assms] by (intro skip_name_short) (auto simp: g_month_name_def)
  ultimately show ?thesis
    by (simp add: parse_month_def short_month_nth [OF assms] skip_spaces_def isspace_def)
qed

lemma integer_digits2:
  "n < 100 \<Longrightarrow> unat lo \<le> n \<Longrightarrow> n \<le> unat hi \<Longrightarrow> r = [] \<or> \<not> isdigit (hd r) \<Longrightarrow> a \<le> 2 \<Longrightarrow>
   integer a 2 lo hi (number_text (digits2 n) @ r) = Some (int n, r)"
  using integer_number [of "digits2 n" r a 2 lo hi] digits_ok(1) [of n]
  by (simp add: value_of_digits digits_length)

lemma integer_digits4:
  "n \<le> 3000 \<Longrightarrow> r = [] \<or> \<not> isdigit (hd r) \<Longrightarrow>
   integer 2 4 0 3000 (number_text (digits4 n) @ r) = Some (int n, r)"
  using integer_number [of "digits4 n" r 2 4 0 3000] digits_ok(2) [of n]
  by (simp add: value_of_digits digits_length)

lemma number_text_start:
  assumes "list_all (\<lambda>d. d < 10) ds" "ds \<noteq> []"
  shows "skip_spaces (number_text ds @ r) = number_text ds @ r" "skip_dash (number_text ds @ r) = number_text ds @ r"
    "\<not> CHR ''a'' \<le> peek (number_text ds @ r) 0" "peek (number_text ds @ r) 0 \<noteq> CHR ''-''"
  using assms digit_plain by (cases ds; simp add: number_text_def skip_spaces_def skip_dash_def)+

lemma parse_mday_text:
  "1 \<le> d \<Longrightarrow> d \<le> 31 \<Longrightarrow> r = [] \<or> \<not> isdigit (hd r) \<Longrightarrow>
   parse_mday (t, number_text (digits2 d) @ r) = Some (t\<lparr>tm_mday := int d\<rparr>, r)"
  by (simp add: parse_mday_def integer_digits2)

lemma parse_year_text:
  "y \<le> 3000 \<Longrightarrow> r = [] \<or> \<not> isdigit (hd r) \<Longrightarrow>
   parse_year (t, number_text (digits4 y) @ r) = Some (t\<lparr>tm_year := int y\<rparr>, r)"
  by (simp add: parse_year_def integer_digits4)

lemma parse_time_text:
  assumes "h < 24" "m < 60" "sec < 60" "r = [] \<or> \<not> isdigit (hd r)"
  shows "parse_time (t, number_text (digits2 h) @ CHR '':'' # number_text (digits2 m) @ CHR '':''
      # number_text (digits2 sec) @ r)
    = Some (t\<lparr>tm_hour := int h, tm_min := int m, tm_sec := int sec\<rparr>, skip_spaces r)"
proof -
  have "\<not> isdigit (CHR '':'')" by code_simp
  then show ?thesis using assms by (simp add: parse_time_def integer_digits2 expect_def)
qed

lemma parse_timezone_utc: "parse_timezone (t, ''+0000'') = Some t"
proof -
  have "isdigit (CHR ''0'')" "digit_value (CHR ''0'') = 0" by code_simp+
  then show ?thesis by (simp add: parse_timezone_def c_str_def zone_names_def Let_def)
qed

definition clock :: "nat \<Rightarrow> nat \<Rightarrow> nat \<Rightarrow> string" where
  "clock h m sec = number_text (digits2 h) @ CHR '':'' # number_text (digits2 m) @ CHR '':''
     # number_text (digits2 sec)"

definition day :: "nat \<Rightarrow> nat \<Rightarrow> nat \<Rightarrow> string" where
  "day d m y = number_text (digits2 d) @ CHR '' '' # short_month m @ CHR '' '' # number_text (digits4 y)"

lemma parse_http_zone:
  assumes "1 \<le> d" "d \<le> 31" "mon < 12" "y \<le> 3000" "h < 24" "m < 60" "sec < 60" "skip_spaces z = z"
  shows "parse_http (t, day d mon y @ CHR '' '' # clock h m sec @ CHR '' '' # z)
    = parse_timezone (t\<lparr>tm_mday := int d, tm_mon := int mon, tm_year := int y, tm_hour := int h, tm_min := int m,
        tm_sec := int sec\<rparr>, z)"
proof -
  have sp: "\<not> isdigit (CHR '' '')" "skip_spaces (CHR '' '' # r) = skip_spaces r" for r
    by (simp_all add: isdigit_def skip_spaces_def isspace_def less_eq_char_def)
  have month: "skip_spaces (short_month mon @ r) = short_month mon @ r" for r
    using twelve [OF assms(3)] by (auto simp: short_month_nth [OF assms(3)] skip_spaces_def isspace_def)
  have ok: "list_all (\<lambda>d. d < 10) (digits4 y)" "digits4 y \<noteq> []" "list_all (\<lambda>d. d < 10) (digits2 h)" "digits2 h \<noteq> []"
    using assms digits_ok [of y] digits_ok [of h] by (simp_all add: digits2_def digits4_def)
  show ?thesis
    using assms
    by (simp add: parse_http_def day_def clock_def parse_mday_text sp skip_dash_def month parse_month_short
        number_text_start [OF ok(1,2)] number_text_start [OF ok(3,4)] parse_year_text skip_def parse_time_text)
qed

lemma parse_http_text:
  assumes "1 \<le> d" "d \<le> 31" "mon < 12" "y \<le> 3000" "h < 24" "m < 60" "sec < 60"
  shows "parse_http (t, day d mon y @ CHR '' '' # clock h m sec @ '' +0000'')
    = Some (t\<lparr>tm_mday := int d, tm_mon := int mon, tm_year := int y, tm_hour := int h, tm_min := int m,
        tm_sec := int sec\<rparr>)"
  using parse_http_zone [OF assms, of "''+0000''" t]
  by (simp add: parse_timezone_utc skip_spaces_def isspace_def)

section \<open>The texts of a date\<close>

lemma word_chars:
  assumes "list_all (\<lambda>d. d < 10) ds"
  shows "list_all word_char (number_text ds)" "map ascii_lower (number_text ds) = number_text ds"
  using assms by (induction ds) (simp_all add: number_text_def word_char_digit ascii_lower_digit)

lemma month_chars: "i < 12 \<Longrightarrow> list_all word_char (take 3 (g_month_name ! i)) \<and> take 3 (g_month_name ! i) \<noteq> []"
  using twelve [of i] by (auto simp: g_month_name_def word_char_def less_eq_char_def)

lemma week_day_chars: "i < 7 \<Longrightarrow> list_all word_char (take 3 (g_week_day_name ! i)) \<and> take 3 (g_week_day_name ! i) \<noteq> []"
  using seven [of i] by (auto simp: g_week_day_name_def word_char_def less_eq_char_def)

lemma utc_chars: "list_all word_char ''+0000''" "map ascii_lower ''+0000'' = ''+0000''"
    "list_all word_char '':''" "map ascii_lower '':'' = '':''" "list_all word_char '',''"
  by code_simp+

text \<open>The fields of a date from 0100 to 3000, as natural numbers.\<close>

definition printable :: "tm \<Rightarrow> bool" where
  "printable t \<longleftrightarrow> date_in_range t \<and> 100 \<le> tm_year t + 1900 \<and> tm_year t + 1900 \<le> 3000"

definition tail_text :: "tm \<Rightarrow> string" where
  "tail_text t = day_text t @ '' '' @ clock_text t @ '' +0000''"

lemma clock_text_digits:
  "printable t \<Longrightarrow> clock_text t = clock (nat (tm_hour t)) (nat (tm_min t)) (nat (tm_sec t))"
  by (simp add: printable_def date_in_range_def clock_text_def clock_def pad_2)

lemma day_fields:
  assumes "printable t"
  shows "1 \<le> nat (tm_mday t)" "nat (tm_mday t) \<le> 31" "nat (tm_mon t) < 12" "nat (tm_year t + 1900) \<le> 3000"
    "nat (tm_hour t) < 24" "nat (tm_min t) < 60" "nat (tm_sec t) < 60"
    "pad 2 (tm_mday t) = number_text (digits2 (nat (tm_mday t)))"
    "pad 4 (tm_year t + 1900) = number_text (digits4 (nat (tm_year t + 1900)))"
  using assms days_in_month_pos [of "is_leap (tm_year t)" "tm_mon t"]
  by (auto simp: printable_def date_in_range_def nat_less_iff nat_le_iff le_nat_iff pad_2 pad_4)

lemma clock_chars:
  assumes "h < 24" "m < 60" "sec < 60"
  shows "list_all word_char (clock h m sec)" "map ascii_lower (clock h m sec) = clock h m sec" "clock h m sec \<noteq> []"
  using assms word_chars [OF digits_ok(1) [of h]] word_chars [OF digits_ok(1) [of m]]
    word_chars [OF digits_ok(1) [of sec]] utc_chars(3,4)
  by (simp_all add: clock_def digits2_def number_text_def)

lemma tail_text_lower:
  assumes "printable t"
  shows "map ascii_lower (tail_text t)
    = day (nat (tm_mday t)) (nat (tm_mon t)) (nat (tm_year t + 1900))
        @ CHR '' '' # clock (nat (tm_hour t)) (nat (tm_min t)) (nat (tm_sec t)) @ '' +0000''"
proof -
  note f = day_fields [OF assms]
  have sp: "ascii_lower (CHR '' '') = CHR '' ''" by code_simp
  show ?thesis
    using f word_chars(2) [OF digits_ok(1), of "nat (tm_mday t)"] word_chars(2) [OF digits_ok(2), of "nat (tm_year t + 1900)"]
      clock_chars(2) [OF f(5-7)] utc_chars(2)
    by (simp add: tail_text_def day_text_def day_def clock_text_digits [OF assms] short_month_def sp)
qed

lemma tail_text_simple:
  assumes "printable t"
  shows "simple_text (tail_text t)" "tail_text t \<noteq> []"
proof -
  note f = day_fields [OF assms]
  have d: "list_all word_char (number_text (digits2 (nat (tm_mday t))))" "number_text (digits2 (nat (tm_mday t))) \<noteq> []"
    using f(2) by (simp_all add: word_chars digits_ok) (simp add: number_text_def digits2_def)
  have y: "list_all word_char (number_text (digits4 (nat (tm_year t + 1900))))"
      "number_text (digits4 (nat (tm_year t + 1900))) \<noteq> []"
    using f(4) by (simp_all add: word_chars digits_ok) (simp add: number_text_def digits4_def)
  have "simple_text ''+0000''" by (rule simple_text_word) (simp_all add: utc_chars(1) [simplified])
  then show "simple_text (tail_text t)" "tail_text t \<noteq> []"
    using d y month_chars [OF f(3)] clock_chars(1,3) [OF f(5-7)]
    by (simp_all add: tail_text_def day_text_def f(8,9) clock_text_digits [OF assms] simple_text_words)
qed

section \<open>The round trip\<close>

lemma last_day_enough:
  assumes "printable t" "\<not> (tm_year t + 1900 = 1752 \<and> tm_mon t = 8)"
  shows "\<exists>last. last_day_of_month (tm_mon t + 1) (tm_year t + 1900) = Inr last \<and> tm_mday t \<le> last"
proof -
  have m: "0 \<le> tm_mon t" "tm_mon t \<le> 11" "tm_mday t \<le> days_in_month (is_leap (tm_year t)) (tm_mon t)"
    using assms(1) by (simp_all add: printable_def date_in_range_def)
  show ?thesis
  proof (cases "tm_mon t = 1")
    case True
    have four: "4 dvd tm_year t + 1900 \<longleftrightarrow> 4 dvd tm_year t" by presburger
    have hundred: "100 dvd tm_year t + 1900 \<longleftrightarrow> 100 dvd tm_year t" by presburger
    show ?thesis
      using m(3) True four hundred
      by (auto simp: last_day_of_month_def days_in_month_def is_leap_def smod_0_iff split: if_splits)
  next
    case False
    then show ?thesis
      using m assms(2) months_cases [of "tm_mon t"]
      by (auto simp: last_day_of_month_def days_in_month_def g_month_days_def)
  qed
qed

lemma year_kept: "printable t \<Longrightarrow> full_year (tm_year t + 1900) = tm_year t + 1900"
  by (simp add: printable_def full_year_def)

text \<open>What the parser makes of the text of a date is that date, the day of the year apart.\<close>

lemma read_fields:
  assumes "printable t" "\<not> (tm_year t + 1900 = 1752 \<and> tm_mon t = 8)"
    and "parse_date (to_lower v (simplified v date)) = Some (r\<lparr>tm_mday := tm_mday t, tm_mon := tm_mon t,
       tm_year := tm_year t + 1900, tm_hour := tm_hour t, tm_min := tm_min t, tm_sec := tm_sec t\<rparr>)"
  shows "string_to_date v date = Inr (instant t)"
proof -
  let ?r = "r\<lparr>tm_mday := tm_mday t, tm_mon := tm_mon t, tm_hour := tm_hour t, tm_min := tm_min t,
     tm_sec := tm_sec t, tm_year := tm_year t\<rparr>"
  obtain last where last: "last_day_of_month (tm_mon t + 1) (tm_year t + 1900) = Inr last" "tm_mday t \<le> last"
    using last_day_enough [OF assms(1,2)] by blast
  have "string_to_date v date = Inr (mkgmtime ?r)"
    using assms(3) last year_kept [OF assms(1)] by (simp add: string_to_date_def Let_def)
  also have "mkgmtime ?r = instant ?r"
    by (rule mkgmtime_in_range) (use assms(1) in \<open>auto simp: printable_def date_in_range_def\<close>)
  also have "instant ?r = instant t" by (simp add: instant_def)
  finally show ?thesis .
qed

lemma nat_fields:
  assumes "printable t"
  shows "int (nat (tm_mday t)) = tm_mday t" "int (nat (tm_mon t)) = tm_mon t"
    "int (nat (tm_year t + 1900)) = tm_year t + 1900" "int (nat (tm_hour t)) = tm_hour t"
    "int (nat (tm_min t)) = tm_min t" "int (nat (tm_sec t)) = tm_sec t"
  using assms by (simp_all add: printable_def date_in_range_def)

lemma parse_tail:
  assumes "printable t"
  shows "parse_http (r, map ascii_lower (tail_text t)) = Some (r\<lparr>tm_mday := tm_mday t, tm_mon := tm_mon t,
     tm_year := tm_year t + 1900, tm_hour := tm_hour t, tm_min := tm_min t, tm_sec := tm_sec t\<rparr>)"
  unfolding tail_text_lower [OF assms] parse_http_text [OF day_fields(1-7) [OF assms]] nat_fields [OF assms] ..

lemma tail_text_start:
  assumes "printable t"
  shows "skip_spaces (map ascii_lower (tail_text t)) = map ascii_lower (tail_text t)"
    "\<not> CHR ''a'' \<le> peek (map ascii_lower (tail_text t)) 0" "10 < length (tail_text t)"
proof -
  note f = day_fields [OF assms]
  have d: "list_all (\<lambda>d. d < 10) (digits2 (nat (tm_mday t)))" "digits2 (nat (tm_mday t)) \<noteq> []"
    using f(2) digits_ok(1) [of "nat (tm_mday t)"] by (simp_all add: digits2_def)
  show "skip_spaces (map ascii_lower (tail_text t)) = map ascii_lower (tail_text t)"
    "\<not> CHR ''a'' \<le> peek (map ascii_lower (tail_text t)) 0"
    unfolding tail_text_lower [OF assms] day_def by (simp_all add: number_text_start [OF d])
  have "10 < length (map ascii_lower (tail_text t))"
    unfolding tail_text_lower [OF assms] day_def clock_def
    by (simp add: length_number_text digits_length)
  then show "10 < length (tail_text t)" by simp
qed

lemma read_email_date:
  assumes "qt_ok v" "printable t" "\<not> (tm_year t + 1900 = 1752 \<and> tm_mon t = 8)"
  shows "string_to_date v (tail_text t) = Inr (instant t)"
proof (rule read_fields [OF assms(2,3)])
  show "parse_date (to_lower v (simplified v (tail_text t)))
    = Some (tm_zero\<lparr>tm_mday := tm_mday t, tm_mon := tm_mon t,
       tm_year := tm_year t + 1900, tm_hour := tm_hour t, tm_min := tm_min t, tm_sec := tm_sec t\<rparr>)"
    using tail_text_start [OF assms(2)] parse_tail [OF assms(2)]
    by (simp add: qt_ok_simps [OF assms(1)] tail_text_simple [OF assms(2)] parse_date_def)
qed

lemma read_http_date:
  assumes "qt_ok v" "printable t" "\<not> (tm_year t + 1900 = 1752 \<and> tm_mon t = 8)" "i < 7"
  shows "string_to_date v (take 3 (g_week_day_name ! i) @ '', '' @ tail_text t) = Inr (instant t)"
proof (rule read_fields [OF assms(2,3)])
  let ?s = "take 3 (g_week_day_name ! i) @ '', '' @ tail_text t"
  have "simple_text ?s"
    using simple_text_words [of "take 3 (g_week_day_name ! i) @ '',''" "tail_text t"] week_day_chars [OF assms(4)]
      utc_chars(5) tail_text_simple [OF assms(2)] by simp
  moreover have "map ascii_lower ?s = short_day i @ CHR '','' # CHR '' '' # map ascii_lower (tail_text t)"
  proof -
    have "map ascii_lower '', '' = '', ''" by code_simp
    then show ?thesis by (simp add: short_day_def)
  qed
  moreover have "CHR ''a'' \<le> peek (short_day i @ r) 0" "peek (short_day i @ r) 0 \<le> CHR ''z''" for r
    using seven [OF assms(4)] by (auto simp: short_day_nth [OF assms(4)] less_eq_char_def)
  moreover have "skip_spaces (CHR '' '' # r) = skip_spaces r" for r by (simp add: skip_spaces_def isspace_def)
  ultimately show "parse_date (to_lower v (simplified v ?s))
    = Some ((tm_zero\<lparr>tm_wday := int i\<rparr>)\<lparr>tm_mday := tm_mday t, tm_mon := tm_mon t,
       tm_year := tm_year t + 1900, tm_hour := tm_hour t, tm_min := tm_min t, tm_sec := tm_sec t\<rparr>)"
    using tail_text_start [OF assms(2)] parse_tail [OF assms(2)]
    by (simp add: qt_ok_simps [OF assms(1)] parse_date_def parse_week_day_short [OF assms(4)])
qed

text \<open>
  C35. A date printed for a HTTP header or an email is read back as the same second, whatever the version of
  the date: for every time whose year is in 0100 to 3000, September 1752 apart (where string_to_date throws).
\<close>

theorem printed_date_read_back:
  assumes "qt_ok v" "t = gmtime (u sdiv 1000000)" "100 \<le> tm_year t + 1900" "tm_year t + 1900 \<le> 3000"
    "\<not> (tm_year t + 1900 = 1752 \<and> tm_mon t = 8)" "format = DATE_FORMAT_HTTP \<or> format = DATE_FORMAT_EMAIL"
  shows "string_to_date v (date_to_string u format) = Inr (u sdiv 1000000)"
proof -
  have p: "printable t" using assms(2-4) date_in_range_gmtime by (simp add: printable_def)
  have i: "instant t = u sdiv 1000000" using assms(2) gmtime_valid(7) by simp
  have w: "nat (tm_wday t) < 7" using assms(2) gmtime_valid(6) [of "u sdiv 1000000"] by auto
  show ?thesis
    using assms(6) read_email_date [OF assms(1) p assms(5)] read_http_date [OF assms(1) p assms(5) w]
    by (auto simp: date_to_string_def tail_text_def i simp flip: assms(2))
qed

lemma printed_date_read_back_witness:
  "string_to_date std_text (date_to_string 1700000000123456 DATE_FORMAT_HTTP) = Inr 1700000000"
  by (rule printed_date_read_back [OF qt_ok_std refl, of 1700000000123456 DATE_FORMAT_HTTP, simplified]) code_simp+

section \<open>Time zones\<close>

lemma parse_timezone_east:
  assumes "zh < 100" "zm < 100"
  shows "parse_timezone (t, CHR ''+'' # number_text (digits2 zh) @ number_text (digits2 zm))
    = Some (t\<lparr>tm_hour := tm_hour t + int zh, tm_min := tm_min t + int zm\<rparr>)"
proof -
  have d: "zh div 10 < 10" "zh mod 10 < 10" "zm div 10 < 10" "zm mod 10 < 10" using assms by auto
  note e = digit_plain(4) [OF d(1)] digit_plain(4) [OF d(2)] digit_plain(4) [OF d(3)] digit_plain(4) [OF d(4)]
  let ?z = "CHR ''+'' # number_text (digits2 zh) @ number_text (digits2 zm)"
  have z: "c_str ?z = ?z" using e by (simp add: c_str_def number_text_def digits2_def)
  have "map_of zone_names ?z = None"
    by (simp add: zone_names_def)
  moreover have "int (zh div 10) * 10 + int (zh mod 10) = int zh" "int (zm div 10) * 10 + int (zm mod 10) = int zm"
    by (simp_all only: zdiv_int zmod_int of_nat_numeral div_mult_mod_eq)
  ultimately show ?thesis
    unfolding parse_timezone_def prod.case z Let_def
    using d e by (simp add: number_text_def digits2_def isdigit_digit digit_value_digit)
qed

lemma zone_text_simple:
  assumes "printable t" "zh < 100" "zm < 100"
  shows "simple_text (day_text t @ '' '' @ clock_text t @ '' +'' @ pad 2 (int zh) @ pad 2 (int zm))"
    "map ascii_lower (day_text t @ '' '' @ clock_text t @ '' +'' @ pad 2 (int zh) @ pad 2 (int zm))
     = day (nat (tm_mday t)) (nat (tm_mon t)) (nat (tm_year t + 1900))
        @ CHR '' '' # clock (nat (tm_hour t)) (nat (tm_min t)) (nat (tm_sec t))
        @ CHR '' '' # CHR ''+'' # number_text (digits2 zh) @ number_text (digits2 zm)"
proof -
  note f = day_fields [OF assms(1)]
  note zc = word_chars [OF digits_ok(1) [OF assms(2)]] word_chars [OF digits_ok(1) [OF assms(3)]]
  have sp: "ascii_lower (CHR '' '') = CHR '' ''" "ascii_lower (CHR ''+'') = CHR ''+''" "word_char (CHR ''+'')"
    by code_simp+
  have zp: "pad 2 (int zh) = number_text (digits2 zh)" "pad 2 (int zm) = number_text (digits2 zm)"
    using assms(2,3) by (simp_all add: pad_2)
  have d: "list_all word_char (number_text (digits2 (nat (tm_mday t))))" "number_text (digits2 (nat (tm_mday t))) \<noteq> []"
    using f(2) by (simp_all add: word_chars digits_ok) (simp add: number_text_def digits2_def)
  have y: "list_all word_char (number_text (digits4 (nat (tm_year t + 1900))))"
      "number_text (digits4 (nat (tm_year t + 1900))) \<noteq> []"
    using f(4) by (simp_all add: word_chars digits_ok) (simp add: number_text_def digits4_def)
  have "simple_text (CHR ''+'' # number_text (digits2 zh) @ number_text (digits2 zm))"
    by (rule simple_text_word) (simp_all add: sp zc)
  then show "simple_text (day_text t @ '' '' @ clock_text t @ '' +'' @ pad 2 (int zh) @ pad 2 (int zm))"
    using d y month_chars [OF f(3)] clock_chars(1,3) [OF f(5-7)]
    by (simp add: day_text_def f(8,9) clock_text_digits [OF assms(1)] simple_text_words zp)
  show "map ascii_lower (day_text t @ '' '' @ clock_text t @ '' +'' @ pad 2 (int zh) @ pad 2 (int zm))
     = day (nat (tm_mday t)) (nat (tm_mon t)) (nat (tm_year t + 1900))
        @ CHR '' '' # clock (nat (tm_hour t)) (nat (tm_min t)) (nat (tm_sec t))
        @ CHR '' '' # CHR ''+'' # number_text (digits2 zh) @ number_text (digits2 zm)"
    using f word_chars(2) [OF digits_ok(1), of "nat (tm_mday t)"] word_chars(2) [OF digits_ok(2), of "nat (tm_year t + 1900)"]
      clock_chars(2) [OF f(5-7)] zc
    by (simp add: day_text_def day_def clock_text_digits [OF assms(1)] short_month_def sp zp)
qed

text \<open>
  The offset of a time zone is applied with the wrong sign: a date that is an hour east of Greenwich,
  whose instant is an hour before that of the same clock in Greenwich, is read as an hour after it.
\<close>

theorem zone_offset_is_added:
  assumes "qt_ok v" "date_in_range t" "100 \<le> tm_year t + 1900" "tm_year t + 1900 \<le> 3000"
    "\<not> (tm_year t + 1900 = 1752 \<and> tm_mon t = 8)" "0 \<le> zh" "zh < 100" "0 \<le> zm" "zm < 100"
  shows "string_to_date v (day_text t @ '' '' @ clock_text t @ '' +'' @ pad 2 zh @ pad 2 zm)
    = Inr (instant t + 3600 * zh + 60 * zm)"
proof -
  have p: "printable t" using assms(2-4) by (simp add: printable_def)
  have z: "nat zh < 100" "nat zm < 100" "int (nat zh) = zh" "int (nat zm) = zm" using assms(6-9) by simp_all
  let ?s = "day_text t @ '' '' @ clock_text t @ '' +'' @ pad 2 zh @ pad 2 zm"
  let ?z = "CHR ''+'' # number_text (digits2 (nat zh)) @ number_text (digits2 (nat zm))"
  let ?r = "tm_zero\<lparr>tm_mday := tm_mday t, tm_mon := tm_mon t, tm_year := tm_year t + 1900,
     tm_hour := tm_hour t, tm_min := tm_min t, tm_sec := tm_sec t\<rparr>"
  note low = zone_text_simple [OF p z(1,2), unfolded z]
  have zs: "skip_spaces ?z = ?z" by (simp add: skip_spaces_def isspace_def)
  have start: "\<not> CHR ''a'' \<le> peek (map ascii_lower ?s) 0" "length ?s \<noteq> 10"
  proof -
    have d: "list_all (\<lambda>d. d < 10) (digits2 (nat (tm_mday t)))" "digits2 (nat (tm_mday t)) \<noteq> []"
      using day_fields(2) [OF p] digits_ok(1) [of "nat (tm_mday t)"] by (simp_all add: digits2_def)
    show "\<not> CHR ''a'' \<le> peek (map ascii_lower ?s) 0"
      unfolding low(2) day_def by (simp add: number_text_start [OF d])
    have "length (map ascii_lower ?s) \<noteq> 10"
      unfolding low(2) day_def clock_def by (simp add: length_number_text digits_length)
    then show "length ?s \<noteq> 10" by simp
  qed
  have "to_lower v (simplified v ?s) = map ascii_lower ?s"
    by (simp only: qt_ok_simps(1,2) [OF assms(1) low(1)])
  then have "parse_date (to_lower v (simplified v ?s)) = parse_http (tm_zero, map ascii_lower ?s)"
    unfolding parse_date_def by (simp only: start length_map if_False simp_thms)
  also have "\<dots> = Some (?r\<lparr>tm_hour := tm_hour t + zh, tm_min := tm_min t + zm\<rparr>)"
    unfolding low(2) parse_http_zone [OF day_fields(1-7) [OF p] zs] nat_fields [OF p]
    using parse_timezone_east [OF z(1,2)] z(3,4) by simp
  finally have parsed: "parse_date (to_lower v (simplified v ?s)) = \<dots>" .
  obtain last where last: "last_day_of_month (tm_mon t + 1) (tm_year t + 1900) = Inr last" "tm_mday t \<le> last"
    using last_day_enough [OF p assms(5)] by blast
  let ?g = "?r\<lparr>tm_year := tm_year t\<rparr>"
  have "mkgmtime (?g\<lparr>tm_hour := tm_hour ?g + zh, tm_min := tm_min ?g + zm\<rparr>) = instant ?g + 3600 * zh + 60 * zm"
    by (rule mkgmtime_later) (use assms p in \<open>auto simp: printable_def date_in_range_def\<close>)
  moreover have "instant ?g = instant t" by (simp add: instant_def)
  ultimately show ?thesis
    using parsed last year_kept [OF p] by (simp add: string_to_date_def Let_def tm_zero_def)
qed

lemma zone_offset_is_added_witness:
  "string_to_date std_text (day_text (gmtime 1700000000) @ '' '' @ clock_text (gmtime 1700000000) @ '' +''
     @ pad 2 1 @ pad 2 30) = Inr (instant (gmtime 1700000000) + 3600 * 1 + 60 * 30)"
  by (rule zone_offset_is_added [OF qt_ok_std date_in_range_gmtime]) code_simp+

end
