(* ===== verification/UrlCode.thy ===== *)
theory UrlCode
  imports HttpText Numbers
begin

text \<open>
  Percent encoding: \<open>snap_uri::urlencode\<close> and \<open>snap_uri::urldecode\<close> of
  \<open>libsnapwebsites/src/snapwebsites/snap_uri.cpp\<close>. Both work on UTF-8, and so does the model: a \<open>QString\<close>
  is here the string of its bytes in UTF-8.
\<close>

section \<open>Encoding\<close>

definition plain_char :: "char \<Rightarrow> bool" where
  "plain_char c \<longleftrightarrow> CHR ''A'' \<le> c \<and> c \<le> CHR ''Z'' \<or> CHR ''a'' \<le> c \<and> c \<le> CHR ''z''
     \<or> CHR ''0'' \<le> c \<and> c \<le> CHR ''9'' \<or> c = CHR ''.'' \<or> c = CHR ''-'' \<or> c = CHR ''_''"

definition url_char :: "string \<Rightarrow> char \<Rightarrow> string" where
  "url_char accepted c =
     (if plain_char c \<or> c \<in> set accepted then [c] else CHR ''%'' # hex_pad 2 (of_char c))"

definition urlencode :: "string \<Rightarrow> string \<Rightarrow> string" where
  "urlencode accepted uri = concat (map (url_char accepted) (c_str uri))"

section \<open>Decoding\<close>

definition hex_value :: "char \<Rightarrow> nat option" where
  "hex_value c =
     (if CHR ''0'' \<le> c \<and> c \<le> CHR ''9'' then Some (of_char c - 48)
      else if CHR ''A'' \<le> c \<and> c \<le> CHR ''F'' then Some (of_char c - 55)
      else if CHR ''a'' \<le> c \<and> c \<le> CHR ''f'' then Some (of_char c - 87)
      else None)"

definition uri_char :: "char \<Rightarrow> bool" where
  "uri_char c \<longleftrightarrow> plain_char c \<or> c \<in> {CHR ''/'', CHR ''~'', CHR ''!'', CHR ''@'', CHR '','', CHR '';'', CHR '':'',
     CHR ''('', CHR '')''}"

function decode_bytes :: "bool \<Rightarrow> string \<Rightarrow> string res" where
  "decode_bytes relax [] = Inr []"
| "decode_bytes relax (c # r) =
     (if c = CHR ''+'' then rbind (decode_bytes relax r) (\<lambda>t. Inr (CHR '' '' # t))
      else if c = CHR ''%'' then
        (case hex_value (peek r 0) of
           None \<Rightarrow> if relax then rbind (decode_bytes relax r) (\<lambda>t. Inr (CHR ''%'' # t)) else Inl Invalid_uri
         | Some a \<Rightarrow>
             (case hex_value (peek r 1) of
                None \<Rightarrow> if relax then rbind (decode_bytes relax r) (\<lambda>t. Inr (char_of (a * 16) # t)) else Inl Invalid_uri
              | Some b \<Rightarrow> rbind (decode_bytes relax (drop 2 r)) (\<lambda>t. Inr (char_of (a * 16 + b) # t))))
      else if relax \<or> uri_char c then rbind (decode_bytes relax r) (\<lambda>t. Inr (c # t))
      else Inl Invalid_uri)"
  by pat_completeness auto

termination
  by (relation "measure (\<lambda>(relax, s). length s)") auto

definition urldecode :: "bool \<Rightarrow> string \<Rightarrow> string res" where
  "urldecode relax uri = rbind (decode_bytes relax (c_str uri)) (\<lambda>utf8. Inr (c_str utf8))"

section \<open>The round trip\<close>

definition no_nul :: "string \<Rightarrow> bool" where
  "no_nul s \<longleftrightarrow> CHR 0x00 \<notin> set s"

lemma c_str_no_nul [simp]: "no_nul s \<Longrightarrow> c_str s = s"
  by (auto simp: c_str_def no_nul_def takeWhile_eq_all_conv)

lemma no_nul_c_str [simp]: "no_nul (c_str s)"
  unfolding no_nul_def c_str_def by (metis set_takeWhileD)

lemma no_nul_simps [simp]:
  "no_nul []" "no_nul (c # s) \<longleftrightarrow> c \<noteq> CHR 0x00 \<and> no_nul s" "no_nul (s @ t) \<longleftrightarrow> no_nul s \<and> no_nul t"
  by (auto simp: no_nul_def)

lemma hex_value_digit: "d < 16 \<Longrightarrow> hex_value (digit d) = Some d"
  by (auto simp: hex_value_def less_eq_char_def of_char_digit)

lemma hex_pad_2: "hex_pad 2 n = [digit (n div 16 mod 16), digit (n mod 16)]"
  by (simp add: numeral_2_eq_2)

lemma decode_hex:
  "decode_bytes relax (CHR ''%'' # hex_pad 2 (of_char c) @ r) = rbind (decode_bytes relax r) (\<lambda>t. Inr (c # t))"
proof -
  have "(of_char c :: nat) < 256" using mod_less_divisor [of 256 "of_char c"] by (simp only: of_char_mod_256)
  then have "of_char c div 16 < (16 :: nat)" by (simp add: less_mult_imp_div_less)
  then have "of_char c div 16 mod 16 * 16 + of_char c mod 16 = (of_char c :: nat)" by simp
  then have "char_of (of_char c div 16 mod 16 * 16 + of_char c mod 16 :: nat) = c" by simp
  then show ?thesis by (simp add: hex_pad_2 hex_value_digit)
qed

lemma decode_plain:
  "relax \<or> uri_char c \<Longrightarrow> c \<noteq> CHR ''%'' \<Longrightarrow> c \<noteq> CHR ''+'' \<Longrightarrow>
   decode_bytes relax (c # r) = rbind (decode_bytes relax r) (\<lambda>t. Inr (c # t))"
  by simp

text \<open>The characters that may be left as they are: those that are decoded to themselves.\<close>

definition accepts :: "bool \<Rightarrow> string \<Rightarrow> bool" where
  "accepts relax accepted \<longleftrightarrow> (\<forall>c\<in>set accepted. c \<noteq> CHR ''%'' \<and> c \<noteq> CHR ''+'' \<and> (relax \<or> uri_char c))"

lemma plain_char_not_special: "plain_char c \<Longrightarrow> c \<noteq> CHR ''%'' \<and> c \<noteq> CHR ''+'' \<and> uri_char c"
  by (auto simp: plain_char_def uri_char_def less_eq_char_def)

lemma decode_encoded:
  "accepts relax accepted \<Longrightarrow>
   decode_bytes relax (concat (map (url_char accepted) s) @ r) = rbind (decode_bytes relax r) (\<lambda>t. Inr (s @ t))"
proof (induction s)
  case Nil
  show ?case by (cases "decode_bytes relax r") simp_all
next
  case (Cons c s)
  show ?case
  proof (cases "plain_char c \<or> c \<in> set accepted")
    case True
    then have c: "relax \<or> uri_char c" "c \<noteq> CHR ''%''" "c \<noteq> CHR ''+''"
      using Cons.prems plain_char_not_special [of c] by (auto simp: accepts_def)
    show ?thesis
      using True Cons by (simp add: url_char_def decode_plain [OF c] rbind_assoc del: decode_bytes.simps)
  next
    case False
    then show ?thesis
      using Cons by (simp add: url_char_def decode_hex rbind_assoc del: decode_bytes.simps)
  qed
qed

lemma digit_not_special: "d < 16 \<Longrightarrow> digit d \<noteq> CHR 0x00 \<and> plain_char (digit d)"
proof -
  assume d: "d < 16"
  moreover have "hex_value (CHR 0x00) = None" by code_simp
  ultimately have "digit d \<noteq> CHR 0x00" using hex_value_digit [of d] by auto
  with d show ?thesis by (auto simp: plain_char_def less_eq_char_def of_char_digit)
qed

lemma url_char_chars:
  "e \<in> set (url_char accepted c) \<Longrightarrow> c \<noteq> CHR 0x00 \<Longrightarrow> e \<noteq> CHR 0x00 \<and> (plain_char e \<or> e = CHR ''%'' \<or> e \<in> set accepted)"
  using digit_not_special [of "of_char c div 16 mod 16"] digit_not_special [of "of_char c mod 16"]
  by (auto simp: url_char_def hex_pad_2 split: if_splits)

text \<open>An encoded text holds plain characters, accepted ones and percent signs only.\<close>

lemma urlencode_chars:
  "e \<in> set (urlencode accepted s) \<Longrightarrow> e \<noteq> CHR 0x00 \<and> (plain_char e \<or> e = CHR ''%'' \<or> e \<in> set accepted)"
  unfolding urlencode_def using url_char_chars no_nul_c_str [of s]
  by (fastforce simp: no_nul_def)

lemma no_nul_urlencode [simp]: "no_nul (urlencode accepted s)"
  using urlencode_chars [of "CHR 0x00" accepted s] by (auto simp: no_nul_def)

lemma urlencode_Nil_iff: "no_nul s \<Longrightarrow> urlencode accepted s = [] \<longleftrightarrow> s = []"
  by (cases s) (auto simp: urlencode_def url_char_def)

lemma urldecode_urlencode:
  assumes "no_nul s" "accepts relax accepted"
  shows "urldecode relax (urlencode accepted s) = Inr s"
proof -
  have "no_nul (concat (map (url_char accepted) s))"
    using no_nul_urlencode [of accepted s] assms(1) by (simp add: urlencode_def del: no_nul_urlencode)
  then show ?thesis
    using decode_encoded [OF assms(2), of s "[]"] assms(1) by (simp add: urldecode_def urlencode_def)
qed

lemma urldecode_no_nul: "urldecode relax s = Inr t \<Longrightarrow> no_nul t"
  by (auto simp: urldecode_def rbind_Inr_iff)

end
