(* ===== verification/SnapUri.thy ===== *)
theory SnapUri
  imports UrlCode OrderedMap
begin

text \<open>
  URIs: the class \<open>snap_uri\<close> of \<open>libsnapwebsites/src/snapwebsites/snap_uri.cpp\<close>. A pointer into the text is
  the rest of the text; an operation that returns false gives None, one that throws an exception.
\<close>

section \<open>State\<close>

text \<open>
  \<open>tld\<close> is \<open>::tld\<close> of libtld: the offset of the top level domain when it returns \<open>TLD_RESULT_SUCCESS\<close>.
  \<open>service_port\<close> is \<open>getservbyname\<close> of the C library for "tcp", else "udp": the field \<open>s_port\<close> as it is.
\<close>

record uri_env =
  tld :: "string \<Rightarrow> nat option"
  service_port :: "string \<Rightarrow> int option"

record snap_uri =
  u_original :: string
  u_protocol :: string
  u_username :: string
  u_password :: string
  u_port :: int
  u_domain :: string
  u_top_level_domain :: string
  u_sub_domains :: "string list"
  u_path :: "string list"
  u_options :: "(string, string) omap"
  u_query_strings :: "(string, string) omap"
  u_anchor :: string

definition new_uri :: snap_uri where
  "new_uri = \<lparr>u_original = [], u_protocol = ''http'', u_username = [], u_password = [], u_port = 80,
     u_domain = [], u_top_level_domain = [], u_sub_domains = [], u_path = [], u_options = [],
     u_query_strings = [], u_anchor = []\<rparr>"

definition protocol_to_port :: "uri_env \<Rightarrow> string \<Rightarrow> int" where
  "protocol_to_port E protocol =
     (case map_of [(''http'', 80), (''https'', 443), (''ftp'', 21), (''ssh'', 22), (''telnet'', 23), (''smtp'', 25),
         (''gopher'', 70)] protocol of
        Some p \<Rightarrow> p
      | None \<Rightarrow> (case service_port E protocol of None \<Rightarrow> -1 | Some p \<Rightarrow> p))"

primrec join_with :: "char \<Rightarrow> string list \<Rightarrow> string" where
  "join_with c [] = []"
| "join_with c (x # xs) = (if xs = [] then x else x @ c # join_with c xs)"

fun map_res :: "('a \<Rightarrow> 'b res) \<Rightarrow> 'a list \<Rightarrow> 'b list res" where
  "map_res f [] = Inr []"
| "map_res f (x # xs) = rbind (f x) (\<lambda>y. rbind (map_res f xs) (\<lambda>ys. Inr (y # ys)))"

section \<open>Domain names\<close>

text \<open>The domain starts behind the last period before the TLD; what precedes are the sub-domains.\<close>

definition process_domain :: "uri_env \<Rightarrow> string \<Rightarrow> (string list \<times> string \<times> string) option res" where
  "process_domain E full_domain_name =
     (let fd = c_str full_domain_name in
      case tld E fd of
        None \<Rightarrow> Inr None
      | Some offset \<Rightarrow>
          let before = take offset fd;
              name = rev (takeWhile (\<lambda>c. c \<noteq> CHR ''.'') (rev before));
              all_sub_domains = take (length before - length name - 1) before in
          rbind (urldecode False (drop offset fd)) (\<lambda>ending.
          rbind (urldecode False name) (\<lambda>domain.
            let names = split_on (CHR ''.'') all_sub_domains in
            if all_sub_domains = [] then Inr (Some (names, domain, ending))
            else if [] \<in> set names then
              rbind (map_res (urldecode False) (takeWhile (\<lambda>n. n \<noteq> []) names)) (\<lambda>_. Inr None)
            else rbind (map_res (urldecode False) names) (\<lambda>subs. Inr (Some (subs, domain, ending))))))"

definition full_domain :: "snap_uri \<Rightarrow> string" where
  "full_domain u =
     (let subs = join_with (CHR ''.'') (u_sub_domains u) in
      (if subs = [] then [] else subs @ ''.'') @ u_domain u @ u_top_level_domain u)"

definition set_domain :: "uri_env \<Rightarrow> string \<Rightarrow> snap_uri \<Rightarrow> snap_uri res" where
  "set_domain E full_domain_name u =
     rbind (process_domain E full_domain_name) (\<lambda>p. case p of
       None \<Rightarrow> Inl Invalid_uri
     | Some (subs, domain, ending) \<Rightarrow>
         Inr (u\<lparr>u_domain := domain, u_top_level_domain := ending, u_sub_domains := subs\<rparr>))"

section \<open>The authority\<close>

text \<open>
  The scan of user, password, domain and port: the positions of the first colon, of the one behind the at sign and
  of the at sign, None where the code returns false.
\<close>

fun scan_authority :: "nat \<Rightarrow> string \<Rightarrow> nat option \<times> nat option \<times> nat option
    \<Rightarrow> (nat option \<times> nat option \<times> nat option) option" where
  "scan_authority i [] st = Some st"
| "scan_authority i (c # r) (colon1, colon2, at) =
     (if c = CHR '':'' then
        (if colon1 = None then scan_authority (i + 1) r (Some i, colon2, at)
         else if at \<noteq> None then
           (if colon2 \<noteq> None then None else scan_authority (i + 1) r (colon1, Some i, at))
         else None)
      else if c = CHR ''@'' then
        (if at \<noteq> None then None else scan_authority (i + 1) r (colon1, colon2, Some i))
      else scan_authority (i + 1) r (colon1, colon2, at))"

definition text_part :: "string \<Rightarrow> nat \<Rightarrow> nat \<Rightarrow> string" where
  "text_part s i j = take (j - i) (drop i s)"

text \<open>Only digits, and no more than 65535.\<close>

fun read_port :: "int \<Rightarrow> string \<Rightarrow> int option" where
  "read_port port [] = Some port"
| "read_port port (d # r) =
     (if \<not> isdigit d then None
      else let p = port * 10 + (int (of_char d) - 48) in if p > 65535 then None else read_port p r)"

text \<open>User, password, domain and port.\<close>

definition read_authority :: "int \<Rightarrow> string \<Rightarrow> (string \<times> string \<times> string \<times> int) option" where
  "read_authority default_port s =
     (case scan_authority 0 s (None, None, None) of
        None \<Rightarrow> None
      | Some (colon1, colon2, at) \<Rightarrow>
          let (colon1, colon2) = (if at = None \<and> colon1 \<noteq> None then (None, colon1) else (colon1, colon2));
              username = (case colon1 of None \<Rightarrow> [] | Some c \<Rightarrow> text_part s 0 c);
              s1 = (case colon1 of None \<Rightarrow> 0 | Some c \<Rightarrow> c + 1);
              password = (case at of None \<Rightarrow> [] | Some a \<Rightarrow> text_part s s1 a);
              s2 = (case at of None \<Rightarrow> s1 | Some a \<Rightarrow> a + 1);
              domain = (case colon2 of None \<Rightarrow> drop s2 s | Some c \<Rightarrow> text_part s s2 c) in
          (case (case colon2 of None \<Rightarrow> Some default_port
                 | Some c \<Rightarrow> if drop (c + 1) s = [] then None else read_port 0 (drop (c + 1) s)) of
             None \<Rightarrow> None
           | Some port \<Rightarrow>
               if domain = [] then None
               else if (username = []) \<noteq> (password = []) then None
               else Some (username, password, domain, port)))"

section \<open>Path, query string and anchor\<close>

definition path_end :: "char \<Rightarrow> bool" where
  "path_end c \<longleftrightarrow> c = CHR ''?'' \<or> c = CHR ''#''"

definition read_segments :: "string \<Rightarrow> string list res" where
  "read_segments s = map_res (urldecode False) (filter (\<lambda>n. n \<noteq> []) (split_on (CHR ''/'') s))"

text \<open>
  One field \<open>name=value\<close>; a name that is missing is a star. The loop does not look at the first character of
  a field that follows an ampersand.
\<close>

definition query_field :: "bool \<Rightarrow> string \<Rightarrow> string \<times> string" where
  "query_field first f =
     (let k = (if first then 0 else 1);
          name = take k f @ takeWhile (\<lambda>c. c \<noteq> CHR ''='') (drop k f) in
      (if name = [] then ''*'' else name, drop (length name + 1) f))"

definition field_end :: "char \<Rightarrow> bool" where
  "field_end c \<longleftrightarrow> c = CHR ''&'' \<or> c = CHR ''#''"

definition skip_ampersands :: "string \<Rightarrow> string" where
  "skip_ampersands = dropWhile (\<lambda>c. c = CHR ''&'')"

lemma length_skip_ampersands: "length (skip_ampersands s) \<le> length s"
  by (simp add: skip_ampersands_def length_dropWhile_le)

lemma next_field_shorter:
  assumes "r = skip_ampersands (dropWhile (\<lambda>c. \<not> field_end c) s)" "r \<noteq> []" "hd r \<noteq> CHR ''#''"
  shows "length r < length s"
proof (cases "dropWhile (\<lambda>c. \<not> field_end c) s")
  case Nil
  with assms show ?thesis by (simp add: skip_ampersands_def)
next
  case (Cons c t)
  then have "field_end c" using hd_dropWhile [of "\<lambda>c. \<not> field_end c" s] by simp
  with assms Cons have "c = CHR ''&''" by (auto simp: field_end_def skip_ampersands_def)
  then have "length r \<le> length t" using assms(1) Cons by (simp add: skip_ampersands_def length_dropWhile_le)
  also have "length t < length s" using arg_cong [OF Cons, of length] length_dropWhile_le [of "\<lambda>c. \<not> field_end c" s] by simp
  finally show ?thesis .
qed

function read_query ::
    "bool \<Rightarrow> (string, string) omap \<Rightarrow> string \<Rightarrow> ((string, string) omap \<times> string) option res" where
  "read_query first m s =
     (let (name, value) = query_field first (takeWhile (\<lambda>c. \<not> field_end c) s);
          r = skip_ampersands (dropWhile (\<lambda>c. \<not> field_end c) s) in
      rbind (urldecode False name) (\<lambda>n.
      if map_of m n \<noteq> None then Inr None
      else rbind (urldecode False value) (\<lambda>v.
        if r = [] \<or> hd r = CHR ''#'' then Inr (Some (om_put n v m, r)) else read_query False (om_put n v m) r)))"
  by pat_completeness auto

termination
  by (relation "measure (\<lambda>(first, m, s). length s)") (simp, simp add: next_field_shorter)

declare read_query.simps [simp del]

function remove_dots :: "nat \<Rightarrow> string list \<Rightarrow> string list option" where
  "remove_dots i p =
     (if i \<ge> length p then Some p
      else if p ! i = ''..'' then
        (if i = 0 \<or> length p < 2 then None
         else remove_dots (i - 1) (take (i - 1) p @ drop (i + 1) p))
      else remove_dots (i + 1) p)"
  by pat_completeness auto

termination
  by (relation "measure (\<lambda>(i, p). 2 * length p - i)") auto

declare remove_dots.simps [simp del]

section \<open>Reading a URI\<close>

definition read_anchor :: "string \<Rightarrow> (string list \<times> string) res" where
  "read_anchor s =
     (if s = [] \<or> hd s \<noteq> CHR ''#'' then Inr ([], [])
      else rbind (urldecode False (tl s)) (\<lambda>p.
        if p \<noteq> [] \<and> hd p = CHR ''!'' then rbind (read_segments p) (\<lambda>more. Inr (more, []))
        else Inr ([], p)))"

definition read_path :: "string \<Rightarrow> (string list \<times> string) res" where
  "read_path s =
     (if s = [] then Inr ([], [])
      else rbind (read_segments (takeWhile (\<lambda>c. \<not> path_end c) (tl s))) (\<lambda>p.
        Inr (p, dropWhile (\<lambda>c. \<not> path_end c) (tl s))))"

definition set_uri :: "uri_env \<Rightarrow> string \<Rightarrow> snap_uri \<Rightarrow> snap_uri option res" where
  "set_uri E uri u =
     (let text = c_str uri; protocol = takeWhile (\<lambda>c. c \<noteq> CHR '':'') text; r = drop (length protocol) text in
      if protocol = [] \<or> take 3 r \<noteq> ''://'' then Inr None
      else
        (case read_authority (protocol_to_port E protocol) (takeWhile (\<lambda>c. c \<noteq> CHR ''/'') (drop 3 r)) of
           None \<Rightarrow> Inr None
         | Some (username, password, full_domain_name, port) \<Rightarrow>
             rbind (process_domain E full_domain_name) (\<lambda>d. case d of
               None \<Rightarrow> Inr None
             | Some (subs, domain, ending) \<Rightarrow>
                 rbind (read_path (dropWhile (\<lambda>c. c \<noteq> CHR ''/'') (drop 3 r))) (\<lambda>(path, s).
                 rbind (if s \<noteq> [] \<and> hd s = CHR ''?'' then read_query True [] (skip_ampersands (tl s))
                        else Inr (Some ([], s))) (\<lambda>q. case q of
                   None \<Rightarrow> Inr None
                 | Some (query, s) \<Rightarrow>
                     rbind (read_anchor s) (\<lambda>(more, anchor).
                     case remove_dots 0 (path @ more) of
                       None \<Rightarrow> Inr None
                     | Some path \<Rightarrow>
                         rbind (urldecode False username) (\<lambda>name.
                         rbind (urldecode False password) (\<lambda>pass.
                         Inr (Some \<lparr>u_original = uri, u_protocol = protocol, u_username = name, u_password = pass,
                           u_port = (if port \<noteq> -1 then port else u_port u), u_domain = domain,
                           u_top_level_domain = ending, u_sub_domains = subs, u_path = path, u_options = [],
                           u_query_strings = query, u_anchor = anchor\<rparr>)))))))))"

section \<open>Printing a URI\<close>

definition path_text :: "bool \<Rightarrow> snap_uri \<Rightarrow> string" where
  "path_text encoded u =
     (if encoded then join_with (CHR ''/'') (map (urlencode ''~'') (u_path u)) else join_with (CHR ''/'') (u_path u))"

definition query_text :: "string \<times> string \<Rightarrow> string" where
  "query_text = (\<lambda>(name, value).
     urlencode [] name @ (if value = [] then [] else CHR ''='' # urlencode '','' value))"

definition query_string :: "snap_uri \<Rightarrow> string" where
  "query_string u =
     foldl (\<lambda>result q. result @ (if result = [] then [] else ''&'') @ query_text q) [] (u_query_strings u)"

definition get_uri :: "uri_env \<Rightarrow> bool \<Rightarrow> snap_uri \<Rightarrow> string res" where
  "get_uri E use_hash_bang u =
     (let user = (if u_username u = [] then []
          else urlencode [] (u_username u) @ (if u_password u = [] then [] else CHR '':'' # urlencode [] (u_password u))
            @ ''@'');
          port = (if u_port u = protocol_to_port E (u_protocol u) then [] else CHR '':'' # dec (u_port u));
          p = path_text True u; q = query_string u;
          base = u_protocol u @ ''://'' @ user @ urlencode [] (full_domain u) @ port @ ''/''
            @ (if use_hash_bang then [] else if p \<noteq> [] \<and> hd p = CHR ''/'' then tl p else p)
            @ (if q = [] then [] else CHR ''?'' # q) in
      if u_anchor u \<noteq> [] \<and> use_hash_bang then Inl Exclusive_parameters
      else Inr (base @ (if u_anchor u = [] then [] else CHR ''#'' # urlencode ''!/~'' (u_anchor u))
        @ (if use_hash_bang \<and> p \<noteq> [] then ''#!/'' @ p else [])))"

definition get_website_uri :: "uri_env \<Rightarrow> bool \<Rightarrow> snap_uri \<Rightarrow> string" where
  "get_website_uri E include_port u =
     u_protocol u @ ''://'' @ full_domain u
       @ (if include_port \<and> protocol_to_port E (u_protocol u) \<noteq> u_port u then CHR '':'' # dec (u_port u) else [])
       @ ''/''"

section \<open>Parts\<close>

definition nth_part :: "'a list \<Rightarrow> int \<Rightarrow> 'a res" where
  "nth_part xs k = (if k < 0 \<or> k \<ge> int (length xs) then Inl Uri_out_of_bounds else Inr (xs ! nat k))"

definition get_part :: "uri_env \<Rightarrow> string \<Rightarrow> int \<Rightarrow> snap_uri \<Rightarrow> string res" where
  "get_part E name k u =
     (if name = ''anchor'' then Inr (u_anchor u)
      else if name = ''domain'' then Inr (u_domain u)
      else if name = ''full-domain'' then Inr (full_domain u)
      else if name = ''option'' then nth_part (map snd (u_options u)) k
      else if name = ''option-count'' then Inr (dec (int (length (u_options u))))
      else if name = ''original'' then Inr (u_original u)
      else if name = ''password'' then Inr (u_password u)
      else if name = ''path'' then nth_part (u_path u) k
      else if name = ''path-count'' then Inr (dec (int (length (u_path u))))
      else if name = ''port'' then Inr (dec (u_port u))
      else if name = ''protocol'' then Inr (u_protocol u)
      else if name = ''query-string'' then nth_part (map snd (u_query_strings u)) k
      else if name = ''query-string-count'' then Inr (dec (int (length (u_query_strings u))))
      else if name = ''sub-domain'' then nth_part (u_sub_domains u) k
      else if name = ''sub-domain-count'' then Inr (dec (int (length (u_sub_domains u))))
      else if name = ''tld'' \<or> name = ''top-level-domain'' then Inr (u_top_level_domain u)
      else if name = ''uri'' then get_uri E False u
      else if name = ''username'' then Inr (u_username u)
      else Inr [])"

section \<open>Setters\<close>

definition set_protocol :: "string \<Rightarrow> snap_uri \<Rightarrow> snap_uri res" where
  "set_protocol uri_protocol u =
     (if uri_protocol = [] then Inl Invalid_uri_parameter else Inr (u\<lparr>u_protocol := uri_protocol\<rparr>))"

definition set_port :: "int \<Rightarrow> snap_uri \<Rightarrow> snap_uri res" where
  "set_port port u =
     (if port < 0 \<or> port > 65535 then Inl Invalid_uri_parameter else Inr (u\<lparr>u_port := port\<rparr>))"

definition set_port_text :: "('a env_scheme) \<Rightarrow> string \<Rightarrow> snap_uri \<Rightarrow> snap_uri res" where
  "set_port_text E port u = (case to_int E port of None \<Rightarrow> Inl Invalid_uri_parameter | Some p \<Rightarrow> set_port p u)"

text \<open>\<open>set_path\<close> resolves periods as \<open>set_uri\<close> does, and single periods too.\<close>

function resolve_dots :: "nat \<Rightarrow> string list \<Rightarrow> string list option" where
  "resolve_dots i p =
     (if i \<ge> length p then Some p
      else if p ! i = ''.'' then resolve_dots i (take i p @ drop (i + 1) p)
      else if p ! i = ''..'' then
        (if i = 0 \<or> length p < 2 then None
         else resolve_dots (i - 1) (take (i - 1) p @ drop (i + 1) p))
      else resolve_dots (i + 1) p)"
  by pat_completeness auto

termination
  by (relation "measure (\<lambda>(i, p). 2 * length p - i)") auto

declare resolve_dots.simps [simp del]

definition set_path :: "string \<Rightarrow> snap_uri \<Rightarrow> snap_uri res" where
  "set_path uri_path u =
     (let text = (if (uri_path = [] \<or> hd uri_path \<noteq> CHR ''/'') \<and> u_path u \<noteq> []
          then join_with (CHR ''/'') (u_path u) @ ''/'' @ uri_path else uri_path) in
      case resolve_dots 0 (filter (\<lambda>n. n \<noteq> []) (split_on (CHR ''/'') text)) of
        None \<Rightarrow> Inl Invalid_uri_path
      | Some p \<Rightarrow> Inr (u\<lparr>u_path := p\<rparr>))"

definition set_option :: "string \<Rightarrow> string \<Rightarrow> snap_uri \<Rightarrow> snap_uri" where
  "set_option name value u =
     u\<lparr>u_options := (if value = [] then om_erase name (u_options u) else om_put name value (u_options u))\<rparr>"

definition unset_option :: "string \<Rightarrow> snap_uri \<Rightarrow> snap_uri" where
  "unset_option name u = u\<lparr>u_options := om_erase name (u_options u)\<rparr>"

definition named_option :: "string \<Rightarrow> snap_uri \<Rightarrow> string" where
  "named_option name u = (case map_of (u_options u) name of None \<Rightarrow> [] | Some v \<Rightarrow> v)"

definition set_query_option :: "string \<Rightarrow> string \<Rightarrow> snap_uri \<Rightarrow> snap_uri" where
  "set_query_option name value u =
     (if name = [] then u
      else u\<lparr>u_query_strings := (if value = [] then om_erase name (u_query_strings u)
             else om_put name value (u_query_strings u))\<rparr>)"

definition unset_query_option :: "string \<Rightarrow> snap_uri \<Rightarrow> snap_uri" where
  "unset_query_option name u =
     (if name = [] then u else u\<lparr>u_query_strings := om_erase name (u_query_strings u)\<rparr>)"

definition has_query_option :: "string \<Rightarrow> snap_uri \<Rightarrow> bool" where
  "has_query_option name u \<longleftrightarrow> name \<noteq> [] \<and> map_of (u_query_strings u) name \<noteq> None"

definition query_option :: "string \<Rightarrow> snap_uri \<Rightarrow> string" where
  "query_option name u =
     (if name = [] then [] else (case map_of (u_query_strings u) name of None \<Rightarrow> [] | Some v \<Rightarrow> v))"

definition put_query_field :: "string \<Rightarrow> (string, string) omap \<Rightarrow> (string, string) omap res" where
  "put_query_field f m =
     (let name = takeWhile (\<lambda>c. c \<noteq> CHR ''='') f in
      if CHR ''='' \<notin> set f then rbind (urldecode False f) (\<lambda>n. Inr (om_put n [] m))
      else if name = [] then rbind (urldecode False f) (\<lambda>v. Inr (om_put ''*'' v m))
      else rbind (urldecode False name) (\<lambda>n.
        rbind (urldecode False (drop (length name + 1) f)) (\<lambda>v. Inr (om_put n v m))))"

definition set_query_string :: "string \<Rightarrow> snap_uri \<Rightarrow> snap_uri res" where
  "set_query_string uri_query_string u =
     rbind (chain (map put_query_field (filter (\<lambda>n. n \<noteq> []) (split_on (CHR ''&'') uri_query_string)))
        (u_query_strings u)) (\<lambda>m. Inr (u\<lparr>u_query_strings := m\<rparr>))"

definition set_anchor :: "string \<Rightarrow> snap_uri \<Rightarrow> snap_uri res" where
  "set_anchor uri_anchor u =
     (if CHR ''#'' \<in> set uri_anchor then Inl Invalid_uri_parameter else Inr (u\<lparr>u_anchor := uri_anchor\<rparr>))"

text \<open>\<open>operator ==\<close> and \<open>operator <\<close> compare the printed URIs.\<close>

definition same_uri :: "uri_env \<Rightarrow> snap_uri \<Rightarrow> snap_uri \<Rightarrow> bool" where
  "same_uri E u v \<longleftrightarrow> get_uri E False u = get_uri E False v"

end
