(* ===== verification/UriProps.thy ===== *)
theory UriProps
  imports SnapUri
begin

text \<open>
  A URI that is printed is read back as the same object; the periods of a path are resolved as on a stack.
\<close>

section \<open>Periods in paths\<close>

text \<open>The reference: two periods drop the segment before them.\<close>

fun climb :: "string list \<Rightarrow> string list \<Rightarrow> string list option" where
  "climb stack [] = Some (rev stack)"
| "climb stack (x # xs) =
     (if x = ''..'' then (case stack of [] \<Rightarrow> None | _ # s \<Rightarrow> climb s xs) else climb (x # stack) xs)"

lemma remove_dots_climb:
  "i \<le> length p \<Longrightarrow> remove_dots i p = climb (rev (take i p)) (drop i p)"
proof (induction i p rule: remove_dots.induct)
  case (1 i p)
  show ?case
  proof (cases "i = length p")
    case True
    then show ?thesis by (simp add: remove_dots.simps [of "length p" p])
  next
    case False
    then have i: "i < length p" using 1(3) by simp
    then have d: "drop i p = p ! i # drop (i + 1) p" by (simp add: Cons_nth_drop_Suc)
    show ?thesis
    proof (cases "p ! i = ''..''")
      case dots: True
      show ?thesis
      proof (cases i)
        case 0
        then have "climb [] p = None" using dots d by (cases p) simp_all
        with 0 show ?thesis using i dots by (simp add: remove_dots.simps [of 0 p])
      next
        case (Suc j)
        let ?q = "take j p @ drop (i + 1) p"
        have "2 \<le> length p" using i Suc by simp
        then have "remove_dots i p = remove_dots j ?q" using i dots Suc by (simp add: remove_dots.simps [of "Suc j" p])
        also have "\<dots> = climb (rev (take j ?q)) (drop j ?q)"
          using 1(1) i dots Suc \<open>2 \<le> length p\<close> by simp
        also have "take j ?q = take j p" using i Suc by simp
        also have "drop j ?q = drop (i + 1) p" using i Suc by simp
        also have "climb (rev (take j p)) (drop (i + 1) p) = climb (rev (take i p)) (drop i p)"
          using i dots d Suc by (simp add: take_Suc_conv_app_nth)
        finally show ?thesis .
      qed
    next
      case False
      then have "remove_dots i p = remove_dots (i + 1) p" using i by (simp add: remove_dots.simps [of i p])
      also have "\<dots> = climb (rev (take (i + 1) p)) (drop (i + 1) p)" using 1(2) i False by simp
      also have "\<dots> = climb (rev (take i p)) (drop i p)"
        using i d False by (simp add: take_Suc_conv_app_nth)
      finally show ?thesis .
    qed
  qed
qed

lemma climb_no_dots: "''..'' \<notin> set p \<Longrightarrow> climb s p = Some (rev s @ p)"
  by (induction p arbitrary: s) auto

lemma climb_result:
  "climb s p = Some r \<Longrightarrow> ''..'' \<notin> set s \<Longrightarrow> set r \<subseteq> set s \<union> set p \<and> ''..'' \<notin> set r"
proof (induction s p arbitrary: r rule: climb.induct)
  case (2 s x xs)
  show ?case
  proof (cases "x = ''..''")
    case True
    then obtain y t where s: "s = y # t" using 2(3) by (cases s) auto
    then have "set r \<subseteq> set t \<union> set xs \<and> ''..'' \<notin> set r" using 2 True by simp
    with s show ?thesis by auto
  next
    case False
    then have "set r \<subseteq> set (x # s) \<union> set xs \<and> ''..'' \<notin> set r" using 2 by simp
    then show ?thesis by auto
  qed
qed auto

section \<open>Texts that are joined and split\<close>

lemma split_join:
  "ws \<noteq> [] \<Longrightarrow> \<forall>w\<in>set ws. c \<notin> set w \<Longrightarrow> split_on c (join_with c ws) = ws"
proof (induction ws)
  case (Cons w ws)
  then show ?case by (cases "ws = []") (simp_all add: split_on_none split_on_append)
qed simp

lemma set_join: "set (join_with c ws) \<subseteq> insert c (\<Union> (set ` set ws))"
  by (induction ws) auto

lemma map_res_inverse: "(\<And>x. x \<in> set xs \<Longrightarrow> f (g x) = Inr x) \<Longrightarrow> map_res f (map g xs) = Inr xs"
  by (induction xs) simp_all

lemma map_res_length: "map_res f xs = Inr ys \<Longrightarrow> length ys = length xs"
  by (induction xs arbitrary: ys) (auto simp: rbind_Inr_iff)

lemma urlencode_append:
  "no_nul s \<Longrightarrow> no_nul t \<Longrightarrow> urlencode a (s @ t) = urlencode a s @ urlencode a t"
  by (simp add: urlencode_def)

lemma no_nul_join: "c \<noteq> CHR 0x00 \<Longrightarrow> \<forall>w\<in>set ws. no_nul w \<Longrightarrow> no_nul (join_with c ws)"
  by (induction ws) simp_all

lemma urlencode_single: "plain_char c \<Longrightarrow> c \<noteq> CHR 0x00 \<Longrightarrow> urlencode a [c] = [c]"
  by (simp add: urlencode_def url_char_def)

lemma urlencode_join:
  assumes "plain_char c" "c \<noteq> CHR 0x00" "\<forall>w\<in>set ws. no_nul w"
  shows "urlencode a (join_with c ws) = join_with c (map (urlencode a) ws)"
  using assms(3)
proof (induction ws)
  case Nil
  then show ?case by (simp add: urlencode_def)
next
  case (Cons w ws)
  have "urlencode a (c # s) = c # urlencode a s" if "no_nul s" for s
    using urlencode_append [of "[c]" s a] urlencode_single [OF assms(1,2), of a] assms(2) that by simp
  with Cons show ?case by (simp add: urlencode_append no_nul_join assms(2))
qed

lemma period_plain: "plain_char (CHR ''.'')"
  by (simp add: plain_char_def)

lemma digit_not_period: "d < 16 \<Longrightarrow> digit d \<noteq> CHR ''.''"
  using hex_value_digit [of d] by (auto simp: hex_value_def less_eq_char_def)

lemma period_urlencode: "CHR ''.'' \<notin> set s \<Longrightarrow> CHR ''.'' \<notin> set (urlencode [] s)"
proof -
  assume s: "CHR ''.'' \<notin> set s"
  have "CHR ''.'' \<notin> set (url_char [] c)" if "c \<noteq> CHR ''.''" for c
    using that digit_not_period [of "of_char c div 16 mod 16", symmetric] digit_not_period [of "of_char c mod 16", symmetric]
    by (cases "plain_char c") (simp_all add: url_char_def hex_pad_2)
  moreover have "CHR ''.'' \<notin> set (c_str s)" using s unfolding c_str_def by (metis set_takeWhileD)
  ultimately have "CHR ''.'' \<notin> set (url_char [] c)" if "c \<in> set (c_str s)" for c
    using that by metis
  then show ?thesis by (simp add: urlencode_def)
qed

text \<open>No separator of a URI is in an encoded text.\<close>

definition separators :: string where
  "separators = ''/:@?#&=+!~,''"

lemma special_not_plain: "c \<in> set separators \<Longrightarrow> \<not> plain_char c \<and> c \<noteq> CHR ''%''"
proof -
  have "list_all (\<lambda>c. \<not> plain_char c \<and> c \<noteq> CHR ''%'') separators" by code_simp
  then show "c \<in> set separators \<Longrightarrow> \<not> plain_char c \<and> c \<noteq> CHR ''%''" by (simp add: list_all_iff)
qed

lemma not_in_urlencode: "c \<in> set separators \<Longrightarrow> c \<notin> set a \<Longrightarrow> c \<notin> set (urlencode a s)"
  using special_not_plain [of c] urlencode_chars [of c a s] by blast

lemma accepts_sets: "accepts False []" "accepts False ''~''" "accepts False '',''" "accepts False ''!/~''"
  by (simp_all add: accepts_def uri_char_def)

lemma decode_all:
  assumes "no_nul s"
  shows "urldecode False (urlencode [] s) = Inr s" "urldecode False (urlencode ''~'' s) = Inr s"
    "urldecode False (urlencode '','' s) = Inr s" "urldecode False (urlencode ''!/~'' s) = Inr s"
  using urldecode_urlencode [OF assms] accepts_sets by blast+

section \<open>The authority\<close>

definition no_mark :: "string \<Rightarrow> bool" where
  "no_mark s \<longleftrightarrow> CHR '':'' \<notin> set s \<and> CHR ''@'' \<notin> set s"

lemma scan_skip: "no_mark w \<Longrightarrow> scan_authority i (w @ r) st = scan_authority (i + length w) r st"
proof (induction w arbitrary: i)
  case (Cons c w)
  then show ?case by (cases st) (auto simp: no_mark_def)
qed simp

lemma scan_end: "no_mark w \<Longrightarrow> scan_authority i w st = Some st"
  using scan_skip [of w i "[]" st] by simp

definition port_suffix :: "int option \<Rightarrow> string" where
  "port_suffix p = (case p of None \<Rightarrow> [] | Some n \<Rightarrow> CHR '':'' # dec n)"

lemma scan_port:
  assumes "no_mark d" "no_mark (dec n)"
  shows "scan_authority i (d @ CHR '':'' # dec n) (None, None, None) = Some (Some (i + length d), None, None)"
    "scan_authority i (d @ CHR '':'' # dec n) (Some c, None, Some a) = Some (Some c, Some (i + length d), Some a)"
  using assms by (simp_all add: scan_skip scan_end)

lemma read_port_digits: "list_all isdigit s \<Longrightarrow> 0 \<le> v \<Longrightarrow>
    foldl (\<lambda>p d. p * 10 + (int (of_char d) - 48)) v s \<le> 65535 \<Longrightarrow>
    read_port v s = Some (foldl (\<lambda>p d. p * 10 + (int (of_char d) - 48)) v s)
    \<and> v \<le> foldl (\<lambda>p d. p * 10 + (int (of_char d) - 48)) v s"
proof (induction s arbitrary: v)
  case (Cons d s)
  let ?v = "v * 10 + (int (of_char d) - 48)"
  have "48 \<le> (of_char d :: nat)" using Cons.prems(1) by (simp add: isdigit_def less_eq_char_def)
  then have "0 \<le> ?v" "v \<le> ?v" using Cons.prems(2) by simp_all
  moreover have "read_port ?v s = Some (foldl (\<lambda>p d. p * 10 + (int (of_char d) - 48)) ?v s)
      \<and> ?v \<le> foldl (\<lambda>p d. p * 10 + (int (of_char d) - 48)) ?v s"
    using Cons \<open>0 \<le> ?v\<close> by simp
  ultimately show ?case using Cons.prems by (simp add: Let_def)
qed simp

lemma isdigit_dec_nat: "list_all isdigit (dec_nat n)"
proof (induction n rule: dec_nat.induct)
  case (1 n)
  have "isdigit (digit d)" if "d < 10" for d
    using that by (simp add: isdigit_def less_eq_char_def of_char_digit)
  with 1 show ?case by (subst dec_nat.simps) simp
qed

lemma fold_port: "foldl (\<lambda>p d. p * 10 + (int (of_char d) - 48)) 0 (dec_nat n) = int n"
proof (induction n rule: dec_nat.induct)
  case (1 n)
  have d: "int (of_char (digit (n mod 10))) - 48 = int (n mod 10)" by (simp add: of_char_digit)
  show ?case
  proof (cases "n < 10")
    case True
    then show ?thesis by (simp add: dec_nat.simps [of n] of_char_digit)
  next
    case False
    then show ?thesis
      using 1 d by (simp add: dec_nat.simps [of n]) (simp add: zdiv_int zmod_int)
  qed
qed

lemma read_port_dec: "0 \<le> n \<Longrightarrow> n \<le> 65535 \<Longrightarrow> read_port 0 (dec n) = Some n"
  using read_port_digits [OF isdigit_dec_nat, of 0 "nat n"] by (simp add: dec_def fold_port)

lemma no_mark_dec: "0 \<le> n \<Longrightarrow> no_mark (dec n) \<and> CHR ''/'' \<notin> set (dec n) \<and> no_nul (dec n)"
  using isdigit_dec_nat [of "nat n"]
  by (auto simp: dec_def no_mark_def no_nul_def list_all_iff isdigit_def less_eq_char_def)

definition user_prefix :: "string \<Rightarrow> string \<Rightarrow> string" where
  "user_prefix n p = (if n = [] then [] else n @ CHR '':'' # p @ ''@'')"

lemma text_part_append: "text_part (a @ b @ r) (length a) (length a + length b) = b"
  by (simp add: text_part_def)

lemma read_authority_text:
  assumes "no_mark n" "no_mark p" "no_mark d" "d \<noteq> []" "n = [] \<longleftrightarrow> p = []"
    and "port = None \<or> (\<exists>k. port = Some k \<and> 0 \<le> k \<and> k \<le> 65535)"
  shows "read_authority default_port (user_prefix n p @ d @ port_suffix port)
    = Some (n, p, d, case port of None \<Rightarrow> default_port | Some k \<Rightarrow> k)"
proof (cases "n = []")
  case True
  show ?thesis
  proof (cases port)
    case None
    then show ?thesis using assms True
      by (simp add: read_authority_def user_prefix_def port_suffix_def scan_end)
  next
    case (Some k)
    then have k: "0 \<le> k" "k \<le> 65535" using assms(6) by auto
    show ?thesis using assms True Some k
      by (simp add: read_authority_def user_prefix_def port_suffix_def scan_port no_mark_dec read_port_dec text_part_def)
  qed
next
  case False
  have scan: "scan_authority 0 (n @ CHR '':'' # p @ CHR ''@'' # r) (None, None, None)
      = scan_authority (length n + length p + 2) r (Some (length n), None, Some (length n + length p + 1))" for r
    using assms(1,2) by (simp add: scan_skip)
  have t: "text_part (n @ r) 0 (length n) = n"
    "text_part (n @ CHR '':'' # p @ r) (length n + 1) (length n + length p + 1) = p" for r
    by (simp_all add: text_part_def)
  show ?thesis
  proof (cases port)
    case None
    then show ?thesis using assms False t(1) t(2)
      by (simp add: read_authority_def user_prefix_def port_suffix_def scan scan_end text_part_def)
  next
    case (Some k)
    then have k: "0 \<le> k" "k \<le> 65535" using assms(6) by auto
    have "drop (3 + (length p + length d)) (CHR '':'' # p @ CHR ''@'' # d @ CHR '':'' # dec k) = dec k"
      by (simp add: numeral_3_eq_3)
    with assms False Some k show ?thesis
      by (simp add: read_authority_def user_prefix_def port_suffix_def scan scan_port no_mark_dec read_port_dec text_part_def)
  qed
qed

section \<open>The domain\<close>

text \<open>
  The parts of a domain name that \<open>process_domain\<close> can give: no sub-domain is the list of one empty string.
\<close>

definition subs_ok :: "string list \<Rightarrow> bool" where
  "subs_ok subs \<longleftrightarrow> subs = [[]]
     \<or> subs \<noteq> [] \<and> (\<forall>w\<in>set subs. w \<noteq> [] \<and> no_nul w \<and> CHR ''.'' \<notin> set w)"

definition subs_prefix :: "string list \<Rightarrow> string" where
  "subs_prefix subs = (if subs = [[]] then [] else join_with (CHR ''.'') subs @ ''.'')"

definition domain_ok :: "uri_env \<Rightarrow> snap_uri \<Rightarrow> bool" where
  "domain_ok E u \<longleftrightarrow> subs_ok (u_sub_domains u) \<and> u_domain u \<noteq> [] \<and> no_nul (u_domain u)
     \<and> CHR ''.'' \<notin> set (u_domain u) \<and> no_nul (u_top_level_domain u)
     \<and> tld E (urlencode [] (full_domain u))
        = Some (length (urlencode [] (subs_prefix (u_sub_domains u) @ u_domain u)))"

lemma subs_ok_no_nul: "subs_ok subs \<Longrightarrow> no_nul (subs_prefix subs) \<and> (\<forall>w\<in>set subs. no_nul w)"
  by (auto simp: subs_ok_def subs_prefix_def intro!: no_nul_join)

lemma join_not_Nil: "ws \<noteq> [] \<Longrightarrow> \<forall>w\<in>set ws. w \<noteq> [] \<Longrightarrow> join_with c ws \<noteq> []"
  by (cases ws) auto

lemma full_domain_parts:
  assumes "subs_ok (u_sub_domains u)"
  shows "full_domain u = subs_prefix (u_sub_domains u) @ u_domain u @ u_top_level_domain u"
  using assms join_not_Nil [of "u_sub_domains u"]
  by (auto simp: full_domain_def subs_prefix_def subs_ok_def Let_def)

lemma last_segment:
  assumes "CHR ''.'' \<notin> set d"
  shows "takeWhile (\<lambda>c. c \<noteq> CHR ''.'') (rev d @ CHR ''.'' # s) = rev d"
    "takeWhile (\<lambda>c. c \<noteq> CHR ''.'') (rev d) = rev d"
proof -
  have d: "CHR ''.'' \<notin> set (rev d)" using assms by simp
  show "takeWhile (\<lambda>c. c \<noteq> CHR ''.'') (rev d @ CHR ''.'' # s) = rev d"
    using takeWhile_upto(1) [OF d, of "CHR ''.'' # s"] by simp
  show "takeWhile (\<lambda>c. c \<noteq> CHR ''.'') (rev d) = rev d"
    using takeWhile_upto(1) [OF d, of "[]"] by (simp only: append_Nil2 simp_thms)
qed

lemma process_domain_alone:
  assumes "c_str fd = d @ t" "tld E (c_str fd) = Some (length d)" "CHR ''.'' \<notin> set d"
    "urldecode False d = Inr dd" "urldecode False t = Inr tt"
  shows "process_domain E fd = Inr (Some ([[]], dd, tt))"
  using assms by (simp add: process_domain_def Let_def last_segment(2) [OF assms(3)])

lemma process_domain_subs:
  assumes "c_str fd = (w @ CHR ''.'' # d) @ t" "tld E (c_str fd) = Some (length (w @ CHR ''.'' # d))"
    "CHR ''.'' \<notin> set d" "urldecode False d = Inr dd" "urldecode False t = Inr tt" "w \<noteq> []"
    "[] \<notin> set (split_on (CHR ''.'') w)" "map_res (urldecode False) (split_on (CHR ''.'') w) = Inr ss"
  shows "process_domain E fd = Inr (Some (ss, dd, tt))"
proof -
  have "take (length (w @ CHR ''.'' # d)) (c_str fd) = w @ CHR ''.'' # d"
    "drop (length (w @ CHR ''.'' # d)) (c_str fd) = t" unfolding assms(1) by simp_all
  then show ?thesis
    using assms(4-8) by (simp add: process_domain_def assms(2) Let_def last_segment(1) [OF assms(3)])
qed

lemma process_domain_text:
  assumes "domain_ok E u"
  shows "process_domain E (urlencode [] (full_domain u))
    = Inr (Some (u_sub_domains u, u_domain u, u_top_level_domain u))"
proof -
  let ?subs = "u_sub_domains u" and ?d = "urlencode [] (u_domain u)" and ?t = "urlencode [] (u_top_level_domain u)"
  have ok: "subs_ok ?subs" "u_domain u \<noteq> []" "no_nul (u_domain u)" "CHR ''.'' \<notin> set (u_domain u)"
      "no_nul (u_top_level_domain u)"
    using assms by (simp_all add: domain_ok_def)
  have prefix_ok: "no_nul (subs_prefix ?subs)" using subs_ok_no_nul [OF ok(1)] by simp
  have full: "c_str (urlencode [] (full_domain u)) = (urlencode [] (subs_prefix ?subs) @ ?d) @ ?t"
    using ok prefix_ok by (simp add: full_domain_parts [OF ok(1)] urlencode_append)
  have tld: "tld E (c_str (urlencode [] (full_domain u))) = Some (length (urlencode [] (subs_prefix ?subs) @ ?d))"
    using assms ok(3) prefix_ok by (simp add: domain_ok_def urlencode_append)
  note decode = decode_all(1) [OF ok(3)] decode_all(1) [OF ok(5)]
  note no_period = period_urlencode [OF ok(4)]
  show ?thesis
  proof (cases "?subs = [[]]")
    case True
    then have "urlencode [] (subs_prefix ?subs) = []" by (simp add: subs_prefix_def urlencode_def)
    with process_domain_alone [OF _ _ no_period decode, of "urlencode [] (full_domain u)" E] full tld True
    show ?thesis by simp
  next
    case False
    then have s: "?subs \<noteq> []" "\<forall>w\<in>set ?subs. w \<noteq> [] \<and> no_nul w \<and> CHR ''.'' \<notin> set w"
      using ok(1) by (auto simp: subs_ok_def)
    let ?enc = "map (urlencode []) ?subs"
    have enc: "?enc \<noteq> []" "\<forall>w\<in>set ?enc. w \<noteq> [] \<and> CHR ''.'' \<notin> set w"
      using s by (auto simp: urlencode_Nil_iff period_urlencode)
    have prefix: "urlencode [] (subs_prefix ?subs) = join_with (CHR ''.'') ?enc @ ''.''"
      using False s(2) period_plain
      by (simp add: subs_prefix_def urlencode_append no_nul_join urlencode_join urlencode_single)
    have split: "split_on (CHR ''.'') (join_with (CHR ''.'') ?enc) = ?enc" "join_with (CHR ''.'') ?enc \<noteq> []"
      using split_join [OF enc(1), of "CHR ''.''"] join_not_Nil [OF enc(1)] enc(2) by auto
    have map: "map_res (urldecode False) ?enc = Inr ?subs"
      using s(2) by (intro map_res_inverse) (simp add: decode_all)
    have nil: "[] \<notin> set ?enc" using enc(2) by auto
    show ?thesis
    proof (rule process_domain_subs [of _ "join_with (CHR ''.'') ?enc" ?d ?t])
      show "c_str (urlencode [] (full_domain u)) = (join_with (CHR ''.'') ?enc @ CHR ''.'' # ?d) @ ?t"
        unfolding full prefix by simp
      show "tld E (c_str (urlencode [] (full_domain u))) = Some (length (join_with (CHR ''.'') ?enc @ CHR ''.'' # ?d))"
        unfolding tld prefix by simp
    qed (simp_all only: no_period decode split map nil not_False_eq_True)
  qed
qed

section \<open>The query string\<close>

definition field_ok :: "string \<times> string \<Rightarrow> bool" where
  "field_ok q \<longleftrightarrow> fst q \<noteq> [] \<and> no_nul (fst q) \<and> no_nul (snd q)"

lemma query_text_chars: "CHR ''&'' \<notin> set (query_text q)" "CHR ''#'' \<notin> set (query_text q)"
  using not_in_urlencode [of "CHR ''&''"] not_in_urlencode [of "CHR ''#''"]
  by (auto simp: query_text_def separators_def split: prod.split)

lemma query_text_not_Nil: "field_ok q \<Longrightarrow> query_text q \<noteq> []"
  by (auto simp: query_text_def field_ok_def urlencode_Nil_iff split: prod.split)

lemma query_string_join:
  assumes "list_all field_ok (u_query_strings u)"
  shows "query_string u = join_with (CHR ''&'') (map query_text (u_query_strings u))"
proof -
  have "foldl (\<lambda>result q. result @ (if result = [] then [] else ''&'') @ query_text q) a qs
      = (if qs = [] then a else if a = [] then join_with (CHR ''&'') (map query_text qs)
         else a @ CHR ''&'' # join_with (CHR ''&'') (map query_text qs))" if "list_all field_ok qs" for a qs
    using that
  proof (induction qs arbitrary: a)
    case (Cons q qs)
    then show ?case using query_text_not_Nil [of q] by simp
  qed simp
  from this [OF assms] show ?thesis by (simp add: query_string_def)
qed

lemma query_field_text:
  assumes "field_ok (n, v)"
  shows "query_field first (query_text (n, v)) = (urlencode [] n, urlencode '','' v)"
proof -
  have n: "urlencode [] n \<noteq> []" using assms by (simp add: field_ok_def urlencode_Nil_iff)
  have e: "CHR ''='' \<notin> set (urlencode [] n)" using not_in_urlencode [of "CHR ''=''"] by (simp add: separators_def)
  obtain c w where c: "urlencode [] n = c # w" using n by (cases "urlencode [] n") auto
  then have w: "CHR ''='' \<notin> set (c # w)" "CHR ''='' \<notin> set w" using e by simp_all
  have t: "takeWhile (\<lambda>c. c \<noteq> CHR ''='') ((c # w) @ r) = c # w" "takeWhile (\<lambda>c. c \<noteq> CHR ''='') (w @ r) = w"
    if "r = [] \<or> hd r = CHR ''=''" for r
    using takeWhile_upto(1) [OF w(1) that] takeWhile_upto(1) [OF w(2) that] by simp_all
  show ?thesis
  proof (cases "v = []")
    case True
    then have "urlencode '','' v = []" by (simp add: urlencode_def)
    then show ?thesis using True w
      by (simp add: query_field_def query_text_def c t(1) [of "[]", unfolded append_Nil2]
          t(2) [of "[]", unfolded append_Nil2])
  next
    case False
    then show ?thesis using t [of "CHR ''='' # urlencode '','' v"] by (simp add: query_field_def query_text_def c)
  qed
qed

lemma om_put_at_end: "om_ok (m @ [(k, v)]) \<Longrightarrow> om_put k v m = m @ [(k, v)]"
proof (induction m)
  case (Cons p m)
  then show ?case by (cases p) (auto simp: less_imp_not_less)
qed simp

lemma field_decoded:
  assumes "field_ok (n, v)" "om_ok (m @ [(n, v)])" "t = [] \<or> field_end (hd t)"
  shows "read_query first m (query_text (n, v) @ t) =
    (let r = skip_ampersands t in
     if r = [] \<or> hd r = CHR ''#'' then Inr (Some (m @ [(n, v)], r)) else read_query False (m @ [(n, v)]) r)"
proof -
  let ?q = "query_text (n, v)"
  have q: "\<forall>c\<in>set ?q. \<not> field_end c" using query_text_chars [of "(n, v)"] by (auto simp: field_end_def)
  then have "takeWhile (\<lambda>c. \<not> field_end c) (?q @ t) = ?q" "dropWhile (\<lambda>c. \<not> field_end c) (?q @ t) = t"
    using assms(3) by (cases t; simp add: takeWhile_append dropWhile_append)+
  moreover have "map_of m n = None"
    using assms(2) om_ok_distinct [OF assms(2)] by (auto simp: map_of_eq_None_iff)
  moreover have "no_nul n" "no_nul v" using assms(1) by (simp_all add: field_ok_def)
  ultimately show ?thesis
    by (subst read_query.simps)
      (simp add: query_field_text [OF assms(1)] decode_all om_put_at_end [OF assms(2)] Let_def)
qed

lemma read_query_text:
  assumes "qs \<noteq> []" "list_all field_ok qs" "om_ok (m @ qs)" "rest = [] \<or> hd rest = CHR ''#''"
  shows "read_query first m (join_with (CHR ''&'') (map query_text qs) @ rest) = Inr (Some (m @ qs, rest))"
  using assms(1-3)
proof (induction qs arbitrary: m first)
  case (Cons q qs)
  obtain n v where q: "q = (n, v)" by fastforce
  have ok: "field_ok (n, v)" "om_ok (m @ [(n, v)])"
    using Cons.prems q om_ok_filter [of "m @ (n, v) # qs"] by (auto simp: om_ok_def sorted_wrt_append)
  show ?case
  proof (cases "qs = []")
    case True
    have "skip_ampersands rest = rest" using assms(4) by (cases rest) (auto simp: skip_ampersands_def)
    then show ?thesis
      using field_decoded [OF ok, of rest first] assms(4) q True by (auto simp: field_end_def Let_def)
  next
    case False
    define r where "r = join_with (CHR ''&'') (map query_text qs) @ rest"
    obtain q' qs' where qs: "qs = q' # qs'" using False by (cases qs) auto
    have q0: "query_text q' \<noteq> []" using Cons.prems qs query_text_not_Nil [of q'] by simp
    have q': "query_text q' \<noteq> []" "hd (query_text q') \<noteq> CHR ''&''" "hd (query_text q') \<noteq> CHR ''#''"
      using q0 hd_in_set [OF q0] query_text_chars [of q'] by metis+
    then have r: "skip_ampersands r = r" "r \<noteq> []" "hd r \<noteq> CHR ''#''"
      using qs by (cases "query_text q'"; auto simp: skip_ampersands_def r_def)+
    then have "skip_ampersands (CHR ''&'' # r) = r" by (simp add: skip_ampersands_def)
    then have "read_query first m (query_text (n, v) @ CHR ''&'' # r) = read_query False (m @ [(n, v)]) r"
      using field_decoded [OF ok, of "CHR ''&'' # r" first] r(2,3) by (simp add: field_end_def Let_def)
    also have "\<dots> = Inr (Some (m @ q # qs, rest))"
      using Cons.IH [of "m @ [(n, v)]" False] Cons.prems False q by (simp add: r_def)
    finally show ?thesis using False q by (simp add: r_def)
  qed
qed simp

section \<open>The round trip\<close>

definition uri_ok :: "uri_env \<Rightarrow> snap_uri \<Rightarrow> bool" where
  "uri_ok E u \<longleftrightarrow> u_protocol u \<noteq> [] \<and> no_nul (u_protocol u) \<and> CHR '':'' \<notin> set (u_protocol u)
     \<and> (u_username u = [] \<longleftrightarrow> u_password u = []) \<and> no_nul (u_username u) \<and> no_nul (u_password u)
     \<and> 0 \<le> u_port u \<and> u_port u \<le> 65535 \<and> domain_ok E u
     \<and> list_all (\<lambda>w. w \<noteq> [] \<and> no_nul w \<and> w \<noteq> ''..'') (u_path u)
     \<and> om_ok (u_query_strings u) \<and> list_all field_ok (u_query_strings u)
     \<and> no_nul (u_anchor u) \<and> take 1 (u_anchor u) \<noteq> ''!''"

definition uri_port :: "uri_env \<Rightarrow> snap_uri \<Rightarrow> int option" where
  "uri_port E u = (if u_port u = protocol_to_port E (u_protocol u) then None else Some (u_port u))"

definition authority_text :: "uri_env \<Rightarrow> snap_uri \<Rightarrow> string" where
  "authority_text E u = user_prefix (urlencode [] (u_username u)) (urlencode [] (u_password u))
     @ urlencode [] (full_domain u) @ port_suffix (uri_port E u)"

definition query_suffix :: "snap_uri \<Rightarrow> string" where
  "query_suffix u = (if query_string u = [] then [] else CHR ''?'' # query_string u)"

definition anchor_suffix :: "snap_uri \<Rightarrow> string" where
  "anchor_suffix u = (if u_anchor u = [] then [] else CHR ''#'' # urlencode ''!/~'' (u_anchor u))"

lemma path_not_slash:
  assumes "list_all (\<lambda>w. w \<noteq> [] \<and> no_nul w \<and> w \<noteq> ''..'') (u_path u)"
  shows "path_text True u = [] \<or> hd (path_text True u) \<noteq> CHR ''/''"
proof (cases "u_path u")
  case (Cons w ws)
  then have w: "urlencode ''~'' w \<noteq> []" using assms by (simp add: urlencode_Nil_iff)
  moreover have "CHR ''/'' \<notin> set (urlencode ''~'' w)" using not_in_urlencode [of "CHR ''/''"] by (simp add: separators_def)
  ultimately have "hd (urlencode ''~'' w) \<noteq> CHR ''/''" using hd_in_set [OF w] by metis
  then show ?thesis using w Cons by (simp add: path_text_def)
qed (simp add: path_text_def)

lemma get_uri_text:
  assumes "uri_ok E u"
  shows "get_uri E False u = Inr (u_protocol u @ ''://'' @ authority_text E u @ CHR ''/'' # path_text True u
      @ query_suffix u @ anchor_suffix u)"
proof -
  have "urlencode [] (u_username u) = [] \<longleftrightarrow> u_username u = []" using assms by (simp add: uri_ok_def urlencode_Nil_iff)
  then show ?thesis
    using assms path_not_slash [of u]
    by (auto simp: get_uri_def authority_text_def user_prefix_def port_suffix_def uri_port_def query_suffix_def
        anchor_suffix_def uri_ok_def Let_def)
qed

lemma not_slash:
  assumes "uri_ok E u"
  shows "CHR ''/'' \<notin> set (authority_text E u)" "no_nul (authority_text E u)"
proof -
  have p: "0 \<le> u_port u" using assms by (simp add: uri_ok_def)
  show "CHR ''/'' \<notin> set (authority_text E u)"
    using no_mark_dec [OF p] not_in_urlencode [of "CHR ''/''"]
    by (auto simp: authority_text_def user_prefix_def port_suffix_def uri_port_def separators_def split: if_splits)
  show "no_nul (authority_text E u)"
    using no_mark_dec [OF p]
    by (simp add: authority_text_def user_prefix_def port_suffix_def uri_port_def)
qed

lemma no_mark_urlencode: "no_mark (urlencode [] s)"
  using not_in_urlencode [of "CHR '':''"] not_in_urlencode [of "CHR ''@''"]
  by (simp add: no_mark_def separators_def)

lemma full_domain_not_Nil: "domain_ok E u \<Longrightarrow> full_domain u \<noteq> [] \<and> no_nul (full_domain u)"
  using full_domain_parts [of u] subs_ok_no_nul [of "u_sub_domains u"] by (auto simp: domain_ok_def)

lemma read_authority_uri:
  assumes "uri_ok E u"
  shows "read_authority (protocol_to_port E (u_protocol u)) (authority_text E u)
    = Some (urlencode [] (u_username u), urlencode [] (u_password u), urlencode [] (full_domain u), u_port u)"
proof -
  have ok: "no_nul (u_username u)" "no_nul (u_password u)" "u_username u = [] \<longleftrightarrow> u_password u = []"
      "0 \<le> u_port u" "u_port u \<le> 65535" "domain_ok E u"
    using assms by (simp_all add: uri_ok_def)
  have "urlencode [] (full_domain u) \<noteq> []" using full_domain_not_Nil [OF ok(6)] by (simp add: urlencode_Nil_iff)
  moreover have "urlencode [] (u_username u) = [] \<longleftrightarrow> urlencode [] (u_password u) = []"
    using ok(1-3) by (simp add: urlencode_Nil_iff)
  moreover have "uri_port E u = None \<or> (\<exists>k. uri_port E u = Some k \<and> 0 \<le> k \<and> k \<le> 65535)"
    using ok(4,5) by (simp add: uri_port_def)
  moreover have "(case uri_port E u of None \<Rightarrow> protocol_to_port E (u_protocol u) | Some k \<Rightarrow> k) = u_port u"
    by (simp add: uri_port_def)
  ultimately show ?thesis
    unfolding authority_text_def
    by (subst read_authority_text) (simp_all add: no_mark_urlencode)
qed

lemma read_segments_path:
  assumes "list_all (\<lambda>w. w \<noteq> [] \<and> no_nul w \<and> w \<noteq> ''..'') (u_path u)"
  shows "read_segments (path_text True u) = Inr (u_path u)"
proof (cases "u_path u = []")
  case True
  then show ?thesis by (simp add: read_segments_def path_text_def)
next
  case False
  let ?enc = "map (urlencode ''~'') (u_path u)"
  have "\<forall>w\<in>set ?enc. CHR ''/'' \<notin> set w" using not_in_urlencode [of "CHR ''/''"] by (simp add: separators_def)
  then have "split_on (CHR ''/'') (path_text True u) = ?enc"
    using split_join [of ?enc "CHR ''/''"] False by (simp add: path_text_def)
  moreover have "filter (\<lambda>n. n \<noteq> []) ?enc = ?enc"
    using assms by (auto simp: filter_id_conv list_all_iff urlencode_Nil_iff)
  moreover have "map_res (urldecode False) ?enc = Inr (u_path u)"
    using assms by (intro map_res_inverse) (auto simp: list_all_iff decode_all)
  ultimately show ?thesis by (simp add: read_segments_def)
qed

lemma path_text_chars: "c \<in> set (path_text True u) \<Longrightarrow> \<not> path_end c \<and> c \<noteq> CHR 0x00"
proof -
  assume "c \<in> set (path_text True u)"
  then have "c = CHR ''/'' \<or> (\<exists>w. c \<in> set (urlencode ''~'' w))"
    using set_join [of "CHR ''/''" "map (urlencode ''~'') (u_path u)"] by (auto simp: path_text_def)
  then show ?thesis
    using not_in_urlencode [of "CHR ''?''" "''~''"] not_in_urlencode [of "CHR ''#''" "''~''"] no_nul_urlencode [of "''~''"]
    by (auto simp: path_end_def separators_def no_nul_def)
qed

lemma read_path_text:
  assumes "list_all (\<lambda>w. w \<noteq> [] \<and> no_nul w \<and> w \<noteq> ''..'') (u_path u)" "r = [] \<or> path_end (hd r)"
  shows "read_path (CHR ''/'' # path_text True u @ r) = Inr (u_path u, r)"
proof -
  have "\<forall>c\<in>set (path_text True u). \<not> path_end c" using path_text_chars by blast
  then have "takeWhile (\<lambda>c. \<not> path_end c) (path_text True u @ r) = path_text True u"
    "dropWhile (\<lambda>c. \<not> path_end c) (path_text True u @ r) = r"
    using assms(2) by (cases r; simp add: takeWhile_append dropWhile_append)+
  then show ?thesis using read_segments_path [OF assms(1)] by (simp add: read_path_def)
qed

lemma read_anchor_text:
  assumes "no_nul (u_anchor u)" "take 1 (u_anchor u) \<noteq> ''!''"
  shows "read_anchor (anchor_suffix u) = Inr ([], u_anchor u)"
  using assms by (cases "u_anchor u") (simp_all add: read_anchor_def anchor_suffix_def decode_all)

lemma suffix_start:
  "anchor_suffix u = [] \<or> hd (anchor_suffix u) = CHR ''#''"
  "query_suffix u @ anchor_suffix u = [] \<or> path_end (hd (query_suffix u @ anchor_suffix u))"
  by (simp_all add: anchor_suffix_def query_suffix_def path_end_def)

lemma read_query_suffix:
  assumes "uri_ok E u"
  defines "s \<equiv> query_suffix u @ anchor_suffix u"
  shows "(if s \<noteq> [] \<and> hd s = CHR ''?'' then read_query True [] (skip_ampersands (tl s)) else Inr (Some ([], s)))
    = Inr (Some (u_query_strings u, anchor_suffix u))"
proof -
  have ok: "list_all field_ok (u_query_strings u)" "om_ok (u_query_strings u)" using assms(1) by (simp_all add: uri_ok_def)
  note q = query_string_join [OF ok(1)]
  show ?thesis
  proof (cases "u_query_strings u")
    case Nil
    then show ?thesis using q by (simp add: s_def query_suffix_def anchor_suffix_def)
  next
    case (Cons f fs)
    then have f: "query_text f \<noteq> []" using ok query_text_not_Nil by simp
    have "hd (query_text f) \<noteq> CHR ''&''" using hd_in_set [OF f] query_text_chars [of f] by metis
    then have "skip_ampersands (query_string u @ anchor_suffix u) = query_string u @ anchor_suffix u"
        "query_string u \<noteq> []"
      using f q Cons by (cases "query_text f"; auto simp: skip_ampersands_def)+
    then show ?thesis
      using read_query_text [of "u_query_strings u" "[]" "anchor_suffix u" True] ok Cons q suffix_start(1)
      by (simp add: s_def query_suffix_def)
  qed
qed

lemma remove_no_dots:
  "list_all (\<lambda>w. w \<noteq> [] \<and> no_nul w \<and> w \<noteq> ''..'') p \<Longrightarrow> remove_dots 0 p = Some p"
  using remove_dots_climb [of 0 p] climb_no_dots [of p "[]"] by (auto simp: list_all_iff)

lemma suffixes_no_nul:
  assumes "uri_ok E u"
  shows "no_nul (query_suffix u @ anchor_suffix u)" "no_nul (path_text True u)"
proof -
  have "no_nul (query_text q)" for q by (simp add: query_text_def split: prod.split)
  then have "no_nul (join_with (CHR ''&'') (map query_text (u_query_strings u)))" by (intro no_nul_join) auto
  then show "no_nul (query_suffix u @ anchor_suffix u)"
    using assms query_string_join [of u] by (simp add: uri_ok_def query_suffix_def anchor_suffix_def)
  show "no_nul (path_text True u)" using path_text_chars [of "CHR 0x00" u] by (auto simp: no_nul_def)
qed

text \<open>
  C33. A URI object whose parts are well formed (the domain is one libtld knows, the path has no segment that is
  empty or two periods, user and password go together) is printed by get_uri and read back by set_uri as the same
  object, whatever characters its parts hold and whatever object it is read into: protocol, user, password, port,
  domain, path, query string and anchor.
\<close>

theorem uri_round_trip:
  assumes "uri_ok E u"
  shows "\<exists>text. get_uri E False u = Inr text
     \<and> set_uri E text u0 = Inr (Some (u\<lparr>u_original := text, u_options := []\<rparr>))"
proof -
  let ?s = "query_suffix u @ anchor_suffix u"
  let ?p = "CHR ''/'' # path_text True u @ ?s" and ?a = "authority_text E u" and ?proto = "u_protocol u"
  define t where "t = ?proto @ ''://'' @ ?a @ ?p"
  have ok: "?proto \<noteq> []" "no_nul ?proto" "CHR '':'' \<notin> set ?proto" "domain_ok E u"
      "no_nul (u_username u)" "no_nul (u_password u)" "u_port u \<noteq> -1"
      "list_all (\<lambda>w. w \<noteq> [] \<and> no_nul w \<and> w \<noteq> ''..'') (u_path u)" "no_nul (u_anchor u)" "take 1 (u_anchor u) \<noteq> ''!''"
    using assms by (auto simp: uri_ok_def)
  have c: "c_str t = t"
    using ok(2) not_slash(2) [OF assms] suffixes_no_nul [OF assms] by (simp add: t_def)
  have proto: "takeWhile (\<lambda>c. c \<noteq> CHR '':'') t = ?proto"
    using takeWhile_upto(1) [OF ok(3), of "''://'' @ ?a @ ?p"] by (simp add: t_def)
  have auth: "takeWhile (\<lambda>c. c \<noteq> CHR ''/'') (?a @ ?p) = ?a" "dropWhile (\<lambda>c. c \<noteq> CHR ''/'') (?a @ ?p) = ?p"
    using takeWhile_upto [OF not_slash(1) [OF assms], of ?p] by simp_all
  have rest: "drop (length ?proto) t = ''://'' @ ?a @ ?p" by (simp add: t_def)
  have "set_uri E t u0 = Inr (Some (u\<lparr>u_original := t, u_options := []\<rparr>))"
    using ok(1,7) read_query_suffix [OF assms]
    by (simp add: set_uri_def c proto rest auth read_authority_uri [OF assms] process_domain_text [OF ok(4)]
        read_path_text [OF ok(8) suffix_start(2)] read_anchor_text [OF ok(9,10)] remove_no_dots [OF ok(8)]
        decode_all [OF ok(5)] decode_all [OF ok(6)] Let_def)
  then show ?thesis using get_uri_text [OF assms] by (simp add: t_def)
qed

definition sample_uri_env :: uri_env where
  "sample_uri_env = \<lparr>tld = (\<lambda>s. if drop (length s - 4) s = ''.com'' then Some (length s - 4) else None),
     service_port = (\<lambda>p. None)\<rparr>"

definition sample_uri :: snap_uri where
  "sample_uri = new_uri\<lparr>u_username := ''a b'', u_password := ''p@ss:/'', u_port := 8080, u_domain := ''example'',
     u_top_level_domain := ''.com'', u_sub_domains := [''www''], u_path := [''a/b'', ''?''],
     u_query_strings := [(''n'', []), (''q'', ''1&2=3'')], u_anchor := ''top''\<rparr>"

lemma uri_round_trip_witness:
  "\<exists>text. get_uri sample_uri_env False sample_uri = Inr text
     \<and> set_uri sample_uri_env text new_uri = Inr (Some (sample_uri\<lparr>u_original := text, u_options := []\<rparr>))"
  by (rule uri_round_trip) code_simp

section \<open>Paths\<close>

lemma resolve_dots_climb:
  "i \<le> length p \<Longrightarrow> ''.'' \<notin> set (take i p) \<Longrightarrow>
   resolve_dots i p = climb (rev (take i p)) (filter (\<lambda>w. w \<noteq> ''.'') (drop i p))"
proof (induction i p rule: resolve_dots.induct)
  case (1 i p)
  show ?case
  proof (cases "i = length p")
    case True
    then show ?thesis by (simp add: resolve_dots.simps [of "length p" p])
  next
    case False
    then have i: "i < length p" using 1(4) by simp
    then have d: "drop i p = p ! i # drop (i + 1) p" by (simp add: Cons_nth_drop_Suc)
    consider "p ! i = ''.''" | "p ! i = ''..''" | "p ! i \<noteq> ''.''" "p ! i \<noteq> ''..''" by blast
    then show ?thesis
    proof cases
      case dot: 1
      let ?q = "take i p @ drop (i + 1) p"
      have "resolve_dots i p = resolve_dots i ?q" using i dot by (simp add: resolve_dots.simps [of i p])
      also have "\<dots> = climb (rev (take i ?q)) (filter (\<lambda>w. w \<noteq> ''.'') (drop i ?q))"
        using 1(1) i dot 1(5) by simp
      finally show ?thesis using i d dot by simp
    next
      case dots: 2
      show ?thesis
      proof (cases i)
        case 0
        then have "climb [] (filter (\<lambda>w. w \<noteq> ''.'') p) = None" using dots d by (cases p) simp_all
        with 0 show ?thesis using i dots by (simp add: resolve_dots.simps [of 0 p])
      next
        case (Suc j)
        let ?q = "take j p @ drop (i + 1) p"
        have "2 \<le> length p" using i Suc by simp
        then have step: "resolve_dots i p = resolve_dots j ?q"
          using i dots Suc by (simp add: resolve_dots.simps [of "Suc j" p])
        have "''.'' \<notin> set (take j p)" "j \<le> length p - 2"
          using 1(5) i Suc set_take_subset_set_take [of j i p] by auto
        then have "resolve_dots j ?q = climb (rev (take j ?q)) (filter (\<lambda>w. w \<noteq> ''.'') (drop j ?q))"
          using 1(2) i dots Suc \<open>2 \<le> length p\<close> by simp
        also have "take j ?q = take j p" using i Suc by simp
        also have "drop j ?q = drop (i + 1) p" using i Suc by simp
        also have "climb (rev (take j p)) (filter (\<lambda>w. w \<noteq> ''.'') (drop (i + 1) p))
            = climb (rev (take i p)) (filter (\<lambda>w. w \<noteq> ''.'') (drop i p))"
          using i dots d Suc by (simp add: take_Suc_conv_app_nth)
        finally show ?thesis using step by simp
      qed
    next
      case 3
      then have "resolve_dots i p = resolve_dots (i + 1) p" using i by (simp add: resolve_dots.simps [of i p])
      also have "\<dots> = climb (rev (take (i + 1) p)) (filter (\<lambda>w. w \<noteq> ''.'') (drop (i + 1) p))"
        using 1(3,5) i 3 by (simp add: take_Suc_conv_app_nth)
      also have "\<dots> = climb (rev (take i p)) (filter (\<lambda>w. w \<noteq> ''.'') (drop i p))"
        using i d 3 by (simp add: take_Suc_conv_app_nth)
      finally show ?thesis .
    qed
  qed
qed

lemma read_path_result: "set_uri E t u0 = Inr (Some u) \<Longrightarrow> \<exists>p. remove_dots 0 p = Some (u_path u)"
  by (auto simp: set_uri_def rbind_Inr_iff Let_def split: if_splits option.splits prod.splits) blast+

text \<open>
  C34. Two periods in a path drop the segment before them, as on a stack, and never climb above the root: after a
  set_uri or set_path that succeeds no segment is two periods, and set_path computes what a stack computes from
  its segments without the empty ones and the single periods, or throws exactly when the stack is empty.
\<close>

theorem path_never_climbs:
  "(set_uri E t u0 = Inr (Some u) \<longrightarrow> ''..'' \<notin> set (u_path u))
   \<and> set_path p v = (case climb [] (filter (\<lambda>w. w \<noteq> [] \<and> w \<noteq> ''.'') (split_on (CHR ''/'')
        (if (p = [] \<or> hd p \<noteq> CHR ''/'') \<and> u_path v \<noteq> [] then join_with (CHR ''/'') (u_path v) @ ''/'' @ p else p))) of
      None \<Rightarrow> Inl Invalid_uri_path | Some q \<Rightarrow> Inr (v\<lparr>u_path := q\<rparr>))"
proof (rule conjI, rule impI)
  assume "set_uri E t u0 = Inr (Some u)"
  then obtain q where "remove_dots 0 q = Some (u_path u)" using read_path_result by blast
  then have "climb [] q = Some (u_path u)" using remove_dots_climb [of 0 q] by simp
  then show "''..'' \<notin> set (u_path u)" using climb_result by fastforce
next
  have "resolve_dots 0 (filter (\<lambda>n. n \<noteq> []) l) = climb [] (filter (\<lambda>w. w \<noteq> [] \<and> w \<noteq> ''.'') l)" for l
    using resolve_dots_climb [of 0 "filter (\<lambda>n. n \<noteq> []) l"] by (simp add: conj_commute)
  then show "set_path p v = (case climb [] (filter (\<lambda>w. w \<noteq> [] \<and> w \<noteq> ''.'') (split_on (CHR ''/'')
        (if (p = [] \<or> hd p \<noteq> CHR ''/'') \<and> u_path v \<noteq> [] then join_with (CHR ''/'') (u_path v) @ ''/'' @ p else p))) of
      None \<Rightarrow> Inl Invalid_uri_path | Some q \<Rightarrow> Inr (v\<lparr>u_path := q\<rparr>))"
    by (simp add: set_path_def Let_def)
qed

lemma path_never_climbs_witness:
  "''..'' \<notin> set [''a'', ''c'']
   \<and> set_path ''/a/./b/../c'' new_uri = Inr (new_uri\<lparr>u_path := [''a'', ''c'']\<rparr>)"
proof -
  have "set_uri sample_uri_env ''http://example.com/a/b/../c'' new_uri
      = Inr (Some (new_uri\<lparr>u_original := ''http://example.com/a/b/../c'', u_domain := ''example'',
        u_top_level_domain := ''.com'', u_sub_domains := [[]], u_path := [''a'', ''c'']\<rparr>))" by code_simp
  from path_never_climbs [THEN conjunct1, rule_format, OF this] have "''..'' \<notin> set [''a'', ''c'']" by simp
  moreover note path_never_climbs [THEN conjunct2, of "''/a/./b/../c''" new_uri]
  moreover have "(case climb [] (filter (\<lambda>w. w \<noteq> [] \<and> w \<noteq> ''.'') (split_on (CHR ''/'')
        (if (''/a/./b/../c'' = [] \<or> hd ''/a/./b/../c'' \<noteq> CHR ''/'') \<and> u_path new_uri \<noteq> []
         then join_with (CHR ''/'') (u_path new_uri) @ ''/'' @ ''/a/./b/../c'' else ''/a/./b/../c''))) of
      None \<Rightarrow> Inl Invalid_uri_path | Some q \<Rightarrow> Inr (new_uri\<lparr>u_path := q\<rparr>))
    = Inr (new_uri\<lparr>u_path := [''a'', ''c'']\<rparr>)" by code_simp
  ultimately show ?thesis by (simp only: simp_thms)
qed

section \<open>A question mark alone\<close>

lemma nameless_field: "s = [] \<or> hd s = CHR ''='' \<Longrightarrow> read_query True [] s = Inl Invalid_uri"
proof -
  assume "s = [] \<or> hd s = CHR ''=''"
  then have "\<exists>v. query_field True (takeWhile (\<lambda>c. \<not> field_end c) s) = (''*'', v)"
    by (cases s) (auto simp: query_field_def)
  moreover have "urldecode False ''*'' = Inl Invalid_uri" by code_simp
  ultimately show ?thesis by (subst read_query.simps) auto
qed

text \<open>
  A query string that is empty or starts with an equal sign is not read as the documented name (a star), nor is the
  URI refused: set_uri throws, for a question mark put behind any well formed URI without query string and anchor.
\<close>

theorem bare_question_mark_throws:
  assumes "uri_ok E u" "u_query_strings u = []" "u_anchor u = []" "s = [] \<or> hd s = CHR ''=''" "no_nul s"
  shows "\<exists>text. get_uri E False u = Inr text \<and> set_uri E (text @ CHR ''?'' # s) u0 = Inl Invalid_uri"
proof -
  let ?p = "CHR ''/'' # path_text True u @ CHR ''?'' # s" and ?a = "authority_text E u" and ?proto = "u_protocol u"
  define t where "t = ?proto @ ''://'' @ ?a @ ?p"
  have ok: "?proto \<noteq> []" "no_nul ?proto" "CHR '':'' \<notin> set ?proto" "domain_ok E u"
      "list_all (\<lambda>w. w \<noteq> [] \<and> no_nul w \<and> w \<noteq> ''..'') (u_path u)"
    using assms by (auto simp: uri_ok_def)
  have c: "c_str t = t" using ok(2) not_slash(2) [OF assms(1)] suffixes_no_nul [OF assms(1)] assms(5) by (simp add: t_def)
  have proto: "takeWhile (\<lambda>c. c \<noteq> CHR '':'') t = ?proto"
    using takeWhile_upto(1) [OF ok(3), of "''://'' @ ?a @ ?p"] by (simp add: t_def)
  have auth: "takeWhile (\<lambda>c. c \<noteq> CHR ''/'') (?a @ ?p) = ?a" "dropWhile (\<lambda>c. c \<noteq> CHR ''/'') (?a @ ?p) = ?p"
    using takeWhile_upto [OF not_slash(1) [OF assms(1)], of ?p] by simp_all
  have rest: "drop (length ?proto) t = ''://'' @ ?a @ ?p" by (simp add: t_def)
  have "skip_ampersands s = s" using assms(4) by (cases s) (auto simp: skip_ampersands_def)
  moreover have "read_path ?p = Inr (u_path u, CHR ''?'' # s)"
    using read_path_text [OF ok(5), of "CHR ''?'' # s"] by (simp add: path_end_def)
  ultimately have "set_uri E t u0 = Inl Invalid_uri"
    using ok(1) nameless_field [OF assms(4)]
    by (simp add: set_uri_def c proto rest auth read_authority_uri [OF assms(1)] process_domain_text [OF ok(4)] Let_def)
  moreover have "get_uri E False u = Inr (?proto @ ''://'' @ ?a @ CHR ''/'' # path_text True u)"
    using get_uri_text [OF assms(1)] assms(2,3) by (simp add: query_suffix_def anchor_suffix_def query_string_def)
  ultimately show ?thesis by (simp add: t_def)
qed

lemma bare_question_mark_throws_witness:
  "\<exists>text. get_uri sample_uri_env False (sample_uri\<lparr>u_query_strings := [], u_anchor := []\<rparr>) = Inr text
     \<and> set_uri sample_uri_env (text @ CHR ''?'' # []) new_uri = Inl Invalid_uri"
  by (rule bare_question_mark_throws) code_simp+

end
