(* ===== verification/HttpHeader.thy ===== *)
theory HttpHeader
  imports HttpText "HOL-Library.Signed_Division" OrderedMap Numbers
begin

text \<open>
  The headers of a response: \<open>set_header\<close>, \<open>get_header\<close>, \<open>output_headers\<close> and the links and cookies it prints
  (\<open>libsnapwebsites/src/snapwebsites/snap_child.cpp\<close>, \<open>http_link.cpp\<close>, \<open>http_cookie.cpp\<close>). Headers are printed
  in Latin-1: a character is one byte.
\<close>

section \<open>State\<close>

type_synonym header_mode = "32 word"

definition HEADER_MODE_NO_ERROR :: header_mode where "HEADER_MODE_NO_ERROR = 0x0001"
definition HEADER_MODE_REDIRECT :: header_mode where "HEADER_MODE_REDIRECT = 0x0002"
definition HEADER_MODE_ERROR :: header_mode where "HEADER_MODE_ERROR = 0x0004"
definition HEADER_MODE_EVERYWHERE :: header_mode where "HEADER_MODE_EVERYWHERE = 0xFFFF"

record http_header =
  h_header :: string
  h_modes :: header_mode

record http_link =
  l_link :: string
  l_rel :: string
  l_redirect :: bool
  l_params :: "(string, string) omap"

text \<open>\<open>f_expire\<close> is in milliseconds, None when the \<open>QDateTime\<close> is not valid.\<close>

record http_cookie =
  k_name :: string
  k_value :: string
  k_domain :: string
  k_path :: string
  k_expire :: "int option"
  k_secure :: bool
  k_http_only :: bool
  k_comment :: string
  k_comment_url :: string

text \<open>The part of a \<open>snap_child\<close> that holds the headers; \<open>r_written\<close> is what \<open>write\<close> sent to the client.\<close>

record response =
  r_header :: "(string, http_header) omap"
  r_http_links :: "(string, http_link) omap"
  r_cookies :: "(string, http_cookie) omap"
  r_ignore_cookies :: bool
  r_written :: string

section \<open>Headers\<close>

definition http_separators :: string where
  "http_separators = ''()<>@,;:'' @ [CHR 0x5C, CHR 0x22] @ ''/[]?={}''"

definition valid_name_char :: "char \<Rightarrow> bool" where
  "valid_name_char c \<longleftrightarrow> CHR 0x21 \<le> c \<and> c \<le> CHR 0x7E \<and> c \<notin> set http_separators"

definition header_space :: "char \<Rightarrow> bool" where
  "header_space c \<longleftrightarrow> c \<in> {CHR '' '', CHR 0x09, CHR 0x0D, CHR 0x0A}"

definition line_feed :: "char \<Rightarrow> char" where
  "line_feed wc = (if wc = CHR 0x0D then CHR 0x0A else wc)"

text \<open>
  The loop over the characters \<open>wc\<close> of the value, with the result \<open>v\<close> so far and the character \<open>lc\<close> added last.
  The test of the character behind a line end reads \<open>ws[p]\<close>, which is the line end itself.
\<close>

fun header_value_loop :: "string \<Rightarrow> string \<Rightarrow> char \<Rightarrow> string res" where
  "header_value_loop [] v lc = Inr v"
| "header_value_loop (wc # r) v lc =
     (if (wc < CHR 0x20 \<or> wc = CHR 0x7F) \<and> wc \<noteq> CHR 0x0D \<and> wc \<noteq> CHR 0x0A \<and> wc \<noteq> CHR 0x09 then
        Inl Invalid_header_value
      else if (wc = CHR 0x0D \<or> wc = CHR 0x0A) \<and> r \<noteq> [] \<and> \<not> header_space wc then Inl Invalid_header_value
      else if v = [] \<and> header_space wc then header_value_loop r v lc
      else if lc = CHR 0x0A \<and> line_feed wc = CHR 0x0A then header_value_loop r v lc
      else header_value_loop r (v @ [line_feed wc]) (line_feed wc))"

definition remove_end_spaces :: "string \<Rightarrow> string" where
  "remove_end_spaces v = rev (dropWhile (\<lambda>c. c = CHR '' '' \<or> c = CHR 0x09 \<or> c = CHR 0x0A) (rev v))"

definition header_value :: "string \<Rightarrow> string res" where
  "header_value value = rbind (header_value_loop value [] (CHR 0x00)) (\<lambda>v. Inr (remove_end_spaces v))"

definition set_header :: "qt_env \<Rightarrow> string \<Rightarrow> string \<Rightarrow> header_mode \<Rightarrow> response \<Rightarrow> response res" where
  "set_header q name value modes c =
     (if \<not> list_all valid_name_char name then Inl Invalid_header_field_name
      else rbind (header_value value) (\<lambda>v.
        if v = [] then Inr (c\<lparr>r_header := om_erase (to_lower q name) (r_header c)\<rparr>)
        else Inr (c\<lparr>r_header := om_put (to_lower q name) \<lparr>h_header = name @ '': '' @ v, h_modes = modes\<rparr>
               (r_header c)\<rparr>)))"

definition has_header :: "qt_env \<Rightarrow> string \<Rightarrow> response \<Rightarrow> bool" where
  "has_header q name c \<longleftrightarrow> map_of (r_header c) (to_lower q name) \<noteq> None"

definition get_header :: "qt_env \<Rightarrow> string \<Rightarrow> response \<Rightarrow> string" where
  "get_header q name c =
     (case map_of (r_header c) (to_lower q name) of None \<Rightarrow> [] | Some h \<Rightarrow> drop (length name + 2) (h_header h))"

section \<open>Links\<close>

definition add_http_link :: "http_link \<Rightarrow> response \<Rightarrow> response" where
  "add_http_link l c = c\<lparr>r_http_links := om_put (l_rel l) l (r_http_links c)\<rparr>"

definition get_http_link :: "string \<Rightarrow> response \<Rightarrow> http_link res" where
  "get_http_link name c =
     (case map_of (r_http_links c) name of None \<Rightarrow> Inl Invalid_header_field_name | Some l \<Rightarrow> Inr l)"

definition add_param :: "string \<Rightarrow> string \<Rightarrow> http_link \<Rightarrow> http_link res" where
  "add_param name value l =
     (if name = [] \<or> name = ''rel'' \<or> \<not> list_all (\<lambda>c. CHR ''a'' \<le> c \<and> c \<le> CHR ''z'') (c_str name) then
        Inl Http_link_parameter
      else Inr (l\<lparr>l_params := om_put name value (l_params l)\<rparr>))"

definition link_text :: "http_link \<Rightarrow> string" where
  "link_text l =
     foldl (\<lambda>result p. result @ ''; '' @ fst p @ [CHR ''='', CHR 0x22] @ snd p @ [CHR 0x22])
       (''<'' @ l_link l @ ''>; rel='' @ l_rel l) (l_params l)"

definition link_allowed :: "header_mode \<Rightarrow> http_link \<Rightarrow> bool" where
  "link_allowed modes l \<longleftrightarrow> modes = HEADER_MODE_EVERYWHERE \<or> and modes (not HEADER_MODE_NO_ERROR) = 0
     \<or> l_redirect l \<and> and modes HEADER_MODE_REDIRECT \<noteq> 0"

definition output_http_links :: "header_mode \<Rightarrow> response \<Rightarrow> response" where
  "output_http_links modes c =
     (let ls = filter (link_allowed modes) (map snd (r_http_links c)) in
      if ls = [] then c
      else c\<lparr>r_written := r_written c @ c_str (''Link: ''
        @ concat (map (\<lambda>(i, l). (if i = 0 then [] else '', '') @ link_text l) (enumerate 0 ls)) @ [CHR 0x0A])\<rparr>)"

section \<open>Cookies\<close>

text \<open>
  \<open>arg_hex c\<close> is what \<open>QString("%1").arg(c, 2, 16, QChar('0'))\<close> prints for a \<open>char\<close> as an integer;
  \<open>http_date\<close> what \<open>QDateTime::toString\<close> prints for a number of milliseconds.
\<close>

record cookie_env =
  arg_hex :: "int \<Rightarrow> string"
  http_date :: "int \<Rightarrow> string"

text \<open>The table of 128 bits, by words of 32 characters.\<close>

definition token_word :: "nat \<Rightarrow> string \<Rightarrow> 32 word" where
  "token_word base cs = foldl (\<lambda>w c. or w (push_bit ((of_char c - base) mod 32) 1)) 0 cs"

definition http_token :: "32 word list" where
  "http_token =
     [0,
      token_word 0x20 (''!#$%&'' @ [CHR 0x27] @ ''*+-.0123456789''),
      token_word 0x40 ''ABCDEFGHIJKLMNOPQRSTUVWXYZ^_'',
      token_word 0x60 (CHR 0x60 # ''abcdefghijklmnopqrstuvwxyz|~'')]"

definition token_char :: "char \<Rightarrow> bool" where
  "token_char ch \<longleftrightarrow>
     (let c = of_char ch :: nat in
      \<not> (c \<le> 32 \<or> c \<ge> 127 \<or> and (http_token ! (c div 32)) (push_bit (c mod 32) 1) = 0))"

text \<open>The domain is that of the parameter of the site, or else the key of the website.\<close>

definition new_cookie :: "string \<Rightarrow> string \<Rightarrow> string \<Rightarrow> http_cookie res" where
  "new_cookie domain name value =
     (if name = [] \<or> \<not> list_all token_char name \<or> hd name = CHR ''$'' then Inl Http_cookie_parse
      else Inr \<lparr>k_name = name, k_value = value, k_domain = domain, k_path = ''/'', k_expire = None,
        k_secure = False, k_http_only = False, k_comment = [], k_comment_url = []\<rparr>)"

definition domain_char :: "char \<Rightarrow> bool" where
  "domain_char c \<longleftrightarrow> CHR ''A'' \<le> c \<and> c \<le> CHR ''Z'' \<or> CHR ''a'' \<le> c \<and> c \<le> CHR ''z''
     \<or> CHR ''0'' \<le> c \<and> c \<le> CHR ''9'' \<or> c = CHR ''.'' \<or> c = CHR ''-'' \<or> c = CHR ''_''"

definition set_cookie_domain :: "string \<Rightarrow> http_cookie \<Rightarrow> http_cookie res" where
  "set_cookie_domain domain k =
     (let d = (if domain \<noteq> [] \<and> hd domain = CHR ''.'' then tl domain else domain) in
      if d = [] \<or> \<not> list_all domain_char d then Inl Http_cookie_parse else Inr (k\<lparr>k_domain := d\<rparr>))"

text \<open>
  The loop is over the length of the path and reads the characters of the domain, behind whose end \<open>QCharRef\<close> (of
  Qt 5) is a NUL, which is refused.
\<close>

definition set_cookie_path :: "string \<Rightarrow> http_cookie \<Rightarrow> http_cookie res" where
  "set_cookie_path path k =
     (if \<exists>c\<in>set (take (length path) (k_domain k)). (c < CHR '' '' \<or> CHR ''~'' < c) \<and> c \<noteq> CHR '','' \<and> c \<noteq> CHR '';'' then
        Inl Http_cookie_parse
      else if length (k_domain k) < length path then Inl Http_cookie_parse
      else Inr (k\<lparr>k_path := path\<rparr>))"

definition set_delete :: "http_cookie \<Rightarrow> http_cookie" where
  "set_delete k = k\<lparr>k_expire := Some 0\<rparr>"

definition set_session :: "http_cookie \<Rightarrow> http_cookie" where
  "set_session k = k\<lparr>k_expire := None\<rparr>"

text \<open>\<open>QDateTime::toTime_t\<close>: seconds as an unsigned integer of 32 bits, -1 out of range.\<close>

definition to_time_t :: "int \<Rightarrow> int" where
  "to_time_t ms = (let s = ms div 1000 in if 0 \<le> s \<and> s < 2 ^ 32 - 1 then s else 2 ^ 32 - 1)"

text \<open>\<open>start_date\<close> in microseconds, \<open>date\<close> in milliseconds.\<close>

definition set_expire :: "int \<Rightarrow> int \<Rightarrow> http_cookie \<Rightarrow> http_cookie" where
  "set_expire start_date date k =
     (if to_time_t date - start_date sdiv 1000000 > 86400 * 365 then
        k\<lparr>k_expire := Some (start_date sdiv 1000 + 86400 * 1000)\<rparr>
      else k\<lparr>k_expire := Some date\<rparr>)"

definition set_expire_in :: "int \<Rightarrow> int \<Rightarrow> http_cookie \<Rightarrow> http_cookie" where
  "set_expire_in start_date seconds k =
     k\<lparr>k_expire := Some (start_date sdiv 1000 + min seconds (86400 * 365) * 1000)\<rparr>"

datatype http_cookie_type = HTTP_COOKIE_TYPE_PERMANENT | HTTP_COOKIE_TYPE_SESSION | HTTP_COOKIE_TYPE_DELETE

definition get_cookie_type :: "('a env_scheme) \<Rightarrow> http_cookie \<Rightarrow> http_cookie_type" where
  "get_cookie_type E k =
     (case k_expire k of
        None \<Rightarrow> HTTP_COOKIE_TYPE_SESSION
      | Some d \<Rightarrow> if d < current_date E sdiv 1000 then HTTP_COOKIE_TYPE_DELETE else HTTP_COOKIE_TYPE_PERMANENT)"

definition cookie_plain :: "char \<Rightarrow> bool" where
  "cookie_plain c \<longleftrightarrow> c = CHR 0x21 \<or> CHR 0x23 \<le> c \<and> c \<le> CHR 0x2B \<or> CHR 0x2D \<le> c \<and> c \<le> CHR 0x3A
     \<or> CHR 0x3C \<le> c \<and> c \<le> CHR 0x5B \<or> CHR 0x5D \<le> c \<and> c \<le> CHR 0x7E"

definition char_value :: "char \<Rightarrow> int" where
  "char_value c = (let n = int (of_char c) in if n < 128 then n else n - 256)"

text \<open>\<open>arg\<close> replaces \<open>%1\<close> and leaves the two percent signs before it as they are.\<close>

definition cookie_char :: "cookie_env \<Rightarrow> char \<Rightarrow> string" where
  "cookie_char ke c = (if cookie_plain c then [c] else ''%%'' @ arg_hex ke (char_value c))"

definition unquoted :: "string \<Rightarrow> string" where
  "unquoted s = filter (\<lambda>c. c \<noteq> CHR 0x22) s"

definition cookie_text :: "('a env_scheme) \<Rightarrow> cookie_env \<Rightarrow> http_cookie \<Rightarrow> string" where
  "cookie_text E ke k =
     ''Set-Cookie: '' @ k_name k @ ''='' @ concat (map (cookie_char ke) (k_value k))
     @ (case get_cookie_type E k of
          HTTP_COOKIE_TYPE_PERMANENT \<Rightarrow>
            (let d = the (k_expire k); max_age = to_time_t d - time_now E in
             ''; Expires='' @ http_date ke d @ (if max_age > 0 then ''; Max-Age='' @ dec max_age else []))
        | HTTP_COOKIE_TYPE_SESSION \<Rightarrow> []
        | HTTP_COOKIE_TYPE_DELETE \<Rightarrow> ''; Expires=Thu, 01-Jan-1970 00:00:01 GMT'')
     @ (if k_domain k = [] then [] else ''; Domain='' @ k_domain k)
     @ (if k_path k = [] then [] else ''; Path='' @ k_path k)
     @ (if k_secure k then ''; Secure'' else []) @ (if k_http_only k then ''; HttpOnly'' else [])
     @ (if k_comment k = [] then [] else ''; Comment='' @ [CHR 0x22] @ unquoted (k_comment k) @ [CHR 0x22])
     @ (if k_comment_url k = [] then [] else ''; CommentURL='' @ [CHR 0x22] @ unquoted (k_comment_url k) @ [CHR 0x22])"

definition set_cookie :: "string \<Rightarrow> http_cookie \<Rightarrow> response \<Rightarrow> response" where
  "set_cookie site_key_with_slash k c =
     c\<lparr>r_cookies := om_put (k_name k)
        (k\<lparr>k_comment_url := site_key_with_slash @ ''terms-and-conditions/privacy-policy''\<rparr>) (r_cookies c)\<rparr>"

definition output_cookies :: "('a env_scheme) \<Rightarrow> cookie_env \<Rightarrow> response \<Rightarrow> response" where
  "output_cookies E ke c =
     (if r_ignore_cookies c then c
      else c\<lparr>r_written := r_written c @ concat (map (\<lambda>p. c_str (cookie_text E ke (snd p) @ [CHR 0x0A])) (r_cookies c))\<rparr>)"

section \<open>The block of headers\<close>

definition header_line :: "http_header \<Rightarrow> string" where
  "header_line h = c_str (h_header h @ [CHR 0x0A])"

definition mode_matches :: "header_mode \<Rightarrow> http_header \<Rightarrow> bool" where
  "mode_matches modes h \<longleftrightarrow> and (h_modes h) modes \<noteq> 0"

text \<open>The status comes first, then the others by name.\<close>

definition header_block :: "qt_env \<Rightarrow> header_mode \<Rightarrow> response \<Rightarrow> string" where
  "header_block q modes c =
     (if has_header q ''Status'' c then
        concat (map (\<lambda>p. header_line (snd p)) (filter (\<lambda>p. mode_matches modes (snd p) \<and> fst p = ''status'') (r_header c)))
      else [])
     @ concat (map (\<lambda>p. header_line (snd p))
         (filter (\<lambda>p. mode_matches modes (snd p) \<and> fst p \<noteq> ''status'') (r_header c)))"

end
