(* ===== verification/HeaderProps.thy ===== *)
theory HeaderProps
  imports HttpHeader UrlCode
begin

text \<open>
  No header ends the block of headers, but a header can hold another one; a cookie does not come back as it was
  sent.
\<close>

section \<open>Lines\<close>

abbreviation LF :: char where "LF \<equiv> CHR 0x0A"

definition full_lines :: "string \<Rightarrow> bool" where
  "full_lines s \<longleftrightarrow> [] \<notin> set (split_on LF s)"

lemma split_line_snoc: "x \<noteq> c \<Longrightarrow> split_on c (s @ [x]) = butlast (split_on c s) @ [last (split_on c s) @ [x]]"
proof (induction s)
  case (Cons y s)
  obtain w ws where w: "split_on c s = w # ws" using split_on_not_Nil [of c s] by (cases "split_on c s") auto
  with Cons show ?case by (cases "ws = []") auto
qed simp

lemma split_on_line: "split_on c (s @ [c]) = split_on c s @ [[]]"
  using split_on_at [of c s "[]"] by simp

text \<open>The lines but the last are full.\<close>

definition lines_begun :: "string \<Rightarrow> bool" where
  "lines_begun s \<longleftrightarrow> [] \<notin> set (butlast (split_on LF s))"

lemma last_line_Nil: "last (split_on c s) = [] \<longleftrightarrow> s = [] \<or> last s = c"
proof (cases s rule: rev_cases)
  case (snoc t x)
  then show ?thesis by (cases "x = c") (simp_all add: split_on_line split_line_snoc)
qed simp

lemma full_lines_begun: "lines_begun s \<Longrightarrow> s \<noteq> [] \<Longrightarrow> last s \<noteq> LF \<Longrightarrow> full_lines s"
proof -
  assume a: "lines_begun s" "s \<noteq> []" "last s \<noteq> LF"
  have "split_on LF s = butlast (split_on LF s) @ [last (split_on LF s)]" by simp
  then have "set (split_on LF s) = insert (last (split_on LF s)) (set (butlast (split_on LF s)))"
    by (metis Un_insert_right list.set(1) list.simps(15) set_append sup_bot_right)
  moreover have "last (split_on LF s) \<noteq> []" using a by (simp add: last_line_Nil)
  ultimately show ?thesis using a(1) by (auto simp: full_lines_def lines_begun_def)
qed

lemma lines_begun_snoc:
  "lines_begun s \<Longrightarrow> x \<noteq> LF \<or> s \<noteq> [] \<and> last s \<noteq> LF \<Longrightarrow> lines_begun (s @ [x])"
proof (cases "x = LF")
  case True
  assume "lines_begun s" "x \<noteq> LF \<or> s \<noteq> [] \<and> last s \<noteq> LF"
  then have "full_lines s" using True full_lines_begun by simp
  then show ?thesis using True by (simp add: lines_begun_def full_lines_def split_on_line)
next
  case False
  assume "lines_begun s"
  then show ?thesis using False by (simp add: lines_begun_def split_line_snoc)
qed

lemma lines_begun_butlast: "lines_begun (s @ [x]) \<Longrightarrow> lines_begun s"
  by (cases "x = LF") (auto simp: lines_begun_def split_on_line split_line_snoc dest: in_set_butlastD)

lemma split_line_parts: "l \<in> set (split_on c s) \<Longrightarrow> c \<notin> set l \<and> set l \<subseteq> set s"
proof (induction s arbitrary: l)
  case (Cons x s)
  obtain w ws where w: "split_on c s = w # ws" using split_on_not_Nil [of c s] by (cases "split_on c s") auto
  show ?case
  proof (cases "x = c")
    case True
    then show ?thesis using Cons w by auto
  next
    case False
    then have "l = x # w \<or> l \<in> set ws" using Cons.prems w by auto
    then show ?thesis using Cons.IH [of w] Cons.IH [of l] w False by auto
  qed
qed simp

section \<open>Values\<close>

definition text_char :: "char \<Rightarrow> bool" where
  "text_char c \<longleftrightarrow> (CHR '' '' \<le> c \<and> c \<noteq> CHR 0x7F) \<or> c = LF \<or> c = CHR 0x09"

definition line_value_ok :: "string \<Rightarrow> bool" where
  "line_value_ok v \<longleftrightarrow> list_all text_char v \<and> lines_begun v"

lemma lines_begun_Nil: "lines_begun []"
  by (simp add: lines_begun_def)

lemma line_feed_text:
  "\<not> ((wc < CHR 0x20 \<or> wc = CHR 0x7F) \<and> wc \<noteq> CHR 0x0D \<and> wc \<noteq> LF \<and> wc \<noteq> CHR 0x09) \<Longrightarrow> text_char (line_feed wc)"
  by (auto simp: text_char_def line_feed_def)

lemma line_feed_space: "line_feed wc = LF \<Longrightarrow> header_space wc"
  by (auto simp: line_feed_def header_space_def split: if_splits)

lemma header_value_loop_ok:
  "header_value_loop s v lc = Inr w \<Longrightarrow> line_value_ok v \<Longrightarrow> v \<noteq> [] \<longrightarrow> lc = last v \<Longrightarrow> line_value_ok w"
proof (induction s v lc rule: header_value_loop.induct)
  case (2 wc r v lc)
  have good: "\<not> ((wc < CHR 0x20 \<or> wc = CHR 0x7F) \<and> wc \<noteq> CHR 0x0D \<and> wc \<noteq> LF \<and> wc \<noteq> CHR 0x09)"
    and next_ok: "\<not> ((wc = CHR 0x0D \<or> wc = LF) \<and> r \<noteq> [] \<and> \<not> header_space wc)"
    using 2(4) by (auto split: if_splits)
  show ?case
  proof (cases "v = [] \<and> header_space wc")
    case skip: True
    then have "header_value_loop r v lc = Inr w" using 2(4) good next_ok by (simp split: if_splits)
    then show ?thesis using 2(1) [OF good next_ok skip] 2(5,6) by blast
  next
    case keep: False
    show ?thesis
    proof (cases "lc = LF \<and> line_feed wc = LF")
      case twice: True
      then have "header_value_loop r v lc = Inr w" using 2(4) good next_ok keep by (simp split: if_splits)
      then show ?thesis using 2(2) [OF good next_ok keep twice] 2(5,6) by blast
    next
      case False
      then have step: "header_value_loop r (v @ [line_feed wc]) (line_feed wc) = Inr w"
        using 2(4) good next_ok keep by (simp split: if_splits)
      have "line_feed wc \<noteq> LF \<or> v \<noteq> [] \<and> last v \<noteq> LF"
        using False keep 2(6) line_feed_space by blast
      then have "line_value_ok (v @ [line_feed wc])"
        using 2(5) line_feed_text [OF good] lines_begun_snoc by (simp add: line_value_ok_def)
      then show ?thesis using 2(3) [OF good next_ok keep False] step by simp
    qed
  qed
qed simp

lemma remove_end_spaces_snoc:
  "remove_end_spaces (s @ [x]) = (if x = CHR '' '' \<or> x = CHR 0x09 \<or> x = LF then remove_end_spaces s else s @ [x])"
  by (simp add: remove_end_spaces_def)

lemma remove_end_spaces_ok:
  "line_value_ok v \<Longrightarrow> list_all text_char (remove_end_spaces v)
    \<and> (remove_end_spaces v \<noteq> [] \<longrightarrow> full_lines (remove_end_spaces v))"
proof (induction v rule: rev_induct)
  case (snoc x v)
  show ?case
  proof (cases "x = CHR '' '' \<or> x = CHR 0x09 \<or> x = LF")
    case True
    then show ?thesis
      using snoc lines_begun_butlast [of v x] by (simp add: remove_end_spaces_snoc line_value_ok_def)
  next
    case False
    then show ?thesis
      using snoc full_lines_begun [of "v @ [x]"] by (simp add: remove_end_spaces_snoc line_value_ok_def)
  qed
qed (simp add: remove_end_spaces_def)

lemma header_value_ok: "header_value s = Inr v \<Longrightarrow> list_all text_char v \<and> (v \<noteq> [] \<longrightarrow> full_lines v)"
  using header_value_loop_ok [of s "[]" "CHR 0x00"] remove_end_spaces_ok
  by (auto simp: header_value_def rbind_Inr_iff line_value_ok_def lines_begun_Nil)

section \<open>Responses\<close>

definition header_ok :: "http_header \<Rightarrow> bool" where
  "header_ok h \<longleftrightarrow> list_all text_char (h_header h) \<and> full_lines (h_header h)"

definition headers_ok :: "response \<Rightarrow> bool" where
  "headers_ok c \<longleftrightarrow> om_ok (r_header c) \<and> (\<forall>p\<in>set (r_header c). header_ok (snd p))"

lemma valid_name_text: "valid_name_char c \<Longrightarrow> text_char c \<and> c \<noteq> LF"
  by (auto simp: valid_name_char_def text_char_def less_eq_char_def)

lemma split_on_prefix: "c \<notin> set n \<Longrightarrow> split_on c (n @ s) = (n @ hd (split_on c s)) # tl (split_on c s)"
proof (induction n)
  case Nil
  show ?case using split_on_not_Nil [of c s] by (cases "split_on c s") simp_all
qed auto

lemma header_text_ok:
  assumes "list_all valid_name_char n" "header_value s = Inr v" "v \<noteq> []"
  shows "header_ok \<lparr>h_header = n @ '': '' @ v, h_modes = modes\<rparr>"
proof -
  have c: "text_char (CHR '':'')" "text_char (CHR '' '')" by code_simp+
  have "\<forall>x\<in>set n. text_char x \<and> x \<noteq> LF" using assms(1) valid_name_text by (simp add: list_all_iff)
  then have n: "LF \<notin> set (n @ '': '')" "list_all text_char (n @ '': '')" using c by (auto simp: list_all_iff)
  have v: "full_lines v" "list_all text_char v" using header_value_ok [OF assms(2)] assms(3) by simp_all
  have "set (tl (split_on LF v)) \<subseteq> set (split_on LF v)" by (cases "split_on LF v") auto
  then have "full_lines ((n @ '': '') @ v)"
    unfolding full_lines_def split_on_prefix [OF n(1)] using v(1) by (auto simp: full_lines_def)
  then show ?thesis using n(2) v(2) by (simp add: header_ok_def)
qed

lemma set_header_ok:
  assumes "headers_ok c" "set_header q n s modes c = Inr c'"
  shows "headers_ok c'"
proof -
  have n: "list_all valid_name_char n" using assms(2) by (simp add: set_header_def split: if_splits)
  then obtain v where v: "header_value s = Inr v"
    using assms(2) by (auto simp: set_header_def rbind_Inr_iff)
  let ?h = "\<lparr>h_header = n @ '': '' @ v, h_modes = modes\<rparr>"
  show ?thesis
  proof (cases "v = []")
    case True
    then have "c' = c\<lparr>r_header := om_erase (to_lower q n) (r_header c)\<rparr>"
      using assms(2) n v by (simp add: set_header_def)
    then show ?thesis using assms(1) by (auto simp: headers_ok_def om_erase_def)
  next
    case False
    then have "c' = c\<lparr>r_header := om_put (to_lower q n) ?h (r_header c)\<rparr>"
      using assms(2) n v by (simp add: set_header_def)
    moreover have "header_ok ?h" by (rule header_text_ok [OF n v False])
    moreover note set_om_put [of "to_lower q n" ?h "r_header c"]
    ultimately show ?thesis using assms(1) by (auto simp: headers_ok_def)
  qed
qed

lemma text_char_not_NUL: "text_char c \<Longrightarrow> c \<noteq> CHR 0x00"
  by (auto simp: text_char_def less_eq_char_def)

lemma header_line_ok:
  assumes "header_ok h"
  shows "header_line h = h_header h @ [LF]" "split_on LF (header_line h @ t) = split_on LF (h_header h) @ split_on LF t"
proof -
  have "no_nul (h_header h)" using assms text_char_not_NUL by (auto simp: header_ok_def no_nul_def list_all_iff)
  then show l: "header_line h = h_header h @ [LF]" by (simp add: header_line_def)
  show "split_on LF (header_line h @ t) = split_on LF (h_header h) @ split_on LF t"
    using split_on_at [of LF "h_header h" t] by (simp add: l)
qed

lemma split_lines:
  "\<forall>p\<in>set ps. header_ok (snd p) \<Longrightarrow>
   split_on LF (concat (map (\<lambda>p. header_line (snd p)) ps) @ t)
     = concat (map (\<lambda>p. split_on LF (h_header (snd p))) ps) @ split_on LF t"
proof (induction ps)
  case (Cons p ps)
  then have p: "header_ok (snd p)" by simp
  have "split_on LF (header_line (snd p) @ concat (map (\<lambda>p. header_line (snd p)) ps) @ t)
      = split_on LF (h_header (snd p)) @ split_on LF (concat (map (\<lambda>p. header_line (snd p)) ps) @ t)"
    by (rule header_line_ok(2) [OF p])
  with Cons show ?case by simp
qed simp

lemma split_block:
  assumes "headers_ok c"
  shows "\<exists>ps. set ps = (if has_header q ''Status'' c
        then {p \<in> set (r_header c). mode_matches modes (snd p)}
        else {p \<in> set (r_header c). mode_matches modes (snd p) \<and> fst p \<noteq> ''status''})
     \<and> split_on LF (header_block q modes c) = concat (map (\<lambda>p. split_on LF (h_header (snd p))) ps) @ [[]]"
proof -
  let ?s = "filter (\<lambda>p. mode_matches modes (snd p) \<and> fst p = ''status'') (r_header c)"
    and ?o = "filter (\<lambda>p. mode_matches modes (snd p) \<and> fst p \<noteq> ''status'') (r_header c)"
  define ps where "ps = (if has_header q ''Status'' c then ?s else []) @ ?o"
  have "header_block q modes c = concat (map (\<lambda>p. header_line (snd p)) ps) @ []"
    by (simp add: header_block_def ps_def)
  moreover have "\<forall>p\<in>set ps. header_ok (snd p)" using assms by (auto simp: ps_def headers_ok_def)
  moreover have "set ps = (if has_header q ''Status'' c
        then {p \<in> set (r_header c). mode_matches modes (snd p)}
        else {p \<in> set (r_header c). mode_matches modes (snd p) \<and> fst p \<noteq> ''status''})"
    by (auto simp: ps_def)
  ultimately show ?thesis using split_lines [of ps "[]"] by (intro exI [of _ ps]) simp
qed

text \<open>
  C36. No header ends the block of headers, so that no header can hold the start of a page: after any calls of
  set_header that succeed, every line that output_headers prints for the headers, in any mode, is not empty and
  has no control character but tabs.
\<close>

theorem no_header_ends_the_block:
  assumes "chain (map (\<lambda>(n, s, m). set_header q n s m) calls) c0 = Inr c" "r_header c0 = []"
  shows "\<exists>ls. split_on LF (header_block q modes c) = ls @ [[]]
    \<and> list_all (\<lambda>l. l \<noteq> [] \<and> list_all (\<lambda>ch. text_char ch \<and> ch \<noteq> LF) l) ls"
proof -
  have "headers_ok c'" if "chain (map (\<lambda>(n, s, m). set_header q n s m) cs) c = Inr c'" "headers_ok c" for cs c c'
    using that
  proof (induction cs arbitrary: c)
    case (Cons x cs)
    obtain n s m where x: "x = (n, s, m)" by (cases x)
    obtain c1 where "set_header q n s m c = Inr c1" "chain (map (\<lambda>(n, s, m). set_header q n s m) cs) c1 = Inr c'"
      using Cons.prems(1) x by (auto simp: rbind_Inr_iff)
    with Cons set_header_ok show ?case by blast
  qed simp
  moreover have "headers_ok c0" using assms(2) by (simp add: headers_ok_def)
  ultimately have ok: "headers_ok c" using assms(1) by blast
  from split_block [OF ok, of q modes] obtain ps where ps: "set ps \<subseteq> set (r_header c)"
      "split_on LF (header_block q modes c) = concat (map (\<lambda>p. split_on LF (h_header (snd p))) ps) @ [[]]"
    by (auto split: if_splits)
  have "l \<noteq> [] \<and> list_all (\<lambda>ch. text_char ch \<and> ch \<noteq> LF) l"
    if "l \<in> set (split_on LF (h_header h))" "header_ok h" for l h
    using that split_line_parts [of l LF "h_header h"] by (auto simp: header_ok_def full_lines_def list_all_iff)
  then show ?thesis
    using ps ok by (intro exI [of _ "concat (map (\<lambda>p. split_on LF (h_header (snd p))) ps)"])
      (auto simp: headers_ok_def list_all_iff)
qed

lemma no_header_ends_the_block_witness:
  "\<exists>ls. split_on LF (header_block std_text HEADER_MODE_ERROR
       \<lparr>r_header = [(''x-a'', \<lparr>h_header = ''X-A: v'' @ [LF] @ '' w'', h_modes = HEADER_MODE_EVERYWHERE\<rparr>)],
         r_http_links = [], r_cookies = [], r_ignore_cookies = False, r_written = []\<rparr>) = ls @ [[]]
    \<and> list_all (\<lambda>l. l \<noteq> [] \<and> list_all (\<lambda>ch. text_char ch \<and> ch \<noteq> LF) l) ls"
  by (rule no_header_ends_the_block [of std_text
        "[(''X-A'', '' v'' @ [CHR 0x0D, LF, LF] @ '' w '', HEADER_MODE_EVERYWHERE)]"
        "\<lparr>r_header = [], r_http_links = [], r_cookies = [], r_ignore_cookies = False, r_written = []\<rparr>"]) code_simp+

section \<open>A header in a header\<close>

definition printable_char :: "char \<Rightarrow> bool" where
  "printable_char c \<longleftrightarrow> CHR '' '' \<le> c \<and> c \<noteq> CHR 0x7F"

lemma printable_simps:
  assumes "printable_char c"
  shows "\<not> c < CHR 0x20" "c \<noteq> CHR 0x7F" "c \<noteq> CHR 0x0D" "c \<noteq> CHR 0x0A" "c \<noteq> CHR 0x09" "line_feed c = c"
  using assms by (auto simp: printable_char_def line_feed_def less_eq_char_def less_char_def)

lemma loop_printable:
  "list_all printable_char a \<Longrightarrow> v \<noteq> [] \<Longrightarrow>
   header_value_loop (a @ r) v lc = header_value_loop r (v @ a) (if a = [] then lc else last a)"
proof (induction a arbitrary: v lc)
  case (Cons x a)
  then have x: "printable_char x" by simp
  note p = printable_simps [OF x]
  have "header_value_loop ((x # a) @ r) v lc = header_value_loop (a @ r) (v @ [x]) x"
    using p Cons.prems(2) by simp
  also have "\<dots> = header_value_loop r ((v @ [x]) @ a) (if a = [] then x else last a)"
    using Cons by simp
  finally show ?case by simp
qed simp

lemma remove_end_spaces_none:
  "v \<noteq> [] \<Longrightarrow> last v \<noteq> CHR '' '' \<Longrightarrow> last v \<noteq> CHR 0x09 \<Longrightarrow> last v \<noteq> LF \<Longrightarrow> remove_end_spaces v = v"
  by (cases v rule: rev_cases) (simp_all add: remove_end_spaces_snoc)

text \<open>
  C37. A line end in the value of a header is accepted whatever follows it: the rest of the value is printed as a
  line of its own, a header the caller never set.
\<close>

theorem value_holds_another_header:
  assumes "list_all valid_name_char n" "list_all printable_char (x # a)" "x \<noteq> CHR '' ''"
    "list_all printable_char b" "b \<noteq> []" "last b \<noteq> CHR '' ''" "and m modes \<noteq> 0" "to_lower q n \<noteq> ''status''"
    "r_header c = []"
  shows "\<exists>c'. set_header q n ((x # a) @ [CHR 0x0D, CHR 0x0A] @ b) m c = Inr c'
    \<and> b \<in> set (split_on (CHR 0x0A) (header_block q modes c'))"
proof -
  let ?v = "(x # a) @ LF # b"
  obtain y b' where b: "b = y # b'" using assms(5) by (cases b) auto
  have x: "printable_char x" and y: "printable_char y" using assms(2,4) b by simp_all
  note px = printable_simps [OF x]
  have last: "last (x # a) \<noteq> LF"
  proof -
    have "last (x # a) \<in> set (x # a)" by (rule last_in_set) simp
    then have "printable_char (last (x # a))" using assms(2) unfolding list_all_iff by blast
    then show ?thesis by (rule printable_simps)
  qed
  have "header_value_loop ((x # a) @ [CHR 0x0D, LF] @ b) [] (CHR 0x00)
      = header_value_loop (a @ [CHR 0x0D, LF] @ b) [x] x"
    using px assms(3) by (simp add: header_space_def)
  also have "\<dots> = header_value_loop ([CHR 0x0D, LF] @ b) (x # a) (last (x # a))"
    using loop_printable [of a "[x]" "[CHR 0x0D, LF] @ b" x] assms(2) by simp
  also have "\<dots> = header_value_loop b ((x # a) @ [LF]) LF"
    using last by (simp add: header_space_def line_feed_def)
  also have "\<dots> = Inr ?v"
    using loop_printable [of b "(x # a) @ [LF]" "[]" LF] assms(4) by simp
  finally have "header_value_loop ((x # a) @ [CHR 0x0D, LF] @ b) [] (CHR 0x00) = Inr ?v" .
  moreover have "last b \<noteq> CHR 0x09 \<and> last b \<noteq> LF"
  proof -
    have "last b \<in> set b" using assms(5) by (rule last_in_set)
    then have "printable_char (last b)" using assms(4) unfolding list_all_iff by blast
    then show ?thesis using printable_simps by blast
  qed
  ultimately have v: "header_value ((x # a) @ [CHR 0x0D, LF] @ b) = Inr ?v"
    unfolding header_value_def using remove_end_spaces_none [of ?v] assms(5,6) by simp
  let ?h = "\<lparr>h_header = n @ '': '' @ ?v, h_modes = m\<rparr>"
  let ?c = "c\<lparr>r_header := [(to_lower q n, ?h)]\<rparr>"
  have "set_header q n ((x # a) @ [CHR 0x0D, LF] @ b) m c = Inr ?c"
    unfolding set_header_def v using assms(1,9) by simp
  moreover have "header_ok ?h" by (rule header_text_ok [OF assms(1) v]) simp
  then have "split_on LF (header_line ?h @ []) = split_on LF (h_header ?h) @ split_on LF []"
    by (rule header_line_ok(2))
  moreover have "header_block q modes ?c = header_line ?h"
    using assms(7,8) by (simp add: header_block_def mode_matches_def)
  moreover have "b \<in> set (split_on LF ((n @ '': '' @ x # a) @ LF # b))"
  proof -
    have "LF \<notin> set b" using assms(4) printable_simps(4) unfolding list_all_iff by blast
    then show ?thesis unfolding split_on_at by (simp add: split_on_none)
  qed
  ultimately show ?thesis by simp
qed

lemma value_holds_another_header_witness:
  "\<exists>c'. set_header std_text ''Location'' ((CHR ''/'' # []) @ [CHR 0x0D, CHR 0x0A] @ ''Set-Cookie: a=b'') HEADER_MODE_REDIRECT
      \<lparr>r_header = [], r_http_links = [], r_cookies = [], r_ignore_cookies = False, r_written = []\<rparr> = Inr c'
    \<and> ''Set-Cookie: a=b'' \<in> set (split_on (CHR 0x0A) (header_block std_text HEADER_MODE_REDIRECT c'))"
  by (rule value_holds_another_header) code_simp+

section \<open>Cookies\<close>

lemma cookie_plain_ascii: "cookie_plain c \<Longrightarrow> c \<noteq> CHR 0x00"
  by (auto simp: cookie_plain_def less_eq_char_def)

definition read_cookie_char :: "char \<Rightarrow> string" where
  "read_cookie_char c = (if cookie_plain c then [c] else [CHR ''%'', c])"

lemma decode_cookie_char:
  assumes "c < CHR 0x80" "c \<noteq> CHR ''+''" "c \<noteq> CHR ''%''" "\<forall>n. 0 \<le> n \<and> n < 128 \<longrightarrow> arg_hex ke n = hex_pad 2 (nat n)"
  shows "decode_bytes True (cookie_char ke c @ r) = rbind (decode_bytes True r) (\<lambda>t. Inr (read_cookie_char c @ t))"
proof (cases "cookie_plain c")
  case True
  then show ?thesis using assms(2,3) by (simp add: cookie_char_def read_cookie_char_def)
next
  case False
  have n: "int (of_char c) < 128" using assms(1) by (simp add: less_char_def)
  then have hex: "arg_hex ke (char_value c) = hex_pad 2 (of_char c)"
    using assms(4) by (simp add: char_value_def Let_def)
  have "hex_value (CHR ''%'') = None" by code_simp
  then have "decode_bytes True (CHR ''%'' # CHR ''%'' # s)
      = rbind (decode_bytes True (CHR ''%'' # s)) (\<lambda>t. Inr (CHR ''%'' # t))" for s
    by (subst decode_bytes.simps(2)) (simp del: decode_bytes.simps)
  then show ?thesis
    using False by (simp add: cookie_char_def read_cookie_char_def hex decode_hex rbind_assoc del: decode_bytes.simps)
qed

lemma cookie_text_no_nul:
  assumes "\<forall>c\<in>set v. c < CHR 0x80" "\<forall>n. 0 \<le> n \<and> n < 128 \<longrightarrow> arg_hex ke n = hex_pad 2 (nat n)"
  shows "no_nul (concat (map (cookie_char ke) v))"
proof -
  have "no_nul (cookie_char ke c)" if "c < CHR 0x80" for c
  proof (cases "cookie_plain c")
    case True
    then show ?thesis using cookie_plain_ascii by (simp add: cookie_char_def)
  next
    case False
    have "int (of_char c) < 128" using that by (simp add: less_char_def)
    then have hex: "arg_hex ke (char_value c) = hex_pad 2 (of_char c)"
      using assms(2) by (simp add: char_value_def Let_def)
    show ?thesis
      using False digit_not_special [of "of_char c div 16 mod 16"] digit_not_special [of "of_char c mod 16"]
      by (simp add: cookie_char_def hex hex_pad_2)
  qed
  with assms(1) show ?thesis by (induction v) simp_all
qed

text \<open>
  A cookie does not come back as it was sent: the value of a cookie that the browser returns is decoded to
  the value with a percent sign put in front of every character that had to be encoded (spaces, quotes, commas,
  semicolons, control characters).
\<close>

theorem cookie_value_changed:
  assumes "\<forall>n. 0 \<le> n \<and> n < 128 \<longrightarrow> arg_hex ke n = hex_pad 2 (nat n)"
    "\<forall>c\<in>set v. c < CHR 0x80 \<and> c \<noteq> CHR ''+'' \<and> c \<noteq> CHR ''%'' \<and> c \<noteq> CHR 0x00"
  shows "urldecode True (concat (map (cookie_char ke) v))
    = Inr (concat (map (\<lambda>c. if cookie_plain c then [c] else [CHR ''%'', c]) v))"
proof -
  have "decode_bytes True (concat (map (cookie_char ke) w)) = Inr (concat (map read_cookie_char w))"
    if "\<forall>c\<in>set w. c < CHR 0x80 \<and> c \<noteq> CHR ''+'' \<and> c \<noteq> CHR ''%''" for w
    using that
    by (induction w) (simp_all add: decode_cookie_char [OF _ _ _ assms(1)] del: decode_bytes.simps(2))
  moreover have "no_nul (concat (map (cookie_char ke) v))" using cookie_text_no_nul assms by blast
  moreover have "no_nul (concat (map read_cookie_char w))" if "\<forall>c\<in>set w. c \<noteq> CHR 0x00" for w
    using that by (induction w) (simp_all add: read_cookie_char_def)
  moreover have "read_cookie_char = (\<lambda>c. if cookie_plain c then [c] else [CHR ''%'', c])"
    by (simp add: read_cookie_char_def fun_eq_iff)
  ultimately show ?thesis using assms(2) by (simp add: urldecode_def)
qed

lemma cookie_value_changed_witness:
  "urldecode True (concat (map (cookie_char \<lparr>arg_hex = (\<lambda>n. hex_pad 2 (nat n)), http_date = dec\<rparr>) ''a b;c''))
    = Inr (concat (map (\<lambda>c. if cookie_plain c then [c] else [CHR ''%'', c]) ''a b;c''))"
  by (rule cookie_value_changed) (simp, code_simp)

end
