(* ===== verification/HttpStrings.thy ===== *)
theory HttpStrings
  imports HttpText OrderedMap "HOL-Library.Multiset"
begin

text \<open>
  Weighted strings, such as the values of Accept-Language and Cache-Control: the class \<open>WeightedHttpString\<close> of
  \<open>libsnapwebsites/src/snapwebsites/http_strings.cpp\<close>. The parser reads a pointer: its position is the rest of
  the text. Texts are ASCII, where the length of a \<open>QString\<close> is its number of bytes. Left out: \<open>to_string\<close>, which
  nothing calls.
\<close>

section \<open>Parts\<close>

record part =
  p_name :: string
  p_value :: string
  p_level :: level
  p_param :: "(string, string) omap"

definition DEFAULT_LEVEL :: level where "DEFAULT_LEVEL = Level (2 ^ 149)"
definition UNDEFINED_LEVEL :: level where "UNDEFINED_LEVEL = Level (- (2 ^ 149))"

definition new_part :: "string \<Rightarrow> part" where
  "new_part name = \<lparr>p_name = name, p_value = [], p_level = DEFAULT_LEVEL, p_param = []\<rparr>"

definition add_parameter_to :: "string \<Rightarrow> string \<Rightarrow> part \<Rightarrow> part" where
  "add_parameter_to name value p = p\<lparr>p_param := om_put name value (p_param p)\<rparr>"

definition get_part_parameter :: "string \<Rightarrow> part \<Rightarrow> string" where
  "get_part_parameter name p = (case map_of (p_param p) name of None \<Rightarrow> [] | Some v \<Rightarrow> v)"

text \<open>Floating point numbers: \<open>a < b\<close> is false when either is not a number.\<close>

fun level_less :: "level \<Rightarrow> level \<Rightarrow> bool" where
  "level_less (Level a) (Level b) = (a < b)"
| "level_less (Level a) (Infinity b) = b"
| "level_less (Infinity a) (Level b) = (\<not> a)"
| "level_less (Infinity a) (Infinity b) = (\<not> a \<and> b)"
| "level_less a b = False"

definition level_not_negative :: "level \<Rightarrow> bool" where
  "level_not_negative l \<longleftrightarrow> (case l of Level a \<Rightarrow> 0 \<le> a | Infinity a \<Rightarrow> a | Not_a_number \<Rightarrow> False)"

section \<open>The parser\<close>

definition skip_blanks :: "string \<Rightarrow> string" where
  "skip_blanks = dropWhile blank_char"

definition is_quote :: "char \<Rightarrow> bool" where
  "is_quote c \<longleftrightarrow> c = CHR 0x22 \<or> c = CHR 0x27"

definition part_end :: "char \<Rightarrow> bool" where
  "part_end c \<longleftrightarrow> c = CHR '';'' \<or> c = CHR '',''"

text \<open>A value behind the equal sign; \<open>f\<close> is what is done to a quoted one.\<close>

definition read_part_value :: "qt_env \<Rightarrow> (string \<Rightarrow> string) \<Rightarrow> string \<Rightarrow> string \<times> string" where
  "read_part_value q f s0 =
     (let s = skip_blanks s0 in
      if s \<noteq> [] \<and> is_quote (hd s) then
        (let w = takeWhile (\<lambda>c. c \<noteq> hd s) (tl s) in
         (f w, skip_blanks (drop (length w + 1) (tl s))))
      else (simplified q (takeWhile (\<lambda>c. \<not> part_end c) s), dropWhile (\<lambda>c. \<not> part_end c) s))"

definition param_name_end :: "char \<Rightarrow> bool" where
  "param_name_end c \<longleftrightarrow> part_end c \<or> c = CHR ''=''"

text \<open>The parameter \<open>q\<close> is the level of the part.\<close>

definition read_level :: "qt_env \<Rightarrow> string \<Rightarrow> part \<Rightarrow> part \<times> string list" where
  "read_level q value p =
     (case to_float q value of
        None \<Rightarrow> (p, [''the quality value (q=...) is not a valid floating point.''])
      | Some l \<Rightarrow>
          if level_not_negative l then (p\<lparr>p_level := l\<rparr>, [])
          else (p, [''the quality value (q=...) cannot be a negative number.'']))"

definition read_param :: "qt_env \<Rightarrow> part \<Rightarrow> string \<Rightarrow> part \<times> string list \<times> string" where
  "read_param q p s0 =
     (let name = simplified q (takeWhile (\<lambda>c. \<not> param_name_end c) s0);
          s = dropWhile (\<lambda>c. \<not> param_name_end c) s0;
          (p, es, s) =
            (if name = [] then (p, [], s)
             else
               let (value, s) = (if s \<noteq> [] \<and> hd s = CHR ''='' then read_part_value q (q_trimmed q) (tl s) else ([], s));
                   p = add_parameter_to name value p in
               if name = ''q'' then (let (p, es) = read_level q value p in (p, es, s)) else (p, [], s)) in
      if s \<noteq> [] \<and> \<not> part_end (hd s) then
        (p, es @ [''found a spurious character in a weighted string.''], dropWhile (\<lambda>c. \<not> part_end c) (tl s))
      else (p, es, s))"

lemma read_part_value_length: "read_part_value q f s = (v, r) \<Longrightarrow> length r \<le> length s"
proof -
  have d: "length (dropWhile P (t :: string)) \<le> length t" for P t by (rule length_dropWhile_le)
  have "length (skip_blanks (drop n (tl (skip_blanks s)))) \<le> length s" for n
    using d [of blank_char "drop n (tl (skip_blanks s))"] d [of blank_char s] by (simp add: skip_blanks_def)
  moreover have "length (dropWhile (\<lambda>c. \<not> part_end c) (skip_blanks s)) \<le> length s"
    using d [of "\<lambda>c. \<not> part_end c" "skip_blanks s"] d [of blank_char s] by (simp add: skip_blanks_def)
  ultimately show "read_part_value q f s = (v, r) \<Longrightarrow> length r \<le> length s"
    by (auto simp: read_part_value_def Let_def split: if_splits)
qed

lemma read_param_length: "read_param q p s = (p', es, r) \<Longrightarrow> length r \<le> length s"
proof -
  assume r: "read_param q p s = (p', es, r)"
  let ?s = "dropWhile (\<lambda>c. \<not> param_name_end c) s"
  have s: "length ?s \<le> length s" by (rule length_dropWhile_le)
  have v: "length (snd (read_part_value q (q_trimmed q) (tl ?s))) \<le> length s"
    using s read_part_value_length [of q "q_trimmed q" "tl ?s"] by (cases "read_part_value q (q_trimmed q) (tl ?s)") fastforce
  have d: "length (dropWhile (\<lambda>c. \<not> part_end c) (tl t)) \<le> length s" if "length t \<le> length s" for t
    using that length_dropWhile_le [of "\<lambda>c. \<not> part_end c" "tl t"] by simp
  show ?thesis
    using r s v d [of ?s] d [of "snd (read_part_value q (q_trimmed q) (tl ?s))"]
    by (auto simp: read_param_def Let_def split: if_splits prod.splits)
qed

definition skip_semicolons :: "string \<Rightarrow> string" where
  "skip_semicolons = dropWhile (\<lambda>c. c = CHR '';'' \<or> blank_char c)"

lemma skip_semicolons_length: "length (skip_semicolons s) \<le> length s"
  by (simp add: skip_semicolons_def length_dropWhile_le)

function read_params :: "qt_env \<Rightarrow> part \<Rightarrow> string \<Rightarrow> part \<times> string list \<times> string" where
  "read_params q p [] = (p, [], [])"
| "read_params q p (c # s) =
     (if c = CHR '';'' then
        (case read_param q p (skip_semicolons s) of
           (p, es, r) \<Rightarrow> (case read_params q p r of (p, es', r) \<Rightarrow> (p, es @ es', r)))
      else (p, [], c # s))"
  by pat_completeness auto

termination
  by (relation "measure (\<lambda>(q, p, s). length s)")
    (auto dest!: read_param_length [OF sym] intro: le_less_trans [OF _ le_imp_less_Suc [OF skip_semicolons_length]])

declare read_params.simps(2) [simp del]

definition part_name_end :: "char \<Rightarrow> bool" where
  "part_name_end c \<longleftrightarrow> part_end c \<or> c = CHR ''='' \<or> blank_char c"

text \<open>One part, None when its name is empty or too long.\<close>

definition read_part :: "qt_env \<Rightarrow> string \<Rightarrow> (part \<times> string list \<times> string) option" where
  "read_part q s0 =
     (let raw = takeWhile (\<lambda>c. \<not> part_name_end c) s0; name = simplified q raw;
          s = skip_blanks (dropWhile (\<lambda>c. \<not> part_name_end c) s0) in
      if raw = [] \<or> name = [] \<or> length name > 17 then None
      else
        let p = new_part name;
            (p, s) = (if s \<noteq> [] \<and> hd s = CHR ''='' then
                (let (value, s) = read_part_value q (\<lambda>w. w) (tl s) in (p\<lparr>p_value := value\<rparr>, s)) else (p, s)) in
        Some (read_params q p s))"

text \<open>A part is read forward.\<close>

lemma dropWhile_shorter: "s \<noteq> [] \<Longrightarrow> P (hd s) \<Longrightarrow> length (dropWhile P s) < length s"
  by (cases s) (auto intro: le_less_trans [OF length_dropWhile_le])

lemma read_params_length: "read_params q p s = (p', es, r) \<Longrightarrow> length r \<le> length s"
proof (induction q p s arbitrary: p' es r rule: read_params.induct)
  case (2 q p c s)
  show ?case
  proof (cases "c = CHR '';''")
    case True
    obtain p1 es1 r1 where r1: "read_param q p (skip_semicolons s) = (p1, es1, r1)" by (metis prod_cases3)
    obtain p2 es2 r2 where r2: "read_params q p1 r1 = (p2, es2, r2)" by (metis prod_cases3)
    have "length r2 \<le> length r1" using 2(1) [OF True r1 [symmetric] refl] r2 by simp
    moreover have "length r1 \<le> length s"
      using read_param_length [OF r1] skip_semicolons_length [of s] by simp
    ultimately show ?thesis using 2(2) True r1 r2 by (simp add: read_params.simps(2))
  next
    case False
    then show ?thesis using 2(2) by (simp add: read_params.simps(2))
  qed
qed simp

lemma read_part_shorter:
  assumes "read_part q s = Some (p, es, r)"
  shows "length r < length s"
proof -
  define P where "P = (\<lambda>c. \<not> part_name_end c)"
  define s1 where "s1 = skip_blanks (dropWhile P s)"
  have "takeWhile P s \<noteq> []" using assms unfolding read_part_def P_def [symmetric] by (auto simp: Let_def)
  then have "s \<noteq> []" "P (hd s)" by (cases s; auto split: if_splits)+
  then have s1: "length s1 < length s"
    using dropWhile_shorter [of s P] length_dropWhile_le [of blank_char "dropWhile P s"]
    by (simp add: s1_def skip_blanks_def)
  have v: "length (snd (read_part_value q (\<lambda>w. w) (tl s1))) \<le> length s1"
    by (cases "read_part_value q (\<lambda>w. w) (tl s1)") (auto dest!: read_part_value_length)
  obtain p' s' where "read_params q p' s' = (p, es, r)" "length s' \<le> length s1"
    using assms v unfolding read_part_def P_def [symmetric] s1_def [symmetric] Let_def
    by (auto split: if_splits prod.splits)
  then show ?thesis using s1 read_params_length by fastforce
qed

definition part_gap :: "char \<Rightarrow> bool" where
  "part_gap c \<longleftrightarrow> isspace c \<or> c = CHR '',''"

function parse_parts :: "qt_env \<Rightarrow> string \<Rightarrow> part list \<times> string list" where
  "parse_parts q s =
     (let s = dropWhile part_gap s in
      if s = [] then ([], [])
      else (case read_part q s of
          None \<Rightarrow> ([], [''part name is empty or too long (limit is 17 characters.)''])
        | Some (p, es, r) \<Rightarrow>
            let e = (if r \<noteq> [] \<and> hd r \<noteq> CHR '','' then [''part not ended by a comma or end of string.''] else []);
                (ps, es') = parse_parts q r in
            (p # ps, es @ e @ es')))"
  by pat_completeness auto

termination
  by (relation "measure (\<lambda>(q, s). length s)")
    (auto dest!: sym [of "Some _"] read_part_shorter intro: less_le_trans [OF _ length_dropWhile_le])

declare parse_parts.simps [simp del]

section \<open>Weighted strings\<close>

record weighted =
  w_str :: string
  w_parts :: "part list"
  w_error_messages :: "string list"

definition empty_weighted :: weighted where
  "empty_weighted = \<lparr>w_str = [], w_parts = [], w_error_messages = []\<rparr>"

definition parse_weighted :: "qt_env \<Rightarrow> string \<Rightarrow> bool \<Rightarrow> weighted \<Rightarrow> bool \<times> weighted" where
  "parse_weighted q str reset w =
     (let (s, pos, parts) =
        (if w_str w = [] \<or> reset then (str, 0, [])
         else (w_str w @ '','' @ str, length (w_str w) + 1, w_parts w));
          (ps, es) = parse_parts q (c_str (drop pos s)) in
      (es = [], \<lparr>w_str = s, w_parts = parts @ ps, w_error_messages = es\<rparr>))"

definition new_weighted :: "qt_env \<Rightarrow> string \<Rightarrow> weighted" where
  "new_weighted q str = snd (parse_weighted q str False empty_weighted)"

definition get_level :: "string \<Rightarrow> weighted \<Rightarrow> level" where
  "get_level name w = (case find (\<lambda>p. p_name p = name) (w_parts w) of None \<Rightarrow> UNDEFINED_LEVEL | Some p \<Rightarrow> p_level p)"

text \<open>\<open>std::stable_sort\<close> with \<open>operator <\<close>, the larger level first.\<close>

definition part_less :: "part \<Rightarrow> part \<Rightarrow> bool" where
  "part_less p p' \<longleftrightarrow> level_less (p_level p') (p_level p)"

fun insert_part :: "part \<Rightarrow> part list \<Rightarrow> part list" where
  "insert_part p [] = [p]"
| "insert_part p (p' # ps) = (if part_less p' p then p' # insert_part p ps else p # p' # ps)"

definition sort_by_level :: "weighted \<Rightarrow> weighted" where
  "sort_by_level w = w\<lparr>w_parts := foldr insert_part (w_parts w) []\<rparr>"

section \<open>Plain fields\<close>

text \<open>
  A name, a name with a value and a name with a quoted value, separated by commas, are read as such parts.
\<close>

definition field_char :: "char \<Rightarrow> bool" where
  "field_char c \<longleftrightarrow> word_char c \<and> \<not> part_name_end c \<and> \<not> is_quote c"

definition field_name :: "string \<Rightarrow> bool" where
  "field_name n \<longleftrightarrow> n \<noteq> [] \<and> list_all field_char n \<and> length n \<le> 17"

lemma field_name_simple: "field_name n \<Longrightarrow> simple_text n"
  by (auto simp: field_name_def field_char_def list_all_iff intro!: simple_text_word)

lemma field_char_not: "field_char c \<Longrightarrow> \<not> part_gap c \<and> \<not> blank_char c \<and> \<not> part_end c \<and> \<not> is_quote c \<and> c \<noteq> CHR 0x00"
proof -
  assume c: "field_char c"
  then have "c \<noteq> CHR 0x00" by (auto simp: field_char_def word_char_def less_eq_char_def)
  then show ?thesis
    using c word_char_not_space [of c] by (simp add: field_char_def part_gap_def part_name_end_def part_end_def)
qed

definition at_field_end :: "string \<Rightarrow> bool" where
  "at_field_end r \<longleftrightarrow> r = [] \<or> hd r = CHR '',''"

lemma takeWhile_to: "list_all P w \<Longrightarrow> r = [] \<or> \<not> P (hd r) \<Longrightarrow> takeWhile P (w @ r) = w \<and> dropWhile P (w @ r) = r"
  by (cases r) (auto simp: list_all_iff takeWhile_append dropWhile_append)

lemma read_params_end: "at_field_end r \<Longrightarrow> read_params q p r = (p, [], r)"
  by (cases r) (auto simp: at_field_end_def read_params.simps(2))

lemma parse_gap: "parse_parts q (CHR '','' # r) = parse_parts q r"
  by (subst (1 2) parse_parts.simps) (simp add: part_gap_def)

lemma parse_none [simp]: "parse_parts q [] = ([], [])"
  by (subst parse_parts.simps) simp

lemma parse_name:
  assumes "field_name n" "read_part q (n @ r) = Some (p, [], r')" "at_field_end r'"
  shows "parse_parts q (n @ r) = (case parse_parts q r' of (ps, es) \<Rightarrow> (p # ps, es))"
proof -
  obtain c n' where n: "n = c # n'" using assms(1) by (cases n) (auto simp: field_name_def)
  then have "\<not> part_gap c" using assms(1) field_char_not [of c] by (simp add: field_name_def)
  then have "dropWhile part_gap (n @ r) = n @ r" using n by simp
  then show ?thesis
    using assms n by (subst parse_parts.simps) (auto simp: at_field_end_def split: prod.splits)
qed

lemma read_part_name:
  assumes "qt_ok q" "field_name n" "r = [] \<or> part_end (hd r) \<or> hd r = CHR ''=''"
  shows "read_part q (n @ r) =
    (let (p, s) = (if r \<noteq> [] \<and> hd r = CHR ''='' then
        (let (value, s) = read_part_value q (\<lambda>w. w) (tl r) in ((new_part n)\<lparr>p_value := value\<rparr>, s)) else (new_part n, r)) in
     Some (read_params q p s))"
proof -
  have l: "list_all (\<lambda>c. \<not> part_name_end c) n"
    using assms(2) by (auto simp: field_name_def field_char_def list_all_iff)
  have r: "r = [] \<or> \<not> \<not> part_name_end (hd r)" using assms(3) by (auto simp: part_name_end_def)
  have b: "skip_blanks r = r"
    using assms(3) by (cases r) (auto simp: skip_blanks_def blank_char_def part_end_def)
  show ?thesis
    using takeWhile_to [OF l r] b qt_ok_simps(1) [OF assms(1) field_name_simple [OF assms(2)]] assms(2)
    by (simp add: read_part_def Let_def field_name_def)
qed

lemma parse_flag:
  "qt_ok q \<Longrightarrow> field_name n \<Longrightarrow> at_field_end r \<Longrightarrow>
   parse_parts q (n @ r) = (case parse_parts q r of (ps, es) \<Rightarrow> (new_part n # ps, es))"
  using read_part_name [of q n r] by (intro parse_name) (auto simp: read_params_end at_field_end_def part_end_def)

lemma read_part_value_plain:
  assumes "qt_ok q" "v \<noteq> []" "list_all field_char v" "at_field_end r"
  shows "read_part_value q f (v @ r) = (v, r)"
proof -
  obtain c v' where v: "v = c # v'" using assms(2) by (cases v) auto
  have c: "\<not> blank_char c" "\<not> is_quote c" using assms(3) v field_char_not [of c] by auto
  have l: "list_all (\<lambda>c. \<not> part_end c) v" using assms(3) by (auto simp: list_all_iff dest: field_char_not)
  have r: "r = [] \<or> \<not> \<not> part_end (hd r)" using assms(4) by (auto simp: at_field_end_def part_end_def)
  have "simplified q v = v"
    using qt_ok_simps(1) [OF assms(1) simple_text_word [OF assms(2)]] assms(3)
    by (simp add: field_char_def list_all_iff)
  moreover have "skip_blanks (v @ r) = v @ r" using v c by (simp add: skip_blanks_def)
  ultimately show ?thesis using takeWhile_to [OF l r] c v by (simp add: read_part_value_def Let_def)
qed

lemma parse_value:
  "qt_ok q \<Longrightarrow> field_name n \<Longrightarrow> v \<noteq> [] \<Longrightarrow> list_all field_char v \<Longrightarrow> at_field_end r \<Longrightarrow>
   parse_parts q (n @ CHR ''='' # v @ r) =
     (case parse_parts q r of (ps, es) \<Rightarrow> ((new_part n)\<lparr>p_value := v\<rparr> # ps, es))"
  by (rule parse_name) (auto simp: read_part_name read_params_end read_part_value_plain)

lemma read_part_value_quoted:
  assumes "CHR 0x22 \<notin> set v" "at_field_end r"
  shows "read_part_value q (\<lambda>w. w) (CHR 0x22 # v @ CHR 0x22 # r) = (v, r)"
proof -
  have "list_all (\<lambda>c. c \<noteq> CHR 0x22) v" using assms(1) by (auto simp: list_all_iff)
  then have "takeWhile (\<lambda>c. c \<noteq> CHR 0x22) (v @ CHR 0x22 # r) = v" by (simp add: takeWhile_to)
  moreover have "skip_blanks r = r"
    using assms(2) by (cases r) (auto simp: at_field_end_def skip_blanks_def blank_char_def)
  ultimately show ?thesis by (simp add: read_part_value_def Let_def skip_blanks_def blank_char_def is_quote_def)
qed

lemma parse_quoted:
  "qt_ok q \<Longrightarrow> field_name n \<Longrightarrow> CHR 0x22 \<notin> set v \<Longrightarrow> at_field_end r \<Longrightarrow>
   parse_parts q (n @ CHR ''='' # CHR 0x22 # v @ CHR 0x22 # r) =
     (case parse_parts q r of (ps, es) \<Rightarrow> ((new_part n)\<lparr>p_value := v\<rparr> # ps, es))"
  by (rule parse_name) (auto simp: read_part_name read_params_end read_part_value_quoted)

section \<open>Levels\<close>

text \<open>No level is negative or not a number.\<close>

lemma read_param_level:
  "level_not_negative (p_level p) \<Longrightarrow> read_param q p s = (p', es, r) \<Longrightarrow> level_not_negative (p_level p')"
  by (auto simp: read_param_def read_level_def add_parameter_to_def Let_def
      split: if_splits prod.splits option.splits)

lemma read_params_level:
  "read_params q p s = (p', es, r) \<Longrightarrow> level_not_negative (p_level p) \<Longrightarrow> level_not_negative (p_level p')"
proof (induction q p s arbitrary: p' es r rule: read_params.induct)
  case (2 q p c s)
  show ?case
  proof (cases "c = CHR '';''")
    case True
    obtain p1 es1 r1 where r1: "read_param q p (skip_semicolons s) = (p1, es1, r1)" by (metis prod_cases3)
    obtain p2 es2 r2 where r2: "read_params q p1 r1 = (p2, es2, r2)" by (metis prod_cases3)
    then show ?thesis
      using 2(1) [OF True r1 [symmetric] refl r2 read_param_level [OF 2(3) r1]] 2(2) True r1
      by (simp add: read_params.simps(2))
  next
    case False
    then show ?thesis using 2(2,3) by (simp add: read_params.simps(2))
  qed
qed simp

lemma read_part_level: "read_part q s = Some (p, es, r) \<Longrightarrow> level_not_negative (p_level p)"
  by (auto simp: read_part_def Let_def new_part_def DEFAULT_LEVEL_def level_not_negative_def split: if_splits prod.splits
      dest!: read_params_level)

lemma parse_parts_level: "p \<in> set (fst (parse_parts q s)) \<Longrightarrow> level_not_negative (p_level p)"
proof (induction q s rule: parse_parts.induct)
  case (1 q s)
  show ?case
  proof (cases "read_part q (dropWhile part_gap s)")
    case None
    then show ?thesis using 1(2) by (subst (asm) parse_parts.simps) (auto simp: Let_def split: if_splits)
  next
    case (Some x)
    obtain p1 es r where x: "x = (p1, es, r)" by (metis prod_cases3)
    show ?thesis
      using 1(1) [OF refl _ Some x [symmetric] refl refl] 1(2) Some x read_part_level [of q _ p1 es r]
      by (subst (asm) (2) parse_parts.simps) (auto simp: Let_def split: if_splits prod.splits)
  qed
qed

section \<open>Sorting\<close>

lemma set_insert_part [simp]: "set (insert_part p ps) = insert p (set ps)"
  by (induction ps) auto

lemma mset_insert_part [simp]: "mset (insert_part p ps) = add_mset p (mset ps)"
  by (induction ps) auto

lemma level_total:
  "level_not_negative a \<Longrightarrow> level_not_negative b \<Longrightarrow> level_not_negative c \<Longrightarrow>
   (level_less a b \<longrightarrow> \<not> level_less b a) \<and> (\<not> level_less a b \<longrightarrow> \<not> level_less b c \<longrightarrow> \<not> level_less a c)
   \<and> (\<not> level_less a b \<longrightarrow> \<not> level_less b a \<longrightarrow> a = b)"
  by (cases a; cases b; cases c) (auto simp: level_not_negative_def)

definition levels_ok :: "part list \<Rightarrow> bool" where
  "levels_ok ps \<longleftrightarrow> (\<forall>p\<in>set ps. level_not_negative (p_level p))"

definition by_level :: "part list \<Rightarrow> bool" where
  "by_level ps \<longleftrightarrow> sorted_wrt (\<lambda>p p'. \<not> level_less (p_level p) (p_level p')) ps"

lemma insert_part_sorted:
  "levels_ok (p # ps) \<Longrightarrow> by_level ps \<Longrightarrow> by_level (insert_part p ps)"
proof (induction ps)
  case (Cons p' ps)
  have l: "level_not_negative (p_level x)" if "x \<in> {p, p'} \<union> set ps" for x
    using Cons(2) that by (auto simp: levels_ok_def)
  have s: "\<not> level_less (p_level p') (p_level x)" if "x \<in> set ps" for x
    using Cons(3) that by (simp add: by_level_def)
  show ?case
  proof (cases "part_less p' p")
    case True
    then have "\<not> level_less (p_level p') (p_level p)"
      using level_total [of "p_level p" "p_level p'" "p_level p"] l by (auto simp: part_less_def)
    then show ?thesis
      using Cons s True by (auto simp: levels_ok_def by_level_def)
  next
    case False
    then have f: "\<not> level_less (p_level p) (p_level p')" by (simp add: part_less_def)
    then have "\<not> level_less (p_level p) (p_level x)" if "x \<in> set ps" for x
      using level_total [of "p_level p" "p_level p'" "p_level x"] l that s by auto
    then show ?thesis using Cons(3) False f by (auto simp: by_level_def)
  qed
qed (simp add: by_level_def)

lemma insert_part_stable:
  "levels_ok (p # ps) \<Longrightarrow>
   filter (\<lambda>x. p_level x = l) (insert_part p ps) = filter (\<lambda>x. p_level x = l) (p # ps)"
proof (induction ps)
  case (Cons p' ps)
  have "p_level p' \<noteq> p_level p" if "part_less p' p"
    using that level_total [of "p_level p" "p_level p" "p_level p"] Cons(2) by (auto simp: part_less_def levels_ok_def)
  then show ?case using Cons by (auto simp: levels_ok_def)
qed simp

lemma sorted_by_level:
  "levels_ok ps \<Longrightarrow> by_level (foldr insert_part ps []) \<and> mset (foldr insert_part ps []) = mset ps
   \<and> filter (\<lambda>x. p_level x = l) (foldr insert_part ps []) = filter (\<lambda>x. p_level x = l) ps"
proof (induction ps)
  case (Cons p ps)
  let ?s = "foldr insert_part ps []"
  have ih: "by_level ?s" "mset ?s = mset ps" "filter (\<lambda>x. p_level x = l) ?s = filter (\<lambda>x. p_level x = l) ps"
    using Cons by (auto simp: levels_ok_def)
  have "levels_ok (p # ?s)" using Cons(2) mset_eq_setD [OF ih(2)] by (auto simp: levels_ok_def)
  then show ?case using insert_part_sorted [of p ?s] insert_part_stable [of p ?s l] ih by simp
qed (simp add: by_level_def)

end
