(* ===== verification/CacheControl.thy ===== *)
theory CacheControl
  imports HttpStrings HttpHeader
begin

text \<open>
  What may be cached: the class \<open>cache_control_settings\<close>
  (\<open>libsnapwebsites/src/snapwebsites/cache_control.cpp\<close>), the \<open>Cache-Control\<close> header the child makes of the
  settings of the client, the page and the server (\<open>snap_child_cache_control.cpp\<close>), and \<open>output_headers\<close>
  (\<open>snap_child.cpp\<close>).
\<close>

section \<open>Settings\<close>

text \<open>\<open>std::set<std::string>\<close>.\<close>

type_synonym fields = "(string, unit) omap"

definition AGE_MAXIMUM :: int where "AGE_MAXIMUM = 365 * 24 * 60 * 60"
definition IGNORE_VALUE :: int where "IGNORE_VALUE = -1"

record cache_control_settings =
  cc_immutable :: bool
  cc_max_age :: int
  cc_max_stale :: int
  cc_min_fresh :: int
  cc_must_revalidate :: bool
  cc_no_cache :: bool
  cc_no_store :: bool
  cc_no_transform :: bool
  cc_only_if_cached :: bool
  cc_private :: bool
  cc_private_field_names :: fields
  cc_proxy_revalidate :: bool
  cc_public :: bool
  cc_revalidate_field_names :: fields
  cc_s_maxage :: int
  cc_tags :: fields

definition new_settings :: cache_control_settings where
  "new_settings =
     \<lparr>cc_immutable = False, cc_max_age = 0, cc_max_stale = IGNORE_VALUE, cc_min_fresh = IGNORE_VALUE,
      cc_must_revalidate = True, cc_no_cache = False, cc_no_store = False, cc_no_transform = False,
      cc_only_if_cached = False, cc_private = False, cc_private_field_names = [(''Set-Cookie'', ())],
      cc_proxy_revalidate = False, cc_public = False, cc_revalidate_field_names = [], cc_s_maxage = IGNORE_VALUE,
      cc_tags = []\<rparr>"

definition reset_cache_info :: "cache_control_settings \<Rightarrow> cache_control_settings" where
  "reset_cache_info c =
     c\<lparr>cc_max_age := 0, cc_max_stale := IGNORE_VALUE, cc_min_fresh := IGNORE_VALUE, cc_must_revalidate := True,
       cc_no_cache := False, cc_no_store := True, cc_no_transform := False, cc_only_if_cached := False,
       cc_private := False, cc_public := False, cc_s_maxage := IGNORE_VALUE\<rparr>"

text \<open>\<open>i\<close> is the number of characters before.\<close>

fun seconds_loop :: "string \<Rightarrow> nat \<Rightarrow> int \<Rightarrow> int" where
  "seconds_loop [] i result = (if result > AGE_MAXIMUM then AGE_MAXIMUM else result)"
| "seconds_loop (c # s) i result =
     (if c < CHR ''0'' \<or> c > CHR ''9'' \<or> i > 9 then IGNORE_VALUE
      else seconds_loop s (i + 1) (result * 10 + int (of_char c) - 48))"

definition string_to_seconds :: "string \<Rightarrow> int" where
  "string_to_seconds s = (if s = [] then IGNORE_VALUE else seconds_loop (c_str s) 0 0)"

definition minimum :: "int \<Rightarrow> int \<Rightarrow> int" where
  "minimum a b = (if a = IGNORE_VALUE then b else if b = IGNORE_VALUE then a else min a b)"

text \<open>\<open>set_max_age\<close>, \<open>set_s_maxage\<close>, \<open>set_max_stale\<close> and \<open>set_min_fresh\<close> clamp a number the same way.\<close>

definition clamp_age :: "int \<Rightarrow> int" where
  "clamp_age n = (if n \<ge> AGE_MAXIMUM then AGE_MAXIMUM else if n < 0 then IGNORE_VALUE else n)"

definition set_max_age :: "int \<Rightarrow> cache_control_settings \<Rightarrow> cache_control_settings" where
  "set_max_age n c = c\<lparr>cc_max_age := clamp_age n\<rparr>"

definition set_max_age_string :: "string \<Rightarrow> cache_control_settings \<Rightarrow> cache_control_settings" where
  "set_max_age_string s c = c\<lparr>cc_max_age := string_to_seconds s\<rparr>"

definition update_max_age :: "int \<Rightarrow> cache_control_settings \<Rightarrow> cache_control_settings" where
  "update_max_age n c = c\<lparr>cc_max_age := minimum (cc_max_age c) (if n > AGE_MAXIMUM then AGE_MAXIMUM else n)\<rparr>"

definition set_s_maxage :: "int \<Rightarrow> cache_control_settings \<Rightarrow> cache_control_settings" where
  "set_s_maxage n c = c\<lparr>cc_s_maxage := clamp_age n\<rparr>"

definition set_s_maxage_string :: "string \<Rightarrow> cache_control_settings \<Rightarrow> cache_control_settings" where
  "set_s_maxage_string s c = c\<lparr>cc_s_maxage := string_to_seconds s\<rparr>"

definition update_s_maxage :: "int \<Rightarrow> cache_control_settings \<Rightarrow> cache_control_settings" where
  "update_s_maxage n c = c\<lparr>cc_s_maxage := minimum (cc_s_maxage c) (if n \<ge> AGE_MAXIMUM then AGE_MAXIMUM else n)\<rparr>"

definition set_max_stale :: "int \<Rightarrow> cache_control_settings \<Rightarrow> cache_control_settings" where
  "set_max_stale n c = c\<lparr>cc_max_stale := clamp_age n\<rparr>"

definition set_max_stale_string :: "string \<Rightarrow> cache_control_settings \<Rightarrow> cache_control_settings" where
  "set_max_stale_string s = set_max_stale (string_to_seconds s)"

definition set_min_fresh :: "int \<Rightarrow> cache_control_settings \<Rightarrow> cache_control_settings" where
  "set_min_fresh n c = c\<lparr>cc_min_fresh := clamp_age n\<rparr>"

definition set_min_fresh_string :: "string \<Rightarrow> cache_control_settings \<Rightarrow> cache_control_settings" where
  "set_min_fresh_string s = set_min_fresh (string_to_seconds s)"

definition add_field :: "qt_env \<Rightarrow> string \<Rightarrow> fields \<Rightarrow> fields" where
  "add_field q n fs = (let name = trim q n in if name = [] then fs else om_put name () fs)"

definition add_revalidate_field_name :: "qt_env \<Rightarrow> string \<Rightarrow> cache_control_settings \<Rightarrow> cache_control_settings" where
  "add_revalidate_field_name q n c =
     c\<lparr>cc_revalidate_field_names := add_field q (c_str n) (cc_revalidate_field_names c)\<rparr>"

definition add_private_field_name :: "qt_env \<Rightarrow> string \<Rightarrow> cache_control_settings \<Rightarrow> cache_control_settings" where
  "add_private_field_name q n c =
     c\<lparr>cc_private_field_names := add_field q (c_str n) (cc_private_field_names c)\<rparr>"

definition add_tag :: "string \<Rightarrow> cache_control_settings \<Rightarrow> cache_control_settings" where
  "add_tag n c = c\<lparr>cc_tags := om_put (c_str n) () (cc_tags c)\<rparr>"

text \<open>
  One part of a \<open>Cache-Control\<close> text; \<open>internal\<close> accepts names behind an exclamation mark, which negates them. The
  switch on the first character selects no other names than these.
\<close>

definition set_info_part :: "qt_env \<Rightarrow> bool \<Rightarrow> part \<Rightarrow> cache_control_settings \<Rightarrow> cache_control_settings" where
  "set_info_part q internal p c =
     (let negate = (internal \<and> p_name p \<noteq> [] \<and> hd (p_name p) = CHR ''!'');
          name = (if negate then tl (p_name p) else p_name p);
          value = p_value p in
      if name = ''immutable'' then c\<lparr>cc_immutable := \<not> negate\<rparr>
      else if name = ''max-age'' then set_max_age_string value c
      else if name = ''max-stale'' then (if value = [] then set_max_stale 0 c else set_max_stale_string value c)
      else if name = ''min-fresh'' then set_min_fresh_string value c
      else if name = ''must-revalidate'' then c\<lparr>cc_must_revalidate := \<not> negate\<rparr>
      else if name = ''no-cache'' then
        (if value = [] then c\<lparr>cc_no_cache := \<not> negate\<rparr>
         else fold (add_revalidate_field_name q) (split_on (CHR '','') value) c)
      else if name = ''no-store'' then c\<lparr>cc_no_store := \<not> negate\<rparr>
      else if name = ''no-transform'' then c\<lparr>cc_no_transform := \<not> negate\<rparr>
      else if name = ''only-if-cached'' then c\<lparr>cc_only_if_cached := \<not> negate\<rparr>
      else if name = ''private'' then
        (if value = [] then c\<lparr>cc_private := \<not> negate\<rparr>
         else fold (add_private_field_name q) (split_on (CHR '','') value) c)
      else if name = ''proxy-revalidate'' then c\<lparr>cc_proxy_revalidate := \<not> negate\<rparr>
      else if name = ''public'' then c\<lparr>cc_public := \<not> negate\<rparr>
      else if name = ''s-maxage'' then set_s_maxage_string value c
      else c)"

definition set_cache_info :: "qt_env \<Rightarrow> string \<Rightarrow> bool \<Rightarrow> cache_control_settings \<Rightarrow> cache_control_settings" where
  "set_cache_info q info internal c = fold (set_info_part q internal) (w_parts (new_weighted q info)) c"

section \<open>The response of a child\<close>

record cache_controls =
  client_cache_control :: cache_control_settings
  page_cache_control :: cache_control_settings
  server_cache_control :: cache_control_settings

text \<open>
  \<open>expires_text\<close> is what \<open>QLocale::toString\<close> prints for a number of seconds; the start date of the request is
  in microseconds.
\<close>

record cache_env =
  expires_text :: "int \<Rightarrow> string"
  ca_start_date :: int
  cache_tags :: string

definition no_caching :: "cache_controls \<Rightarrow> bool" where
  "no_caching s \<longleftrightarrow> cc_no_cache (page_cache_control s) \<or> cc_max_age (page_cache_control s) \<le> 0
     \<or> cc_no_store (server_cache_control s) \<or> cc_max_age (server_cache_control s) \<le> 0"

fun join_names :: "string list \<Rightarrow> string" where
  "join_names [] = []"
| "join_names [w] = w"
| "join_names (w # ws) = w @ CHR '','' # join_names ws"

definition merge_fields :: "fields \<Rightarrow> fields \<Rightarrow> string list" where
  "merge_fields a b = map fst (fold (\<lambda>p. om_put (fst p) (snd p)) b a)"

definition quoted_names :: "string \<Rightarrow> string list \<Rightarrow> string list" where
  "quoted_names n ws = (if ws = [] then [] else [n @ [CHR ''='', CHR 0x22] @ join_names (map c_str ws) @ [CHR 0x22]])"

definition either :: "(cache_control_settings \<Rightarrow> bool) \<Rightarrow> cache_controls \<Rightarrow> bool" where
  "either f s \<longleftrightarrow> f (page_cache_control s) \<or> f (server_cache_control s)"

text \<open>The texts in the order they are added to \<open>cache_control_fields\<close>.\<close>

definition not_cached_fields :: "cache_controls \<Rightarrow> string list" where
  "not_cached_fields s =
     [''no-cache'']
     @ (if cc_no_store (client_cache_control s) \<or> either cc_no_store s then [''no-store''] else [])
     @ (if either cc_must_revalidate s then [''must-revalidate''] else [])
     @ [''post-check=0'', ''pre-check=0'', ''private'']"

definition max_age_of :: "cache_controls \<Rightarrow> int" where
  "max_age_of s = minimum (cc_max_age (page_cache_control s)) (cc_max_age (server_cache_control s))"

definition s_maxage_of :: "cache_controls \<Rightarrow> int" where
  "s_maxage_of s = minimum (cc_s_maxage (page_cache_control s)) (cc_s_maxage (server_cache_control s))"

definition public_fields :: "cache_controls \<Rightarrow> string list" where
  "public_fields s =
     (let names = (\<lambda>f. merge_fields (f (page_cache_control s)) (f (server_cache_control s))) in
      [''public''] @ quoted_names ''no-cache'' (names cc_revalidate_field_names)
      @ quoted_names ''private'' (names cc_private_field_names))"

definition cached_fields :: "cache_controls \<Rightarrow> string list" where
  "cached_fields s =
     [''max-age='' @ dec (max_age_of s)]
     @ (if s_maxage_of s \<noteq> IGNORE_VALUE \<and> s_maxage_of s < max_age_of s then [''s-maxage='' @ dec (s_maxage_of s)] else [])
     @ (if either cc_immutable s then [''immutable''] else [])
     @ (if either cc_private s then [''private''] else if either cc_public s then public_fields s else [])
     @ (if either cc_must_revalidate s then [''must-revalidate'']
        else if either cc_proxy_revalidate s then [''proxy-revalidate''] else [])"

definition control_fields :: "cache_controls \<Rightarrow> string list" where
  "control_fields s =
     (if cc_no_transform (client_cache_control s) \<or> either cc_no_transform s then [''no-transform''] else [])
     @ (if no_caching s then not_cached_fields s else cached_fields s)"

definition public_data :: "cache_controls \<Rightarrow> bool" where
  "public_data s \<longleftrightarrow> \<not> either cc_private s \<and> either cc_public s"

text \<open>\<open>setTime_t\<close> takes an unsigned integer of 32 bits.\<close>

definition expires_header :: "cache_env \<Rightarrow> cache_controls \<Rightarrow> string" where
  "expires_header ce s = expires_text ce ((ca_start_date ce sdiv 1000000 + max_age_of s - 1) mod 2 ^ 32)"

definition tags_text :: "string list \<Rightarrow> string" where
  "tags_text ts = foldl (\<lambda>r t. if t = [] then r else (if r = [] then r else r @ '','') @ c_str t) [] ts"

definition set_tag_headers :: "qt_env \<Rightarrow> cache_env \<Rightarrow> cache_controls \<Rightarrow> response \<Rightarrow> response res" where
  "set_tag_headers q ce s c =
     (let ts = merge_fields (cc_tags (page_cache_control s)) (cc_tags (server_cache_control s)) in
      if ts = [] \<or> cache_tags ce = [] then Inr c
      else chain (map (\<lambda>name. let n = q_trimmed q name in
          if n = [] then Inr else set_header q n (tags_text ts) HEADER_MODE_NO_ERROR) (split_on (CHR '','') (cache_tags ce))) c)"

definition set_cache_control :: "qt_env \<Rightarrow> cache_env \<Rightarrow> cache_controls \<Rightarrow> response \<Rightarrow> response res" where
  "set_cache_control q ce s =
     (let everywhere = (\<lambda>n v. set_header q n v HEADER_MODE_EVERYWHERE) in
      chain
        ((if no_caching s then [everywhere ''Pragma'' ''no-cache'', everywhere ''Expires'' ''Sat, 01 Jan 2000 00:00:00 GMT'']
          else if public_data s then
            [everywhere ''Pragma'' [], everywhere ''Expires'' (expires_header ce s), set_tag_headers q ce s]
          else
            [everywhere ''Pragma'' ''no-cache'', everywhere ''Expires'' ''Sat,  1 Jan 2000 00:00:00 GMT'',
             set_tag_headers q ce s])
         @ [everywhere ''Cache-Control'' (join_names (control_fields s))]))"

definition write_text :: "string \<Rightarrow> response \<Rightarrow> response" where
  "write_text t c = c\<lparr>r_written := r_written c @ t\<rparr>"

definition output_headers ::
  "('a env_scheme) \<Rightarrow> qt_env \<Rightarrow> cookie_env \<Rightarrow> cache_env \<Rightarrow> cache_controls \<Rightarrow> header_mode \<Rightarrow> response \<Rightarrow> response res" where
  "output_headers E q ke ce s modes c =
     rbind (set_cache_control q ce s c) (\<lambda>c.
       Inr (write_text [CHR 0x0A] (output_cookies E ke (output_http_links modes (write_text (header_block q modes c) c)))))"

end
