(* ===== verification/CacheProps.thy ===== *)
theory CacheProps
  imports CacheControl HeaderProps
begin

text \<open>
  What a client reads back from the \<open>Cache-Control\<close> header; bounds of the ages; the order of weighted strings.
\<close>

section \<open>Fields\<close>

datatype field = Flag string | Value string string | Quoted string string

fun field_text :: "field \<Rightarrow> string" where
  "field_text (Flag n) = n"
| "field_text (Value n v) = n @ CHR ''='' # v"
| "field_text (Quoted n v) = n @ CHR ''='' # CHR 0x22 # v @ [CHR 0x22]"

fun field_part :: "field \<Rightarrow> part" where
  "field_part (Flag n) = new_part n"
| "field_part (Value n v) = (new_part n)\<lparr>p_value := v\<rparr>"
| "field_part (Quoted n v) = (new_part n)\<lparr>p_value := v\<rparr>"

fun cache_field_ok :: "field \<Rightarrow> bool" where
  "cache_field_ok (Flag n) = field_name n"
| "cache_field_ok (Value n v) = (field_name n \<and> v \<noteq> [] \<and> list_all field_char v)"
| "cache_field_ok (Quoted n v) = (field_name n \<and> list_all word_char v \<and> CHR 0x22 \<notin> set v)"

lemma parse_field:
  "qt_ok q \<Longrightarrow> cache_field_ok f \<Longrightarrow> at_field_end r \<Longrightarrow>
   parse_parts q (field_text f @ r) = (case parse_parts q r of (ps, es) \<Rightarrow> (field_part f # ps, es))"
  by (cases f) (simp_all add: parse_flag parse_value parse_quoted)

lemma parse_fields:
  "qt_ok q \<Longrightarrow> list_all cache_field_ok fs \<Longrightarrow> parse_parts q (join_names (map field_text fs)) = (map field_part fs, [])"
proof (induction fs rule: induct_list012)
  case (2 f)
  then show ?case using parse_field [of q f "[]"] by (simp add: at_field_end_def)
next
  case (3 f g fs)
  then show ?case
    using parse_field [of q f "CHR '','' # join_names (map field_text (g # fs))"] by (simp add: at_field_end_def parse_gap)
qed simp

lemma field_text_word: "cache_field_ok f \<Longrightarrow> list_all word_char (field_text f) \<and> field_text f \<noteq> []"
proof -
  have "word_char (CHR ''='')" "word_char (CHR 0x22)" by code_simp+
  then show "cache_field_ok f \<Longrightarrow> ?thesis"
    by (cases f) (auto simp: field_name_def field_char_def list_all_iff)
qed

lemma join_names_word: "list_all (list_all word_char) ws \<Longrightarrow> list_all word_char (join_names ws)"
proof -
  have "word_char (CHR '','')" by code_simp
  then show "list_all (list_all word_char) ws \<Longrightarrow> ?thesis" by (induction ws rule: join_names.induct) auto
qed

lemma split_join_names: "ws \<noteq> [] \<Longrightarrow> \<forall>w\<in>set ws. CHR '','' \<notin> set w \<Longrightarrow> split_on (CHR '','') (join_names ws) = ws"
  by (induction ws rule: join_names.induct) (simp_all add: split_on_none split_on_append)

lemma word_text: "list_all word_char s \<Longrightarrow> c_str s = s"
  unfolding c_str_def by (rule takeWhile_eq_all_conv [THEN iffD2]) (auto simp: list_all_iff word_char_def less_eq_char_def)

section \<open>Numbers\<close>

lemma digit_seconds: "d < 10 \<Longrightarrow> \<not> digit d < CHR ''0'' \<and> \<not> CHR ''9'' < digit d \<and> int (of_char (digit d)) - 48 = int d"
  by (simp add: digit_def less_char_def)

lemma seconds_loop_dec:
  "i + length (dec_nat n) \<le> 10 \<Longrightarrow>
   seconds_loop (dec_nat n @ r) i v = seconds_loop r (i + length (dec_nat n)) (v * 10 ^ length (dec_nat n) + int n)"
proof (induction n arbitrary: i v r rule: less_induct)
  case (less n)
  show ?case
  proof (cases "n < 10")
    case True
    then have "dec_nat n = [digit n]" by (subst dec_nat.simps) simp
    then show ?thesis using digit_seconds [OF True] less(2) by (simp add: algebra_simps)
  next
    case False
    then have n: "dec_nat n = dec_nat (n div 10) @ [digit (n mod 10)]" by (subst dec_nat.simps) simp
    have d: "int n = int (n div 10) * 10 + int (n mod 10)" by presburger
    show ?thesis
      using less(1) [of "n div 10" i "digit (n mod 10) # r" v] digit_seconds [of "n mod 10"] less(2) False d
      by (simp add: n algebra_simps)
  qed
qed

lemma length_dec_nat: "n < 10 ^ Suc k \<Longrightarrow> length (dec_nat n) \<le> Suc k"
proof (induction k arbitrary: n)
  case (Suc k)
  then have "n div 10 < 10 ^ Suc k" by (simp add: less_mult_imp_div_less mult.commute)
  then show ?case using Suc(1) [of "n div 10"] by (subst dec_nat.simps) simp
next
  case 0
  then show ?case by (subst dec_nat.simps) simp
qed

lemma dec_nat_field: "list_all field_char (dec_nat n) \<and> dec_nat n \<noteq> []"
proof -
  have "list_all field_char ''0123456789abcdef''" by code_simp
  then have "digit_char c \<Longrightarrow> field_char c" for c by (auto simp: digit_char_def)
  moreover have "dec_nat n \<noteq> []" by (subst dec_nat.simps) simp
  ultimately show ?thesis using dec_nat_chars [of _ n] by (auto simp: list_all_iff)
qed

lemma seconds_read_back:
  assumes "0 \<le> n" "n \<le> AGE_MAXIMUM"
  shows "string_to_seconds (dec n) = n" "list_all field_char (dec n)" "dec n \<noteq> []"
proof -
  have n: "dec n = dec_nat (nat n)" using assms(1) by (simp add: dec_def)
  have "nat n < 10 ^ Suc 9" using assms(2) by (simp add: AGE_MAXIMUM_def)
  then have "length (dec_nat (nat n)) \<le> 10" using length_dec_nat [of "nat n" 9] by simp
  then have l: "seconds_loop (dec_nat (nat n)) 0 0 = n"
    using seconds_loop_dec [of 0 "nat n" "[]" 0] assms by simp
  have f: "list_all field_char (dec_nat (nat n))" "dec_nat (nat n) \<noteq> []" using dec_nat_field by auto
  then show "list_all field_char (dec n)" "dec n \<noteq> []" using n by simp_all
  have "list_all word_char (dec_nat (nat n))" using f(1) by (auto simp: list_all_iff field_char_def)
  then show "string_to_seconds (dec n) = n" using l f(2) n word_text by (simp add: string_to_seconds_def)
qed

section \<open>Ages\<close>

definition age_ok :: "int \<Rightarrow> bool" where
  "age_ok n \<longleftrightarrow> IGNORE_VALUE \<le> n \<and> n \<le> AGE_MAXIMUM"

definition ages_ok :: "cache_control_settings \<Rightarrow> bool" where
  "ages_ok c \<longleftrightarrow> age_ok (cc_max_age c) \<and> age_ok (cc_s_maxage c) \<and> age_ok (cc_max_stale c) \<and> age_ok (cc_min_fresh c)"

lemma clamp_age_ok: "age_ok (clamp_age n)"
  by (simp add: age_ok_def clamp_age_def IGNORE_VALUE_def AGE_MAXIMUM_def)

lemma seconds_loop_ok: "0 \<le> v \<Longrightarrow> age_ok (seconds_loop s i v)"
proof (induction s i v rule: seconds_loop.induct)
  case (2 c s i v)
  then show ?case by (auto simp: age_ok_def IGNORE_VALUE_def AGE_MAXIMUM_def less_char_def)
qed (simp add: age_ok_def IGNORE_VALUE_def AGE_MAXIMUM_def)

lemma string_to_seconds_ok: "age_ok (string_to_seconds s)"
  using seconds_loop_ok [of 0] by (simp add: string_to_seconds_def age_ok_def IGNORE_VALUE_def AGE_MAXIMUM_def)

lemma fold_names_ages:
  "ages_ok (fold (add_revalidate_field_name q) ws c) = ages_ok c"
  "ages_ok (fold (add_private_field_name q) ws c) = ages_ok c"
  by (induction ws arbitrary: c)
    (simp_all add: add_revalidate_field_name_def add_private_field_name_def ages_ok_def)

lemma set_info_part_ages: "ages_ok c \<Longrightarrow> ages_ok (set_info_part q internal p c)"
  using string_to_seconds_ok [of "p_value p"] clamp_age_ok
  by (simp add: set_info_part_def Let_def fold_names_ages)
    (auto simp: ages_ok_def set_max_age_string_def set_max_stale_def set_max_stale_string_def
      set_min_fresh_string_def set_min_fresh_def set_s_maxage_string_def)

lemma set_cache_info_ages: "ages_ok c \<Longrightarrow> ages_ok (set_cache_info q info internal c)"
proof -
  have "ages_ok c \<Longrightarrow> ages_ok (fold (set_info_part q internal) ps c)" for ps
    by (induction ps arbitrary: c) (simp_all add: set_info_part_ages)
  then show "ages_ok c \<Longrightarrow> ?thesis" by (simp add: set_cache_info_def)
qed

section \<open>Headers\<close>

lemma printable_value: "list_all printable_char v \<Longrightarrow> \<exists>w. header_value v = Inr w"
proof -
  have "list_all printable_char v \<Longrightarrow> \<exists>w. header_value_loop v a lc = Inr w" for a lc
  proof (induction v arbitrary: a lc)
    case (Cons c v)
    then show ?case using printable_simps [of c] by simp
  qed simp
  from this [of "[]" "CHR 0x00"] show "list_all printable_char v \<Longrightarrow> ?thesis" by (auto simp: header_value_def)
qed

lemma word_char_printable: "word_char c \<Longrightarrow> printable_char c \<and> \<not> header_space c"
  by (auto simp: word_char_def printable_char_def header_space_def less_eq_char_def)

lemma word_value: "list_all word_char v \<Longrightarrow> v \<noteq> [] \<Longrightarrow> header_value v = Inr v"
proof -
  assume v: "list_all word_char v" "v \<noteq> []"
  obtain c w where c: "v = c # w" using v(2) by (cases v) auto
  then have "word_char c" "list_all printable_char w" using v(1) word_char_printable by (auto simp: list_all_iff)
  then have "header_value_loop v [] (CHR 0x00) = Inr v"
    using loop_printable [of w "[c]" "[]" c] printable_simps [of c] word_char_printable [of c] c by simp
  moreover have "word_char (last v)" using v by (auto simp: list_all_iff)
  then have "remove_end_spaces v = v"
    using word_char_printable [of "last v"] v(2) by (intro remove_end_spaces_none) (auto simp: header_space_def)
  ultimately show ?thesis by (simp add: header_value_def)
qed

lemma set_header_returns:
  "list_all valid_name_char n \<Longrightarrow> header_value v = Inr w \<Longrightarrow> \<exists>c'. set_header q n v m c = Inr c'"
  by (simp add: set_header_def)

lemma set_header_get:
  "list_all valid_name_char n \<Longrightarrow> header_value v = Inr w \<Longrightarrow> w \<noteq> [] \<Longrightarrow>
   \<exists>c'. set_header q n v m c = Inr c' \<and> get_header q n c' = w"
  by (simp add: set_header_def get_header_def map_of_om_put)

lemma set_header_other:
  "set_header q n v m c = Inr c' \<Longrightarrow> to_lower q n \<noteq> to_lower q n' \<Longrightarrow> get_header q n' c' = get_header q n' c"
  by (auto simp: set_header_def get_header_def map_of_om_put map_of_om_erase rbind_Inr_iff split: if_splits)

section \<open>The header\<close>

definition header_name :: "string \<Rightarrow> bool" where
  "header_name w \<longleftrightarrow> w \<noteq> [] \<and> list_all valid_name_char w"

definition fields_ok :: "fields \<Rightarrow> bool" where
  "fields_ok fs \<longleftrightarrow> (\<forall>p\<in>set fs. header_name (fst p))"

definition settings_ok :: "cache_control_settings \<Rightarrow> bool" where
  "settings_ok c \<longleftrightarrow> ages_ok c \<and> fields_ok (cc_private_field_names c) \<and> fields_ok (cc_revalidate_field_names c)"

definition names_of :: "fields \<Rightarrow> string set" where
  "names_of fs = fst ` set fs"

lemma header_name_word: "header_name w \<Longrightarrow> list_all word_char w \<and> CHR '','' \<notin> set w \<and> CHR 0x22 \<notin> set w"
proof -
  have "\<not> valid_name_char (CHR '','')" "\<not> valid_name_char (CHR 0x22)" by code_simp+
  moreover have "valid_name_char c \<Longrightarrow> word_char c" for c by (simp add: valid_name_char_def word_char_def)
  ultimately show "header_name w \<Longrightarrow> ?thesis" by (auto simp: header_name_def list_all_iff)
qed

lemma set_om_put_keys: "fst ` set (om_put k v m) = insert k (fst ` set m)"
  by (induction k v m rule: om_put.induct) auto

lemma merge_names: "set (merge_fields a b) = names_of a \<union> names_of b"
proof -
  have "fst ` set (fold (\<lambda>p. om_put (fst p) (snd p)) b a) = fst ` set a \<union> fst ` set b"
    by (induction b arbitrary: a) (auto simp: set_om_put_keys)
  then show ?thesis by (simp add: merge_fields_def names_of_def)
qed

lemma add_names:
  assumes "qt_ok q" "\<forall>w\<in>set ws. header_name w"
  shows "names_of (fold (\<lambda>w. add_field q (c_str w)) ws fs) = set ws \<union> names_of fs"
  using assms(2)
proof (induction ws arbitrary: fs)
  case (Cons w ws)
  then have w: "list_all word_char w" "w \<noteq> []" using header_name_word [of w] by (auto simp: header_name_def)
  then have "add_field q (c_str w) fs = om_put w () fs"
    using qt_ok_simps(3) [OF assms(1) simple_text_word] by (simp add: add_field_def word_text)
  then show ?case using Cons by (auto simp: names_of_def set_om_put_keys)
qed simp

lemma fold_revalidate:
  "fold (add_revalidate_field_name q) ws c =
   c\<lparr>cc_revalidate_field_names := fold (\<lambda>w. add_field q (c_str w)) ws (cc_revalidate_field_names c)\<rparr>"
  by (induction ws arbitrary: c) (simp_all add: add_revalidate_field_name_def)

lemma fold_private:
  "fold (add_private_field_name q) ws c =
   c\<lparr>cc_private_field_names := fold (\<lambda>w. add_field q (c_str w)) ws (cc_private_field_names c)\<rparr>"
  by (induction ws arbitrary: c) (simp_all add: add_private_field_name_def)

text \<open>The fields of the header, as what they are read as.\<close>

definition quoted_field :: "string \<Rightarrow> string list \<Rightarrow> field list" where
  "quoted_field n ws = (if ws = [] then [] else [Quoted n (join_names ws)])"

definition flag_if :: "bool \<Rightarrow> string \<Rightarrow> field list" where
  "flag_if b n = (if b then [Flag n] else [])"

definition all_names :: "(cache_control_settings \<Rightarrow> fields) \<Rightarrow> cache_controls \<Rightarrow> string list" where
  "all_names f s = merge_fields (f (page_cache_control s)) (f (server_cache_control s))"

definition cached_field_list :: "cache_controls \<Rightarrow> field list" where
  "cached_field_list s =
     [Value ''max-age'' (dec (max_age_of s))]
     @ (if s_maxage_of s \<noteq> IGNORE_VALUE \<and> s_maxage_of s < max_age_of s then [Value ''s-maxage'' (dec (s_maxage_of s))] else [])
     @ flag_if (either cc_immutable s) ''immutable''
     @ (if either cc_private s then [Flag ''private'']
        else if either cc_public s then
          Flag ''public'' # quoted_field ''no-cache'' (all_names cc_revalidate_field_names s)
          @ quoted_field ''private'' (all_names cc_private_field_names s)
        else [])
     @ (if either cc_must_revalidate s then [Flag ''must-revalidate'']
        else if either cc_proxy_revalidate s then [Flag ''proxy-revalidate''] else [])"

definition not_cached_field_list :: "cache_controls \<Rightarrow> field list" where
  "not_cached_field_list s =
     Flag ''no-cache'' # flag_if (cc_no_store (client_cache_control s) \<or> either cc_no_store s) ''no-store''
     @ flag_if (either cc_must_revalidate s) ''must-revalidate''
     @ [Value ''post-check'' ''0'', Value ''pre-check'' ''0'', Flag ''private'']"

definition control_field_list :: "cache_controls \<Rightarrow> field list" where
  "control_field_list s =
     flag_if (cc_no_transform (client_cache_control s) \<or> either cc_no_transform s) ''no-transform''
     @ (if no_caching s then not_cached_field_list s else cached_field_list s)"

lemma quoted_names_text:
  "\<forall>w\<in>set ws. header_name w \<Longrightarrow> quoted_names n ws = map field_text (quoted_field n ws)"
proof -
  assume "\<forall>w\<in>set ws. header_name w"
  then have "map c_str ws = ws" using header_name_word word_text by (auto intro!: map_idI)
  then show ?thesis by (simp add: quoted_names_def quoted_field_def)
qed

lemma all_names_ok:
  "settings_ok (page_cache_control s) \<Longrightarrow> settings_ok (server_cache_control s) \<Longrightarrow>
   (\<forall>w\<in>set (all_names cc_private_field_names s). header_name w)
   \<and> (\<forall>w\<in>set (all_names cc_revalidate_field_names s). header_name w)"
  by (auto simp: all_names_def merge_names settings_ok_def fields_ok_def names_of_def)

lemma control_field_texts:
  "settings_ok (page_cache_control s) \<Longrightarrow> settings_ok (server_cache_control s) \<Longrightarrow>
   control_fields s = map field_text (control_field_list s)"
  using all_names_ok [of s] quoted_names_text [of "all_names cc_private_field_names s"]
    quoted_names_text [of "all_names cc_revalidate_field_names s"]
  by (simp add: control_fields_def control_field_list_def cached_fields_def not_cached_fields_def cached_field_list_def
      not_cached_field_list_def flag_if_def public_fields_def all_names_def Let_def)

lemma known_names:
  "list_all field_name [''max-age'', ''s-maxage'', ''immutable'', ''private'', ''public'', ''no-cache'',
    ''must-revalidate'', ''proxy-revalidate'', ''no-store'', ''no-transform'', ''post-check'', ''pre-check'']"
  by code_simp

lemma quoted_field_ok:
  "field_name n \<Longrightarrow> \<forall>w\<in>set ws. header_name w \<Longrightarrow> list_all cache_field_ok (quoted_field n ws)"
proof -
  assume n: "field_name n" and w: "\<forall>w\<in>set ws. header_name w"
  have "list_all (list_all word_char) ws" using w header_name_word by (auto simp: list_all_iff)
  moreover have "CHR 0x22 \<notin> set (join_names ws)"
    using w by (induction ws rule: join_names.induct) (auto dest: header_name_word)
  ultimately show ?thesis using n join_names_word by (simp add: quoted_field_def)
qed

lemma minimum_ok: "age_ok a \<Longrightarrow> age_ok b \<Longrightarrow> age_ok (minimum a b)"
  by (auto simp: minimum_def age_ok_def)

lemma cached_ages:
  assumes "settings_ok (page_cache_control s)" "settings_ok (server_cache_control s)" "\<not> no_caching s"
  shows "0 < max_age_of s" "max_age_of s \<le> AGE_MAXIMUM" "age_ok (s_maxage_of s)"
    "max_age_of s = min (cc_max_age (page_cache_control s)) (cc_max_age (server_cache_control s))"
  using assms by (auto simp: settings_ok_def ages_ok_def age_ok_def no_caching_def max_age_of_def s_maxage_of_def
      minimum_def IGNORE_VALUE_def)

lemma control_fields_ok:
  assumes "settings_ok (page_cache_control s)" "settings_ok (server_cache_control s)"
  shows "list_all cache_field_ok (control_field_list s)"
proof -
  have z: "list_all field_char ''0''" by code_simp
  have "list_all cache_field_ok (cached_field_list s)" if c: "\<not> no_caching s"
    using cached_ages [OF assms c] seconds_read_back(2,3) [of "max_age_of s"] seconds_read_back(2,3) [of "s_maxage_of s"]
      known_names quoted_field_ok all_names_ok [OF assms]
    by (auto simp: cached_field_list_def flag_if_def age_ok_def IGNORE_VALUE_def)
  then show ?thesis
    using known_names z by (simp add: control_field_list_def not_cached_field_list_def flag_if_def)
qed

text \<open>
  The settings a client makes of the header of a response. In new settings \<open>must-revalidate\<close> is set, and no header
  unsets it: \<open>b\<close> is what it was before.
\<close>

definition settings_before :: "bool \<Rightarrow> cache_control_settings" where
  "settings_before b = new_settings\<lparr>cc_must_revalidate := b\<rparr>"

definition client_reads :: "qt_env \<Rightarrow> bool \<Rightarrow> response \<Rightarrow> cache_control_settings" where
  "client_reads q b c = set_cache_info q (get_header q ''Cache-Control'' c) False (settings_before b)"

lemma read_control_fields:
  assumes "qt_ok q" "settings_ok (page_cache_control s)" "settings_ok (server_cache_control s)"
  shows "set_cache_info q (join_names (control_fields s)) False c
    = fold (set_info_part q False) (map field_part (control_field_list s)) c"
proof -
  note ok = control_fields_ok [OF assms(2,3)]
  let ?t = "join_names (map field_text (control_field_list s))"
  have "list_all (list_all word_char) (map field_text (control_field_list s))"
    using ok field_text_word by (auto simp: list_all_iff)
  then have "c_str ?t = ?t" using join_names_word word_text by blast
  then show ?thesis
    using parse_fields [OF assms(1) ok] control_field_texts [OF assms(2,3)]
    by (simp add: set_cache_info_def new_weighted_def parse_weighted_def empty_weighted_def Let_def)
qed

section \<open>Reading it back\<close>

lemma info_parts:
  "set_info_part q False (field_part (Value ''max-age'' v)) c = set_max_age_string v c"
  "set_info_part q False (field_part (Value ''s-maxage'' v)) c = set_s_maxage_string v c"
  "set_info_part q False (field_part (Value ''post-check'' v)) c = c"
  "set_info_part q False (field_part (Value ''pre-check'' v)) c = c"
  "set_info_part q False (field_part (Flag ''immutable'')) c = c\<lparr>cc_immutable := True\<rparr>"
  "set_info_part q False (field_part (Flag ''private'')) c = c\<lparr>cc_private := True\<rparr>"
  "set_info_part q False (field_part (Flag ''public'')) c = c\<lparr>cc_public := True\<rparr>"
  "set_info_part q False (field_part (Flag ''no-cache'')) c = c\<lparr>cc_no_cache := True\<rparr>"
  "set_info_part q False (field_part (Flag ''no-store'')) c = c\<lparr>cc_no_store := True\<rparr>"
  "set_info_part q False (field_part (Flag ''no-transform'')) c = c\<lparr>cc_no_transform := True\<rparr>"
  "set_info_part q False (field_part (Flag ''must-revalidate'')) c = c\<lparr>cc_must_revalidate := True\<rparr>"
  "set_info_part q False (field_part (Flag ''proxy-revalidate'')) c = c\<lparr>cc_proxy_revalidate := True\<rparr>"
  by (simp_all add: set_info_part_def new_part_def Let_def)

lemma info_quoted:
  assumes "\<forall>w\<in>set ws. header_name w"
  shows "fold (set_info_part q False) (map field_part (quoted_field ''private'' ws)) c
      = c\<lparr>cc_private_field_names := fold (\<lambda>w. add_field q (c_str w)) ws (cc_private_field_names c)\<rparr>"
    "fold (set_info_part q False) (map field_part (quoted_field ''no-cache'' ws)) c
      = c\<lparr>cc_revalidate_field_names := fold (\<lambda>w. add_field q (c_str w)) ws (cc_revalidate_field_names c)\<rparr>"
proof -
  have "split_on (CHR '','') (join_names ws) = ws" if "ws \<noteq> []"
    using that assms header_name_word by (intro split_join_names) auto
  moreover have "join_names ws \<noteq> []" if "ws \<noteq> []"
    using that assms by (cases ws rule: join_names.cases) (auto simp: header_name_def)
  ultimately show "fold (set_info_part q False) (map field_part (quoted_field ''private'' ws)) c
      = c\<lparr>cc_private_field_names := fold (\<lambda>w. add_field q (c_str w)) ws (cc_private_field_names c)\<rparr>"
    "fold (set_info_part q False) (map field_part (quoted_field ''no-cache'' ws)) c
      = c\<lparr>cc_revalidate_field_names := fold (\<lambda>w. add_field q (c_str w)) ws (cc_revalidate_field_names c)\<rparr>"
    by (auto simp: quoted_field_def set_info_part_def new_part_def Let_def fold_private fold_revalidate)
qed

lemma info_flag_if:
  "fold f (map field_part (flag_if b n)) c = (if b then f (field_part (Flag n)) c else c)"
  by (simp add: flag_if_def)

lemma cached_info:
  assumes "qt_ok q" "settings_ok (page_cache_control s)" "settings_ok (server_cache_control s)" "\<not> no_caching s"
    and r: "r = set_cache_info q (join_names (control_fields s)) False (settings_before b)"
  shows "cc_max_age r = min (cc_max_age (page_cache_control s)) (cc_max_age (server_cache_control s))"
    "cc_s_maxage r = (if s_maxage_of s < max_age_of s then s_maxage_of s else IGNORE_VALUE)"
    "cc_immutable r = either cc_immutable s" "cc_private r = either cc_private s" "cc_public r = public_data s"
    "\<not> cc_no_cache r" "\<not> cc_no_store r" "cc_must_revalidate r = (b \<or> either cc_must_revalidate s)"
    "cc_proxy_revalidate r = (\<not> either cc_must_revalidate s \<and> either cc_proxy_revalidate s)"
    "cc_no_transform r = (cc_no_transform (client_cache_control s) \<or> either cc_no_transform s)"
    "names_of (cc_private_field_names r)
      = insert ''Set-Cookie'' (if public_data s then set (all_names cc_private_field_names s) else {})"
    "names_of (cc_revalidate_field_names r) = (if public_data s then set (all_names cc_revalidate_field_names s) else {})"
proof -
  note names = all_names_ok [OF assms(2,3)]
  note ages = cached_ages [OF assms(2-4)]
  have m: "string_to_seconds (dec (max_age_of s)) = max_age_of s" using seconds_read_back(1) ages by simp
  have sm: "string_to_seconds (dec (s_maxage_of s)) = s_maxage_of s" if "s_maxage_of s \<noteq> IGNORE_VALUE"
    using seconds_read_back(1) [of "s_maxage_of s"] ages(3) that by (simp add: age_ok_def IGNORE_VALUE_def)
  have r': "r = fold (set_info_part q False) (map field_part (control_field_list s)) (settings_before b)"
    using r read_control_fields [OF assms(1-3)] by simp
  note d = control_field_list_def cached_field_list_def info_parts info_flag_if info_quoted(1) [OF conjunct1 [OF names]]
    info_quoted(2) [OF conjunct2 [OF names]] set_max_age_string_def set_s_maxage_string_def settings_before_def new_settings_def
    public_data_def m [unfolded ages(4)] sm assms(4) ages(4)
  show "cc_max_age r = min (cc_max_age (page_cache_control s)) (cc_max_age (server_cache_control s))"
    "cc_s_maxage r = (if s_maxage_of s < max_age_of s then s_maxage_of s else IGNORE_VALUE)"
    "cc_immutable r = either cc_immutable s" "cc_private r = either cc_private s" "cc_public r = public_data s"
    "\<not> cc_no_cache r" "\<not> cc_no_store r" "cc_must_revalidate r = (b \<or> either cc_must_revalidate s)"
    "cc_proxy_revalidate r = (\<not> either cc_must_revalidate s \<and> either cc_proxy_revalidate s)"
    "cc_no_transform r = (cc_no_transform (client_cache_control s) \<or> either cc_no_transform s)"
    by (simp_all add: r' d del: field_part.simps)
  have n: "names_of [] = {}" "names_of [(w, ())] = {w}" for w by (simp_all add: names_of_def)
  note add = add_names [OF assms(1) conjunct1 [OF names]] add_names [OF assms(1) conjunct2 [OF names]]
  show "names_of (cc_private_field_names r)
      = insert ''Set-Cookie'' (if public_data s then set (all_names cc_private_field_names s) else {})"
    "names_of (cc_revalidate_field_names r) = (if public_data s then set (all_names cc_revalidate_field_names s) else {})"
    by (simp_all add: r' d add n del: field_part.simps)
qed

lemma not_cached_info:
  assumes "qt_ok q" "settings_ok (page_cache_control s)" "settings_ok (server_cache_control s)" "no_caching s"
    and r: "r = set_cache_info q (join_names (control_fields s)) False (settings_before b)"
  shows "cc_no_cache r" "cc_private r" "cc_max_age r = 0" "\<not> cc_public r"
    "cc_no_store r = (cc_no_store (client_cache_control s) \<or> either cc_no_store s)"
    "cc_no_transform r = (cc_no_transform (client_cache_control s) \<or> either cc_no_transform s)"
proof -
  have r': "r = fold (set_info_part q False) (map field_part (control_field_list s)) (settings_before b)"
    using r read_control_fields [OF assms(1-3)] by simp
  show "cc_no_cache r" "cc_private r" "cc_max_age r = 0" "\<not> cc_public r"
    "cc_no_store r = (cc_no_store (client_cache_control s) \<or> either cc_no_store s)"
    "cc_no_transform r = (cc_no_transform (client_cache_control s) \<or> either cc_no_transform s)"
    by (simp_all add: r' control_field_list_def not_cached_field_list_def info_parts info_flag_if assms(4)
        settings_before_def new_settings_def del: field_part.simps)
qed

section \<open>Responses\<close>

definition header_key :: "string \<Rightarrow> string" where
  "header_key = map ascii_lower"

lemma key_lower: "qt_ok q \<Longrightarrow> list_all word_char n \<Longrightarrow> n \<noteq> [] \<Longrightarrow> to_lower q n = header_key n"
  using qt_ok_simps(2) [of q n] simple_text_word [of n] by (simp add: header_key_def)

definition expires_ok :: "cache_env \<Rightarrow> bool" where
  "expires_ok ce \<longleftrightarrow> (\<forall>t. list_all printable_char (expires_text ce t))"

text \<open>The names of headers for tags in the configuration are names of headers, and the tags are printable.\<close>

definition tags_ok :: "qt_env \<Rightarrow> cache_env \<Rightarrow> cache_controls \<Rightarrow> bool" where
  "tags_ok q ce s \<longleftrightarrow> (\<forall>n \<in> set (split_on (CHR '','') (cache_tags ce)). list_all valid_name_char (q_trimmed q n))
     \<and> (\<forall>t \<in> names_of (cc_tags (page_cache_control s)) \<union> names_of (cc_tags (server_cache_control s)). list_all printable_char t)"

lemma chain_returns: "\<forall>f \<in> set fs. \<forall>c. \<exists>c'. f c = Inr c' \<Longrightarrow> \<exists>c'. chain fs c = Inr c'"
proof (induction fs arbitrary: c)
  case (Cons f fs)
  obtain c1 where "f c = Inr c1" using Cons(2) by auto
  then show ?case using Cons by auto
qed simp

lemma tags_text_printable: "\<forall>t \<in> set ts. list_all printable_char t \<Longrightarrow> list_all printable_char (tags_text ts)"
proof -
  have c: "printable_char (CHR '','')" by code_simp
  have "list_all printable_char r \<Longrightarrow> \<forall>t \<in> set ts. list_all printable_char t \<Longrightarrow>
      list_all printable_char (foldl (\<lambda>r t. if t = [] then r else (if r = [] then r else r @ '','') @ c_str t) r ts)" for r
  proof (induction ts arbitrary: r)
    case (Cons t ts)
    have "list_all printable_char (if t = [] then r else (if r = [] then r else r @ '','') @ c_str t)"
      using Cons(2,3) c by (auto simp: c_str_def list_all_iff dest!: set_takeWhileD)
    moreover have "\<forall>t \<in> set ts. list_all printable_char t" using Cons(3) by simp
    ultimately show ?case unfolding foldl_Cons by (rule Cons(1))
  qed simp
  from this [of "[]"] show "\<forall>t \<in> set ts. list_all printable_char t \<Longrightarrow> ?thesis" by (simp add: tags_text_def)
qed

lemma set_tag_headers_returns:
  assumes "tags_ok q ce s"
  shows "\<exists>c'. set_tag_headers q ce s c = Inr c'"
proof -
  let ?ts = "merge_fields (cc_tags (page_cache_control s)) (cc_tags (server_cache_control s))"
  have "list_all printable_char (tags_text ?ts)"
    using assms by (intro tags_text_printable) (auto simp: merge_names tags_ok_def)
  then obtain w where "header_value (tags_text ?ts) = Inr w" using printable_value by blast
  then have "\<forall>f \<in> set (map (\<lambda>name. let n = q_trimmed q name in
      if n = [] then Inr else set_header q n (tags_text ?ts) HEADER_MODE_NO_ERROR) (split_on (CHR '','') (cache_tags ce))).
      \<forall>c. \<exists>c'. f c = Inr c'"
    using assms set_header_returns by (auto simp: tags_ok_def Let_def)
  from chain_returns [OF this] show ?thesis by (auto simp: set_tag_headers_def Let_def)
qed

lemma control_text:
  assumes "settings_ok (page_cache_control s)" "settings_ok (server_cache_control s)"
  shows "header_value (join_names (control_fields s)) = Inr (join_names (control_fields s))"
    "join_names (control_fields s) \<noteq> []"
proof -
  note ok = control_fields_ok [OF assms]
  have w: "list_all word_char (join_names (control_fields s))"
    unfolding control_field_texts [OF assms] using ok field_text_word
    by (intro join_names_word) (auto simp: list_all_iff)
  have "control_field_list s \<noteq> []"
    by (simp add: control_field_list_def cached_field_list_def not_cached_field_list_def)
  then obtain f fs where "control_field_list s = f # fs" by (cases "control_field_list s") auto
  then show n: "join_names (control_fields s) \<noteq> []"
    unfolding control_field_texts [OF assms] using ok field_text_word [of f] by (cases fs) auto
  show "header_value (join_names (control_fields s)) = Inr (join_names (control_fields s))"
    by (rule word_value [OF w n])
qed

text \<open>Setting the header returns, and leaves the other headers of the response.\<close>

lemma set_cache_control_returns:
  assumes q: "qt_ok q" and ok: "settings_ok (page_cache_control s)" "settings_ok (server_cache_control s)" "expires_ok ce" "tags_ok q ce s"
  shows "\<exists>c'. set_cache_control q ce s c = Inr c' \<and> get_header q ''Cache-Control'' c' = join_names (control_fields s)
    \<and> (no_caching s \<longrightarrow> get_header q ''Pragma'' c' = ''no-cache''
        \<and> get_header q ''Expires'' c' = ''Sat, 01 Jan 2000 00:00:00 GMT'')"
proof -
  have names: "list_all valid_name_char ''Pragma''" "list_all valid_name_char ''Expires''"
    "list_all valid_name_char ''Cache-Control''" by code_simp+
  have keys: "to_lower q ''Pragma'' = ''pragma''" "to_lower q ''Expires'' = ''expires''"
    "to_lower q ''Cache-Control'' = ''cache-control''"
    by (subst key_lower [OF q]; code_simp)+
  have texts: "header_value ''no-cache'' = Inr ''no-cache''" "header_value [] = Inr []"
    "header_value ''Sat, 01 Jan 2000 00:00:00 GMT'' = Inr ''Sat, 01 Jan 2000 00:00:00 GMT''"
    "header_value ''Sat,  1 Jan 2000 00:00:00 GMT'' = Inr ''Sat,  1 Jan 2000 00:00:00 GMT''" by code_simp+
  obtain e where e: "header_value (expires_header ce s) = Inr e"
    using ok(3) printable_value by (fastforce simp: expires_ok_def expires_header_def)
  note control = control_text [OF ok(1,2)]
  show ?thesis
  proof (cases "no_caching s")
    case True
    then show ?thesis
      using names texts control
      by (simp add: set_cache_control_def Let_def set_header_def get_header_def map_of_om_put map_of_om_erase keys)
  next
    case False
    let ?e = "\<lambda>n v. set_header q n v HEADER_MODE_EVERYWHERE"
    let ?fs = "if public_data s then [?e ''Pragma'' [], ?e ''Expires'' (expires_header ce s), set_tag_headers q ce s]
      else [?e ''Pragma'' ''no-cache'', ?e ''Expires'' ''Sat,  1 Jan 2000 00:00:00 GMT'', set_tag_headers q ce s]"
    have "\<forall>f \<in> set ?fs. \<forall>c. \<exists>c'. f c = Inr c'"
      using set_header_returns names texts e set_tag_headers_returns [OF ok(4)] by simp
    from chain_returns [OF this] obtain c1 where c1: "chain ?fs c = Inr c1" by blast
    obtain c2 where c2: "?e ''Cache-Control'' (join_names (control_fields s)) c1 = Inr c2"
      "get_header q ''Cache-Control'' c2 = join_names (control_fields s)"
      using set_header_get [OF names(3) control] by blast
    have "set_cache_control q ce s c = chain (?fs @ [?e ''Cache-Control'' (join_names (control_fields s))]) c"
      using False by (simp add: set_cache_control_def Let_def)
    also have "\<dots> = Inr c2" using c1 c2(1) by (auto simp: rbind_Inr_iff split: if_splits)
    finally show ?thesis using c2(2) False by simp
  qed
qed

definition sample_env :: cache_env where
  "sample_env = \<lparr>expires_text = (\<lambda>t. ''Fri, 01 Jan 2021 00:00:00 GMT''), ca_start_date = 1600000000000000, cache_tags = ''Cache-Tag, X-Tags''\<rparr>"

lemma sample_env_ok: "expires_ok sample_env"
proof -
  have "list_all printable_char ''Fri, 01 Jan 2021 00:00:00 GMT''" by code_simp
  then show ?thesis by (simp add: expires_ok_def sample_env_def)
qed

definition sample_controls :: "bool \<Rightarrow> cache_controls" where
  "sample_controls b =
     (let c = new_settings\<lparr>cc_max_age := 3600, cc_public := True\<rparr> in
      \<lparr>client_cache_control = new_settings, page_cache_control = c\<lparr>cc_max_age := 60, cc_no_store := b, cc_tags := [(''news'', ())]\<rparr>,
       server_cache_control = c\<lparr>cc_revalidate_field_names := [(''X-Token'', ())]\<rparr>\<rparr>)"

definition no_response :: response where
  "no_response = \<lparr>r_header = [], r_http_links = [], r_cookies = [], r_ignore_cookies = False, r_written = []\<rparr>"

lemma sample_tags_ok: "tags_ok std_text sample_env (sample_controls b)" "tags_ok std_text sample_env ((sample_controls b)\<lparr>server_cache_control := new_settings\<rparr>)"
  by (cases b; code_simp)+

text \<open>
  C38. A client that reads the Cache-Control header of a response that may be cached, with the parser of the server,
  gets what the page and the server decided: the smaller of their ages, the age for shared caches when it is smaller
  still, immutable and must-revalidate as soon as one of the two asks for it, proxy-revalidate when one of the two does
  and none asks for must-revalidate, private over public, no transformation as soon as one of the three asks for it, and,
  when it is public, the names of all headers not to store in a shared cache or to revalidate. Neither no-store nor
  no-cache is read back: only a response that is not cached has them. The settings hold names of headers
  and ages as their setters leave them; the date of Expires, the tags and the names of their headers are printable.
\<close>

theorem cache_header_read_back:
  assumes "qt_ok q" "settings_ok (page_cache_control s)" "settings_ok (server_cache_control s)" "expires_ok ce" "tags_ok q ce s"
    "\<not> no_caching s"
  shows "\<exists>c'. set_cache_control q ce s c = Inr c' \<and> (let r = client_reads q b c' in
    cc_max_age r = min (cc_max_age (page_cache_control s)) (cc_max_age (server_cache_control s))
    \<and> cc_s_maxage r = (if s_maxage_of s < max_age_of s then s_maxage_of s else IGNORE_VALUE)
    \<and> cc_immutable r = either cc_immutable s \<and> cc_must_revalidate r = (b \<or> either cc_must_revalidate s)
    \<and> cc_proxy_revalidate r = (\<not> either cc_must_revalidate s \<and> either cc_proxy_revalidate s)
    \<and> cc_private r = either cc_private s \<and> cc_public r = (\<not> either cc_private s \<and> either cc_public s)
    \<and> cc_no_transform r = (cc_no_transform (client_cache_control s) \<or> either cc_no_transform s)
    \<and> \<not> cc_no_store r \<and> \<not> cc_no_cache r
    \<and> names_of (cc_private_field_names r) = insert ''Set-Cookie'' (if cc_public r then
        names_of (cc_private_field_names (page_cache_control s)) \<union> names_of (cc_private_field_names (server_cache_control s)) else {})
    \<and> names_of (cc_revalidate_field_names r) = (if cc_public r then
        names_of (cc_revalidate_field_names (page_cache_control s)) \<union> names_of (cc_revalidate_field_names (server_cache_control s)) else {}))"
proof -
  obtain c' where c': "set_cache_control q ce s c = Inr c'"
      "get_header q ''Cache-Control'' c' = join_names (control_fields s)"
    using set_cache_control_returns [OF assms(1-5)] by blast
  note r = cached_info [OF assms(1-3,6) refl, folded c'(2), folded client_reads_def]
  show ?thesis
    using c'(1) r by (intro exI [of _ c']) (simp add: Let_def public_data_def all_names_def merge_names)
qed

lemma cache_header_read_back_witness:
  "\<exists>c'. set_cache_control std_text sample_env (sample_controls False) no_response = Inr c'
    \<and> (let r = client_reads std_text False c' in cc_max_age r = 60 \<and> cc_public r \<and> cc_must_revalidate r
        \<and> ''X-Token'' \<in> names_of (cc_revalidate_field_names r))"
proof -
  have c: "settings_ok (page_cache_control (sample_controls False))" "settings_ok (server_cache_control (sample_controls False))"
    "\<not> no_caching (sample_controls False)" by code_simp+
  have f: "\<not> either cc_private (sample_controls False) \<and> either cc_public (sample_controls False)"
    "either cc_must_revalidate (sample_controls False)"
    "min (cc_max_age (page_cache_control (sample_controls False))) (cc_max_age (server_cache_control (sample_controls False))) = 60"
    "cc_revalidate_field_names (server_cache_control (sample_controls False)) = [(''X-Token'', ())]" by code_simp+
  show ?thesis
    using cache_header_read_back [OF qt_ok_std c(1,2) sample_env_ok sample_tags_ok(1) c(3), of no_response False] f
    by (auto simp: Let_def names_of_def)
qed

text \<open>
  A response that is not cached tells so: its Cache-Control header reads back as no-cache and private, with
  no-store as soon as the client, the page or the server asks for it, and HTTP/1.0 clients get Pragma and a date of
  the past.
\<close>

theorem uncached_header_read_back:
  assumes "qt_ok q" "settings_ok (page_cache_control s)" "settings_ok (server_cache_control s)" "expires_ok ce" "tags_ok q ce s"
    "no_caching s"
  shows "\<exists>c'. set_cache_control q ce s c = Inr c' \<and> (let r = client_reads q b c' in
    cc_no_cache r \<and> cc_private r \<and> \<not> cc_public r \<and> cc_max_age r = 0
    \<and> cc_no_store r = (cc_no_store (client_cache_control s) \<or> either cc_no_store s))
    \<and> get_header q ''Pragma'' c' = ''no-cache'' \<and> get_header q ''Expires'' c' = ''Sat, 01 Jan 2000 00:00:00 GMT''"
proof -
  obtain c' where c': "set_cache_control q ce s c = Inr c'"
      "get_header q ''Cache-Control'' c' = join_names (control_fields s)"
      "get_header q ''Pragma'' c' = ''no-cache''" "get_header q ''Expires'' c' = ''Sat, 01 Jan 2000 00:00:00 GMT''"
    using set_cache_control_returns [OF assms(1-5)] assms(6) by blast
  note r = not_cached_info [OF assms(1-3,6) refl, folded c'(2), folded client_reads_def]
  show ?thesis using c' r by (intro exI [of _ c']) (simp add: Let_def)
qed

lemma uncached_header_sample:
  "\<exists>c'. set_cache_control std_text sample_env
      ((sample_controls True)\<lparr>server_cache_control := new_settings\<rparr>) no_response = Inr c'
    \<and> cc_no_store (client_reads std_text True c') \<and> get_header std_text ''Pragma'' c' = ''no-cache''"
proof -
  let ?s = "(sample_controls True)\<lparr>server_cache_control := new_settings\<rparr>"
  have c: "settings_ok (page_cache_control ?s)" "settings_ok (server_cache_control ?s)" "no_caching ?s"
    "either cc_no_store ?s" by code_simp+
  show ?thesis
    using uncached_header_read_back [OF qt_ok_std c(1,2) sample_env_ok sample_tags_ok(2) c(3), of no_response] c(4)
    by (auto simp: Let_def)
qed

text \<open>
  C39. The no-store of a page is lost on a server that caches: when the ages of the page and of the server are positive,
  the page does not ask for no-cache nor the server for no-store, the server is public and neither of them
  is private, a page that must not be stored is sent with a header that says public and allows every shared cache to
  store it for a time, with neither no-store nor no-cache. The settings, the date of Expires and the tags are as in the
  property above.
\<close>

theorem page_no_store_lost:
  assumes "qt_ok q" "settings_ok (page_cache_control s)" "settings_ok (server_cache_control s)" "expires_ok ce" "tags_ok q ce s"
    "\<not> no_caching s" "cc_no_store (page_cache_control s)" "cc_public (server_cache_control s)" "\<not> either cc_private s"
  shows "\<exists>c'. set_cache_control q ce s c = Inr c' \<and> (let r = client_reads q b c' in
    \<not> cc_no_store r \<and> \<not> cc_no_cache r \<and> cc_public r \<and> cc_max_age r > 0)"
proof -
  obtain c' where c': "set_cache_control q ce s c = Inr c'"
      "get_header q ''Cache-Control'' c' = join_names (control_fields s)"
    using set_cache_control_returns [OF assms(1-5)] by blast
  note r = cached_info [OF assms(1-3,6) refl, folded c'(2), folded client_reads_def]
  have "public_data s" using assms(8,9) by (simp add: public_data_def either_def)
  then show ?thesis
    using c'(1) r cached_ages [OF assms(2,3,6)] by (intro exI [of _ c']) (simp add: Let_def)
qed

lemma page_no_store_lost_witness:
  "\<exists>c'. set_cache_control std_text sample_env (sample_controls True) no_response = Inr c'
    \<and> (let r = client_reads std_text True c' in \<not> cc_no_store r \<and> \<not> cc_no_cache r \<and> cc_public r \<and> cc_max_age r > 0)"
  by (rule page_no_store_lost [OF qt_ok_std _ _ sample_env_ok sample_tags_ok(1)]) code_simp+

section \<open>The operations on settings\<close>

datatype cache_operation =
    Cache_info string bool | Cache_reset
  | Max_age int | Max_age_text string | Update_max_age int
  | S_maxage int | S_maxage_text string | Update_s_maxage int
  | Max_stale int | Max_stale_text string | Min_fresh int | Min_fresh_text string
  | Revalidate_field string | Private_field string | Tag string

fun operate :: "qt_env \<Rightarrow> cache_operation \<Rightarrow> cache_control_settings \<Rightarrow> cache_control_settings" where
  "operate q (Cache_info info internal) = set_cache_info q info internal"
| "operate q Cache_reset = reset_cache_info"
| "operate q (Max_age n) = set_max_age n"
| "operate q (Max_age_text s) = set_max_age_string s"
| "operate q (Update_max_age n) = update_max_age n"
| "operate q (S_maxage n) = set_s_maxage n"
| "operate q (S_maxage_text s) = set_s_maxage_string s"
| "operate q (Update_s_maxage n) = update_s_maxage n"
| "operate q (Max_stale n) = set_max_stale n"
| "operate q (Max_stale_text s) = set_max_stale_string s"
| "operate q (Min_fresh n) = set_min_fresh n"
| "operate q (Min_fresh_text s) = set_min_fresh_string s"
| "operate q (Revalidate_field n) = add_revalidate_field_name q n"
| "operate q (Private_field n) = add_private_field_name q n"
| "operate q (Tag n) = add_tag n"

text \<open>The number of an update is an age or the mark of no value; those of the other operations are any numbers.\<close>

definition update_not_negative :: "cache_operation \<Rightarrow> bool" where
  "update_not_negative op \<longleftrightarrow> (case op of Update_max_age n \<Rightarrow> IGNORE_VALUE \<le> n | Update_s_maxage n \<Rightarrow> IGNORE_VALUE \<le> n | _ \<Rightarrow> True)"

lemma operate_ages:
  assumes "ages_ok c" "update_not_negative op"
  shows "ages_ok (operate q op c)"
proof -
  have m: "age_ok (minimum a (if n > AGE_MAXIMUM then AGE_MAXIMUM else n))" "age_ok (minimum a (if n \<ge> AGE_MAXIMUM then AGE_MAXIMUM else n))"
    if "age_ok a" "IGNORE_VALUE \<le> n" for a n
    by (rule minimum_ok; use that in \<open>simp add: age_ok_def IGNORE_VALUE_def AGE_MAXIMUM_def\<close>)+
  have z: "age_ok 0" "age_ok IGNORE_VALUE" by (simp_all add: age_ok_def IGNORE_VALUE_def AGE_MAXIMUM_def)
  show ?thesis
    using assms m z set_cache_info_ages clamp_age_ok string_to_seconds_ok
    by (cases op)
      (simp_all add: update_not_negative_def ages_ok_def set_max_age_def set_max_age_string_def update_max_age_def
        set_s_maxage_def set_s_maxage_string_def update_s_maxage_def set_max_stale_def set_max_stale_string_def
        set_min_fresh_def set_min_fresh_string_def add_revalidate_field_name_def add_private_field_name_def add_tag_def
        reset_cache_info_def)
qed

text \<open>
  C40. The ages of cache settings stay between the mark of no value and one year: after any operations on new settings,
  reading any Cache-Control texts, setting the ages to any numbers or texts, resetting them, adding names and tags
  and lowering the ages, as long as no age is lowered to a negative number other than the mark of no value.
\<close>

theorem ages_bounded:
  assumes "list_all update_not_negative ops"
  shows "ages_ok (fold (operate q) ops new_settings)"
proof -
  have "ages_ok c \<Longrightarrow> list_all update_not_negative ops \<Longrightarrow> ages_ok (fold (operate q) ops c)" for c
    by (induction ops arbitrary: c) (simp_all add: operate_ages)
  moreover have "ages_ok new_settings" by code_simp
  ultimately show ?thesis using assms by blast
qed

lemma ages_bounded_witness:
  "ages_ok (fold (operate std_text) [Cache_info ''max-age=9999999999, s-maxage=x'' False, Update_max_age 90, S_maxage (-7)] new_settings)"
  by (rule ages_bounded) (simp add: update_not_negative_def IGNORE_VALUE_def)

text \<open>An update with a negative number is not clamped.\<close>

lemma negative_age_kept: "cc_max_age (update_max_age (-2) new_settings) = -2"
  by code_simp

text \<open>
  Languages and encodings are tried in the order the client prefers: sorting the parts of any weighted text
  gives the same parts, by decreasing level, those of the same level in the order they were sent.
\<close>

theorem sorted_as_preferred:
  "let w = new_weighted q str; ps = w_parts (sort_by_level w) in
   sorted_wrt (\<lambda>p p'. \<not> level_less (p_level p) (p_level p')) ps \<and> mset ps = mset (w_parts w)
   \<and> filter (\<lambda>p. p_level p = l) ps = filter (\<lambda>p. p_level p = l) (w_parts w)"
proof -
  have "levels_ok (w_parts (new_weighted q str))"
    using parse_parts_level [of _ q "c_str str"]
    by (auto simp: levels_ok_def new_weighted_def parse_weighted_def empty_weighted_def Let_def split: prod.splits)
  then show ?thesis
    using sorted_by_level [of "w_parts (new_weighted q str)" l] by (simp add: Let_def sort_by_level_def by_level_def)
qed

end
