(* ===== verification/CommLoop.thy ===== *)
theory CommLoop
  imports SnapPrelude
begin

text \<open>
  The event loop: the timers of \<open>snap_communicator::snap_connection\<close> and \<open>snap_communicator::run\<close>
  (\<open>libsnapwebsites/src/snapwebsites/snap_communicator.cpp\<close>). Connections are shared pointers in the code: the
  model keeps them in \<open>lp_heap\<close>, by address. What the virtual functions of a connection answer are fields of its
  record; its callbacks are one function of the event, the address and the state, which may change everything.
\<close>

section \<open>Connections\<close>

record event_connection =
  ec_enabled :: bool
  ec_listener :: bool
  ec_signal :: bool
  ec_reader :: bool
  ec_writer :: bool
  ec_socket :: int
  ec_priority :: int
  ec_timeout_delay :: int
  ec_timeout_next_date :: int
  ec_timeout_date :: int
  ec_saved_timeout_stamp :: int
  ec_fds_position :: int

definition EVENT_MAX_PRIORITY :: int where "EVENT_MAX_PRIORITY = 255"

text \<open>Dates are in microseconds; \<open>now\<close> is what \<open>get_current_date\<close> returns.\<close>

definition set_timeout_delay :: "int \<Rightarrow> int \<Rightarrow> event_connection \<Rightarrow> event_connection res" where
  "set_timeout_delay now timeout_us c =
     (if timeout_us \<noteq> -1 \<and> timeout_us < 10 then Inl Parameter_error
      else Inr (c\<lparr>ec_timeout_delay := timeout_us, ec_timeout_next_date := now + timeout_us\<rparr>))"

definition calculate_next_tick :: "int \<Rightarrow> event_connection \<Rightarrow> event_connection" where
  "calculate_next_tick now c =
     (if ec_timeout_delay c = -1 then c
      else
        let gap = now - ec_timeout_next_date c in
        if gap < 0 then c
        else c\<lparr>ec_timeout_next_date := ec_timeout_next_date c
          + (gap + ec_timeout_delay c - 1) div ec_timeout_delay c * ec_timeout_delay c\<rparr>)"

definition set_connection_date :: "int \<Rightarrow> event_connection \<Rightarrow> event_connection res" where
  "set_connection_date date_us c =
     (if date_us < -1 then Inl Parameter_error else Inr (c\<lparr>ec_timeout_date := date_us\<rparr>))"

definition get_timeout_timestamp :: "event_connection \<Rightarrow> int" where
  "get_timeout_timestamp c =
     (if ec_timeout_date c \<noteq> -1 then ec_timeout_date c
      else if ec_timeout_delay c \<noteq> -1 then ec_timeout_next_date c
      else -1)"

section \<open>The communicator\<close>

record loop =
  lp_connections :: "nat list"
  lp_heap :: "nat \<Rightarrow> event_connection"
  lp_force_sort :: bool

definition with_connection :: "nat \<Rightarrow> (event_connection \<Rightarrow> event_connection) \<Rightarrow> 'a loop_scheme \<Rightarrow> 'a loop_scheme" where
  "with_connection a f s = s\<lparr>lp_heap := (lp_heap s)(a := f (lp_heap s a))\<rparr>"

definition set_priority :: "nat \<Rightarrow> int \<Rightarrow> 'a loop_scheme \<Rightarrow> ('a loop_scheme) res" where
  "set_priority a p s =
     (if p < 0 \<or> p > EVENT_MAX_PRIORITY then Inl Parameter_error
      else Inr ((with_connection a (\<lambda>c. c\<lparr>ec_priority := p\<rparr>) s)\<lparr>lp_force_sort := True\<rparr>))"

text \<open>\<open>std::stable_sort\<close> by priority.\<close>

fun insert_connection :: "(nat \<Rightarrow> int) \<Rightarrow> nat \<Rightarrow> nat list \<Rightarrow> nat list" where
  "insert_connection p a [] = [a]"
| "insert_connection p a (a' # as) = (if p a' < p a then a' # insert_connection p a as else a # a' # as)"

definition sort_connections :: "'a loop_scheme \<Rightarrow> 'a loop_scheme" where
  "sort_connections s =
     (if lp_force_sort s then
        s\<lparr>lp_connections := foldr (insert_connection (\<lambda>a. ec_priority (lp_heap s a))) (lp_connections s) [], lp_force_sort := False\<rparr>
      else s)"

section \<open>Waiting\<close>

datatype poll_flag = POLLIN | POLLPRI | POLLOUT | POLLRDHUP | POLLERR | POLLHUP | POLLNVAL

definition wanted_events :: "event_connection \<Rightarrow> poll_flag list" where
  "wanted_events c =
     (if ec_listener c \<or> ec_signal c then [POLLIN] else [])
     @ (if ec_reader c then [POLLIN, POLLPRI, POLLRDHUP] else [])
     @ (if ec_writer c then [POLLOUT, POLLRDHUP] else [])"

text \<open>
  The first loop over the connections: which are enabled, the descriptors to wait for with their events, and the next
  timeout, None when there is none.
\<close>

record waiting =
  wt_enabled :: "bool list"
  wt_fds :: "(int \<times> poll_flag list) list"
  wt_next_timeout :: "int option"

definition earlier :: "int \<Rightarrow> int option \<Rightarrow> int option" where
  "earlier timestamp next =
     (if timestamp = -1 then next
      else (case next of None \<Rightarrow> Some timestamp | Some t \<Rightarrow> Some (if timestamp < t then timestamp else t)))"

definition wait_one :: "nat \<Rightarrow> waiting \<times> 'a loop_scheme \<Rightarrow> waiting \<times> 'a loop_scheme" where
  "wait_one a = (\<lambda>(w, s).
     let c = lp_heap s a; w = w\<lparr>wt_enabled := wt_enabled w @ [ec_enabled c]\<rparr>; s = with_connection a (\<lambda>c. c\<lparr>ec_fds_position := -1\<rparr>) s in
     if \<not> ec_enabled c then (w, s)
     else
       let timestamp = get_timeout_timestamp c;
           s = with_connection a (\<lambda>c. c\<lparr>ec_saved_timeout_stamp := timestamp\<rparr>) s;
           w = w\<lparr>wt_next_timeout := earlier timestamp (wt_next_timeout w)\<rparr> in
       if wanted_events c = [] \<or> ec_socket c < 0 then (w, s)
       else (w\<lparr>wt_fds := wt_fds w @ [(ec_socket c, wanted_events c)]\<rparr>,
             with_connection a (\<lambda>c. c\<lparr>ec_fds_position := int (length (wt_fds w))\<rparr>) s))"

definition prepare_wait :: "'a loop_scheme \<Rightarrow> waiting \<times> 'a loop_scheme" where
  "prepare_wait s =
     fold wait_one (lp_connections s) (\<lparr>wt_enabled = [], wt_fds = [], wt_next_timeout = None\<rparr>, s)"

text \<open>
  The timeout for \<open>poll\<close> in milliseconds, -1 for none. It is a 64-bit value which \<open>poll\<close> takes as an \<open>int\<close>: its upper
  32 bits are lost.
\<close>

definition poll_timeout :: "int \<Rightarrow> int option \<Rightarrow> int" where
  "poll_timeout now next =
     int32 (case next of
        None \<Rightarrow> -1
      | Some t \<Rightarrow>
          let timeout = t - now in
          if timeout < 0 then 0 else if timeout div 1000 = 0 then 1 else timeout div 1000)"

section \<open>Events\<close>

datatype loop_event = Process_signal | Process_accept | Process_read | Process_write | Process_error | Process_hup | Process_invalid
  | Process_timeout

type_synonym 's event_callback = "loop_event \<Rightarrow> nat \<Rightarrow> 's \<Rightarrow> 's"

text \<open>A callback that runs is recorded.\<close>

type_synonym 's traced = "(loop_event \<times> nat) list \<times> 's"

definition call :: "'s event_callback \<Rightarrow> loop_event \<Rightarrow> nat \<Rightarrow> 's traced \<Rightarrow> 's traced" where
  "call cb e a = (\<lambda>(tr, s). (tr @ [(e, a)], cb e a s))"

definition call_if :: "bool \<Rightarrow> 's event_callback \<Rightarrow> loop_event \<Rightarrow> nat \<Rightarrow> 's traced \<Rightarrow> 's traced" where
  "call_if b cb e a t = (if b then call cb e a t else t)"

definition input_event :: "event_connection \<Rightarrow> loop_event" where
  "input_event c = (if ec_signal c then Process_signal else if ec_listener c then Process_accept else Process_read)"

definition run_revents :: "('a loop_scheme) event_callback \<Rightarrow> poll_flag list \<Rightarrow> nat \<Rightarrow> ('a loop_scheme) traced \<Rightarrow> ('a loop_scheme) traced" where
  "run_revents cb revents a t0 =
     (let t = call_if (POLLIN \<in> set revents \<or> POLLPRI \<in> set revents) cb (input_event (lp_heap (snd t0) a)) a t0;
          t = call_if (POLLOUT \<in> set revents) cb Process_write a t;
          t = call_if (POLLERR \<in> set revents) cb Process_error a t;
          t = call_if (POLLHUP \<in> set revents \<or> POLLRDHUP \<in> set revents) cb Process_hup a t in
      call_if (POLLNVAL \<in> set revents) cb Process_invalid a t)"

text \<open>
  What the system answers in one turn: the date before \<open>poll\<close>, whether \<open>poll\<close> failed, the events of each descriptor,
  and for each connection the dates at which its timeout is looked at and its next tick calculated.
\<close>

datatype poll_errno = EINTR | EFAULT | EINVAL | ENOMEM | Other_errno

record turn =
  tn_now :: int
  tn_errno :: "poll_errno option"
  tn_revents :: "poll_flag list list"
  tn_date :: "nat \<Rightarrow> int"
  tn_tick_date :: "nat \<Rightarrow> int"

definition run_timeout :: "('a loop_scheme) event_callback \<Rightarrow> turn \<Rightarrow> nat \<Rightarrow> nat \<Rightarrow> ('a loop_scheme) traced \<Rightarrow> ('a loop_scheme) traced" where
  "run_timeout cb tn i a = (\<lambda>(tr, s).
     let timestamp = ec_saved_timeout_stamp (lp_heap s a); now = tn_date tn i in
     if timestamp \<noteq> -1 \<and> now \<ge> timestamp then
       call cb Process_timeout a
         (tr, with_connection a (\<lambda>c. let c = calculate_next_tick (tn_tick_date tn i) c in
            if now \<ge> ec_timeout_date c then c\<lparr>ec_timeout_date := -1\<rparr> else c) s)
     else (tr, s))"

text \<open>The answer of \<open>poll\<close> has one list of events for each descriptor.\<close>

definition run_one :: "('a loop_scheme) event_callback \<Rightarrow> turn \<Rightarrow> bool list \<Rightarrow> nat \<times> nat \<Rightarrow> ('a loop_scheme) traced \<Rightarrow> ('a loop_scheme) traced" where
  "run_one cb tn enabled = (\<lambda>(i, a) t.
     if \<not> enabled ! i then t
     else
       let p = ec_fds_position (lp_heap (snd t) a) in
       run_timeout cb tn i a (if p \<ge> 0 then run_revents cb (tn_revents tn ! nat p) a t else t))"

definition poll_exception :: "poll_errno \<Rightarrow> exn" where
  "poll_exception e = (if e = EFAULT \<or> e = EINVAL then Parameter_error else Communicator_runtime_error)"

text \<open>One turn of the loop: \<open>run\<close> returns, throws or goes on.\<close>

datatype 's outcome = Returned bool | Thrown exn | Going_on "'s traced"

definition run_turn :: "('a loop_scheme) event_callback \<Rightarrow> turn \<Rightarrow> 'a loop_scheme \<Rightarrow> ('a loop_scheme) outcome" where
  "run_turn cb tn s =
     (if lp_connections s = [] then Returned True
      else
        let s = sort_connections s; (w, s') = prepare_wait s in
        if wt_next_timeout w = None \<and> wt_fds w = [] then Returned False
        else (case tn_errno tn of
            Some e \<Rightarrow> Thrown (poll_exception e)
          | None \<Rightarrow> Going_on (fold (run_one cb tn (wt_enabled w)) (enumerate 0 (lp_connections s)) ([], s'))))"

text \<open>Turns until \<open>run\<close> returns or throws, or the answers of the system end.\<close>

fun run_loop :: "('a loop_scheme) event_callback \<Rightarrow> turn list \<Rightarrow> ('a loop_scheme) traced \<Rightarrow> (bool res) option \<times> ('a loop_scheme) traced" where
  "run_loop cb [] t = (None, t)"
| "run_loop cb (tn # tns) t =
     (case run_turn cb tn (snd t) of
        Returned b \<Rightarrow> (Some (Inr b), t)
      | Thrown e \<Rightarrow> (Some (Inl e), t)
      | Going_on t' \<Rightarrow> run_loop cb tns (fst t @ fst t', snd t'))"

definition run_communicator :: "('a loop_scheme) event_callback \<Rightarrow> turn list \<Rightarrow> 'a loop_scheme \<Rightarrow> (bool res) option \<times> ('a loop_scheme) traced" where
  "run_communicator cb tns s = run_loop cb tns ([], s\<lparr>lp_force_sort := True\<rparr>)"

end
