(* ===== verification/CommBuffer.thy ===== *)
theory CommBuffer
  imports CommText
begin

text \<open>
  Connections with buffers and the messages they carry: the classes \<open>snap_pipe_buffer_connection\<close>,
  \<open>snap_fd_buffer_connection\<close>, \<open>snap_tcp_client_buffer_connection\<close>, \<open>snap_tcp_server_client_buffer_connection\<close>
  (whose code is the same but for what \<open>buffer_kind\<close> tells apart) and the message connections derived from them
  (\<open>libsnapwebsites/src/snapwebsites/snap_communicator.cpp\<close>). A text is its UTF-8 form, of which \<open>toUtf8\<close> and
  \<open>fromUtf8\<close> change nothing.
\<close>

section \<open>State\<close>

datatype buffer_kind = Pipe | File_descriptor | Tcp_client | Tcp_server_client

text \<open>
  \<open>b_open\<close> is \<open>get_socket() != -1\<close>; a file descriptor is given to be read from, written to, or both. What a class
  derived from the connection adds is in the extension of the record.
\<close>

record buffer =
  b_kind :: buffer_kind
  b_open :: bool
  b_read_mode :: bool
  b_write_mode :: bool
  b_line :: string
  b_output :: string
  b_position :: nat
  b_event_limit :: int
  b_processing_time_limit :: int

definition can_read :: "('a buffer_scheme) \<Rightarrow> bool" where
  "can_read b \<longleftrightarrow> b_open b \<and> (b_kind b = File_descriptor \<longrightarrow> b_read_mode b)"

definition can_write :: "('a buffer_scheme) \<Rightarrow> bool" where
  "can_write b \<longleftrightarrow> b_open b \<and> (b_kind b = File_descriptor \<longrightarrow> b_write_mode b)"

text \<open>The virtual functions.\<close>

record 'b callbacks =
  on_line :: "string \<Rightarrow> 'b \<Rightarrow> 'b"
  on_error :: "'b \<Rightarrow> 'b"
  on_empty_buffer :: "'b \<Rightarrow> 'b"
  on_hup :: "'b \<Rightarrow> 'b"

text \<open>
  What the kernel answers: to \<open>read\<close> up to 1024 bytes, and the date at which they are processed, or nothing for now
  (0, EAGAIN), or an error; to \<open>write\<close> the number of bytes it took.
\<close>

datatype read_answer = Received string int | No_data | Read_failed

datatype write_answer = Written nat | Would_block | Write_failed

section \<open>Reading\<close>

text \<open>One buffer of data: the number of lines and the connection behind them.\<close>

definition line_end :: "char \<Rightarrow> bool" where
  "line_end c \<longleftrightarrow> c = CHR 0x0A"

function take_lines :: "(string \<Rightarrow> ('a buffer_scheme) \<Rightarrow> 'a buffer_scheme) \<Rightarrow> string \<Rightarrow> 'a buffer_scheme \<Rightarrow> int \<times> 'a buffer_scheme" where
  "take_lines f d b =
     (let l = takeWhile (\<lambda>c. \<not> line_end c) d; r = dropWhile (\<lambda>c. \<not> line_end c) d;
          b1 = b\<lparr>b_line := b_line b @ l\<rparr> in
      if r = [] then (0, b1)
      else (case take_lines f (tl r) ((f (takeWhile (\<lambda>c. c \<noteq> CHR 0x00) (b_line b1)) b1)\<lparr>b_line := []\<rparr>) of
          (n, b2) \<Rightarrow> (n + 1, b2)))"
  by pat_completeness auto

termination
proof (relation "measure (\<lambda>(f, d, b). length d)")
  fix d :: string and f :: "string \<Rightarrow> ('a buffer_scheme) \<Rightarrow> 'a buffer_scheme" and b :: "'a buffer_scheme" and l r b1
  assume "r = dropWhile (\<lambda>c. \<not> line_end c) d" "r \<noteq> []"
  then have "length (tl r) < length r" "length r \<le> length d" by (simp_all add: length_dropWhile_le)
  then show "((f, tl r, (f (takeWhile (\<lambda>c. c \<noteq> CHR 0x00) (b_line b1)) b1)\<lparr>b_line := []\<rparr>), f, d, b) \<in> measure (\<lambda>(f, d, b). length d)"
    by simp
qed simp

declare take_lines.simps [simp del]

fun read_loop :: "('a buffer_scheme) callbacks \<Rightarrow> int \<Rightarrow> int \<Rightarrow> read_answer list \<Rightarrow> 'a buffer_scheme \<Rightarrow> 'a buffer_scheme \<times> read_answer list"
where
  "read_loop cb date_limit count [] b = (b, [])"
| "read_loop cb date_limit count (a # as) b =
     (if \<not> can_read b then (on_error cb b, a # as)
      else (case a of
          Received d now \<Rightarrow>
            let (n, b1) = take_lines (on_line cb) d b in
            if count + n \<ge> b_event_limit b1 \<or> now \<ge> date_limit then (b1, as)
            else read_loop cb date_limit (count + n) as b1
        | No_data \<Rightarrow> (b, as)
        | Read_failed \<Rightarrow> (on_error cb b, as)))"

text \<open>\<open>now\<close> is the date at the start. The answers that were not asked for are returned.\<close>

definition process_read :: "('a buffer_scheme) callbacks \<Rightarrow> int \<Rightarrow> read_answer list \<Rightarrow> 'a buffer_scheme \<Rightarrow> 'a buffer_scheme \<times> read_answer list"
where
  "process_read cb now as b =
     (if b_open b then read_loop cb (now + b_processing_time_limit b) 0 as b else (b, as))"

section \<open>Writing\<close>

definition buffer_has_input :: "('a buffer_scheme) \<Rightarrow> bool" where
  "buffer_has_input b \<longleftrightarrow> b_line b \<noteq> []"

definition buffer_has_output :: "('a buffer_scheme) \<Rightarrow> bool" where
  "buffer_has_output b \<longleftrightarrow> b_output b \<noteq> []"

definition is_writer :: "('a buffer_scheme) \<Rightarrow> bool" where
  "is_writer b \<longleftrightarrow> buffer_has_output b \<and> can_write b"

definition buffer_write :: "string \<Rightarrow> ('a buffer_scheme) \<Rightarrow> int \<times> ('a buffer_scheme)" where
  "buffer_write data b =
     (if \<not> can_write b then (-1, b)
      else if data \<noteq> [] then (int (length data), b\<lparr>b_output := b_output b @ data\<rparr>)
      else (0, b))"

text \<open>The bytes that were given to the kernel, and the connection.\<close>

definition process_write :: "('a buffer_scheme) callbacks \<Rightarrow> write_answer \<Rightarrow> 'a buffer_scheme \<Rightarrow> string \<times> 'a buffer_scheme" where
  "process_write cb a b =
     (if \<not> b_open b then ([], b)
      else if \<not> can_write b then ([], on_error cb b)
      else (case a of
          Written r \<Rightarrow>
            if r = 0 then ([], b)
            else
              let sent = take r (drop (b_position b) (b_output b)); b1 = b\<lparr>b_position := b_position b + r\<rparr> in
              (sent, if b_position b1 \<ge> length (b_output b1) then on_empty_buffer cb (b1\<lparr>b_output := [], b_position := 0\<rparr>) else b1)
        | Would_block \<Rightarrow> ([], b)
        | Write_failed \<Rightarrow> ([], on_error cb b)))"

definition process_hup :: "('a buffer_scheme) callbacks \<Rightarrow> 'a buffer_scheme \<Rightarrow> 'a buffer_scheme" where
  "process_hup cb b = on_hup cb (if b_kind b = File_descriptor then b else b\<lparr>b_open := False\<rparr>)"

section \<open>Messages\<close>

definition connection_send_message :: "env \<Rightarrow> message \<Rightarrow> 'a buffer_scheme \<Rightarrow> (bool \<times> 'a buffer_scheme) res" where
  "connection_send_message E m b =
     rbind (to_message E m) (\<lambda>msg.
       let buf = msg @ [CHR 0x0A]; (r, b) = buffer_write buf b in Inr (r = int (length buf), b))"

definition process_line :: "env \<Rightarrow> (message \<Rightarrow> 'b \<Rightarrow> 'b) \<Rightarrow> string \<Rightarrow> 'b \<Rightarrow> 'b" where
  "process_line E dispatch line b =
     (if line = [] then b
      else (case from_message E line empty_message of (ok, m) \<Rightarrow> if ok then dispatch m b else b))"

end
