(* ===== verification/CommPermanent.thy ===== *)
theory CommPermanent
  imports CommLoop CommBuffer
begin

text \<open>
  A connection that is made again when it is lost: \<open>snap_tcp_client_permanent_message_connection\<close> and its
  implementation (\<open>libsnapwebsites/src/snapwebsites/snap_communicator.cpp\<close>), a timer that tries to connect, directly
  or in a thread, and keeps the messages sent in the meantime.
\<close>

section \<open>State\<close>

text \<open>
  \<open>pm_timer\<close> is the connection as the event loop sees it, \<open>pm_registered\<close> whether the loop still has it,
  \<open>pm_thread\<close> whether the thread runs, \<open>pm_messenger\<close> the connection to the other end.
\<close>

record permanent =
  pm_timer :: event_connection
  pm_registered :: bool
  pm_done :: bool
  pm_impl_done :: bool
  pm_thread :: bool
  pm_messenger :: "buffer option"
  pm_message_cache :: "message list"
  pm_pause :: int
  pm_use_thread :: bool

definition set_enable :: "bool \<Rightarrow> permanent \<Rightarrow> permanent" where
  "set_enable b p = p\<lparr>pm_timer := (pm_timer p)\<lparr>ec_enabled := b\<rparr>\<rparr>"

definition snap_timer :: "int \<Rightarrow> int \<Rightarrow> event_connection \<Rightarrow> event_connection res" where
  "snap_timer now timeout_us c =
     (if timeout_us = 0 then set_connection_date now c else set_timeout_delay now timeout_us c)"

definition new_connection_record :: event_connection where
  "new_connection_record =
     \<lparr>ec_enabled = True, ec_listener = False, ec_signal = False, ec_reader = False, ec_writer = False, ec_socket = -1,
      ec_priority = 100, ec_timeout_delay = -1, ec_timeout_next_date = -1, ec_timeout_date = -1,
      ec_saved_timeout_stamp = -1, ec_fds_position = -1\<rparr>"

definition new_permanent :: "int \<Rightarrow> int \<Rightarrow> bool \<Rightarrow> permanent res" where
  "new_permanent now pause use_thread =
     rbind (snap_timer now (if pause < 0 then - pause else 0) new_connection_record) (\<lambda>c.
       Inr \<lparr>pm_timer = c, pm_registered = True, pm_done = False, pm_impl_done = False, pm_thread = False,
         pm_messenger = None, pm_message_cache = [], pm_pause = \<bar>pause\<bar>, pm_use_thread = use_thread\<rparr>)"

section \<open>Messages\<close>

definition permanent_is_connected :: "permanent \<Rightarrow> bool" where
  "permanent_is_connected p \<longleftrightarrow> pm_messenger p \<noteq> None"

definition permanent_send_message :: "env \<Rightarrow> message \<Rightarrow> bool \<Rightarrow> permanent \<Rightarrow> (bool \<times> permanent) res" where
  "permanent_send_message E m cache p =
     (case pm_messenger p of
        Some b \<Rightarrow> rbind (connection_send_message E m b) (\<lambda>(ok, b). Inr (ok, p\<lparr>pm_messenger := Some b\<rparr>))
      | None \<Rightarrow>
          Inr (False, if cache \<and> \<not> pm_impl_done p then p\<lparr>pm_message_cache := pm_message_cache p @ [m]\<rparr> else p))"

fun send_cache :: "env \<Rightarrow> message list \<Rightarrow> buffer \<Rightarrow> buffer res" where
  "send_cache E [] b = Inr b"
| "send_cache E (m # ms) b = rbind (connection_send_message E m b) (\<lambda>(ok, b). send_cache E ms b)"

section \<open>Connecting\<close>

text \<open>\<open>client\<close> is the connection the attempt made, with an empty buffer, or None when it failed.\<close>

definition process_connection_failed :: "permanent \<Rightarrow> permanent" where
  "process_connection_failed p = set_enable True p"

definition permanent_connected :: "permanent \<Rightarrow> permanent" where
  "permanent_connected p = set_enable False p"

definition thread_done :: "env \<Rightarrow> buffer option \<Rightarrow> permanent \<Rightarrow> permanent res" where
  "thread_done E client p0 =
     (let p = p0\<lparr>pm_thread := False\<rparr> in
      if pm_impl_done p then Inr p
      else (case client of
          None \<Rightarrow> Inr (process_connection_failed p)
        | Some b \<Rightarrow> rbind (send_cache E (pm_message_cache p) b) (\<lambda>b.
            Inr (permanent_connected (p\<lparr>pm_messenger := Some b, pm_message_cache := []\<rparr>)))))"

definition connect :: "env \<Rightarrow> buffer option \<Rightarrow> permanent \<Rightarrow> permanent res" where
  "connect E client p = (if pm_impl_done p then Inr p else thread_done E client p)"

text \<open>\<open>started\<close> is whether the thread could be started.\<close>

definition background_connect :: "bool \<Rightarrow> permanent \<Rightarrow> bool \<times> permanent" where
  "background_connect started p =
     (if pm_impl_done p \<or> pm_thread p then (False, p) else (started, p\<lparr>pm_thread := started\<rparr>))"

definition permanent_timeout :: "env \<Rightarrow> int \<Rightarrow> bool \<Rightarrow> buffer option \<Rightarrow> permanent \<Rightarrow> permanent res" where
  "permanent_timeout E now started client p0 =
     (if pm_done p0 then Inr p0
      else
        rbind (if pm_pause p0 > 0 then
            rbind (set_timeout_delay now (pm_pause p0) (pm_timer p0)) (\<lambda>c. Inr (p0\<lparr>pm_timer := c, pm_pause := 0\<rparr>))
          else Inr p0)
          (\<lambda>p. if pm_use_thread p then
              (case background_connect started p of (ok, p) \<Rightarrow> Inr (if ok then set_enable False p else p))
            else connect E client p))"

section \<open>Losing the connection\<close>

definition disconnect :: "permanent \<Rightarrow> permanent" where
  "disconnect p = p\<lparr>pm_messenger := None\<rparr>"

text \<open>\<open>process_error\<close>, \<open>process_hup\<close> and \<open>process_invalid\<close> are the same.\<close>

definition connection_removed :: "permanent \<Rightarrow> permanent" where
  "connection_removed p = disconnect p"

definition remove_permanent :: "permanent \<Rightarrow> permanent" where
  "remove_permanent p = (if pm_registered p then connection_removed (p\<lparr>pm_registered := False\<rparr>) else p)"

text \<open>The messenger tells when its buffer is empty.\<close>

definition permanent_empty_buffer :: "permanent \<Rightarrow> permanent" where
  "permanent_empty_buffer p = (if pm_done p then remove_permanent p else p)"

definition connection_lost :: "permanent \<Rightarrow> permanent" where
  "connection_lost p =
     (if pm_done p then remove_permanent p else set_enable True (disconnect p))"

text \<open>
  \<open>mark_done\<close> of the messenger only makes it leave the loop when its buffer is empty, where its parent, which is marked
  done too, disconnects it anyway.
\<close>

definition permanent_mark_done :: "bool \<Rightarrow> permanent \<Rightarrow> permanent" where
  "permanent_mark_done messenger p =
     (if messenger then p\<lparr>pm_done := True, pm_impl_done := True, pm_message_cache := []\<rparr> else p\<lparr>pm_done := True\<rparr>)"

end
