(* ===== verification/BufferProps.thy ===== *)
theory BufferProps
  imports CommBuffer MessageProps
begin

text \<open>
  What arrives does not depend on the pieces it is cut into on the way, what is written leaves in that order, and
  so messages arrive as they were sent.
\<close>

section \<open>Lines\<close>

abbreviation NL :: char where "NL \<equiv> CHR 0x0A"

lemma split_on_join: "split_on c (s @ t) = butlast (split_on c s) @ split_on c (last (split_on c s) @ t)"
proof (induction s)
  case (Cons x s)
  obtain w ws where "split_on c s = w # ws" using split_on_not_Nil [of c s] by (cases "split_on c s") auto
  with Cons show ?case by (cases "ws = []") auto
qed simp

definition c_line :: "string \<Rightarrow> string" where
  "c_line = takeWhile (\<lambda>c. c \<noteq> CHR 0x00)"

text \<open>The lines are handed over one by one.\<close>

definition hand_line :: "(string \<Rightarrow> ('a buffer_scheme) \<Rightarrow> 'a buffer_scheme) \<Rightarrow> string \<Rightarrow> 'a buffer_scheme \<Rightarrow> 'a buffer_scheme" where
  "hand_line f l b = (f (c_line l) (b\<lparr>b_line := l\<rparr>))\<lparr>b_line := []\<rparr>"

definition hand_lines :: "(string \<Rightarrow> ('a buffer_scheme) \<Rightarrow> 'a buffer_scheme) \<Rightarrow> string \<Rightarrow> 'a buffer_scheme \<Rightarrow> 'a buffer_scheme" where
  "hand_lines f s b = (fold (hand_line f) (butlast (split_on NL s)) (b\<lparr>b_line := []\<rparr>))\<lparr>b_line := last (split_on NL s)\<rparr>"

lemma hand_line_ignores: "hand_line f l (b\<lparr>b_line := x\<rparr>) = hand_line f l b"
  by (simp add: hand_line_def)

lemma hand_lines_ignores: "hand_lines f s (b\<lparr>b_line := x\<rparr>) = hand_lines f s b"
  by (simp add: hand_lines_def)

lemma hand_lines_line: "b_line (hand_lines f s b) = last (split_on NL s)"
  by (simp add: hand_lines_def)

lemma hand_lines_nil: "b_line b = [] \<Longrightarrow> b_line (fold (hand_line f) ls b) = []"
  by (induction ls arbitrary: b) (simp_all add: hand_line_def)

lemma hand_lines_append:
  "hand_lines f (s @ t) b = hand_lines f (last (split_on NL s) @ t) (hand_lines f s b)"
proof -
  let ?b = "fold (hand_line f) (butlast (split_on NL s)) (b\<lparr>b_line := []\<rparr>)"
  have "b_line ?b = []" by (rule hand_lines_nil) simp
  then have "?b\<lparr>b_line := []\<rparr> = ?b" by simp
  then show ?thesis
    unfolding hand_lines_def split_on_join [of NL s t] by (simp add: butlast_append)
qed

lemma hand_lines_whole: "NL \<notin> set l \<Longrightarrow> hand_lines f l b = b\<lparr>b_line := l\<rparr>"
  by (simp add: hand_lines_def split_on_none)

lemma hand_lines_first:
  "NL \<notin> set l \<Longrightarrow> hand_lines f (l @ NL # t) b = hand_lines f t (hand_line f l b)"
  by (simp add: hand_lines_def split_on_append hand_line_def)

text \<open>One buffer of data.\<close>

definition line_whole :: "('a buffer_scheme) \<Rightarrow> bool" where
  "line_whole b \<longleftrightarrow> NL \<notin> set (b_line b)"

lemma split_on_last: "c \<notin> set (last (split_on c s))"
proof (induction s)
  case (Cons x s)
  obtain w ws where "split_on c s = w # ws" using split_on_not_Nil [of c s] by (cases "split_on c s") auto
  with Cons show ?case by (cases "ws = []") auto
qed simp

lemma take_lines_eq:
  "line_whole b \<Longrightarrow> snd (take_lines f d b) = hand_lines f (b_line b @ d) b \<and> 0 \<le> fst (take_lines f d b)"
proof (induction f d b rule: take_lines.induct)
  case (1 f d b)
  define l r b1 where "l = takeWhile (\<lambda>c. \<not> line_end c) d" and "r = dropWhile (\<lambda>c. \<not> line_end c) d"
    and "b1 = b\<lparr>b_line := b_line b @ l\<rparr>"
  have d: "d = l @ r" by (simp add: l_def r_def)
  have l: "NL \<notin> set (b_line b @ l)"
    using 1(2) set_takeWhileD [of NL "\<lambda>c. \<not> line_end c" d] by (auto simp: line_whole_def l_def line_end_def)
  show ?case
  proof (cases "r = []")
    case True
    then have "take_lines f d b = (0, b1)"
      by (subst take_lines.simps) (simp add: l_def [symmetric] r_def [symmetric] b1_def)
    then show ?thesis using True d l by (simp add: hand_lines_whole b1_def)
  next
    case False
    then have r: "r = NL # tl r"
      using hd_dropWhile [of "\<lambda>c. \<not> line_end c" d] by (cases r) (auto simp: r_def line_end_def)
    let ?b = "(f (takeWhile (\<lambda>c. c \<noteq> CHR 0x00) (b_line b1)) b1)\<lparr>b_line := []\<rparr>"
    have step: "take_lines f d b = (case take_lines f (tl r) ?b of (n, b2) \<Rightarrow> (n + 1, b2))"
      using False by (subst take_lines.simps) (simp add: l_def [symmetric] r_def [symmetric] b1_def Let_def)
    have b: "?b = hand_line f (b_line b @ l) b" by (simp add: hand_line_def c_line_def b1_def)
    have ih: "snd (take_lines f (tl r) ?b) = hand_lines f (tl r) ?b \<and> 0 \<le> fst (take_lines f (tl r) ?b)"
      using 1(1) [OF l_def r_def b1_def False] by (simp add: line_whole_def)
    have "hand_lines f (b_line b @ d) b = hand_lines f ((b_line b @ l) @ NL # tl r) b" using d r by simp
    also have "\<dots> = hand_lines f (tl r) ?b" unfolding b by (rule hand_lines_first [OF l])
    finally show ?thesis using ih by (cases "take_lines f (tl r) ?b") (simp add: step)
  qed
qed

section \<open>Reading\<close>

definition received :: "read_answer list \<Rightarrow> string" where
  "received as = concat (map (\<lambda>a. case a of Received d _ \<Rightarrow> d | _ \<Rightarrow> []) as)"

text \<open>Calls of \<open>process_read\<close>, started at the dates \<open>nows\<close>.\<close>

fun read_events :: "('a buffer_scheme) callbacks \<Rightarrow> int list \<Rightarrow> read_answer list \<Rightarrow> 'a buffer_scheme \<Rightarrow> 'a buffer_scheme \<times> read_answer list"
where
  "read_events cb [] as b = (b, as)"
| "read_events cb (now # nows) as b = (case process_read cb now as b of (b, as) \<Rightarrow> read_events cb nows as b)"

text \<open>The lines do not close the connection.\<close>

definition stays_open :: "('a buffer_scheme) callbacks \<Rightarrow> bool" where
  "stays_open cb \<longleftrightarrow> (\<forall>l b. can_read b \<longrightarrow> can_read (on_line cb l b))"

lemma can_read_line [simp]: "can_read (b\<lparr>b_line := l\<rparr>) = can_read b"
  by (simp add: can_read_def)

lemma hand_lines_open: "stays_open cb \<Longrightarrow> can_read b \<Longrightarrow> can_read (hand_lines (on_line cb) s b)"
proof -
  assume o: "stays_open cb"
  have "can_read b \<Longrightarrow> can_read (fold (hand_line (on_line cb)) ls b)" for ls b
    using o by (induction ls arbitrary: b) (simp_all add: hand_line_def stays_open_def)
  then show "can_read b \<Longrightarrow> ?thesis" by (simp add: hand_lines_def)
qed

lemma hand_nothing: "line_whole b \<Longrightarrow> hand_lines f (b_line b) b = b"
  by (simp add: hand_lines_whole line_whole_def)

definition answers_ok :: "read_answer list \<Rightarrow> bool" where
  "answers_ok as \<longleftrightarrow> Read_failed \<notin> set as"

lemma hand_lines_received:
  assumes "line_whole b"
  shows "hand_lines f (b_line (hand_lines f (b_line b @ d) b) @ e) (hand_lines f (b_line b @ d) b) = hand_lines f (b_line b @ d @ e) b"
  using hand_lines_append [of f "b_line b @ d" e b] by (simp add: hand_lines_line)

lemma read_loop_eq:
  assumes "stays_open cb"
  shows "can_read b \<Longrightarrow> line_whole b \<Longrightarrow> answers_ok as \<Longrightarrow> read_loop cb limit count as b = (b', as') \<Longrightarrow>
    \<exists>used. as = used @ as' \<and> (as \<noteq> [] \<longrightarrow> used \<noteq> []) \<and> b' = hand_lines (on_line cb) (b_line b @ received used) b"
proof (induction as arbitrary: b count)
  case Nil
  then show ?case by (simp add: received_def hand_nothing)
next
  case (Cons a as)
  show ?case
  proof (cases a)
    case (Received d now)
    obtain n b1 where t: "take_lines (on_line cb) d b = (n, b1)" by fastforce
    have b1: "b1 = hand_lines (on_line cb) (b_line b @ d) b" using take_lines_eq [OF Cons(3), of "on_line cb" d] t by simp
    show ?thesis
    proof (cases "count + n \<ge> b_event_limit b1 \<or> now \<ge> limit")
      case True
      then have "b' = b1" "as' = as" using Cons(2,5) Received t by simp_all
      then show ?thesis using b1 Received by (intro exI [of _ "[a]"]) (simp add: received_def)
    next
      case False
      have "can_read b1" "line_whole b1"
        using hand_lines_open [OF assms Cons(2)] split_on_last by (simp_all add: b1 line_whole_def hand_lines_line)
      moreover have "answers_ok as" "read_loop cb limit (count + n) as b1 = (b', as')"
        using Cons(2,4,5) Received False t by (simp_all add: answers_ok_def)
      ultimately obtain used where u: "as = used @ as'" "b' = hand_lines (on_line cb) (b_line b1 @ received used) b1"
        using Cons(1) by blast
      then have "b' = hand_lines (on_line cb) (b_line b @ received (a # used)) b"
        using hand_lines_received [OF Cons(3), of "on_line cb" d "received used"] b1 Received by (simp add: received_def)
      then show ?thesis using u(1) by (intro exI [of _ "a # used"]) simp
    qed
  next
    case No_data
    then show ?thesis
      using Cons(2,3,5) by (intro exI [of _ "[a]"]) (simp add: received_def hand_nothing)
  qed (use Cons(4) in \<open>simp add: answers_ok_def\<close>)
qed

lemma process_read_eq:
  assumes "stays_open cb" "can_read b" "line_whole b" "answers_ok as" "process_read cb now as b = (b', as')"
  shows "\<exists>used. as = used @ as' \<and> (as \<noteq> [] \<longrightarrow> used \<noteq> []) \<and> b' = hand_lines (on_line cb) (b_line b @ received used) b
    \<and> can_read b' \<and> line_whole b'"
proof -
  have "b_open b" using assms(2) by (simp add: can_read_def)
  then have "read_loop cb (now + b_processing_time_limit b) 0 as b = (b', as')"
    using assms(5) by (simp add: process_read_def)
  from read_loop_eq [OF assms(1-4) this] show ?thesis
    using hand_lines_open [OF assms(1,2)] split_on_last by (auto simp: line_whole_def hand_lines_line)
qed

lemma read_events_eq:
  assumes "stays_open cb"
  shows "can_read b \<Longrightarrow> line_whole b \<Longrightarrow> answers_ok as \<Longrightarrow> read_events cb nows as b = (b', as') \<Longrightarrow>
    \<exists>used. as = used @ as' \<and> (length as \<le> length nows \<longrightarrow> as' = []) \<and> b' = hand_lines (on_line cb) (b_line b @ received used) b"
proof (induction nows arbitrary: as b)
  case Nil
  then show ?case by (auto simp: received_def hand_nothing intro!: exI [of _ "[]"])
next
  case (Cons now nows)
  obtain b1 as1 where p: "process_read cb now as b = (b1, as1)" by fastforce
  obtain u1 where u1: "as = u1 @ as1" "as \<noteq> [] \<longrightarrow> u1 \<noteq> []" "b1 = hand_lines (on_line cb) (b_line b @ received u1) b"
    "can_read b1" "line_whole b1"
    using process_read_eq [OF assms Cons(2-4) p] by blast
  have "answers_ok as1" using Cons(4) u1(1) by (simp add: answers_ok_def)
  moreover have "read_events cb nows as1 b1 = (b', as')" using Cons(5) p by simp
  ultimately obtain u2 where u2: "as1 = u2 @ as'" "length as1 \<le> length nows \<longrightarrow> as' = []"
    "b' = hand_lines (on_line cb) (b_line b1 @ received u2) b1" using Cons(1) [OF u1(4,5)] by blast
  have "b' = hand_lines (on_line cb) (b_line b @ received (u1 @ u2)) b"
    using hand_lines_received [OF Cons(3), of "on_line cb" "received u1" "received u2"] u1(3) u2(3)
    by (simp add: received_def)
  moreover have "length as \<le> Suc (length nows) \<longrightarrow> as' = []"
    using u1(1,2) u2(1,2) by (cases u1) auto
  ultimately show ?case using u1(1) u2(1) by (intro exI [of _ "u1 @ u2"]) simp
qed

text \<open>
  The pieces in which bytes arrive do not matter: whatever the kernel answers to read, however often
  process_read is called and whatever its limits on lines and time, the connection is that of the lines of the bytes
  it read, handed over in order, with the rest of the last line kept; as many calls as answers read everything.
\<close>

theorem pieces_do_not_matter:
  assumes "stays_open cb" "can_read b" "NL \<notin> set (b_line b)" "Read_failed \<notin> set as" "read_events cb nows as b = (b', as')"
  shows "\<exists>used. as = used @ as' \<and> (length as \<le> length nows \<longrightarrow> as' = [])
    \<and> (let ls = split_on NL (b_line b @ received used) in
       b' = (fold (\<lambda>l b. (on_line cb (c_line l) (b\<lparr>b_line := l\<rparr>))\<lparr>b_line := []\<rparr>) (butlast ls) (b\<lparr>b_line := []\<rparr>))\<lparr>b_line := last ls\<rparr>)"
  using read_events_eq [OF assms(1,2), of as nows b' as'] assms(3-5)
  by (auto simp: line_whole_def answers_ok_def hand_lines_def hand_line_def [abs_def] Let_def)

definition no_connection :: buffer where
  "no_connection = \<lparr>b_kind = Tcp_client, b_open = True, b_read_mode = True, b_write_mode = True, b_line = [], b_output = [],
     b_position = 0, b_event_limit = 5, b_processing_time_limit = 500000\<rparr>"

definition idle_callbacks :: "('a buffer_scheme) callbacks" where
  "idle_callbacks = \<lparr>on_line = (\<lambda>l b. b), on_error = (\<lambda>b. b), on_empty_buffer = (\<lambda>b. b), on_hup = (\<lambda>b. b)\<rparr>"

lemma pieces_do_not_matter_sample:
  "b_line (fst (read_events idle_callbacks [0, 1] [Received (''ab'' @ [NL] @ ''c'') 0, No_data, Received ''de'' 1] no_connection)) = ''cde''"
proof -
  obtain b' as' where r: "read_events idle_callbacks [0, 1] [Received (''ab'' @ [NL] @ ''c'') 0, No_data, Received ''de'' 1]
      no_connection = (b', as')" by fastforce
  have e: "as' = []" using r by (simp add: read_events.simps process_read_def idle_callbacks_def no_connection_def)
      (simp add: can_read_def take_lines.simps line_end_def)
  have o: "stays_open (idle_callbacks :: buffer callbacks)" "can_read no_connection" "NL \<notin> set (b_line no_connection)"
    "Read_failed \<notin> set [Received (''ab'' @ [NL] @ ''c'') 0, No_data, Received ''de'' 1]"
    by (simp_all add: stays_open_def idle_callbacks_def can_read_def no_connection_def)
  show ?thesis
    unfolding r using pieces_do_not_matter [OF o r] e by (auto simp: received_def no_connection_def Let_def)
qed

section \<open>Writing\<close>

datatype write_step = Write string | Kernel write_answer

text \<open>The callbacks leave what is to be written.\<close>

definition keeps_output :: "('a buffer_scheme) callbacks \<Rightarrow> bool" where
  "keeps_output cb \<longleftrightarrow> (\<forall>b. b_output (on_empty_buffer cb b) = b_output b \<and> b_position (on_empty_buffer cb b) = b_position b
     \<and> b_output (on_error cb b) = b_output b \<and> b_position (on_error cb b) = b_position b)"

text \<open>What the connection accepted, what the kernel took, and the connection.\<close>

fun write_steps :: "('a buffer_scheme) callbacks \<Rightarrow> write_step list \<Rightarrow> 'a buffer_scheme \<Rightarrow> string \<times> string \<times> 'a buffer_scheme" where
  "write_steps cb [] b = ([], [], b)"
| "write_steps cb (Write d # ss) b =
     (let (r, b1) = buffer_write d b; (t, w, b2) = write_steps cb ss b1 in ((if r > 0 then d else []) @ t, w, b2))"
| "write_steps cb (Kernel a # ss) b =
     (let (s, b1) = process_write cb a b; (t, w, b2) = write_steps cb ss b1 in (t, s @ w, b2))"

definition unsent :: "('a buffer_scheme) \<Rightarrow> string" where
  "unsent b = drop (b_position b) (b_output b)"

definition position_ok :: "('a buffer_scheme) \<Rightarrow> bool" where
  "position_ok b \<longleftrightarrow> b_position b < length (b_output b) \<or> b_position b = 0"

lemma buffer_write_pending:
  "position_ok b \<Longrightarrow> buffer_write d b = (r, b') \<Longrightarrow> unsent b' = unsent b @ (if r > 0 then d else []) \<and> position_ok b'"
  by (auto simp: buffer_write_def unsent_def position_ok_def split: if_splits)

lemma process_write_pending:
  assumes "keeps_output cb" "position_ok b" "process_write cb a b = (s, b')"
  shows "unsent b = s @ unsent b' \<and> position_ok b'"
proof (cases a)
  case (Written r)
  show ?thesis
  proof (cases "b_open b \<and> can_write b \<and> r \<noteq> 0")
    case True
    then show ?thesis
      using assms Written append_take_drop_id [of r "unsent b"]
      by (auto simp: process_write_def Let_def unsent_def position_ok_def keeps_output_def add.commute split: if_splits)
  qed (use assms Written in \<open>auto simp: process_write_def unsent_def position_ok_def keeps_output_def split: if_splits\<close>)
qed (use assms in \<open>auto simp: process_write_def unsent_def position_ok_def keeps_output_def split: if_splits\<close>)

lemma write_steps_eq:
  "keeps_output cb \<Longrightarrow> position_ok b \<Longrightarrow> write_steps cb ss b = (t, w, b') \<Longrightarrow>
   w @ unsent b' = unsent b @ t \<and> position_ok b'"
proof (induction cb ss b arbitrary: t w b' rule: write_steps.induct)
  case (2 cb d ss b)
  obtain r b1 where 1: "buffer_write d b = (r, b1)" by fastforce
  obtain t1 w1 b2 where 3: "write_steps cb ss b1 = (t1, w1, b2)" by (metis prod_cases3)
  have "w1 @ unsent b2 = unsent b1 @ t1 \<and> position_ok b2"
    using 2(1) [OF 1 [symmetric] refl 2(2) _ 3] buffer_write_pending [OF 2(3) 1] by simp
  then show ?case using 2(4) 1 3 buffer_write_pending [OF 2(3) 1] by auto
next
  case (3 cb a ss b)
  obtain s b1 where 1: "process_write cb a b = (s, b1)" by fastforce
  obtain t1 w1 b2 where 4: "write_steps cb ss b1 = (t1, w1, b2)" by (metis prod_cases3)
  have p: "unsent b = s @ unsent b1" "position_ok b1" using process_write_pending [OF 3(2,3) 1] by simp_all
  have "w1 @ unsent b2 = unsent b1 @ t1 \<and> position_ok b2"
    using 3(1) [OF 1 [symmetric] refl 3(2) p(2) 4] by simp
  then show ?case using 3(4) 1 4 p by auto
qed simp

text \<open>
  What is written leaves in that order and nothing is lost or sent twice: whatever part of it the kernel takes
  each time, what it took and what is kept is what the connection accepted.
\<close>

theorem written_in_order:
  assumes "keeps_output cb" "b_output b = []" "b_position b = 0" "write_steps cb ss b = (accepted, taken, b')"
  shows "taken @ drop (b_position b') (b_output b') = accepted \<and> (b_output b' = [] \<longrightarrow> taken = accepted)"
  using write_steps_eq [OF assms(1) _ assms(4)] assms(2,3) by (auto simp: position_ok_def unsent_def)

lemma written_in_order_sample:
  "fst (snd (write_steps idle_callbacks [Write ''abc'', Kernel (Written 2), Write ''d'', Kernel (Written 2)] no_connection)) = ''abcd''"
proof -
  obtain t w b' where r: "write_steps idle_callbacks [Write ''abc'', Kernel (Written 2), Write ''d'', Kernel (Written 2)] no_connection
      = (t, w, b')" by (metis prod_cases3)
  have e: "t = ''abcd'' \<and> b_output b' = []"
    using r by (auto simp: buffer_write_def process_write_def idle_callbacks_def no_connection_def can_write_def)
  have o: "keeps_output (idle_callbacks :: buffer callbacks)" "b_output no_connection = []" "b_position no_connection = 0"
    by (simp_all add: keeps_output_def idle_callbacks_def no_connection_def)
  show ?thesis unfolding r using written_in_order [OF o r] e by simp
qed

section \<open>Messages\<close>

definition message_line :: "env \<Rightarrow> message \<Rightarrow> string" where
  "message_line E m = (case to_message E m of Inl _ \<Rightarrow> [] | Inr t \<Rightarrow> t)"

text \<open>Messages are sent and the kernel takes what it can: the messages accepted, what the kernel took, the connection.\<close>

fun send_steps :: "env \<Rightarrow> ('a buffer_scheme) callbacks \<Rightarrow> (message + write_answer) list \<Rightarrow> 'a buffer_scheme
  \<Rightarrow> (message list \<times> string \<times> 'a buffer_scheme) res" where
  "send_steps E cb [] b = Inr ([], [], b)"
| "send_steps E cb (Inl m # ss) b =
     rbind (connection_send_message E m b) (\<lambda>(ok, b). rbind (send_steps E cb ss b) (\<lambda>(ms, w, b).
       Inr ((if ok then [m] else []) @ ms, w, b)))"
| "send_steps E cb (Inr a # ss) b =
     (case process_write cb a b of (s, b) \<Rightarrow> rbind (send_steps E cb ss b) (\<lambda>(ms, w, b). Inr (ms, s @ w, b)))"

lemma send_message_pending:
  assumes "position_ok b" "connection_send_message E m b = Inr (ok, b')"
  shows "unsent b' = unsent b @ (if ok then message_line E m @ [NL] else []) \<and> position_ok b'"
proof -
  obtain t where t: "to_message E m = Inr t" using assms(2) by (auto simp: connection_send_message_def rbind_Inr_iff)
  obtain r b1 where w: "buffer_write (t @ [NL]) b = (r, b1)" by fastforce
  have "ok = (r = int (length (t @ [NL])))" "b' = b1" using assms(2) t w by (simp_all add: connection_send_message_def)
  moreover have "r > 0 \<longleftrightarrow> r = int (length (t @ [NL]))" using w by (auto simp: buffer_write_def split: if_splits)
  ultimately show ?thesis using buffer_write_pending [OF assms(1) w] t by (simp add: message_line_def)
qed

lemma send_steps_eq:
  "keeps_output cb \<Longrightarrow> position_ok b \<Longrightarrow> send_steps E cb ss b = Inr (ms, w, b') \<Longrightarrow>
   w @ unsent b' = unsent b @ concat (map (\<lambda>m. message_line E m @ [NL]) ms) \<and> set ms \<subseteq> {m. Inl m \<in> set ss}"
proof (induction E cb ss b arbitrary: ms w b' rule: send_steps.induct)
  case (2 E cb m ss b)
  obtain ok b1 where 1: "connection_send_message E m b = Inr (ok, b1)" using 2(4) by (auto simp: rbind_Inr_iff)
  obtain ms1 w1 where 3: "send_steps E cb ss b1 = Inr (ms1, w1, b')" "ms = (if ok then [m] else []) @ ms1" "w = w1"
    using 2(4) 1 by (auto simp: rbind_Inr_iff)
  have p: "unsent b1 = unsent b @ (if ok then message_line E m @ [NL] else [])" "position_ok b1"
    using send_message_pending [OF 2(3) 1] by simp_all
  show ?case using 2(1) [OF 1 refl 2(2) p(2) 3(1)] p(1) 3(2,3) by auto
next
  case (3 E cb a ss b)
  obtain s b1 where 1: "process_write cb a b = (s, b1)" by fastforce
  obtain w1 where 4: "send_steps E cb ss b1 = Inr (ms, w1, b')" "w = s @ w1" using 3(4) 1 by (auto simp: rbind_Inr_iff)
  have p: "unsent b = s @ unsent b1" "position_ok b1" using process_write_pending [OF 3(2,3) 1] by simp_all
  show ?case using 3(1) [OF 1 [symmetric] 3(2) p(2) 4(1)] p(1) 4(2) by auto
qed simp

text \<open>A connection that keeps the messages it dispatches.\<close>

record receiver = buffer + dispatched :: "message list"

definition receiving :: "env \<Rightarrow> receiver callbacks" where
  "receiving E =
     \<lparr>on_line = process_line E (\<lambda>m b. b\<lparr>dispatched := dispatched b @ [m]\<rparr>), on_error = id, on_empty_buffer = id, on_hup = id\<rparr>"

lemma message_line_ok:
  assumes "text_ok E" "sendable m"
  shows "NL \<notin> set (message_line E m)" "c_line (message_line E m) = message_line E m" "message_line E m \<noteq> []"
    "from_message E (message_line E m) empty_message = (True, m)"
proof -
  have c: "message_wf m" "m_command m \<noteq> []" using assms(2) by (simp_all add: sendable_def)
  obtain t where t: "to_message E m = Inr t" using c(2) by (simp add: to_message_def)
  then have l: "message_line E m = t" by (simp add: message_line_def)
  have s: "set t \<inter> {CHR 0x00, NL, CHR 0x0D} = {}" by (rule printed_chars [OF assms(1) c(1) t])
  then show "NL \<notin> set (message_line E m)" by (auto simp: l)
  have "\<forall>c\<in>set t. c \<noteq> CHR 0x00" using s by auto
  then show "c_line (message_line E m) = message_line E m"
    unfolding l c_line_def by (rule takeWhile_eq_all_conv [THEN iffD2])
  show "message_line E m \<noteq> []" using t c(2) by (auto simp: l to_message_def)
  show "from_message E (message_line E m) empty_message = (True, m)"
    using parse_printed [OF assms t] by (simp add: l from_message_def)
qed

lemma split_cut:
  "concat (map (\<lambda>t. t @ [c]) ts) = u @ v \<Longrightarrow> \<forall>t\<in>set ts. c \<notin> set t \<Longrightarrow>
   \<exists>k. butlast (split_on c u) = take k ts \<and> (v = [] \<longrightarrow> k = length ts)"
proof (induction ts arbitrary: u)
  case (Cons t ts)
  show ?case
  proof (cases "length u \<le> length t")
    case True
    then obtain x where "t = u @ x"
      using Cons(2) by (auto simp: append_eq_append_conv_if append_eq_conv_conj)
    then have "c \<notin> set u" using Cons(3) by auto
    moreover have "v \<noteq> []"
    proof
      assume "v = []"
      then have "length u = length (concat (map (\<lambda>t. t @ [c]) (t # ts)))" using Cons(2) by simp
      then show False using True by simp
    qed
    ultimately show ?thesis by (intro exI [of _ 0]) (simp add: split_on_none)
  next
    case False
    then obtain u' where u: "u = t @ c # u'" "concat (map (\<lambda>t. t @ [c]) ts) = u' @ v"
    proof -
      have t: "take (length t) u = t" and d: "drop (length t) u @ v = c # concat (map (\<lambda>t. t @ [c]) ts)"
        using Cons(2) False by (auto simp: append_eq_append_conv_if append_eq_conv_conj drop_take)
      have "u = t @ drop (length t) u" using append_take_drop_id [of "length t" u] by (simp only: t)
      with d False that show thesis by (cases "drop (length t) u") auto
    qed
    then obtain k where k: "butlast (split_on c u') = take k ts" "v = [] \<longrightarrow> k = length ts" using Cons(1,3) by auto
    have "split_on c u = t # split_on c u'" using u(1) Cons(3) by (simp add: split_on_append)
    then show ?thesis using k by (intro exI [of _ "Suc k"]) simp
  qed
qed simp

lemma hand_messages:
  assumes "text_ok E" "\<forall>m\<in>set ms. sendable m"
  shows "dispatched (fold (hand_line (on_line (receiving E))) (map (message_line E) ms) r) = dispatched r @ ms"
  using assms(2)
proof (induction ms arbitrary: r)
  case (Cons m ms)
  then have "dispatched (hand_line (on_line (receiving E)) (message_line E m) r) = dispatched r @ [m]"
    using message_line_ok [OF assms(1), of m] by (simp add: hand_line_def receiving_def process_line_def)
  then show ?case using Cons by simp
qed simp

text \<open>
  C14. Messages arrive as they were sent, when each of them is sendable (the names are those the setters accept, there
  is a target server only along with a target service, and the values have no NUL, do not end in a backslash when they
  have to be quoted and, for the last one, do not end in a space): whatever parts of the output of a connection
  the kernel takes and in whatever pieces it gives them to the other end, the messages dispatched there are the first
  ones of those accepted here, in order, and all of them once everything was taken and read. Both ends start with empty
  buffers, nothing else writes to the output, and reading does not fail.
\<close>

theorem messages_arrive:
  assumes "text_ok E" "\<forall>m. Inl m \<in> set steps \<longrightarrow> sendable m"
    "keeps_output cb" "b_output s = []" "b_position s = 0" "send_steps E cb steps s = Inr (ms, taken, s')"
    "can_read r" "b_line r = []" "dispatched r = []" "Read_failed \<notin> set as" "taken = received as @ under_way"
    "read_events (receiving E) nows as r = (r', as')"
  shows "(\<exists>k. dispatched r' = take k ms)
    \<and> (b_output s' = [] \<and> under_way = [] \<and> length as \<le> length nows \<longrightarrow> dispatched r' = ms)"
proof -
  let ?ts = "map (message_line E) ms"
  have s: "taken @ unsent s' = concat (map (\<lambda>t. t @ [NL]) ?ts)" "\<forall>m\<in>set ms. sendable m"
    using send_steps_eq [OF assms(3) _ assms(6)] assms(2,4,5) by (auto simp: position_ok_def unsent_def comp_def)
  have o: "stays_open (receiving E)"
    by (auto simp: stays_open_def receiving_def process_line_def can_read_def split: prod.splits)
  obtain used where u: "as = used @ as'" "length as \<le> length nows \<longrightarrow> as' = []"
    "r' = hand_lines (on_line (receiving E)) (received used) r"
    using read_events_eq [OF o assms(7) _ _ assms(12)] assms(8,10) by (auto simp: line_whole_def answers_ok_def)
  have "concat (map (\<lambda>t. t @ [NL]) ?ts) = received used @ received as' @ under_way @ unsent s'"
    using s(1) assms(11) u(1) by (simp add: received_def)
  then obtain k where k: "butlast (split_on NL (received used)) = take k ?ts"
    "received as' @ under_way @ unsent s' = [] \<longrightarrow> k = length ?ts"
    using split_cut [of NL ?ts "received used"] message_line_ok(1) [OF assms(1)] s(2) by fastforce
  have "\<forall>m\<in>set (take k ms). sendable m" using s(2) by (auto dest: in_set_takeD)
  then have "dispatched r' = take k ms"
    using hand_messages [OF assms(1), of "take k ms"] u(3) k(1) assms(9)
    by (simp add: hand_lines_def take_map)
  then show ?thesis using k(2) u(2) by (auto simp: received_def unsent_def)
qed

definition no_receiver :: receiver where
  "no_receiver = buffer.extend no_connection \<lparr>dispatched = []\<rparr>"

lemma messages_arrive_witness:
  "\<exists>w s'. send_steps text_env (receiving text_env) [Inl sample_text_message, Inr (Written 9), Inl (empty_message\<lparr>m_command := ''STOP''\<rparr>),
      Inr (Written 999)] no_receiver = Inr ([sample_text_message, empty_message\<lparr>m_command := ''STOP''\<rparr>], w, s')
    \<and> dispatched (fst (read_events (receiving text_env) [0, 1] [Received (take 30 w) 0, Received (drop 30 w) 1] no_receiver))
      = [sample_text_message, empty_message\<lparr>m_command := ''STOP''\<rparr>]"
proof -
  let ?stop = "empty_message\<lparr>m_command := ''STOP''\<rparr>"
  let ?steps = "[Inl sample_text_message, Inr (Written 9), Inl ?stop, Inr (Written 999)]"
  have t: "to_message text_env sample_text_message
      = Inr (''<cat:website *:snaplock/LOCK object_name='' @ [CHR 0x22] @ ''http://a/;b'' @ [CHR 0x22] @ '';pid=5'')"
    "to_message text_env ?stop = Inr ''STOP''" by code_simp+
  obtain w s' where s: "send_steps text_env (receiving text_env) ?steps no_receiver = Inr ([sample_text_message, ?stop], w, s')"
      "b_output s' = []"
    by (simp add: connection_send_message_def t buffer_write_def process_write_def no_receiver_def no_connection_def can_write_def
        buffer.defs receiving_def)
  obtain r' as' where r: "read_events (receiving text_env) [0, 1] [Received (take 30 w) 0, Received (drop 30 w) 1] no_receiver = (r', as')"
    by fastforce
  have k: "keeps_output (receiving text_env)" by (simp add: keeps_output_def receiving_def)
  have n: "b_output no_receiver = []" "b_position no_receiver = 0" "can_read no_receiver" "b_line no_receiver = []"
    "dispatched no_receiver = []" by (simp_all add: no_receiver_def no_connection_def can_read_def buffer.defs)
  have "sendable ?stop" by code_simp
  then have m: "\<forall>m. Inl m \<in> set ?steps \<longrightarrow> sendable m" using sample_text_message_ok by auto
  have "dispatched r' = [sample_text_message, ?stop]"
    using messages_arrive [OF text_ok_text_env m k n(1,2) s(1) n(3-5) _ _ r, of "[]"] s(2) by (simp add: received_def)
  then show ?thesis using s r by (intro exI [of _ w] exI [of _ s']) simp
qed

end
