(* ===== verification/LoopProps.thy ===== *)
theory LoopProps
  imports CommLoop "HOL-Library.Multiset"
begin

text \<open>
  Timers keep their rhythm, run when they are due and only then, and the loop never sleeps past one; events come in
  the order of the priorities.
\<close>

section \<open>Ticks\<close>

text \<open>
  A periodic timer keeps its rhythm however late it runs: its next date is a whole number of periods behind the
  last one, not before now, and less than one period from now.
\<close>

theorem timer_keeps_rhythm:
  assumes "set_timeout_delay start delay c0 = Inr c1" "delay \<noteq> -1" "c = foldl (\<lambda>c now. calculate_next_tick now c) c1 nows"
  shows "(\<exists>k\<ge>1. ec_timeout_next_date c = start + k * delay)
    \<and> (ec_timeout_next_date c \<le> now \<longrightarrow>
       now \<le> ec_timeout_next_date (calculate_next_tick now c) \<and> ec_timeout_next_date (calculate_next_tick now c) < now + delay)"
proof -
  have d: "delay \<ge> 10" "c1 = c0\<lparr>ec_timeout_delay := delay, ec_timeout_next_date := start + delay\<rparr>"
    using assms(1,2) by (auto simp: set_timeout_delay_def split: if_splits)
  have step: "\<exists>k\<ge>0. ec_timeout_next_date (calculate_next_tick now c) = ec_timeout_next_date c + k * delay"
    "ec_timeout_delay (calculate_next_tick now c) = delay"
    "ec_timeout_next_date c \<le> now \<Longrightarrow> now \<le> ec_timeout_next_date (calculate_next_tick now c)
      \<and> ec_timeout_next_date (calculate_next_tick now c) < now + delay"
    if "ec_timeout_delay c = delay" for c now
  proof -
    let ?g = "now - ec_timeout_next_date c"
    have r: "ec_timeout_next_date (calculate_next_tick now c)
        = (if ?g < 0 then ec_timeout_next_date c else ec_timeout_next_date c + (?g + delay - 1) div delay * delay)"
      using that d(1) by (simp add: calculate_next_tick_def Let_def)
    show "\<exists>k\<ge>0. ec_timeout_next_date (calculate_next_tick now c) = ec_timeout_next_date c + k * delay"
    proof (cases "?g < 0")
      case False
      then have "(?g + delay - 1) div delay \<ge> 0" using d(1) by (simp add: pos_imp_zdiv_nonneg_iff)
      then show ?thesis using r False by (intro exI [of _ "(?g + delay - 1) div delay"]) simp
    qed (use r in \<open>auto intro!: exI [of _ 0]\<close>)
    show "ec_timeout_delay (calculate_next_tick now c) = delay"
      using that by (simp add: calculate_next_tick_def Let_def)
    assume le: "ec_timeout_next_date c \<le> now"
    have m: "(?g + delay - 1) div delay * delay = ?g + delay - 1 - (?g + delay - 1) mod delay"
      by (simp add: minus_mod_eq_div_mult [symmetric])
    have "0 \<le> (?g + delay - 1) mod delay" "(?g + delay - 1) mod delay < delay" using d(1) by simp_all
    then show "now \<le> ec_timeout_next_date (calculate_next_tick now c)
        \<and> ec_timeout_next_date (calculate_next_tick now c) < now + delay"
      using r m le by auto
  qed
  have "(\<exists>k\<ge>1. ec_timeout_next_date c = start + k * delay) \<and> ec_timeout_delay c = delay"
    unfolding assms(3)
  proof (induction nows rule: rev_induct)
    case Nil
    then show ?case using d(2) by (auto intro!: exI [of _ 1])
  next
    case (snoc now nows)
    let ?c = "foldl (\<lambda>c now. calculate_next_tick now c) c1 nows"
    obtain k where k: "k \<ge> 1" "ec_timeout_next_date ?c = start + k * delay" using snoc by blast
    obtain j where j: "j \<ge> 0" "ec_timeout_next_date (calculate_next_tick now ?c) = ec_timeout_next_date ?c + j * delay"
      using step(1) [of ?c now] snoc by blast
    have "ec_timeout_next_date (calculate_next_tick now ?c) = start + (k + j) * delay"
      using k(2) j(2) by (simp add: algebra_simps)
    then show ?case using k(1) j(1) step(2) [of ?c now] snoc by (auto intro!: exI [of _ "k + j"])
  qed
  then show ?thesis using step(3) by blast
qed

section \<open>Waiting\<close>

text \<open>What the loop does not change of a connection before it waits.\<close>

definition same_timers :: "event_connection \<Rightarrow> event_connection \<Rightarrow> bool" where
  "same_timers c c' \<longleftrightarrow> get_timeout_timestamp c = get_timeout_timestamp c' \<and> ec_enabled c = ec_enabled c'"

definition due_by :: "int option \<Rightarrow> int \<Rightarrow> bool" where
  "due_by next t \<longleftrightarrow> (case next of None \<Rightarrow> False | Some t' \<Rightarrow> t' \<le> t)"

lemma due_by_earlier: "due_by next t \<Longrightarrow> due_by (earlier t' next) t" "t \<noteq> -1 \<Longrightarrow> due_by (earlier t next) t"
  by (auto simp: due_by_def earlier_def split: option.splits)

lemma wait_one_spec:
  assumes "wait_one a (w, s) = (w', s')"
  shows "wt_enabled w' = wt_enabled w @ [ec_enabled (lp_heap s a)]" "lp_connections s' = lp_connections s"
    "x \<noteq> a \<Longrightarrow> lp_heap s' x = lp_heap s x" "same_timers (lp_heap s' a) (lp_heap s a)"
    "ec_enabled (lp_heap s a) \<Longrightarrow> ec_saved_timeout_stamp (lp_heap s' a) = get_timeout_timestamp (lp_heap s a)"
    "due_by (wt_next_timeout w) t \<Longrightarrow> due_by (wt_next_timeout w') t"
    "ec_enabled (lp_heap s a) \<Longrightarrow> get_timeout_timestamp (lp_heap s a) \<noteq> -1 \<Longrightarrow>
      due_by (wt_next_timeout w') (get_timeout_timestamp (lp_heap s a))"
  using assms due_by_earlier
  by (auto simp: wait_one_def Let_def with_connection_def same_timers_def get_timeout_timestamp_def split: if_splits)

lemma prepare_spec:
  "distinct as \<Longrightarrow> fold wait_one as (w, s) = (w', s') \<Longrightarrow>
   wt_enabled w' = wt_enabled w @ map (\<lambda>a. ec_enabled (lp_heap s a)) as
   \<and> (\<forall>a. same_timers (lp_heap s' a) (lp_heap s a) \<and> (a \<notin> set as \<longrightarrow> lp_heap s' a = lp_heap s a))
   \<and> (\<forall>t. due_by (wt_next_timeout w) t \<longrightarrow> due_by (wt_next_timeout w') t)
   \<and> (\<forall>a\<in>set as. ec_enabled (lp_heap s a) \<longrightarrow>
        ec_saved_timeout_stamp (lp_heap s' a) = get_timeout_timestamp (lp_heap s a)
        \<and> (get_timeout_timestamp (lp_heap s a) \<noteq> -1 \<longrightarrow> due_by (wt_next_timeout w') (get_timeout_timestamp (lp_heap s a))))"
proof (induction as arbitrary: w s)
  case Nil
  then show ?case by (simp add: same_timers_def)
next
  case (Cons a as)
  obtain w1 s1 where 1: "wait_one a (w, s) = (w1, s1)" by fastforce
  have f: "fold wait_one as (w1, s1) = (w', s')" "distinct as" "a \<notin> set as" using Cons(2,3) 1 by simp_all
  note ih = Cons(1) [OF f(2,1)] and w = wait_one_spec [OF 1]
  have same: "same_timers (lp_heap s1 x) (lp_heap s x)" for x
    using w(3) [of x] w(4) by (cases "x = a") (auto simp: same_timers_def)
  have a: "lp_heap s' a = lp_heap s1 a" using ih f(3) by blast
  have en: "map (\<lambda>a. ec_enabled (lp_heap s1 a)) as = map (\<lambda>a. ec_enabled (lp_heap s a)) as"
    using same by (simp add: same_timers_def)
  show ?case
  proof (intro conjI)
    show "wt_enabled w' = wt_enabled w @ map (\<lambda>a. ec_enabled (lp_heap s a)) (a # as)" using ih w(1) en by simp
    show "\<forall>x. same_timers (lp_heap s' x) (lp_heap s x) \<and> (x \<notin> set (a # as) \<longrightarrow> lp_heap s' x = lp_heap s x)"
      using ih same w(3) by (simp add: same_timers_def)
    show "\<forall>t. due_by (wt_next_timeout w) t \<longrightarrow> due_by (wt_next_timeout w') t" using ih w(6) by blast
    have "ec_saved_timeout_stamp (lp_heap s' x) = get_timeout_timestamp (lp_heap s x)
        \<and> (get_timeout_timestamp (lp_heap s x) \<noteq> -1 \<longrightarrow> due_by (wt_next_timeout w') (get_timeout_timestamp (lp_heap s x)))"
      if "x \<in> set (a # as)" "ec_enabled (lp_heap s x)" for x
    proof (cases "x = a")
      case True
      then show ?thesis using a w(5,7) that(2) ih by simp
    next
      case False
      then have "x \<in> set as" "ec_enabled (lp_heap s1 x)" using that same [of x] by (auto simp: same_timers_def)
      then have "ec_saved_timeout_stamp (lp_heap s' x) = get_timeout_timestamp (lp_heap s1 x)
          \<and> (get_timeout_timestamp (lp_heap s1 x) \<noteq> -1 \<longrightarrow> due_by (wt_next_timeout w') (get_timeout_timestamp (lp_heap s1 x)))"
        using ih by blast
      moreover have "get_timeout_timestamp (lp_heap s1 x) = get_timeout_timestamp (lp_heap s x)"
        using same [of x] by (simp add: same_timers_def)
      ultimately show ?thesis by simp
    qed
    then show "\<forall>x\<in>set (a # as). ec_enabled (lp_heap s x) \<longrightarrow>
        ec_saved_timeout_stamp (lp_heap s' x) = get_timeout_timestamp (lp_heap s x)
        \<and> (get_timeout_timestamp (lp_heap s x) \<noteq> -1 \<longrightarrow> due_by (wt_next_timeout w') (get_timeout_timestamp (lp_heap s x)))"
      by blast
  qed
qed

lemma poll_timeout_bound:
  assumes "due_by next t" "t - now < 2 ^ 31 * 1000"
  shows "0 \<le> poll_timeout now next \<and> poll_timeout now next * 1000 \<le> max 1000 (t - now)"
proof -
  obtain t' where t: "next = Some t'" "t' \<le> t" using assms(1) by (cases "next") (auto simp: due_by_def)
  have d: "(t' - now) div 1000 * 1000 \<le> t' - now"
    using minus_mod_eq_div_mult [of "t' - now" 1000] pos_mod_sign [of 1000 "t' - now"] by linarith
  show ?thesis
  proof (cases "t' - now < 0")
    case False
    then have "0 \<le> (t' - now) div 1000" by (simp add: pos_imp_zdiv_nonneg_iff)
    moreover have "(t' - now) div 1000 < 2 ^ 31" using d t(2) assms(2) by simp
    ultimately show ?thesis using t d False by (auto simp: poll_timeout_def Let_def int32_id)
  qed (simp add: poll_timeout_def t int32_id)
qed

text \<open>A timer that is about 25 days away makes the timeout negative, with which \<open>poll\<close> waits forever.\<close>

lemma far_timer_not_waited_for: "poll_timeout now (Some (now + 2 ^ 31 * 1000)) < 0"
  by (simp add: poll_timeout_def int32_def)

section \<open>Events\<close>

text \<open>The members the callbacks of a connection have no access to.\<close>

definition same_private :: "'a loop_scheme \<Rightarrow> 'a loop_scheme \<Rightarrow> bool" where
  "same_private s s' \<longleftrightarrow> (\<forall>a. ec_saved_timeout_stamp (lp_heap s a) = ec_saved_timeout_stamp (lp_heap s' a)
     \<and> ec_fds_position (lp_heap s a) = ec_fds_position (lp_heap s' a))"

definition keeps_private :: "('a loop_scheme) event_callback \<Rightarrow> bool" where
  "keeps_private cb \<longleftrightarrow> (\<forall>e a s. same_private (cb e a s) s)"

lemma same_private_trans: "same_private s s' \<Longrightarrow> same_private s' s'' \<Longrightarrow> same_private s s''"
  by (simp add: same_private_def)

text \<open>The events of one connection.\<close>

definition only_of :: "nat \<Rightarrow> ('a loop_scheme) traced \<Rightarrow> ('a loop_scheme) traced \<Rightarrow> loop_event list \<Rightarrow> bool" where
  "only_of a t t' es \<longleftrightarrow> fst t' = fst t @ map (\<lambda>e. (e, a)) es \<and> same_private (snd t') (snd t)"

lemma only_of_trans: "only_of a t t' es \<Longrightarrow> only_of a t' t'' es' \<Longrightarrow> only_of a t t'' (es @ es')"
  using same_private_trans by (auto simp: only_of_def)

lemma call_if_only:
  "keeps_private cb \<Longrightarrow> only_of a t (call_if b cb e a t) (if b then [e] else [])"
  by (cases t) (simp add: only_of_def call_if_def call_def keeps_private_def same_private_def)

lemma run_revents_only:
  assumes "keeps_private cb"
  shows "\<exists>es. only_of a t (run_revents cb revents a t) es \<and> Process_timeout \<notin> set es"
proof -
  let ?in = "input_event (lp_heap (snd t) a)"
  have i: "?in \<noteq> Process_timeout" by (simp add: input_event_def)
  have c: "\<exists>es'. only_of a t (call_if b cb e a t') es' \<and> Process_timeout \<notin> set es'"
    if "\<exists>es. only_of a t t' es \<and> Process_timeout \<notin> set es" "e \<noteq> Process_timeout" for b e t'
    using that only_of_trans [OF _ call_if_only [OF assms, of a t' b e]] by (fastforce split: if_splits)
  have "\<exists>es. only_of a t t es \<and> Process_timeout \<notin> set es"
    by (auto simp: only_of_def same_private_def intro: exI [of _ "[]"])
  then show ?thesis
    unfolding run_revents_def Let_def by (intro c) (simp_all add: i)
qed

definition runs_out :: "turn \<Rightarrow> nat \<Rightarrow> int \<Rightarrow> bool" where
  "runs_out tn i timestamp \<longleftrightarrow> timestamp \<noteq> -1 \<and> tn_date tn i \<ge> timestamp"

lemma run_timeout_only:
  assumes "keeps_private cb"
  shows "only_of a t (run_timeout cb tn i a t)
    (if runs_out tn i (ec_saved_timeout_stamp (lp_heap (snd t) a)) then [Process_timeout] else [])"
proof -
  have "same_private (with_connection a (\<lambda>c. let c = calculate_next_tick n c in
      if d \<ge> ec_timeout_date c then c\<lparr>ec_timeout_date := -1\<rparr> else c) s) s" for n d s
    by (simp add: same_private_def with_connection_def Let_def calculate_next_tick_def)
  then show ?thesis
    using assms same_private_trans
    by (cases t) (fastforce simp: only_of_def run_timeout_def runs_out_def call_def keeps_private_def Let_def same_private_def)
qed

lemma run_one_only:
  assumes "keeps_private cb"
  shows "\<exists>es. only_of a t (run_one cb tn en (i, a) t) es \<and> (en ! i \<or> es = [])
    \<and> count_list es Process_timeout = (if en ! i \<and> runs_out tn i (ec_saved_timeout_stamp (lp_heap (snd t) a)) then 1 else 0)"
proof (cases "en ! i")
  case True
  let ?t = "if ec_fds_position (lp_heap (snd t) a) \<ge> 0
    then run_revents cb (tn_revents tn ! nat (ec_fds_position (lp_heap (snd t) a))) a t else t"
  have "\<exists>es. only_of a t ?t es \<and> Process_timeout \<notin> set es"
  proof (cases "ec_fds_position (lp_heap (snd t) a) \<ge> 0")
    case True
    then show ?thesis using run_revents_only [OF assms] by simp
  next
    case False
    then have "?t = t" by simp
    moreover have "only_of a t t []" by (simp add: only_of_def same_private_def)
    ultimately show ?thesis by (intro exI [of _ "[]"]) simp
  qed
  then obtain es where es: "only_of a t ?t es" "Process_timeout \<notin> set es" by blast
  have "ec_saved_timeout_stamp (lp_heap (snd ?t) a) = ec_saved_timeout_stamp (lp_heap (snd t) a)"
    using es(1) unfolding only_of_def same_private_def by blast
  let ?x = "if runs_out tn i (ec_saved_timeout_stamp (lp_heap (snd t) a)) then [Process_timeout] else []"
  have "only_of a t (run_one cb tn en (i, a) t) (es @ ?x)"
    using only_of_trans [OF es(1) run_timeout_only [OF assms, of a ?t tn i]] True
      \<open>ec_saved_timeout_stamp (lp_heap (snd ?t) a) = ec_saved_timeout_stamp (lp_heap (snd t) a)\<close>
    by (simp add: run_one_def Let_def del: if_split)
  then show ?thesis using True es(2) by (intro exI [of _ "es @ ?x"]) (simp add: count_list_0_iff)
next
  case False
  then show ?thesis by (auto simp: run_one_def only_of_def same_private_def intro: exI [of _ "[]"])
qed

text \<open>The events of a turn, by connection.\<close>

lemma run_all_events:
  assumes "keeps_private cb"
  shows "\<exists>ess. length ess = length as \<and> same_private (snd (fold (run_one cb tn en) (enumerate n as) t)) (snd t)
    \<and> fst (fold (run_one cb tn en) (enumerate n as) t) = fst t @ concat (map2 (\<lambda>a es. map (\<lambda>e. (e, a)) es) as ess)
    \<and> (\<forall>i<length as. count_list (ess ! i) Process_timeout
        = (if en ! (n + i) \<and> runs_out tn (n + i) (ec_saved_timeout_stamp (lp_heap (snd t) (as ! i))) then 1 else 0))"
proof (induction as arbitrary: n t)
  case Nil
  then show ?case by (simp add: same_private_def)
next
  case (Cons a as)
  let ?t = "run_one cb tn en (n, a) t"
  obtain es where es: "only_of a t ?t es"
    "count_list es Process_timeout = (if en ! n \<and> runs_out tn n (ec_saved_timeout_stamp (lp_heap (snd t) a)) then 1 else 0)"
    using run_one_only [OF assms] by blast
  obtain ess where ess: "length ess = length as" "same_private (snd (fold (run_one cb tn en) (enumerate (Suc n) as) ?t)) (snd ?t)"
    "fst (fold (run_one cb tn en) (enumerate (Suc n) as) ?t) = fst ?t @ concat (map2 (\<lambda>a es. map (\<lambda>e. (e, a)) es) as ess)"
    "\<forall>i<length as. count_list (ess ! i) Process_timeout
        = (if en ! (Suc n + i) \<and> runs_out tn (Suc n + i) (ec_saved_timeout_stamp (lp_heap (snd ?t) (as ! i))) then 1 else 0)"
    using Cons by blast
  have p: "same_private (snd ?t) (snd t)" using es(1) by (simp add: only_of_def)
  then have "ec_saved_timeout_stamp (lp_heap (snd ?t) x) = ec_saved_timeout_stamp (lp_heap (snd t) x)" for x
    unfolding same_private_def by blast
  then show ?case
    using es ess same_private_trans [OF ess(2) p]
    by (intro exI [of _ "es # ess"]) (auto simp: only_of_def less_Suc_eq_0_disj)
qed

section \<open>A turn\<close>

lemma mset_insert_connection: "mset (insert_connection p a as) = add_mset a (mset as)"
  by (induction as) auto

lemma sorted_insert_connection:
  "sorted (map p as) \<Longrightarrow> sorted (map p (insert_connection p a as))"
proof (induction as)
  case (Cons a' as)
  have "set (insert_connection p a as) = insert a (set as)"
    using arg_cong [OF mset_insert_connection [of p a as], of set_mset] by simp
  then show ?case using Cons by auto
qed simp

lemma sort_connections_spec:
  "lp_heap (sort_connections s) = lp_heap s" "mset (lp_connections (sort_connections s)) = mset (lp_connections s)"
  "lp_force_sort s \<Longrightarrow> sorted (map (\<lambda>a. ec_priority (lp_heap s a)) (lp_connections (sort_connections s)))"
proof -
  have "mset (foldr (insert_connection p) as []) = mset as \<and> sorted (map p (foldr (insert_connection p) as []))" for p as
    by (induction as) (simp_all add: mset_insert_connection sorted_insert_connection)
  then show "lp_heap (sort_connections s) = lp_heap s" "mset (lp_connections (sort_connections s)) = mset (lp_connections s)"
    "lp_force_sort s \<Longrightarrow> sorted (map (\<lambda>a. ec_priority (lp_heap s a)) (lp_connections (sort_connections s)))"
    by (simp_all add: sort_connections_def)
qed

lemma run_turn_going_on:
  assumes "run_turn cb tn s = Going_on (tr, s')"
  obtains w s1 where "prepare_wait (sort_connections s) = (w, s1)"
    "(tr, s') = fold (run_one cb tn (wt_enabled w)) (enumerate 0 (lp_connections (sort_connections s))) ([], s1)"
  using assms that by (auto simp: run_turn_def Let_def split: if_splits prod.splits option.splits)

lemma count_list_append': "count_list (xs @ ys) x = count_list xs x + count_list ys x"
  by (induction xs) auto

lemma count_events:
  "distinct as \<Longrightarrow> length ess = length as \<Longrightarrow> i < length as \<Longrightarrow>
   count_list (concat (map2 (\<lambda>a es. map (\<lambda>e. (e, a)) es) as ess)) (x, as ! i) = count_list (ess ! i) x"
proof (induction as arbitrary: ess i)
  case (Cons a as)
  obtain es ess' where e: "ess = es # ess'" "length ess' = length as" using Cons(3) by (cases ess) auto
  have m: "count_list (map (\<lambda>e. (e, a)) es) (x, b) = (if a = b then count_list es x else 0)" for b
    by (induction es) auto
  show ?case
  proof (cases i)
    case 0
    have "(x, a) \<notin> set (concat (map2 (\<lambda>a es. map (\<lambda>e. (e, a)) es) as ess'))"
      using Cons(2) by (auto dest: set_zip_leftD)
    then show ?thesis using 0 e m by (simp add: count_list_append' count_list_0_iff)
  next
    case (Suc j)
    then show ?thesis using Cons e m by (simp add: count_list_append') (metis nth_mem)
  qed
qed simp

text \<open>
  C15. Timers run when they are due, exactly once in a turn of the loop, and never before: a connection that is enabled
  gets its timeout event when the date at which the loop looks at it is not before the one it asked for, whatever the
  callbacks of the other connections do; and when that date is less than \<open>2 ^ 31\<close> milliseconds (about 25 days) away,
  the loop does not wait for longer than until then, or for a millisecond when it is nearer than that. The connections of
  the loop are distinct, and no callback changes what only the communicator has access to.
\<close>

theorem due_timers_run:
  assumes "keeps_private cb" "distinct (lp_connections s)" "run_turn cb tn s = Going_on (tr, s')"
    "i < length (lp_connections s)" "a = lp_connections (sort_connections s) ! i" "t = get_timeout_timestamp (lp_heap s a)"
  shows "count_list tr (Process_timeout, a) = (if ec_enabled (lp_heap s a) \<and> t \<noteq> -1 \<and> t \<le> tn_date tn i then 1 else 0)
    \<and> (ec_enabled (lp_heap s a) \<and> t \<noteq> -1 \<and> t - tn_now tn < 2 ^ 31 * 1000 \<longrightarrow>
       (let ms = poll_timeout (tn_now tn) (wt_next_timeout (fst (prepare_wait (sort_connections s)))) in
        0 \<le> ms \<and> ms * 1000 \<le> max 1000 (t - tn_now tn)))"
proof -
  let ?as = "lp_connections (sort_connections s)"
  obtain w s1 where p: "prepare_wait (sort_connections s) = (w, s1)"
    and f: "(tr, s') = fold (run_one cb tn (wt_enabled w)) (enumerate 0 ?as) ([], s1)"
    using run_turn_going_on [OF assms(3)] .
  have d: "distinct ?as" "length ?as = length (lp_connections s)"
    using sort_connections_spec(2) [of s] assms(2) mset_eq_imp_distinct_iff mset_eq_length by blast+
  have q: "fold wait_one ?as (\<lparr>wt_enabled = [], wt_fds = [], wt_next_timeout = None\<rparr>, sort_connections s) = (w, s1)"
    using p by (simp add: prepare_wait_def)
  note prep = prepare_spec [OF d(1) q, unfolded sort_connections_spec(1)]
  obtain ess where e: "length ess = length ?as" "tr = concat (map2 (\<lambda>a es. map (\<lambda>e. (e, a)) es) ?as ess)"
    "\<forall>i<length ?as. count_list (ess ! i) Process_timeout
        = (if wt_enabled w ! i \<and> runs_out tn i (ec_saved_timeout_stamp (lp_heap s1 (?as ! i))) then 1 else 0)"
    using run_all_events [OF assms(1), of ?as tn "wt_enabled w" 0 "([], s1)"] arg_cong [OF f, of fst] by auto
  have i: "i < length ?as" "a \<in> set ?as" using assms(4,5) d(2) by auto
  have en: "wt_enabled w ! i = ec_enabled (lp_heap s a)" using prep i(1) assms(5) by simp
  have saved: "ec_enabled (lp_heap s a) \<Longrightarrow> ec_saved_timeout_stamp (lp_heap s1 a) = t"
    "ec_enabled (lp_heap s a) \<Longrightarrow> t \<noteq> -1 \<Longrightarrow> due_by (wt_next_timeout w) t"
    using prep i(2) assms(6) by blast+
  have "count_list tr (Process_timeout, a) = count_list (ess ! i) Process_timeout"
    using count_events [OF d(1) e(1) i(1)] e(2) assms(5) by simp
  then show ?thesis
    using e(3) i(1) en saved poll_timeout_bound [of "wt_next_timeout w" t] assms(5) p
    by (auto simp: runs_out_def Let_def)
qed

text \<open>When a sort was asked for, the events of a turn come in the order of the priorities.\<close>

lemma events_by_priority:
  assumes "keeps_private cb" "lp_force_sort s" "run_turn cb tn s = Going_on (tr, s')"
  shows "sorted (map (\<lambda>x. ec_priority (lp_heap s (snd x))) tr)"
proof -
  let ?as = "lp_connections (sort_connections s)"
  obtain w s1 where "prepare_wait (sort_connections s) = (w, s1)"
    and f: "(tr, s') = fold (run_one cb tn (wt_enabled w)) (enumerate 0 ?as) ([], s1)"
    using run_turn_going_on [OF assms(3)] .
  obtain ess where e: "length ess = length ?as" "tr = concat (map2 (\<lambda>a es. map (\<lambda>e. (e, a)) es) ?as ess)"
    using run_all_events [OF assms(1), of ?as tn "wt_enabled w" 0 "([], s1)"] arg_cong [OF f, of fst] by auto
  have "sorted (map p as) \<Longrightarrow> length ess = length as \<Longrightarrow>
      sorted (map (\<lambda>x. p (snd x)) (concat (map2 (\<lambda>a es. map (\<lambda>e. (e, a)) es) as ess)))" for p :: "nat \<Rightarrow> int" and as and ess :: "loop_event list list"
  proof (induction as arbitrary: ess)
    case (Cons a as)
    obtain es ess' where "ess = es # ess'" "length ess' = length as" using Cons(3) by (cases ess) auto
    moreover have "sorted (map (\<lambda>x. p a) es)" for es :: "loop_event list" by (induction es) auto
    ultimately show ?case using Cons by (auto simp: sorted_append comp_def dest: set_zip_leftD)
  qed simp
  then show ?thesis using sort_connections_spec(3) [OF assms(2)] e by blast
qed

definition idle_connection :: event_connection where
  "idle_connection = \<lparr>ec_enabled = True, ec_listener = False, ec_signal = False, ec_reader = True, ec_writer = False, ec_socket = 5,
     ec_priority = 100, ec_timeout_delay = -1, ec_timeout_next_date = -1, ec_timeout_date = -1, ec_saved_timeout_stamp = -1,
     ec_fds_position = -1\<rparr>"

definition two_connections :: loop where
  "two_connections = \<lparr>lp_connections = [0, 1],
     lp_heap = (\<lambda>a. if a = 0 then idle_connection
       else idle_connection\<lparr>ec_priority := 50, ec_timeout_delay := 1000, ec_timeout_next_date := 5000\<rparr>), lp_force_sort = True\<rparr>"

definition sample_turn :: turn where
  "sample_turn = \<lparr>tn_now = 100, tn_errno = None, tn_revents = [[], [POLLIN]], tn_date = (\<lambda>i. 5100), tn_tick_date = (\<lambda>i. 5101)\<rparr>"

lemma sample_turn_runs:
  "\<exists>s'. run_turn (\<lambda>e a s. s) sample_turn two_connections = Going_on ([(Process_timeout, 1), (Process_read, 0)], s')"
  by (simp add: run_turn_def two_connections_def sort_connections_def prepare_wait_def wait_one_def idle_connection_def
      Let_def with_connection_def get_timeout_timestamp_def wanted_events_def earlier_def sample_turn_def run_one_def
      run_timeout_def run_revents_def call_if_def call_def input_event_def)

lemma due_timers_run_witness:
  "(let ms = poll_timeout 100 (wt_next_timeout (fst (prepare_wait (sort_connections two_connections)))) in
    0 \<le> ms \<and> ms * 1000 \<le> 4900)"
proof -
  obtain s' where s: "run_turn (\<lambda>e a s. s) sample_turn two_connections = Going_on ([(Process_timeout, 1), (Process_read, 0)], s')"
    using sample_turn_runs by blast
  have k: "keeps_private (\<lambda>e a s. s)" by (simp add: keeps_private_def same_private_def)
  have a: "lp_connections (sort_connections two_connections) ! 0 = 1" "length (lp_connections two_connections) = 2"
    "distinct (lp_connections two_connections)"
    by (simp_all add: sort_connections_def two_connections_def idle_connection_def)
  have t: "get_timeout_timestamp (lp_heap two_connections 1) = 5000" "ec_enabled (lp_heap two_connections 1)" "tn_now sample_turn = 100"
    by (simp_all add: get_timeout_timestamp_def two_connections_def idle_connection_def sample_turn_def)
  show ?thesis
    using due_timers_run [OF k a(3) s, of 0 1 5000] a t by simp
qed

lemma timer_keeps_rhythm_sample:
  "(1700::int) \<le> ec_timeout_next_date (calculate_next_tick 1700 (idle_connection\<lparr>ec_timeout_delay := 500, ec_timeout_next_date := 600\<rparr>))
   \<and> ec_timeout_next_date (calculate_next_tick 1700 (idle_connection\<lparr>ec_timeout_delay := 500, ec_timeout_next_date := 600\<rparr>)) < 1700 + 500"
proof -
  let ?c = "idle_connection\<lparr>ec_timeout_delay := 500, ec_timeout_next_date := 600\<rparr>"
  have "set_timeout_delay 100 500 idle_connection = Inr ?c" by (simp add: set_timeout_delay_def)
  from timer_keeps_rhythm [OF this _ refl, of "[]" 1700] show ?thesis by simp
qed

end
