(* ===== verification/PermanentProps.thy ===== *)
theory PermanentProps
  imports CommPermanent BufferProps LoopProps
begin

text \<open>
  A permanent connection loses no message it took and, as long as it is in use, never stops trying to connect.
\<close>

section \<open>Steps\<close>

text \<open>
  What happens to a permanent connection: the program sends a message, to be kept or not when there is no connection,
  disconnects it or marks it done; the loop runs its timer when it has it and it is enabled; the thread ends when it
  runs; the messenger writes, or is lost, when there is one. The timer is run as \<open>run_timeout\<close> does.
\<close>

datatype permanent_step =
    Send_message message bool
  | Disconnect
  | Mark_done bool
  | Timer int bool "buffer option"
  | Thread_done "buffer option"
  | Messenger_writes nat
  | Messenger_lost

definition timer_due :: "int \<Rightarrow> event_connection \<Rightarrow> event_connection" where
  "timer_due now c =
     (let c = calculate_next_tick now c in if now \<ge> ec_timeout_date c then c\<lparr>ec_timeout_date := -1\<rparr> else c)"

text \<open>The loop asks the messenger to write when it is a writer; when its buffer gets empty it tells its parent.\<close>

definition messenger_writes :: "nat \<Rightarrow> permanent \<Rightarrow> permanent" where
  "messenger_writes n p =
     (case pm_messenger p of
        None \<Rightarrow> p
      | Some b \<Rightarrow>
          if \<not> is_writer b then p
          else
            let b = snd (process_write idle_callbacks (Written n) b); p = p\<lparr>pm_messenger := Some b\<rparr> in
            if b_output b = [] then permanent_empty_buffer p else p)"

definition permanent_step :: "env \<Rightarrow> permanent_step \<Rightarrow> permanent \<Rightarrow> permanent res" where
  "permanent_step E st p =
     (case st of
        Send_message m cache \<Rightarrow> rbind (permanent_send_message E m cache p) (\<lambda>(ok, p). Inr p)
      | Disconnect \<Rightarrow> Inr (disconnect p)
      | Mark_done messenger \<Rightarrow> Inr (permanent_mark_done messenger p)
      | Timer now started client \<Rightarrow>
          if \<not> pm_registered p \<or> \<not> ec_enabled (pm_timer p) then Inr p
          else permanent_timeout E now started client (p\<lparr>pm_timer := timer_due now (pm_timer p)\<rparr>)
      | Thread_done client \<Rightarrow> if pm_thread p then thread_done E client p else Inr p
      | Messenger_writes n \<Rightarrow> Inr (messenger_writes n p)
      | Messenger_lost \<Rightarrow> Inr (if permanent_is_connected p then connection_lost p else p))"

text \<open>What a step adds to the output of the messenger.\<close>

definition handed :: "permanent_step \<Rightarrow> permanent \<Rightarrow> permanent \<Rightarrow> string" where
  "handed st p p' =
     (case st of
        Messenger_writes _ \<Rightarrow> []
      | _ \<Rightarrow> (case pm_messenger p' of None \<Rightarrow> [] | Some b' \<Rightarrow>
          (case pm_messenger p of None \<Rightarrow> b_output b' | Some b \<Rightarrow> drop (length (b_output b)) (b_output b'))))"

text \<open>
  The messages a connection takes: those sent when it is connected, and those sent with the cache flag. Without it, and
  it is not set by default, a message sent when there is no connection is dropped, and the caller told so.
\<close>

definition taken :: "permanent_step \<Rightarrow> permanent \<Rightarrow> message list" where
  "taken st p =
     (case st of Send_message m cache \<Rightarrow> if cache \<or> permanent_is_connected p then [m] else [] | _ \<Rightarrow> [])"

text \<open>The output given to messengers, the messages taken, and the connection behind the steps.\<close>

fun permanent_steps :: "env \<Rightarrow> permanent_step list \<Rightarrow> permanent \<Rightarrow> (string \<times> message list \<times> permanent) res" where
  "permanent_steps E [] p = Inr ([], [], p)"
| "permanent_steps E (st # sts) p =
     rbind (permanent_step E st p) (\<lambda>p1. rbind (permanent_steps E sts p1) (\<lambda>(out, ms, p2).
       Inr (handed st p p1 @ out, taken st p @ ms, p2)))"

definition sent_messages :: "permanent_step list \<Rightarrow> message list" where
  "sent_messages sts = concat (map (\<lambda>st. case st of Send_message m _ \<Rightarrow> [m] | _ \<Rightarrow> []) sts)"

definition lines_of :: "env \<Rightarrow> message list \<Rightarrow> string" where
  "lines_of E ms = concat (map (\<lambda>m. message_line E m @ [NL]) ms)"

text \<open>A new connection can be written to and has an empty buffer.\<close>

definition client_ok :: "buffer option \<Rightarrow> bool" where
  "client_ok client \<longleftrightarrow> (case client of None \<Rightarrow> True | Some b \<Rightarrow> can_write b \<and> b_output b = [] \<and> b_position b = 0)"

definition step_ok :: "permanent_step \<Rightarrow> bool" where
  "step_ok st \<longleftrightarrow> (case st of Timer now _ client \<Rightarrow> 0 \<le> now \<and> client_ok client | Thread_done client \<Rightarrow> client_ok client | _ \<Rightarrow> True)"

text \<open>The program neither disconnects the connection nor marks it done.\<close>

definition in_use :: "permanent_step \<Rightarrow> bool" where
  "in_use st \<longleftrightarrow> (case st of Disconnect \<Rightarrow> False | Mark_done _ \<Rightarrow> False | _ \<Rightarrow> True)"

section \<open>The messages\<close>

text \<open>The timer is enabled only when the connection is down and no thread tries to make it.\<close>

definition messenger_ok :: "permanent \<Rightarrow> bool" where
  "messenger_ok p \<longleftrightarrow> \<not> pm_impl_done p
     \<and> (ec_enabled (pm_timer p) \<longrightarrow> pm_messenger p = None \<and> \<not> pm_thread p) \<and> (pm_thread p \<longrightarrow> pm_messenger p = None)
     \<and> (case pm_messenger p of None \<Rightarrow> True | Some b \<Rightarrow> can_write b \<and> pm_message_cache p = [])"

lemma send_message_output:
  assumes "can_write b" "connection_send_message E m b = Inr (ok, b')"
  shows "b_output b' = b_output b @ message_line E m @ [NL] \<and> can_write b' \<and> b_position b' = b_position b"
  using assms
  by (auto simp: connection_send_message_def buffer_write_def message_line_def rbind_Inr_iff Let_def can_write_def split: if_splits)

lemma send_cache_output:
  "can_write b \<Longrightarrow> send_cache E ms b = Inr b' \<Longrightarrow> b_output b' = b_output b @ lines_of E ms \<and> can_write b'"
proof (induction E ms b rule: send_cache.induct)
  case (2 E m ms b)
  obtain ok b1 where 1: "connection_send_message E m b = Inr (ok, b1)" "send_cache E ms b1 = Inr b'"
    using 2(3) by (auto simp: rbind_Inr_iff)
  have "can_write b1" "b_output b1 = b_output b @ message_line E m @ [NL]"
    using send_message_output [OF 2(2) 1(1)] by simp_all
  then show ?case using 2(1) [OF 1(1) refl _ 1(2)] by (simp add: lines_of_def)
qed (simp add: lines_of_def)

lemma lines_of_simps [simp]: "lines_of E [] = []" "lines_of E (ms @ ms') = lines_of E ms @ lines_of E ms'"
  by (simp_all add: lines_of_def)

text \<open>What is kept and what was handed over make up what was taken.\<close>

definition accounted :: "env \<Rightarrow> permanent_step \<Rightarrow> permanent \<Rightarrow> permanent \<Rightarrow> bool" where
  "accounted E st p p' \<longleftrightarrow> handed st p p' @ lines_of E (pm_message_cache p')
     = lines_of E (pm_message_cache p) @ lines_of E (taken st p)"

text \<open>The end of an attempt to connect.\<close>

definition same_use :: "permanent \<Rightarrow> permanent \<Rightarrow> bool" where
  "same_use p p' \<longleftrightarrow> pm_pause p' = pm_pause p \<and> pm_done p' = pm_done p \<and> pm_registered p' = pm_registered p
     \<and> (\<exists>b. pm_timer p' = (pm_timer p)\<lparr>ec_enabled := b\<rparr>)"

lemma thread_done_ok:
  assumes "\<not> pm_impl_done p" "client_ok client" "thread_done E client p = Inr p'" "pm_messenger p = None"
  shows "messenger_ok p' \<and> lines_of E (pm_message_cache p)
      = (case pm_messenger p' of None \<Rightarrow> [] | Some b \<Rightarrow> b_output b) @ lines_of E (pm_message_cache p')"
    "same_use p p' \<and> ec_enabled (pm_timer p') = (pm_messenger p' = None) \<and> \<not> pm_thread p'"
proof -
  have "(messenger_ok p' \<and> lines_of E (pm_message_cache p)
      = (case pm_messenger p' of None \<Rightarrow> [] | Some b \<Rightarrow> b_output b) @ lines_of E (pm_message_cache p'))
    \<and> same_use p p' \<and> ec_enabled (pm_timer p') = (pm_messenger p' = None) \<and> \<not> pm_thread p'"
  proof (cases client)
    case None
    then have "p' = set_enable True (p\<lparr>pm_thread := False\<rparr>)"
      using assms by (auto simp: thread_done_def Let_def process_connection_failed_def)
    then show ?thesis using assms(1,4) by (auto simp: messenger_ok_def set_enable_def same_use_def)
  next
    case (Some b)
    then have b: "can_write b" "b_output b = []" using assms(2) by (simp_all add: client_ok_def)
    obtain b' where b': "send_cache E (pm_message_cache p) b = Inr b'"
      "p' = permanent_connected (p\<lparr>pm_thread := False, pm_messenger := Some b', pm_message_cache := []\<rparr>)"
      using assms Some by (auto simp: thread_done_def Let_def rbind_Inr_iff)
    then show ?thesis
      using send_cache_output [OF b(1) b'(1)] b(2) assms(1)
      by (auto simp: messenger_ok_def permanent_connected_def set_enable_def same_use_def)
  qed
  then show "messenger_ok p' \<and> lines_of E (pm_message_cache p)
      = (case pm_messenger p' of None \<Rightarrow> [] | Some b \<Rightarrow> b_output b) @ lines_of E (pm_message_cache p')"
    "same_use p p' \<and> ec_enabled (pm_timer p') = (pm_messenger p' = None) \<and> \<not> pm_thread p'" by blast+
qed

section \<open>The timer\<close>

definition timer_ok :: "permanent \<Rightarrow> bool" where
  "timer_ok p \<longleftrightarrow> 0 \<le> pm_pause p \<and>
     (if ec_timeout_delay (pm_timer p) = -1 then pm_pause p > 0 \<and> ec_timeout_date (pm_timer p) \<noteq> -1
      else 10 \<le> ec_timeout_delay (pm_timer p) \<and> 0 \<le> ec_timeout_next_date (pm_timer p))"

lemma timer_due_ok:
  "ec_timeout_delay (timer_due now (pm_timer p)) = ec_timeout_delay (pm_timer p)"
  "ec_enabled (timer_due now (pm_timer p)) = ec_enabled (pm_timer p)"
  "timer_ok p \<Longrightarrow> ec_timeout_delay (pm_timer p) \<noteq> -1 \<Longrightarrow> 0 \<le> ec_timeout_next_date (timer_due now (pm_timer p))"
proof -
  let ?c = "pm_timer p"
  show "0 \<le> ec_timeout_next_date (timer_due now ?c)" if "timer_ok p" "ec_timeout_delay ?c \<noteq> -1"
  proof -
    have c: "10 \<le> ec_timeout_delay ?c" "0 \<le> ec_timeout_next_date ?c" using that by (simp_all add: timer_ok_def)
    then have "0 \<le> (now - ec_timeout_next_date ?c + ec_timeout_delay ?c - 1) div ec_timeout_delay ?c"
      if "\<not> now - ec_timeout_next_date ?c < 0" using that by (simp add: pos_imp_zdiv_nonneg_iff)
    then show ?thesis using c by (auto simp: timer_due_def calculate_next_tick_def Let_def)
  qed
qed (simp_all add: timer_due_def calculate_next_tick_def Let_def)

text \<open>The connection from which a timeout starts to connect.\<close>

definition ready :: "int \<Rightarrow> permanent \<Rightarrow> permanent" where
  "ready now p =
     (let c = timer_due now (pm_timer p) in
      if pm_pause p > 0 then p\<lparr>pm_timer := c\<lparr>ec_timeout_delay := pm_pause p, ec_timeout_next_date := now + pm_pause p\<rparr>, pm_pause := 0\<rparr>
      else p\<lparr>pm_timer := c\<rparr>)"

lemma ready_simps:
  "pm_messenger (ready now p) = pm_messenger p" "pm_thread (ready now p) = pm_thread p" "pm_done (ready now p) = pm_done p"
  "pm_impl_done (ready now p) = pm_impl_done p" "pm_message_cache (ready now p) = pm_message_cache p"
  "pm_registered (ready now p) = pm_registered p" "ec_enabled (pm_timer (ready now p)) = ec_enabled (pm_timer p)"
  by (simp_all add: ready_def Let_def timer_due_ok)

lemma timeout_starts:
  assumes "messenger_ok p" "\<not> pm_done p" "ec_enabled (pm_timer p)"
    "permanent_timeout E now started client (p\<lparr>pm_timer := timer_due now (pm_timer p)\<rparr>) = Inr p'"
  shows "p' = (if started then set_enable False ((ready now p)\<lparr>pm_thread := True\<rparr>) else (ready now p)\<lparr>pm_thread := False\<rparr>)
      \<or> thread_done E client (ready now p) = Inr p'"
    "timer_ok p \<Longrightarrow> 0 \<le> now \<Longrightarrow> timer_ok (ready now p)"
proof -
  have pause: "pm_pause p > 0 \<Longrightarrow> 10 \<le> pm_pause p"
    using assms(2,4) by (auto simp: permanent_timeout_def set_timeout_delay_def split: if_splits)
  show "p' = (if started then set_enable False ((ready now p)\<lparr>pm_thread := True\<rparr>) else (ready now p)\<lparr>pm_thread := False\<rparr>)
      \<or> thread_done E client (ready now p) = Inr p'"
    using assms pause
    by (auto simp: messenger_ok_def permanent_timeout_def set_timeout_delay_def background_connect_def connect_def ready_def Let_def
        split: if_splits)
  show "timer_ok (ready now p)" if t: "timer_ok p" "0 \<le> now"
  proof (cases "pm_pause p > 0")
    case True
    then show ?thesis using pause t(2) by (simp add: timer_ok_def ready_def Let_def)
  next
    case False
    then have "ec_timeout_delay (pm_timer p) \<noteq> -1" "10 \<le> ec_timeout_delay (pm_timer p)"
      using t(1) by (auto simp: timer_ok_def split: if_splits)
    then show ?thesis using False timer_due_ok(1) [of now p] timer_due_ok(3) [of p now] t(1) by (simp add: timer_ok_def ready_def Let_def)
  qed
qed

section \<open>Every step\<close>

lemma process_write_can: "can_write b \<Longrightarrow> can_write (snd (process_write idle_callbacks a b))"
  by (cases a) (auto simp: process_write_def idle_callbacks_def Let_def can_write_def)

lemma messenger_writes_cases:
  assumes "messenger_ok p"
  obtains b where "messenger_writes n p = p\<lparr>pm_messenger := Some b\<rparr>" "pm_messenger p \<noteq> None" "can_write b"
  | "messenger_writes n p = p"
  | "messenger_writes n p = disconnect (p\<lparr>pm_registered := False\<rparr>)" "pm_messenger p \<noteq> None" "pm_done p"
proof (cases "pm_messenger p")
  case None
  then show thesis using that(2) by (simp add: messenger_writes_def)
next
  case (Some b)
  let ?b = "snd (process_write idle_callbacks (Written n) b)"
  have b: "can_write ?b" using assms Some by (intro process_write_can) (simp add: messenger_ok_def)
  consider "\<not> is_writer b" | "is_writer b" "b_output ?b = [] \<and> pm_done p \<and> pm_registered p"
    | "is_writer b" "\<not> (b_output ?b = [] \<and> pm_done p \<and> pm_registered p)" by blast
  then show thesis
  proof cases
    case 1
    then show thesis using that(2) Some by (simp add: messenger_writes_def)
  next
    case 2
    then have "messenger_writes n p = disconnect (p\<lparr>pm_registered := False\<rparr>)"
      using Some by (simp add: messenger_writes_def permanent_empty_buffer_def remove_permanent_def connection_removed_def
          disconnect_def Let_def)
    then show thesis using that(3) Some 2 by blast
  next
    case 3
    then have "messenger_writes n p = p\<lparr>pm_messenger := Some ?b\<rparr>"
      using Some by (auto simp: messenger_writes_def permanent_empty_buffer_def remove_permanent_def Let_def)
    then show thesis using that(1) [OF _ _ b] Some by blast
  qed
qed

lemma timer_step_ok:
  assumes "messenger_ok p" "\<not> pm_done p" "ec_enabled (pm_timer p)" "client_ok client"
    "permanent_timeout E now started client (p\<lparr>pm_timer := timer_due now (pm_timer p)\<rparr>) = Inr p'"
  shows "messenger_ok p' \<and> lines_of E (pm_message_cache p)
    = (case pm_messenger p' of None \<Rightarrow> [] | Some b \<Rightarrow> b_output b) @ lines_of E (pm_message_cache p')"
proof -
  have p: "\<not> pm_impl_done p" "pm_messenger p = None" using assms(1,3) by (auto simp: messenger_ok_def)
  consider "thread_done E client (ready now p) = Inr p'"
    | "p' = (if started then set_enable False ((ready now p)\<lparr>pm_thread := True\<rparr>) else (ready now p)\<lparr>pm_thread := False\<rparr>)"
    using timeout_starts(1) [OF assms(1-3,5)] by blast
  then show ?thesis
  proof cases
    case 1
    then show ?thesis using thread_done_ok(1) [OF _ assms(4) 1] p by (simp add: ready_simps)
  next
    case 2
    then show ?thesis using p by (simp add: messenger_ok_def set_enable_def ready_simps)
  qed
qed

lemma permanent_step_messages:
  assumes "messenger_ok p" "step_ok st" "st \<noteq> Mark_done True" "permanent_step E st p = Inr p'"
  shows "messenger_ok p' \<and> accounted E st p p'"
proof (cases st)
  case (Send_message m cache)
  show ?thesis
  proof (cases "pm_messenger p")
    case None
    then show ?thesis
      using assms Send_message
      by (auto simp: permanent_step_def permanent_send_message_def messenger_ok_def permanent_is_connected_def
          accounted_def handed_def taken_def Let_def)
  next
    case (Some b)
    then have b: "can_write b" "pm_message_cache p = []" using assms(1) by (simp_all add: messenger_ok_def)
    obtain ok b' where b': "connection_send_message E m b = Inr (ok, b')" "p' = p\<lparr>pm_messenger := Some b'\<rparr>"
      using assms(4) Send_message Some by (auto simp: permanent_step_def permanent_send_message_def rbind_Inr_iff)
    show ?thesis
      using send_message_output [OF b(1) b'(1)] b b' assms(1) Send_message Some
      by (simp add: messenger_ok_def accounted_def handed_def taken_def lines_of_def permanent_is_connected_def)
  qed
next
  case (Timer now started client)
  then have c: "client_ok client" and t: "taken st p = []" using assms(2) by (simp_all add: step_ok_def taken_def)
  show ?thesis
  proof (cases "pm_registered p \<and> ec_enabled (pm_timer p) \<and> \<not> pm_done p")
    case True
    then have "permanent_timeout E now started client (p\<lparr>pm_timer := timer_due now (pm_timer p)\<rparr>) = Inr p'" "pm_messenger p = None"
      using assms(1,4) Timer by (simp_all add: permanent_step_def messenger_ok_def)
    then show ?thesis
      using timer_step_ok [OF assms(1) _ _ c, of E now started p'] True Timer t
      by (simp add: accounted_def handed_def split: option.splits)
  next
    case False
    then have "p' = p \<or> p' = p\<lparr>pm_timer := timer_due now (pm_timer p)\<rparr>"
      using assms(4) Timer by (auto simp: permanent_step_def permanent_timeout_def split: if_splits)
    then show ?thesis
      using assms(1) Timer t by (auto simp: messenger_ok_def timer_due_ok accounted_def handed_def split: option.splits)
  qed
next
  case (Thread_done client)
  then have c: "client_ok client" and t: "taken st p = []" using assms(2) by (simp_all add: step_ok_def taken_def)
  show ?thesis
  proof (cases "pm_thread p")
    case True
    then have p: "\<not> pm_impl_done p" "thread_done E client p = Inr p'" "pm_messenger p = None"
      using assms(1,4) Thread_done by (auto simp: messenger_ok_def permanent_step_def)
    show ?thesis
      using thread_done_ok(1) [OF p(1) c p(2,3)] p(3) Thread_done t
      by (simp add: accounted_def handed_def split: option.splits)
  next
    case False
    then show ?thesis
      using assms Thread_done t by (auto simp: permanent_step_def accounted_def handed_def split: option.splits)
  qed
next
  case (Messenger_writes n)
  then have p: "p' = messenger_writes n p" using assms(4) by (simp add: permanent_step_def)
  from assms(1) show ?thesis
    by (cases rule: messenger_writes_cases [where n = n])
      (use p assms(1) Messenger_writes in \<open>auto simp: messenger_ok_def accounted_def handed_def taken_def disconnect_def\<close>)
next
  case Messenger_lost
  then have p: "p' = (if permanent_is_connected p then connection_lost p else p)" using assms(4) by (simp add: permanent_step_def)
  show ?thesis
    using p assms(1) Messenger_lost
    by (auto simp: permanent_is_connected_def connection_lost_def remove_permanent_def connection_removed_def disconnect_def
        set_enable_def messenger_ok_def accounted_def handed_def taken_def)
next
  case Disconnect
  then show ?thesis
    using assms by (auto simp: permanent_step_def disconnect_def messenger_ok_def accounted_def handed_def taken_def
        split: option.splits)
next
  case (Mark_done messenger)
  then show ?thesis
    using assms by (auto simp: permanent_step_def permanent_mark_done_def messenger_ok_def accounted_def handed_def taken_def
        split: option.splits)
qed

lemma permanent_steps_messages:
  "messenger_ok p \<Longrightarrow> list_all step_ok sts \<Longrightarrow> Mark_done True \<notin> set sts \<Longrightarrow> permanent_steps E sts p = Inr (out, ms, p') \<Longrightarrow>
   messenger_ok p' \<and> out @ lines_of E (pm_message_cache p') = lines_of E (pm_message_cache p) @ lines_of E ms"
proof (induction sts arbitrary: p out ms)
  case Nil
  then show ?case by simp
next
  case (Cons st sts)
  obtain p1 out1 ms1 where 1: "permanent_step E st p = Inr p1" "permanent_steps E sts p1 = Inr (out1, ms1, p')"
    "out = handed st p p1 @ out1" "ms = taken st p @ ms1" using Cons(5) by (auto simp: rbind_Inr_iff)
  have s: "messenger_ok p1" "accounted E st p p1" using permanent_step_messages [OF Cons(2) _ _ 1(1)] Cons(3,4) by auto
  show ?case using Cons(1) [OF s(1) _ _ 1(2)] Cons(3,4) s(2) 1(3,4) by (simp add: accounted_def)
qed

text \<open>When every message is sent with the cache flag, all of them are taken.\<close>

lemma all_taken:
  "permanent_steps E sts p = Inr (out, ms, p') \<Longrightarrow> (\<And>m. Send_message m False \<notin> set sts) \<Longrightarrow> ms = sent_messages sts"
proof (induction sts arbitrary: p out ms)
  case (Cons st sts)
  obtain p1 out1 ms1 where 1: "permanent_steps E sts p1 = Inr (out1, ms1, p')" "ms = taken st p @ ms1"
    using Cons(2) by (auto simp: rbind_Inr_iff)
  have "taken st p = sent_messages [st]"
  proof (cases st)
    case (Send_message m cache)
    then show ?thesis using Cons(3) [of m] by (cases cache) (simp_all add: taken_def sent_messages_def)
  qed (simp_all add: taken_def sent_messages_def)
  moreover have "ms1 = sent_messages sts" using Cons(1) [OF 1(1)] Cons(3) by simp
  ultimately show ?case using 1(2) by (simp add: sent_messages_def)
qed (simp add: sent_messages_def)

section \<open>Trying again\<close>

text \<open>While the connection is in use, the timer is enabled whenever it is down and no thread tries to make it.\<close>

definition permanent_ok :: "permanent \<Rightarrow> bool" where
  "permanent_ok p \<longleftrightarrow> messenger_ok p \<and> timer_ok p \<and> \<not> pm_done p \<and> pm_registered p
     \<and> (pm_messenger p = None \<and> \<not> pm_thread p \<longrightarrow> ec_enabled (pm_timer p))"

lemma same_use_ok: "same_use p p' \<Longrightarrow> timer_ok p \<Longrightarrow> timer_ok p'"
  by (auto simp: same_use_def timer_ok_def)

lemma permanent_send_message_same:
  assumes "permanent_send_message E m cache p = Inr (ok, p')"
  shows "pm_timer p' = pm_timer p" "pm_pause p' = pm_pause p" "pm_done p' = pm_done p" "pm_registered p' = pm_registered p"
    "pm_thread p' = pm_thread p" "(pm_messenger p' = None) = (pm_messenger p = None)"
  using assms by (auto simp: permanent_send_message_def rbind_Inr_iff split: option.splits if_splits)

lemma permanent_step_ok:
  assumes "permanent_ok p" "step_ok st" "in_use st" "permanent_step E st p = Inr p'"
  shows "permanent_ok p'"
proof -
  have p: "messenger_ok p" "timer_ok p" "\<not> pm_done p" "pm_registered p" "\<not> pm_impl_done p"
    "pm_messenger p = None \<and> \<not> pm_thread p \<Longrightarrow> ec_enabled (pm_timer p)"
    using assms(1) unfolding permanent_ok_def messenger_ok_def by blast+
  have m: "messenger_ok p'"
    using permanent_step_messages [OF p(1) assms(2) _ assms(4)] assms(3) by (cases st) (simp_all add: in_use_def)
  show ?thesis
  proof (cases st)
    case (Send_message m cache)
    then have "pm_timer p' = pm_timer p" "pm_pause p' = pm_pause p" "pm_done p' = pm_done p" "pm_registered p' = pm_registered p"
      "pm_thread p' = pm_thread p" "(pm_messenger p' = None) = (pm_messenger p = None)"
      using permanent_send_message_same assms(4) by (auto simp: permanent_step_def rbind_Inr_iff)
    then show ?thesis using m p by (simp add: permanent_ok_def timer_ok_def)
  next
    case (Timer now started client)
    then have now: "0 \<le> now" "client_ok client" using assms(2) by (simp_all add: step_ok_def)
    show ?thesis
    proof (cases "ec_enabled (pm_timer p)")
      case True
      then have t: "permanent_timeout E now started client (p\<lparr>pm_timer := timer_due now (pm_timer p)\<rparr>) = Inr p'"
        using assms(4) Timer p by (simp add: permanent_step_def)
      note r = timeout_starts [OF p(1,3) True t]
      have e: "pm_messenger p = None" using True p(1) by (simp add: messenger_ok_def)
      show ?thesis
      proof (cases "thread_done E client (ready now p) = Inr p'")
        case ended: True
        then show ?thesis
          using thread_done_ok(2) [OF _ now(2) ended] p e m same_use_ok [of "ready now p" p'] r(2) now(1)
          by (auto simp: permanent_ok_def ready_simps same_use_def)
      next
        case False
        then have q: "p' = (if started then set_enable False ((ready now p)\<lparr>pm_thread := True\<rparr>) else (ready now p)\<lparr>pm_thread := False\<rparr>)"
          using r(1) by blast
        have "timer_ok p'" using r(2) p(2) now(1) q by (simp add: timer_ok_def set_enable_def)
        then show ?thesis using m p True q by (simp add: permanent_ok_def set_enable_def ready_simps)
      qed
    next
      case False
      then show ?thesis using assms Timer by (simp add: permanent_step_def)
    qed
  next
    case (Thread_done client)
    then have c: "client_ok client" using assms(2) by (simp add: step_ok_def)
    show ?thesis
    proof (cases "pm_thread p")
      case True
      then have t: "thread_done E client p = Inr p'" "pm_messenger p = None"
        using assms(4) p(1) Thread_done by (auto simp: messenger_ok_def permanent_step_def)
      show ?thesis
        using thread_done_ok(2) [OF p(5) c t] m p same_use_ok [of p p'] by (auto simp: permanent_ok_def same_use_def)
    next
      case False
      then show ?thesis using assms Thread_done by (simp add: permanent_step_def)
    qed
  next
    case (Messenger_writes n)
    then have q: "p' = messenger_writes n p" using assms(4) by (simp add: permanent_step_def)
    from p(1) show ?thesis
      by (cases rule: messenger_writes_cases [where n = n]) (use q m p in \<open>simp_all add: permanent_ok_def timer_ok_def\<close>)
  next
    case Messenger_lost
    then have "p' = (if permanent_is_connected p then set_enable True (disconnect p) else p)"
      using assms(4) p(3) by (auto simp: permanent_step_def connection_lost_def)
    then show ?thesis using m p by (auto simp: permanent_ok_def timer_ok_def set_enable_def disconnect_def)
  qed (use assms(3) in \<open>simp_all add: in_use_def\<close>)
qed

lemma permanent_steps_ok:
  "permanent_ok p \<Longrightarrow> list_all step_ok sts \<Longrightarrow> list_all in_use sts \<Longrightarrow> permanent_steps E sts p = Inr (out, ms, p') \<Longrightarrow> permanent_ok p'"
proof (induction sts arbitrary: p out ms)
  case (Cons st sts)
  obtain p1 out1 ms1 where 1: "permanent_step E st p = Inr p1" "permanent_steps E sts p1 = Inr (out1, ms1, p')"
    using Cons(5) by (auto simp: rbind_Inr_iff)
  show ?case using Cons(1) [OF permanent_step_ok [OF Cons(2) _ _ 1(1)] _ _ 1(2)] Cons(3,4) by simp
qed simp

lemma new_permanent_ok:
  assumes "new_permanent now pause use_thread = Inr p"
  shows "messenger_ok p" "pm_message_cache p = []" "0 \<le> now \<Longrightarrow> pause \<noteq> 0 \<Longrightarrow> permanent_ok p"
  using assms
  by (auto simp: new_permanent_def snap_timer_def set_connection_date_def set_timeout_delay_def new_connection_record_def
      permanent_ok_def messenger_ok_def timer_ok_def rbind_Inr_iff split: if_splits)

section \<open>Properties\<close>

text \<open>
  C16. A permanent connection loses none of the messages it takes: those sent while it is connected and those sent with
  the cache flag (all of them when every message is sent with it; a message sent without it while there is no connection
  is dropped) are given to the messengers once and in the order they were sent; what these were given so far and what
  is still kept are the messages taken, and none is kept while it is connected. This holds whatever else happens, the
  loss of the connection, disconnecting and \<open>mark_done(false)\<close> included, but not behind \<open>mark_done(true)\<close>, which
  forgets the messages kept. A connection that was made can be written to and has an empty buffer.
\<close>

theorem permanent_keeps_messages:
  assumes "new_permanent now pause use_thread = Inr p0" "list_all step_ok sts" "Mark_done True \<notin> set sts"
    "permanent_steps E sts p0 = Inr (out, ms, p)"
  shows "out @ lines_of E (pm_message_cache p) = lines_of E ms \<and> (permanent_is_connected p \<longrightarrow> pm_message_cache p = [])
    \<and> ((\<forall>m. Send_message m False \<notin> set sts) \<longrightarrow> ms = sent_messages sts)"
  using permanent_steps_messages [OF _ assms(2-4)] new_permanent_ok [OF assms(1)] all_taken [OF assms(4)]
  by (auto simp: messenger_ok_def permanent_is_connected_def)

text \<open>
  C17. A permanent connection created with a pause between its attempts never gives up while it is in use, that is, as
  long as the program neither disconnects it nor marks it done: after any messages, timeouts, attempts to connect and
  losses of the connection the event loop still has it, and it is connected, or a thread is connecting, or its timer is
  enabled and has a date at which it tries again.
\<close>

theorem permanent_never_gives_up:
  assumes "new_permanent now pause use_thread = Inr p0" "0 \<le> now" "pause \<noteq> 0" "list_all step_ok sts" "list_all in_use sts"
    "permanent_steps E sts p0 = Inr (out, ms, p)"
  shows "pm_registered p
    \<and> (permanent_is_connected p \<or> pm_thread p \<or> ec_enabled (pm_timer p) \<and> get_timeout_timestamp (pm_timer p) \<noteq> -1)"
  using permanent_steps_ok [OF _ assms(4-6)] new_permanent_ok(3) [OF assms(1-3)]
  by (auto simp: permanent_ok_def timer_ok_def permanent_is_connected_def get_timeout_timestamp_def split: if_splits)

text \<open>A connection that is disconnected, and not marked done, stays as it is: nothing runs its timer again.\<close>

lemma disconnected_stays_down:
  assumes "pm_messenger p = Some b" "permanent_ok p"
  shows "\<not> permanent_is_connected (disconnect p) \<and> \<not> pm_thread (disconnect p) \<and> \<not> ec_enabled (pm_timer (disconnect p))"
  using assms by (simp add: permanent_is_connected_def disconnect_def permanent_ok_def messenger_ok_def)

definition sample_steps :: "permanent_step list" where
  "sample_steps =
     [Send_message sample_text_message True, Send_message sample_text_message False, Timer 1 True None, Thread_done None,
      Timer 20 False None, Send_message (empty_message\<lparr>m_command := ''STOP''\<rparr>) True, Timer 40 True None,
      Thread_done (Some no_connection), Messenger_writes 5, Messenger_lost, Send_message sample_text_message True]"

lemma sample_texts:
  "to_message text_env sample_text_message
     = Inr (''<cat:website *:snaplock/LOCK object_name='' @ [CHR 0x22] @ ''http://a/;b'' @ [CHR 0x22] @ '';pid=5'')"
  "to_message text_env (empty_message\<lparr>m_command := ''STOP''\<rparr>) = Inr ''STOP''"
  by code_simp+

lemmas permanent_run_defs =
  new_permanent_def snap_timer_def set_connection_date_def new_connection_record_def sample_steps_def
  permanent_step_def permanent_send_message_def timer_due_def calculate_next_tick_def permanent_timeout_def
  set_timeout_delay_def background_connect_def set_enable_def thread_done_def process_connection_failed_def Let_def
  sample_texts connection_send_message_def buffer_write_def no_connection_def can_write_def permanent_connected_def
  connection_lost_def permanent_is_connected_def disconnect_def permanent_mark_done_def messenger_writes_def is_writer_def
  buffer_has_output_def process_write_def taken_def

lemma sample_steps_run:
  "\<exists>p0 out ms p. new_permanent 0 10 True = Inr p0 \<and> permanent_steps text_env sample_steps p0 = Inr (out, ms, p)
    \<and> \<not> permanent_is_connected p \<and> \<not> pm_thread p"
  by (simp add: permanent_run_defs)

lemma sample_steps_end:
  "\<exists>p0 out p. new_permanent 0 10 True = Inr p0
    \<and> permanent_steps text_env (sample_steps @ [Disconnect, Mark_done False]) p0
      = Inr (out, [sample_text_message, empty_message\<lparr>m_command := ''STOP''\<rparr>, sample_text_message], p)
    \<and> pm_message_cache p = [sample_text_message]"
  by (simp add: permanent_run_defs)

lemma sample_steps_ok: "list_all step_ok (sample_steps @ [Disconnect, Mark_done False])" "list_all in_use sample_steps"
  by (simp_all add: sample_steps_def step_ok_def in_use_def client_ok_def no_connection_def can_write_def)

lemma permanent_keeps_messages_witness:
  "\<exists>out. out @ lines_of text_env [sample_text_message]
    = lines_of text_env [sample_text_message, empty_message\<lparr>m_command := ''STOP''\<rparr>, sample_text_message]"
proof -
  obtain p0 out p where p: "new_permanent 0 10 True = Inr p0"
    "permanent_steps text_env (sample_steps @ [Disconnect, Mark_done False]) p0
      = Inr (out, [sample_text_message, empty_message\<lparr>m_command := ''STOP''\<rparr>, sample_text_message], p)"
    "pm_message_cache p = [sample_text_message]" using sample_steps_end by blast
  have "Mark_done True \<notin> set (sample_steps @ [Disconnect, Mark_done False])" by (simp add: sample_steps_def)
  then show ?thesis using permanent_keeps_messages [OF p(1) sample_steps_ok(1) _ p(2)] p(3) by metis
qed

lemma permanent_never_gives_up_witness:
  "\<exists>p0 out ms p. new_permanent 0 10 True = Inr p0 \<and> permanent_steps text_env sample_steps p0 = Inr (out, ms, p)
    \<and> ec_enabled (pm_timer p)"
proof -
  obtain p0 out ms p where p: "new_permanent 0 10 True = Inr p0" "permanent_steps text_env sample_steps p0 = Inr (out, ms, p)"
    "\<not> permanent_is_connected p" "\<not> pm_thread p" using sample_steps_run by blast
  have "list_all step_ok sample_steps" using sample_steps_ok(1) by simp
  then show ?thesis using permanent_never_gives_up [OF p(1) _ _ _ sample_steps_ok(2) p(2)] p by auto
qed

end
