(* ===== verification/Spec2Isabelle.thy ===== *)
theory Spec2Isabelle
  imports ServiceProps DaemonProps BakeryProps TimeoutProps ClusterProps MessageProps MailProps FuzzyCompare VersionProps SnapPath PageStatus PermSample RouterSample DateProps UriProps HeaderProps CacheProps PermanentProps
begin

text \<open>
  A verification development of Snap! Websites (a C++ web server, its libraries and its
  daemons). It models the parts of the repository that carry logic of their own, as executable
  definitions translated from the source, and proves what makes each of them correct.

  \<^bold>\<open>The program and the parts modelled.\<close>
  Processes of a cluster talk to each other with one-line messages, which a router
  (snapcommunicator) carries between services and computers. The lock daemon (snaplock) of each
  computer uses them to give out inter-computer locks; the server answers requests for pages, to
  which the permissions plugin gives or refuses access.
  \<^item> Messages (\<open>libsnapwebsites/src/snapwebsites/snap_communicator.cpp\<close>): CommMessage holds the
    record and its setters, CommText the text form (\<open>to_message\<close>, \<open>from_message\<close>), CommCodec what
    the parser makes of each printed part, CommDispatcher the table of commands and its
    execution (\<open>snap_communicator_dispatcher.h\<close>). Properties: MessageProps.
  \<^item> The event loop (\<open>snap_communicator.cpp\<close>): CommBuffer holds the connections with buffers, which cut
    what they read into lines and keep what cannot be written yet, and the message connections made of them, CommLoop
    the timers of a connection and \<open>snap_communicator::run\<close>, CommPermanent the connections that are made again when
    they are lost. Properties: BufferProps, LoopProps, PermanentProps.
  \<^item> The lock daemon (\<open>snaplock/src/snaplock.cpp\<close>, \<open>snaplock_ticket.cpp\<close>): LockComputer
    (\<open>computer_t\<close>), LockState (the records \<open>snaplock\<close> and \<open>ticket\<close>, readiness, leaders), LockTicket and
    LockBakery (the operations of a ticket), LockDaemon (queues, timeouts, ticket numbers),
    LockHandlers (LOCK, UNLOCK, ABSOLUTELY), LockPeers (the protocol between leaders), LockSerial
    (tickets as text), LockElection (cluster and elections), LockDispatch (the table of handlers
    and the constructor). A ticket is shared by two maps in the code (\<open>std::shared_ptr\<close>): the maps
    of the model hold addresses into \<open>sl_heap\<close>. Messages sent are appended to \<open>sl_outbox\<close>.
    Properties: ServiceProps, DaemonProps, BakeryProps, TimeoutProps, ClusterProps.
  \<^item> Mails: QuotedPrintable (\<open>quoted_printable.cpp\<close>), properties in MailProps.
  \<^item> Versions of files and plugins: SnapVersion (\<open>snap_version.cpp\<close>), properties in VersionProps.
  \<^item> FuzzyCompare (\<open>fuzzy_string_compare.cpp\<close>), used to compare passwords.
  \<^item> Pages: SnapPath (\<open>canonicalize_path\<close> of \<open>snap_child.cpp\<close> and the key of a page), PageStatus
    (\<open>content/status.cpp\<close>, \<open>content/path_info.cpp\<close>).
  \<^item> Permissions (\<open>permissions/permissions.cpp\<close>): PermSets (\<open>sets_t\<close>, the rights of a user and the
    permissions of a page, with the text of their caches), PermAccess (how they are collected,
    cached and decided upon, and the answers to requests), PermSpec (the plain sets of rights that
    the code collects). Properties: PermProps and PermAnswer, on the sample site of PermSample.
  \<^item> The message router (\<open>snapcommunicator/src/snapcommunicator.cpp\<close>): RouterState (the connections,
    the state of the server, \<open>broadcast_message\<close>), RouterCluster (status of the cluster, neighbors,
    the connections to them, shutdown), RouterMessage (\<open>process_message\<close>, by command, and the
    forwarding to services and computers), RouterEvents (what each class of connection does on its
    events, runs, the start). Connections are shared pointers in the code: the model keeps them in
    \<open>r_heap\<close>, and messages sent are appended to \<open>r_outbox\<close>. RouterInvariant, RouterKept and RouterRuns
    show that every event keeps the state well formed, and any other relation that allows the steps the operations are made
    of (\<open>router_evolution\<close>). Properties: RouterProps (broadcasts),
    RouterServices (delivery), RouterNeighbors (restart, shutdown, runs), with the routers of
    RouterSample.
  \<^item> Dates and URIs of the HTTP side of the server: CivilDate (\<open>mkgmtime.c\<close>, the calendar), HttpDate
    (\<open>date_to_string\<close>, \<open>string_to_date\<close> of \<open>snap_child.cpp\<close>, the parser as functions from the rest of the
    text), UrlCode (\<open>urlencode\<close>, \<open>urldecode\<close>) and SnapUri (the class \<open>snap_uri\<close>), with HttpText for what they
    use of Qt and of the C library. Properties: DateProps, UriProps.
  \<^item> The headers of a response: HttpHeader (\<open>set_header\<close>, \<open>output_cookies\<close>, \<open>output_http_links\<close> of
    \<open>snap_child.cpp\<close>, \<open>http_cookie.cpp\<close>, \<open>http_link.cpp\<close>), HttpStrings (the parser of weighted strings,
    \<open>http_strings.cpp\<close>) and CacheControl (\<open>cache_control.cpp\<close>, \<open>set_cache_control\<close> of
    \<open>snap_child_cache_control.cpp\<close>, \<open>output_headers\<close>). The record \<open>response\<close> is the part of a child that holds them;
    what \<open>write\<close> sends is appended to \<open>r_written\<close>. Properties: HeaderProps, CacheProps.
  SnapPrelude and OrderedMap are shared: results with exceptions, machine integers, text, the
  environment; \<open>std::map\<close> and \<open>QMap\<close> as sorted association lists. Numbers holds facts about printed
  numbers.

  \<^bold>\<open>How code is translated.\<close>
  A function that may throw returns \<open>exn + 'a\<close>, with a constructor of \<open>exn\<close> per exception class;
  \<open>Undefined_behaviour\<close> is the value of an operation that C++ leaves undefined. State is passed
  explicitly, as records whose fields carry the names of the members. Integers keep their width
  where the code can reach the bounds (\<open>32 word\<close>, \<open>int32\<close>, \<open>size_t\<close>). \<open>QString\<close> is \<open>string\<close>. What the
  code reads from outside the repository (clock, random numbers, Qt's number parser, \<open>trimmed\<close>,
  \<open>string_replace_many\<close> of the snapdev project, the contents of the database) is the argument \<open>E\<close> of
  type \<open>env\<close> (extended with addresses to \<open>renv\<close> for the router), or a record named in the theory. Loops are structural recursion or \<open>function\<close> with a
  measure, so no fuel is used: \<open>cleanup\<close>, \<open>find_first_lock\<close>, the parser and the encoders end by
  construction. Groups of permissions are linked to their children in the database, where nothing
  forbids a cycle: the two recursions that follow them are \<open>partial_function (option)\<close>, \<open>None\<close> is
  a run that does not return, and \<open>validation_returns\<close> shows when there is none.

  \<^bold>\<open>Interfaces.\<close>
  \<open>ordered_dict\<close> (OrderedMap) is the contract of the ordered maps, interpreted on the association
  lists. \<open>message_service\<close> (CommDispatcher) is the contract of a table of handlers: if each keeps an
  invariant and evolves the state in a transitive way, so does any sequence of messages; it is
  interpreted on the daemon's own table (LockKept). \<open>invariant_machine\<close> and its extension
  \<open>simulation\<close> (LockService) give invariants and abstract runs of a step relation; they are
  interpreted on the steps of the lock service, its invariant \<open>head_locked\<close> and the abstract
  first-in first-out service. \<open>codec\<close> (CommCodec) is an escaping that is undone, interpreted on the
  escapes of messages. \<open>router_evolution\<close> (RouterInvariant) is a relation between states of the router that allows the
  steps of its operations: every operation, event and run then stays within it; it is interpreted on the invariant
  \<open>rgood\<close> (RouterRuns) and on \<open>keeps_waiting\<close>, that the messages kept for a service stay (RouterServices).

  \<^bold>\<open>What is shown.\<close>
  For a daemon alone in its cluster, from its constructor and through any requests and timeouts:
  mutual exclusion, first come first served (a refinement of an abstract service), what LOCK and
  UNLOCK do exactly. For any daemon and any messages from anyone: the invariant of its state, the
  bound on LOCKED and UNLOCKED messages (\<open>locked_messages_paid\<close>), the stages of a ticket only advance. For tickets: keys order as numbers, both sides of ADDTICKET agree, numbers do not go
  down, nothing that timed out survives \<open>cleanup\<close>, durations are clamped. For clusters: identifiers
  are read back and rank computers by priority, two ready parts of a cluster share a computer.
  For connections: messages arrive as
  they were sent however the network cuts them, timers run when they are due, and permanent connections keep
  the messages they take and, while they are in use, never give up. For messages: a printed message is one line and is read back when its values do not end with a
  backslash (and what happens when they do). For mails: decoding undoes encoding, lines are short.
  For versions: order, round trips, canonical filenames. For pages: a canonical path cannot leave
  the site, the status of a page follows its state machine, requests pass exactly when the rights of
  the user and the permissions of the page, as plain sets, say so, decisions are kept by the caches
  until a permission link changes, and a decision made without cache never grants less to a higher login status when
  the groups of these statuses are children of each other. For the router: a
  broadcast is passed on once and never to a computer known to have it, a message for a service
  reaches it or waits for it whatever else happens, the state stays well formed through any events, neighbors survive a
  restart, and a shutdown leaves only connections that are marked done (a router that it is not connected to never goes, see
  the findings). For dates and URIs: what
  is printed is read back, the path of a URI never climbs above its root, and two errors of the
  parsers (the sign of time zones, a query string without a name). For the headers of a response: no
  header ends the block of headers but one can hold another, a cookie does not come back as it was
  sent, the Cache-Control header of a response that may be cached is read back as what page and server decided, but for
  no-store and no-cache, which it never has, and ages stay below one year.

  \<^bold>\<open>Hypotheses.\<close>
  \<open>numbers_ok E\<close>: Qt reads back what it prints. \<open>text_ok\<close>, \<open>text_env\<close>: \<open>string_replace_many\<close> replaces
  from left to right and \<open>trimmed\<close> removes white space. \<open>room\<close>: fewer than \<open>2 ^ 32 - 1\<close> tickets were
  numbered. \<open>qt_ok\<close>: \<open>simplified\<close> leaves words separated by single spaces alone, \<open>toLower\<close> changes the
  letters A to Z of ASCII. \<open>domain_ok\<close>: libtld finds the top level domain of the URI where it is. \<open>keeps_output\<close>, \<open>keeps_private\<close>,
  \<open>step_ok\<close>: callbacks leave the private members of the class alone, a new connection has an empty buffer; \<open>in_use\<close>: a
  permanent connection is not disconnected nor marked done by the program. \<open>keepable\<close>: a message for a service asks
  for no other time in the cache and no report. \<open>sendable\<close>: a message whose printed form is read back. \<open>settings_ok\<close>: the ages of cache settings are
  in their bounds, as the setters leave them, and their names are names of headers. \<open>expires_ok\<close>: Qt prints dates in
  printable ASCII. \<open>tags_ok\<close>: so are the cache tags, and their headers have names of headers. Each property with a hypothesis has a witness at a concrete state.

  \<^bold>\<open>Bounds.\<close>
  The mutual exclusion proved is that of one daemon. With three leaders the daemon relies on
  messages arriving in order and on clocks; the theorems for any daemon and the quorum theorem are
  what holds without such assumptions. The date of the next timeout of the lock daemon,
  in seconds, is multiplied by one million without the overflow of 64 bits; the timeout given to \<open>poll\<close> loses its
  upper bits as in the code.

  \<^bold>\<open>Not modelled.\<close>
  The release build is modelled: code under \<open>_DEBUG\<close> and logging are left out, and so are caches
  that every setter clears (\<open>f_cached_message\<close>). Of the event loop, what the kernel answers to
  \<open>poll\<close>, \<open>read\<close> and \<open>write\<close> is an argument; opening sockets, signals, inotify, UDP and
  blocking connections are left out. The database driver, configuration files and command lines are I/O. The server's page generation and most
  plugins are glue over Cassandra and Qt XML. The new database (snapdatabase) is at an early
  stage: several of its operations throw not-yet-implemented errors. Of the router, the load average
  (floating point and a file), the reading of its configuration and TLS are left out. Of the HTTP
  side, the choice of a language and of a compression, the 304 answers and the sessions of users are left out.
\<close>

end
